(* ===== verification/Prelude.thy ===== *)
theory Prelude
  imports
    Main
    "HOL-Library.AList"
    "HOL-Library.Char_ord"
    "HOL-Library.List_Lexorder"
    "HOL-Library.Multiset"
begin

text \<open>
  The vocabulary every component theory shares.

  \<^item> \<open>'a result\<close>: a computation of the TypeScript source that either throws (\<open>Inl\<close> of a
    \<open>failure\<close>) or returns (\<open>Inr\<close>). \<open>CodedFailure code args\<close> is the class of
    \<^verbatim>\<open>src/src/contracts/failure.ts\<close>; \<open>args\<close> are the identities its message names, in the order of
    the message (and the blocked block ids for the cycle failure, which only its details name); the
    remaining diagnostic details are not modelled. \<open>NativeError\<close> is a plain \<open>Error\<close> or \<open>TypeError\<close>.
  \<^item> \<open>string\<close>: a JavaScript string as its list of code units. \<open>char\<close> carries the code units
    below 256; on them the list order of \<open>List_Lexorder\<close> and \<open>Char_ord\<close> is the comparison of
    code units that \<open><\<close> on JavaScript strings performs.
  \<^item> a JavaScript \<open>Map\<close> is an association list in insertion order, updated in place by
    \<open>AList.update\<close> (a known key keeps its position, a new one goes last); a \<open>Set\<close> is a
    duplicate-free list in insertion order.
\<close>

named_theorems result_simps \<open>evaluation rules of the result type\<close>
named_theorems jsmap_simps \<open>lookup and key rules of insertion-ordered maps\<close>

section \<open>Failures and results\<close>

datatype failure =
    CodedFailure (failure_code: string) (failure_args: "string list")
  | NativeError string

type_synonym 'a result = "failure + 'a"

definition throw :: "failure \<Rightarrow> 'a result" where
  "throw e = Inl e"

definition bind_r :: "'a result \<Rightarrow> ('a \<Rightarrow> 'b result) \<Rightarrow> 'b result" where
  "bind_r m f = (case m of Inl e \<Rightarrow> Inl e | Inr x \<Rightarrow> f x)"

text \<open>\<open>if (condition) throw e;\<close>\<close>

definition throw_if :: "bool \<Rightarrow> failure \<Rightarrow> unit result" where
  "throw_if c e = (if c then Inl e else Inr ())"

text \<open>A \<open>for\<close> loop whose body updates a state and may throw.\<close>

fun fold_r :: "('a \<Rightarrow> 's \<Rightarrow> 's result) \<Rightarrow> 'a list \<Rightarrow> 's \<Rightarrow> 's result" where
  "fold_r f [] s = Inr s"
| "fold_r f (x # xs) s = bind_r (f x s) (fold_r f xs)"

text \<open>A \<open>map\<close> whose callback may throw: the first failure wins.\<close>

fun map_r :: "('a \<Rightarrow> 'b result) \<Rightarrow> 'a list \<Rightarrow> 'b list result" where
  "map_r f [] = Inr []"
| "map_r f (x # xs) = bind_r (f x) (\<lambda>y. bind_r (map_r f xs) (\<lambda>ys. Inr (y # ys)))"

text \<open>A loop of checks: throws what the first failing element throws.\<close>

fun check_all :: "('a \<Rightarrow> unit result) \<Rightarrow> 'a list \<Rightarrow> unit result" where
  "check_all f [] = Inr ()"
| "check_all f (x # xs) = bind_r (f x) (\<lambda>_. check_all f xs)"

definition is_ok :: "'a result \<Rightarrow> bool" where
  "is_ok m = (case m of Inl _ \<Rightarrow> False | Inr _ \<Rightarrow> True)"

lemma bind_r_simps [simp, result_simps]:
  "bind_r (Inl e) f = Inl e"
  "bind_r (Inr x) f = f x"
  by (simp_all add: bind_r_def)

lemma throw_if_simps [simp, result_simps]:
  "throw_if True e = Inl e"
  "throw_if False e = Inr ()"
  by (simp_all add: throw_if_def)

lemma is_ok_simps [simp, result_simps]:
  "is_ok (Inr x)"
  "\<not> is_ok (Inl e)"
  by (simp_all add: is_ok_def)

lemma is_ok_iff: "is_ok m \<longleftrightarrow> (\<exists>x. m = Inr x)"
  by (auto simp: is_ok_def split: sum.splits)

lemma throw_if_Inr_iff [simp]: "throw_if c e = Inr u \<longleftrightarrow> \<not> c"
  by (simp add: throw_if_def)

lemma throw_if_Inl_iff [simp]: "throw_if c e = Inl e' \<longleftrightarrow> c \<and> e' = e"
  by (auto simp: throw_if_def)

lemma bind_r_Inr_iff: "bind_r m f = Inr y \<longleftrightarrow> (\<exists>x. m = Inr x \<and> f x = Inr y)"
  by (cases m) auto

lemma bind_r_Inl_iff: "bind_r m f = Inl e \<longleftrightarrow> m = Inl e \<or> (\<exists>x. m = Inr x \<and> f x = Inl e)"
  by (cases m) auto

lemma bind_r_InrE [elim!]:
  assumes "bind_r m f = Inr y"
  obtains x where "m = Inr x" and "f x = Inr y"
  using assms by (auto simp: bind_r_Inr_iff)

lemma bind_r_cong [fundef_cong]:
  "m = m' \<Longrightarrow> (\<And>x. m' = Inr x \<Longrightarrow> f x = g x) \<Longrightarrow> bind_r m f = bind_r m' g"
  by (cases m') auto

lemma bind_r_assoc: "bind_r (bind_r m f) g = bind_r m (\<lambda>x. bind_r (f x) g)"
  by (cases m) auto

lemma fold_r_append [simp]: "fold_r f (xs @ ys) s = bind_r (fold_r f xs s) (fold_r f ys)"
proof (induction xs arbitrary: s)
  case Nil
  show ?case by simp
next
  case (Cons x xs)
  then show ?case by (cases "f x s") simp_all
qed

lemma fold_r_total: "fold_r (\<lambda>x s. Inr (f x s)) xs s = Inr (fold f xs s)"
  by (induction xs arbitrary: s) simp_all

lemma fold_r_cong [fundef_cong]:
  "xs = ys \<Longrightarrow> s = t \<Longrightarrow> (\<And>x u. x \<in> set ys \<Longrightarrow> f x u = g x u) \<Longrightarrow> fold_r f xs s = fold_r g ys t"
  by (induction ys arbitrary: xs s t) (auto intro!: bind_r_cong)

lemma check_all_Inr_iff: "check_all f xs = Inr u \<longleftrightarrow> (\<forall>x \<in> set xs. f x = Inr ())"
  by (induction xs) (auto simp: bind_r_Inr_iff)

lemma check_all_InlD: "check_all f xs = Inl e \<Longrightarrow> \<exists>x \<in> set xs. f x = Inl e"
  by (induction xs) (auto simp: bind_r_Inl_iff)

lemma check_all_cases: "check_all f xs = Inr () \<or> (\<exists>e. check_all f xs = Inl e)"
  by (cases "check_all f xs") auto

lemma map_r_Inr_length: "map_r f xs = Inr ys \<Longrightarrow> length ys = length xs"
  by (induction xs arbitrary: ys) auto

lemma map_r_Inr_iff:
  "map_r f xs = Inr ys \<longleftrightarrow> length ys = length xs \<and> (\<forall>i < length xs. f (xs ! i) = Inr (ys ! i))"
proof (induction xs arbitrary: ys)
  case Nil
  show ?case by auto
next
  case (Cons x xs)
  show ?case
    by (cases ys) (auto simp: bind_r_Inr_iff Cons.IH All_less_Suc2)
qed

lemma map_r_cong [fundef_cong]:
  "xs = ys \<Longrightarrow> (\<And>x. x \<in> set ys \<Longrightarrow> f x = g x) \<Longrightarrow> map_r f xs = map_r g ys"
  by (induction ys arbitrary: xs) (auto intro!: bind_r_cong)

lemma map_r_total: "map_r (\<lambda>x. Inr (f x)) xs = Inr (map f xs)"
  by (induction xs) auto

lemma map_r_InrD: "map_r f xs = Inr ys \<Longrightarrow> y \<in> set ys \<Longrightarrow> \<exists>x \<in> set xs. f x = Inr y"
  by (auto simp: map_r_Inr_iff in_set_conv_nth) (metis nth_mem)

lemma map_r_InlD: "map_r f xs = Inl e \<Longrightarrow> \<exists>x \<in> set xs. f x = Inl e"
  by (induction xs) (auto simp: bind_r_Inl_iff)

text \<open>
  Loops that keep an invariant: the state a loop starts from satisfies \<open>I\<close>, and whenever the
  body returns from a state satisfying \<open>I\<close> the new state satisfies it too.
\<close>

locale loop_invariant =
  fixes body :: "'a \<Rightarrow> 's \<Rightarrow> 's result"
    and I :: "'s \<Rightarrow> bool"
    and dom :: "'a \<Rightarrow> bool"
  assumes body_keeps: "I s \<Longrightarrow> dom x \<Longrightarrow> body x s = Inr s' \<Longrightarrow> I s'"
begin

lemma loop_keeps:
  "I s \<Longrightarrow> (\<And>x. x \<in> set xs \<Longrightarrow> dom x) \<Longrightarrow> fold_r body xs s = Inr s' \<Longrightarrow> I s'"
  by (induction xs arbitrary: s) (auto intro: body_keeps)

end

section \<open>Insertion-ordered maps and sets\<close>

type_synonym ('k, 'v) jsmap = "('k \<times> 'v) list"

definition map_get :: "('k, 'v) jsmap \<Rightarrow> 'k \<Rightarrow> 'v option" where
  "map_get m k = map_of m k"

definition map_has :: "('k, 'v) jsmap \<Rightarrow> 'k \<Rightarrow> bool" where
  "map_has m k = (map_of m k \<noteq> None)"

definition map_set :: "'k \<Rightarrow> 'v \<Rightarrow> ('k, 'v) jsmap \<Rightarrow> ('k, 'v) jsmap" where
  "map_set k v m = AList.update k v m"

text \<open>\<open>new Map(entries)\<close>: later entries overwrite earlier ones.\<close>

definition map_from :: "('k \<times> 'v) list \<Rightarrow> ('k, 'v) jsmap" where
  "map_from kvs = fold (\<lambda>(k, v). map_set k v) kvs []"

text \<open>The list a key is mapped to, extended at its end (created when absent).\<close>

definition map_push :: "'k \<Rightarrow> 'v \<Rightarrow> ('k, 'v list) jsmap \<Rightarrow> ('k, 'v list) jsmap" where
  "map_push k v m = (case map_get m k of None \<Rightarrow> map_set k [v] m | Some vs \<Rightarrow> map_set k (vs @ [v]) m)"

fun dedup :: "'a list \<Rightarrow> 'a list" where
  "dedup [] = []"
| "dedup (x # xs) = x # filter (\<lambda>y. y \<noteq> x) (dedup xs)"

text \<open>The contract of \<open>Map\<close> that clients rely on.\<close>

locale js_store =
  fixes get :: "'m \<Rightarrow> 'k \<Rightarrow> 'v option"
    and put :: "'k \<Rightarrow> 'v \<Rightarrow> 'm \<Rightarrow> 'm"
    and empty :: 'm
  assumes get_empty: "get empty k = None"
    and get_put: "get (put k v m) k' = (if k' = k then Some v else get m k')"
begin

lemma get_put_same: "get (put k v m) k = Some v"
  by (simp add: get_put)

lemma get_put_other: "k' \<noteq> k \<Longrightarrow> get (put k v m) k' = get m k'"
  by (simp add: get_put)

lemma get_fold_put_notin:
  "k \<notin> fst ` set kvs \<Longrightarrow> get (fold (\<lambda>(a, b). put a b) kvs m) k = get m k"
  by (induction kvs arbitrary: m) (auto simp: get_put)

lemma get_fold_put_in:
  "k \<in> fst ` set kvs \<Longrightarrow> \<exists>v. (k, v) \<in> set kvs \<and> get (fold (\<lambda>(a, b). put a b) kvs m) k = Some v"
proof (induction kvs arbitrary: m)
  case Nil
  then show ?case by simp
next
  case (Cons kv kvs)
  show ?case
  proof (cases "k \<in> fst ` set kvs")
    case True
    then show ?thesis using Cons.IH [OF True] by fastforce
  next
    case False
    then show ?thesis using Cons.prems
      by (cases kv) (auto simp: get_fold_put_notin [OF False] get_put_same)
  qed
qed

end

interpretation jm: js_store map_get map_set "[]"
  by unfold_locales (simp_all add: map_get_def map_set_def update_conv')

lemma map_has_get [jsmap_simps]: "map_has m k \<longleftrightarrow> map_get m k \<noteq> None"
  by (simp add: map_has_def map_get_def)

lemma map_has_keys: "map_has m k \<longleftrightarrow> k \<in> fst ` set m"
  by (simp add: map_has_def dom_map_of_conv_image_fst [symmetric] domIff)

lemma map_get_Some_in: "map_get m k = Some v \<Longrightarrow> (k, v) \<in> set m"
  by (simp add: map_get_def map_of_SomeD)

lemma map_get_None_iff: "map_get m k = None \<longleftrightarrow> k \<notin> fst ` set m"
  by (simp add: map_get_def map_of_eq_None_iff)

lemma keys_map_set: "map fst (map_set k v m) =
    (if k \<in> fst ` set m then map fst m else map fst m @ [k])"
  by (induction m) (auto simp: map_set_def)

lemma key_set_map_set [simp, jsmap_simps]: "fst ` set (map_set k v m) = insert k (fst ` set m)"
proof -
  have "fst ` set (map_set k v m) = set (map fst (map_set k v m))" by simp
  also have "\<dots> = insert k (fst ` set m)"
    unfolding keys_map_set by (simp add: insert_absorb)
  finally show ?thesis .
qed

lemma distinct_map_set: "distinct (map fst m) \<Longrightarrow> distinct (map fst (map_set k v m))"
  by (auto simp: keys_map_set)

lemma map_set_new: "k \<notin> fst ` set m \<Longrightarrow> map_set k v m = m @ [(k, v)]"
  by (induction m) (auto simp: map_set_def)

lemma map_from_distinct: "distinct (map fst kvs) \<Longrightarrow> map_from kvs = kvs"
proof -
  have "distinct (map fst (m @ kvs)) \<Longrightarrow> fold (\<lambda>(k, v). map_set k v) kvs m = m @ kvs" for m
  proof (induction kvs arbitrary: m)
    case (Cons kv kvs)
    then show ?case using Cons.IH [of "m @ [kv]"] by (cases kv) (auto simp: map_set_new)
  qed simp
  from this [of "[]"] show "distinct (map fst kvs) \<Longrightarrow> map_from kvs = kvs" by (simp add: map_from_def)
qed

lemmas map_get_set [simp, jsmap_simps] = jm.get_put

lemma map_get_Nil [simp, jsmap_simps]: "map_get [] k = None"
  by (simp add: map_get_def)

lemma map_get_push [jsmap_simps]:
  "map_get (map_push k v m) k' =
     (if k' = k then Some ((case map_get m k of None \<Rightarrow> [] | Some vs \<Rightarrow> vs) @ [v]) else map_get m k')"
  by (simp add: map_push_def split: option.split)

lemma set_dedup [simp]: "set (dedup xs) = set xs"
  by (induction xs) auto

lemma distinct_dedup [simp]: "distinct (dedup xs)"
  by (induction xs) auto

lemma dedup_distinct [simp]: "distinct xs \<Longrightarrow> dedup xs = xs"
  by (induction xs) (auto simp: filter_id_conv)

lemma length_dedup: "length (dedup xs) = card (set xs)"
  by (metis distinct_card distinct_dedup set_dedup)

lemma length_dedup_eq_iff: "length (dedup xs) = length xs \<longleftrightarrow> distinct xs"
  by (metis card_distinct dedup_distinct distinct_dedup length_dedup)

section \<open>Generic facts on lists\<close>

lemma sorted_wrt_nth_mono:
  "sorted_wrt P xs \<Longrightarrow> i < j \<Longrightarrow> j < length xs \<Longrightarrow> P (xs ! i) (xs ! j)"
  by (rule sorted_wrt_nth_less)

lemma distinct_sorted_strict:
  fixes xs :: "'a::linorder list"
  shows "sorted xs \<Longrightarrow> distinct xs \<Longrightarrow> sorted_wrt (<) xs"
  by (simp add: strict_sorted_iff)

lemma mset_update_swap:
  "i < length xs \<Longrightarrow> j < length xs \<Longrightarrow> i \<noteq> j \<Longrightarrow>
   mset (xs[i := xs ! j, j := v]) = mset (xs[i := v])"
  by (simp add: mset_update nth_mem_mset)

lemma filter_two:
  assumes "i < j" and "j < length xs" and "P (xs ! i)" and "P (xs ! j)"
  shows "1 < length (filter P xs)"
proof -
  have "xs ! i \<in> set (filter P (take j xs))"
    using assms by (auto simp: in_set_conv_nth intro!: exI [of _ i])
  then have "0 < length (filter P (take j xs))" by (rule length_pos_if_in_set)
  moreover have "xs ! j \<in> set (filter P (drop j xs))"
    using assms by (auto simp: in_set_conv_nth intro!: exI [of _ 0])
  then have "0 < length (filter P (drop j xs))" by (rule length_pos_if_in_set)
  moreover have "length (filter P (take j xs @ drop j xs)) = length (filter P (take j xs)) + length (filter P (drop j xs))"
    by (simp only: filter_append length_append)
  ultimately show ?thesis unfolding append_take_drop_id by linarith
qed

lemma filter_positions:
  "a < b \<Longrightarrow> b < length (filter P xs) \<Longrightarrow>
     \<exists>i j. i < j \<and> j < length xs \<and> xs ! i = filter P xs ! a \<and> xs ! j = filter P xs ! b"
proof (induction xs arbitrary: a b)
  case (Cons x xs)
  show ?case
  proof (cases "P x")
    case False
    then obtain i j where "i < j" "j < length xs" "xs ! i = filter P xs ! a" "xs ! j = filter P xs ! b"
      using Cons.IH [of a b] Cons.prems by auto
    then show ?thesis using False by (intro exI [of _ "Suc i"] exI [of _ "Suc j"]) simp
  next
    case True
    have "b \<noteq> 0" "b - 1 < length (filter P xs)" using Cons.prems True by auto
    then have "filter P xs ! (b - 1) \<in> set xs" by (metis filter_is_subset nth_mem subsetD)
    then obtain j where j: "j < length xs" "xs ! j = filter P xs ! (b - 1)" by (auto simp: in_set_conv_nth)
    show ?thesis
    proof (cases a)
      case 0
      then show ?thesis using True j \<open>b \<noteq> 0\<close>
        by (intro exI [of _ 0] exI [of _ "Suc j"]) (simp add: nth_Cons')
    next
      case (Suc a')
      then have "a' < b - 1" using Cons.prems by simp
      then obtain i j where "i < j" "j < length xs" "xs ! i = filter P xs ! a'" "xs ! j = filter P xs ! (b - 1)"
        using Cons.IH \<open>b - 1 < length (filter P xs)\<close> by blast
      then show ?thesis using True Suc \<open>b \<noteq> 0\<close>
        by (intro exI [of _ "Suc i"] exI [of _ "Suc j"]) (simp add: nth_Cons')
    qed
  qed
qed simp

end
