(* ===== verification/Manifest.thy ===== *)
theory Manifest
  imports Prelude "HOL-Library.Product_Lexorder"
begin

text \<open>
  The plan and manifest data of \<^verbatim>\<open>src/src/compiler/contract/plan-manifest.ts\<close> and
  \<^verbatim>\<open>src/src/contracts/registry-source.ts\<close>, the definition-consistency check of
  \<^verbatim>\<open>src/src/compiler/contract/manifest-validation.ts\<close> and the target-stack rule of
  \<^verbatim>\<open>src/src/compiler/align/align-interfaces.ts\<close>.

  An optional property of an interface is an \<open>option\<close> field. Manifest values are plain data
  (strings, booleans, arrays, objects), on which \<open>canonicalEquals\<close> compares the canonical JSON
  of both sides: it ignores the order of object keys and nothing else, so on the records of this
  theory it is equality.
\<close>

section \<open>Registry sources\<close>

datatype registry_kind = OfficialRegistry | PrivateRegistry | CommunityRegistry

datatype registry_location = CompilerLocation | WorkspaceLocation

definition BUILTIN_OFFICIAL_REGISTRY_RELATIVE_PATH :: string where
  "BUILTIN_OFFICIAL_REGISTRY_RELATIVE_PATH = ''catalog/registry/official''"

record registry_manifest_identity =
  rmi_version :: string
  rmi_registrySourceId :: string
  rmi_registryKind :: registry_kind
  rmi_registryLocation :: registry_location
  rmi_registryPath :: string

text \<open>\<open>policy\<close> has the single value \<open>'source-order'\<close>.\<close>

record registry_source_resolution =
  shadowed :: "registry_manifest_identity list"

section \<open>Manifests\<close>

datatype manifest_kind = Capability | Strategy | Infra | Governance

record manifest_pin =
  pin_id :: string
  pin_type :: string
  pin_required :: "bool option"

record install_instruction =
  install_kind :: string
  install_from :: string
  install_to :: string

record manifest_compatibility =
  blockApi :: string
  compilerApi :: string
  compat_stackProfiles :: "string list"

record manifest_pins =
  pin_inputs :: "manifest_pin list"
  pin_outputs :: "manifest_pin list"

record upgrade_migration =
  mig_id :: string
  mig_kind :: string
  mig_entry :: string
  mig_fromVersion :: "string option"
  mig_toVersion :: "string option"
  mig_requiresVerification :: "bool option"

record upgrade_config =
  upgrade_from :: "string list"
  upgrade_migrations :: "upgrade_migration list"

text \<open>\<open>source?: {tests}\<close> and \<open>covers?: {blocks?}\<close> have one field each.\<close>

record acceptance_item =
  acc_id :: string
  acc_source :: "string list option"
  acc_dependsOn :: "string list option"
  acc_covers :: "string list option option"

datatype consume_kind = ConsumeState | ConsumeTransition

record manifest_generator =
  gen_id :: string
  gen_target :: string
  gen_consumes :: "consume_kind list"
  gen_verification :: "string list"
  gen_contract :: string
  gen_state :: string
  gen_typeName :: string
  gen_importFrom :: string

record block_manifest =
  block_id :: string
  version :: string
  kind :: manifest_kind
  stackProfiles :: "string list"
  compatibility :: "manifest_compatibility option"
  requires :: "string list"
  provides :: "string list"
  conflicts :: "string list"
  installs :: "install_instruction list"
  pins :: manifest_pins
  acceptance :: "acceptance_item list"
  upgrade :: "upgrade_config option"
  contracts :: "string list"
  generators :: "manifest_generator list"

record manifest_entry =
  registryResolution :: "registry_source_resolution option"
  manifest :: block_manifest
  manifestPath :: string
  manifestRoot :: string
  resourceRoots :: "string list"
  registryRoot :: string
  registrySourceId :: string
  registryKind :: registry_kind
  registryLocation :: registry_location
  registryPath :: string

abbreviation entry_id :: "manifest_entry \<Rightarrow> string" where
  "entry_id e \<equiv> block_id (manifest e)"

abbreviation entry_version :: "manifest_entry \<Rightarrow> string" where
  "entry_version e \<equiv> version (manifest e)"

text \<open>\<open>KIND_PRIORITY\<close>; its fallback \<open>?? 99\<close> has no kind left to apply to.\<close>

fun KIND_PRIORITY :: "manifest_kind \<Rightarrow> nat" where
  "KIND_PRIORITY Infra = 0"
| "KIND_PRIORITY Governance = 1"
| "KIND_PRIORITY Capability = 2"
| "KIND_PRIORITY Strategy = 3"

section \<open>One definition per identity and version\<close>

text \<open>
  The loop body of \<open>assertManifestDefinitionConsistency\<close>. The key \<open>JSON.stringify([id, version])\<close>
  is the pair: \<open>JSON.stringify\<close> is injective on arrays of strings.
\<close>

type_synonym definitions = "(string \<times> string, manifest_entry) jsmap"

definition record_definition :: "manifest_entry \<Rightarrow> definitions \<Rightarrow> definitions result" where
  "record_definition entry defs =
     (let key = (entry_id entry, entry_version entry)
      in case map_get defs key of
           None \<Rightarrow> Inr (map_set key entry defs)
         | Some previous \<Rightarrow>
             if manifest previous \<noteq> manifest entry
             then throw (CodedFailure ''RESOLVE-CONFLICT-004'' [entry_id entry, entry_version entry])
             else Inr defs)"

definition assertManifestDefinitionConsistency :: "manifest_entry list \<Rightarrow> unit result" where
  "assertManifestDefinitionConsistency entries =
     bind_r (fold_r record_definition entries []) (\<lambda>_. Inr ())"

section \<open>The target stack\<close>

definition SUPPORTED_STACK :: string where
  "SUPPORTED_STACK = ''typescript-library''"

definition isManifestStackCompatible :: "string list \<Rightarrow> bool" where
  "isManifestStackCompatible profiles = (SUPPORTED_STACK \<in> set profiles)"

definition assertManifestStackCompatibility :: "string \<Rightarrow> string list \<Rightarrow> unit result" where
  "assertManifestStackCompatibility blockId profiles =
     throw_if (\<not> isManifestStackCompatible profiles) (CodedFailure ''ALIGN-STACK-001'' [blockId])"

text \<open>\<open>alignInterfaces\<close> reads of the plan only the ids of its blocks.\<close>

definition alignInterfaces :: "string list \<Rightarrow> (string, manifest_entry) jsmap \<Rightarrow> unit result" where
  "alignInterfaces blockIds manifestMap =
     check_all (\<lambda>blockId.
       case map_get manifestMap blockId of
         None \<Rightarrow> throw (CodedFailure ''MANIFEST-SCHEMA-004'' [blockId])
       | Some entry \<Rightarrow> assertManifestStackCompatibility blockId (stackProfiles (manifest entry))) blockIds"

section \<open>Properties\<close>

definition same_key :: "manifest_entry \<Rightarrow> manifest_entry \<Rightarrow> bool" where
  "same_key e f \<longleftrightarrow> entry_id e = entry_id f \<and> entry_version e = entry_version f"

text \<open>Two entries of the list with one id and version carry one manifest.\<close>

definition definitions_agree :: "manifest_entry list \<Rightarrow> bool" where
  "definitions_agree es \<longleftrightarrow> (\<forall>e \<in> set es. \<forall>f \<in> set es. same_key e f \<longrightarrow> manifest e = manifest f)"

text \<open>The table built so far holds, for every key seen, an entry seen with that key.\<close>

definition defs_of :: "manifest_entry list \<Rightarrow> definitions \<Rightarrow> bool" where
  "defs_of es defs \<longleftrightarrow>
     (\<forall>k. case map_get defs k of
            None \<Rightarrow> (\<forall>e \<in> set es. (entry_id e, entry_version e) \<noteq> k)
          | Some d \<Rightarrow> d \<in> set es \<and> (entry_id d, entry_version d) = k)"

lemma definitions_agree_snoc:
  "definitions_agree (es @ [e]) \<longleftrightarrow>
     definitions_agree es \<and> (\<forall>f \<in> set es. same_key f e \<longrightarrow> manifest f = manifest e)"
  by (auto simp: definitions_agree_def same_key_def)

lemma record_definition_step:
  assumes inv: "defs_of es defs" and agree: "definitions_agree es"
  shows "(\<exists>defs'. record_definition e defs = Inr defs' \<and> defs_of (es @ [e]) defs') \<and>
           definitions_agree (es @ [e])
       \<or> record_definition e defs =
           Inl (CodedFailure ''RESOLVE-CONFLICT-004'' [entry_id e, entry_version e]) \<and>
           \<not> definitions_agree (es @ [e])"
proof (cases "map_get defs (entry_id e, entry_version e)")
  case None
  then have fresh: "\<forall>f \<in> set es. \<not> same_key f e"
    using inv [unfolded defs_of_def, rule_format, of "(entry_id e, entry_version e)"]
    by (auto simp: same_key_def)
  have "defs_of (es @ [e]) (map_set (entry_id e, entry_version e) e defs)"
    unfolding defs_of_def
  proof (rule allI)
    fix k
    show "case map_get (map_set (entry_id e, entry_version e) e defs) k of
        None \<Rightarrow> \<forall>f \<in> set (es @ [e]). (entry_id f, entry_version f) \<noteq> k
      | Some d \<Rightarrow> d \<in> set (es @ [e]) \<and> (entry_id d, entry_version d) = k"
      using inv [unfolded defs_of_def, rule_format, of k] by (auto split: option.splits)
  qed
  then show ?thesis
    using None fresh agree by (auto simp: record_definition_def Let_def definitions_agree_snoc)
next
  case (Some p)
  then have p: "p \<in> set es" "same_key p e"
    using inv [unfolded defs_of_def, rule_format, of "(entry_id e, entry_version e)"]
    by (auto simp: same_key_def)
  have rest: "manifest f = manifest p" if "f \<in> set es" "same_key f e" for f
    using agree p that by (auto simp: definitions_agree_def same_key_def)
  show ?thesis
  proof (cases "manifest p = manifest e")
    case True
    have "defs_of (es @ [e]) defs"
      unfolding defs_of_def
    proof (rule allI)
      fix k
      show "case map_get defs k of
          None \<Rightarrow> \<forall>f \<in> set (es @ [e]). (entry_id f, entry_version f) \<noteq> k
        | Some d \<Rightarrow> d \<in> set (es @ [e]) \<and> (entry_id d, entry_version d) = k"
        using inv [unfolded defs_of_def, rule_format, of k] Some by (auto split: option.splits)
    qed
    then show ?thesis
      using Some True rest agree by (auto simp: record_definition_def Let_def definitions_agree_snoc)
  next
    case False
    then show ?thesis
      using Some p by (auto simp: record_definition_def Let_def definitions_agree_snoc throw_def)
  qed
qed

lemma fold_record_definition:
  "defs_of es defs \<Longrightarrow> definitions_agree es \<Longrightarrow>
     is_ok (fold_r record_definition fs defs) \<longleftrightarrow> definitions_agree (es @ fs)"
proof (induction fs arbitrary: es defs)
  case Nil
  then show ?case by simp
next
  case (Cons f fs)
  from record_definition_step [OF Cons.prems, of f] show ?case
  proof (elim disjE conjE exE)
    fix defs' assume "record_definition f defs = Inr defs'" "defs_of (es @ [f]) defs'"
      "definitions_agree (es @ [f])"
    then show ?thesis using Cons.IH [of "es @ [f]" defs'] by simp
  next
    assume "record_definition f defs =
        Inl (CodedFailure ''RESOLVE-CONFLICT-004'' [entry_id f, entry_version f])"
      and no: "\<not> definitions_agree (es @ [f])"
    moreover have "\<not> definitions_agree (es @ f # fs)"
      using no by (auto simp: definitions_agree_def)
    ultimately show ?thesis by simp
  qed
qed

lemma definition_consistency_ok_iff:
  "is_ok (assertManifestDefinitionConsistency es) \<longleftrightarrow> definitions_agree es"
proof -
  have "is_ok (fold_r record_definition es []) \<longleftrightarrow> definitions_agree ([] @ es)"
    by (rule fold_record_definition) (simp_all add: defs_of_def definitions_agree_def)
  then show ?thesis
    by (auto simp: assertManifestDefinitionConsistency_def is_ok_iff bind_r_Inr_iff)
qed

lemma record_definition_failure:
  "fold_r record_definition es defs = Inl e \<Longrightarrow> failure_code e = ''RESOLVE-CONFLICT-004''"
  by (induction es arbitrary: defs)
    (auto simp: bind_r_Inl_iff record_definition_def Let_def throw_def split: option.splits if_splits)

lemma alignInterfaces_ok_iff:
  "alignInterfaces ids m = Inr () \<longleftrightarrow>
     (\<forall>i \<in> set ids. \<exists>e. map_get m i = Some e \<and> SUPPORTED_STACK \<in> set (stackProfiles (manifest e)))"
  by (auto simp: alignInterfaces_def check_all_Inr_iff assertManifestStackCompatibility_def
      isManifestStackCompatible_def throw_def split: option.splits)

end
