(* ===== verification/ReadyRanks.thy ===== *)
theory ReadyRanks
  imports Prelude
begin

text \<open>
  The class \<open>ReadyRanks\<close> of \<^verbatim>\<open>src/src/compiler/resolve/manifest-graph.ts\<close>: the binary heap of
  ranks that the dependency resolver keeps its ready vertices in. Both operations move a hole
  along one path of the implicit tree and write the displaced rank once, at the end.
  \<open>(index - 1) >>> 1\<close> is \<open>(i - 1) div 2\<close>: an array index is below \<open>2^32\<close>, so the unsigned
  32-bit shift halves it. The interface other theories use is the locale \<open>min_queue\<close>,
  interpreted here as \<open>rq\<close>.
\<close>

section \<open>The operations\<close>

type_synonym ready_ranks = "nat list"

fun sift_up :: "ready_ranks \<Rightarrow> nat \<Rightarrow> nat \<Rightarrow> ready_ranks" where
  "sift_up ranks rank index =
     (if index > 0 then
        let parent = (index - 1) div 2; value = ranks ! parent
        in if value \<le> rank then ranks[index := rank]
           else sift_up (ranks[index := value]) rank parent
      else ranks[index := rank])"

definition ready_add :: "nat \<Rightarrow> ready_ranks \<Rightarrow> ready_ranks" where
  "ready_add rank ranks = sift_up (ranks @ [rank]) rank (length ranks)"

text \<open>The child the hole moves to: the right one when it exists and is smaller.\<close>

definition least_child :: "ready_ranks \<Rightarrow> nat \<Rightarrow> nat" where
  "least_child ranks index =
     (let child = index * 2 + 1
      in if child + 1 < length ranks \<and> ranks ! (child + 1) < ranks ! child then child + 1 else child)"

function sift_down :: "ready_ranks \<Rightarrow> nat \<Rightarrow> nat \<Rightarrow> ready_ranks" where
  "sift_down ranks tail index =
     (if index * 2 + 1 < length ranks then
        let child = least_child ranks index
        in if ranks ! child \<ge> tail then ranks[index := tail]
           else sift_down (ranks[index := ranks ! child]) tail child
      else ranks[index := tail])"
  by pat_completeness auto
termination
  by (relation "measure (\<lambda>(ranks, tail, index). length ranks - index)")
    (auto simp: least_child_def Let_def)

definition ready_take :: "ready_ranks \<Rightarrow> (nat \<times> ready_ranks) option" where
  "ready_take ranks =
     (if ranks = [] then None
      else let first = ranks ! 0; tail = last ranks; rest = butlast ranks
           in Some (first, if rest = [] then rest else sift_down rest tail 0))"

text \<open>The order the implicit tree is kept in.\<close>

definition is_heap :: "ready_ranks \<Rightarrow> bool" where
  "is_heap xs = (\<forall>i < length xs. 0 < i \<longrightarrow> xs ! ((i - 1) div 2) \<le> xs ! i)"

section \<open>The interface\<close>

locale min_queue =
  fixes empty :: 'q
    and add :: "'a::linorder \<Rightarrow> 'q \<Rightarrow> 'q"
    and take_min :: "'q \<Rightarrow> ('a \<times> 'q) option"
    and elems :: "'q \<Rightarrow> 'a multiset"
    and invar :: "'q \<Rightarrow> bool"
  assumes elems_empty: "elems empty = {#}"
    and invar_empty: "invar empty"
    and elems_add: "invar q \<Longrightarrow> elems (add x q) = add_mset x (elems q)"
    and invar_add: "invar q \<Longrightarrow> invar (add x q)"
    and take_min_None: "invar q \<Longrightarrow> take_min q = None \<longleftrightarrow> elems q = {#}"
    and take_min_elems: "invar q \<Longrightarrow> take_min q = Some (x, q') \<Longrightarrow> elems q = add_mset x (elems q')"
    and take_min_least: "invar q \<Longrightarrow> take_min q = Some (x, q') \<Longrightarrow> y \<in># elems q \<Longrightarrow> x \<le> y"
    and take_min_invar: "invar q \<Longrightarrow> take_min q = Some (x, q') \<Longrightarrow> invar q'"
begin

text \<open>Adding a batch, as the resolver does for the initial vertices and for released dependents.\<close>

lemma fold_add:
  "invar q \<Longrightarrow> invar (fold add xs q) \<and> elems (fold add xs q) = mset xs + elems q"
  by (induction xs arbitrary: q) (auto simp: invar_add elems_add)

lemma take_min_mem: "invar q \<Longrightarrow> take_min q = Some (x, q') \<Longrightarrow> x \<in># elems q"
  by (simp add: take_min_elems)

lemma take_min_eq_Min:
  "invar q \<Longrightarrow> take_min q = Some (x, q') \<Longrightarrow> x = Min (set_mset (elems q))"
  by (auto intro!: Min_eqI [symmetric] simp: take_min_least take_min_mem)

lemma take_min_Some: "invar q \<Longrightarrow> elems q \<noteq> {#} \<Longrightarrow> \<exists>x q'. take_min q = Some (x, q')"
  by (metis not_Some_eq surj_pair take_min_None)

lemma take_min_size:
  "invar q \<Longrightarrow> take_min q = Some (x, q') \<Longrightarrow> size (elems q) = Suc (size (elems q'))"
  by (simp add: take_min_elems)

end

section \<open>The hole moves keep the tree ordered\<close>

declare sift_up.simps [simp del] sift_down.simps [simp del]

lemma length_sift_up [simp]: "length (sift_up ranks rank i) = length ranks"
proof (induction ranks rank i rule: sift_up.induct)
  case (1 ranks rank i)
  then show ?case by (subst sift_up.simps) (simp add: Let_def)
qed

lemma length_sift_down [simp]: "length (sift_down ranks l i) = length ranks"
proof (induction ranks l i rule: sift_down.induct)
  case (1 ranks l i)
  then show ?case by (subst sift_down.simps) (simp add: Let_def)
qed

lemma least_child_bounds:
  assumes "i * 2 + 1 < length xs"
  shows "least_child xs i < length xs" and "i < least_child xs i"
    and "(least_child xs i - 1) div 2 = i"
  using assms by (auto simp: least_child_def Let_def)

lemma least_child_least:
  assumes "i * 2 + 1 < length xs" and "j < length xs" and "0 < j" and "(j - 1) div 2 = i"
  shows "xs ! least_child xs i \<le> xs ! j"
proof -
  have "j = i * 2 + 1 \<or> j = i * 2 + 2" using assms by presburger
  then show ?thesis using assms by (auto simp: least_child_def Let_def)
qed

lemma mset_sift_up: "i < length xs \<Longrightarrow> mset (sift_up xs rank i) = mset (xs[i := rank])"
proof (induction xs rank i rule: sift_up.induct)
  case (1 xs rank i)
  show ?case
  proof (cases "0 < i \<and> \<not> xs ! ((i - 1) div 2) \<le> rank")
    case True
    let ?p = "(i - 1) div 2"
    have p: "?p < length xs" "?p \<noteq> i" using 1 True by auto
    have "mset (sift_up xs rank i) = mset (xs[i := xs ! ?p, ?p := rank])"
      using True 1 p by (subst sift_up.simps) (simp add: Let_def)
    also have "\<dots> = mset (xs[i := rank])" using p 1 by (intro mset_update_swap) auto
    finally show ?thesis .
  next
    case False
    then show ?thesis by (subst sift_up.simps) (auto simp: Let_def)
  qed
qed

lemma mset_sift_down: "i < length xs \<Longrightarrow> mset (sift_down xs l i) = mset (xs[i := l])"
proof (induction xs l i rule: sift_down.induct)
  case (1 xs l i)
  let ?c = "least_child xs i"
  show ?case
  proof (cases "i * 2 + 1 < length xs \<and> \<not> xs ! ?c \<ge> l")
    case True
    then have c: "?c < length xs" "i < ?c" using least_child_bounds [of i xs] by auto
    have "mset (sift_down xs l i) = mset (xs[i := xs ! ?c, ?c := l])"
      using True 1 c by (subst sift_down.simps) (simp add: Let_def)
    also have "\<dots> = mset (xs[i := l])" using c 1 by (intro mset_update_swap) auto
    finally show ?thesis .
  next
    case False
    then show ?thesis by (subst sift_down.simps) (auto simp: Let_def)
  qed
qed

text \<open>
  While the hole at \<open>i\<close> climbs, every edge not ending at the hole is ordered once the new rank
  is imagined in it, and the children of the hole are above the hole's parent.
\<close>

definition up_inv :: "nat list \<Rightarrow> nat \<Rightarrow> nat \<Rightarrow> bool" where
  "up_inv xs rank i \<longleftrightarrow> i < length xs \<and>
     (\<forall>j < length xs. 0 < j \<longrightarrow> j \<noteq> i \<longrightarrow> (j - 1) div 2 \<noteq> i \<longrightarrow> xs ! ((j - 1) div 2) \<le> xs ! j) \<and>
     (\<forall>j < length xs. 0 < j \<longrightarrow> (j - 1) div 2 = i \<longrightarrow> rank \<le> xs ! j \<and> (0 < i \<longrightarrow> xs ! ((i - 1) div 2) \<le> xs ! j))"

lemma up_inv_step:
  assumes inv: "up_inv xs rank i" and i: "0 < i" and gt: "rank < xs ! ((i - 1) div 2)"
  shows "up_inv (xs[i := xs ! ((i - 1) div 2)]) rank ((i - 1) div 2)"
proof -
  let ?p = "(i - 1) div 2"
  let ?ys = "xs[i := xs ! ?p]"
  have len: "i < length xs" "?p < i" using inv i by (auto simp: up_inv_def)
  have edge: "xs ! ((j - 1) div 2) \<le> xs ! j"
    if "j < length xs" "0 < j" "j \<noteq> i" "(j - 1) div 2 \<noteq> i" for j
    using inv that by (auto simp: up_inv_def)
  have kid: "xs ! ?p \<le> xs ! j" if "j < length xs" "0 < j" "(j - 1) div 2 = i" for j
    using inv that i by (auto simp: up_inv_def)
  have par: "xs ! ((?p - 1) div 2) \<le> xs ! ?p" if "0 < ?p"
    using edge [of ?p] that len by auto
  show ?thesis
    unfolding up_inv_def
  proof (intro conjI allI impI)
    show "?p < length ?ys" using len by simp
  next
    fix j assume j: "j < length ?ys" "0 < j" "j \<noteq> ?p" "(j - 1) div 2 \<noteq> ?p"
    show "?ys ! ((j - 1) div 2) \<le> ?ys ! j"
      using j len edge [of j] kid [of j] by (cases "j = i") (auto simp: nth_list_update)
  next
    fix j assume j: "j < length ?ys" "0 < j" "(j - 1) div 2 = ?p"
    have *: "xs ! ?p \<le> ?ys ! j"
      using j len edge [of j] by (cases "j = i") (auto simp: nth_list_update)
    then show "rank \<le> ?ys ! j" using gt by simp
    show "?ys ! ((?p - 1) div 2) \<le> ?ys ! j" if "0 < ?p"
    proof -
      have "(?p - 1) div 2 \<noteq> i" using len by auto
      then show ?thesis using * par [OF that] by simp
    qed
  qed
qed

lemma is_heap_sift_up: "up_inv xs rank i \<Longrightarrow> is_heap (sift_up xs rank i)"
proof (induction xs rank i rule: sift_up.induct)
  case (1 xs rank i)
  let ?p = "(i - 1) div 2"
  show ?case
  proof (cases "0 < i \<and> \<not> xs ! ?p \<le> rank")
    case True
    then have "up_inv (xs[i := xs ! ?p]) rank ?p" using up_inv_step [OF "1.prems"] by simp
    then show ?thesis using True "1.IH" by (subst sift_up.simps) (simp add: Let_def)
  next
    case False
    have eq: "sift_up xs rank i = xs[i := rank]"
      using False by (subst sift_up.simps) (auto simp: Let_def)
    show ?thesis
      unfolding eq is_heap_def
    proof (intro allI impI)
      fix j assume j: "j < length (xs[i := rank])" "0 < j"
      have "(j - 1) div 2 < j" using j(2) by auto
      then show "xs[i := rank] ! ((j - 1) div 2) \<le> xs[i := rank] ! j"
        using "1.prems" False j by (auto simp: up_inv_def nth_list_update)
    qed
  qed
qed

lemma up_inv_append: "is_heap xs \<Longrightarrow> up_inv (xs @ [rank]) rank (length xs)"
proof -
  assume h: "is_heap xs"
  have half: "(j - 1) div 2 < j" if "0 < j" for j :: nat using that by auto
  show ?thesis
    unfolding up_inv_def
  proof (intro conjI allI impI)
    show "length xs < length (xs @ [rank])" by simp
  next
    fix j assume "j < length (xs @ [rank])" "0 < j" "j \<noteq> length xs"
    then show "(xs @ [rank]) ! ((j - 1) div 2) \<le> (xs @ [rank]) ! j"
      using h half [of j] by (auto simp: is_heap_def nth_append)
  next
    fix j assume j: "j < length (xs @ [rank])" "0 < j" "(j - 1) div 2 = length xs"
    then have False using half [of j] by simp
    then show "rank \<le> (xs @ [rank]) ! j"
      and "(xs @ [rank]) ! ((length xs - 1) div 2) \<le> (xs @ [rank]) ! j" by auto
  qed
qed

text \<open>While the hole sinks, every edge away from it is ordered and its parent is below its children.\<close>

definition down_inv :: "nat list \<Rightarrow> nat \<Rightarrow> nat \<Rightarrow> bool" where
  "down_inv xs l i \<longleftrightarrow> i < length xs \<and>
     (\<forall>j < length xs. 0 < j \<longrightarrow> j \<noteq> i \<longrightarrow> (j - 1) div 2 \<noteq> i \<longrightarrow> xs ! ((j - 1) div 2) \<le> xs ! j) \<and>
     (0 < i \<longrightarrow> xs ! ((i - 1) div 2) \<le> l) \<and>
     (\<forall>j < length xs. 0 < j \<longrightarrow> (j - 1) div 2 = i \<longrightarrow> 0 < i \<longrightarrow> xs ! ((i - 1) div 2) \<le> xs ! j)"

lemma down_inv_step:
  assumes inv: "down_inv xs l i" and kids: "i * 2 + 1 < length xs"
    and lt: "xs ! least_child xs i < l"
  shows "down_inv (xs[i := xs ! least_child xs i]) l (least_child xs i)"
proof -
  let ?c = "least_child xs i"
  let ?ys = "xs[i := xs ! ?c]"
  note cb = least_child_bounds [OF kids]
  have edge: "xs ! ((j - 1) div 2) \<le> xs ! j"
    if "j < length xs" "0 < j" "j \<noteq> i" "(j - 1) div 2 \<noteq> i" for j
    using inv that by (auto simp: down_inv_def)
  have top: "xs ! ((i - 1) div 2) \<le> xs ! ?c" if "0 < i"
    using inv that cb by (auto simp: down_inv_def)
  show ?thesis
    unfolding down_inv_def
  proof (intro conjI allI impI)
    show "?c < length ?ys" using cb by simp
  next
    fix j assume j: "j < length ?ys" "0 < j" "j \<noteq> ?c" "(j - 1) div 2 \<noteq> ?c"
    consider "j = i" | "j \<noteq> i" "(j - 1) div 2 = i" | "j \<noteq> i" "(j - 1) div 2 \<noteq> i" by blast
    then show "?ys ! ((j - 1) div 2) \<le> ?ys ! j"
    proof cases
      case 1
      then have "(j - 1) div 2 \<noteq> i" using j(2) by auto
      then show ?thesis using 1 top j cb by simp
    next
      case 2
      then show ?thesis using least_child_least [OF kids, of j] j cb by simp
    next
      case 3
      then show ?thesis using edge [of j] j by simp
    qed
  next
    assume "0 < ?c"
    then show "?ys ! ((?c - 1) div 2) \<le> l" using cb lt by (simp add: cb(3))
  next
    fix j assume j: "j < length ?ys" "0 < j" "(j - 1) div 2 = ?c" "0 < ?c"
    then have "j \<noteq> i" using cb by auto
    then have "xs ! ?c \<le> xs ! j" using edge [of j] j cb by auto
    then show "?ys ! ((?c - 1) div 2) \<le> ?ys ! j" using j cb \<open>j \<noteq> i\<close> by (simp add: cb(3))
  qed
qed

lemma is_heap_sift_down: "down_inv xs l i \<Longrightarrow> is_heap (sift_down xs l i)"
proof (induction xs l i rule: sift_down.induct)
  case (1 xs l i)
  let ?c = "least_child xs i"
  show ?case
  proof (cases "i * 2 + 1 < length xs \<and> \<not> xs ! ?c \<ge> l")
    case True
    then have "down_inv (xs[i := xs ! ?c]) l ?c" using down_inv_step [OF "1.prems"] by simp
    then show ?thesis using True "1.IH" by (subst sift_down.simps) (simp add: Let_def)
  next
    case False
    have eq: "sift_down xs l i = xs[i := l]"
      using False by (subst sift_down.simps) (auto simp: Let_def)
    show ?thesis
      unfolding eq is_heap_def
    proof (intro allI impI)
      fix j assume j: "j < length (xs[i := l])" "0 < j"
      have ne: "(j - 1) div 2 \<noteq> j" using j(2) by auto
      have kid: "l \<le> xs ! j" if "(j - 1) div 2 = i"
      proof -
        have "i * 2 + 1 < length xs" using that j by auto
        then show ?thesis using least_child_least [of i xs j] False that j by auto
      qed
      show "xs[i := l] ! ((j - 1) div 2) \<le> xs[i := l] ! j"
        using "1.prems" j ne kid by (auto simp: down_inv_def nth_list_update)
    qed
  qed
qed

lemma is_heap_butlast: "is_heap xs \<Longrightarrow> is_heap (butlast xs)"
proof -
  assume h: "is_heap xs"
  have "(i - 1) div 2 < i" if "0 < i" for i :: nat using that by auto
  then show ?thesis
    using h by (auto simp: is_heap_def nth_butlast)
qed

lemma is_heap_root_least: "is_heap xs \<Longrightarrow> i < length xs \<Longrightarrow> xs ! 0 \<le> xs ! i"
proof (induction i rule: less_induct)
  case (less i)
  show ?case
  proof (cases "i = 0")
    case False
    then have "(i - 1) div 2 < i" by auto
    then have "xs ! 0 \<le> xs ! ((i - 1) div 2)" using less by simp
    also have "\<dots> \<le> xs ! i" using less.prems False by (auto simp: is_heap_def)
    finally show ?thesis .
  qed simp
qed

section \<open>The heap implements the interface\<close>

lemma mset_ready_add: "mset (ready_add rank q) = add_mset rank (mset q)"
  by (simp add: ready_add_def mset_sift_up)

lemma is_heap_ready_add: "is_heap q \<Longrightarrow> is_heap (ready_add rank q)"
  unfolding ready_add_def by (rule is_heap_sift_up [OF up_inv_append])

lemma ready_take_mset:
  assumes "ready_take q = Some (x, q')"
  shows "mset q = add_mset x (mset q')"
proof -
  from assms have q: "q \<noteq> []" and x: "x = q ! 0"
    and q': "q' = (if butlast q = [] then butlast q else sift_down (butlast q) (last q) 0)"
    by (auto simp: ready_take_def Let_def split: if_splits)
  have split: "mset q = add_mset (last q) (mset (butlast q))"
    by (metis q append_butlast_last_id mset.simps mset_append add_mset_add_single)
  show ?thesis
  proof (cases "butlast q = []")
    case True
    then have "q = [last q]" by (metis append_butlast_last_id append_Nil q)
    then have "mset q = {#x#}" using x by (metis mset_single_iff nth_Cons_0)
    then show ?thesis using True q' by simp
  next
    case False
    then have pos: "0 < length (butlast q)" by blast
    then have "x = butlast q ! 0" using x by (simp only: nth_butlast)
    moreover have "mset q' = mset ((butlast q)[0 := last q])"
      using False q' mset_sift_down [OF pos, of "last q"] by simp
    moreover have "butlast q ! 0 \<in># mset (butlast q)" using pos by (rule nth_mem_mset)
    ultimately show ?thesis using split mset_update [OF pos, of "last q"] by simp
  qed
qed

lemma ready_take_heap:
  assumes "is_heap q" and "ready_take q = Some (x, q')"
  shows "is_heap q'"
proof (cases "butlast q = []")
  case True
  then show ?thesis using assms by (auto simp: ready_take_def Let_def is_heap_def split: if_splits)
next
  case False
  have "is_heap (butlast q)" using assms(1) by (rule is_heap_butlast)
  moreover have "0 < length (butlast q)" using False by blast
  ultimately have "down_inv (butlast q) (last q) 0"
    unfolding down_inv_def is_heap_def by blast
  then show ?thesis using assms(2) False
    by (auto simp: ready_take_def Let_def is_heap_sift_down split: if_splits)
qed

interpretation rq: min_queue "[] :: ready_ranks" ready_add ready_take mset is_heap
proof unfold_locales
  fix q :: ready_ranks and x :: nat and q' y
  assume h: "is_heap q"
  show "mset (ready_add x q) = add_mset x (mset q)" by (rule mset_ready_add)
  show "is_heap (ready_add x q)" using h by (rule is_heap_ready_add)
  show "ready_take q = None \<longleftrightarrow> mset q = {#}" by (simp add: ready_take_def Let_def)
  assume t: "ready_take q = Some (x, q')"
  show "mset q = add_mset x (mset q')" using t by (rule ready_take_mset)
  show "is_heap q'" using h t by (rule ready_take_heap)
  assume "y \<in># mset q"
  then obtain i where "i < length q" "y = q ! i" by (auto simp: in_set_conv_nth)
  moreover have "x = q ! 0" using t by (auto simp: ready_take_def Let_def split: if_splits)
  ultimately show "x \<le> y" using is_heap_root_least [OF h] by simp
qed (simp_all add: is_heap_def)

end
