(* ===== verification/RankOrder.thy ===== *)
theory RankOrder
  imports ReadyRanks
begin

text \<open>
  The scheduling loop of \<open>orderManifests\<close> (\<^verbatim>\<open>src/src/compiler/resolve/manifest-graph.ts\<close>) on
  ranks: the adjacency sets, the indegree counters, and the loop that takes the least ready rank
  and releases its dependents. The theory proves that the loop computes the greedy reference
  order \<open>greedy_order\<close> (always the least rank all of whose predecessors are placed), for every
  graph whose counters match its edges.
\<close>

section \<open>The operations\<close>

text \<open>\<open>adjacency\<close> is an array of insertion-ordered sets, \<open>indegree\<close> an array of numbers.\<close>

type_synonym edges = "nat list list \<times> int list"

definition add_edge :: "nat \<Rightarrow> nat \<Rightarrow> edges \<Rightarrow> edges" where
  "add_edge predecessor rank st =
     (case st of (adjacency, indegree) \<Rightarrow>
        if predecessor = rank \<or> rank \<in> set (adjacency ! predecessor) then st
        else (adjacency[predecessor := adjacency ! predecessor @ [rank]],
              indegree[rank := indegree ! rank + 1]))"

text \<open>
  The body of the inner \<open>for\<close> of the scheduling loop. Decrementing a missing array element gives
  \<open>NaN\<close>, which is never \<open>0\<close>: nothing is released.
\<close>

definition release_dependent :: "nat \<Rightarrow> ready_ranks \<times> int list \<Rightarrow> ready_ranks \<times> int list" where
  "release_dependent dependent st =
     (case st of (ready, indegree) \<Rightarrow>
        if dependent < length indegree then
          let indegree' = indegree[dependent := indegree ! dependent - 1]
          in (if indegree' ! dependent = 0 then ready_add dependent ready else ready, indegree')
        else st)"

definition positive_count :: "int list \<Rightarrow> nat" where
  "positive_count indegree = length (filter (\<lambda>d. d > 0) indegree)"

lemma positive_count_dec:
  assumes "i < length ds" and "v = ds ! i - 1"
  shows "(if v = 0 then 1 else 0) + positive_count (ds[i := v]) \<le> positive_count ds"
proof -
  have ds: "ds = take i ds @ ds ! i # drop (Suc i) ds" using assms(1) by (simp add: id_take_nth_drop)
  have "positive_count ds = positive_count (take i ds @ ds ! i # drop (Suc i) ds)" using ds by simp
  moreover have "positive_count (ds[i := v]) = positive_count (take i ds @ v # drop (Suc i) ds)"
    using assms(1) by (simp add: upd_conv_take_nth_drop)
  ultimately show ?thesis using assms(2) by (auto simp: positive_count_def)
qed

lemma ready_add_length [simp]: "length (ready_add r q) = Suc (length q)"
  by (simp add: ready_add_def)

lemma release_potential:
  "length (fst (release_dependent d st)) + positive_count (snd (release_dependent d st))
     \<le> length (fst st) + positive_count (snd st)"
  using positive_count_dec [of d "snd st" "snd st ! d - 1"]
  by (cases st) (auto simp: release_dependent_def Let_def split: if_splits)

lemma fold_release_potential:
  "length (fst (fold release_dependent ds st)) + positive_count (snd (fold release_dependent ds st))
     \<le> length (fst st) + positive_count (snd st)"
proof (induction ds arbitrary: st)
  case Nil
  show ?case by simp
next
  case (Cons d ds)
  show ?case using Cons.IH [of "release_dependent d st"] release_potential [of d st] by simp
qed

lemma ready_take_length: "ready_take q = Some (x, q') \<Longrightarrow> length q = Suc (length q')"
  using ready_take_mset [of q x q'] by (metis size_add_mset size_mset)

function drain :: "nat list list \<Rightarrow> ready_ranks \<Rightarrow> int list \<Rightarrow> nat list \<Rightarrow> nat list \<times> int list" where
  "drain adjacency ready indegree ordered =
     (case ready_take ready of
        None \<Rightarrow> (ordered, indegree)
      | Some (rank, ready') \<Rightarrow>
          let (ready'', indegree') = fold release_dependent (adjacency ! rank) (ready', indegree)
          in drain adjacency ready'' indegree' (ordered @ [rank]))"
  by pat_completeness auto
termination
proof (relation "measure (\<lambda>(adj, ready, indegree, ordered). length ready + positive_count indegree)", goal_cases)
  case 1
  show ?case by simp
next
  case (2 adj ready indegree ordered p rank ready' q ready'' indegree')
  then show ?case
    using fold_release_potential [of "adj ! rank" "(ready', indegree)"] ready_take_length [of ready rank ready']
    by (cases "fold release_dependent (adj ! rank) (ready', indegree)") auto
qed

definition initial_ready :: "int list \<Rightarrow> ready_ranks" where
  "initial_ready indegree =
     fold (\<lambda>rank ready. if indegree ! rank = 0 then ready_add rank ready else ready) [0..<length indegree] []"

declare drain.simps [simp del]

section \<open>The reference order\<close>

text \<open>A rank is free once it is unplaced and every rank with an edge to it is placed.\<close>

definition free_ranks :: "nat list list \<Rightarrow> nat list \<Rightarrow> nat list" where
  "free_ranks adj placed =
     filter (\<lambda>r. r \<notin> set placed \<and> (\<forall>p < length adj. r \<in> set (adj ! p) \<longrightarrow> p \<in> set placed)) [0..<length adj]"

function greedy_order :: "nat list list \<Rightarrow> nat list \<Rightarrow> nat list" where
  "greedy_order adj placed =
     (case free_ranks adj placed of [] \<Rightarrow> placed | r # _ \<Rightarrow> greedy_order adj (placed @ [r]))"
  by pat_completeness auto
termination
proof (relation "measure (\<lambda>(adj, placed). card ({..<length adj} - set placed))", goal_cases)
  case 1
  show ?case by simp
next
  case (2 adj placed r rs)
  then have "r \<in> set (free_ranks adj placed)" by simp
  then have "r \<in> {..<length adj} - set placed" by (auto simp: free_ranks_def)
  then have "{..<length adj} - set (placed @ [r]) \<subset> {..<length adj} - set placed" by auto
  then show ?case by (auto intro!: psubset_card_mono)
qed

declare greedy_order.simps [simp del]

text \<open>The counters match the edges: every counter is the number of unplaced predecessors.\<close>

definition graph_ok :: "nat list list \<Rightarrow> bool" where
  "graph_ok adj \<longleftrightarrow> (\<forall>p < length adj. distinct (adj ! p) \<and> set (adj ! p) \<subseteq> {..<length adj})"

definition waiting :: "nat list list \<Rightarrow> nat set \<Rightarrow> nat \<Rightarrow> nat set" where
  "waiting adj placed r = {p. p < length adj \<and> p \<notin> placed \<and> r \<in> set (adj ! p)}"

lemma finite_waiting [simp]: "finite (waiting adj placed r)"
  by (simp add: waiting_def)

definition counts :: "nat list list \<Rightarrow> nat set \<Rightarrow> int list \<Rightarrow> bool" where
  "counts adj placed indegree \<longleftrightarrow>
     length indegree = length adj \<and> (\<forall>r < length adj. indegree ! r = int (card (waiting adj placed r)))"

lemma set_free_ranks:
  "set (free_ranks adj placed) = {r. r < length adj \<and> r \<notin> set placed \<and> waiting adj (set placed) r = {}}"
  by (auto simp: free_ranks_def waiting_def)

lemma sorted_free_ranks: "sorted (free_ranks adj placed)"
  unfolding free_ranks_def by (rule sorted_wrt_filter) simp

lemma distinct_free_ranks: "distinct (free_ranks adj placed)"
  by (simp add: free_ranks_def)

section \<open>One round of the loop\<close>

text \<open>Releasing \<open>ds\<close> adds to the queue exactly those whose counter reaches zero.\<close>

lemma fold_release:
  assumes "distinct ds" and "set ds \<subseteq> {..<length indeg}" and "is_heap q"
  shows "\<exists>q'. fold release_dependent ds (q, indeg) =
           (q', map (\<lambda>r. if r \<in> set ds then indeg ! r - 1 else indeg ! r) [0..<length indeg]) \<and>
         is_heap q' \<and> mset q' = mset q + mset (filter (\<lambda>r. indeg ! r = 1) ds)"
  using assms
proof (induction ds arbitrary: q indeg)
  case Nil
  then show ?case by (auto intro!: exI [of _ q] simp: map_nth)
next
  case (Cons d ds)
  let ?indeg = "indeg[d := indeg ! d - 1]"
  let ?q = "if indeg ! d = 1 then ready_add d q else q"
  have d: "d < length indeg" "d \<notin> set ds" using Cons.prems by auto
  have step: "release_dependent d (q, indeg) = (?q, ?indeg)"
    using d by (simp add: release_dependent_def Let_def)
  have "is_heap ?q" using Cons.prems(3) is_heap_ready_add by simp
  then obtain q' where q': "fold release_dependent ds (?q, ?indeg) =
        (q', map (\<lambda>r. if r \<in> set ds then ?indeg ! r - 1 else ?indeg ! r) [0..<length ?indeg])"
      "is_heap q'" "mset q' = mset ?q + mset (filter (\<lambda>r. ?indeg ! r = 1) ds)"
    using Cons.IH [of ?indeg ?q] Cons.prems by auto
  have "map (\<lambda>r. if r \<in> set ds then ?indeg ! r - 1 else ?indeg ! r) [0..<length ?indeg] =
        map (\<lambda>r. if r \<in> set (d # ds) then indeg ! r - 1 else indeg ! r) [0..<length indeg]"
    using d by (auto simp: nth_list_update)
  moreover have "filter (\<lambda>r. ?indeg ! r = 1) ds = filter (\<lambda>r. indeg ! r = 1) ds"
    using d by (intro filter_cong) (auto simp: nth_list_update)
  ultimately show ?case using q' step by (auto simp: mset_ready_add)
qed

text \<open>The invariant of the scheduling loop.\<close>

definition drain_inv :: "nat list list \<Rightarrow> ready_ranks \<Rightarrow> int list \<Rightarrow> nat list \<Rightarrow> bool" where
  "drain_inv adj ready indegree ordered \<longleftrightarrow>
     is_heap ready \<and> counts adj (set ordered) indegree \<and>
     mset ready = mset (free_ranks adj ordered) \<and>
     (\<forall>r \<in> set ordered. waiting adj (set ordered) r = {})"

lemma waiting_insert: "waiting adj (insert x P) r = waiting adj P r - {x}"
  by (auto simp: waiting_def)

lemma card_waiting_step:
  assumes "x < length adj" and "x \<notin> P"
  shows "card (waiting adj (insert x P) r) =
           (if r \<in> set (adj ! x) then card (waiting adj P r) - 1 else card (waiting adj P r))"
proof -
  have "x \<in> waiting adj P r \<longleftrightarrow> r \<in> set (adj ! x)" using assms by (auto simp: waiting_def)
  then show ?thesis by (auto simp: waiting_insert)
qed

lemma counts_step:
  assumes c: "counts adj P indeg" and x: "x < length adj" "x \<notin> P"
  shows "counts adj (insert x P)
           (map (\<lambda>r. if r \<in> set (adj ! x) then indeg ! r - 1 else indeg ! r) [0..<length indeg])"
proof -
  have pos: "card (waiting adj P r) > 0" if "r \<in> set (adj ! x)" for r
    using that x by (auto simp: card_gt_0_iff waiting_def)
  show ?thesis
    using c x pos by (auto simp: counts_def card_waiting_step Suc_le_eq)
qed

lemma free_ranks_step:
  assumes ok: "graph_ok adj" and c: "counts adj (set ordered) indeg"
    and x: "x \<in> set (free_ranks adj ordered)"
    and closed: "\<forall>r \<in> set ordered. waiting adj (set ordered) r = {}"
  shows "mset (free_ranks adj (ordered @ [x])) =
           mset (free_ranks adj ordered) - {#x#} + mset (filter (\<lambda>r. indeg ! r = 1) (adj ! x))"
proof -
  let ?P = "set ordered"
  have xl: "x < length adj" "x \<notin> ?P" "waiting adj ?P x = {}" using x by (auto simp: set_free_ranks)
  have sub: "set (adj ! x) \<subseteq> {..<length adj}" "distinct (adj ! x)" using ok xl by (auto simp: graph_ok_def)
  have mem: "x \<in> waiting adj ?P r" if "r \<in> set (adj ! x)" for r using that xl by (auto simp: waiting_def)
  have newly: "r \<in> set (adj ! x) \<and> indeg ! r = 1 \<longleftrightarrow> waiting adj ?P r = {x} \<and> r < length adj" for r
  proof
    assume r: "r \<in> set (adj ! x) \<and> indeg ! r = 1"
    then have "card (waiting adj ?P r) = 1" using c sub by (auto simp: counts_def)
    then have "waiting adj ?P r = {x}" using mem [of r] r by (metis card_1_singletonE singletonD)
    then show "waiting adj ?P r = {x} \<and> r < length adj" using r sub by auto
  next
    assume r: "waiting adj ?P r = {x} \<and> r < length adj"
    then have "x \<in> waiting adj ?P r" by simp
    then have "r \<in> set (adj ! x)" by (simp add: waiting_def)
    then show "r \<in> set (adj ! x) \<and> indeg ! r = 1" using r c by (simp add: counts_def)
  qed
  have disj: "set (free_ranks adj ordered) \<inter> {r \<in> set (adj ! x). indeg ! r = 1} = {}"
    by (auto simp: set_free_ranks newly)
  have wne: "r \<notin> ?P" "r \<noteq> x" if "waiting adj ?P r = {x}" for r
    using that closed xl by auto
  have "set (free_ranks adj (ordered @ [x])) =
        set (free_ranks adj ordered) - {x} \<union> {r \<in> set (adj ! x). indeg ! r = 1}"
    using wne newly by (auto simp: set_free_ranks waiting_insert)
  moreover have "mset (free_ranks adj (ordered @ [x])) = mset_set (set (free_ranks adj (ordered @ [x])))"
    by (simp add: mset_set_set distinct_free_ranks)
  moreover have "mset (filter (\<lambda>r. indeg ! r = 1) (adj ! x)) = mset_set {r \<in> set (adj ! x). indeg ! r = 1}"
    using sub by (metis distinct_filter mset_set_set set_filter)
  moreover have "mset (free_ranks adj ordered) - {#x#} = mset_set (set (free_ranks adj ordered) - {x})"
    using x by (simp add: mset_set_set [symmetric] distinct_free_ranks mset_set_Diff)
  moreover have "(set (free_ranks adj ordered) - {x}) \<inter> {r \<in> set (adj ! x). indeg ! r = 1} = {}"
    using disj by blast
  ultimately show ?thesis by (simp add: mset_set_Union)
qed


section \<open>The loop computes the reference order\<close>

lemma drain_inv_None:
  "drain_inv adj ready indeg ordered \<Longrightarrow> ready_take ready = None \<longleftrightarrow> free_ranks adj ordered = []"
  by (simp add: drain_inv_def rq.take_min_None)

lemma drain_inv_Some:
  assumes inv: "drain_inv adj ready indeg ordered" and t: "ready_take ready = Some (x, ready')"
  shows "\<exists>rs. free_ranks adj ordered = x # rs"
proof -
  have h: "is_heap ready" and m: "mset ready = mset (free_ranks adj ordered)"
    using inv by (auto simp: drain_inv_def)
  have "x = Min (set (free_ranks adj ordered))"
    using rq.take_min_eq_Min [OF h t] m by (metis set_mset_mset)
  moreover have "free_ranks adj ordered \<noteq> []" using rq.take_min_mem [OF h t] m by auto
  then obtain y rs where yrs: "free_ranks adj ordered = y # rs" by (meson neq_Nil_conv)
  moreover have "Min (set (y # rs)) = y"
    using sorted_free_ranks [of adj ordered] yrs by (auto intro!: Min_eqI)
  ultimately show ?thesis by simp
qed

lemma drain_inv_step:
  assumes ok: "graph_ok adj" and inv: "drain_inv adj ready indeg ordered"
    and t: "ready_take ready = Some (x, ready')"
    and f: "fold release_dependent (adj ! x) (ready', indeg) = (ready'', indeg')"
  shows "drain_inv adj ready'' indeg' (ordered @ [x])"
proof -
  have h: "is_heap ready" and m: "mset ready = mset (free_ranks adj ordered)"
    and c: "counts adj (set ordered) indeg"
    and closed: "\<forall>r \<in> set ordered. waiting adj (set ordered) r = {}"
    using inv by (auto simp: drain_inv_def)
  have x: "x \<in> set (free_ranks adj ordered)" using drain_inv_Some [OF inv t] by auto
  then have xl: "x < length adj" "x \<notin> set ordered" "waiting adj (set ordered) x = {}"
    by (auto simp: set_free_ranks)
  have len: "length indeg = length adj" using c by (simp add: counts_def)
  have h': "is_heap ready'" using h t by (rule ready_take_heap)
  have m': "mset ready' = mset (free_ranks adj ordered) - {#x#}"
    using ready_take_mset [OF t] m by (metis add_mset_remove_trivial)
  have "distinct (adj ! x)" "set (adj ! x) \<subseteq> {..<length indeg}"
    using ok xl len by (auto simp: graph_ok_def)
  from fold_release [OF this h'] f
  have new: "is_heap ready''" "mset ready'' = mset ready' + mset (filter (\<lambda>r. indeg ! r = 1) (adj ! x))"
    and indeg': "indeg' = map (\<lambda>r. if r \<in> set (adj ! x) then indeg ! r - 1 else indeg ! r) [0..<length indeg]"
    by auto
  have "counts adj (set (ordered @ [x])) indeg'"
    using counts_step [OF c xl(1,2)] indeg' by simp
  moreover have "mset ready'' = mset (free_ranks adj (ordered @ [x]))"
    using new m' free_ranks_step [OF ok c x closed] by simp
  moreover have "\<forall>r \<in> set (ordered @ [x]). waiting adj (set (ordered @ [x])) r = {}"
    using closed xl by (auto simp: waiting_insert)
  ultimately show ?thesis using new by (simp add: drain_inv_def)
qed

lemma drain_greedy:
  "graph_ok adj \<Longrightarrow> drain_inv adj ready indeg ordered \<Longrightarrow>
   \<exists>ready' indeg'. drain adj ready indeg ordered = (greedy_order adj ordered, indeg') \<and>
     drain_inv adj ready' indeg' (greedy_order adj ordered) \<and>
     free_ranks adj (greedy_order adj ordered) = []"
proof (induction adj ready indeg ordered rule: drain.induct)
  case (1 adj ready indeg ordered)
  show ?case
  proof (cases "ready_take ready")
    case None
    then have "free_ranks adj ordered = []" using drain_inv_None [OF "1.prems"(2)] by simp
    then have "greedy_order adj ordered = ordered" by (subst greedy_order.simps) simp
    then show ?thesis
      using None "1.prems" \<open>free_ranks adj ordered = []\<close>
      by (intro exI [of _ ready] exI [of _ indeg]) (simp add: drain.simps)
  next
    case (Some xr)
    obtain x ready' where xr: "xr = (x, ready')" by (cases xr)
    obtain ready'' indeg' where f: "fold release_dependent (adj ! x) (ready', indeg) = (ready'', indeg')"
      by (cases "fold release_dependent (adj ! x) (ready', indeg)")
    obtain rs where "free_ranks adj ordered = x # rs"
      using drain_inv_Some [OF "1.prems"(2)] Some xr by blast
    then have g: "greedy_order adj ordered = greedy_order adj (ordered @ [x])"
      by (subst greedy_order.simps) simp
    have "drain adj ready indeg ordered = drain adj ready'' indeg' (ordered @ [x])"
      using Some xr f by (simp add: drain.simps [of adj ready])
    then show ?thesis
      using "1.IH" [OF Some xr [symmetric], of "(ready'', indeg')" ready'' indeg'] f g
        drain_inv_step [OF "1.prems" _ f] Some xr "1.prems"(1) by simp
  qed
qed

lemma fold_if_filter: "fold (\<lambda>x s. if P x then f x s else s) xs s = fold f (filter P xs) s"
  by (induction xs arbitrary: s) auto

lemma initial_drain_inv:
  assumes "counts adj {} indeg"
  shows "drain_inv adj (initial_ready indeg) indeg []"
proof -
  have len: "length indeg = length adj" using assms by (simp add: counts_def)
  have "free_ranks adj [] = filter (\<lambda>r. indeg ! r = 0) [0..<length indeg]"
    unfolding free_ranks_def len
    by (rule filter_cong) (use assms in \<open>auto simp: counts_def card_eq_0_iff waiting_def\<close>)
  moreover have "initial_ready indeg = fold ready_add (filter (\<lambda>r. indeg ! r = 0) [0..<length indeg]) []"
    by (simp add: initial_ready_def fold_if_filter)
  ultimately show ?thesis
    using assms rq.fold_add [OF rq.invar_empty, of "free_ranks adj []"] by (simp add: drain_inv_def)
qed

lemma drain_initial:
  assumes "graph_ok adj" and "counts adj {} indeg"
  shows "\<exists>indeg'. drain adj (initial_ready indeg) indeg [] = (greedy_order adj [], indeg') \<and>
           counts adj (set (greedy_order adj [])) indeg'"
  using drain_greedy [OF assms(1) initial_drain_inv [OF assms(2)]] by (auto simp: drain_inv_def)

section \<open>What the reference order guarantees\<close>

text \<open>Every placed rank comes after all its predecessors, is new, and is the least free rank then.\<close>

definition greedy_prefix :: "nat list list \<Rightarrow> nat list \<Rightarrow> bool" where
  "greedy_prefix adj xs \<longleftrightarrow>
     (\<forall>i < length xs. \<exists>rs. free_ranks adj (take i xs) = xs ! i # rs)"

lemma greedy_prefix_snoc:
  "greedy_prefix adj xs \<Longrightarrow> free_ranks adj xs = r # rs \<Longrightarrow> greedy_prefix adj (xs @ [r])"
  by (auto simp: greedy_prefix_def nth_append less_Suc_eq)

lemma greedy_order_prefix:
  "greedy_prefix adj xs \<Longrightarrow>
     greedy_prefix adj (greedy_order adj xs) \<and> free_ranks adj (greedy_order adj xs) = []"
proof (induction adj xs rule: greedy_order.induct)
  case (1 adj xs)
  show ?case
  proof (cases "free_ranks adj xs")
    case Nil
    then show ?thesis using "1.prems" by (subst (1 2) greedy_order.simps) simp
  next
    case (Cons r rs)
    then have "greedy_order adj xs = greedy_order adj (xs @ [r])"
      by (subst greedy_order.simps) simp
    then show ?thesis using "1.IH" [OF Cons] greedy_prefix_snoc [OF "1.prems" Cons] by simp
  qed
qed

lemma greedy_prefix_nth:
  assumes "greedy_prefix adj xs" and "i < length xs"
  shows "xs ! i < length adj" and "xs ! i \<notin> set (take i xs)"
    and "\<And>p. p < length adj \<Longrightarrow> xs ! i \<in> set (adj ! p) \<Longrightarrow> p \<in> set (take i xs)"
    and "\<And>r. r \<in> set (free_ranks adj (take i xs)) \<Longrightarrow> xs ! i \<le> r"
proof -
  obtain rs where rs: "free_ranks adj (take i xs) = xs ! i # rs"
    using assms by (auto simp: greedy_prefix_def)
  then have "xs ! i \<in> set (free_ranks adj (take i xs))" by simp
  then show "xs ! i < length adj" and "xs ! i \<notin> set (take i xs)"
    and "\<And>p. p < length adj \<Longrightarrow> xs ! i \<in> set (adj ! p) \<Longrightarrow> p \<in> set (take i xs)"
    by (auto simp: free_ranks_def)
  show "\<And>r. r \<in> set (free_ranks adj (take i xs)) \<Longrightarrow> xs ! i \<le> r"
    using sorted_free_ranks [of adj "take i xs"] rs by auto
qed

lemma greedy_prefix_distinct:
  assumes "greedy_prefix adj xs"
  shows "distinct xs"
  unfolding distinct_conv_nth
proof (intro allI impI)
  fix i j assume ij: "i < length xs" "j < length xs" "i \<noteq> j"
  have *: "xs ! a \<noteq> xs ! b" if "a < b" "b < length xs" for a b
  proof -
    have "xs ! a \<in> set (take b xs)" using that by (auto simp: in_set_conv_nth intro!: exI [of _ a])
    then show ?thesis using greedy_prefix_nth(2) [OF assms that(2)] by auto
  qed
  then show "xs ! i \<noteq> xs ! j" using ij by (metis linorder_neqE_nat)
qed

lemma greedy_prefix_range: "greedy_prefix adj xs \<Longrightarrow> set xs \<subseteq> {..<length adj}"
  by (auto simp: in_set_conv_nth dest: greedy_prefix_nth(1))

lemma greedy_prefix_length: "greedy_prefix adj xs \<Longrightarrow> length xs \<le> length adj"
  using card_mono [OF finite_lessThan greedy_prefix_range] greedy_prefix_distinct
  by (fastforce simp: distinct_card [symmetric])

lemma greedy_prefix_full:
  assumes "greedy_prefix adj xs"
  shows "length xs = length adj \<longleftrightarrow> set xs = {..<length adj}"
proof -
  have "card (set xs) = length xs" using greedy_prefix_distinct [OF assms] by (rule distinct_card)
  then show ?thesis
    using greedy_prefix_range [OF assms] by (metis card_lessThan card_subset_eq finite_lessThan)
qed

definition edge_rel :: "nat list list \<Rightarrow> (nat \<times> nat) set" where
  "edge_rel adj = {(p, r). p < length adj \<and> r \<in> set (adj ! p)}"

lemma finite_edge_rel: "graph_ok adj \<Longrightarrow> finite (edge_rel adj)"
  by (rule finite_subset [of _ "{..<length adj} \<times> {..<length adj}"]) (auto simp: edge_rel_def graph_ok_def)

text \<open>What an exhausted greedy order leaves out: the ranks on a cycle and everything after them.\<close>

lemma greedy_placed_ancestors:
  assumes "greedy_prefix adj xs" and "(p, r) \<in> (edge_rel adj)\<^sup>*" and "r \<in> set xs"
  shows "p \<in> set xs"
  using assms(2,3)
proof (induction rule: converse_rtrancl_induct)
  case (step a b)
  then obtain i where i: "i < length xs" "xs ! i = b" by (auto simp: in_set_conv_nth)
  have "a \<in> set (take i xs)" using greedy_prefix_nth(3) [OF assms(1) i(1)] step(1) i by (auto simp: edge_rel_def)
  then show ?case by (rule in_set_takeD)
qed

lemma greedy_index_increases:
  assumes g: "greedy_prefix adj xs" and "(p, r) \<in> (edge_rel adj)\<^sup>+" and "j < length xs" and "xs ! j = r"
  shows "\<exists>i < j. xs ! i = p"
  using assms(2-)
proof (induction arbitrary: j rule: trancl_induct)
  case (base r)
  then have "p \<in> set (take j xs)" using greedy_prefix_nth(3) [OF g base(2)] by (auto simp: edge_rel_def)
  then show ?case using base by (auto simp: in_set_conv_nth)
next
  case (step q r)
  then have "q \<in> set (take j xs)" using greedy_prefix_nth(3) [OF g] by (auto simp: edge_rel_def)
  then obtain i where "i < j" "xs ! i = q" using step by (auto simp: in_set_conv_nth)
  then show ?case using step.IH [of i] step.prems(1) by (metis order.strict_trans)
qed

lemma unplaced_iff:
  assumes ok: "graph_ok adj" and g: "greedy_prefix adj xs" and stop: "free_ranks adj xs = []"
    and r: "r < length adj"
  shows "r \<notin> set xs \<longleftrightarrow> (\<exists>f. (f, f) \<in> (edge_rel adj)\<^sup>+ \<and> (f, r) \<in> (edge_rel adj)\<^sup>*)"
proof
  assume "\<exists>f. (f, f) \<in> (edge_rel adj)\<^sup>+ \<and> (f, r) \<in> (edge_rel adj)\<^sup>*"
  then obtain f where f: "(f, f) \<in> (edge_rel adj)\<^sup>+" "(f, r) \<in> (edge_rel adj)\<^sup>*" by blast
  show "r \<notin> set xs"
  proof
    assume "r \<in> set xs"
    then have "f \<in> set xs" using greedy_placed_ancestors [OF g f(2)] by simp
    then obtain j where j: "j < length xs" "xs ! j = f" by (auto simp: in_set_conv_nth)
    then obtain i where "i < j" "xs ! i = f" using greedy_index_increases [OF g f(1)] by blast
    then show False using j greedy_prefix_distinct [OF g] by (auto simp: nth_eq_iff_index_eq)
  qed
next
  assume u: "r \<notin> set xs"
  show "\<exists>f. (f, f) \<in> (edge_rel adj)\<^sup>+ \<and> (f, r) \<in> (edge_rel adj)\<^sup>*"
  proof (rule ccontr)
    assume no: "\<not> ?thesis"
    let ?A = "{p. (p, r) \<in> (edge_rel adj)\<^sup>*}"
    let ?R = "edge_rel adj \<inter> ?A \<times> ?A"
    have "acyclic ?R"
    proof (rule acyclicI, rule allI, rule notI)
      fix f assume c: "(f, f) \<in> ?R\<^sup>+"
      then have "(f, f) \<in> (edge_rel adj)\<^sup>+" using trancl_mono by blast
      moreover have "f \<in> ?A" using c by (auto dest: tranclD)
      ultimately show False using no by blast
    qed
    then have "wf ?R" using finite_edge_rel [OF ok] by (intro finite_acyclic_wf) auto
    moreover have "r \<in> ?A - set xs" using u by simp
    ultimately obtain m where m: "m \<in> ?A - set xs" and min: "\<And>p. (p, m) \<in> ?R \<Longrightarrow> p \<notin> ?A - set xs"
      by (metis (lifting) wfE_min)
    have pre: "p \<in> set xs" if "(p, m) \<in> edge_rel adj" for p
      using min [of p] m that converse_rtrancl_into_rtrancl [OF that] by auto
    have "m < length adj"
      using m r by (auto elim: converse_rtranclE simp: edge_rel_def)
    then have "m \<in> set (free_ranks adj xs)" using m pre by (auto simp: free_ranks_def edge_rel_def)
    then show False using stop by simp
  qed
qed

lemma greedy_complete_iff_acyclic:
  assumes ok: "graph_ok adj" and g: "greedy_prefix adj xs" and stop: "free_ranks adj xs = []"
  shows "length xs = length adj \<longleftrightarrow> acyclic (edge_rel adj)"
proof -
  have node: "f < length adj" if "(f, f) \<in> (edge_rel adj)\<^sup>+" for f
    using that by (auto dest: tranclD simp: edge_rel_def)
  have "set xs = {..<length adj} \<longleftrightarrow> (\<forall>r < length adj. r \<in> set xs)"
    using greedy_prefix_range [OF g] by auto
  also have "\<dots> \<longleftrightarrow> acyclic (edge_rel adj)"
    using unplaced_iff [OF ok g stop] node unfolding acyclic_def by (metis rtrancl.rtrancl_refl)
  finally show ?thesis using greedy_prefix_full [OF g] by simp
qed

end
