(* ===== verification/ManifestGraph.thy ===== *)
theory ManifestGraph
  imports Manifest RankOrder
begin

text \<open>
  The dependency resolver of \<^verbatim>\<open>src/src/compiler/resolve/manifest-graph.ts\<close>: the provider index,
  the edges between ranks, the install order (\<open>orderManifests\<close>), and the selection loop of
  \<open>resolveManifestGraph\<close>. The scheduling loop itself is in \<open>RankOrder\<close>.
\<close>

section \<open>The provider index\<close>

type_synonym providers = "(string, manifest_entry list) jsmap"

definition addProvider :: "manifest_entry \<Rightarrow> providers \<Rightarrow> providers" where
  "addProvider entry index =
     fold (\<lambda>capability idx. map_push capability entry idx) (dedup (provides (manifest entry))) index"

section \<open>The install order\<close>

definition link_provider ::
    "(string, nat) jsmap \<Rightarrow> nat \<Rightarrow> manifest_entry \<Rightarrow> edges \<Rightarrow> edges result" where
  "link_provider rankById rank provider st =
     (case map_get rankById (entry_id provider) of
        None \<Rightarrow> throw (CodedFailure ''RESOLVE-INTERNAL-001'' [entry_id provider])
      | Some predecessor \<Rightarrow> Inr (add_edge predecessor rank st))"

definition link_requirement ::
    "providers \<Rightarrow> (string, nat) jsmap \<Rightarrow> nat \<Rightarrow> string \<Rightarrow> edges \<Rightarrow> edges result" where
  "link_requirement providers rankById rank requirement st =
     (case map_get providers requirement of
        None \<Rightarrow> throw (CodedFailure ''RESOLVE-MISSING-001'' [requirement])
      | Some [] \<Rightarrow> throw (CodedFailure ''RESOLVE-MISSING-001'' [requirement])
      | Some candidates \<Rightarrow> fold_r (link_provider rankById rank) candidates st)"

definition link_entry ::
    "manifest_entry list \<Rightarrow> providers \<Rightarrow> (string, nat) jsmap \<Rightarrow> nat \<Rightarrow> edges \<Rightarrow> edges result" where
  "link_entry ranked providers rankById rank st =
     fold_r (link_requirement providers rankById rank) (dedup (requires (manifest (ranked ! rank)))) st"

text \<open>The comparator of \<open>[...entries].sort\<close>: kind priority, then code-unit order of the id.\<close>

definition rank_key :: "manifest_entry \<Rightarrow> nat \<times> string" where
  "rank_key e = (KIND_PRIORITY (kind (manifest e)), entry_id e)"

definition ranks_by_id :: "manifest_entry list \<Rightarrow> (string, nat) jsmap" where
  "ranks_by_id ranked = map_from (map (\<lambda>rank. (entry_id (ranked ! rank), rank)) [0..<length ranked])"

definition build_edges :: "manifest_entry list \<Rightarrow> providers \<Rightarrow> edges result" where
  "build_edges ranked providers =
     fold_r (link_entry ranked providers (ranks_by_id ranked)) [0..<length ranked]
       (replicate (length ranked) [], replicate (length ranked) 0)"

definition orderManifests :: "manifest_entry list \<Rightarrow> providers \<Rightarrow> manifest_entry list result" where
  "orderManifests entries providers =
     (let ranked = sort_key rank_key entries
      in bind_r (build_edges ranked providers) (\<lambda>(adjacency, indegree).
           let (ordered, indegree') = drain adjacency (initial_ready indegree) indegree []
           in if length ordered \<noteq> length ranked
              then throw (CodedFailure ''RESOLVE-CYCLE-003''
                     (map (\<lambda>rank. entry_id (ranked ! rank))
                        (filter (\<lambda>rank. indegree' ! rank > 0) [0..<length ranked])))
              else Inr (map ((!) ranked) ordered)))"

section \<open>Selection\<close>

record selection =
  by_id :: "(string, manifest_entry) jsmap"
  selected_providers :: providers
  queue :: "manifest_entry list"

definition no_selection :: selection where
  "no_selection = \<lparr>by_id = [], selected_providers = [], queue = []\<rparr>"

definition select :: "manifest_entry \<Rightarrow> selection \<Rightarrow> selection" where
  "select entry st =
     \<lparr>by_id = map_set (entry_id entry) entry (by_id st),
      selected_providers = addProvider entry (selected_providers st),
      queue = queue st @ [entry]\<rparr>"

definition selectedManifestIdentity :: "manifest_entry \<Rightarrow> manifest_entry" where
  "selectedManifestIdentity entry = entry\<lparr>registryResolution := None\<rparr>"

definition select_explicit :: "manifest_entry \<Rightarrow> selection \<Rightarrow> selection result" where
  "select_explicit entry st =
     (case map_get (by_id st) (entry_id entry) of
        None \<Rightarrow> Inr (select entry st)
      | Some selected \<Rightarrow>
          if selectedManifestIdentity selected \<noteq> selectedManifestIdentity entry
          then throw (CodedFailure ''RESOLVE-CONFLICT-004'' [entry_id entry])
          else Inr st)"

text \<open>The only origin that may be selected without being named in the plan.\<close>

definition implicit_provider_allowed :: "manifest_entry \<Rightarrow> bool" where
  "implicit_provider_allowed provider \<longleftrightarrow>
     registryKind provider = OfficialRegistry \<and> registryLocation provider = CompilerLocation \<and>
     registryPath provider = BUILTIN_OFFICIAL_REGISTRY_RELATIVE_PATH"

definition candidates_for :: "providers \<Rightarrow> string \<Rightarrow> manifest_entry list" where
  "candidates_for providers requirement =
     (case map_get providers requirement of None \<Rightarrow> [] | Some candidates \<Rightarrow> candidates)"

definition select_requirement :: "providers \<Rightarrow> string \<Rightarrow> selection \<Rightarrow> selection result" where
  "select_requirement catalogProviders requirement st =
     (if map_has (selected_providers st) requirement then Inr st
      else case candidates_for catalogProviders requirement of
        [] \<Rightarrow> throw (CodedFailure ''RESOLVE-MISSING-001'' [requirement])
      | [provider] \<Rightarrow>
          (case map_get (by_id st) (entry_id provider) of
             Some alreadySelected \<Rightarrow>
               throw (CodedFailure ''RESOLVE-CONFLICT-004'' [entry_id provider, requirement])
           | None \<Rightarrow>
               if \<not> implicit_provider_allowed provider
               then throw (CodedFailure ''RESOLVE-AUTHORITY-007'' [entry_id provider, requirement])
               else Inr (select provider st))
      | candidates \<Rightarrow>
          throw (CodedFailure ''RESOLVE-CONFLICT-004'' (requirement # map entry_id candidates)))"

text \<open>
  What bounds the closure loop: the queue entries not yet visited, and the catalog providers whose
  id is not selected yet. A selection moves one of the latter to the former.
\<close>

definition unselected_ids :: "providers \<Rightarrow> selection \<Rightarrow> string set" where
  "unselected_ids catalogProviders st =
     entry_id ` (\<Union>(c, ps) \<in> set catalogProviders. set ps) - fst ` set (by_id st)"

definition selection_potential :: "providers \<Rightarrow> selection \<Rightarrow> nat" where
  "selection_potential cat st = length (queue st) + card (unselected_ids cat st)"

lemma finite_unselected [simp]: "finite (unselected_ids cat st)"
  by (auto simp: unselected_ids_def)

lemma candidates_in:
  "p \<in> set (candidates_for cat r) \<Longrightarrow> \<exists>ps. (r, ps) \<in> set cat \<and> p \<in> set ps"
  by (auto simp: candidates_for_def split: option.splits dest: map_get_Some_in [OF sym])

lemma select_potential:
  assumes "p \<in> set (candidates_for cat r)" and "map_get (by_id st) (entry_id p) = None"
  shows "selection_potential cat (select p st) = selection_potential cat st"
proof -
  have "entry_id p \<in> unselected_ids cat st"
    using assms candidates_in [OF assms(1)] by (auto simp: unselected_ids_def map_get_None_iff)
  moreover have "unselected_ids cat (select p st) = unselected_ids cat st - {entry_id p}"
    by (auto simp: unselected_ids_def select_def)
  moreover have "card (unselected_ids cat st) > 0" using calculation by (auto simp: card_gt_0_iff)
  ultimately show ?thesis
    by (simp add: selection_potential_def select_def)
qed

text \<open>The two outcomes of a successful visit of a requirement.\<close>

lemma select_requirement_cases:
  assumes "select_requirement cat r st = Inr st'"
  obtains "map_has (selected_providers st) r" and "st' = st"
  | p where "\<not> map_has (selected_providers st) r" and "candidates_for cat r = [p]"
      and "map_get (by_id st) (entry_id p) = None" and "implicit_provider_allowed p"
      and "st' = select p st"
  using assms
  by (auto simp: select_requirement_def throw_def split: if_splits list.splits option.splits)

interpretation closing: loop_invariant "select_requirement cat" "\<lambda>st. selection_potential cat st \<le> k" "\<lambda>_. True"
  for cat k
proof
  fix st r st'
  assume k: "selection_potential cat st \<le> k" and s: "select_requirement cat r st = Inr st'"
  from s show "selection_potential cat st' \<le> k"
    by (cases rule: select_requirement_cases) (use k in \<open>auto simp: select_potential [where r = r]\<close>)
qed

lemma select_requirement_queue:
  "select_requirement cat r st = Inr st' \<Longrightarrow> \<exists>ps. queue st' = queue st @ ps"
  by (erule select_requirement_cases) (auto simp: select_def)

function close_requirements :: "providers \<Rightarrow> nat \<Rightarrow> selection \<Rightarrow> selection result" where
  "close_requirements catalogProviders index st =
     (if index < length (queue st) then
        bind_r (fold_r (select_requirement catalogProviders) (requires (manifest (queue st ! index))) st)
          (\<lambda>st'. close_requirements catalogProviders (Suc index) st')
      else Inr st)"
  by pat_completeness auto
termination
proof (relation "measure (\<lambda>(cat, index, st). selection_potential cat st - index)", goal_cases)
  case 1
  show ?case by simp
next
  case (2 cat index st st')
  then have "selection_potential cat st' \<le> selection_potential cat st"
    using closing.loop_keeps [of cat st "selection_potential cat st"] by simp
  moreover have "index < selection_potential cat st"
    using 2 by (simp add: selection_potential_def)
  ultimately show ?case by simp
qed

declare close_requirements.simps [simp del]

definition check_conflict :: "selection \<Rightarrow> manifest_entry \<Rightarrow> string \<Rightarrow> unit result" where
  "check_conflict st entry conflict =
     (if map_has (by_id st) conflict
      then throw (CodedFailure ''RESOLVE-CONFLICT-002'' [entry_id entry, conflict])
      else if map_has (selected_providers st) conflict
      then throw (CodedFailure ''RESOLVE-CONFLICT-003'' [entry_id entry, conflict])
      else Inr ())"

definition check_conflicts :: "selection \<Rightarrow> unit result" where
  "check_conflicts st =
     check_all (\<lambda>entry. check_all (check_conflict st entry) (conflicts (manifest entry))) (queue st)"

definition resolveManifestGraph ::
    "manifest_entry list \<Rightarrow> manifest_entry list \<Rightarrow> (manifest_entry list \<times> string list) result" where
  "resolveManifestGraph explicitEntries catalog =
     bind_r (assertManifestDefinitionConsistency (explicitEntries @ catalog)) (\<lambda>_.
     bind_r (fold_r select_explicit explicitEntries no_selection) (\<lambda>explicit.
     bind_r (close_requirements (fold addProvider catalog []) 0 explicit) (\<lambda>st.
     bind_r (check_conflicts st) (\<lambda>_.
     bind_r (orderManifests (queue st) (selected_providers st)) (\<lambda>entries.
       Inr (entries, sort (map fst (selected_providers st))))))))"


section \<open>The index is the providers of each capability\<close>

abbreviation offers :: "manifest_entry \<Rightarrow> string \<Rightarrow> bool" where
  "offers e c \<equiv> c \<in> set (provides (manifest e))"

abbreviation needs :: "manifest_entry \<Rightarrow> string \<Rightarrow> bool" where
  "needs e c \<equiv> c \<in> set (requires (manifest e))"

definition indexes :: "manifest_entry list \<Rightarrow> providers \<Rightarrow> bool" where
  "indexes es idx \<longleftrightarrow>
     distinct (map fst idx) \<and>
     (\<forall>c. map_get idx c = (if \<exists>e \<in> set es. offers e c then Some (filter (\<lambda>e. offers e c) es) else None))"

lemma map_get_push_batch:
  "distinct cs \<Longrightarrow> map_get (fold (\<lambda>c. map_push c e) cs idx) c =
     (if c \<in> set cs then Some ((case map_get idx c of None \<Rightarrow> [] | Some vs \<Rightarrow> vs) @ [e]) else map_get idx c)"
  by (induction cs arbitrary: idx) (auto simp: map_get_push)

lemma distinct_keys_push: "distinct (map fst m) \<Longrightarrow> distinct (map fst (map_push k v m))"
  by (auto simp: map_push_def distinct_map_set split: option.splits)

lemma distinct_keys_push_batch:
  "distinct (map fst idx) \<Longrightarrow> distinct (map fst (fold (\<lambda>c. map_push c e) cs idx))"
  by (induction cs arbitrary: idx) (auto simp: distinct_keys_push)

lemma indexes_Nil: "indexes [] []"
  by (simp add: indexes_def)

lemma indexes_addProvider: "indexes es idx \<Longrightarrow> indexes (es @ [e]) (addProvider e idx)"
  by (auto simp: indexes_def addProvider_def map_get_push_batch distinct_keys_push_batch)

lemma indexes_fold: "indexes es idx \<Longrightarrow> indexes (es @ fs) (fold addProvider fs idx)"
proof (induction fs arbitrary: es idx)
  case (Cons f fs)
  show ?case using Cons.IH [OF indexes_addProvider [OF Cons.prems, of f]] by simp
qed simp

lemma indexes_catalog: "indexes catalog (fold addProvider catalog [])"
  using indexes_fold [OF indexes_Nil, of catalog] by simp

lemma indexes_has: "indexes es idx \<Longrightarrow> map_has idx c \<longleftrightarrow> (\<exists>e \<in> set es. offers e c)"
  by (auto simp: indexes_def map_has_get)

lemma indexes_candidates:
  "indexes es idx \<Longrightarrow> candidates_for idx c = filter (\<lambda>e. offers e c) es"
  by (auto simp: indexes_def candidates_for_def filter_empty_conv)

lemma indexes_keys: "indexes es idx \<Longrightarrow> set (map fst idx) = (\<Union>e \<in> set es. set (provides (manifest e)))"
  using indexes_has [of es idx] by (auto simp: map_has_keys)

section \<open>The edges are the dependencies\<close>

text \<open>A dependency: the second entry requires a capability the first one provides.\<close>

definition depends :: "manifest_entry \<Rightarrow> manifest_entry \<Rightarrow> bool" where
  "depends p e \<longleftrightarrow> (\<exists>c. needs e c \<and> offers p c)"

definition edges_inv :: "nat \<Rightarrow> edges \<Rightarrow> bool" where
  "edges_inv n st \<longleftrightarrow> length (fst st) = n \<and> graph_ok (fst st) \<and> counts (fst st) {} (snd st)"

lemma add_edge_inv:
  assumes inv: "edges_inv n st" and p: "p < n" and r: "r < n"
  shows "edges_inv n (add_edge p r st) \<and>
         edge_rel (fst (add_edge p r st)) = edge_rel (fst st) \<union> (if p = r then {} else {(p, r)})"
proof -
  obtain adj deg where st: "st = (adj, deg)" by (cases st)
  show ?thesis
  proof (cases "p = r \<or> r \<in> set (adj ! p)")
    case True
    then show ?thesis using inv p st by (auto simp: add_edge_def edge_rel_def edges_inv_def)
  next
    case False
    let ?adj = "adj[p := adj ! p @ [r]]"
    have len: "length adj = n" "length deg = n" using inv st by (auto simp: edges_inv_def counts_def)
    have "graph_ok ?adj"
      using inv p r st False by (auto simp: edges_inv_def graph_ok_def nth_list_update)
    moreover have "waiting ?adj {} x = (if x = r then insert p (waiting adj {} x) else waiting adj {} x)" for x
      using p len by (auto simp: waiting_def nth_list_update)
    moreover have "p \<notin> waiting adj {} r" using False by (simp add: waiting_def)
    ultimately have "edges_inv n (?adj, deg[r := deg ! r + 1])"
      using inv st len r by (auto simp: edges_inv_def counts_def nth_list_update)
    moreover have "edge_rel ?adj = edge_rel adj \<union> {(p, r)}"
      using p len by (auto simp: edge_rel_def nth_list_update split: if_splits)
    ultimately show ?thesis using False st by (simp add: add_edge_def)
  qed
qed

lemma fold_edges:
  assumes "\<And>x st. x \<in> set xs \<Longrightarrow> edges_inv n st \<Longrightarrow>
      \<exists>st'. f x st = Inr st' \<and> edges_inv n st' \<and> edge_rel (fst st') = edge_rel (fst st) \<union> E x"
    and "edges_inv n st"
  shows "\<exists>st'. fold_r f xs st = Inr st' \<and> edges_inv n st' \<and>
           edge_rel (fst st') = edge_rel (fst st) \<union> (\<Union>x \<in> set xs. E x)"
  using assms
proof (induction xs arbitrary: st)
  case (Cons x xs)
  obtain st1 where st1: "f x st = Inr st1" "edges_inv n st1" "edge_rel (fst st1) = edge_rel (fst st) \<union> E x"
    using Cons.prems(1) [of x st] Cons.prems(2) by auto
  obtain st2 where "fold_r f xs st1 = Inr st2" "edges_inv n st2"
    "edge_rel (fst st2) = edge_rel (fst st1) \<union> (\<Union>x \<in> set xs. E x)"
    using Cons.IH [OF Cons.prems(1) st1(2)] by auto
  then show ?case using st1 by auto
qed auto

lemma ranks_by_id_get:
  assumes "distinct (map entry_id ranked)" and "i < length ranked"
  shows "map_get (ranks_by_id ranked) (entry_id (ranked ! i)) = Some i"
proof -
  let ?kvs = "map (\<lambda>rank. (entry_id (ranked ! rank), rank)) [0..<length ranked]"
  have "map fst ?kvs = map entry_id ranked" by (rule nth_equalityI) simp_all
  then have d: "distinct (map fst ?kvs)" using assms(1) by (simp only:)
  have "(entry_id (ranked ! i), i) \<in> set ?kvs" using assms(2) by simp
  then show ?thesis
    unfolding ranks_by_id_def map_get_def map_from_distinct [OF d] by (rule map_of_is_SomeI [OF d])
qed

lemma distinct_entry_ids: "distinct (map entry_id es) \<Longrightarrow> distinct es"
  by (simp add: distinct_map)

text \<open>With one entry per id and a provider for every requirement, the edges are the dependencies.\<close>

definition rank_deps :: "manifest_entry list \<Rightarrow> nat \<Rightarrow> string \<Rightarrow> (nat \<times> nat) set" where
  "rank_deps ranked r c = {(p, r) | p. p < length ranked \<and> p \<noteq> r \<and> offers (ranked ! p) c}"

lemma link_requirement_edges:
  assumes d: "distinct (map entry_id ranked)" and idx: "\<And>c. candidates_for idx c = filter (\<lambda>e. offers e c) es"
    and es: "set es = set ranked" and has: "\<exists>e \<in> set es. offers e c" and r: "r < length ranked"
    and inv: "edges_inv (length ranked) st"
  shows "\<exists>st'. link_requirement idx (ranks_by_id ranked) r c st = Inr st' \<and>
           edges_inv (length ranked) st' \<and> edge_rel (fst st') = edge_rel (fst st) \<union> rank_deps ranked r c"
proof -
  let ?cands = "filter (\<lambda>e. offers e c) es"
  define E where "E e = {(p, r) | p. p < length ranked \<and> p \<noteq> r \<and> ranked ! p = e}" for e
  have "?cands \<noteq> []" using has by (auto simp: filter_empty_conv)
  then have "map_get idx c = Some ?cands"
    using idx [of c] by (auto simp: candidates_for_def split: option.splits)
  then have link: "link_requirement idx (ranks_by_id ranked) r c st
      = fold_r (link_provider (ranks_by_id ranked) r) ?cands st"
    using \<open>?cands \<noteq> []\<close> by (auto simp: link_requirement_def split: list.splits)
  have "\<exists>st'. link_provider (ranks_by_id ranked) r e st = Inr st' \<and> edges_inv (length ranked) st' \<and>
          edge_rel (fst st') = edge_rel (fst st) \<union> E e"
    if "e \<in> set ?cands" and "edges_inv (length ranked) st" for e st
  proof -
    have "e \<in> set ranked" using that(1) es by simp
    then obtain p where p: "p < length ranked" "e = ranked ! p" unfolding in_set_conv_nth by blast
    have "E e = (if p = r then {} else {(p, r)})"
      using p nth_eq_iff_index_eq [OF distinct_entry_ids [OF d], of _ p] unfolding E_def by auto
    then show ?thesis
      using add_edge_inv [OF that(2) p(1) r] ranks_by_id_get [OF d p(1)] p
      by (simp add: link_provider_def)
  qed
  then obtain st' where "fold_r (link_provider (ranks_by_id ranked) r) ?cands st = Inr st'"
      "edges_inv (length ranked) st'" "edge_rel (fst st') = edge_rel (fst st) \<union> (\<Union>e \<in> set ?cands. E e)"
    using fold_edges [of ?cands "length ranked" "link_provider (ranks_by_id ranked) r" E st] inv by blast
  moreover have "(\<Union>e \<in> set ?cands. E e) = rank_deps ranked r c"
    using es by (auto simp: E_def rank_deps_def)
  ultimately show ?thesis using link by auto
qed

lemma initial_edges_inv: "edges_inv n (replicate n [], replicate n 0)"
  by (auto simp: edges_inv_def graph_ok_def counts_def waiting_def)

lemma build_edges_deps:
  assumes d: "distinct (map entry_id ranked)" and idx: "\<And>c. candidates_for idx c = filter (\<lambda>e. offers e c) es"
    and es: "set es = set ranked"
    and closed: "\<And>e c. e \<in> set ranked \<Longrightarrow> needs e c \<Longrightarrow> \<exists>p \<in> set es. offers p c"
  shows "\<exists>st. build_edges ranked idx = Inr st \<and> edges_inv (length ranked) st \<and>
           edge_rel (fst st) = {(p, r). p < length ranked \<and> r < length ranked \<and> p \<noteq> r \<and>
                                        depends (ranked ! p) (ranked ! r)}"
proof -
  let ?n = "length ranked"
  define E where "E r = (\<Union>c \<in> set (requires (manifest (ranked ! r))). rank_deps ranked r c)" for r
  have "\<exists>st'. link_entry ranked idx (ranks_by_id ranked) r st = Inr st' \<and> edges_inv ?n st' \<and>
          edge_rel (fst st') = edge_rel (fst st) \<union> E r"
    if "r \<in> set [0..<?n]" and "edges_inv ?n st" for r st
  proof -
    have r: "r < ?n" using that by simp
    have "\<exists>p \<in> set es. offers p c" if "c \<in> set (dedup (requires (manifest (ranked ! r))))" for c
      using closed [OF nth_mem [OF r]] that by simp
    then show ?thesis
      unfolding link_entry_def E_def
      using fold_edges [of "dedup (requires (manifest (ranked ! r)))" ?n
          "link_requirement idx (ranks_by_id ranked) r" "rank_deps ranked r" st]
        link_requirement_edges [OF d idx es _ r] that(2) by auto
  qed
  then obtain st where "build_edges ranked idx = Inr st" "edges_inv ?n st"
      "edge_rel (fst st) = edge_rel (replicate ?n []) \<union> (\<Union>r \<in> set [0..<?n]. E r)"
    unfolding build_edges_def
    using fold_edges [of "[0..<?n]" ?n "link_entry ranked idx (ranks_by_id ranked)" E, OF _ initial_edges_inv]
    by auto
  moreover have "edge_rel (replicate ?n []) = {}" by (auto simp: edge_rel_def)
  moreover have "(\<Union>r \<in> set [0..<?n]. E r) =
      {(p, r). p < ?n \<and> r < ?n \<and> p \<noteq> r \<and> depends (ranked ! p) (ranked ! r)}"
    by (auto simp: E_def rank_deps_def depends_def)
  ultimately show ?thesis by auto
qed


section \<open>The install order\<close>

definition dep_rel :: "manifest_entry list \<Rightarrow> (manifest_entry \<times> manifest_entry) set" where
  "dep_rel es = {(p, e). p \<in> set es \<and> e \<in> set es \<and> p \<noteq> e \<and> depends p e}"

text \<open>
  The contract of \<open>orderManifests\<close>: the entries are permuted so that at every position all
  providers come earlier, and among the entries that could stand there the one with the least
  kind priority and id does.
\<close>

definition placeable :: "manifest_entry list \<Rightarrow> manifest_entry set \<Rightarrow> manifest_entry \<Rightarrow> bool" where
  "placeable es placed e \<longleftrightarrow> e \<in> set es \<and> e \<notin> placed \<and> (\<forall>p. (p, e) \<in> dep_rel es \<longrightarrow> p \<in> placed)"

definition install_order :: "manifest_entry list \<Rightarrow> manifest_entry list \<Rightarrow> bool" where
  "install_order es xs \<longleftrightarrow> mset xs = mset es \<and>
     (\<forall>i < length xs. placeable es (set (take i xs)) (xs ! i) \<and>
        (\<forall>e. placeable es (set (take i xs)) e \<longrightarrow> rank_key (xs ! i) \<le> rank_key e))"

definition on_or_after_cycle :: "manifest_entry list \<Rightarrow> manifest_entry \<Rightarrow> bool" where
  "on_or_after_cycle es e \<longleftrightarrow> (\<exists>f. (f, f) \<in> (dep_rel es)\<^sup>+ \<and> (f, e) \<in> (dep_rel es)\<^sup>*)"

text \<open>Relations on ranks and on the entries at those ranks have the same paths.\<close>

lemma trancl_nth_image:
  assumes "distinct xs" and R: "R \<subseteq> {..<length xs} \<times> {..<length xs}"
    and S: "S = map_prod ((!) xs) ((!) xs) ` R" and "a < length xs" and "b < length xs"
  shows "(xs ! a, xs ! b) \<in> S\<^sup>+ \<longleftrightarrow> (a, b) \<in> R\<^sup>+"
proof
  assume "(a, b) \<in> R\<^sup>+"
  then show "(xs ! a, xs ! b) \<in> S\<^sup>+"
    by (induction rule: trancl_induct) (auto simp: S intro: trancl.intros)
next
  have inj: "i = j" if "i < length xs" "j < length xs" "xs ! i = xs ! j" for i j
    using that assms(1) by (simp add: nth_eq_iff_index_eq)
  have "(x, y) \<in> S\<^sup>+ \<Longrightarrow> x = xs ! a \<Longrightarrow> \<exists>j < length xs. y = xs ! j \<and> (a, j) \<in> R\<^sup>+" for x y
  proof (induction rule: trancl_induct)
    case (base y)
    then obtain i j where "(i, j) \<in> R" "xs ! i = xs ! a" "y = xs ! j" by (auto simp: S)
    then show ?case using inj [of i a] R assms(4) by (intro exI [of _ j]) auto
  next
    case (step y z)
    then obtain k where k: "k < length xs" "y = xs ! k" "(a, k) \<in> R\<^sup>+" by auto
    obtain i j where ij: "(i, j) \<in> R" "xs ! i = y" "z = xs ! j" using step(2) by (auto simp: S)
    then have "i = k" using inj [of i k] R k by auto
    then show ?case using ij k R by (intro exI [of _ j]) auto
  qed
  moreover assume "(xs ! a, xs ! b) \<in> S\<^sup>+"
  ultimately obtain j where "j < length xs" "xs ! b = xs ! j" "(a, j) \<in> R\<^sup>+" by blast
  then show "(a, b) \<in> R\<^sup>+" using inj [of b j] assms(5) by simp
qed

lemma key_order_of_rank:
  assumes "sorted (map rank_key ranked)" and "i \<le> j" and "j < length ranked"
  shows "rank_key (ranked ! i) \<le> rank_key (ranked ! j)"
  using sorted_nth_mono [OF assms(1), of i j] assms by simp


text \<open>The graph on ranks stands for the dependencies of \<open>es\<close>.\<close>

definition ranked_graph :: "manifest_entry list \<Rightarrow> manifest_entry list \<Rightarrow> nat list list \<Rightarrow> bool" where
  "ranked_graph es ranked adj \<longleftrightarrow>
     distinct ranked \<and> mset ranked = mset es \<and> sorted (map rank_key ranked) \<and>
     length adj = length ranked \<and> graph_ok adj \<and>
     edge_rel adj = {(p, r). p < length ranked \<and> r < length ranked \<and> p \<noteq> r \<and> depends (ranked ! p) (ranked ! r)}"

lemma ranked_graphD:
  assumes "ranked_graph es ranked adj"
  shows "distinct ranked" and "set es = set ranked" and "length adj = length ranked"
    and "sorted (map rank_key ranked)" and "mset ranked = mset es" and "graph_ok adj"
  using assms by (auto simp: ranked_graph_def dest: mset_eq_setD)

lemma ranked_graph_image:
  assumes "ranked_graph es ranked adj"
  shows "dep_rel es = map_prod ((!) ranked) ((!) ranked) ` edge_rel adj"
    and "edge_rel adj \<subseteq> {..<length ranked} \<times> {..<length ranked}"
proof -
  have d: "distinct ranked" and s: "set es = set ranked"
    using ranked_graphD [OF assms] by simp_all
  have e: "edge_rel adj = {(p, r). p < length ranked \<and> r < length ranked \<and> p \<noteq> r \<and> depends (ranked ! p) (ranked ! r)}"
    using assms by (simp add: ranked_graph_def)
  show "dep_rel es = map_prod ((!) ranked) ((!) ranked) ` edge_rel adj"
    unfolding dep_rel_def s e
    using d by (auto simp: in_set_conv_nth nth_eq_iff_index_eq image_iff)
  show "edge_rel adj \<subseteq> {..<length ranked} \<times> {..<length ranked}" unfolding e by auto
qed

lemma dep_rel_nth:
  assumes "ranked_graph es ranked adj" and "p < length ranked" and "r < length ranked"
  shows "(ranked ! p, ranked ! r) \<in> dep_rel es \<longleftrightarrow> (p, r) \<in> edge_rel adj"
  using ranked_graph_image [OF assms(1)] assms
  by (auto simp: ranked_graph_def nth_eq_iff_index_eq dep_rel_def dest: mset_eq_setD)

lemma free_ranks_placeable:
  assumes g: "ranked_graph es ranked adj" and ps: "set ps \<subseteq> {..<length ranked}" and r: "r < length ranked"
  shows "r \<in> set (free_ranks adj ps) \<longleftrightarrow> placeable es ((!) ranked ` set ps) (ranked ! r)"
proof -
  have len: "length adj = length ranked" and d: "distinct ranked" and s: "set es = set ranked"
    using ranked_graphD [OF g] by simp_all
  have mem: "ranked ! p \<in> (!) ranked ` set ps \<longleftrightarrow> p \<in> set ps" if "p < length ranked" for p
    using that ps d by (auto simp: nth_eq_iff_index_eq)
  have "(\<forall>p. (p, ranked ! r) \<in> dep_rel es \<longrightarrow> p \<in> (!) ranked ` set ps) \<longleftrightarrow>
        (\<forall>i < length ranked. (ranked ! i, ranked ! r) \<in> dep_rel es \<longrightarrow> ranked ! i \<in> (!) ranked ` set ps)"
    using s by (auto simp: dep_rel_def) (metis in_set_conv_nth)
  also have "\<dots> \<longleftrightarrow> (\<forall>i < length adj. r \<in> set (adj ! i) \<longrightarrow> i \<in> set ps)"
    using dep_rel_nth [OF g _ r] mem len by (auto simp: edge_rel_def)
  finally show ?thesis
    using mem [OF r] r len s by (simp add: free_ranks_def placeable_def)
qed

lemma greedy_install_order:
  assumes g: "ranked_graph es ranked adj" and p: "greedy_prefix adj xs" and full: "length xs = length ranked"
  shows "install_order es (map ((!) ranked) xs)"
proof -
  have len: "length adj = length ranked" and srt: "sorted (map rank_key ranked)"
    and m: "mset ranked = mset es" and s: "set es = set ranked"
    using ranked_graphD [OF g] by simp_all
  have range: "set xs = {..<length ranked}"
    using greedy_prefix_full [OF p] full len by simp
  have "mset xs = mset [0..<length ranked]"
    using set_eq_iff_mset_eq_distinct [OF greedy_prefix_distinct [OF p] distinct_upt, of 0 "length ranked"] range
    by (simp add: atLeast0LessThan)
  then have "mset (map ((!) ranked) xs) = mset (map ((!) ranked) [0..<length ranked])"
    by (simp only: mset_map)
  then have perm: "mset (map ((!) ranked) xs) = mset es" using m by (simp only: map_nth)
  have step: "placeable es (set (take i (map ((!) ranked) xs))) (map ((!) ranked) xs ! i) \<and>
      (\<forall>e. placeable es (set (take i (map ((!) ranked) xs))) e \<longrightarrow> rank_key (map ((!) ranked) xs ! i) \<le> rank_key e)"
    if i: "i < length xs" for i
  proof -
    have sub: "set (take i xs) \<subseteq> {..<length ranked}" using range set_take_subset by fast
    have xi: "xs ! i < length ranked" using greedy_prefix_nth(1) [OF p i] len by simp
    obtain rs where rs: "free_ranks adj (take i xs) = xs ! i # rs" using p i by (auto simp: greedy_prefix_def)
    have "placeable es ((!) ranked ` set (take i xs)) (ranked ! (xs ! i))"
      using free_ranks_placeable [OF g sub xi] rs by simp
    moreover have "rank_key (ranked ! (xs ! i)) \<le> rank_key e"
      if "placeable es ((!) ranked ` set (take i xs)) e" for e
    proof -
      have "e \<in> set ranked" using that s by (simp add: placeable_def)
      then obtain r where r: "r < length ranked" "e = ranked ! r" unfolding in_set_conv_nth by blast
      then have "xs ! i \<le> r"
        using greedy_prefix_nth(4) [OF p i] free_ranks_placeable [OF g sub r(1)] that by blast
      then show ?thesis using key_order_of_rank [OF srt _ r(1)] r(2) by blast
    qed
    ultimately show ?thesis using i by (simp add: take_map)
  qed
  then show ?thesis using perm by (simp add: install_order_def)
qed

lemma on_or_after_cycle_rank:
  assumes g: "ranked_graph es ranked adj" and r: "r < length ranked"
  shows "on_or_after_cycle es (ranked ! r) \<longleftrightarrow>
     (\<exists>f. (f, f) \<in> (edge_rel adj)\<^sup>+ \<and> (f, r) \<in> (edge_rel adj)\<^sup>*)"
proof -
  have d: "distinct ranked" and s: "set es = set ranked"
    using ranked_graphD [OF g] by simp_all
  note im = ranked_graph_image [OF g]
  note tr = trancl_nth_image [OF d im(2) im(1)]
  have node: "f < length ranked" if "(f, x) \<in> (edge_rel adj)\<^sup>+" for f x
    using that im(2) by (auto dest!: tranclD)
  have enode: "\<exists>i < length ranked. f = ranked ! i" if "(f, x) \<in> (dep_rel es)\<^sup>+" for f x
    using that s by (auto dest!: tranclD simp: dep_rel_def in_set_conv_nth)
  have rt: "(ranked ! f, ranked ! r) \<in> (dep_rel es)\<^sup>* \<longleftrightarrow> (f, r) \<in> (edge_rel adj)\<^sup>*"
    if "f < length ranked" for f
    using tr [OF that r] that r d by (simp add: rtrancl_eq_or_trancl nth_eq_iff_index_eq)
  show ?thesis
  proof
    assume "on_or_after_cycle es (ranked ! r)"
    then obtain f where f: "(f, f) \<in> (dep_rel es)\<^sup>+" "(f, ranked ! r) \<in> (dep_rel es)\<^sup>*"
      by (auto simp: on_or_after_cycle_def)
    then obtain i where "i < length ranked" "f = ranked ! i" using enode by blast
    then show "\<exists>f. (f, f) \<in> (edge_rel adj)\<^sup>+ \<and> (f, r) \<in> (edge_rel adj)\<^sup>*"
      using f tr [of i i] rt [of i] by blast
  next
    assume "\<exists>f. (f, f) \<in> (edge_rel adj)\<^sup>+ \<and> (f, r) \<in> (edge_rel adj)\<^sup>*"
    then obtain f where f: "(f, f) \<in> (edge_rel adj)\<^sup>+" "(f, r) \<in> (edge_rel adj)\<^sup>*" by blast
    then have "f < length ranked" using node by blast
    then show "on_or_after_cycle es (ranked ! r)"
      using f tr [of f f] rt [of f] by (auto simp: on_or_after_cycle_def)
  qed
qed


lemma acyclic_rank_iff:
  assumes g: "ranked_graph es ranked adj"
  shows "acyclic (edge_rel adj) \<longleftrightarrow> acyclic (dep_rel es)"
proof -
  have "acyclic (dep_rel es) \<longleftrightarrow> (\<forall>e \<in> set es. \<not> on_or_after_cycle es e)"
    by (auto simp: acyclic_def on_or_after_cycle_def dest: tranclD)
      (metis (mono_tags, lifting) dep_rel_def mem_Collect_eq rtrancl.rtrancl_refl split_conv tranclD)
  also have "\<dots> \<longleftrightarrow> (\<forall>r < length ranked. \<not> on_or_after_cycle es (ranked ! r))"
    using ranked_graphD(2) [OF g] by (metis in_set_conv_nth)
  also have "\<dots> \<longleftrightarrow> (\<forall>r < length ranked. \<forall>f. (f, f) \<in> (edge_rel adj)\<^sup>+ \<longrightarrow> (f, r) \<notin> (edge_rel adj)\<^sup>*)"
    using on_or_after_cycle_rank [OF g] by blast
  also have "\<dots> \<longleftrightarrow> acyclic (edge_rel adj)"
  proof -
    have "f < length ranked" if "(f, f) \<in> (edge_rel adj)\<^sup>+" for f
      using that ranked_graph_image(2) [OF g] by (auto dest!: tranclD)
    then show ?thesis by (auto simp: acyclic_def)
  qed
  finally show ?thesis by simp
qed

lemma unplaced_count:
  assumes "graph_ok adj" and "greedy_prefix adj xs" and "free_ranks adj xs = []"
    and "counts adj (set xs) deg" and "r < length adj"
  shows "deg ! r > 0 \<longleftrightarrow> r \<notin> set xs"
proof -
  have "deg ! r > 0 \<longleftrightarrow> waiting adj (set xs) r \<noteq> {}"
    using assms(4,5) by (simp add: counts_def card_gt_0_iff)
  moreover have "waiting adj (set xs) r = {}" if "r \<in> set xs"
  proof -
    have "p \<in> set xs" if "(p, r) \<in> edge_rel adj" for p
      using greedy_placed_ancestors [OF assms(2)] that \<open>r \<in> set xs\<close> by blast
    then show ?thesis by (auto simp: waiting_def edge_rel_def)
  qed
  moreover have "waiting adj (set xs) r \<noteq> {}" if "r \<notin> set xs"
    using that assms(3,5) set_free_ranks [of adj xs] by auto
  ultimately show ?thesis by blast
qed

lemma filter_nth_upt:
  "(\<And>r. r < length xs \<Longrightarrow> P r \<longleftrightarrow> Q (xs ! r)) \<Longrightarrow>
     map (\<lambda>r. f (xs ! r)) (filter P [0..<length xs]) = map f (filter Q xs)"
proof (induction xs rule: rev_induct)
  case (snoc x xs)
  have "map (\<lambda>r. f ((xs @ [x]) ! r)) (filter P [0..<length xs]) =
        map (\<lambda>r. f (xs ! r)) (filter P [0..<length xs])"
    by (auto simp: nth_append)
  moreover have "P r \<longleftrightarrow> Q (xs ! r)" if "r < length xs" for r
    using snoc.prems [of r] that by (simp add: nth_append)
  then have "map (\<lambda>r. f (xs ! r)) (filter P [0..<length xs]) = map f (filter Q xs)"
    by (rule snoc.IH)
  ultimately show ?case using snoc.prems [of "length xs"] by (simp add: nth_append)
qed simp

text \<open>The two outcomes of ordering a closed selection.\<close>

lemma orderManifests_cases:
  assumes d: "distinct (map entry_id es)" and idx: "indexes es idx"
    and closed: "\<And>e c. e \<in> set es \<Longrightarrow> needs e c \<Longrightarrow> \<exists>p \<in> set es. offers p c"
  shows "acyclic (dep_rel es) \<and> (\<exists>xs. orderManifests es idx = Inr xs \<and> install_order es xs)
       \<or> \<not> acyclic (dep_rel es) \<and>
         orderManifests es idx = Inl (CodedFailure ''RESOLVE-CYCLE-003''
           (map entry_id (filter (on_or_after_cycle es) (sort_key rank_key es))))"
proof -
  let ?ranked = "sort_key rank_key es"
  let ?n = "length ?ranked"
  have dr: "distinct (map entry_id ?ranked)"
    using d by (metis distinct_map distinct_sort set_sort)
  obtain adj deg where build: "build_edges ?ranked idx = Inr (adj, deg)" and inv: "edges_inv ?n (adj, deg)"
    and e: "edge_rel adj = {(p, r). p < ?n \<and> r < ?n \<and> p \<noteq> r \<and> depends (?ranked ! p) (?ranked ! r)}"
    using build_edges_deps [OF dr indexes_candidates [OF idx], of ] closed by fastforce
  have g: "ranked_graph es ?ranked adj"
    using distinct_entry_ids [OF dr] inv e by (simp add: ranked_graph_def edges_inv_def)
  note rg = ranked_graphD [OF g]
  let ?xs = "greedy_order adj []"
  have gp: "greedy_prefix adj ?xs" "free_ranks adj ?xs = []"
    using greedy_order_prefix [of adj "[]"] by (simp_all add: greedy_prefix_def)
  obtain deg' where dr': "drain adj (initial_ready deg) deg [] = (?xs, deg')" and c: "counts adj (set ?xs) deg'"
    using drain_initial [OF rg(6)] inv by (auto simp: edges_inv_def)
  have order: "orderManifests es idx =
      (if length ?xs \<noteq> ?n then Inl (CodedFailure ''RESOLVE-CYCLE-003''
          (map (\<lambda>r. entry_id (?ranked ! r)) (filter (\<lambda>r. deg' ! r > 0) [0..<?n])))
       else Inr (map ((!) ?ranked) ?xs))"
    by (simp add: orderManifests_def build dr' throw_def)
  have full: "length ?xs = ?n \<longleftrightarrow> acyclic (dep_rel es)"
    using greedy_complete_iff_acyclic [OF rg(6) gp] acyclic_rank_iff [OF g] rg(3) by simp
  have blocked: "deg' ! r > 0 \<longleftrightarrow> on_or_after_cycle es (?ranked ! r)" if "r < ?n" for r
    using unplaced_count [OF rg(6) gp c, of r] on_or_after_cycle_rank [OF g that]
      unplaced_iff [OF rg(6) gp, of r] that rg(3) by simp
  have "map (\<lambda>r. entry_id (?ranked ! r)) (filter (\<lambda>r. deg' ! r > 0) [0..<?n]) =
        map entry_id (filter (on_or_after_cycle es) ?ranked)"
    using filter_nth_upt [of ?ranked "\<lambda>r. deg' ! r > 0" "on_or_after_cycle es"] blocked by simp
  then show ?thesis using order full greedy_install_order [OF g gp(1)] by auto
qed


section \<open>The selection\<close>

definition selection_ok :: "selection \<Rightarrow> bool" where
  "selection_ok st \<longleftrightarrow>
     distinct (map entry_id (queue st)) \<and> indexes (queue st) (selected_providers st) \<and>
     by_id st = map (\<lambda>e. (entry_id e, e)) (queue st)"

lemma by_id_get_None:
  "selection_ok st \<Longrightarrow> map_get (by_id st) i = None \<longleftrightarrow> i \<notin> entry_id ` set (queue st)"
  by (auto simp: selection_ok_def map_get_None_iff image_image)

lemma by_id_get_Some:
  "selection_ok st \<Longrightarrow> map_get (by_id st) i = Some e \<Longrightarrow> e \<in> set (queue st) \<and> entry_id e = i"
  by (auto simp: selection_ok_def dest!: map_get_Some_in)

lemma no_selection_ok: "selection_ok no_selection"
  by (simp add: selection_ok_def no_selection_def indexes_Nil)

lemma select_ok:
  assumes "selection_ok st" and "map_get (by_id st) (entry_id e) = None"
  shows "selection_ok (select e st)"
proof -
  have new: "entry_id e \<notin> entry_id ` set (queue st)" using assms by (simp add: by_id_get_None)
  then have "map_set (entry_id e) e (by_id st) = by_id st @ [(entry_id e, e)]"
    using assms(1) by (intro map_set_new) (auto simp: selection_ok_def image_image)
  then show ?thesis
    using assms(1) new by (auto simp: selection_ok_def select_def indexes_addProvider)
qed

interpretation explicit: loop_invariant select_explicit selection_ok "\<lambda>_. True"
  by unfold_locales (auto simp: select_explicit_def throw_def select_ok split: option.splits if_splits)

interpretation closing_ok: loop_invariant "select_requirement cat" selection_ok "\<lambda>_. True" for cat
proof
  fix st r st'
  assume "selection_ok st" and "select_requirement cat r st = Inr st'"
  then show "selection_ok st'" by (auto elim!: select_requirement_cases intro: select_ok)
qed

text \<open>Explicit entries are all kept, one per id, up to the diagnostic source resolution.\<close>

lemma explicit_step:
  assumes ok: "selection_ok st" and s: "select_explicit e st = Inr st'"
  shows "set (queue st) \<subseteq> set (queue st')" and "set (queue st') \<subseteq> insert e (set (queue st))"
    and "\<exists>x \<in> set (queue st'). selectedManifestIdentity x = selectedManifestIdentity e"
proof -
  consider "map_get (by_id st) (entry_id e) = None" "st' = select e st"
    | x where "map_get (by_id st) (entry_id e) = Some x" "st' = st"
        "selectedManifestIdentity x = selectedManifestIdentity e"
    using s by (auto simp: select_explicit_def throw_def split: option.splits if_splits)
  then have "set (queue st) \<subseteq> set (queue st') \<and> set (queue st') \<subseteq> insert e (set (queue st)) \<and>
      (\<exists>x \<in> set (queue st'). selectedManifestIdentity x = selectedManifestIdentity e)"
    by cases (use ok in \<open>auto simp: select_def dest: by_id_get_Some\<close>)
  then show "set (queue st) \<subseteq> set (queue st')" and "set (queue st') \<subseteq> insert e (set (queue st))"
    and "\<exists>x \<in> set (queue st'). selectedManifestIdentity x = selectedManifestIdentity e" by auto
qed

lemma explicit_selection:
  assumes "selection_ok st" and "fold_r select_explicit es st = Inr st'"
  shows "set (queue st) \<subseteq> set (queue st') \<and> set (queue st') \<subseteq> set es \<union> set (queue st) \<and>
         (\<forall>e \<in> set es. \<exists>x \<in> set (queue st'). selectedManifestIdentity x = selectedManifestIdentity e)"
  using assms
proof (induction es arbitrary: st)
  case (Cons e es)
  then obtain st1 where st1: "select_explicit e st = Inr st1" "fold_r select_explicit es st1 = Inr st'" by auto
  then have "selection_ok st1" using explicit.body_keeps Cons.prems(1) by blast
  then show ?case using Cons.IH st1 explicit_step [OF Cons.prems(1) st1(1)] by fastforce
qed auto

text \<open>Why an entry outside the plan is selected.\<close>

definition unique_catalog_provider ::
    "manifest_entry list \<Rightarrow> manifest_entry list \<Rightarrow> string \<Rightarrow> manifest_entry \<Rightarrow> bool" where
  "unique_catalog_provider catalog chosen c p \<longleftrightarrow>
     implicit_provider_allowed p \<and> filter (\<lambda>e. offers e c) catalog = [p] \<and> (\<forall>x \<in> set chosen. \<not> offers x c)"

lemma closing_step:
  assumes ok: "selection_ok st" and cat: "indexes catalog cat" and s: "select_requirement cat r st = Inr st'"
  shows "\<exists>ps. queue st' = queue st @ ps \<and> (\<exists>p \<in> set (queue st'). offers p r) \<and>
           (\<forall>p \<in> set ps. unique_catalog_provider catalog (queue st) r p)"
  using s
proof (cases rule: select_requirement_cases)
  case 1
  then show ?thesis using ok indexes_has [of "queue st"] by (auto simp: selection_ok_def)
next
  case (2 p)
  then have f: "filter (\<lambda>e. offers e r) catalog = [p]" by (simp add: indexes_candidates [OF cat])
  then have "p \<in> set (filter (\<lambda>e. offers e r) catalog)" by simp
  then have "offers p r" by simp
  then show ?thesis
    using 2 f ok indexes_has [of "queue st"]
    by (auto simp: select_def unique_catalog_provider_def selection_ok_def)
qed

lemma closing_entry:
  assumes "selection_ok st" and "indexes catalog cat" and "fold_r (select_requirement cat) rs st = Inr st'"
  shows "\<exists>ps. queue st' = queue st @ ps \<and> (\<forall>r \<in> set rs. \<exists>p \<in> set (queue st'). offers p r) \<and>
           (\<forall>p \<in> set ps. \<exists>r \<in> set rs. unique_catalog_provider catalog (queue st) r p)"
  using assms(1,3)
proof (induction rs arbitrary: st)
  case (Cons r rs)
  then obtain st1 where st1: "select_requirement cat r st = Inr st1"
    "fold_r (select_requirement cat) rs st1 = Inr st'" by auto
  then have "selection_ok st1" using closing_ok.body_keeps Cons.prems(1) by blast
  from Cons.IH [OF this st1(2)] obtain qs where
    qs: "queue st' = queue st1 @ qs" "\<forall>r \<in> set rs. \<exists>p \<in> set (queue st'). offers p r"
      "\<forall>p \<in> set qs. \<exists>r \<in> set rs. unique_catalog_provider catalog (queue st1) r p" by blast
  from closing_step [OF Cons.prems(1) assms(2) st1(1)] obtain ps where
    ps: "queue st1 = queue st @ ps" "\<exists>p \<in> set (queue st1). offers p r"
      "\<forall>p \<in> set ps. unique_catalog_provider catalog (queue st) r p" by blast
  have "\<forall>p \<in> set qs. \<exists>r \<in> set rs. unique_catalog_provider catalog (queue st) r p"
    using qs(3) ps(1) by (fastforce simp: unique_catalog_provider_def)
  then show ?case using qs ps by (intro exI [of _ "ps @ qs"]) auto
qed auto

lemma close_requirements_sound:
  "indexes catalog cat \<Longrightarrow> selection_ok st \<Longrightarrow> close_requirements cat i st = Inr st' \<Longrightarrow>
    (\<forall>j < i. j < length (queue st) \<longrightarrow> (\<forall>c. needs (queue st ! j) c \<longrightarrow> (\<exists>p \<in> set (queue st). offers p c))) \<Longrightarrow>
    selection_ok st' \<and> (\<exists>ps. queue st' = queue st @ ps \<and>
      (\<forall>e \<in> set (queue st'). \<forall>c. needs e c \<longrightarrow> (\<exists>p \<in> set (queue st'). offers p c)) \<and>
      (\<forall>p \<in> set ps. \<exists>e \<in> set (queue st'). \<exists>c. needs e c \<and> unique_catalog_provider catalog (queue st) c p))"
proof (induction cat i st arbitrary: rule: close_requirements.induct)
  case (1 cat i st)
  show ?case
  proof (cases "i < length (queue st)")
    case False
    then have "st' = st" using "1.prems"(3) by (simp add: close_requirements.simps)
    moreover have "\<exists>j < i. j < length (queue st) \<and> e = queue st ! j" if "e \<in> set (queue st)" for e
      using that False unfolding in_set_conv_nth by (metis not_le order_less_le_trans)
    ultimately show ?thesis using "1.prems"(2,4) by fastforce
  next
    case True
    let ?e = "queue st ! i"
    obtain st1 where st1: "fold_r (select_requirement cat) (requires (manifest ?e)) st = Inr st1"
      and rest: "close_requirements cat (Suc i) st1 = Inr st'"
      using "1.prems"(3) True by (subst (asm) close_requirements.simps) auto
    have ok1: "selection_ok st1" using closing_ok.loop_keeps "1.prems"(2) st1 by blast
    from closing_entry [OF "1.prems"(2) "1.prems"(1) st1] obtain ps where
      ps: "queue st1 = queue st @ ps" "\<forall>c. needs ?e c \<longrightarrow> (\<exists>p \<in> set (queue st1). offers p c)"
        "\<forall>p \<in> set ps. \<exists>c. needs ?e c \<and> unique_catalog_provider catalog (queue st) c p" by blast
    have "\<forall>j < Suc i. j < length (queue st1) \<longrightarrow>
        (\<forall>c. needs (queue st1 ! j) c \<longrightarrow> (\<exists>p \<in> set (queue st1). offers p c))"
      using "1.prems"(4) ps True by (auto simp: nth_append less_Suc_eq) (meson UnI1)
    from "1.IH" [OF True st1 "1.prems"(1) ok1 rest this] obtain qs where
      qs: "selection_ok st'" "queue st' = queue st1 @ qs"
        "\<forall>e \<in> set (queue st'). \<forall>c. needs e c \<longrightarrow> (\<exists>p \<in> set (queue st'). offers p c)"
        "\<forall>p \<in> set qs. \<exists>e \<in> set (queue st'). \<exists>c. needs e c \<and> unique_catalog_provider catalog (queue st1) c p"
      by blast
    have "?e \<in> set (queue st')" using qs(2) ps(1) True by simp
    then have "\<forall>p \<in> set ps. \<exists>e \<in> set (queue st'). \<exists>c. needs e c \<and> unique_catalog_provider catalog (queue st) c p"
      using ps(3) by blast
    moreover have "\<forall>p \<in> set qs. \<exists>e \<in> set (queue st'). \<exists>c. needs e c \<and> unique_catalog_provider catalog (queue st) c p"
      using qs(4) ps(1) by (fastforce simp: unique_catalog_provider_def)
    ultimately show ?thesis using qs ps(1) by (auto intro!: exI [of _ "ps @ qs"])
  qed
qed


section \<open>The resolver\<close>

lemma check_conflicts_ok_iff:
  assumes "selection_ok st"
  shows "check_conflicts st = Inr () \<longleftrightarrow>
     (\<forall>e \<in> set (queue st). \<forall>c \<in> set (conflicts (manifest e)).
        \<forall>x \<in> set (queue st). entry_id x \<noteq> c \<and> \<not> offers x c)"
proof -
  have "check_conflict st e c = Inr () \<longleftrightarrow> (\<forall>x \<in> set (queue st). entry_id x \<noteq> c \<and> \<not> offers x c)" for e c
    using indexes_has [of "queue st" "selected_providers st" c] assms by_id_get_None [OF assms, of c]
    by (auto simp: check_conflict_def throw_def selection_ok_def map_has_get)
  then show ?thesis by (simp add: check_conflicts_def check_all_Inr_iff)
qed

text \<open>What every successful resolution went through.\<close>

lemma resolve_decompose:
  assumes "resolveManifestGraph explicitEntries catalog = Inr (entries, caps)"
  obtains st0 st where "definitions_agree (explicitEntries @ catalog)"
    and "fold_r select_explicit explicitEntries no_selection = Inr st0"
    and "close_requirements (fold addProvider catalog []) 0 st0 = Inr st"
    and "selection_ok st0" and "selection_ok st" and "check_conflicts st = Inr ()"
    and "orderManifests (queue st) (selected_providers st) = Inr entries"
    and "caps = sort (map fst (selected_providers st))"
proof -
  from assms obtain u st0 st where
    c: "assertManifestDefinitionConsistency (explicitEntries @ catalog) = Inr u"
    and s: "fold_r select_explicit explicitEntries no_selection = Inr st0"
      "close_requirements (fold addProvider catalog []) 0 st0 = Inr st" "check_conflicts st = Inr ()"
      "orderManifests (queue st) (selected_providers st) = Inr entries"
      "caps = sort (map fst (selected_providers st))"
    by (auto simp: resolveManifestGraph_def)
  have "definitions_agree (explicitEntries @ catalog)"
    using c definition_consistency_ok_iff [of "explicitEntries @ catalog"] by simp
  moreover have ok0: "selection_ok st0" using explicit.loop_keeps [OF no_selection_ok _ s(1)] by simp
  moreover have "selection_ok st"
    using close_requirements_sound [OF indexes_catalog ok0 s(2)] by simp
  ultimately show ?thesis using that s by blast
qed

lemma closed_selection:
  assumes "selection_ok st0" and "close_requirements (fold addProvider catalog []) 0 st0 = Inr st"
  shows "\<exists>ps. queue st = queue st0 @ ps \<and>
      (\<forall>e \<in> set (queue st). \<forall>c. needs e c \<longrightarrow> (\<exists>p \<in> set (queue st). offers p c)) \<and>
      (\<forall>p \<in> set ps. \<exists>e \<in> set (queue st). \<exists>c. needs e c \<and> unique_catalog_provider catalog (queue st0) c p)"
  using close_requirements_sound [OF indexes_catalog assms] by simp

lemma resolve_entries_order:
  assumes ok: "selection_ok st"
    and closed: "\<forall>e \<in> set (queue st). \<forall>c. needs e c \<longrightarrow> (\<exists>p \<in> set (queue st). offers p c)"
  shows "acyclic (dep_rel (queue st)) \<and>
           (\<exists>xs. orderManifests (queue st) (selected_providers st) = Inr xs \<and> install_order (queue st) xs)
       \<or> \<not> acyclic (dep_rel (queue st)) \<and>
           orderManifests (queue st) (selected_providers st) = Inl (CodedFailure ''RESOLVE-CYCLE-003''
             (map entry_id (filter (on_or_after_cycle (queue st)) (sort_key rank_key (queue st)))))"
  using orderManifests_cases [of "queue st" "selected_providers st"] ok closed
  by (simp add: selection_ok_def)

lemma dep_rel_set: "set xs = set ys \<Longrightarrow> dep_rel xs = dep_rel ys"
  by (simp add: dep_rel_def)

lemma install_order_self:
  assumes "install_order es xs"
  shows "install_order xs xs" and "set xs = set es"
proof -
  show s: "set xs = set es" using assms by (auto simp: install_order_def dest: mset_eq_setD)
  then show "install_order xs xs"
    using assms by (simp add: install_order_def placeable_def dep_rel_set [OF s])
qed


text \<open>The stages before ordering throw only their own failures.\<close>

lemma select_explicit_failure:
  "fold_r select_explicit es st = Inl e \<Longrightarrow> failure_code e = ''RESOLVE-CONFLICT-004''"
  by (induction es arbitrary: st)
    (auto simp: bind_r_Inl_iff select_explicit_def throw_def split: option.splits if_splits)

lemma select_requirement_failure:
  "fold_r (select_requirement cat) rs st = Inl e \<Longrightarrow>
     failure_code e \<in> {''RESOLVE-CONFLICT-004'', ''RESOLVE-MISSING-001'', ''RESOLVE-AUTHORITY-007''}"
proof (induction rs arbitrary: st)
  case (Cons r rs)
  have "failure_code e \<in> {''RESOLVE-CONFLICT-004'', ''RESOLVE-MISSING-001'', ''RESOLVE-AUTHORITY-007''}"
    if "select_requirement cat r st = Inl e"
    using that by (auto simp: select_requirement_def throw_def split: if_splits list.splits option.splits)
  then show ?case using Cons by (auto simp: bind_r_Inl_iff)
qed simp

lemma close_requirements_failure:
  "close_requirements cat i st = Inl e \<Longrightarrow>
     failure_code e \<in> {''RESOLVE-CONFLICT-004'', ''RESOLVE-MISSING-001'', ''RESOLVE-AUTHORITY-007''}"
proof (induction cat i st rule: close_requirements.induct)
  case (1 cat i st)
  have "i < length (queue st)"
    using "1.prems" by (subst (asm) close_requirements.simps) (auto split: if_splits)
  then have "fold_r (select_requirement cat) (requires (manifest (queue st ! i))) st = Inl e \<or>
      (\<exists>st'. fold_r (select_requirement cat) (requires (manifest (queue st ! i))) st = Inr st' \<and>
         close_requirements cat (Suc i) st' = Inl e)"
    using "1.prems" by (subst (asm) close_requirements.simps) (auto simp: bind_r_Inl_iff)
  then show ?case using select_requirement_failure "1.IH" [OF \<open>i < length (queue st)\<close>] by blast
qed

lemma check_conflicts_failure:
  "check_conflicts st = Inl e \<Longrightarrow> failure_code e \<in> {''RESOLVE-CONFLICT-002'', ''RESOLVE-CONFLICT-003''}"
  unfolding check_conflicts_def
  by (auto dest!: check_all_InlD simp: check_conflict_def throw_def split: if_splits)

lemma resolve_failure_stages:
  assumes "resolveManifestGraph explicitEntries catalog = Inl e"
  shows "failure_code e \<in> {''RESOLVE-CONFLICT-004'', ''RESOLVE-MISSING-001'', ''RESOLVE-AUTHORITY-007'',
           ''RESOLVE-CONFLICT-002'', ''RESOLVE-CONFLICT-003''} \<or>
    (\<exists>st0 st. fold_r select_explicit explicitEntries no_selection = Inr st0 \<and>
      close_requirements (fold addProvider catalog []) 0 st0 = Inr st \<and>
      orderManifests (queue st) (selected_providers st) = Inl e)"
proof -
  have "failure_code e = ''RESOLVE-CONFLICT-004''"
    if "assertManifestDefinitionConsistency (explicitEntries @ catalog) = Inl e"
    using that record_definition_failure by (auto simp: assertManifestDefinitionConsistency_def bind_r_Inl_iff)
  then show ?thesis
    using assms select_explicit_failure close_requirements_failure check_conflicts_failure
    unfolding resolveManifestGraph_def bind_r_Inl_iff by blast
qed

lemma resolve_failure_stage:
  assumes "resolveManifestGraph explicitEntries catalog = Inl (CodedFailure ''RESOLVE-CYCLE-003'' ids)"
  shows "\<exists>st0 st. fold_r select_explicit explicitEntries no_selection = Inr st0 \<and>
      close_requirements (fold addProvider catalog []) 0 st0 = Inr st \<and>
      orderManifests (queue st) (selected_providers st) = Inl (CodedFailure ''RESOLVE-CYCLE-003'' ids)"
  using resolve_failure_stages [OF assms] by simp

lemma cyclic_member: "\<not> acyclic (dep_rel es) \<Longrightarrow> \<exists>e \<in> set es. on_or_after_cycle es e"
proof -
  assume "\<not> acyclic (dep_rel es)"
  then obtain f where f: "(f, f) \<in> (dep_rel es)\<^sup>+" by (auto simp: acyclic_def)
  then have "f \<in> set es" by (auto dest!: tranclD simp: dep_rel_def)
  then show ?thesis using f by (auto simp: on_or_after_cycle_def)
qed

lemma unique_provider_in_catalog: "unique_catalog_provider catalog chosen c p \<Longrightarrow> p \<in> set catalog"
proof -
  assume "unique_catalog_provider catalog chosen c p"
  then have "p \<in> set (filter (\<lambda>e. offers e c) catalog)" by (simp add: unique_catalog_provider_def)
  then show ?thesis by simp
qed

lemma explicit_distinct:
  "selection_ok st \<Longrightarrow> distinct (map entry_id (queue st @ es)) \<Longrightarrow>
     \<exists>st'. fold_r select_explicit es st = Inr st' \<and> queue st' = queue st @ es"
proof (induction es arbitrary: st)
  case (Cons e es)
  have "map_get (by_id st) (entry_id e) = None"
    using Cons.prems by (auto simp: by_id_get_None [OF Cons.prems(1)])
  moreover have "queue (select e st) = queue st @ [e]" by (simp add: select_def)
  ultimately show ?case
    using Cons.IH [of "select e st"] Cons.prems select_ok [OF Cons.prems(1)]
    by (simp add: select_explicit_def)
qed simp

lemma close_requirements_closed:
  assumes ok: "selection_ok st"
    and closed: "\<forall>e \<in> set (queue st). \<forall>c \<in> set (requires (manifest e)). \<exists>p \<in> set (queue st). offers p c"
  shows "close_requirements cat i st = Inr st"
proof (induction "length (queue st) - i" arbitrary: i)
  case 0
  then show ?case by (simp add: close_requirements.simps)
next
  case (Suc n)
  have has: "select_requirement cat r st = Inr st" if "needs (queue st ! i) r" for r
  proof -
    have "queue st ! i \<in> set (queue st)" using Suc(2) by (intro nth_mem) simp
    then have "map_has (selected_providers st) r"
      using closed that ok indexes_has [of "queue st"] by (auto simp: selection_ok_def)
    then show ?thesis by (simp add: select_requirement_def)
  qed
  have "(\<And>r. r \<in> set rs \<Longrightarrow> select_requirement cat r st = Inr st) \<Longrightarrow>
      fold_r (select_requirement cat) rs st = Inr st" for rs
    by (induction rs) auto
  then have "fold_r (select_requirement cat) (requires (manifest (queue st ! i))) st = Inr st" using has by blast
  then show ?case using Suc by (simp add: close_requirements.simps [of cat i])
qed

lemma resolved_order_facts:
  assumes "resolveManifestGraph explicitEntries catalog = Inr (entries, caps)"
  shows "distinct (map entry_id entries) \<and> install_order entries entries \<and> acyclic (dep_rel entries)"
  using assms
proof (cases rule: resolve_decompose)
  case (1 st0 st)
  obtain ps where "\<forall>e \<in> set (queue st). \<forall>c. needs e c \<longrightarrow> (\<exists>p \<in> set (queue st). offers p c)"
    using closed_selection [OF 1(4,3)] by blast
  then have o: "install_order (queue st) entries" and a: "acyclic (dep_rel (queue st))"
    using resolve_entries_order [OF 1(5)] 1(7) by auto
  have "distinct (map entry_id (queue st))" using 1(5) by (simp add: selection_ok_def)
  then have "distinct (map entry_id entries)"
    using o by (metis install_order_def mset_eq_imp_distinct_iff mset_map)
  then show ?thesis using install_order_self [OF o] a dep_rel_set by metis
qed

lemma resolved_install_order:
  "resolveManifestGraph explicitEntries catalog = Inr (entries, caps) \<Longrightarrow> install_order entries entries"
  using resolved_order_facts by blast

section \<open>Correctness of the resolver\<close>

text \<open>A small catalog on which the properties are applied.\<close>

definition plain_manifest ::
    "string \<Rightarrow> manifest_kind \<Rightarrow> string list \<Rightarrow> string list \<Rightarrow> string list \<Rightarrow> block_manifest" where
  "plain_manifest i k rs ps cs =
     \<lparr>block_id = i, version = ''1.0.0'', kind = k, stackProfiles = [SUPPORTED_STACK], compatibility = None,
      requires = rs, provides = ps, conflicts = cs,
      installs = [\<lparr>install_kind = ''copy'', install_from = ''files'', install_to = i\<rparr>],
      pins = \<lparr>pin_inputs = [], pin_outputs = []\<rparr>, acceptance = [], upgrade = None, contracts = [],
      generators = []\<rparr>"

definition official_entry :: "block_manifest \<Rightarrow> manifest_entry" where
  "official_entry m =
     \<lparr>registryResolution = None, manifest = m, manifestPath = ''block.yaml'', manifestRoot = ''r'',
      resourceRoots = [], registryRoot = ''r'', registrySourceId = ''official'',
      registryKind = OfficialRegistry, registryLocation = CompilerLocation,
      registryPath = BUILTIN_OFFICIAL_REGISTRY_RELATIVE_PATH\<rparr>"

definition sample_app :: manifest_entry where
  "sample_app = official_entry (plain_manifest ''app/web'' Capability [''auth'', ''db''] [''web''] [''legacy''])"

definition sample_auth :: manifest_entry where
  "sample_auth = official_entry (plain_manifest ''core/auth'' Capability [''db''] [''auth''] [])"

definition sample_db :: manifest_entry where
  "sample_db = official_entry (plain_manifest ''infra/db'' Infra [] [''db''] [])"

definition sample_loop :: manifest_entry where
  "sample_loop = official_entry (plain_manifest ''core/loop'' Strategy [''web''] [''db''] [])"

lemmas sample_defs = sample_app_def sample_auth_def sample_db_def sample_loop_def official_entry_def
  plain_manifest_def

lemma sample_resolution:
  "resolveManifestGraph [sample_app] [sample_auth, sample_db] =
     Inr ([sample_db, sample_auth, sample_app], [''auth'', ''db'', ''web''])"
  by code_simp

lemma sample_fields:
  "requires (manifest sample_auth) = [''db'']" "provides (manifest sample_auth) = [''auth'']"
  "requires (manifest sample_db) = []" "provides (manifest sample_db) = [''db'']"
  "entry_id sample_auth = ''core/auth''" "entry_id sample_db = ''infra/db''"
  by (simp_all add: sample_defs)

lemma sample_distinct: "sample_auth \<noteq> sample_db"
proof
  assume "sample_auth = sample_db"
  then have "entry_id sample_auth = entry_id sample_db" by (rule arg_cong)
  then show False by (simp add: sample_fields)
qed

lemma sample_dep: "dep_rel [sample_auth, sample_db] \<subseteq> {(sample_db, sample_auth)}"
  by (auto simp: dep_rel_def depends_def sample_fields)

lemma sample_cycle:
  "resolveManifestGraph [sample_app, sample_auth, sample_loop] [] =
     Inl (CodedFailure ''RESOLVE-CYCLE-003'' [''app/web'', ''core/auth'', ''core/loop''])"
  by code_simp

text \<open>
  C1. The entries a successful resolution returns have distinct ids and stand in the install order:
  at every position all providers of the entry's requirements are earlier, and no entry that could
  stand there has a smaller kind priority and id. The install order exists only without dependency
  cycles.
\<close>

theorem resolve_install_order:
  assumes "resolveManifestGraph explicitEntries catalog = Inr (entries, caps)"
  shows "distinct (map entry_id entries) \<and> install_order entries entries \<and> acyclic (dep_rel entries)"
  using resolved_order_facts [OF assms] .

theorem resolve_install_order_witness:
  "distinct (map entry_id [sample_db, sample_auth, sample_app]) \<and>
   install_order [sample_db, sample_auth, sample_app] [sample_db, sample_auth, sample_app] \<and>
   acyclic (dep_rel [sample_db, sample_auth, sample_app])"
  by (rule resolve_install_order [OF sample_resolution])


text \<open>
  C2. A successful resolution keeps every explicitly selected entry (up to its diagnostic source
  resolution), satisfies every requirement inside the result, leaves no declared conflict with a
  selected id or capability, and reports exactly the provided capabilities, sorted without
  repetition.
\<close>

theorem resolve_closed_and_conflict_free:
  assumes "resolveManifestGraph explicitEntries catalog = Inr (entries, caps)"
  shows "(\<forall>e \<in> set explicitEntries. \<exists>x \<in> set entries. selectedManifestIdentity x = selectedManifestIdentity e) \<and>
    (\<forall>e \<in> set entries. \<forall>c \<in> set (requires (manifest e)). \<exists>p \<in> set entries. c \<in> set (provides (manifest p))) \<and>
    (\<forall>e \<in> set entries. \<forall>c \<in> set (conflicts (manifest e)).
       \<forall>x \<in> set entries. entry_id x \<noteq> c \<and> c \<notin> set (provides (manifest x))) \<and>
    sorted caps \<and> distinct caps \<and> set caps = (\<Union>e \<in> set entries. set (provides (manifest e)))"
  using assms
proof (cases rule: resolve_decompose)
  case (1 st0 st)
  obtain ps where q: "queue st = queue st0 @ ps"
    and closed: "\<forall>e \<in> set (queue st). \<forall>c. needs e c \<longrightarrow> (\<exists>p \<in> set (queue st). offers p c)"
    using closed_selection [OF 1(4,3)] by blast
  then have s: "set entries = set (queue st)"
    using resolve_entries_order [OF 1(5) closed] 1(7) install_order_self(2) by fastforce
  have "\<forall>e \<in> set explicitEntries. \<exists>x \<in> set (queue st). selectedManifestIdentity x = selectedManifestIdentity e"
    using explicit_selection [OF no_selection_ok 1(2)] q by fastforce
  moreover have idx: "indexes (queue st) (selected_providers st)" using 1(5) by (simp add: selection_ok_def)
  then have "distinct caps" "sorted caps" "set caps = (\<Union>e \<in> set (queue st). set (provides (manifest e)))"
    using 1(8) indexes_keys [OF idx] by (simp_all add: indexes_def)
  ultimately show ?thesis
    using check_conflicts_ok_iff [OF 1(5)] 1(6) closed unfolding s by blast
qed

theorem resolve_closed_and_conflict_free_witness:
  "\<exists>x \<in> set [sample_db, sample_auth, sample_app].
     selectedManifestIdentity x = selectedManifestIdentity sample_app"
  using resolve_closed_and_conflict_free [OF sample_resolution] by simp

text \<open>
  C3. Catalog discovery is not authorization: whatever a successful resolution returns is an entry
  of the plan, or comes from the compiler's built-in official registry, is the only catalog
  provider of a capability that a returned entry requires and that no returned plan entry provides.
\<close>

theorem resolve_authority:
  assumes "resolveManifestGraph explicitEntries catalog = Inr (entries, caps)" and "p \<in> set entries"
  shows "p \<in> set explicitEntries \<or>
    registryKind p = OfficialRegistry \<and> registryLocation p = CompilerLocation \<and>
    registryPath p = BUILTIN_OFFICIAL_REGISTRY_RELATIVE_PATH \<and>
    (\<exists>e \<in> set entries. \<exists>c \<in> set (requires (manifest e)).
       filter (\<lambda>x. c \<in> set (provides (manifest x))) catalog = [p] \<and>
       (\<forall>x \<in> set explicitEntries. x \<in> set entries \<longrightarrow> c \<notin> set (provides (manifest x))))"
  using assms(1)
proof (cases rule: resolve_decompose)
  case (1 st0 st)
  obtain ps where q: "queue st = queue st0 @ ps"
    and closed: "\<forall>e \<in> set (queue st). \<forall>c. needs e c \<longrightarrow> (\<exists>p \<in> set (queue st). offers p c)"
    and why: "\<forall>p \<in> set ps. \<exists>e \<in> set (queue st). \<exists>c. needs e c \<and> unique_catalog_provider catalog (queue st0) c p"
    using closed_selection [OF 1(4,3)] by blast
  have s: "set entries = set (queue st)"
    using resolve_entries_order [OF 1(5) closed] 1(7) install_order_self(2) by fastforce
  have d: "distinct (map entry_id (queue st))" using 1(5) by (simp add: selection_ok_def)
  note ex = explicit_selection [OF no_selection_ok 1(2)]
  have sub: "set (queue st0) \<subseteq> set explicitEntries" using ex by (simp add: no_selection_def)
  have plan: "x \<in> set (queue st0)" if "x \<in> set explicitEntries" "x \<in> set (queue st)" for x
  proof -
    obtain y where y: "y \<in> set (queue st0)" "selectedManifestIdentity y = selectedManifestIdentity x"
      using ex \<open>x \<in> set explicitEntries\<close> by blast
    have "entry_id y = entry_id x"
      using arg_cong [OF y(2), of manifest] by (simp add: selectedManifestIdentity_def)
    then show ?thesis using d y(1) that(2) q by (auto simp: distinct_map inj_on_def)
  qed
  have "p \<in> set (queue st0) \<or> p \<in> set ps" using assms(2) s q by auto
  then show ?thesis
    using sub why plan s unfolding unique_catalog_provider_def implicit_provider_allowed_def by blast
qed

theorem resolve_authority_witness:
  "sample_db \<in> set [sample_app] \<or>
    registryKind sample_db = OfficialRegistry \<and> registryLocation sample_db = CompilerLocation \<and>
    registryPath sample_db = BUILTIN_OFFICIAL_REGISTRY_RELATIVE_PATH \<and>
    (\<exists>e \<in> set [sample_db, sample_auth, sample_app]. \<exists>c \<in> set (requires (manifest e)).
       filter (\<lambda>x. c \<in> set (provides (manifest x))) [sample_auth, sample_db] = [sample_db] \<and>
       (\<forall>x \<in> set [sample_app]. x \<in> set [sample_db, sample_auth, sample_app] \<longrightarrow> c \<notin> set (provides (manifest x))))"
  by (rule resolve_authority [OF sample_resolution]) simp

text \<open>
  C4. The cycle failure is exact: when it is thrown, the selected entries (one per id, all
  requirements satisfied among them) have a dependency cycle, and the blocked ids it reports are
  those of the entries on a cycle or depending on one, in rank order, and at least one.
\<close>

theorem resolve_cycle_failure:
  assumes "resolveManifestGraph explicitEntries catalog = Inl (CodedFailure ''RESOLVE-CYCLE-003'' ids)"
  shows "\<exists>es. set es \<subseteq> set explicitEntries \<union> set catalog \<and> distinct (map entry_id es) \<and>
    (\<forall>e \<in> set es. \<forall>c \<in> set (requires (manifest e)). \<exists>p \<in> set es. c \<in> set (provides (manifest p))) \<and>
    \<not> acyclic (dep_rel es) \<and> ids \<noteq> [] \<and>
    ids = map entry_id (filter (on_or_after_cycle es) (sort_key rank_key es))"
proof -
  obtain st0 st where s: "fold_r select_explicit explicitEntries no_selection = Inr st0"
    "close_requirements (fold addProvider catalog []) 0 st0 = Inr st"
    and f: "orderManifests (queue st) (selected_providers st) = Inl (CodedFailure ''RESOLVE-CYCLE-003'' ids)"
    using assms resolve_failure_stage by blast
  have ok0: "selection_ok st0" using explicit.loop_keeps [OF no_selection_ok _ s(1)] by simp
  have ok: "selection_ok st" using close_requirements_sound [OF indexes_catalog ok0 s(2)] by simp
  obtain ps where q: "queue st = queue st0 @ ps"
    and closed: "\<forall>e \<in> set (queue st). \<forall>c. needs e c \<longrightarrow> (\<exists>p \<in> set (queue st). offers p c)"
    and why: "\<forall>p \<in> set ps. \<exists>e \<in> set (queue st). \<exists>c. needs e c \<and> unique_catalog_provider catalog (queue st0) c p"
    using closed_selection [OF ok0 s(2)] by blast
  have ids: "ids = map entry_id (filter (on_or_after_cycle (queue st)) (sort_key rank_key (queue st)))"
    and cyc: "\<not> acyclic (dep_rel (queue st))"
    using resolve_entries_order [OF ok closed] f by auto
  have "\<exists>e \<in> set (queue st). on_or_after_cycle (queue st) e"
    using cyc cyclic_member by blast
  then have "ids \<noteq> []" using ids by (simp add: filter_empty_conv)
  moreover have "set (queue st0) \<subseteq> set explicitEntries"
    using explicit_selection [OF no_selection_ok s(1)] by (simp add: no_selection_def)
  moreover have "set ps \<subseteq> set catalog"
    using why unique_provider_in_catalog by blast
  ultimately show ?thesis
    using ids cyc ok closed q by (intro exI [of _ "queue st"]) (auto simp: selection_ok_def)
qed

theorem resolve_cycle_failure_witness:
  "\<exists>es. set es \<subseteq> set [sample_app, sample_auth, sample_loop] \<union> set [] \<and> distinct (map entry_id es) \<and>
    (\<forall>e \<in> set es. \<forall>c \<in> set (requires (manifest e)). \<exists>p \<in> set es. c \<in> set (provides (manifest p))) \<and>
    \<not> acyclic (dep_rel es) \<and> [''app/web'', ''core/auth'', ''core/loop''] \<noteq> [] \<and>
    [''app/web'', ''core/auth'', ''core/loop''] =
      map entry_id (filter (on_or_after_cycle es) (sort_key rank_key es))"
  by (rule resolve_cycle_failure [OF sample_cycle])

text \<open>
  C5. Resolution always returns, and a failure carries one of six codes: an inconsistent or ambiguous
  selection, a missing provider, a provider that needs the plan's authority, a conflict, or a cycle.
  The internal failure for a missing adjacency is unreachable.
\<close>

theorem resolve_failure_codes:
  assumes "resolveManifestGraph explicitEntries catalog = Inl e"
  shows "failure_code e \<in> {''RESOLVE-CONFLICT-004'', ''RESOLVE-MISSING-001'', ''RESOLVE-AUTHORITY-007'',
           ''RESOLVE-CONFLICT-002'', ''RESOLVE-CONFLICT-003'', ''RESOLVE-CYCLE-003''}"
proof -
  consider "failure_code e \<in> {''RESOLVE-CONFLICT-004'', ''RESOLVE-MISSING-001'', ''RESOLVE-AUTHORITY-007'',
           ''RESOLVE-CONFLICT-002'', ''RESOLVE-CONFLICT-003''}"
    | st0 st where "fold_r select_explicit explicitEntries no_selection = Inr st0"
      "close_requirements (fold addProvider catalog []) 0 st0 = Inr st"
      "orderManifests (queue st) (selected_providers st) = Inl e"
    using resolve_failure_stages [OF assms] by blast
  then show ?thesis
  proof cases
    case 1
    then show ?thesis by blast
  next
    case (2 st0 st)
    have ok0: "selection_ok st0" using explicit.loop_keeps [OF no_selection_ok _ 2(1)] by simp
    then have "selection_ok st" using close_requirements_sound [OF indexes_catalog ok0 2(2)] by simp
    then show ?thesis using resolve_entries_order closed_selection [OF ok0 2(2)] 2(3) by fastforce
  qed
qed

theorem resolve_failure_codes_witness:
  "failure_code (CodedFailure ''RESOLVE-CYCLE-003'' [''app/web'', ''core/auth'', ''core/loop'']) \<in>
     {''RESOLVE-CONFLICT-004'', ''RESOLVE-MISSING-001'', ''RESOLVE-AUTHORITY-007'',
      ''RESOLVE-CONFLICT-002'', ''RESOLVE-CONFLICT-003'', ''RESOLVE-CYCLE-003''}"
  by (rule resolve_failure_codes [OF sample_cycle])


text \<open>
  A plan that is closed on its own is resolved as it stands: when the definitions agree and the
  named entries have distinct ids, provide each other's requirements, declare no conflict with one
  another and have no cycle, resolution succeeds with exactly those entries, whatever the catalog
  offers.
\<close>

theorem resolve_closed_plan:
  assumes agree: "definitions_agree (explicitEntries @ catalog)"
    and d: "distinct (map entry_id explicitEntries)"
    and closed: "\<forall>e \<in> set explicitEntries. \<forall>c \<in> set (requires (manifest e)).
                   \<exists>p \<in> set explicitEntries. c \<in> set (provides (manifest p))"
    and free: "\<forall>e \<in> set explicitEntries. \<forall>c \<in> set (conflicts (manifest e)).
                 \<forall>x \<in> set explicitEntries. entry_id x \<noteq> c \<and> c \<notin> set (provides (manifest x))"
    and ac: "acyclic (dep_rel explicitEntries)"
  shows "\<exists>entries caps. resolveManifestGraph explicitEntries catalog = Inr (entries, caps) \<and>
           install_order explicitEntries entries"
proof -
  obtain st where st: "fold_r select_explicit explicitEntries no_selection = Inr st"
      and q: "queue st = explicitEntries"
    using explicit_distinct [OF no_selection_ok, of explicitEntries] d by (auto simp: no_selection_def)
  have ok: "selection_ok st" using explicit.loop_keeps [OF no_selection_ok _ st] by simp
  have "close_requirements (fold addProvider catalog []) 0 st = Inr st"
    using close_requirements_closed [OF ok] closed q by simp
  moreover have "check_conflicts st = Inr ()" using check_conflicts_ok_iff [OF ok] free q by simp
  moreover obtain xs where "orderManifests (queue st) (selected_providers st) = Inr xs"
      and "install_order explicitEntries xs"
    using resolve_entries_order [OF ok] closed ac q by auto
  moreover have "is_ok (assertManifestDefinitionConsistency (explicitEntries @ catalog))"
    using agree definition_consistency_ok_iff by blast
  ultimately show ?thesis using st by (auto simp: resolveManifestGraph_def is_ok_iff)
qed

theorem resolve_closed_plan_witness:
  "\<exists>entries caps. resolveManifestGraph [sample_auth, sample_db] [sample_app] = Inr (entries, caps) \<and>
     install_order [sample_auth, sample_db] entries"
proof (rule resolve_closed_plan)
  show "definitions_agree ([sample_auth, sample_db] @ [sample_app])"
    by (simp add: sample_defs definitions_agree_def same_key_def)
  show "acyclic (dep_rel [sample_auth, sample_db])"
    by (rule acyclic_subset [OF _ sample_dep]) (simp add: acyclic_insert sample_distinct wf_acyclic)
qed (simp_all add: sample_defs)

end
