(* ===== verification/Text.thy ===== *)
theory Text
  imports Prelude
begin

text \<open>
  The operations of JavaScript strings that the identity grammars use: \<open>split\<close>, \<open>join\<close>,
  \<open>startsWith\<close>, \<open>endsWith\<close>, \<open>includes\<close> (\<open>has_infix\<close>), \<open>replaceAll\<close>, \<open>trim\<close>, \<open>toLowerCase\<close>, and the character
  classes of the regular expressions. They are exact for code units below 256; on such strings
  \<open>normalize('NFC')\<close> is the identity, since every one of these characters is its own composed form.
\<close>

section \<open>Definitions\<close>

fun split_on :: "char \<Rightarrow> string \<Rightarrow> string list" where
  "split_on sep [] = [[]]"
| "split_on sep (c # cs) =
     (if c = sep then [] # split_on sep cs
      else case split_on sep cs of [] \<Rightarrow> [[c]] | w # ws \<Rightarrow> (c # w) # ws)"

fun join_with :: "string \<Rightarrow> string list \<Rightarrow> string" where
  "join_with sep [] = []"
| "join_with sep [w] = w"
| "join_with sep (w # v # ws) = w @ sep @ join_with sep (v # ws)"

fun starts_with :: "string \<Rightarrow> string \<Rightarrow> bool" where
  "starts_with s [] = True"
| "starts_with [] (p # ps) = False"
| "starts_with (c # cs) (p # ps) = (c = p \<and> starts_with cs ps)"

definition ends_with :: "string \<Rightarrow> string \<Rightarrow> bool" where
  "ends_with s t = starts_with (rev s) (rev t)"

fun has_infix :: "string \<Rightarrow> string \<Rightarrow> bool" where
  "has_infix [] t = (t = [])"
| "has_infix (c # cs) t = (starts_with (c # cs) t \<or> has_infix cs t)"

definition replace_char :: "char \<Rightarrow> char \<Rightarrow> string \<Rightarrow> string" where
  "replace_char a b s = map (\<lambda>c. if c = a then b else c) s"

definition char_between :: "nat \<Rightarrow> nat \<Rightarrow> char \<Rightarrow> bool" where
  "char_between lo hi c = (lo \<le> of_char c \<and> of_char c \<le> hi)"

definition is_lower :: "char \<Rightarrow> bool" where
  "is_lower c = char_between 97 122 c"

definition is_upper :: "char \<Rightarrow> bool" where
  "is_upper c = char_between 65 90 c"

definition is_digit :: "char \<Rightarrow> bool" where
  "is_digit c = char_between 48 57 c"

definition is_lower_alnum :: "char \<Rightarrow> bool" where
  "is_lower_alnum c = (is_lower c \<or> is_digit c)"

definition is_hex_lower :: "char \<Rightarrow> bool" where
  "is_hex_lower c = (is_digit c \<or> char_between 97 102 c)"

text \<open>White space and line terminators below 256, as \<open>trim\<close> removes them.\<close>

definition is_space :: "char \<Rightarrow> bool" where
  "is_space c = (char_between 9 13 c \<or> of_char c = (32 :: nat) \<or> of_char c = (160 :: nat))"

definition trim :: "string \<Rightarrow> string" where
  "trim s = rev (dropWhile is_space (rev (dropWhile is_space s)))"

text \<open>
  \<open>toLowerCase\<close>: ASCII letters and the Latin-1 capitals (192 to 222 without the multiplication
  sign 215) move up by 32.
\<close>

definition lower_char :: "char \<Rightarrow> char" where
  "lower_char c =
     (if is_upper c \<or> (char_between 192 222 c \<and> of_char c \<noteq> (215 :: nat)) then char_of (of_char c + 32 :: nat) else c)"

definition to_lower :: "string \<Rightarrow> string" where
  "to_lower s = map lower_char s"

text \<open>Decimal numerals.\<close>

fun show_nat :: "nat \<Rightarrow> string" where
  "show_nat n =
     (if n < 10 then [char_of (48 + n)] else show_nat (n div 10) @ [char_of (48 + n mod 10)])"

declare show_nat.simps [simp del]

section \<open>Splitting and joining\<close>

lemma split_on_nonempty [simp]: "split_on sep s \<noteq> []"
  by (induction s) (auto split: list.splits)

lemma split_on_no_sep: "w \<in> set (split_on sep s) \<Longrightarrow> sep \<notin> set w"
  by (induction s arbitrary: w) (auto split: if_splits list.splits)

lemma split_on_chars: "w \<in> set (split_on sep s) \<Longrightarrow> c \<in> set w \<Longrightarrow> c \<in> set s"
proof (induction s arbitrary: w)
  case (Cons x xs)
  show ?case
  proof (cases "x = sep")
    case False
    obtain v vs where s: "split_on sep xs = v # vs" by (meson neq_Nil_conv split_on_nonempty)
    then have "w = x # v \<or> w \<in> set vs" using Cons.prems False by auto
    then show ?thesis using Cons.IH [of v] Cons.IH [of w] Cons.prems(2) s by auto
  qed (use Cons in auto)
qed simp

lemma join_with_Cons: "ws \<noteq> [] \<Longrightarrow> join_with sep (w # ws) = w @ sep @ join_with sep ws"
  by (cases ws) auto

lemma join_split: "join_with [sep] (split_on sep s) = s"
proof (induction s)
  case (Cons c s)
  obtain w ws where s: "split_on sep s = w # ws" by (meson neq_Nil_conv split_on_nonempty)
  show ?case
  proof (cases "c = sep")
    case True
    then show ?thesis using Cons by (simp add: join_with_Cons)
  next
    case False
    then show ?thesis using Cons s by (cases ws) auto
  qed
qed simp

lemma split_on_append_sep: "sep \<notin> set w \<Longrightarrow> split_on sep (w @ sep # s) = w # split_on sep s"
  by (induction w) auto

lemma split_on_plain: "sep \<notin> set w \<Longrightarrow> split_on sep w = [w]"
  by (induction w) auto

lemma split_join: "ws \<noteq> [] \<Longrightarrow> (\<And>w. w \<in> set ws \<Longrightarrow> sep \<notin> set w) \<Longrightarrow> split_on sep (join_with [sep] ws) = ws"
proof (induction ws)
  case (Cons w ws)
  show ?case
  proof (cases "ws = []")
    case True
    then show ?thesis using Cons.prems by (simp add: split_on_plain)
  next
    case False
    then show ?thesis using Cons by (simp add: join_with_Cons split_on_append_sep)
  qed
qed simp

lemma set_join: "set (join_with sep ws) \<subseteq> (\<Union>w \<in> set ws. set w) \<union> set sep"
  by (induction sep ws rule: join_with.induct) auto

lemma split_on_absent: "length (split_on sep s) = 1 \<longleftrightarrow> sep \<notin> set s"
proof
  assume "length (split_on sep s) = 1"
  then obtain w where "split_on sep s = [w]" by (auto simp: length_Suc_conv)
  then show "sep \<notin> set s" using join_split [of sep s] split_on_no_sep [of w sep s] by simp
qed (simp add: split_on_plain)

lemma hd_split_on: "s \<noteq> [] \<Longrightarrow> hd s \<noteq> sep \<Longrightarrow> hd (split_on sep s) \<noteq> []"
  by (cases s) (auto split: list.splits)

section \<open>Prefixes\<close>

lemma starts_with_iff: "starts_with s p \<longleftrightarrow> (\<exists>t. s = p @ t)"
  by (induction s p rule: starts_with.induct) auto

lemma ends_with_iff: "ends_with s t \<longleftrightarrow> (\<exists>u. s = u @ t)"
proof
  assume "ends_with s t"
  then obtain v where "rev s = rev t @ v" by (auto simp: ends_with_def starts_with_iff)
  then have "s = rev v @ t" by (metis rev_append rev_rev_ident)
  then show "\<exists>u. s = u @ t" ..
qed (auto simp: ends_with_def starts_with_iff)

lemma has_infix_iff: "has_infix s t \<longleftrightarrow> (\<exists>u v. s = u @ t @ v)"
proof (induction s)
  case (Cons c s)
  show ?case
  proof
    assume "has_infix (c # s) t"
    then consider v where "c # s = t @ v" | u v where "s = u @ t @ v" using Cons by (auto simp: starts_with_iff)
    then show "\<exists>u v. c # s = u @ t @ v"
    proof cases
      case (1 v)
      then show ?thesis by (intro exI [of _ "[]"] exI [of _ v]) simp
    next
      case (2 u v)
      then show ?thesis by (intro exI [of _ "c # u"] exI [of _ v]) simp
    qed
  next
    assume "\<exists>u v. c # s = u @ t @ v"
    then obtain u v where uv: "c # s = u @ t @ v" by blast
    show "has_infix (c # s) t"
    proof (cases u)
      case Nil
      then have "starts_with (c # s) t" using uv by (auto simp: starts_with_iff)
      then show ?thesis by simp
    next
      case (Cons x xs)
      then have "s = xs @ t @ v" using uv by simp
      then show ?thesis using \<open>has_infix s t \<longleftrightarrow> (\<exists>u v. s = u @ t @ v)\<close> by auto
    qed
  qed
qed auto

lemma has_infix_char: "has_infix s [c] \<longleftrightarrow> c \<in> set s"
  by (auto simp: has_infix_iff dest: split_list)

lemma replace_char_idem: "a \<noteq> b \<Longrightarrow> replace_char a b (replace_char a b s) = replace_char a b s"
  by (auto simp: replace_char_def)

lemma replace_char_absent: "a \<notin> set s \<Longrightarrow> replace_char a b s = s"
  by (induction s) (auto simp: replace_char_def)

lemma of_char_inject: "(of_char c :: nat) = of_char d \<longleftrightarrow> c = d"
  by simp

lemma char_between_range [simp]: "char_between lo hi (char_of n) \<longleftrightarrow> lo \<le> n mod 256 \<and> n mod 256 \<le> hi"
  by (simp add: char_between_def)

lemma lower_char_idem: "lower_char (lower_char c) = lower_char c"
proof (cases "is_upper c \<or> (char_between 192 222 c \<and> of_char c \<noteq> (215 :: nat))")
  case True
  define d :: char where "d = char_of (of_char c + 32 :: nat)"
  have d: "lower_char c = d" using True by (simp add: lower_char_def d_def)
  have "(of_char d :: nat) = of_char c + 32"
    using True by (auto simp: d_def is_upper_def char_between_def)
  then have "\<not> (is_upper d \<or> (char_between 192 222 d \<and> of_char d \<noteq> (215 :: nat)))"
    using True by (auto simp: is_upper_def char_between_def)
  then have "lower_char d = d" unfolding lower_char_def by (rule if_not_P)
  then show ?thesis using d by simp
next
  case False
  then have "lower_char c = c" unfolding lower_char_def by (rule if_not_P)
  then show ?thesis by simp
qed

lemma to_lower_idem: "to_lower (to_lower s) = to_lower s"
  by (simp add: to_lower_def lower_char_idem)

lemma lower_char_alnum: "is_lower_alnum c \<Longrightarrow> lower_char c = c"
  by (auto simp: lower_char_def is_lower_alnum_def is_lower_def is_digit_def is_upper_def char_between_def)

end
