(* ===== verification/LogicalIdentity.thy ===== *)
theory LogicalIdentity
  imports Text
begin

text \<open>
  The lexical identities of the compiler: portable logical paths
  (\<^verbatim>\<open>src/src/contracts/logical-path.ts\<close>, \<^verbatim>\<open>logical-path-component.ts\<close>), relative paths
  (\<^verbatim>\<open>src/src/contracts/relative-path.ts\<close>), repository paths
  (\<^verbatim>\<open>src/src/contracts/repository-path.ts\<close>), block ids and registry versions
  (\<^verbatim>\<open>src/src/semantics/identity/block.ts\<close>) and acceptance ids
  (\<^verbatim>\<open>src/src/semantics/acceptance/identity.ts\<close>). Each regular expression is the predicate on
  characters it denotes; a \<open>unknown\<close> argument is a string here, the \<open>typeof\<close> guard being the type.
\<close>

section \<open>Host-reserved components\<close>

text \<open>\<open>con|prn|aux|nul|(com|lpt)[1-9]\<close> and the three superscript digits of Latin-1.\<close>

definition device_digits :: "char list" where
  "device_digits = ''123456789'' @ [CHR 0xB9, CHR 0xB2, CHR 0xB3]"

definition device_stems :: "string list" where
  "device_stems = [''con'', ''prn'', ''aux'', ''nul''] @
     map (\<lambda>d. ''com'' @ [d]) device_digits @ map (\<lambda>d. ''lpt'' @ [d]) device_digits"

text \<open>\<open>.*\<close> matches no line terminator.\<close>

definition isWindowsReservedLogicalComponent :: "string \<Rightarrow> bool" where
  "isWindowsReservedLogicalComponent s =
     (let v = to_lower s in
      list_ex (\<lambda>stem. v = stem \<or>
        (starts_with v (stem @ ''.'') \<and> list_all (\<lambda>c. c \<noteq> CHR 0x0A \<and> c \<noteq> CHR 0x0D) (drop (length stem + 1) v)))
        device_stems)"

section \<open>Portable logical paths\<close>

definition windows_forbidden :: "char \<Rightarrow> bool" where
  "windows_forbidden c = (c \<in> set ''<>:|?*'' \<or> c = CHR 0x22 \<or> char_between 0 31 c)"

definition canonicalComponent :: "string \<Rightarrow> bool" where
  "canonicalComponent component =
     (component \<noteq> [] \<and> component \<noteq> ''.'' \<and> component \<noteq> ''..'' \<and>
      \<not> list_ex windows_forbidden component \<and>
      \<not> ends_with component ''.'' \<and> \<not> ends_with component '' '' \<and>
      \<not> isWindowsReservedLogicalComponent component)"

fun windows_drive_prefix :: "string \<Rightarrow> bool" where
  "windows_drive_prefix (d # c # _) = ((is_upper d \<or> is_lower d) \<and> c = CHR '':'')"
| "windows_drive_prefix _ = False"

definition isCanonicalPortableLogicalPath :: "bool \<Rightarrow> string \<Rightarrow> bool" where
  "isCanonicalPortableLogicalPath allowEmpty value =
     (if value = [] then allowEmpty
      else if CHR 0x5C \<in> set value \<or> starts_with value ''/'' \<or> starts_with value ''//'' \<or>
              windows_drive_prefix value
      then False
      else list_all canonicalComponent (split_on CHR ''/'' value))"

definition isCanonicalPortableLogicalPathPrefix :: "string \<Rightarrow> bool" where
  "isCanonicalPortableLogicalPathPrefix value =
     (ends_with value ''/'' \<and> length value > 1 \<and> isCanonicalPortableLogicalPath False (butlast value))"

definition assertCanonicalPortableLogicalPath :: "string \<Rightarrow> string \<Rightarrow> string result" where
  "assertCanonicalPortableLogicalPath label value =
     (if \<not> isCanonicalPortableLogicalPath False value
      then throw (NativeError (label @ '' is not one canonical portable logical path: '' @ value))
      else Inr value)"

text \<open>
  \<open>toLocaleUpperCase\<close> then \<open>toLocaleLowerCase\<close> on one character: capitals become small letters and
  the sharp s (223) becomes \<open>ss\<close>. The micro sign (181) becomes the Greek letter mu, which is no
  Latin-1 character; it is kept as it is, so that two keys are equal here exactly when the
  program's keys are.
\<close>

definition fold_case_char :: "char \<Rightarrow> string" where
  "fold_case_char c = (if c = CHR 0xDF then ''ss'' else [lower_char c])"

definition collision_component :: "string \<Rightarrow> string" where
  "collision_component component = concat (map fold_case_char component)"

definition portableLogicalPathCollisionKey :: "string \<Rightarrow> string \<Rightarrow> string result" where
  "portableLogicalPathCollisionKey label value =
     bind_r (assertCanonicalPortableLogicalPath label value) (\<lambda>canonical.
       Inr (join_with ''/'' (map collision_component (split_on CHR ''/'' canonical))))"

section \<open>Relative and repository paths\<close>

definition posixPath :: "string \<Rightarrow> string" where
  "posixPath value = replace_char CHR 0x5C CHR ''/'' value"

text \<open>\<open>path.isAbsolute\<close> of the host is the parameter \<open>isAbsolute\<close>.\<close>

definition isSafeRelativePath :: "(string \<Rightarrow> bool) \<Rightarrow> bool \<Rightarrow> string \<Rightarrow> bool" where
  "isSafeRelativePath isAbsolute allowEmpty value =
     (if value = [] then allowEmpty
      else let normalized = posixPath value in
        if CHR 0x00 \<in> set value \<or> isAbsolute value \<or> windows_drive_prefix value \<or> starts_with normalized ''//''
        then False
        else ''..'' \<notin> set (split_on CHR ''/'' normalized))"

definition CodexDevelopmentIsCanonicalRepositoryPath :: "string \<Rightarrow> bool" where
  "CodexDevelopmentIsCanonicalRepositoryPath value =
     (if value = [] \<or> CHR 0x00 \<in> set value \<or> CHR 0x5C \<in> set value \<or> CHR '':'' \<in> set value \<or>
         starts_with value ''/''
      then False
      else list_all (\<lambda>segment. segment \<noteq> [] \<and> segment \<noteq> ''.'' \<and> segment \<noteq> ''..'') (split_on CHR ''/'' value))"

section \<open>Block and acceptance ids\<close>

text \<open>\<open>/^[a-z0-9](?:[a-z0-9_-]{0,n}[a-z0-9])?$/u\<close>: at most \<open>n + 2\<close> characters.\<close>

definition lower_token :: "nat \<Rightarrow> string \<Rightarrow> bool" where
  "lower_token n s =
     (s \<noteq> [] \<and> length s \<le> n + 2 \<and> is_lower_alnum (hd s) \<and> is_lower_alnum (last s) \<and>
      list_all (\<lambda>c. is_lower_alnum c \<or> c = CHR ''_'' \<or> c = CHR ''-'') s)"

definition MAX_BLOCK_ID_LENGTH :: nat where "MAX_BLOCK_ID_LENGTH = 256"

definition MAX_VERSION_LENGTH :: nat where "MAX_VERSION_LENGTH = 128"

definition MAX_ACCEPTANCE_ID_LENGTH :: nat where "MAX_ACCEPTANCE_ID_LENGTH = 128"

definition isCanonicalBlockId :: "string \<Rightarrow> bool" where
  "isCanonicalBlockId value =
     (if value = [] \<or> length value > MAX_BLOCK_ID_LENGTH then False
      else let segments = split_on CHR ''/'' value in
        if length segments < 2 then False
        else list_all (\<lambda>segment. lower_token 62 segment \<and> \<not> isWindowsReservedLogicalComponent segment) segments)"

definition encodeCanonicalBlockPhysicalKey :: "string \<Rightarrow> string result" where
  "encodeCanonicalBlockPhysicalKey blockId =
     (if \<not> isCanonicalBlockId blockId
      then throw (NativeError ''Block id is not canonical and cannot be encoded'')
      else Inr (join_with ''.'' (split_on CHR ''/'' blockId)))"

definition matchesCanonicalBlockPhysicalKey :: "string \<Rightarrow> string \<Rightarrow> bool" where
  "matchesCanonicalBlockPhysicalKey blockId physicalKey =
     (if \<not> isCanonicalBlockId blockId then False
      else if physicalKey = [] \<or> CHR ''/'' \<in> set physicalKey \<or> CHR 0x5C \<in> set physicalKey \<or>
              CHR '':'' \<in> set physicalKey
      then False
      else encodeCanonicalBlockPhysicalKey blockId = Inr physicalKey)"

definition isCanonicalAcceptanceId :: "string \<Rightarrow> bool" where
  "isCanonicalAcceptanceId value =
     (length value > 0 \<and> length value \<le> MAX_ACCEPTANCE_ID_LENGTH \<and> lower_token 126 value)"

section \<open>Registry versions\<close>

definition canonicalNumericIdentifier :: "string \<Rightarrow> bool" where
  "canonicalNumericIdentifier value =
     (value = ''0'' \<or> (value \<noteq> [] \<and> list_all is_digit value \<and> hd value \<noteq> CHR ''0''))"

definition semver_identifier :: "string \<Rightarrow> bool" where
  "semver_identifier value = (value \<noteq> [] \<and> list_all (\<lambda>c. is_lower_alnum c \<or> c = CHR ''-'') value)"

definition canonicalPrereleaseIdentifier :: "string \<Rightarrow> bool" where
  "canonicalPrereleaseIdentifier value =
     (if \<not> semver_identifier value then False
      else \<not> (value \<noteq> [] \<and> list_all is_digit value) \<or> canonicalNumericIdentifier value)"

definition canonicalBuildIdentifier :: "string \<Rightarrow> bool" where
  "canonicalBuildIdentifier value = semver_identifier value"

text \<open>The text before the first hyphen, and the text after it when there is one.\<close>

definition cut_hyphen :: "string \<Rightarrow> string \<times> string option" where
  "cut_hyphen s =
     (if CHR ''-'' \<in> set s
      then (takeWhile (\<lambda>c. c \<noteq> CHR ''-'') s, Some (tl (dropWhile (\<lambda>c. c \<noteq> CHR ''-'') s)))
      else (s, None))"

definition isCanonicalRegistryVersion :: "string \<Rightarrow> bool" where
  "isCanonicalRegistryVersion value =
     (if value = [] \<or> length value > MAX_VERSION_LENGTH then False
      else let plusParts = split_on CHR ''+'' value in
        if length plusParts > 2 then False
        else
          let (core, prerelease) = cut_hyphen (hd plusParts);
              coreParts = split_on CHR ''.'' core
          in if length coreParts \<noteq> 3 \<or> list_ex (\<lambda>part. \<not> canonicalNumericIdentifier part) coreParts then False
             else if (case prerelease of None \<Rightarrow> False
                      | Some p \<Rightarrow> list_ex (\<lambda>part. \<not> canonicalPrereleaseIdentifier part) (split_on CHR ''.'' p))
             then False
             else (case tl plusParts of
                     [] \<Rightarrow> True
                   | build # _ \<Rightarrow> \<not> list_ex (\<lambda>part. \<not> canonicalBuildIdentifier part) (split_on CHR ''.'' build)))"


section \<open>Segments of block ids\<close>

lemma lower_alnum_range:
  "is_lower_alnum c \<Longrightarrow> (97 \<le> (of_char c :: nat) \<and> (of_char c :: nat) \<le> 122) \<or> (48 \<le> (of_char c :: nat) \<and> (of_char c :: nat) \<le> 57)"
  by (simp add: is_lower_alnum_def is_lower_def is_digit_def char_between_def)

lemma lower_alnum_plain:
  assumes "is_lower_alnum c"
  shows "c \<noteq> CHR ''.''" and "c \<noteq> CHR '' ''" and "c \<noteq> CHR 0x5C" and "c \<noteq> CHR '':''" and "c \<noteq> CHR ''/''"
    and "\<not> windows_forbidden c"
  using lower_alnum_range [OF assms] by (auto simp: windows_forbidden_def char_between_def)

lemma lower_token_char:
  assumes "lower_token n s" and "c \<in> set s"
  shows "c \<noteq> CHR ''.''" and "c \<noteq> CHR 0x5C" and "c \<noteq> CHR '':''" and "c \<noteq> CHR ''/''" and "\<not> windows_forbidden c"
proof -
  have "is_lower_alnum c \<or> c = CHR ''_'' \<or> c = CHR ''-''"
    using assms by (auto simp: lower_token_def list_all_iff)
  then have "c \<noteq> CHR ''.'' \<and> c \<noteq> CHR 0x5C \<and> c \<noteq> CHR '':'' \<and> c \<noteq> CHR ''/'' \<and> \<not> windows_forbidden c"
  proof (elim disjE)
    assume "is_lower_alnum c"
    then show ?thesis using lower_alnum_plain by blast
  qed (simp_all add: windows_forbidden_def char_between_def)
  then show "c \<noteq> CHR ''.''" and "c \<noteq> CHR 0x5C" and "c \<noteq> CHR '':''" and "c \<noteq> CHR ''/''" and "\<not> windows_forbidden c"
    by blast+
qed

lemma lower_token_component:
  assumes "lower_token n s" and "\<not> isWindowsReservedLogicalComponent s"
  shows "canonicalComponent s"
proof -
  have ne: "s \<noteq> []" and l: "is_lower_alnum (last s)" using assms(1) by (auto simp: lower_token_def)
  have "\<not> ends_with s [c]" if "\<not> is_lower_alnum c" for c
    using l that by (auto simp: ends_with_iff)
  moreover have "\<not> is_lower_alnum CHR ''.''" "\<not> is_lower_alnum CHR '' ''"
    by (simp_all add: is_lower_alnum_def is_lower_def is_digit_def char_between_def)
  moreover have "s \<noteq> ''.''" "s \<noteq> ''..''" using lower_token_char(1) [OF assms(1)] by auto
  ultimately show ?thesis
    using assms(2) ne lower_token_char(5) [OF assms(1)] by (auto simp: canonicalComponent_def list_ex_iff)
qed

lemma canonical_block_segments:
  assumes "isCanonicalBlockId b" and "w \<in> set (split_on CHR ''/'' b)"
  shows "lower_token 62 w" and "\<not> isWindowsReservedLogicalComponent w"
  using assms by (auto simp: isCanonicalBlockId_def Let_def list_all_iff split: if_splits)

lemma canonical_block_char:
  assumes "isCanonicalBlockId b" and "c \<in> set b"
  shows "c \<noteq> CHR ''.''" and "c \<noteq> CHR 0x5C" and "c \<noteq> CHR '':''"
proof -
  have "set b \<subseteq> (\<Union>w \<in> set (split_on CHR ''/'' b). set w) \<union> {CHR ''/''}"
    using set_join [of "''/''" "split_on CHR ''/'' b"] by (simp add: join_split)
  then consider "c = CHR ''/''" | w where "w \<in> set (split_on CHR ''/'' b)" "c \<in> set w"
    using assms(2) by auto
  then have "c \<noteq> CHR ''.'' \<and> c \<noteq> CHR 0x5C \<and> c \<noteq> CHR '':''"
    by cases (auto dest: lower_token_char [OF canonical_block_segments(1) [OF assms(1)]])
  then show "c \<noteq> CHR ''.''" and "c \<noteq> CHR 0x5C" and "c \<noteq> CHR '':''" by auto
qed

lemma block_key_decodes:
  assumes "isCanonicalBlockId b"
  shows "split_on CHR ''.'' (join_with ''.'' (split_on CHR ''/'' b)) = split_on CHR ''/'' b"
  by (rule split_join) (auto dest: canonical_block_segments(1) [OF assms] lower_token_char(1))

section \<open>Folding case\<close>

lemma fold_case_lower: "fold_case_char (lower_char c) = fold_case_char c"
proof -
  have "lower_char c = CHR 0xDF \<longleftrightarrow> c = CHR 0xDF"
  proof (cases "is_upper c \<or> (char_between 192 222 c \<and> of_char c \<noteq> (215 :: nat))")
    case True
    have "lower_char c = char_of (of_char c + 32 :: nat)" unfolding lower_char_def using True by (rule if_P)
    moreover have "(of_char c :: nat) < 255 - 32 + 1" "(of_char c :: nat) \<noteq> 191"
      using True by (auto simp: is_upper_def char_between_def)
    then have "(of_char c + 32 :: nat) mod 256 = of_char c + 32" by simp
    ultimately have "(of_char (lower_char c) :: nat) = of_char c + 32" by simp
    then have "(of_char (lower_char c) :: nat) \<noteq> 223" "(of_char c :: nat) \<noteq> 223"
      using True by (auto simp: is_upper_def char_between_def)
    moreover have "(of_char (CHR 0xDF) :: nat) = 223" by simp
    ultimately show ?thesis by metis
  next
    case False
    then have "lower_char c = c" unfolding lower_char_def by (rule if_not_P)
    then show ?thesis by simp
  qed
  then show ?thesis by (simp add: fold_case_char_def lower_char_idem)
qed

lemma collision_component_lower: "collision_component (to_lower s) = collision_component s"
  by (simp add: collision_component_def to_lower_def fold_case_lower comp_def)

lemma lower_char_slash: "lower_char c = CHR ''/'' \<longleftrightarrow> c = CHR ''/''"
proof (cases "is_upper c \<or> (char_between 192 222 c \<and> of_char c \<noteq> (215 :: nat))")
  case True
  have "lower_char c = char_of (of_char c + 32 :: nat)" unfolding lower_char_def using True by (rule if_P)
  moreover have "(of_char c + 32 :: nat) mod 256 = of_char c + 32"
    using True by (auto simp: is_upper_def char_between_def)
  ultimately have "(of_char (lower_char c) :: nat) = of_char c + 32" by simp
  then have "(of_char (lower_char c) :: nat) \<noteq> 47" "(of_char c :: nat) \<noteq> 47"
    using True by (auto simp: is_upper_def char_between_def)
  moreover have "(of_char (CHR ''/'') :: nat) = 47" by simp
  ultimately show ?thesis by metis
next
  case False
  then have "lower_char c = c" unfolding lower_char_def by (rule if_not_P)
  then show ?thesis by simp
qed

lemma split_to_lower: "split_on CHR ''/'' (to_lower s) = map to_lower (split_on CHR ''/'' s)"
  by (induction s) (auto simp: to_lower_def lower_char_slash split: list.splits)

lemma collision_component_no_slash: "CHR ''/'' \<notin> set s \<Longrightarrow> CHR ''/'' \<notin> set (collision_component s)"
proof
  assume no: "CHR ''/'' \<notin> set s" and "CHR ''/'' \<in> set (collision_component s)"
  then obtain x where "x \<in> set s" "CHR ''/'' \<in> set (fold_case_char x)"
    by (auto simp: collision_component_def)
  then have "x = CHR ''/''" using lower_char_slash [of x] by (simp add: fold_case_char_def split: if_splits)
  then show False using no \<open>x \<in> set s\<close> by simp
qed

lemma collision_key_split:
  "split_on CHR ''/'' (join_with ''/'' (map collision_component (split_on CHR ''/'' v))) =
     map collision_component (split_on CHR ''/'' v)"
  by (rule split_join) (use split_on_no_sep collision_component_no_slash in fastforce)+

section \<open>Spelling of versions\<close>

lemma digit_char: "is_digit c \<Longrightarrow> \<exists>d < 10. c = char_of (48 + d :: nat)"
proof -
  assume "is_digit c"
  then have b: "48 \<le> (of_char c :: nat)" "(of_char c :: nat) \<le> 57" by (auto simp: is_digit_def char_between_def)
  then have "c = char_of (48 + (of_char c - 48) :: nat)" by simp
  then show ?thesis using b by (intro exI [of _ "of_char c - 48"]) auto
qed

lemma canonical_numeric_show: "canonicalNumericIdentifier s \<Longrightarrow> \<exists>n. s = show_nat n"
proof (induction s rule: rev_induct)
  case Nil
  then show ?case by (simp add: canonicalNumericIdentifier_def)
next
  case (snoc c xs)
  have "is_digit c" using snoc.prems by (auto simp: canonicalNumericIdentifier_def is_digit_def char_between_def)
  then obtain d where d: "d < 10" "c = char_of (48 + d :: nat)" using digit_char by blast
  show ?case
  proof (cases "xs = []")
    case True
    then show ?thesis using d by (intro exI [of _ d]) (simp add: show_nat.simps)
  next
    case False
    then have "canonicalNumericIdentifier xs" and h: "hd xs \<noteq> CHR ''0''"
      using snoc.prems by (auto simp: canonicalNumericIdentifier_def)
    then obtain m where m: "xs = show_nat m" using snoc.IH by blast
    have "show_nat 0 = ''0''" by code_simp
    then have "m \<noteq> 0" using h m by (intro notI) simp
    then have "show_nat (10 * m + d) = xs @ [c]" using d m by (subst show_nat.simps) simp
    then show ?thesis by metis
  qed
qed

lemma cut_hyphen_join:
  assumes "cut_hyphen s = (core, pre)"
  shows "s = core @ (case pre of None \<Rightarrow> [] | Some p \<Rightarrow> CHR ''-'' # p)"
proof (cases "CHR ''-'' \<in> set s")
  case True
  then obtain u w where s: "s = u @ CHR ''-'' # w" and u: "CHR ''-'' \<notin> set u" by (metis split_list_first)
  then have "takeWhile (\<lambda>c. c \<noteq> CHR ''-'') s = u" "dropWhile (\<lambda>c. c \<noteq> CHR ''-'') s = CHR ''-'' # w"
    by (induction u arbitrary: s) auto
  then show ?thesis using assms True s by (simp add: cut_hyphen_def split: if_splits) auto
qed (use assms in \<open>auto simp: cut_hyphen_def\<close>)

lemma version_parts:
  assumes "isCanonicalRegistryVersion v"
  obtains core pre a b c where "cut_hyphen (hd (split_on CHR ''+'' v)) = (core, pre)"
    and "split_on CHR ''.'' core = [a, b, c]"
    and "canonicalNumericIdentifier a" and "canonicalNumericIdentifier b" and "canonicalNumericIdentifier c"
proof -
  obtain core pre where cp: "cut_hyphen (hd (split_on CHR ''+'' v)) = (core, pre)" by fastforce
  then have "length (split_on CHR ''.'' core) = 3 \<and> \<not> list_ex (\<lambda>part. \<not> canonicalNumericIdentifier part) (split_on CHR ''.'' core)"
    using assms by (auto simp: isCanonicalRegistryVersion_def Let_def split: if_splits)
  then show ?thesis using that [OF cp] by (auto simp: list_ex_iff length_Suc_conv numeral_3_eq_3)
qed

section \<open>Properties\<close>

text \<open>
  C6. The physical key of a canonical block id can be decoded: splitting it at the dots gives the
  segments back, so two block ids with one physical key are equal, and the key is accepted by
  \<open>matchesCanonicalBlockPhysicalKey\<close> for that id and for no other one.
\<close>

theorem block_physical_key_roundtrip:
  assumes "isCanonicalBlockId b"
  shows "\<exists>k. encodeCanonicalBlockPhysicalKey b = Inr k \<and> join_with ''/'' (split_on CHR ''.'' k) = b \<and>
           (\<forall>b'. matchesCanonicalBlockPhysicalKey b' k \<longleftrightarrow> b' = b)"
proof -
  let ?k = "join_with ''.'' (split_on CHR ''/'' b)"
  have enc: "encodeCanonicalBlockPhysicalKey b' = Inr (join_with ''.'' (split_on CHR ''/'' b'))"
    if "isCanonicalBlockId b'" for b'
    using that by (simp add: encodeCanonicalBlockPhysicalKey_def)
  have dec: "join_with ''/'' (split_on CHR ''.'' (join_with ''.'' (split_on CHR ''/'' b'))) = b'"
    if "isCanonicalBlockId b'" for b'
    using block_key_decodes [OF that] by (simp add: join_split)
  have chars: "c \<in> set b \<and> c \<noteq> CHR ''/'' \<or> c = CHR ''.''" if ck: "c \<in> set ?k" for c
  proof -
    consider "c = CHR ''.''" | w where "w \<in> set (split_on CHR ''/'' b)" "c \<in> set w"
      using subsetD [OF set_join ck] by auto
    then show ?thesis
      by cases (use split_on_chars split_on_no_sep in blast)+
  qed
  have "?k \<noteq> []"
  proof
    assume "?k = []"
    then have "split_on CHR ''/'' b = [[]]" using block_key_decodes [OF assms] by simp
    then show False using canonical_block_segments(1) [OF assms, of "[]"] by (simp add: lower_token_def)
  qed
  then have match: "matchesCanonicalBlockPhysicalKey b ?k"
    using assms enc [OF assms] chars [of "CHR ''/''"] chars [of "CHR 0x5C"] chars [of "CHR '':''"]
      canonical_block_char [OF assms, of "CHR 0x5C"] canonical_block_char [OF assms, of "CHR '':''"]
    by (simp add: matchesCanonicalBlockPhysicalKey_def) blast
  have "matchesCanonicalBlockPhysicalKey b' ?k \<longleftrightarrow> b' = b" for b'
  proof
    assume "matchesCanonicalBlockPhysicalKey b' ?k"
    then have b': "isCanonicalBlockId b'" and e: "encodeCanonicalBlockPhysicalKey b' = Inr ?k"
      by (simp_all add: matchesCanonicalBlockPhysicalKey_def split: if_splits)
    then have "join_with ''.'' (split_on CHR ''/'' b') = ?k" using enc [OF b'] by (simp only: sum.inject)
    from arg_cong [OF this, of "\<lambda>k. join_with ''/'' (split_on CHR ''.'' k)"] show "b' = b"
      unfolding dec [OF b'] dec [OF assms] .
  qed (simp add: match)
  then show ?thesis using enc [OF assms] dec [OF assms] by blast
qed

theorem block_physical_key_roundtrip_witness:
  "\<exists>k. encodeCanonicalBlockPhysicalKey ''core/auth-api'' = Inr k \<and>
     join_with ''/'' (split_on CHR ''.'' k) = ''core/auth-api'' \<and>
     (\<forall>b'. matchesCanonicalBlockPhysicalKey b' k \<longleftrightarrow> b' = ''core/auth-api'')"
  by (rule block_physical_key_roundtrip) code_simp

text \<open>
  C7. Block ids and portable paths are safe as relative locations: every canonical block id is a
  canonical portable logical path, and every canonical portable logical path is a safe relative
  path without parent segments on any host whose absolute paths start with a separator or a drive
  letter.
\<close>

theorem canonical_paths_are_safe:
  assumes host: "\<And>p. isAbsolute p \<Longrightarrow> starts_with p ''/'' \<or> starts_with p [CHR 0x5C] \<or> windows_drive_prefix p"
  shows "(isCanonicalBlockId v \<longrightarrow> isCanonicalPortableLogicalPath False v) \<and>
    (isCanonicalPortableLogicalPath False v \<longrightarrow>
       isSafeRelativePath isAbsolute False v \<and> ''..'' \<notin> set (split_on CHR ''/'' v))"
proof (intro conjI impI)
  assume b: "isCanonicalBlockId v"
  have ne: "v \<noteq> []" using b by (auto simp: isCanonicalBlockId_def)
  have seg: "canonicalComponent w" if "w \<in> set (split_on CHR ''/'' v)" for w
    using canonical_block_segments [OF b that] lower_token_component by blast
  have "\<not> starts_with v ''/''"
    using seg [of "[]"] by (cases v) (auto simp: canonicalComponent_def starts_with_iff)
  moreover have "\<not> windows_drive_prefix v"
    using canonical_block_char(3) [OF b] by (cases v rule: windows_drive_prefix.cases) auto
  moreover have "CHR 0x5C \<notin> set v" using canonical_block_char(2) [OF b] by blast
  moreover have "\<not> starts_with v ''//''" using calculation(1) by (auto simp: starts_with_iff)
  ultimately show "isCanonicalPortableLogicalPath False v"
    using ne seg by (simp add: isCanonicalPortableLogicalPath_def list_all_iff)
next
  assume p: "isCanonicalPortableLogicalPath False v"
  then have ne: "v \<noteq> []" and bs: "CHR 0x5C \<notin> set v" and sl: "\<not> starts_with v ''/''"
    and dr: "\<not> windows_drive_prefix v"
    and seg: "\<And>w. w \<in> set (split_on CHR ''/'' v) \<Longrightarrow> canonicalComponent w"
    by (auto simp: isCanonicalPortableLogicalPath_def list_all_iff split: if_splits)
  show up: "''..'' \<notin> set (split_on CHR ''/'' v)" using seg [of "''..''"] by (auto simp: canonicalComponent_def)
  have "set v \<subseteq> (\<Union>w \<in> set (split_on CHR ''/'' v). set w) \<union> {CHR ''/''}"
    using set_join [of "''/''" "split_on CHR ''/'' v"] by (simp add: join_split)
  moreover have "CHR 0x00 \<notin> set w" if "w \<in> set (split_on CHR ''/'' v)" for w
  proof -
    have "windows_forbidden CHR 0x00" by (simp add: windows_forbidden_def char_between_def)
    then show ?thesis using seg [OF that] unfolding canonicalComponent_def list_ex_iff by blast
  qed
  ultimately have nul: "CHR 0x00 \<notin> set v" by fastforce
  have "\<not> isAbsolute v" using host [of v] sl dr bs by (auto simp: starts_with_iff)
  moreover have "\<not> starts_with v ''//''" using sl by (auto simp: starts_with_iff)
  ultimately show "isSafeRelativePath isAbsolute False v"
    using ne nul dr up bs by (simp add: isSafeRelativePath_def posixPath_def replace_char_absent)
qed

theorem canonical_paths_are_safe_witness:
  "isCanonicalBlockId ''core/auth'' \<and>
   isSafeRelativePath (\<lambda>p. starts_with p ''/'') False ''core/auth''"
proof -
  have b: "isCanonicalBlockId ''core/auth''" by code_simp
  show ?thesis
    using b canonical_paths_are_safe [of "\<lambda>p. starts_with p ''/''" "''core/auth''"] by simp
qed

text \<open>
  The collision key keeps the directory structure and identifies case variants: it has one
  folded component per component of the path, and two canonical paths that agree after
  \<open>toLowerCase\<close> have the same key.
\<close>

theorem collision_key_folds_case:
  assumes "isCanonicalPortableLogicalPath False v"
  shows "\<exists>k. portableLogicalPathCollisionKey l v = Inr k \<and>
    split_on CHR ''/'' k = map collision_component (split_on CHR ''/'' v) \<and>
    (\<forall>w. isCanonicalPortableLogicalPath False w \<and> to_lower w = to_lower v \<longrightarrow>
       portableLogicalPathCollisionKey l w = Inr k)"
proof -
  let ?key = "\<lambda>v. join_with ''/'' (map collision_component (split_on CHR ''/'' v))"
  have key: "portableLogicalPathCollisionKey l w = Inr (?key w)" if "isCanonicalPortableLogicalPath False w" for w
    using that by (simp add: portableLogicalPathCollisionKey_def assertCanonicalPortableLogicalPath_def)
  have same: "?key w = ?key v" if "to_lower w = to_lower v" for w
  proof -
    have "map collision_component (split_on CHR ''/'' x) = map collision_component (split_on CHR ''/'' (to_lower x))" for x
      by (simp add: split_to_lower collision_component_lower)
    from this [of w] this [of v] show ?thesis using that by simp
  qed
  have "portableLogicalPathCollisionKey l w = Inr (?key v)"
    if "isCanonicalPortableLogicalPath False w \<and> to_lower w = to_lower v" for w
    using key [of w] same [of w] that by argo
  then show ?thesis using key [OF assms] collision_key_split [of v] by blast
qed

theorem collision_key_folds_case_witness:
  "portableLogicalPathCollisionKey ''Install target'' ''src/Main.ts'' =
   portableLogicalPathCollisionKey ''Install target'' ''SRC/main.ts''"
proof -
  have "isCanonicalPortableLogicalPath False ''src/Main.ts''" "isCanonicalPortableLogicalPath False ''SRC/main.ts''"
    "to_lower ''SRC/main.ts'' = to_lower ''src/Main.ts''" by code_simp+
  note facts = this
  obtain k where "portableLogicalPathCollisionKey ''Install target'' ''src/Main.ts'' = Inr k"
    and "portableLogicalPathCollisionKey ''Install target'' ''SRC/main.ts'' = Inr k"
    using collision_key_folds_case [OF facts(1), of "''Install target''"] facts(2,3) by blast
  then show ?thesis by simp
qed


text \<open>
  A canonical registry version has one spelling of its core: it is three decimal numerals
  without leading zeros, separated by dots, followed by nothing or by a prerelease or build part.
\<close>

theorem registry_version_core:
  assumes "isCanonicalRegistryVersion v"
  shows "\<exists>major minor patch rest. v = show_nat major @ ''.'' @ show_nat minor @ ''.'' @ show_nat patch @ rest \<and>
           (rest = [] \<or> hd rest = CHR ''-'' \<or> hd rest = CHR ''+'')"
  using assms
proof (cases rule: version_parts)
  case (1 core pre a b c)
  obtain ps where ps: "split_on CHR ''+'' v = hd (split_on CHR ''+'' v) # ps"
    by (metis list.collapse split_on_nonempty)
  define tail where "tail = (if ps = [] then [] else ''+'' @ join_with ''+'' ps)"
  define rest where "rest = (case pre of None \<Rightarrow> [] | Some p \<Rightarrow> CHR ''-'' # p) @ tail"
  have "v = join_with ''+'' (hd (split_on CHR ''+'' v) # ps)" using ps join_split [of "CHR ''+''" v] by simp
  also have "\<dots> = hd (split_on CHR ''+'' v) @ tail"
    by (cases "ps = []") (simp_all add: tail_def join_with_Cons)
  also have "\<dots> = core @ rest" using cut_hyphen_join [OF 1(1)] by (simp add: rest_def)
  also have "core = join_with ''.'' [a, b, c]" using join_split [of "CHR ''.''" core] 1(2) by simp
  finally have v: "v = a @ ''.'' @ b @ ''.'' @ c @ rest" by simp
  have "rest = [] \<or> hd rest = CHR ''-'' \<or> hd rest = CHR ''+''"
    by (auto simp: rest_def tail_def split: option.split)
  then show ?thesis using v canonical_numeric_show [OF 1(3)] canonical_numeric_show [OF 1(4)]
      canonical_numeric_show [OF 1(5)] by blast
qed

theorem registry_version_core_witness:
  "\<exists>major minor patch rest.
     ''1.20.3-rc.1+build'' = show_nat major @ ''.'' @ show_nat minor @ ''.'' @ show_nat patch @ rest \<and>
     (rest = [] \<or> hd rest = CHR ''-'' \<or> hd rest = CHR ''+'')"
  by (rule registry_version_core) code_simp

end
