(* ===== verification/ResolvePlan.thy ===== *)
theory ResolvePlan
  imports ManifestGraph LogicalIdentity
begin

text \<open>
  \<^verbatim>\<open>src/src/compiler/resolve/resolve-plan.ts\<close>: the resolution a lock is made from. The stack filter
  and the resolver of \<open>ManifestGraph\<close> are composed with the ownership check of install targets.
  \<open>path.relative\<close> of the host is the parameter \<open>relative\<close>. The records follow
  \<^verbatim>\<open>src/src/compiler/contract/lock.ts\<close> and \<^verbatim>\<open>plan-schema.ts\<close>.
\<close>

section \<open>Plans\<close>

datatype package_manager = Pnpm | Npm | Yarn

datatype app_mode = SingleTenant | MultiTenant

record plan_app =
  app_id :: string
  app_name :: string
  app_stack :: string
  app_packageManager :: package_manager
  app_mode :: app_mode

record plan_registry_source =
  source_id :: string
  source_kind :: registry_kind
  source_location :: registry_location
  source_path :: string

record plan_block =
  plan_block_id :: string
  plan_block_version :: "string option"

record plan_file =
  plan_app :: plan_app
  plan_sources :: "plan_registry_source list"
  plan_blocks :: "plan_block list"
  plan_acceptance :: "acceptance_item list"

record captured_app =
  cap_id :: string
  cap_name :: string
  cap_stack :: string
  cap_mode :: app_mode

record captured_plan =
  captured_app :: captured_app
  captured_blocks :: "plan_block list"
  captured_sources :: "plan_registry_source list"
  captured_acceptanceIds :: "string list"

definition captureResolvePlan :: "plan_file \<Rightarrow> captured_plan" where
  "captureResolvePlan plan =
     \<lparr>captured_app = \<lparr>cap_id = app_id (plan_app plan), cap_name = app_name (plan_app plan),
        cap_stack = app_stack (plan_app plan), cap_mode = app_mode (plan_app plan)\<rparr>,
      captured_blocks = map (\<lambda>b. \<lparr>plan_block_id = plan_block_id b, plan_block_version = plan_block_version b\<rparr>) (plan_blocks plan),
      captured_sources = map (\<lambda>s. \<lparr>source_id = source_id s, source_kind = source_kind s,
        source_location = source_location s, source_path = source_path s\<rparr>) (plan_sources plan),
      captured_acceptanceIds = map acc_id (plan_acceptance plan)\<rparr>"

section \<open>Ownership of install targets\<close>

record install_descriptor =
  desc_block :: manifest_entry
  desc_blockId :: string
  desc_action :: string
  desc_from :: string
  desc_to :: string

type_synonym targets = "(string, install_descriptor list) jsmap"

definition group_target :: "install_descriptor \<Rightarrow> targets \<Rightarrow> targets result" where
  "group_target step byTarget =
     bind_r (portableLogicalPathCollisionKey ''Install target'' (desc_to step)) (\<lambda>identity.
       Inr (map_push identity step byTarget))"

definition check_target_group :: "install_descriptor list \<Rightarrow> unit result" where
  "check_target_group steps =
     (if length steps \<le> 1 then Inr ()
      else let target = desc_to (hd steps) in
        if list_all (\<lambda>step. desc_action step = ''merge-prisma'' \<and> desc_to step = target) steps then Inr ()
        else throw (CodedFailure ''RESOLVE-CONFLICT-006'' [target]))"

definition assertInstallTargetOwnership :: "install_descriptor list \<Rightarrow> unit result" where
  "assertInstallTargetOwnership installPlan =
     bind_r (fold_r group_target installPlan []) (\<lambda>byTarget. check_all check_target_group (map snd byTarget))"

section \<open>The resolution\<close>

record resolved_block =
  res_id :: string
  res_version :: string
  res_kind :: manifest_kind
  res_installOrder :: nat
  res_manifestPath :: string
  res_registrySourceId :: string
  res_registryKind :: registry_kind
  res_registryLocation :: registry_location
  res_registryPath :: string

record registry_manifest_resolution =
  rr_blockId :: string
  rr_selected :: registry_manifest_identity
  rr_resolution :: registry_source_resolution

record acceptance_source =
  declaringBlockId :: string
  source_acceptance :: acceptance_item

record manifest_resolution =
  resolvedBlocks :: "resolved_block list"
  resolvedCapabilities :: "string list"
  installDescriptors :: "install_descriptor list"
  registryResolutions :: "registry_manifest_resolution list"
  acceptanceSources :: "acceptance_source list"

definition relativePosixPath :: "(string \<Rightarrow> string \<Rightarrow> string) \<Rightarrow> string \<Rightarrow> string \<Rightarrow> string" where
  "relativePosixPath relative root target = posixPath (relative root target)"

definition resolved_block_of ::
    "(string \<Rightarrow> string \<Rightarrow> string) \<Rightarrow> string \<Rightarrow> nat \<Rightarrow> manifest_entry \<Rightarrow> resolved_block" where
  "resolved_block_of relative workspaceRoot index entry =
     \<lparr>res_id = entry_id entry, res_version = entry_version entry, res_kind = kind (manifest entry),
      res_installOrder = index + 1,
      res_manifestPath = relativePosixPath relative workspaceRoot (manifestPath entry),
      res_registrySourceId = registrySourceId entry, res_registryKind = registryKind entry,
      res_registryLocation = registryLocation entry, res_registryPath = registryPath entry\<rparr>"

definition install_descriptors_of :: "manifest_entry \<Rightarrow> install_descriptor list" where
  "install_descriptors_of block =
     map (\<lambda>install. \<lparr>desc_block = block, desc_blockId = entry_id block, desc_action = install_kind install,
        desc_from = install_from install, desc_to = install_to install\<rparr>) (installs (manifest block))"

definition registry_resolutions_of :: "manifest_entry \<Rightarrow> registry_manifest_resolution list" where
  "registry_resolutions_of entry =
     (case registryResolution entry of
        None \<Rightarrow> []
      | Some r \<Rightarrow> [\<lparr>rr_blockId = entry_id entry,
          rr_selected = \<lparr>rmi_version = entry_version entry, rmi_registrySourceId = registrySourceId entry,
            rmi_registryKind = registryKind entry, rmi_registryLocation = registryLocation entry,
            rmi_registryPath = registryPath entry\<rparr>,
          rr_resolution = r\<rparr>])"

definition acceptance_sources_of :: "manifest_entry \<Rightarrow> acceptance_source list" where
  "acceptance_sources_of entry =
     map (\<lambda>item. \<lparr>declaringBlockId = entry_id entry, source_acceptance = item\<rparr>) (acceptance (manifest entry))"

definition acceptance_key :: "acceptance_source \<Rightarrow> string" where
  "acceptance_key s = declaringBlockId s @ '':'' @ acc_id (source_acceptance s)"

text \<open>The \<open>catch\<close> around the resolver: a missing provider is reported for the compatible catalog.\<close>

definition in_compatible_catalog :: "'a result \<Rightarrow> 'a result" where
  "in_compatible_catalog m =
     (case m of
        Inl (CodedFailure code args) \<Rightarrow>
          if code = ''RESOLVE-MISSING-001'' then Inl (CodedFailure code (args @ [SUPPORTED_STACK]))
          else Inl (CodedFailure code args)
      | _ \<Rightarrow> m)"

definition prepareManifestResolution ::
    "(string \<Rightarrow> string \<Rightarrow> string) \<Rightarrow> string \<Rightarrow> manifest_entry list \<Rightarrow> manifest_entry list \<Rightarrow>
     manifest_resolution result" where
  "prepareManifestResolution relative workspaceRoot explicitEntries allEntries =
     bind_r (assertManifestDefinitionConsistency (explicitEntries @ allEntries)) (\<lambda>_.
     bind_r (check_all (\<lambda>e. assertManifestStackCompatibility (entry_id e) (stackProfiles (manifest e))) explicitEntries) (\<lambda>_.
     let compatibleEntries = filter (\<lambda>e. isManifestStackCompatible (stackProfiles (manifest e))) allEntries in
     bind_r (in_compatible_catalog (resolveManifestGraph explicitEntries compatibleEntries)) (\<lambda>(entries, capabilities).
     let descriptors = concat (map install_descriptors_of entries) in
     bind_r (assertInstallTargetOwnership descriptors) (\<lambda>_.
       Inr \<lparr>resolvedBlocks = map (\<lambda>i. resolved_block_of relative workspaceRoot i (entries ! i)) [0..<length entries],
            resolvedCapabilities = capabilities,
            installDescriptors = descriptors,
            registryResolutions = concat (map registry_resolutions_of entries),
            acceptanceSources = sort_key acceptance_key (concat (map acceptance_sources_of entries))\<rparr>))))"

section \<open>Grouping by target\<close>

text \<open>After grouping, each key holds the steps with that collision key, in plan order.\<close>

definition target_key :: "install_descriptor \<Rightarrow> string result" where
  "target_key s = portableLogicalPathCollisionKey ''Install target'' (desc_to s)"

definition groups_of :: "install_descriptor list \<Rightarrow> targets \<Rightarrow> bool" where
  "groups_of steps m \<longleftrightarrow> distinct (map fst m) \<and>
     (\<forall>k. map_get m k = (let g = filter (\<lambda>s. target_key s = Inr k) steps in if g = [] then None else Some g))"

lemma group_target_groups:
  assumes "groups_of steps m" and "group_target s m = Inr m'"
  shows "groups_of (steps @ [s]) m'"
proof -
  obtain k where k: "target_key s = Inr k" "m' = map_push k s m"
    using assms(2) by (auto simp: group_target_def target_key_def)
  show ?thesis
    using assms(1) k
    by (auto simp: groups_of_def Let_def map_get_push distinct_keys_push filter_empty_conv)
qed

lemma fold_group_target:
  "groups_of steps m \<Longrightarrow> fold_r group_target ss m = Inr m' \<Longrightarrow> groups_of (steps @ ss) m'"
proof (induction ss arbitrary: steps m)
  case (Cons s ss)
  then obtain m1 where "group_target s m = Inr m1" "fold_r group_target ss m1 = Inr m'" by auto
  then show ?case using Cons.IH [of "steps @ [s]" m1] group_target_groups [OF Cons.prems(1)] by simp
qed simp

lemma fold_group_target_ok:
  "is_ok (fold_r group_target ss m) \<longleftrightarrow> (\<forall>s \<in> set ss. isCanonicalPortableLogicalPath False (desc_to s))"
proof (induction ss arbitrary: m)
  case (Cons s ss)
  show ?case
  proof (cases "isCanonicalPortableLogicalPath False (desc_to s)")
    case True
    then show ?thesis using Cons.IH
      by (simp add: group_target_def portableLogicalPathCollisionKey_def assertCanonicalPortableLogicalPath_def)
  next
    case False
    then show ?thesis
      by (simp add: group_target_def portableLogicalPathCollisionKey_def assertCanonicalPortableLogicalPath_def throw_def)
  qed
qed simp

text \<open>What ownership means: targets that collide are merged into one spelling.\<close>

definition targets_owned :: "install_descriptor list \<Rightarrow> bool" where
  "targets_owned steps \<longleftrightarrow>
     (\<forall>i < length steps. \<forall>j < length steps. i \<noteq> j \<and> target_key (steps ! i) = target_key (steps ! j) \<longrightarrow>
        desc_action (steps ! i) = ''merge-prisma'' \<and> desc_to (steps ! i) = desc_to (steps ! j))"

lemma check_target_group_ok:
  "check_target_group g = Inr () \<longleftrightarrow>
     length g \<le> 1 \<or> (\<forall>s \<in> set g. desc_action s = ''merge-prisma'' \<and> desc_to s = desc_to (hd g))"
  by (auto simp: check_target_group_def Let_def throw_def list_all_iff)

lemma groups_values:
  assumes "groups_of steps m"
  shows "set (map snd m) = {g. g \<noteq> [] \<and> (\<exists>k. g = filter (\<lambda>s. target_key s = Inr k) steps)}" (is "?L = ?R")
proof
  have get: "map_get m k = Some g \<longleftrightarrow> (k, g) \<in> set m" for k g
    unfolding map_get_def by (rule map_of_eq_Some_iff) (use assms in \<open>simp add: groups_of_def\<close>)
  have eq: "map_get m k = (let g = filter (\<lambda>s. target_key s = Inr k) steps in if g = [] then None else Some g)" for k
    using assms by (simp add: groups_of_def)
  show "?L \<subseteq> ?R"
  proof
    fix g assume "g \<in> ?L"
    then obtain k where "map_get m k = Some g" using get by auto
    then show "g \<in> ?R" using eq [of k] by (auto simp: Let_def split: if_splits)
  qed
  show "?R \<subseteq> ?L"
  proof
    fix g assume "g \<in> ?R"
    then obtain k where "g \<noteq> []" "g = filter (\<lambda>s. target_key s = Inr k) steps" by blast
    then have "map_get m k = Some g" using eq [of k] by (simp add: Let_def)
    then have "(k, g) \<in> set m" using get by blast
    then show "g \<in> ?L" by force
  qed
qed

lemma group_owned:
  assumes own: "targets_owned steps"
  shows "check_target_group (filter (\<lambda>s. target_key s = Inr k) steps) = Inr ()"
proof -
  let ?g = "filter (\<lambda>s. target_key s = Inr k) steps"
  have pair: "desc_action (?g ! a) = ''merge-prisma'' \<and> desc_action (?g ! b) = ''merge-prisma'' \<and>
      desc_to (?g ! a) = desc_to (?g ! b)" if ab: "a < b" "b < length ?g" for a b
  proof -
    obtain i j where ij: "i < j" "j < length steps" "steps ! i = ?g ! a" "steps ! j = ?g ! b"
      using filter_positions [OF ab] by blast
    have "?g ! a \<in> set ?g" "?g ! b \<in> set ?g" using ab by (meson nth_mem order.strict_trans)+
    then have "target_key (?g ! a) = target_key (?g ! b)" by simp
    then show ?thesis
      using own [unfolded targets_owned_def, rule_format, of i j]
        own [unfolded targets_owned_def, rule_format, of j i] ij by simp
  qed
  have "desc_action s = ''merge-prisma'' \<and> desc_to s = desc_to (hd ?g)" if two: "1 < length ?g" and s: "s \<in> set ?g" for s
  proof -
    obtain a where a: "a < length ?g" "s = ?g ! a" using s unfolding in_set_conv_nth by blast
    have "?g \<noteq> []" using two by auto
    then have "hd ?g = ?g ! 0" by (rule hd_conv_nth)
    then show ?thesis using a pair [of 0 a] pair [of 0 1] two by (cases "a = 0") simp_all
  qed
  then show ?thesis unfolding check_target_group_ok by (metis not_le)
qed

lemma owned_groups:
  assumes ok: "\<And>k. check_target_group (filter (\<lambda>s. target_key s = Inr k) steps) = Inr ()"
    and canon: "\<forall>s \<in> set steps. isCanonicalPortableLogicalPath False (desc_to s)"
  shows "targets_owned steps"
proof -
  have pair: "desc_action (steps ! i) = ''merge-prisma'' \<and> desc_action (steps ! j) = ''merge-prisma'' \<and>
      desc_to (steps ! i) = desc_to (steps ! j)"
    if ij: "i < j" "j < length steps" and key: "target_key (steps ! i) = target_key (steps ! j)" for i j
  proof -
    have "isCanonicalPortableLogicalPath False (desc_to (steps ! j))" using canon ij by simp
    then obtain k where k: "target_key (steps ! j) = Inr k"
      by (simp add: target_key_def portableLogicalPathCollisionKey_def assertCanonicalPortableLogicalPath_def)
    let ?g = "filter (\<lambda>s. target_key s = Inr k) steps"
    have "1 < length ?g" using filter_two [OF ij, of "\<lambda>s. target_key s = Inr k"] k key by simp
    then have "\<forall>s \<in> set ?g. desc_action s = ''merge-prisma'' \<and> desc_to s = desc_to (hd ?g)"
      using ok [of k] unfolding check_target_group_ok by (meson not_le)
    moreover have "steps ! i \<in> set ?g" "steps ! j \<in> set ?g" using ij k key by auto
    ultimately show ?thesis by metis
  qed
  show ?thesis
    unfolding targets_owned_def
  proof (intro allI impI)
    fix i j assume "i < length steps" "j < length steps" "i \<noteq> j \<and> target_key (steps ! i) = target_key (steps ! j)"
    then show "desc_action (steps ! i) = ''merge-prisma'' \<and> desc_to (steps ! i) = desc_to (steps ! j)"
      using pair [of i j] pair [of j i] by (cases "i < j") auto
  qed
qed

lemma install_ownership_iff:
  "assertInstallTargetOwnership steps = Inr () \<longleftrightarrow>
     (\<forall>s \<in> set steps. isCanonicalPortableLogicalPath False (desc_to s)) \<and> targets_owned steps"
proof (cases "fold_r group_target steps []")
  case (Inl e)
  then show ?thesis
    using fold_group_target_ok [of steps "[]"] by (simp add: assertInstallTargetOwnership_def)
next
  case (Inr m)
  then have canon: "\<forall>s \<in> set steps. isCanonicalPortableLogicalPath False (desc_to s)"
    using fold_group_target_ok [of steps "[]"] by simp
  have "groups_of [] []" by (simp add: groups_of_def)
  then have g: "groups_of steps m" using fold_group_target [of "[]" "[]" steps m] Inr by simp
  have "assertInstallTargetOwnership steps = Inr () \<longleftrightarrow> (\<forall>g \<in> set (map snd m). check_target_group g = Inr ())"
    using Inr by (simp add: assertInstallTargetOwnership_def check_all_Inr_iff)
  also have "\<dots> \<longleftrightarrow> (\<forall>k. check_target_group (filter (\<lambda>s. target_key s = Inr k) steps) = Inr ())"
    unfolding groups_values [OF g] by (auto simp: check_target_group_def)
  also have "\<dots> \<longleftrightarrow> targets_owned steps" using group_owned owned_groups canon by blast
  finally show ?thesis using canon by simp
qed


section \<open>Properties\<close>

lemma resolved_selection:
  assumes "resolveManifestGraph explicitEntries catalog = Inr (entries, caps)"
  shows "set entries \<subseteq> set explicitEntries \<union> set catalog"
    and "\<forall>e \<in> set explicitEntries. \<exists>x \<in> set entries. selectedManifestIdentity x = selectedManifestIdentity e"
    and "\<forall>e \<in> set entries. \<forall>c \<in> set (requires (manifest e)). \<exists>p \<in> set entries. c \<in> set (provides (manifest p))"
    and "caps = sorted_list_of_set (\<Union>e \<in> set entries. set (provides (manifest e)))"
proof -
  from assms obtain st0 st where
    st: "fold_r select_explicit explicitEntries no_selection = Inr st0"
      "close_requirements (fold addProvider catalog []) 0 st0 = Inr st"
      "selection_ok st0" "selection_ok st" "orderManifests (queue st) (selected_providers st) = Inr entries"
      "caps = sort (map fst (selected_providers st))"
    by (rule resolve_decompose)
  obtain ps where q: "queue st = queue st0 @ ps"
    and closed: "\<forall>e \<in> set (queue st). \<forall>c. needs e c \<longrightarrow> (\<exists>p \<in> set (queue st). offers p c)"
    and why: "\<forall>p \<in> set ps. \<exists>e \<in> set (queue st). \<exists>c. needs e c \<and> unique_catalog_provider catalog (queue st0) c p"
    using closed_selection [OF st(3,2)] by blast
  have s: "set entries = set (queue st)"
    using resolve_entries_order [OF st(4) closed] st(5) install_order_self(2) by fastforce
  note explicit_chosen = explicit_selection [OF no_selection_ok st(1)]
  then have "set (queue st0) \<subseteq> set explicitEntries" by (simp add: no_selection_def)
  then show "set entries \<subseteq> set explicitEntries \<union> set catalog"
    using q why s unique_provider_in_catalog by fastforce
  show "\<forall>e \<in> set explicitEntries. \<exists>x \<in> set entries. selectedManifestIdentity x = selectedManifestIdentity e"
    using explicit_chosen q unfolding s by fastforce
  show "\<forall>e \<in> set entries. \<forall>c \<in> set (requires (manifest e)). \<exists>p \<in> set entries. c \<in> set (provides (manifest p))"
    using closed unfolding s by blast
  have idx: "indexes (queue st) (selected_providers st)" using st(4) by (simp add: selection_ok_def)
  then have "distinct caps" "sorted caps" "set caps = (\<Union>e \<in> set (queue st). set (provides (manifest e)))"
    using st(6) indexes_keys [OF idx] by (simp_all add: indexes_def)
  then show "caps = sorted_list_of_set (\<Union>e \<in> set entries. set (provides (manifest e)))"
    unfolding s by (metis sorted_list_of_set.idem_if_sorted_distinct)
qed

text \<open>In an install order whatever an entry requires is provided at or before its own position.\<close>

lemma install_order_requirements:
  assumes order: "install_order es xs" and i: "i < length xs" and c: "c \<in> set (requires (manifest (xs ! i)))"
    and j: "j < length xs" and p: "c \<in> set (provides (manifest (xs ! j)))"
  shows "j \<le> i \<or> xs ! j = xs ! i"
proof (rule ccontr)
  assume "\<not> ?thesis"
  then have later: "i < j" "xs ! j \<noteq> xs ! i" by auto
  have "mset xs = mset es" and "placeable es (set (take i xs)) (xs ! i)"
    using order i by (simp_all add: install_order_def)
  moreover from this have "(xs ! j, xs ! i) \<in> dep_rel es"
    using later i j c p mset_eq_setD [of xs es] nth_mem [OF i] nth_mem [OF j] by (auto simp: dep_rel_def depends_def)
  ultimately have "xs ! j \<in> set (take i xs)" by (simp add: placeable_def)
  then obtain k where k: "k < i" "xs ! k = xs ! j" using i by (auto simp: in_set_conv_nth)
  have "placeable es (set (take j xs)) (xs ! j)" using order j by (simp add: install_order_def)
  moreover have "xs ! k \<in> set (take j xs)" using k later j by (auto simp: in_set_conv_nth intro!: exI [of _ k])
  ultimately show False using k(2) by (simp add: placeable_def)
qed

lemma prepare_decompose:
  assumes "prepareManifestResolution relative root explicitEntries allEntries = Inr r"
  obtains entries caps where
    "resolveManifestGraph explicitEntries
       (filter (\<lambda>e. isManifestStackCompatible (stackProfiles (manifest e))) allEntries) = Inr (entries, caps)"
    and "\<forall>e \<in> set explicitEntries. isManifestStackCompatible (stackProfiles (manifest e))"
    and "assertInstallTargetOwnership (concat (map install_descriptors_of entries)) = Inr ()"
    and "r = \<lparr>resolvedBlocks = map (\<lambda>i. resolved_block_of relative root i (entries ! i)) [0..<length entries],
            resolvedCapabilities = caps,
            installDescriptors = concat (map install_descriptors_of entries),
            registryResolutions = concat (map registry_resolutions_of entries),
            acceptanceSources = sort_key acceptance_key (concat (map acceptance_sources_of entries))\<rparr>"
proof -
  have ok: "in_compatible_catalog m = Inr x \<longleftrightarrow> m = Inr x" for m :: "'b result" and x
    by (auto simp: in_compatible_catalog_def split: sum.splits failure.splits if_splits)
  from assms obtain entries caps where
    "resolveManifestGraph explicitEntries
       (filter (\<lambda>e. isManifestStackCompatible (stackProfiles (manifest e))) allEntries) = Inr (entries, caps)"
    "check_all (\<lambda>e. assertManifestStackCompatibility (entry_id e) (stackProfiles (manifest e))) explicitEntries = Inr ()"
    "assertInstallTargetOwnership (concat (map install_descriptors_of entries)) = Inr ()"
    "r = \<lparr>resolvedBlocks = map (\<lambda>i. resolved_block_of relative root i (entries ! i)) [0..<length entries],
            resolvedCapabilities = caps,
            installDescriptors = concat (map install_descriptors_of entries),
            registryResolutions = concat (map registry_resolutions_of entries),
            acceptanceSources = sort_key acceptance_key (concat (map acceptance_sources_of entries))\<rparr>"
    by (auto simp: prepareManifestResolution_def Let_def ok)
  then show ?thesis using that
    by (simp add: check_all_Inr_iff assertManifestStackCompatibility_def)
qed

text \<open>
  C8. Install targets have one owner: the ownership check passes exactly when every target is a
  canonical portable path and two steps whose targets have the same collision key both use the
  \<open>merge-prisma\<close> composition with the same spelling.
\<close>

theorem install_target_ownership:
  "assertInstallTargetOwnership steps = Inr () \<longleftrightarrow>
     (\<forall>s \<in> set steps. isCanonicalPortableLogicalPath False (desc_to s)) \<and>
     (\<forall>i < length steps. \<forall>j < length steps. i \<noteq> j \<and>
        portableLogicalPathCollisionKey ''Install target'' (desc_to (steps ! i)) =
        portableLogicalPathCollisionKey ''Install target'' (desc_to (steps ! j)) \<longrightarrow>
        desc_action (steps ! i) = ''merge-prisma'' \<and> desc_to (steps ! i) = desc_to (steps ! j))"
  using install_ownership_iff [of steps] unfolding targets_owned_def target_key_def .

definition sample_step :: "string \<Rightarrow> string \<Rightarrow> install_descriptor" where
  "sample_step action target =
     \<lparr>desc_block = sample_db, desc_blockId = ''infra/db'', desc_action = action, desc_from = ''schema'', desc_to = target\<rparr>"

theorem install_target_ownership_witness:
  "assertInstallTargetOwnership [sample_step ''copy'' ''src/Db.ts'', sample_step ''copy'' ''src/db.ts''] \<noteq> Inr () \<and>
   assertInstallTargetOwnership [sample_step ''merge-prisma'' ''db.prisma'', sample_step ''merge-prisma'' ''db.prisma''] = Inr ()"
proof
  have c: "isCanonicalPortableLogicalPath False ''db.prisma''" by code_simp
  have k: "portableLogicalPathCollisionKey ''Install target'' ''src/Db.ts'' =
      portableLogicalPathCollisionKey ''Install target'' ''src/db.ts''" by code_simp
  show "assertInstallTargetOwnership [sample_step ''copy'' ''src/Db.ts'', sample_step ''copy'' ''src/db.ts''] \<noteq> Inr ()"
    unfolding install_target_ownership using k by (auto simp: sample_step_def All_less_Suc2 numeral_2_eq_2)
  show "assertInstallTargetOwnership
      [sample_step ''merge-prisma'' ''db.prisma'', sample_step ''merge-prisma'' ''db.prisma''] = Inr ()"
    unfolding install_target_ownership using c by (auto simp: sample_step_def All_less_Suc2 numeral_2_eq_2)
qed

text \<open>
  C9. A prepared resolution describes exactly the entries that the resolver returned for the plan's
  entries and the stack-compatible part of the catalog. Every one of them, and every entry of the
  plan, supports the stack. Block number i is the entry at that place, with its id, version, kind,
  registry identity and relative manifest path, numbered from 1; every entry of the plan is one of
  the blocks; whatever a block requires is provided by a block, and every other provider of it is
  numbered before it. The capabilities are the provided ones in order, the install descriptors are
  those of the entries and every target has one owner, and the registry resolutions and the
  acceptance sources, ordered by block id and acceptance id, are those of the entries.
\<close>

theorem prepared_resolution:
  assumes "prepareManifestResolution relative root explicitEntries allEntries = Inr r"
  shows "\<exists>entries caps.
    resolveManifestGraph explicitEntries
      (filter (\<lambda>e. SUPPORTED_STACK \<in> set (stackProfiles (manifest e))) allEntries) = Inr (entries, caps) \<and>
    install_order entries entries \<and>
    (\<forall>e \<in> set entries \<union> set explicitEntries. SUPPORTED_STACK \<in> set (stackProfiles (manifest e))) \<and>
    length (resolvedBlocks r) = length entries \<and>
    (\<forall>i < length entries. resolvedBlocks r ! i =
       \<lparr>res_id = entry_id (entries ! i), res_version = entry_version (entries ! i),
        res_kind = kind (manifest (entries ! i)), res_installOrder = i + 1,
        res_manifestPath = relativePosixPath relative root (manifestPath (entries ! i)),
        res_registrySourceId = registrySourceId (entries ! i), res_registryKind = registryKind (entries ! i),
        res_registryLocation = registryLocation (entries ! i), res_registryPath = registryPath (entries ! i)\<rparr>) \<and>
    (\<forall>e \<in> set explicitEntries. \<exists>b \<in> set (resolvedBlocks r). res_id b = entry_id e \<and>
       res_version b = entry_version e \<and> res_registrySourceId b = registrySourceId e) \<and>
    (\<forall>i < length entries. \<forall>c \<in> set (requires (manifest (entries ! i))).
       (\<exists>p \<in> set entries. c \<in> set (provides (manifest p))) \<and>
       (\<forall>j < length entries. c \<in> set (provides (manifest (entries ! j))) \<longrightarrow> j \<le> i)) \<and>
    resolvedCapabilities r = sorted_list_of_set (\<Union>e \<in> set entries. set (provides (manifest e))) \<and>
    installDescriptors r = concat (map install_descriptors_of entries) \<and>
    (\<forall>d \<in> set (installDescriptors r). isCanonicalPortableLogicalPath False (desc_to d)) \<and>
    targets_owned (installDescriptors r) \<and>
    registryResolutions r = concat (map registry_resolutions_of entries) \<and>
    sorted (map acceptance_key (acceptanceSources r)) \<and>
    mset (acceptanceSources r) = mset (concat (map acceptance_sources_of entries))"
  using assms
proof (cases rule: prepare_decompose)
  case (1 entries caps)
  have compat: "isManifestStackCompatible ss = (SUPPORTED_STACK \<in> set ss)" for ss
    by (simp add: isManifestStackCompatible_def)
  note res = 1(1) [unfolded compat] note sel = resolved_selection [OF res]
  have facts: "distinct (map entry_id entries)" "install_order entries entries"
    using resolved_order_facts [OF res] by simp_all
  have blocks: "resolvedBlocks r ! i = resolved_block_of relative root i (entries ! i)" if "i < length entries" for i
    using that by (simp add: 1(4))
  have ex: "\<exists>b \<in> set (resolvedBlocks r). res_id b = entry_id e \<and> res_version b = entry_version e \<and>
      res_registrySourceId b = registrySourceId e" if e: "e \<in> set explicitEntries" for e
  proof -
    obtain x where "x \<in> set entries" "selectedManifestIdentity x = selectedManifestIdentity e"
      using sel(2) e by blast
    then obtain i where i: "i < length entries" "selectedManifestIdentity (entries ! i) = selectedManifestIdentity e"
      by (auto simp: in_set_conv_nth)
    have "resolvedBlocks r ! i \<in> set (resolvedBlocks r)" using i(1) by (intro nth_mem) (simp add: 1(4))
    moreover have "manifest (entries ! i) = manifest e" "registrySourceId (entries ! i) = registrySourceId e"
      using arg_cong [OF i(2), of manifest] arg_cong [OF i(2), of registrySourceId]
      by (simp_all add: selectedManifestIdentity_def)
    ultimately show ?thesis
      using blocks [OF i(1)] by (intro bexI [of _ "resolvedBlocks r ! i"]) (simp_all add: resolved_block_of_def)
  qed
  have order: "j \<le> i" if "i < length entries" "c \<in> set (requires (manifest (entries ! i)))" "j < length entries"
      "c \<in> set (provides (manifest (entries ! j)))" for i j c
    using install_order_requirements [OF facts(2) that] distinct_map facts(1) that
    by (metis nth_eq_iff_index_eq order_refl)
  have own: "\<forall>d \<in> set (installDescriptors r). isCanonicalPortableLogicalPath False (desc_to d)"
      "targets_owned (installDescriptors r)"
    using 1(3) unfolding install_ownership_iff by (simp_all add: 1(4))
  have st: "\<forall>e \<in> set entries \<union> set explicitEntries. SUPPORTED_STACK \<in> set (stackProfiles (manifest e))"
    using sel(1) 1(2) by (auto simp: compat)
  have met: "\<exists>p \<in> set entries. c \<in> set (provides (manifest p))"
    if "i < length entries" "c \<in> set (requires (manifest (entries ! i)))" for i c
    using sel(3) nth_mem [OF that(1)] that(2) by blast
  show ?thesis
    by (intro exI [of _ entries] exI [of _ caps] conjI res facts(2) st own ballI allI impI ex order met)
      (use blocks sel(4) in \<open>simp_all add: 1(4) resolved_block_of_def\<close>)
qed

lemma sample_prepared:
  "is_ok (prepareManifestResolution (\<lambda>root p. p) ''w'' [sample_app] [sample_auth, sample_db])"
  by code_simp

theorem prepared_resolution_witness:
  "\<exists>r. prepareManifestResolution (\<lambda>root p. p) ''w'' [sample_app] [sample_auth, sample_db] = Inr r \<and>
     targets_owned (installDescriptors r)"
proof -
  obtain r where r: "prepareManifestResolution (\<lambda>root p. p) ''w'' [sample_app] [sample_auth, sample_db] = Inr r"
    using sample_prepared by (auto simp: is_ok_iff)
  then show ?thesis using prepared_resolution [OF r] by blast
qed

end
