(* ===== verification/Json.thy ===== *)
theory Json
  imports Complex_Main Text
begin

text \<open>
  JavaScript numbers and \<open>JSON.stringify\<close>, as the payloads of digests use them. A finite number is
  the shortest decimal that denotes it (\<open>Decimal m e\<close> is \<open>m * 10^e\<close>, and \<open>m\<close> does not end in a zero
  digit unless it is zero), the form \<open>Number::toString\<close> prints. An object is the list of its own
  properties in the order JavaScript enumerates them: array indices first, in numeric order, then
  the other keys in the order of insertion.
\<close>

section \<open>Numbers\<close>

datatype js_number = NaN | PosInfinity | NegInfinity | Decimal int int

fun number_value :: "js_number \<Rightarrow> rat option" where
  "number_value (Decimal m e) =
     Some (if e \<ge> 0 then of_int m * 10 ^ nat e else of_int m / 10 ^ nat (- e))"
| "number_value _ = None"

definition is_finite_number :: "js_number \<Rightarrow> bool" where
  "is_finite_number n = (number_value n \<noteq> None)"

definition is_integer_number :: "js_number \<Rightarrow> bool" where
  "is_integer_number n = (case number_value n of None \<Rightarrow> False | Some q \<Rightarrow> snd (quotient_of q) = 1)"

text \<open>\<open>a < b\<close>, \<open>a > b\<close> and \<open>a !== b\<close>; every comparison with \<open>NaN\<close> is false except the last.\<close>

definition number_less :: "js_number \<Rightarrow> js_number \<Rightarrow> bool" where
  "number_less a b =
     (case (a, b) of
        (NaN, _) \<Rightarrow> False
      | (_, NaN) \<Rightarrow> False
      | (PosInfinity, _) \<Rightarrow> False
      | (_, NegInfinity) \<Rightarrow> False
      | (NegInfinity, _) \<Rightarrow> True
      | (_, PosInfinity) \<Rightarrow> True
      | _ \<Rightarrow> the (number_value a) < the (number_value b))"

definition number_differs :: "js_number \<Rightarrow> js_number \<Rightarrow> bool" where
  "number_differs a b =
     (a = NaN \<or> b = NaN \<or>
      (case (number_value a, number_value b) of (Some x, Some y) \<Rightarrow> x \<noteq> y | _ \<Rightarrow> a \<noteq> b))"

text \<open>\<open>Number::toString\<close> in base ten.\<close>

definition exponent_text :: "int \<Rightarrow> string" where
  "exponent_text x = ''e'' @ (if x \<ge> 0 then ''+'' else ''-'') @ show_nat (nat \<bar>x\<bar>)"

definition positive_text :: "nat \<Rightarrow> int \<Rightarrow> string" where
  "positive_text m e =
     (let s = show_nat m; k = int (length s); n = k + e in
      if k \<le> n \<and> n \<le> 21 then s @ replicate (nat (n - k)) CHR ''0''
      else if 0 < n \<and> n \<le> 21 then take (nat n) s @ ''.'' @ drop (nat n) s
      else if - 6 < n \<and> n \<le> 0 then ''0.'' @ replicate (nat (- n)) CHR ''0'' @ s
      else if k = 1 then s @ exponent_text (n - 1)
      else take 1 s @ ''.'' @ drop 1 s @ exponent_text (n - 1))"

definition number_text :: "js_number \<Rightarrow> string" where
  "number_text n =
     (case n of
        NaN \<Rightarrow> ''NaN''
      | PosInfinity \<Rightarrow> ''Infinity''
      | NegInfinity \<Rightarrow> ''-Infinity''
      | Decimal m e \<Rightarrow>
          if m = 0 then ''0''
          else if m < 0 then ''-'' @ positive_text (nat (- m)) e
          else positive_text (nat m) e)"

section \<open>JSON text\<close>

datatype json =
    JNull
  | JBoolean bool
  | JNumber js_number
  | JString string
  | JArray "json list"
  | JObject "(string \<times> json) list"

definition hex_digit :: "nat \<Rightarrow> char" where
  "hex_digit n = (if n < 10 then char_of (48 + n) else char_of (87 + n))"

text \<open>\<open>QuoteJSONString\<close> on code units below 256.\<close>

definition escape_char :: "char \<Rightarrow> string" where
  "escape_char c =
     (let n = of_char c :: nat in
      if c = CHR 0x22 then [CHR 0x5C, CHR 0x22]
      else if c = CHR 0x5C then [CHR 0x5C, CHR 0x5C]
      else if n = 8 then [CHR 0x5C, CHR ''b'']
      else if n = 9 then [CHR 0x5C, CHR ''t'']
      else if n = 10 then [CHR 0x5C, CHR ''n'']
      else if n = 12 then [CHR 0x5C, CHR ''f'']
      else if n = 13 then [CHR 0x5C, CHR ''r'']
      else if n < 32 then CHR 0x5C # ''u00'' @ [hex_digit (n div 16), hex_digit (n mod 16)]
      else [c])"

definition quote_string :: "string \<Rightarrow> string" where
  "quote_string s = CHR 0x22 # concat (map escape_char s) @ [CHR 0x22]"

text \<open>A number that is not finite is printed as \<open>null\<close>.\<close>

fun stringify :: "json \<Rightarrow> string" where
  "stringify JNull = ''null''"
| "stringify (JBoolean b) = (if b then ''true'' else ''false'')"
| "stringify (JNumber n) = (if is_finite_number n then number_text n else ''null'')"
| "stringify (JString s) = quote_string s"
| "stringify (JArray xs) = ''['' @ join_with '','' (map stringify xs) @ '']''"
| "stringify (JObject kvs) =
     ''{'' @ join_with '','' (map (\<lambda>(k, v). quote_string k @ '':'' @ stringify v) kvs) @ ''}''"

section \<open>Own property order\<close>

text \<open>An array index is a canonical numeral below \<open>2^32 - 1\<close>.\<close>

definition read_nat :: "string \<Rightarrow> nat" where
  "read_nat s = fold (\<lambda>c n. 10 * n + (of_char c - 48)) s 0"

definition is_array_index :: "string \<Rightarrow> bool" where
  "is_array_index s =
     ((s = ''0'' \<or> (s \<noteq> [] \<and> list_all is_digit s \<and> hd s \<noteq> CHR ''0'')) \<and> read_nat s < 4294967295)"

definition own_property_order :: "(string \<times> 'a) list \<Rightarrow> (string \<times> 'a) list" where
  "own_property_order kvs =
     sort_key (\<lambda>kv. read_nat (fst kv)) (filter (\<lambda>kv. is_array_index (fst kv)) kvs) @
     filter (\<lambda>kv. \<not> is_array_index (fst kv)) kvs"

lemma mset_own_property_order [simp]: "mset (own_property_order kvs) = mset kvs"
  by (simp add: own_property_order_def)

lemma set_own_property_order [simp]: "set (own_property_order kvs) = set kvs"
  by (metis mset_own_property_order set_mset_mset)

lemma filter_own_property_order:
  "filter (\<lambda>kv. is_array_index (fst kv)) (own_property_order kvs) =
     sort_key (\<lambda>kv. read_nat (fst kv)) (filter (\<lambda>kv. is_array_index (fst kv)) kvs)"
  "filter (\<lambda>kv. \<not> is_array_index (fst kv)) (own_property_order kvs) =
     filter (\<lambda>kv. \<not> is_array_index (fst kv)) kvs"
  by (auto simp: own_property_order_def filter_empty_conv intro!: filter_True)

lemma own_property_order_idem: "own_property_order (own_property_order kvs) = own_property_order kvs"
  by (subst own_property_order_def)
    (simp add: filter_own_property_order, simp add: own_property_order_def sort_key_id_if_sorted)

end
