(* ===== verification/PredicateSignatures.thy ===== *)
theory PredicateSignatures
  imports Json LogicalIdentity
begin

text \<open>
  The engineering IR's data (\<^verbatim>\<open>src/src/semantics/engineering-ir/entity-types.ts\<close>,
  \<^verbatim>\<open>fact-types.ts\<close>, \<^verbatim>\<open>root-types.ts\<close>, \<^verbatim>\<open>scenario-types.ts\<close>) and the predicate signatures that give
  facts their types (\<^verbatim>\<open>predicate-signature-types.ts\<close>, \<^verbatim>\<open>predicate-signatures.ts\<close>): the registry of the
  43 predicates, its consistency check, and the checker of facts.

  An object value is its list of own properties, keys distinct.
\<close>

section \<open>Entities and facts\<close>

datatype semantic_entity_kind =
    AppKind | BlockKind | CapabilityKind | PortKind | EntityKind | FieldKind
    | ResponsibilityKind | ResponsibilityBindingKind | OperationKind | ScenarioKind
    | ScenarioStepKind | StateKind | EventKind | PolicyKind | PermissionKind | EffectKind
    | BoundaryKind | GeneratorKind | ArtifactKind | AcceptanceKind

datatype semantic_predicate =
    CONTAINS | DECLARES | IMPLEMENTS | DEPENDS_ON | PROVIDES | ASSUMES | REQUIRES | GUARANTEES
    | CONNECTS_TO | INVOKES | PRECEDES | AWAITS | FORKS_TO | JOINS | RETRIES | HANDLES | EMITS
    | CONSUMES | FLOWS_TO | DERIVES_FROM | TRANSFORMS_TO | VALIDATES | SANITIZES
    | SERIALIZES_AS | DESERIALIZES_FROM | PERSISTS_AS | OWNS | READS | WRITES | MUTATES
    | INITIALIZES | DISPOSES | ESCAPES | TRANSITIONS_TO | PERFORMS_EFFECT | REQUIRES_PERMISSION
    | CROSSES_BOUNDARY | ENFORCES | VERIFIED_BY | ORIGINATES_FROM | LOWERS_TO | GENERATES
    | VIOLATES

definition SEMANTIC_PREDICATES :: "semantic_predicate list" where
  "SEMANTIC_PREDICATES = [
     CONTAINS, DECLARES, IMPLEMENTS, DEPENDS_ON, PROVIDES, ASSUMES, REQUIRES, GUARANTEES
     , CONNECTS_TO, INVOKES, PRECEDES, AWAITS, FORKS_TO, JOINS, RETRIES, HANDLES, EMITS
     , CONSUMES, FLOWS_TO, DERIVES_FROM, TRANSFORMS_TO, VALIDATES, SANITIZES, SERIALIZES_AS
     , DESERIALIZES_FROM, PERSISTS_AS, OWNS, READS, WRITES, MUTATES, INITIALIZES, DISPOSES
     , ESCAPES, TRANSITIONS_TO, PERFORMS_EFFECT, REQUIRES_PERMISSION, CROSSES_BOUNDARY
     , ENFORCES, VERIFIED_BY, ORIGINATES_FROM, LOWERS_TO, GENERATES, VIOLATES]"

datatype semantic_value =
    SString string
  | SNumber js_number
  | SBoolean bool
  | SNull
  | SArray "semantic_value list"
  | SObject "(string \<times> semantic_value) list"

datatype semantic_attribute_value = Primitive semantic_value | StringArray "string list"

record semantic_attribute =
  attr_key :: string
  attr_value :: semantic_attribute_value

record semantic_entity =
  ent_id :: string
  ent_kind :: semantic_entity_kind
  ent_label :: string
  ent_attributes :: "semantic_attribute list"

datatype semantic_authority = Authoritative | Derived | Observed | Inferred

datatype fact_provenance_kind =
    ContractProvenance | CompilerProvenance | StaticAnalysisProvenance | RuntimeProvenance
  | AiProvenance | UserProvenance | ExternalProviderProvenance

record fact_provenance =
  prov_kind :: fact_provenance_kind
  prov_sourceId :: string
  prov_sourcePath :: "string option"
  prov_revision :: "string option"

record evidence_reference =
  ev_kind :: string
  ev_ref :: string
  ev_digest :: "string option"

record fact_assertion =
  as_id :: string
  as_authority :: semantic_authority
  as_confidence :: js_number
  as_provenance :: "fact_provenance list"
  as_evidence :: "evidence_reference list"
  as_validFromRevision :: string
  as_validToRevision :: "string option"

datatype semantic_fact_object = EntityRef string | ValueObj semantic_value

record semantic_fact =
  fact_id :: string
  fact_subject :: string
  fact_predicate :: semantic_predicate
  fact_object :: semantic_fact_object
  fact_assertions :: "fact_assertion list"

section \<open>Signatures\<close>

text \<open>\<open>additionalFields\<close> has the single value \<open>false\<close>.\<close>

datatype value_schema =
    StringSchema
  | NumberSchema bool "rat option"
  | BooleanSchema
  | NullSchema
  | EntityReferenceSchema "semantic_entity_kind list"
  | ObjectSchema "(string \<times> value_schema) list"

datatype object_signature =
    EntityObject "semantic_entity_kind list"
  | ValueObject string value_schema

datatype signature_variant =
  Variant (variant_id: string) (subject_kinds: "semantic_entity_kind list") (object_sig: object_signature)

datatype predicate_signature = Active "signature_variant list" | Reserved string

definition RESERVED :: predicate_signature where
  "RESERVED = Reserved ''No current canonical Fact producer has an authoritative shape for this predicate.''"

section \<open>The registry\<close>

definition sig_CONTAINS :: predicate_signature where
  "sig_CONTAINS = Active [
     Variant ''app-contains-block'' [AppKind]
       (EntityObject [BlockKind]),
     Variant ''entity-contains-field'' [EntityKind]
       (EntityObject [FieldKind]),
     Variant ''scenario-contains-step'' [ScenarioKind]
       (EntityObject [ScenarioStepKind]),
     Variant ''responsibility-contains-binding'' [ResponsibilityKind]
       (EntityObject [ResponsibilityBindingKind])]"

definition sig_DECLARES :: predicate_signature where
  "sig_DECLARES = Active [
     Variant ''block-declares-contract-entity'' [BlockKind]
       (EntityObject [EntityKind, FieldKind, ResponsibilityKind, ResponsibilityBindingKind, OperationKind, EventKind, PolicyKind, PermissionKind, EffectKind, StateKind, ScenarioKind, ScenarioStepKind, GeneratorKind]),
     Variant ''state-declares-field'' [StateKind]
       (EntityObject [FieldKind])]"

definition sig_IMPLEMENTS :: predicate_signature where
  "sig_IMPLEMENTS = Active [
     Variant ''responsibility-implements-operation'' [ResponsibilityKind]
       (EntityObject [OperationKind])]"

definition sig_DEPENDS_ON :: predicate_signature where
  "sig_DEPENDS_ON = Active [
     Variant ''block-depends-on-capability'' [BlockKind]
       (EntityObject [CapabilityKind]),
     Variant ''responsibility-depends-on-responsibility'' [ResponsibilityKind]
       (EntityObject [ResponsibilityKind])]"

definition sig_PROVIDES :: predicate_signature where
  "sig_PROVIDES = Active [
     Variant ''block-provides-capability-or-port'' [BlockKind]
       (EntityObject [CapabilityKind, PortKind])]"

definition sig_REQUIRES :: predicate_signature where
  "sig_REQUIRES = Active [
     Variant ''block-requires-port'' [BlockKind]
       (EntityObject [PortKind]),
     Variant ''operation-requires-policy'' [OperationKind]
       (EntityObject [PolicyKind])]"

definition sig_GUARANTEES :: predicate_signature where
  "sig_GUARANTEES = Active [
     Variant ''state-guarantees-value'' [StateKind]
       (ValueObject ''state-value-v1'' (StringSchema))]"

definition sig_INVOKES :: predicate_signature where
  "sig_INVOKES = Active [
     Variant ''operation-invokes-operation'' [OperationKind]
       (EntityObject [OperationKind]),
     Variant ''scenario-invokes-entry-operation'' [ScenarioKind]
       (EntityObject [OperationKind]),
     Variant ''scenario-step-invokes-operation'' [ScenarioStepKind]
       (EntityObject [OperationKind])]"

definition sig_PRECEDES :: predicate_signature where
  "sig_PRECEDES = Active [
     Variant ''scenario-step-precedes-step'' [ScenarioStepKind]
       (EntityObject [ScenarioStepKind])]"

definition sig_AWAITS :: predicate_signature where
  "sig_AWAITS = Active [
     Variant ''operation-awaits-operation'' [OperationKind]
       (EntityObject [OperationKind]),
     Variant ''scenario-step-awaits-operation'' [ScenarioStepKind]
       (EntityObject [OperationKind])]"

definition sig_RETRIES :: predicate_signature where
  "sig_RETRIES = Active [
     Variant ''scenario-step-retries-value'' [ScenarioStepKind]
       (ValueObject ''scenario-retry-v1'' (ObjectSchema [(''maxAttempts'', NumberSchema True (Some 1))]))]"

definition sig_HANDLES :: predicate_signature where
  "sig_HANDLES = Active [
     Variant ''scenario-step-handles-step'' [ScenarioStepKind]
       (EntityObject [ScenarioStepKind])]"

definition sig_EMITS :: predicate_signature where
  "sig_EMITS = Active [
     Variant ''operation-emits-event'' [OperationKind]
       (EntityObject [EventKind])]"

definition sig_CONSUMES :: predicate_signature where
  "sig_CONSUMES = Active [
     Variant ''generator-consumes-state'' [GeneratorKind]
       (EntityObject [StateKind])]"

definition sig_FLOWS_TO :: predicate_signature where
  "sig_FLOWS_TO = Active [
     Variant ''capability-flows-to-source-artifact'' [CapabilityKind]
       (EntityObject [ArtifactKind])]"

definition sig_OWNS :: predicate_signature where
  "sig_OWNS = Active [
     Variant ''responsibility-owns-semantic-state'' [ResponsibilityKind]
       (EntityObject [EntityKind, FieldKind, StateKind])]"

definition sig_READS :: predicate_signature where
  "sig_READS = Active [
     Variant ''operation-reads-data'' [OperationKind]
       (EntityObject [EntityKind, FieldKind])]"

definition sig_WRITES :: predicate_signature where
  "sig_WRITES = Active [
     Variant ''operation-writes-data'' [OperationKind]
       (EntityObject [EntityKind, FieldKind])]"

definition sig_MUTATES :: predicate_signature where
  "sig_MUTATES = Active [
     Variant ''operation-mutates-data-or-state'' [OperationKind]
       (EntityObject [EntityKind, FieldKind, StateKind])]"

definition sig_TRANSITIONS_TO :: predicate_signature where
  "sig_TRANSITIONS_TO = Active [
     Variant ''state-transitions-to-value'' [StateKind]
       (ValueObject ''state-transition-v1'' (ObjectSchema [(''from'', StringSchema), (''to'', StringSchema), (''by'', EntityReferenceSchema [OperationKind])]))]"

definition sig_PERFORMS_EFFECT :: predicate_signature where
  "sig_PERFORMS_EFFECT = Active [
     Variant ''operation-performs-effect'' [OperationKind]
       (EntityObject [EffectKind])]"

definition sig_REQUIRES_PERMISSION :: predicate_signature where
  "sig_REQUIRES_PERMISSION = Active [
     Variant ''operation-requires-permission'' [OperationKind]
       (EntityObject [PermissionKind])]"

definition sig_ENFORCES :: predicate_signature where
  "sig_ENFORCES = Active [
     Variant ''verification-policy-enforces-semantic-policy'' [PolicyKind]
       (EntityObject [PolicyKind])]"

definition sig_VERIFIED_BY :: predicate_signature where
  "sig_VERIFIED_BY = Active [
     Variant ''scenario-verified-by-acceptance'' [ScenarioKind]
       (EntityObject [AcceptanceKind]),
     Variant ''semantic-policy-verified-by-verification-policy'' [PolicyKind]
       (EntityObject [PolicyKind]),
     Variant ''artifact-verified-by-acceptance'' [ArtifactKind]
       (EntityObject [AcceptanceKind]),
     Variant ''artifact-verified-by-selector'' [ArtifactKind]
       (ValueObject ''artifact-verification-selector-v1'' (ObjectSchema [(''selector'', StringSchema)]))]"

definition sig_LOWERS_TO :: predicate_signature where
  "sig_LOWERS_TO = Active [
     Variant ''state-lowers-to-artifact'' [StateKind]
       (EntityObject [ArtifactKind])]"

definition sig_GENERATES :: predicate_signature where
  "sig_GENERATES = Active [
     Variant ''generator-generates-artifact'' [GeneratorKind]
       (EntityObject [ArtifactKind])]"

fun PREDICATE_SIGNATURE_REGISTRY :: "semantic_predicate \<Rightarrow> predicate_signature" where
  "PREDICATE_SIGNATURE_REGISTRY CONTAINS = sig_CONTAINS"
| "PREDICATE_SIGNATURE_REGISTRY DECLARES = sig_DECLARES"
| "PREDICATE_SIGNATURE_REGISTRY IMPLEMENTS = sig_IMPLEMENTS"
| "PREDICATE_SIGNATURE_REGISTRY DEPENDS_ON = sig_DEPENDS_ON"
| "PREDICATE_SIGNATURE_REGISTRY PROVIDES = sig_PROVIDES"
| "PREDICATE_SIGNATURE_REGISTRY ASSUMES = RESERVED"
| "PREDICATE_SIGNATURE_REGISTRY REQUIRES = sig_REQUIRES"
| "PREDICATE_SIGNATURE_REGISTRY GUARANTEES = sig_GUARANTEES"
| "PREDICATE_SIGNATURE_REGISTRY CONNECTS_TO = RESERVED"
| "PREDICATE_SIGNATURE_REGISTRY INVOKES = sig_INVOKES"
| "PREDICATE_SIGNATURE_REGISTRY PRECEDES = sig_PRECEDES"
| "PREDICATE_SIGNATURE_REGISTRY AWAITS = sig_AWAITS"
| "PREDICATE_SIGNATURE_REGISTRY FORKS_TO = RESERVED"
| "PREDICATE_SIGNATURE_REGISTRY JOINS = RESERVED"
| "PREDICATE_SIGNATURE_REGISTRY RETRIES = sig_RETRIES"
| "PREDICATE_SIGNATURE_REGISTRY HANDLES = sig_HANDLES"
| "PREDICATE_SIGNATURE_REGISTRY EMITS = sig_EMITS"
| "PREDICATE_SIGNATURE_REGISTRY CONSUMES = sig_CONSUMES"
| "PREDICATE_SIGNATURE_REGISTRY FLOWS_TO = sig_FLOWS_TO"
| "PREDICATE_SIGNATURE_REGISTRY DERIVES_FROM = RESERVED"
| "PREDICATE_SIGNATURE_REGISTRY TRANSFORMS_TO = RESERVED"
| "PREDICATE_SIGNATURE_REGISTRY VALIDATES = RESERVED"
| "PREDICATE_SIGNATURE_REGISTRY SANITIZES = RESERVED"
| "PREDICATE_SIGNATURE_REGISTRY SERIALIZES_AS = RESERVED"
| "PREDICATE_SIGNATURE_REGISTRY DESERIALIZES_FROM = RESERVED"
| "PREDICATE_SIGNATURE_REGISTRY PERSISTS_AS = RESERVED"
| "PREDICATE_SIGNATURE_REGISTRY OWNS = sig_OWNS"
| "PREDICATE_SIGNATURE_REGISTRY READS = sig_READS"
| "PREDICATE_SIGNATURE_REGISTRY WRITES = sig_WRITES"
| "PREDICATE_SIGNATURE_REGISTRY MUTATES = sig_MUTATES"
| "PREDICATE_SIGNATURE_REGISTRY INITIALIZES = RESERVED"
| "PREDICATE_SIGNATURE_REGISTRY DISPOSES = RESERVED"
| "PREDICATE_SIGNATURE_REGISTRY ESCAPES = RESERVED"
| "PREDICATE_SIGNATURE_REGISTRY TRANSITIONS_TO = sig_TRANSITIONS_TO"
| "PREDICATE_SIGNATURE_REGISTRY PERFORMS_EFFECT = sig_PERFORMS_EFFECT"
| "PREDICATE_SIGNATURE_REGISTRY REQUIRES_PERMISSION = sig_REQUIRES_PERMISSION"
| "PREDICATE_SIGNATURE_REGISTRY CROSSES_BOUNDARY = RESERVED"
| "PREDICATE_SIGNATURE_REGISTRY ENFORCES = sig_ENFORCES"
| "PREDICATE_SIGNATURE_REGISTRY VERIFIED_BY = sig_VERIFIED_BY"
| "PREDICATE_SIGNATURE_REGISTRY ORIGINATES_FROM = RESERVED"
| "PREDICATE_SIGNATURE_REGISTRY LOWERS_TO = sig_LOWERS_TO"
| "PREDICATE_SIGNATURE_REGISTRY GENERATES = sig_GENERATES"
| "PREDICATE_SIGNATURE_REGISTRY VIOLATES = RESERVED"

lemmas signature_defs =
  sig_CONTAINS_def sig_DECLARES_def sig_IMPLEMENTS_def sig_DEPENDS_ON_def sig_PROVIDES_def
  sig_REQUIRES_def sig_GUARANTEES_def sig_INVOKES_def sig_PRECEDES_def sig_AWAITS_def
  sig_RETRIES_def sig_HANDLES_def sig_EMITS_def sig_CONSUMES_def sig_FLOWS_TO_def sig_OWNS_def
  sig_READS_def sig_WRITES_def sig_MUTATES_def sig_TRANSITIONS_TO_def sig_PERFORMS_EFFECT_def
  sig_REQUIRES_PERMISSION_def sig_ENFORCES_def sig_VERIFIED_BY_def sig_LOWERS_TO_def
  sig_GENERATES_def RESERVED_def


section \<open>Consistency of the registry\<close>

definition intersects :: "'a list \<Rightarrow> 'a list \<Rightarrow> bool" where
  "intersects left right = list_ex (\<lambda>value. value \<in> set right) left"

datatype schema_kind = KString | KNumber | KBoolean | KNull | KReference | KObject

fun schema_kind_of :: "value_schema \<Rightarrow> schema_kind" where
  "schema_kind_of StringSchema = KString"
| "schema_kind_of (NumberSchema i m) = KNumber"
| "schema_kind_of BooleanSchema = KBoolean"
| "schema_kind_of NullSchema = KNull"
| "schema_kind_of (EntityReferenceSchema ks) = KReference"
| "schema_kind_of (ObjectSchema fs) = KObject"

definition valueSchemasOverlap :: "value_schema \<Rightarrow> value_schema \<Rightarrow> bool" where
  "valueSchemasOverlap left right =
     (if schema_kind_of left = KReference \<and> schema_kind_of right = KString then True
      else if schema_kind_of left = KString \<and> schema_kind_of right = KReference then True
      else schema_kind_of left = schema_kind_of right)"

definition variantsOverlap :: "signature_variant \<Rightarrow> signature_variant \<Rightarrow> bool" where
  "variantsOverlap left right =
     (if \<not> intersects (subject_kinds left) (subject_kinds right) then False
      else case (object_sig left, object_sig right) of
        (EntityObject ks, EntityObject ls) \<Rightarrow> intersects ks ls
      | (ValueObject i s, ValueObject j r) \<Rightarrow> valueSchemasOverlap s r
      | _ \<Rightarrow> False)"

text \<open>The body of the loop over the variants of a predicate, with the ids seen before.\<close>

fun check_variants :: "signature_variant list \<Rightarrow> string list \<Rightarrow> unit result" where
  "check_variants [] variantIds = Inr ()"
| "check_variants (v # vs) variantIds =
     (if variant_id v \<in> set variantIds \<or> subject_kinds v = [] \<or>
         (case object_sig v of EntityObject ks \<Rightarrow> ks = [] | ValueObject _ _ \<Rightarrow> False)
      then throw (CodedFailure ''IR-PREDICATE-006'' [variant_id v])
      else bind_r (check_all (\<lambda>candidate.
               throw_if (variantsOverlap v candidate)
                 (CodedFailure ''IR-PREDICATE-006'' [variant_id v, variant_id candidate])) vs)
             (\<lambda>_. check_variants vs (variantIds @ [variant_id v])))"

definition assertPredicateSignatureRegistry :: "unit result" where
  "assertPredicateSignatureRegistry =
     check_all (\<lambda>predicate.
       case PREDICATE_SIGNATURE_REGISTRY predicate of
         Reserved _ \<Rightarrow> Inr ()
       | Active variants \<Rightarrow>
           if variants = [] then throw (CodedFailure ''IR-PREDICATE-006'' [])
           else check_variants variants []) SEMANTIC_PREDICATES"

section \<open>Checking values\<close>

text \<open>The failures \<open>validateValue\<close> renders as text, with the path they name.\<close>

datatype value_failure =
    MustBeString string | MustBeFinite string | MustBeInteger string | MustBeAtLeast string rat
  | MustBeBoolean string | MustBeNull string | MustBeReference string | MissingEntity string string
  | WrongEntityKind string semantic_entity_kind | MustBeObject string | FieldRequired string
  | FieldNotAllowed string

fun first_failure :: "('a \<Rightarrow> 'b option) \<Rightarrow> 'a list \<Rightarrow> 'b option" where
  "first_failure f [] = None"
| "first_failure f (x # xs) = (case f x of Some e \<Rightarrow> Some e | None \<Rightarrow> first_failure f xs)"

lemma first_failure_cong [fundef_cong]:
  "xs = ys \<Longrightarrow> (\<And>x. x \<in> set ys \<Longrightarrow> f x = g x) \<Longrightarrow> first_failure f xs = first_failure g ys"
  by (induction ys arbitrary: xs) (auto split: option.split)

lemma first_failure_None_iff: "first_failure f xs = None \<longleftrightarrow> (\<forall>x \<in> set xs. f x = None)"
  by (induction xs) (auto split: option.splits)

text \<open>
  \<open>actualKeys.find(...)\<close> returns the least additional key, and \<open>if (additionalKey)\<close> lets the empty
  string pass.
\<close>

definition additional_key :: "(string \<times> 'a) list \<Rightarrow> (string \<times> 'b) list \<Rightarrow> string option" where
  "additional_key fieldSchemas props =
     List.find (\<lambda>key. key \<notin> set (map fst fieldSchemas)) (sort (map fst props))"

function validateValue ::
    "(string, semantic_entity) jsmap \<Rightarrow> string \<Rightarrow> value_schema \<Rightarrow> semantic_value \<Rightarrow> value_failure option" where
  "validateValue entityById path StringSchema value =
     (case value of SString _ \<Rightarrow> None | _ \<Rightarrow> Some (MustBeString path))"
| "validateValue entityById path (NumberSchema integer minimum) value =
     (case value of
        SNumber n \<Rightarrow>
          if \<not> is_finite_number n then Some (MustBeFinite path)
          else if integer \<and> \<not> is_integer_number n then Some (MustBeInteger path)
          else (case minimum of
                  Some m \<Rightarrow> if the (number_value n) < m then Some (MustBeAtLeast path m) else None
                | None \<Rightarrow> None)
      | _ \<Rightarrow> Some (MustBeFinite path))"
| "validateValue entityById path BooleanSchema value =
     (case value of SBoolean _ \<Rightarrow> None | _ \<Rightarrow> Some (MustBeBoolean path))"
| "validateValue entityById path NullSchema value =
     (case value of SNull \<Rightarrow> None | _ \<Rightarrow> Some (MustBeNull path))"
| "validateValue entityById path (EntityReferenceSchema entityKinds) value =
     (case value of
        SString ref \<Rightarrow>
          (case map_get entityById ref of
             None \<Rightarrow> Some (MissingEntity path ref)
           | Some entity \<Rightarrow>
               if ent_kind entity \<in> set entityKinds then None
               else Some (WrongEntityKind path (ent_kind entity)))
      | _ \<Rightarrow> Some (MustBeReference path))"
| "validateValue entityById path (ObjectSchema fieldSchemas) value =
     (case value of
        SObject props \<Rightarrow>
          (case first_failure (\<lambda>field.
                  let child = path @ ''.'' @ fst field in
                  case map_of props (fst field) of
                    None \<Rightarrow> Some (FieldRequired child)
                  | Some v \<Rightarrow> validateValue entityById child (snd field) v) (sort_key fst fieldSchemas) of
             Some failure \<Rightarrow> Some failure
           | None \<Rightarrow>
               (case additional_key fieldSchemas props of
                  Some key \<Rightarrow> if key \<noteq> [] then Some (FieldNotAllowed (path @ ''.'' @ key)) else None
                | None \<Rightarrow> None))
      | _ \<Rightarrow> Some (MustBeObject path))"
  by pat_completeness auto

termination
proof (relation "measure (\<lambda>(entityById, path, schema, value). size schema)", goal_cases)
  case 1
  show ?case by simp
next
  case (2 entityById path fieldSchemas val props field child v)
  then have "field \<in> set fieldSchemas" by simp
  then have "size (snd field) < size (ObjectSchema fieldSchemas)"
    by (induction fieldSchemas) auto
  then show ?case by simp
qed

section \<open>Checking facts\<close>

definition subjectKindOf :: "(string, semantic_entity) jsmap \<Rightarrow> semantic_fact \<Rightarrow> semantic_entity_kind option" where
  "subjectKindOf entityById fct = map_option ent_kind (map_get entityById (fact_subject fct))"

definition subject_variants ::
    "(string, semantic_entity) jsmap \<Rightarrow> signature_variant list \<Rightarrow> semantic_fact \<Rightarrow> signature_variant list" where
  "subject_variants entityById variants fct =
     filter (\<lambda>variant. case subjectKindOf entityById fct of
        None \<Rightarrow> False | Some k \<Rightarrow> k \<in> set (subject_kinds variant)) variants"

definition same_object_kind :: "semantic_fact \<Rightarrow> signature_variant \<Rightarrow> bool" where
  "same_object_kind fct variant =
     (case (fact_object fct, object_sig variant) of
        (EntityRef _, EntityObject _) \<Rightarrow> True
      | (ValueObj _, ValueObject _ _) \<Rightarrow> True
      | _ \<Rightarrow> False)"

definition matching_variants ::
    "(string, semantic_entity) jsmap \<Rightarrow> signature_variant list \<Rightarrow> semantic_fact \<Rightarrow> signature_variant list" where
  "matching_variants entityById objectVariants fct =
     (case fact_object fct of
        EntityRef entityId \<Rightarrow>
          filter (\<lambda>variant. case object_sig variant of
              EntityObject ks \<Rightarrow>
                (case map_get entityById entityId of None \<Rightarrow> False | Some e \<Rightarrow> ent_kind e \<in> set ks)
            | ValueObject _ _ \<Rightarrow> False) objectVariants
      | ValueObj value \<Rightarrow>
          filter (\<lambda>variant. case object_sig variant of
              EntityObject _ \<Rightarrow> False
            | ValueObject _ schema \<Rightarrow> validateValue entityById ''$'' schema value = None) objectVariants)"

definition check_fact :: "(string, semantic_entity) jsmap \<Rightarrow> semantic_fact \<Rightarrow> unit result" where
  "check_fact entityById fct =
     (case PREDICATE_SIGNATURE_REGISTRY (fact_predicate fct) of
        Reserved _ \<Rightarrow> throw (CodedFailure ''IR-PREDICATE-001'' [fact_id fct])
      | Active variants \<Rightarrow>
          let subjectVariants = subject_variants entityById variants fct in
          if subjectVariants = [] then throw (CodedFailure ''IR-PREDICATE-002'' [fact_id fct, fact_subject fct])
          else
            let objectVariants = filter (same_object_kind fct) subjectVariants in
            if objectVariants = [] then throw (CodedFailure ''IR-PREDICATE-003'' [fact_id fct])
            else
              let matching = matching_variants entityById objectVariants fct in
              if matching = []
              then throw (case fact_object fct of
                  EntityRef entityId \<Rightarrow> CodedFailure ''IR-PREDICATE-004'' [fact_id fct, entityId]
                | ValueObj _ \<Rightarrow> CodedFailure ''IR-PREDICATE-005'' [fact_id fct])
              else if length matching > 1 then throw (CodedFailure ''IR-PREDICATE-006'' [fact_id fct])
              else Inr ())"

definition assertEngineeringIRPredicateSignatures ::
    "semantic_entity list \<Rightarrow> semantic_fact list \<Rightarrow> unit result" where
  "assertEngineeringIRPredicateSignatures entities facts =
     bind_r assertPredicateSignatureRegistry (\<lambda>_.
       let entityById = map_from (map (\<lambda>e. (ent_id e, e)) entities)
       in check_all (check_fact entityById) (sort_key fact_id facts))"

declare validateValue.simps [simp del]

section \<open>No value fits two schemas of different shape\<close>

text \<open>The shape of a value, where a reference is a string.\<close>

fun value_shape :: "semantic_value \<Rightarrow> schema_kind option" where
  "value_shape (SString _) = Some KString"
| "value_shape (SNumber _) = Some KNumber"
| "value_shape (SBoolean _) = Some KBoolean"
| "value_shape SNull = Some KNull"
| "value_shape (SArray _) = None"
| "value_shape (SObject _) = Some KObject"

lemma validated_shape:
  "validateValue m path s v = None \<Longrightarrow>
     value_shape v = Some (if schema_kind_of s = KReference then KString else schema_kind_of s)"
  by (cases s; cases v) (auto simp: validateValue.simps split: option.splits if_splits)

lemma overlap_of_common_value:
  "validateValue m p s v = None \<Longrightarrow> validateValue m q r v = None \<Longrightarrow> valueSchemasOverlap s r"
  using validated_shape [of m p s v] validated_shape [of m q r v]
  by (auto simp: valueSchemasOverlap_def split: if_splits)

definition variant_fits :: "(string, semantic_entity) jsmap \<Rightarrow> semantic_fact \<Rightarrow> signature_variant \<Rightarrow> bool" where
  "variant_fits entityById fct variant \<longleftrightarrow>
     (\<exists>e. map_get entityById (fact_subject fct) = Some e \<and> ent_kind e \<in> set (subject_kinds variant)) \<and>
     (case (fact_object fct, object_sig variant) of
        (EntityRef i, EntityObject ks) \<Rightarrow> \<exists>e. map_get entityById i = Some e \<and> ent_kind e \<in> set ks
      | (ValueObj v, ValueObject _ s) \<Rightarrow> validateValue entityById ''$'' s v = None
      | _ \<Rightarrow> False)"

lemma common_fact_overlap:
  "variant_fits m f v \<Longrightarrow> variant_fits m f w \<Longrightarrow> variantsOverlap v w"
  by (auto simp: variant_fits_def variantsOverlap_def intersects_def list_ex_iff overlap_of_common_value
      split: semantic_fact_object.splits object_signature.splits)

lemma check_variants_disjoint:
  "check_variants vs ids = Inr () \<Longrightarrow> i < j \<Longrightarrow> j < length vs \<Longrightarrow> \<not> variantsOverlap (vs ! i) (vs ! j)"
proof (induction vs ids arbitrary: i j rule: check_variants.induct)
  case (2 v vs ids)
  have rest: "check_variants vs (ids @ [variant_id v]) = Inr ()"
    and first: "\<forall>c \<in> set vs. \<not> variantsOverlap v c"
    using "2.prems"(1) by (auto simp: check_all_Inr_iff throw_def split: if_splits)
  show ?case
  proof (cases i)
    case 0
    then show ?thesis using first "2.prems"(2,3) by (cases j) auto
  next
    case (Suc i')
    then obtain j' where "j = Suc j'" using "2.prems"(2) by (cases j) auto
    then show ?thesis using "2.IH" rest Suc "2.prems" by (auto simp: throw_def split: if_splits)
  qed
qed simp

lemma registry_consistent: "assertPredicateSignatureRegistry = Inr ()"
  by code_simp

lemma in_SEMANTIC_PREDICATES: "p \<in> set SEMANTIC_PREDICATES"
  by (cases p) (simp_all add: SEMANTIC_PREDICATES_def)

lemma active_variants_checked:
  assumes "PREDICATE_SIGNATURE_REGISTRY p = Active vs"
  shows "check_variants vs [] = Inr ()"
proof -
  have "\<forall>p \<in> set SEMANTIC_PREDICATES. (case PREDICATE_SIGNATURE_REGISTRY p of
         Reserved _ \<Rightarrow> Inr ()
       | Active variants \<Rightarrow>
           if variants = [] then throw (CodedFailure ''IR-PREDICATE-006'' [])
           else check_variants variants []) = Inr ()"
    using registry_consistent unfolding assertPredicateSignatureRegistry_def check_all_Inr_iff .
  then show ?thesis using in_SEMANTIC_PREDICATES [of p] assms by (auto simp: throw_def split: if_splits)
qed


lemma fits_unique:
  assumes reg: "PREDICATE_SIGNATURE_REGISTRY p = Active vs"
  shows "length (filter (variant_fits m f) vs) \<le> 1"
proof (rule ccontr)
  assume "\<not> length (filter (variant_fits m f) vs) \<le> 1"
  then obtain i j where ij: "i < j" "j < length vs" "vs ! i = filter (variant_fits m f) vs ! 0"
      "vs ! j = filter (variant_fits m f) vs ! 1"
    using filter_positions [of 0 1 "variant_fits m f" vs] by auto
  have "filter (variant_fits m f) vs ! k \<in> set (filter (variant_fits m f) vs)" if "k \<le> 1" for k
    using that \<open>\<not> length (filter (variant_fits m f) vs) \<le> 1\<close> by (intro nth_mem) simp
  from this [of 0] this [of 1] have "variant_fits m f (vs ! i)" "variant_fits m f (vs ! j)" using ij(3,4) by simp_all
  then show False
    using common_fact_overlap check_variants_disjoint [OF active_variants_checked [OF reg] ij(1,2)] by blast
qed

lemma matching_are_fitting:
  "matching_variants m (filter (same_object_kind f) (subject_variants m vs f)) f = filter (variant_fits m f) vs"
proof (cases "fact_object f")
  case (EntityRef i)
  show ?thesis
    unfolding matching_variants_def subject_variants_def EntityRef semantic_fact_object.simps filter_filter
    by (rule filter_cong [OF refl])
      (simp add: subjectKindOf_def same_object_kind_def variant_fits_def EntityRef
        split: object_signature.split option.split)
next
  case (ValueObj v)
  show ?thesis
    unfolding matching_variants_def subject_variants_def ValueObj semantic_fact_object.simps filter_filter
    by (rule filter_cong [OF refl])
      (simp add: subjectKindOf_def same_object_kind_def variant_fits_def ValueObj
        split: object_signature.split option.split)
qed

text \<open>The checker accepts a fact exactly when one variant of its predicate fits it.\<close>

lemma check_fact_ok_iff:
  "check_fact m f = Inr () \<longleftrightarrow>
     (\<exists>vs. PREDICATE_SIGNATURE_REGISTRY (fact_predicate f) = Active vs \<and> (\<exists>v \<in> set vs. variant_fits m f v))"
proof (cases "PREDICATE_SIGNATURE_REGISTRY (fact_predicate f)")
  case (Active vs)
  let ?fit = "filter (variant_fits m f) vs"
  have "?fit = [] \<or> length ?fit = 1" using fits_unique [OF Active, of m f] by (cases ?fit) auto
  moreover have "?fit = []" if "subject_variants m vs f = []"
    using matching_are_fitting [of m f vs] that
    by (simp add: matching_variants_def split: semantic_fact_object.splits)
  moreover have "?fit = []" if "filter (same_object_kind f) (subject_variants m vs f) = []"
    using matching_are_fitting [of m f vs] that
    by (simp add: matching_variants_def split: semantic_fact_object.splits)
  ultimately show ?thesis
    using Active matching_are_fitting [of m f vs]
    by (auto simp: check_fact_def Let_def throw_def filter_empty_conv)
qed (simp add: check_fact_def throw_def)

lemma check_fact_failure:
  assumes "check_fact m f = Inl e"
  shows "failure_code e \<in> {''IR-PREDICATE-001'', ''IR-PREDICATE-002'', ''IR-PREDICATE-003'',
           ''IR-PREDICATE-004'', ''IR-PREDICATE-005''}"
proof (cases "PREDICATE_SIGNATURE_REGISTRY (fact_predicate f)")
  case (Active vs)
  have "length (matching_variants m (filter (same_object_kind f) (subject_variants m vs f)) f) \<le> 1"
    using fits_unique [OF Active] by (simp add: matching_are_fitting)
  then show ?thesis
    using assms Active by (auto simp: check_fact_def Let_def throw_def split: if_splits semantic_fact_object.splits)
qed (use assms in \<open>auto simp: check_fact_def throw_def\<close>)


section \<open>Properties\<close>

text \<open>
  C10. The predicate registry is unambiguous: it passes its own consistency check, so for every entity
  table and every fact at most one variant of the fact's predicate fits it.
\<close>

theorem registry_unambiguous:
  "assertPredicateSignatureRegistry = Inr () \<and>
   (\<forall>p vs m f. PREDICATE_SIGNATURE_REGISTRY p = Active vs \<longrightarrow> length (filter (variant_fits m f) vs) \<le> 1)"
  using registry_consistent fits_unique by blast

definition sample_entities :: "semantic_entity list" where
  "sample_entities =
     [\<lparr>ent_id = ''app:shop'', ent_kind = AppKind, ent_label = ''shop'', ent_attributes = []\<rparr>,
      \<lparr>ent_id = ''block:core/auth'', ent_kind = BlockKind, ent_label = ''auth'', ent_attributes = []\<rparr>,
      \<lparr>ent_id = ''step:1'', ent_kind = ScenarioStepKind, ent_label = ''step'', ent_attributes = []\<rparr>]"

definition sample_fact :: "string \<Rightarrow> semantic_predicate \<Rightarrow> string \<Rightarrow> semantic_fact_object \<Rightarrow> semantic_fact" where
  "sample_fact i p s ob = \<lparr>fact_id = i, fact_subject = s, fact_predicate = p, fact_object = ob, fact_assertions = []\<rparr>"

theorem registry_unambiguous_witness:
  "PREDICATE_SIGNATURE_REGISTRY PROVIDES =
     Active [Variant ''block-provides-capability-or-port'' [BlockKind] (EntityObject [CapabilityKind, PortKind])] \<and>
   length (filter (variant_fits [] (sample_fact ''f'' PROVIDES ''s'' (EntityRef ''o'')))
     [Variant ''block-provides-capability-or-port'' [BlockKind] (EntityObject [CapabilityKind, PortKind])]) \<le> 1"
proof -
  have r: "PREDICATE_SIGNATURE_REGISTRY PROVIDES =
     Active [Variant ''block-provides-capability-or-port'' [BlockKind] (EntityObject [CapabilityKind, PortKind])]"
    by (simp add: sig_PROVIDES_def)
  then show ?thesis using registry_unambiguous by blast
qed

text \<open>
  C11. The fact checker accepts exactly the well-typed facts: every fact has an active predicate with a
  variant that fits its subject and object, entity references and value schemas included.
\<close>

theorem predicate_signatures_accept_iff:
  "assertEngineeringIRPredicateSignatures entities facts = Inr () \<longleftrightarrow>
     (\<forall>f \<in> set facts. \<exists>vs. PREDICATE_SIGNATURE_REGISTRY (fact_predicate f) = Active vs \<and>
        (\<exists>v \<in> set vs. variant_fits (map_from (map (\<lambda>e. (ent_id e, e)) entities)) f v))"
  by (simp add: assertEngineeringIRPredicateSignatures_def Let_def registry_consistent check_all_Inr_iff
      check_fact_ok_iff)

theorem predicate_signatures_accept_iff_witness:
  "\<exists>vs. PREDICATE_SIGNATURE_REGISTRY CONTAINS = Active vs \<and>
     (\<exists>v \<in> set vs. variant_fits (map_from (map (\<lambda>e. (ent_id e, e)) sample_entities))
        (sample_fact ''f1'' CONTAINS ''app:shop'' (EntityRef ''block:core/auth'')) v)"
proof -
  have "assertEngineeringIRPredicateSignatures sample_entities
     [sample_fact ''f1'' CONTAINS ''app:shop'' (EntityRef ''block:core/auth'')] = Inr ()" by code_simp
  from this [unfolded predicate_signatures_accept_iff] show ?thesis by (simp add: sample_fact_def)
qed

text \<open>
  The checker's failures are the five typing failures (reserved predicate, wrong subject, wrong kind
  of object, wrong entity, wrong value): the ambiguity failure is unreachable, and the failing fact is
  one of the given facts.
\<close>

theorem predicate_signature_failures:
  assumes "assertEngineeringIRPredicateSignatures entities facts = Inl e"
  shows "failure_code e \<in> {''IR-PREDICATE-001'', ''IR-PREDICATE-002'', ''IR-PREDICATE-003'',
           ''IR-PREDICATE-004'', ''IR-PREDICATE-005''} \<and>
    (\<exists>f \<in> set facts. check_fact (map_from (map (\<lambda>x. (ent_id x, x)) entities)) f = Inl e)"
proof -
  have "check_all (check_fact (map_from (map (\<lambda>x. (ent_id x, x)) entities))) (sort_key fact_id facts) = Inl e"
    using assms by (simp add: assertEngineeringIRPredicateSignatures_def Let_def registry_consistent)
  then obtain f where "f \<in> set facts" "check_fact (map_from (map (\<lambda>x. (ent_id x, x)) entities)) f = Inl e"
    using check_all_InlD by fastforce
  then show ?thesis using check_fact_failure by blast
qed

theorem predicate_signature_failures_witness:
  "failure_code (CodedFailure ''IR-PREDICATE-002'' [''f1'', ''app:shop'']) \<in>
     {''IR-PREDICATE-001'', ''IR-PREDICATE-002'', ''IR-PREDICATE-003'', ''IR-PREDICATE-004'', ''IR-PREDICATE-005''}"
proof -
  have "assertEngineeringIRPredicateSignatures sample_entities
     [sample_fact ''f1'' PROVIDES ''app:shop'' (EntityRef ''block:core/auth'')] =
       Inl (CodedFailure ''IR-PREDICATE-002'' [''f1'', ''app:shop''])" by code_simp
  from predicate_signature_failures [OF this] show ?thesis by blast
qed

text \<open>
  A gap in the closed-object rule, at the schema of one field: a value object with one additional property whose key is
  the empty string is accepted, although the schema allows no additional fields, while the additional key \<open>x\<close> is refused.
\<close>

theorem empty_key_is_not_refused:
  "validateValue m ''$'' (ObjectSchema [(''selector'', StringSchema)])
     (SObject [(''selector'', SString s), ([], v)]) = None \<and>
   validateValue m ''$'' (ObjectSchema [(''selector'', StringSchema)])
     (SObject [(''selector'', SString s), (''x'', v)]) = Some (FieldNotAllowed ''$.x'')"
  by (simp add: validateValue.simps additional_key_def)

end
