(* ===== verification/EngineeringIR.thy ===== *)
theory EngineeringIR
  imports PredicateSignatures
begin

text \<open>
  The IR root (\<^verbatim>\<open>src/src/semantics/engineering-ir/root-types.ts\<close>, \<^verbatim>\<open>scenario-types.ts\<close>), the wire names
  of its enumerations, and the JSON of its records: \<open>semanticRevisionPayload\<close> of
  \<^verbatim>\<open>src/src/compiler/ir/ir-revision.ts\<close>. Record properties are printed in the order in which the
  builders create them.
\<close>

section \<open>Wire names\<close>

fun entity_kind_name :: "semantic_entity_kind \<Rightarrow> string" where
  "entity_kind_name AppKind = ''app''"
| "entity_kind_name BlockKind = ''block''"
| "entity_kind_name CapabilityKind = ''capability''"
| "entity_kind_name PortKind = ''port''"
| "entity_kind_name EntityKind = ''entity''"
| "entity_kind_name FieldKind = ''field''"
| "entity_kind_name ResponsibilityKind = ''responsibility''"
| "entity_kind_name ResponsibilityBindingKind = ''responsibility-binding''"
| "entity_kind_name OperationKind = ''operation''"
| "entity_kind_name ScenarioKind = ''scenario''"
| "entity_kind_name ScenarioStepKind = ''scenario-step''"
| "entity_kind_name StateKind = ''state''"
| "entity_kind_name EventKind = ''event''"
| "entity_kind_name PolicyKind = ''policy''"
| "entity_kind_name PermissionKind = ''permission''"
| "entity_kind_name EffectKind = ''effect''"
| "entity_kind_name BoundaryKind = ''boundary''"
| "entity_kind_name GeneratorKind = ''generator''"
| "entity_kind_name ArtifactKind = ''artifact''"
| "entity_kind_name AcceptanceKind = ''acceptance''"

fun predicate_name :: "semantic_predicate \<Rightarrow> string" where
  "predicate_name CONTAINS = ''CONTAINS''"
| "predicate_name DECLARES = ''DECLARES''"
| "predicate_name IMPLEMENTS = ''IMPLEMENTS''"
| "predicate_name DEPENDS_ON = ''DEPENDS_ON''"
| "predicate_name PROVIDES = ''PROVIDES''"
| "predicate_name ASSUMES = ''ASSUMES''"
| "predicate_name REQUIRES = ''REQUIRES''"
| "predicate_name GUARANTEES = ''GUARANTEES''"
| "predicate_name CONNECTS_TO = ''CONNECTS_TO''"
| "predicate_name INVOKES = ''INVOKES''"
| "predicate_name PRECEDES = ''PRECEDES''"
| "predicate_name AWAITS = ''AWAITS''"
| "predicate_name FORKS_TO = ''FORKS_TO''"
| "predicate_name JOINS = ''JOINS''"
| "predicate_name RETRIES = ''RETRIES''"
| "predicate_name HANDLES = ''HANDLES''"
| "predicate_name EMITS = ''EMITS''"
| "predicate_name CONSUMES = ''CONSUMES''"
| "predicate_name FLOWS_TO = ''FLOWS_TO''"
| "predicate_name DERIVES_FROM = ''DERIVES_FROM''"
| "predicate_name TRANSFORMS_TO = ''TRANSFORMS_TO''"
| "predicate_name VALIDATES = ''VALIDATES''"
| "predicate_name SANITIZES = ''SANITIZES''"
| "predicate_name SERIALIZES_AS = ''SERIALIZES_AS''"
| "predicate_name DESERIALIZES_FROM = ''DESERIALIZES_FROM''"
| "predicate_name PERSISTS_AS = ''PERSISTS_AS''"
| "predicate_name OWNS = ''OWNS''"
| "predicate_name READS = ''READS''"
| "predicate_name WRITES = ''WRITES''"
| "predicate_name MUTATES = ''MUTATES''"
| "predicate_name INITIALIZES = ''INITIALIZES''"
| "predicate_name DISPOSES = ''DISPOSES''"
| "predicate_name ESCAPES = ''ESCAPES''"
| "predicate_name TRANSITIONS_TO = ''TRANSITIONS_TO''"
| "predicate_name PERFORMS_EFFECT = ''PERFORMS_EFFECT''"
| "predicate_name REQUIRES_PERMISSION = ''REQUIRES_PERMISSION''"
| "predicate_name CROSSES_BOUNDARY = ''CROSSES_BOUNDARY''"
| "predicate_name ENFORCES = ''ENFORCES''"
| "predicate_name VERIFIED_BY = ''VERIFIED_BY''"
| "predicate_name ORIGINATES_FROM = ''ORIGINATES_FROM''"
| "predicate_name LOWERS_TO = ''LOWERS_TO''"
| "predicate_name GENERATES = ''GENERATES''"
| "predicate_name VIOLATES = ''VIOLATES''"

fun authority_name :: "semantic_authority \<Rightarrow> string" where
  "authority_name Authoritative = ''authoritative''"
| "authority_name Derived = ''derived''"
| "authority_name Observed = ''observed''"
| "authority_name Inferred = ''inferred''"

fun provenance_kind_name :: "fact_provenance_kind \<Rightarrow> string" where
  "provenance_kind_name ContractProvenance = ''contract''"
| "provenance_kind_name CompilerProvenance = ''compiler''"
| "provenance_kind_name StaticAnalysisProvenance = ''static-analysis''"
| "provenance_kind_name RuntimeProvenance = ''runtime''"
| "provenance_kind_name AiProvenance = ''ai''"
| "provenance_kind_name UserProvenance = ''user''"
| "provenance_kind_name ExternalProviderProvenance = ''external-provider''"

section \<open>The root\<close>

record scenario_step_definition =
  step_id :: string
  step_operationEntityId :: string
  step_afterStepIds :: "string list"
  step_awaits :: bool
  step_retryMaxAttempts :: "js_number option"
  step_onErrorStepId :: "string option"

record scenario_definition =
  scen_id :: string
  scen_label :: string
  scen_entryEntityId :: string
  scen_factIds :: "string list"
  scen_steps :: "scenario_step_definition list"
  scen_acceptanceEntityIds :: "string list"

definition ENGINEERING_IR_FORMAT_VERSION :: string where
  "ENGINEERING_IR_FORMAT_VERSION = ''2''"

text \<open>\<open>formatVersion\<close> has the single value \<open>ENGINEERING_IR_FORMAT_VERSION\<close>.\<close>

record engineering_ir =
  graphId :: string
  inputRevision :: string
  semanticRevision :: string
  appId :: string
  entities :: "semantic_entity list"
  facts :: "semantic_fact list"
  scenarios :: "scenario_definition list"

section \<open>JSON of the records\<close>

fun semantic_value_json :: "semantic_value \<Rightarrow> json" where
  "semantic_value_json (SString s) = JString s"
| "semantic_value_json (SNumber n) = JNumber n"
| "semantic_value_json (SBoolean b) = JBoolean b"
| "semantic_value_json SNull = JNull"
| "semantic_value_json (SArray vs) = JArray (map semantic_value_json vs)"
| "semantic_value_json (SObject kvs) = JObject (map (\<lambda>(k, v). (k, semantic_value_json v)) kvs)"

fun attribute_value_json :: "semantic_attribute_value \<Rightarrow> json" where
  "attribute_value_json (Primitive v) = semantic_value_json v"
| "attribute_value_json (StringArray ss) = JArray (map JString ss)"

definition attribute_json :: "semantic_attribute \<Rightarrow> json" where
  "attribute_json a = JObject [(''key'', JString (attr_key a)), (''value'', attribute_value_json (attr_value a))]"

definition entity_json :: "semantic_entity \<Rightarrow> json" where
  "entity_json e =
     JObject [(''id'', JString (ent_id e)), (''kind'', JString (entity_kind_name (ent_kind e))),
       (''label'', JString (ent_label e)), (''attributes'', JArray (map attribute_json (ent_attributes e)))]"

text \<open>An absent optional property is not printed.\<close>

definition optional_string :: "string \<Rightarrow> string option \<Rightarrow> (string \<times> json) list" where
  "optional_string key v = (case v of None \<Rightarrow> [] | Some s \<Rightarrow> [(key, JString s)])"

definition provenance_json :: "fact_provenance \<Rightarrow> json" where
  "provenance_json p =
     JObject ([(''kind'', JString (provenance_kind_name (prov_kind p))), (''sourceId'', JString (prov_sourceId p))]
       @ optional_string ''sourcePath'' (prov_sourcePath p) @ optional_string ''revision'' (prov_revision p))"

definition evidence_json :: "evidence_reference \<Rightarrow> json" where
  "evidence_json e =
     JObject ([(''kind'', JString (ev_kind e)), (''ref'', JString (ev_ref e))] @ optional_string ''digest'' (ev_digest e))"

fun fact_object_json :: "semantic_fact_object \<Rightarrow> json" where
  "fact_object_json (EntityRef i) = JObject [(''kind'', JString ''entity''), (''entityId'', JString i)]"
| "fact_object_json (ValueObj v) = JObject [(''kind'', JString ''value''), (''value'', semantic_value_json v)]"

text \<open>An assertion without its validity revisions, as revisions and deltas print it.\<close>

definition canonicalAssertion :: "fact_assertion \<Rightarrow> json" where
  "canonicalAssertion a =
     JObject [(''id'', JString (as_id a)), (''authority'', JString (authority_name (as_authority a))),
       (''confidence'', JNumber (as_confidence a)), (''provenance'', JArray (map provenance_json (as_provenance a))),
       (''evidence'', JArray (map evidence_json (as_evidence a)))]"

definition canonicalFact :: "semantic_fact \<Rightarrow> json" where
  "canonicalFact f =
     JObject [(''id'', JString (fact_id f)), (''subject'', JString (fact_subject f)),
       (''predicate'', JString (predicate_name (fact_predicate f))), (''object'', fact_object_json (fact_object f)),
       (''assertions'', JArray (map canonicalAssertion (fact_assertions f)))]"

definition step_json :: "scenario_step_definition \<Rightarrow> json" where
  "step_json s =
     JObject ([(''id'', JString (step_id s)), (''operationEntityId'', JString (step_operationEntityId s)),
       (''afterStepIds'', JArray (map JString (step_afterStepIds s))), (''awaits'', JBoolean (step_awaits s))]
       @ (case step_retryMaxAttempts s of None \<Rightarrow> [] | Some n \<Rightarrow> [(''retryMaxAttempts'', JNumber n)])
       @ optional_string ''onErrorStepId'' (step_onErrorStepId s))"

definition scenario_json :: "scenario_definition \<Rightarrow> json" where
  "scenario_json s =
     JObject [(''id'', JString (scen_id s)), (''label'', JString (scen_label s)),
       (''entryEntityId'', JString (scen_entryEntityId s)), (''factIds'', JArray (map JString (scen_factIds s))),
       (''steps'', JArray (map step_json (scen_steps s))),
       (''acceptanceEntityIds'', JArray (map JString (scen_acceptanceEntityIds s)))]"

definition semanticRevisionPayload ::
    "string \<Rightarrow> string \<Rightarrow> semantic_entity list \<Rightarrow> semantic_fact list \<Rightarrow> scenario_definition list \<Rightarrow> string" where
  "semanticRevisionPayload graph app es fs ss =
     stringify (JObject [(''formatVersion'', JString ENGINEERING_IR_FORMAT_VERSION), (''graphId'', JString graph),
       (''appId'', JString app), (''entities'', JArray (map entity_json es)),
       (''facts'', JArray (map canonicalFact fs)), (''scenarios'', JArray (map scenario_json ss))])"

end
