(* ===== verification/MergeDiff.thy ===== *)
theory MergeDiff
  imports Prelude
begin

text \<open>
  The two-pointer loop of \<open>diffFacts\<close> and of \<open>diffAssertions\<close>
  (\<^verbatim>\<open>src/src/compiler/ir/build-fact-delta.ts\<close>): both walk two lists ordered by id, classify what is
  only on one side, and hand pairs with the same id to a comparison that may report a change or
  throw. \<open>merge_diff\<close> is that loop with the comparison as its argument; the theory proves it equal
  to the classification by membership, for lists strictly ordered by id.
\<close>

fun merge_diff ::
    "('a \<Rightarrow> string) \<Rightarrow> ('a \<Rightarrow> 'a \<Rightarrow> 'c option result) \<Rightarrow> 'a list \<Rightarrow> 'a list \<Rightarrow>
     ('a list \<times> 'a list \<times> 'c list) result" where
  "merge_diff key pair [] [] = Inr ([], [], [])"
| "merge_diff key pair [] (t # ts) =
     bind_r (merge_diff key pair [] ts) (\<lambda>(added, removed, changed). Inr (t # added, removed, changed))"
| "merge_diff key pair (f # fs) [] =
     bind_r (merge_diff key pair fs []) (\<lambda>(added, removed, changed). Inr (added, f # removed, changed))"
| "merge_diff key pair (f # fs) (t # ts) =
     (if key f < key t then
        bind_r (merge_diff key pair fs (t # ts)) (\<lambda>(added, removed, changed). Inr (added, f # removed, changed))
      else if key t < key f then
        bind_r (merge_diff key pair (f # fs) ts) (\<lambda>(added, removed, changed). Inr (t # added, removed, changed))
      else
        bind_r (pair f t) (\<lambda>change.
          bind_r (merge_diff key pair fs ts) (\<lambda>(added, removed, changed).
            Inr (added, removed, case change of None \<Rightarrow> changed | Some c \<Rightarrow> c # changed))))"

abbreviation ordered_by :: "('a \<Rightarrow> string) \<Rightarrow> 'a list \<Rightarrow> bool" where
  "ordered_by key xs \<equiv> sorted_wrt (\<lambda>x y. key x < key y) xs"

text \<open>The classification by membership.\<close>

definition only_in :: "('a \<Rightarrow> string) \<Rightarrow> 'a list \<Rightarrow> 'a list \<Rightarrow> 'a list" where
  "only_in key xs ys = filter (\<lambda>x. key x \<notin> key ` set ys) xs"

definition change_of :: "('a \<Rightarrow> string) \<Rightarrow> ('a \<Rightarrow> 'a \<Rightarrow> 'c option result) \<Rightarrow> 'a list \<Rightarrow> 'a \<Rightarrow> 'c list" where
  "change_of key pair ts f =
     (case List.find (\<lambda>t. key t = key f) ts of
        None \<Rightarrow> []
      | Some t \<Rightarrow> (case pair f t of Inr (Some c) \<Rightarrow> [c] | _ \<Rightarrow> []))"

definition changes :: "('a \<Rightarrow> string) \<Rightarrow> ('a \<Rightarrow> 'a \<Rightarrow> 'c option result) \<Rightarrow> 'a list \<Rightarrow> 'a list \<Rightarrow> 'c list" where
  "changes key pair fs ts = concat (map (change_of key pair ts) fs)"

lemma ordered_distinct_keys: "ordered_by key xs \<Longrightarrow> distinct (map key xs)"
  by (induction xs) auto

lemma change_of_absent: "key f \<notin> key ` set ts \<Longrightarrow> change_of key pair ts f = []"
proof -
  assume "key f \<notin> key ` set ts"
  then have "List.find (\<lambda>t. key t = key f) ts = None" by (induction ts) auto
  then show ?thesis by (simp add: change_of_def)
qed

lemma change_of_Cons:
  "key t \<noteq> key f \<Longrightarrow> change_of key pair (t # ts) f = change_of key pair ts f"
  by (simp add: change_of_def)

lemma changes_Nil [simp]: "changes key pair [] ts = []" "changes key pair fs [] = []"
  by (simp_all add: changes_def change_of_def)

lemma changes_skip:
  "(\<And>f. f \<in> set fs \<Longrightarrow> key t \<noteq> key f) \<Longrightarrow> changes key pair fs (t # ts) = changes key pair fs ts"
  unfolding changes_def by (intro arg_cong [where f = concat] map_cong) (auto simp: change_of_Cons)

lemma merge_diff_spec:
  assumes "ordered_by key fs" and "ordered_by key ts" and "merge_diff key pair fs ts = Inr (a, r, c)"
  shows "a = only_in key ts fs \<and> r = only_in key fs ts \<and> c = changes key pair fs ts \<and>
         (\<forall>f \<in> set fs. \<forall>t \<in> set ts. key f = key t \<longrightarrow> is_ok (pair f t))"
  using assms
proof (induction key pair fs ts arbitrary: a r c rule: merge_diff.induct)
  case (1 key pair)
  then show ?case by (simp add: only_in_def)
next
  case (2 key pair t ts)
  then show ?case by (fastforce simp: only_in_def)
next
  case (3 key pair f fs)
  then show ?case by (fastforce simp: only_in_def)
next
  case (4 key pair f fs t ts)
  consider "key f < key t" | "key t < key f" | "key f = key t" by fastforce
  then show ?case
  proof cases
    case 1
    then obtain r' where m: "merge_diff key pair fs (t # ts) = Inr (a, r', c)" "r = f # r'" using 4 by auto
    have ne: "key f \<noteq> key x" if "x \<in> set (t # ts)" for x using that "4.prems"(2) 1 by force
    then have "key f \<notin> key ` set (t # ts)" by blast
    moreover have "a = only_in key (t # ts) fs \<and> r' = only_in key fs (t # ts) \<and> c = changes key pair fs (t # ts) \<and>
        (\<forall>f \<in> set fs. \<forall>t \<in> set (t # ts). key f = key t \<longrightarrow> is_ok (pair f t))"
      using "4.IH"(1) [OF 1 _ _ m(1)] "4.prems" by simp
    moreover have "only_in key (t # ts) (f # fs) = only_in key (t # ts) fs"
      unfolding only_in_def by (intro filter_cong) (use ne in \<open>auto dest: sym\<close>)
    ultimately show ?thesis using m(2) ne change_of_absent [of key f "t # ts" pair]
      by (auto simp: only_in_def changes_def)
  next
    case 2
    then have nl: "\<not> key f < key t" by (rule less_not_sym)
    then obtain a' where m: "merge_diff key pair (f # fs) ts = Inr (a', r, c)" "a = t # a'"
      using 2 "4.prems"(3) by auto
    have ne: "key t \<noteq> key x" if "x \<in> set (f # fs)" for x using that "4.prems"(1) 2 by force
    have "a' = only_in key ts (f # fs) \<and> r = only_in key (f # fs) ts \<and> c = changes key pair (f # fs) ts \<and>
        (\<forall>f \<in> set (f # fs). \<forall>t \<in> set ts. key f = key t \<longrightarrow> is_ok (pair f t))"
      using "4.IH"(2) [OF nl 2 _ _ m(1)] "4.prems" by simp
    moreover have "only_in key (f # fs) (t # ts) = only_in key (f # fs) ts"
      unfolding only_in_def by (intro filter_cong) (use ne in \<open>auto dest: sym\<close>)
    moreover have "key t \<notin> key ` set (f # fs)" using ne by blast
    moreover have "\<forall>f \<in> set (f # fs). \<forall>t \<in> set (t # ts). key f = key t \<longrightarrow> is_ok (pair f t)"
      using calculation(1) ne by fastforce
    ultimately show ?thesis using m(2) changes_skip [of "f # fs" key t pair ts] ne by (simp add: only_in_def)
  next
    case 3
    then obtain ch c' where m: "pair f t = Inr ch" "merge_diff key pair fs ts = Inr (a, r, c')"
        "c = (case ch of None \<Rightarrow> c' | Some x \<Rightarrow> x # c')"
      using 4 by (auto split: option.splits)
    have nt: "key t \<noteq> key x" if "x \<in> set fs" for x using that "4.prems"(1) 3 by force
    have nf: "key f \<noteq> key x" if "x \<in> set ts" for x using that "4.prems"(2) 3 by force
    have IH: "a = only_in key ts fs \<and> r = only_in key fs ts \<and> c' = changes key pair fs ts \<and>
        (\<forall>f \<in> set fs. \<forall>t \<in> set ts. key f = key t \<longrightarrow> is_ok (pair f t))"
      using "4.IH"(3) [OF _ _ m(1) _ _ m(2)] "4.prems" 3 by simp
    have "only_in key (t # ts) (f # fs) = only_in key ts fs"
      using 3 nf by (auto simp: only_in_def intro!: filter_cong dest: sym)
    moreover have "only_in key (f # fs) (t # ts) = only_in key fs ts"
      using 3 nt by (auto simp: only_in_def intro!: filter_cong dest: sym)
    moreover have "change_of key pair (t # ts) f = (case ch of None \<Rightarrow> [] | Some x \<Rightarrow> [x])"
      using 3 m(1) by (simp add: change_of_def split: option.split)
    then have "changes key pair (f # fs) (t # ts) = c"
      using m(3) IH changes_skip [of fs key t pair ts] nt by (auto simp: changes_def split: option.split)
    moreover have "\<forall>f \<in> set (f # fs). \<forall>t \<in> set (t # ts). key f = key t \<longrightarrow> is_ok (pair f t)"
      using IH nt nf m(1) by fastforce
    ultimately show ?thesis using IH by simp
  qed
qed

lemma merge_diff_total:
  assumes "\<And>f t. f \<in> set fs \<Longrightarrow> t \<in> set ts \<Longrightarrow> key f = key t \<Longrightarrow> is_ok (pair f t)"
  shows "is_ok (merge_diff key pair fs ts)"
  using assms
proof (induction key pair fs ts rule: merge_diff.induct)
  case (4 key pair f fs t ts)
  consider "key f < key t" | "key t < key f" | "key f = key t" by fastforce
  then show ?case
  proof cases
    case 1
    then show ?thesis using "4.IH"(1) "4.prems" by (fastforce simp: is_ok_iff)
  next
    case 2
    then have nl: "\<not> key f < key t" by (rule less_not_sym)
    then have "is_ok (merge_diff key pair (f # fs) ts)" using "4.IH"(2) [OF nl 2] "4.prems" by simp
    then show ?thesis using 2 nl by (auto simp: is_ok_iff)
  next
    case 3
    then obtain ch where ch: "pair f t = Inr ch" using "4.prems" [of f t] by (auto simp: is_ok_iff)
    have "is_ok (merge_diff key pair fs ts)" using "4.IH"(3) [OF _ _ ch] 3 "4.prems" by simp
    then show ?thesis using 3 ch by (auto simp: is_ok_iff)
  qed
qed (fastforce simp: is_ok_iff)+

lemma merge_diff_failure:
  "merge_diff key pair fs ts = Inl e \<Longrightarrow> \<exists>f \<in> set fs. \<exists>t \<in> set ts. key f = key t \<and> pair f t = Inl e"
proof (induction key pair fs ts rule: merge_diff.induct)
  case (4 key pair f fs t ts)
  consider "key f < key t" | "key t < key f" | "key f = key t" by fastforce
  then show ?case
  proof cases
    case 1
    then have "merge_diff key pair fs (t # ts) = Inl e" using "4.prems" by (auto simp: bind_r_Inl_iff)
    then show ?thesis using "4.IH"(1) [OF 1] by auto
  next
    case 2
    then have nl: "\<not> key f < key t" by (rule less_not_sym)
    then have "merge_diff key pair (f # fs) ts = Inl e" using "4.prems" 2 by (auto simp: bind_r_Inl_iff)
    then show ?thesis using "4.IH"(2) [OF nl 2] by auto
  next
    case 3
    then have "pair f t = Inl e \<or> (\<exists>ch. pair f t = Inr ch \<and> merge_diff key pair fs ts = Inl e)"
      using "4.prems" by (auto simp: bind_r_Inl_iff)
    then show ?thesis using "4.IH"(3) 3 by auto
  qed
qed (auto simp: bind_r_Inl_iff)

lemma ordered_filter: "ordered_by key xs \<Longrightarrow> ordered_by key (filter P xs)"
  by (rule sorted_wrt_filter)


section \<open>What the classification says\<close>

lemma find_key:
  "ordered_by key ts \<Longrightarrow> t \<in> set ts \<Longrightarrow> List.find (\<lambda>x. key x = key t) ts = Some t"
proof (induction ts)
  case (Cons x xs)
  then show ?case by (cases "t = x") force+
qed simp

lemma change_of_pair:
  "ordered_by key ts \<Longrightarrow> t \<in> set ts \<Longrightarrow> key f = key t \<Longrightarrow>
     change_of key pair ts f = (case pair f t of Inr (Some c) \<Rightarrow> [c] | _ \<Rightarrow> [])"
  by (simp add: change_of_def find_key)

text \<open>Each change carries the key of the pair it comes from.\<close>

lemma changes_keys:
  assumes "\<And>f t c. f \<in> set fs \<Longrightarrow> pair f t = Inr (Some c) \<Longrightarrow> ck c = key f"
  shows "map ck (changes key pair fs ts) = map key (filter (\<lambda>f. change_of key pair ts f \<noteq> []) fs)"
proof -
  have "map ck (change_of key pair ts f) = (if change_of key pair ts f \<noteq> [] then [key f] else [])"
    if "f \<in> set fs" for f
    using assms that by (auto simp: change_of_def split: option.splits sum.splits)
  then show ?thesis
    unfolding changes_def by (induction fs) (auto simp: map_concat)
qed

lemma change_of_nonempty:
  "change_of key pair ts f \<noteq> [] \<Longrightarrow> key f \<in> key ` set ts"
  using change_of_absent by metis

lemma find_change:
  assumes ck: "\<And>f t c. f \<in> set fs \<Longrightarrow> pair f t = Inr (Some c) \<Longrightarrow> ck c = key f"
    and fs: "ordered_by key fs" and f: "f \<in> set fs"
  shows "List.find (\<lambda>c. ck c = key f) (changes key pair fs ts) =
           (case change_of key pair ts f of [] \<Rightarrow> None | c # _ \<Rightarrow> Some c)"
  using assms
proof (induction fs)
  case (Cons x xs)
  have one: "change_of key pair ts y = [] \<or> (\<exists>c. change_of key pair ts y = [c] \<and> ck c = key y)" if "y \<in> set (x # xs)" for y
    using Cons.prems(1) that by (auto simp: change_of_def split: option.splits sum.splits)
  have none: "List.find (\<lambda>c. ck c = key x) (changes key pair xs ts) = None" if "f = x"
  proof -
    have "ck c \<noteq> key x" if "c \<in> set (changes key pair xs ts)" for c
    proof -
      have "ck c \<in> set (map ck (changes key pair xs ts))" using that by simp
      also have "map ck (changes key pair xs ts) = map key (filter (\<lambda>f. change_of key pair ts f \<noteq> []) xs)"
        using Cons.prems(1) by (intro changes_keys) auto
      finally show ?thesis using Cons.prems(2) by auto
    qed
    then show ?thesis by (simp add: find_None_iff)
  qed
  show ?case
  proof (cases "f = x")
    case True
    then show ?thesis using one [of x] none by (auto simp: changes_def)
  next
    case False
    then have fx: "f \<in> set xs" "key x \<noteq> key f" using Cons.prems by auto
    have "List.find (\<lambda>c. ck c = key f) (changes key pair (x # xs) ts) =
        List.find (\<lambda>c. ck c = key f) (changes key pair xs ts)"
      using one [of x] fx(2) by (auto simp: changes_def)
    then show ?thesis using Cons.IH Cons.prems fx(1) by simp
  qed
qed simp

text \<open>
  Rebuilding one side from the other: drop what was removed, update what is common, add what is new.
\<close>

definition rebuild :: "('a \<Rightarrow> string) \<Rightarrow> ('a \<Rightarrow> 'a) \<Rightarrow> 'a list \<Rightarrow> 'a list \<Rightarrow> 'a list \<Rightarrow> 'a list" where
  "rebuild key upd added removed fs =
     sort_key key (map upd (filter (\<lambda>f. key f \<notin> key ` set removed) fs) @ added)"

lemma rebuild_view:
  assumes fs: "ordered_by key fs" and ts: "ordered_by key ts"
    and upd: "\<And>f. key (upd f) = key f"
    and same: "\<And>f t. f \<in> set fs \<Longrightarrow> t \<in> set ts \<Longrightarrow> key f = key t \<Longrightarrow> view (upd f) = view t"
  shows "map view (rebuild key upd (only_in key ts fs) (only_in key fs ts) fs) = map view ts"
proof -
  let ?kept = "filter (\<lambda>f. key f \<in> key ` set ts) fs"
  let ?X = "map upd ?kept @ only_in key ts fs"
  let ?R = "sort_key key ?X"
  have kept: "filter (\<lambda>f. key f \<notin> key ` set (only_in key fs ts)) fs = ?kept"
    using ordered_distinct_keys [OF fs]
    by (intro filter_cong) (auto simp: only_in_def distinct_map inj_on_def)
  have keysX: "map key ?X = map key ?kept @ map key (only_in key ts fs)" using upd by (simp add: comp_def)
  have "distinct (map key ?X)"
    using ordered_distinct_keys [OF ordered_filter [OF fs]] ordered_distinct_keys [OF ordered_filter [OF ts]]
    unfolding keysX by (auto simp: only_in_def) (metis image_eqI)
  moreover have "set (map key ?X) = set (map key ts)"
  proof -
    have "key t \<in> key ` set ?kept \<union> key ` set (only_in key ts fs)" if t: "t \<in> set ts" for t
    proof (cases "key t \<in> key ` set fs")
      case True
      then obtain f where "f \<in> set fs" "key f = key t" by auto
      then have "f \<in> set ?kept" "key f = key t" using t by auto
      then show ?thesis by (metis UnI1 image_eqI)
    next
      case False
      then show ?thesis using t by (auto simp: only_in_def)
    qed
    then show ?thesis unfolding keysX by (auto simp: only_in_def)
  qed
  moreover have "sorted (map key ts)"
    using ts by (induction ts) (auto simp: less_imp_le)
  moreover have m: "mset (map key ?R) = mset (map key ?X)" by (simp only: mset_map mset_sort)
  then have "distinct (map key ?R) \<longleftrightarrow> distinct (map key ?X)" "set (map key ?R) = set (map key ?X)"
    by (rule mset_eq_imp_distinct_iff, rule mset_eq_setD)
  ultimately have keys: "map key ?R = map key ts"
    using ordered_distinct_keys [OF ts] by (intro sorted_distinct_set_unique) simp_all
  have len: "length ?R = length ts" using arg_cong [OF keys, of length] by (simp only: length_map)
  have nth: "view (?R ! i) = view (ts ! i)" if i: "i < length ts" for i
  proof -
    from len have k: "key (?R ! i) = key (ts ! i)" using keys i by (metis nth_map)
    have "?R ! i \<in> set ?X" using len i by (metis nth_mem set_sort)
    then consider f where "f \<in> set fs" "?R ! i = upd f" | "?R ! i \<in> set ts" by (auto simp: only_in_def)
    then show ?thesis
    proof cases
      case (1 f)
      then show ?thesis using same [of f "ts ! i"] k upd i by simp
    next
      case 2
      then have "?R ! i = ts ! i"
        using k i ordered_distinct_keys [OF ts] by (auto simp: distinct_map inj_on_def)
      then show ?thesis by simp
    qed
  qed
  have "map view ?R = map view ts"
    by (rule nth_equalityI) (simp_all only: length_map len nth_map nth)
  then show ?thesis unfolding rebuild_def kept .
qed

lemma ordered_sort: "ordered_by key xs \<Longrightarrow> sort_key key xs = xs"
proof -
  assume "ordered_by key xs"
  then have "sorted (map key xs)" by (induction xs) (auto simp: less_imp_le)
  then show ?thesis by (rule sort_key_id_if_sorted)
qed

lemma merge_diff_same:
  "list_all2 (\<lambda>f t. key f = key t \<and> pair f t = Inr None) fs ts \<Longrightarrow> merge_diff key pair fs ts = Inr ([], [], [])"
  by (induction rule: list_all2_induct) auto

end
