(* ===== verification/FactDelta.thy ===== *)
theory FactDelta
  imports EngineeringIR MergeDiff
begin

text \<open>
  \<open>buildFactDelta\<close> of \<^verbatim>\<open>src/src/compiler/ir/build-fact-delta.ts\<close> and the delta records of
  \<^verbatim>\<open>src/src/semantics/engineering-ir/delta-types.ts\<close>. The SHA-256 of \<open>node:crypto\<close> is the parameter
  \<open>digest\<close> (from text to its hexadecimal digest). \<open>structuredClone\<close> and \<open>deepFreeze\<close> change identity
  and mutability of values and not the values themselves.
\<close>

section \<open>Records\<close>

datatype update_field = ConfidenceField | EvidenceField

record fact_delta_endpoint =
  ep_transactionId :: string
  ep_inputRevision :: string
  ep_semanticRevision :: string

record fact_delta_endpoint_context =
  ctx_transactionId :: string
  ctx_inputRevision :: string
  ctx_semanticRevision :: string
  ctx_ir :: engineering_ir

record fact_assertion_update =
  up_assertionId :: string
  up_changedFields :: "update_field list"
  up_beforeConfidence :: js_number
  up_beforeEvidence :: "evidence_reference list"
  up_afterConfidence :: js_number
  up_afterEvidence :: "evidence_reference list"

record semantic_fact_change =
  ch_factId :: string
  ch_addedAssertions :: "fact_assertion list"
  ch_removedAssertions :: "fact_assertion list"
  ch_updatedAssertions :: "fact_assertion_update list"

record fact_delta =
  dl_graphId :: string
  dl_appId :: string
  dl_from :: fact_delta_endpoint
  dl_to :: fact_delta_endpoint
  dl_fromFactSetDigest :: string
  dl_toFactSetDigest :: string
  dl_added :: "semantic_fact list"
  dl_removed :: "semantic_fact list"
  dl_changed :: "semantic_fact_change list"
  dl_deltaRevision :: string

section \<open>Admission of the endpoints\<close>

definition endpoint :: "fact_delta_endpoint_context \<Rightarrow> fact_delta_endpoint" where
  "endpoint context =
     \<lparr>ep_transactionId = ctx_transactionId context, ep_inputRevision = ctx_inputRevision context,
      ep_semanticRevision = ctx_semanticRevision context\<rparr>"

definition assertEndpoint :: "fact_delta_endpoint_context \<Rightarrow> string \<Rightarrow> unit result" where
  "assertEndpoint context side =
     throw_if (trim (ctx_transactionId context) = [] \<or> trim (ctx_inputRevision context) = [] \<or>
         trim (ctx_semanticRevision context) = [] \<or>
         ctx_inputRevision context \<noteq> inputRevision (ctx_ir context) \<or>
         ctx_semanticRevision context \<noteq> semanticRevision (ctx_ir context))
       (CodedFailure ''FACT-DELTA-001'' [side])"

text \<open>The format version is the same constant on both sides.\<close>

definition assertCompatibleLineage ::
    "fact_delta_endpoint_context \<Rightarrow> fact_delta_endpoint_context \<Rightarrow> unit result" where
  "assertCompatibleLineage from to =
     throw_if (graphId (ctx_ir from) \<noteq> graphId (ctx_ir to) \<or> appId (ctx_ir from) \<noteq> appId (ctx_ir to))
       (CodedFailure ''FACT-DELTA-002'' [])"

definition semanticPayload :: "fact_delta_endpoint_context \<Rightarrow> string" where
  "semanticPayload context =
     (let ir = ctx_ir context
      in semanticRevisionPayload (graphId ir) (appId ir) (entities ir) (facts ir) (scenarios ir))"

definition assertSameRevisionInvariant ::
    "fact_delta_endpoint_context \<Rightarrow> fact_delta_endpoint_context \<Rightarrow> unit result" where
  "assertSameRevisionInvariant from to =
     throw_if (ctx_semanticRevision from = ctx_semanticRevision to \<and> semanticPayload from \<noteq> semanticPayload to)
       (CodedFailure ''FACT-DELTA-003'' [])"

definition assertSupportedValidity :: "fact_delta_endpoint_context \<Rightarrow> string \<Rightarrow> unit result" where
  "assertSupportedValidity context side =
     check_all (\<lambda>f. check_all (\<lambda>a.
         throw_if (as_validToRevision a \<noteq> None) (CodedFailure ''FACT-DELTA-006'' [side, fact_id f, as_id a]))
       (fact_assertions f)) (facts (ctx_ir context))"

definition factSetDigest :: "(string \<Rightarrow> string) \<Rightarrow> fact_delta_endpoint_context \<Rightarrow> string" where
  "factSetDigest digest context =
     (let ir = ctx_ir context in
      ''sha256:'' @ digest (stringify (JObject [
        (''domain'', JString ''engineering-ir-fact-set-v1''), (''formatVersion'', JString ENGINEERING_IR_FORMAT_VERSION),
        (''graphId'', JString (graphId ir)), (''appId'', JString (appId ir)),
        (''facts'', JArray (map canonicalFact (facts ir)))])))"

section \<open>The difference\<close>

definition sameTriple :: "semantic_fact \<Rightarrow> semantic_fact \<Rightarrow> bool" where
  "sameTriple before after =
     (fact_subject before = fact_subject after \<and> fact_predicate before = fact_predicate after \<and>
      stringify (fact_object_json (fact_object before)) = stringify (fact_object_json (fact_object after)))"

definition provenance_text :: "fact_assertion \<Rightarrow> string" where
  "provenance_text a = stringify (JArray (map provenance_json (as_provenance a)))"

definition evidence_text :: "evidence_reference list \<Rightarrow> string" where
  "evidence_text evidence = stringify (JArray (map evidence_json evidence))"

definition sameAssertionIdentity :: "fact_assertion \<Rightarrow> fact_assertion \<Rightarrow> bool" where
  "sameAssertionIdentity before after =
     (as_authority before = as_authority after \<and> provenance_text before = provenance_text after)"

definition changed_fields ::
    "js_number \<Rightarrow> evidence_reference list \<Rightarrow> js_number \<Rightarrow> evidence_reference list \<Rightarrow> update_field list" where
  "changed_fields c ev c' ev' =
     (if number_differs c c' then [ConfidenceField] else []) @
     (if evidence_text ev \<noteq> evidence_text ev' then [EvidenceField] else [])"

definition assertionUpdate :: "fact_assertion \<Rightarrow> fact_assertion \<Rightarrow> fact_assertion_update option" where
  "assertionUpdate before after =
     (let changedFields = changed_fields (as_confidence before) (as_evidence before) (as_confidence after) (as_evidence after)
      in if changedFields = [] then None
         else Some \<lparr>up_assertionId = as_id before, up_changedFields = changedFields,
                up_beforeConfidence = as_confidence before, up_beforeEvidence = as_evidence before,
                up_afterConfidence = as_confidence after, up_afterEvidence = as_evidence after\<rparr>)"

definition diff_assertion_pair ::
    "string \<Rightarrow> fact_assertion \<Rightarrow> fact_assertion \<Rightarrow> fact_assertion_update option result" where
  "diff_assertion_pair factId before after =
     (if \<not> sameAssertionIdentity before after
      then throw (CodedFailure ''FACT-DELTA-005'' [factId, as_id before])
      else Inr (assertionUpdate before after))"

definition diffAssertions :: "semantic_fact \<Rightarrow> semantic_fact \<Rightarrow> semantic_fact_change option result" where
  "diffAssertions before after =
     bind_r (merge_diff as_id (diff_assertion_pair (fact_id before)) (fact_assertions before) (fact_assertions after))
       (\<lambda>(added, removed, updated).
          if added = [] \<and> removed = [] \<and> updated = [] then Inr None
          else Inr (Some \<lparr>ch_factId = fact_id before, ch_addedAssertions = added,
                 ch_removedAssertions = removed, ch_updatedAssertions = updated\<rparr>))"

definition diff_fact_pair :: "semantic_fact \<Rightarrow> semantic_fact \<Rightarrow> semantic_fact_change option result" where
  "diff_fact_pair before after =
     (if \<not> sameTriple before after then throw (CodedFailure ''FACT-DELTA-004'' [fact_id before])
      else diffAssertions before after)"

definition diffFacts ::
    "semantic_fact list \<Rightarrow> semantic_fact list \<Rightarrow>
     (semantic_fact list \<times> semantic_fact list \<times> semantic_fact_change list) result" where
  "diffFacts before after = merge_diff fact_id diff_fact_pair before after"

section \<open>Output invariants\<close>

fun assertSortedUnique :: "string list \<Rightarrow> string \<Rightarrow> unit result" where
  "assertSortedUnique (previous # i # rest) collection =
     (if previous \<ge> i then throw (CodedFailure ''FACT-DELTA-007'' [collection])
      else assertSortedUnique (i # rest) collection)"
| "assertSortedUnique _ collection = Inr ()"

text \<open>The loops over \<open>seen\<close> ids: the first id met twice is reported.\<close>

fun assert_disjoint :: "string list \<Rightarrow> string list \<Rightarrow> unit result" where
  "assert_disjoint seen [] = Inr ()"
| "assert_disjoint seen (i # ids) =
     (if i \<in> set seen then throw (CodedFailure ''FACT-DELTA-007'' [i]) else assert_disjoint (seen @ [i]) ids)"

definition assert_change :: "semantic_fact_change \<Rightarrow> unit result" where
  "assert_change change =
     bind_r (assertSortedUnique (map as_id (ch_addedAssertions change)) ''addedAssertions'') (\<lambda>_.
     bind_r (assertSortedUnique (map as_id (ch_removedAssertions change)) ''removedAssertions'') (\<lambda>_.
     bind_r (assertSortedUnique (map up_assertionId (ch_updatedAssertions change)) ''updatedAssertions'') (\<lambda>_.
     bind_r (assert_disjoint [] (map as_id (ch_addedAssertions change) @ map as_id (ch_removedAssertions change) @
               map up_assertionId (ch_updatedAssertions change))) (\<lambda>_.
       check_all (\<lambda>update.
         throw_if (up_changedFields update \<noteq>
             changed_fields (up_beforeConfidence update) (up_beforeEvidence update)
               (up_afterConfidence update) (up_afterEvidence update))
           (CodedFailure ''FACT-DELTA-007'' [up_assertionId update])) (ch_updatedAssertions change)))))"

definition assertOutputInvariants ::
    "semantic_fact list \<Rightarrow> semantic_fact list \<Rightarrow> semantic_fact_change list \<Rightarrow> unit result" where
  "assertOutputInvariants added removed changed =
     bind_r (assertSortedUnique (map fact_id added) ''added'') (\<lambda>_.
     bind_r (assertSortedUnique (map fact_id removed) ''removed'') (\<lambda>_.
     bind_r (assertSortedUnique (map ch_factId changed) ''changed'') (\<lambda>_.
     bind_r (assert_disjoint [] (map fact_id added @ map fact_id removed @ map ch_factId changed)) (\<lambda>_.
       check_all assert_change changed))))"

section \<open>The delta\<close>

fun update_field_name :: "update_field \<Rightarrow> string" where
  "update_field_name ConfidenceField = ''confidence''"
| "update_field_name EvidenceField = ''evidence''"

definition update_json :: "fact_assertion_update \<Rightarrow> json" where
  "update_json u =
     JObject [(''assertionId'', JString (up_assertionId u)),
       (''changedFields'', JArray (map (\<lambda>f. JString (update_field_name f)) (up_changedFields u))),
       (''before'', JObject [(''confidence'', JNumber (up_beforeConfidence u)),
          (''evidence'', JArray (map evidence_json (up_beforeEvidence u)))]),
       (''after'', JObject [(''confidence'', JNumber (up_afterConfidence u)),
          (''evidence'', JArray (map evidence_json (up_afterEvidence u)))])]"

definition change_json :: "semantic_fact_change \<Rightarrow> json" where
  "change_json c =
     JObject [(''factId'', JString (ch_factId c)),
       (''addedAssertions'', JArray (map canonicalAssertion (ch_addedAssertions c))),
       (''removedAssertions'', JArray (map canonicalAssertion (ch_removedAssertions c))),
       (''updatedAssertions'', JArray (map update_json (ch_updatedAssertions c)))]"

definition deltaDigestPayload :: "fact_delta \<Rightarrow> string" where
  "deltaDigestPayload delta =
     stringify (JObject [
       (''domain'', JString ''engineering-ir-fact-delta-v1''), (''contractVersion'', JString ''1''),
       (''scope'', JString ''fact-set''), (''formatVersion'', JString ENGINEERING_IR_FORMAT_VERSION),
       (''graphId'', JString (dl_graphId delta)), (''appId'', JString (dl_appId delta)),
       (''from'', JObject [(''semanticRevision'', JString (ep_semanticRevision (dl_from delta)))]),
       (''to'', JObject [(''semanticRevision'', JString (ep_semanticRevision (dl_to delta)))]),
       (''fromFactSetDigest'', JString (dl_fromFactSetDigest delta)),
       (''toFactSetDigest'', JString (dl_toFactSetDigest delta)),
       (''added'', JArray (map canonicalFact (dl_added delta))),
       (''removed'', JArray (map canonicalFact (dl_removed delta))),
       (''changed'', JArray (map change_json (dl_changed delta)))])"

definition buildFactDelta ::
    "(string \<Rightarrow> string) \<Rightarrow> fact_delta_endpoint_context \<Rightarrow> fact_delta_endpoint_context \<Rightarrow> fact_delta result" where
  "buildFactDelta digest from to =
     bind_r (assertEndpoint from ''from'') (\<lambda>_.
     bind_r (assertEndpoint to ''to'') (\<lambda>_.
     bind_r (assertCompatibleLineage from to) (\<lambda>_.
     bind_r (assertSameRevisionInvariant from to) (\<lambda>_.
     bind_r (assertSupportedValidity from ''from'') (\<lambda>_.
     bind_r (assertSupportedValidity to ''to'') (\<lambda>_.
     bind_r (diffFacts (facts (ctx_ir from)) (facts (ctx_ir to))) (\<lambda>(added, removed, changed).
     bind_r (assertOutputInvariants added removed changed) (\<lambda>_.
       let delta = \<lparr>dl_graphId = graphId (ctx_ir from), dl_appId = appId (ctx_ir from),
             dl_from = endpoint from, dl_to = endpoint to,
             dl_fromFactSetDigest = factSetDigest digest from, dl_toFactSetDigest = factSetDigest digest to,
             dl_added = added, dl_removed = removed, dl_changed = changed, dl_deltaRevision = []\<rparr>
       in Inr (delta\<lparr>dl_deltaRevision := ''sha256:'' @ digest (deltaDigestPayload delta)\<rparr>)))))))))"


section \<open>Views\<close>

text \<open>What a delta distinguishes: everything but the validity revisions, compared as the code does.\<close>

definition confidence_view :: "js_number \<Rightarrow> rat + js_number" where
  "confidence_view n = (case number_value n of Some q \<Rightarrow> Inl q | None \<Rightarrow> Inr n)"

definition assertion_view :: "fact_assertion \<Rightarrow> string \<times> semantic_authority \<times> string \<times> (rat + js_number) \<times> string" where
  "assertion_view a =
     (as_id a, as_authority a, provenance_text a, confidence_view (as_confidence a), evidence_text (as_evidence a))"

definition fact_view ::
    "semantic_fact \<Rightarrow> string \<times> string \<times> semantic_predicate \<times> string \<times>
       (string \<times> semantic_authority \<times> string \<times> (rat + js_number) \<times> string) list" where
  "fact_view f =
     (fact_id f, fact_subject f, fact_predicate f, stringify (fact_object_json (fact_object f)),
      map assertion_view (fact_assertions f))"

text \<open>Applying a delta.\<close>

definition apply_update :: "fact_assertion_update list \<Rightarrow> fact_assertion \<Rightarrow> fact_assertion" where
  "apply_update updates a =
     (case List.find (\<lambda>u. up_assertionId u = as_id a) updates of
        None \<Rightarrow> a
      | Some u \<Rightarrow> a\<lparr>as_confidence := up_afterConfidence u, as_evidence := up_afterEvidence u\<rparr>)"

definition apply_change :: "semantic_fact_change list \<Rightarrow> semantic_fact \<Rightarrow> semantic_fact" where
  "apply_change cs f =
     (case List.find (\<lambda>c. ch_factId c = fact_id f) cs of
        None \<Rightarrow> f
      | Some c \<Rightarrow> f\<lparr>fact_assertions := rebuild as_id (apply_update (ch_updatedAssertions c))
          (ch_addedAssertions c) (ch_removedAssertions c) (fact_assertions f)\<rparr>)"

definition apply_fact_delta ::
    "semantic_fact list \<Rightarrow> semantic_fact list \<Rightarrow> semantic_fact list \<Rightarrow> semantic_fact_change list \<Rightarrow> semantic_fact list" where
  "apply_fact_delta before added removed changed =
     rebuild fact_id (apply_change changed) added removed before"

text \<open>The order every validated snapshot has.\<close>

definition facts_ordered :: "semantic_fact list \<Rightarrow> bool" where
  "facts_ordered fs \<longleftrightarrow> ordered_by fact_id fs \<and> (\<forall>f \<in> set fs. ordered_by as_id (fact_assertions f))"

section \<open>Assertions\<close>

lemma same_confidence: "\<not> number_differs a b \<Longrightarrow> confidence_view a = confidence_view b"
  by (auto simp: number_differs_def confidence_view_def split: option.splits)

lemma confidence_self: "c \<noteq> NaN \<Longrightarrow> \<not> number_differs c c"
  by (auto simp: number_differs_def split: option.splits)

lemma assertion_pair_key:
  "diff_assertion_pair i f t = Inr (Some u) \<Longrightarrow> up_assertionId u = as_id f"
  by (auto simp: diff_assertion_pair_def assertionUpdate_def Let_def throw_def split: if_splits)

lemma diffAssertions_Inr:
  assumes "ordered_by as_id (fact_assertions f)" and "ordered_by as_id (fact_assertions t)"
    and "diffAssertions f t = Inr ch"
  defines "pair \<equiv> diff_assertion_pair (fact_id f)"
  shows "\<forall>a \<in> set (fact_assertions f). \<forall>b \<in> set (fact_assertions t). as_id a = as_id b \<longrightarrow> is_ok (pair a b)"
    and "ch = (let added = only_in as_id (fact_assertions t) (fact_assertions f);
                   removed = only_in as_id (fact_assertions f) (fact_assertions t);
                   updated = changes as_id pair (fact_assertions f) (fact_assertions t)
               in if added = [] \<and> removed = [] \<and> updated = [] then None
                  else Some \<lparr>ch_factId = fact_id f, ch_addedAssertions = added,
                    ch_removedAssertions = removed, ch_updatedAssertions = updated\<rparr>)"
proof -
  obtain a r u where m: "merge_diff as_id pair (fact_assertions f) (fact_assertions t) = Inr (a, r, u)"
    and ch: "ch = (if a = [] \<and> r = [] \<and> u = [] then None
        else Some \<lparr>ch_factId = fact_id f, ch_addedAssertions = a, ch_removedAssertions = r, ch_updatedAssertions = u\<rparr>)"
    using assms(3) by (auto simp: diffAssertions_def pair_def split: if_splits)
  note spec = merge_diff_spec [OF assms(1,2) m]
  show "\<forall>a \<in> set (fact_assertions f). \<forall>b \<in> set (fact_assertions t). as_id a = as_id b \<longrightarrow> is_ok (pair a b)"
    using spec by blast
  show "ch = (let added = only_in as_id (fact_assertions t) (fact_assertions f);
                   removed = only_in as_id (fact_assertions f) (fact_assertions t);
                   updated = changes as_id pair (fact_assertions f) (fact_assertions t)
               in if added = [] \<and> removed = [] \<and> updated = [] then None
                  else Some \<lparr>ch_factId = fact_id f, ch_addedAssertions = added,
                    ch_removedAssertions = removed, ch_updatedAssertions = updated\<rparr>)"
    using spec ch by (simp add: Let_def)
qed

lemma apply_update_id [simp]: "as_id (apply_update us a) = as_id a"
  by (simp add: apply_update_def split: option.split)

lemma apply_update_view:
  assumes fs: "ordered_by as_id fs" and ts: "ordered_by as_id ts"
    and a: "a \<in> set fs" and b: "b \<in> set ts" and k: "as_id a = as_id b"
    and ok: "is_ok (diff_assertion_pair i a b)"
  shows "assertion_view (apply_update (changes as_id (diff_assertion_pair i) fs ts) a) = assertion_view b"
proof -
  let ?pair = "diff_assertion_pair i"
  have find: "List.find (\<lambda>u. up_assertionId u = as_id a) (changes as_id ?pair fs ts) =
      (case change_of as_id ?pair ts a of [] \<Rightarrow> None | c # _ \<Rightarrow> Some c)"
    by (rule find_change [OF assertion_pair_key fs a])
  have co: "change_of as_id ?pair ts a = (case ?pair a b of Inr (Some c) \<Rightarrow> [c] | _ \<Rightarrow> [])"
    by (rule change_of_pair [OF ts b k])
  have id: "as_authority a = as_authority b" "provenance_text a = provenance_text b"
    and p: "?pair a b = Inr (assertionUpdate a b)"
    using ok by (auto simp: diff_assertion_pair_def sameAssertionIdentity_def throw_def split: if_splits)
  show ?thesis
  proof (cases "assertionUpdate a b")
    case None
    then have "\<not> number_differs (as_confidence a) (as_confidence b)"
      and "evidence_text (as_evidence a) = evidence_text (as_evidence b)"
      by (auto simp: assertionUpdate_def Let_def changed_fields_def split: if_splits)
    then show ?thesis using find co p None id k same_confidence by (simp add: apply_update_def assertion_view_def)
  next
    case (Some u)
    then have "up_afterConfidence u = as_confidence b" "up_afterEvidence u = as_evidence b"
      by (auto simp: assertionUpdate_def Let_def split: if_splits)
    then show ?thesis using find co p Some id k
      by (simp add: apply_update_def assertion_view_def provenance_text_def)
  qed
qed

section \<open>Facts\<close>

lemma fact_pair_key: "diff_fact_pair f t = Inr (Some c) \<Longrightarrow> ch_factId c = fact_id f"
  by (auto simp: diff_fact_pair_def diffAssertions_def throw_def split: if_splits)

lemma apply_change_id [simp]: "fact_id (apply_change cs f) = fact_id f"
  by (simp add: apply_change_def split: option.split)

lemma rebuilt_assertions:
  assumes "ordered_by as_id (fact_assertions f)" and "ordered_by as_id (fact_assertions t)"
    and "diffAssertions f t = Inr ch"
  shows "map assertion_view (case ch of None \<Rightarrow> fact_assertions f
       | Some c \<Rightarrow> rebuild as_id (apply_update (ch_updatedAssertions c)) (ch_addedAssertions c)
            (ch_removedAssertions c) (fact_assertions f)) = map assertion_view (fact_assertions t)"
proof -
  let ?fs = "fact_assertions f" and ?ts = "fact_assertions t" and ?pair = "diff_assertion_pair (fact_id f)"
  note D = diffAssertions_Inr [OF assms]
  have all: "map assertion_view (rebuild as_id (apply_update (changes as_id ?pair ?fs ?ts))
      (only_in as_id ?ts ?fs) (only_in as_id ?fs ?ts) ?fs) = map assertion_view ?ts"
    by (rule rebuild_view [OF assms(1,2)]) (use D(1) apply_update_view [OF assms(1,2)] in simp_all)
  show ?thesis
  proof (cases ch)
    case None
    then have e: "only_in as_id ?ts ?fs = []" "only_in as_id ?fs ?ts = []" "changes as_id ?pair ?fs ?ts = []"
      using D(2) by (auto simp: Let_def split: if_splits)
    have "apply_update [] = (\<lambda>a. a)" by (rule ext) (simp add: apply_update_def)
    then have "rebuild as_id (apply_update []) [] [] ?fs = sort_key as_id ?fs" by (simp add: rebuild_def)
    also have "\<dots> = ?fs" by (rule ordered_sort [OF assms(1)])
    finally show ?thesis using all e None by simp
  next
    case (Some c)
    then show ?thesis using all D(2) by (auto simp: Let_def split: if_splits)
  qed
qed

lemma apply_change_view:
  assumes fs: "facts_ordered fs" and ts: "facts_ordered ts"
    and f: "f \<in> set fs" and t: "t \<in> set ts" and k: "fact_id f = fact_id t"
    and ok: "is_ok (diff_fact_pair f t)"
  shows "fact_view (apply_change (changes fact_id diff_fact_pair fs ts) f) = fact_view t"
proof -
  have ofs: "ordered_by fact_id fs" and ots: "ordered_by fact_id ts" using fs ts by (auto simp: facts_ordered_def)
  have find: "List.find (\<lambda>c. ch_factId c = fact_id f) (changes fact_id diff_fact_pair fs ts) =
      (case change_of fact_id diff_fact_pair ts f of [] \<Rightarrow> None | c # _ \<Rightarrow> Some c)"
    by (rule find_change [OF fact_pair_key ofs f])
  have co: "change_of fact_id diff_fact_pair ts f = (case diff_fact_pair f t of Inr (Some c) \<Rightarrow> [c] | _ \<Rightarrow> [])"
    by (rule change_of_pair [OF ots t k])
  have tr: "sameTriple f t" using ok by (auto simp: diff_fact_pair_def throw_def split: if_splits)
  then obtain ch where ch: "diffAssertions f t = Inr ch" "diff_fact_pair f t = Inr ch"
    using ok by (auto simp: diff_fact_pair_def is_ok_iff)
  have "map assertion_view (case ch of None \<Rightarrow> fact_assertions f
       | Some c \<Rightarrow> rebuild as_id (apply_update (ch_updatedAssertions c)) (ch_addedAssertions c)
            (ch_removedAssertions c) (fact_assertions f)) = map assertion_view (fact_assertions t)"
    using fs ts f t by (intro rebuilt_assertions [OF _ _ ch(1)]) (auto simp: facts_ordered_def)
  then show ?thesis
    using find co ch(2) tr k
    by (cases ch) (simp_all add: apply_change_def fact_view_def sameTriple_def)
qed


section \<open>Output invariants hold by construction\<close>

lemma sorted_unique_ok: "sorted_wrt (<) ids \<Longrightarrow> assertSortedUnique ids c = Inr ()"
  by (induction ids c rule: assertSortedUnique.induct) auto

lemma ordered_keys: "ordered_by key xs \<Longrightarrow> sorted_wrt (<) (map key xs)"
  by (simp add: sorted_wrt_map)

lemma disjoint_ok: "distinct (seen @ ids) \<Longrightarrow> assert_disjoint seen ids = Inr ()"
  by (induction seen ids rule: assert_disjoint.induct) auto

lemma classification_distinct:
  assumes fs: "ordered_by key fs" and ts: "ordered_by key ts"
    and ck: "\<And>f t c. f \<in> set fs \<Longrightarrow> pair f t = Inr (Some c) \<Longrightarrow> ck c = key f"
  shows "distinct (map key (only_in key ts fs) @ map key (only_in key fs ts) @ map ck (changes key pair fs ts))"
    and "sorted_wrt (<) (map ck (changes key pair fs ts))"
proof -
  let ?both = "filter (\<lambda>f. change_of key pair ts f \<noteq> []) fs"
  have c: "map ck (changes key pair fs ts) = map key ?both" using ck by (rule changes_keys)
  have "key f \<in> key ` set ts" if "f \<in> set ?both" for f using that change_of_nonempty by fastforce
  then show "distinct (map key (only_in key ts fs) @ map key (only_in key fs ts) @ map ck (changes key pair fs ts))"
    unfolding c distinct_append
    using ordered_distinct_keys [OF ordered_filter [OF fs]] ordered_distinct_keys [OF ordered_filter [OF ts]]
    by (auto simp: only_in_def)
  show "sorted_wrt (<) (map ck (changes key pair fs ts))"
    unfolding c by (rule ordered_keys [OF ordered_filter [OF fs]])
qed

lemma assert_change_ok:
  assumes "ordered_by as_id (fact_assertions f)" and "ordered_by as_id (fact_assertions t)"
    and "diffAssertions f t = Inr (Some c)"
  shows "assert_change c = Inr ()"
proof -
  let ?fs = "fact_assertions f" and ?ts = "fact_assertions t" and ?pair = "diff_assertion_pair (fact_id f)"
  have c: "ch_addedAssertions c = only_in as_id ?ts ?fs" "ch_removedAssertions c = only_in as_id ?fs ?ts"
    "ch_updatedAssertions c = changes as_id ?pair ?fs ?ts"
    using diffAssertions_Inr(2) [OF assms] by (auto simp: Let_def split: if_splits)
  note cl = classification_distinct [of as_id ?fs ?ts ?pair up_assertionId, OF assms(1,2) assertion_pair_key]
  have "up_changedFields u = changed_fields (up_beforeConfidence u) (up_beforeEvidence u)
      (up_afterConfidence u) (up_afterEvidence u)" if "u \<in> set (changes as_id ?pair ?fs ?ts)" for u
    using that
    by (auto simp: changes_def change_of_def diff_assertion_pair_def assertionUpdate_def Let_def throw_def
        split: option.splits sum.splits if_splits)
  then show ?thesis
    using cl ordered_keys [OF ordered_filter [OF assms(1)]] ordered_keys [OF ordered_filter [OF assms(2)]]
    by (simp add: assert_change_def c sorted_unique_ok disjoint_ok check_all_Inr_iff only_in_def)
qed

lemma output_invariants_ok:
  assumes fs: "facts_ordered fs" and ts: "facts_ordered ts" and d: "diffFacts fs ts = Inr (a, r, c)"
  shows "assertOutputInvariants a r c = Inr ()"
proof -
  have ofs: "ordered_by fact_id fs" and ots: "ordered_by fact_id ts" using fs ts by (auto simp: facts_ordered_def)
  note spec = merge_diff_spec [OF ofs ots d [unfolded diffFacts_def]]
  note cl = classification_distinct [of fact_id fs ts diff_fact_pair ch_factId, OF ofs ots fact_pair_key]
  have "assert_change x = Inr ()" if x: "x \<in> set (changes fact_id diff_fact_pair fs ts)" for x
  proof -
    obtain f where f: "f \<in> set fs" "x \<in> set (change_of fact_id diff_fact_pair ts f)"
      using x by (auto simp: changes_def)
    then have "fact_id f \<in> fact_id ` set ts" using change_of_nonempty [of fact_id diff_fact_pair ts f] by (metis empty_iff list.set(1))
    then obtain t where t: "t \<in> set ts" "fact_id f = fact_id t" by auto
    then have "diff_fact_pair f t = Inr (Some x)"
      using f(2) change_of_pair [OF ots t, of diff_fact_pair] by (auto split: sum.splits option.splits)
    then have "diffAssertions f t = Inr (Some x)"
      by (auto simp: diff_fact_pair_def throw_def split: if_splits)
    then show ?thesis using assert_change_ok fs ts f(1) t(1) unfolding facts_ordered_def by blast
  qed
  then show ?thesis
    using spec cl ordered_keys [OF ordered_filter [OF ofs]] ordered_keys [OF ordered_filter [OF ots]]
    by (simp add: assertOutputInvariants_def sorted_unique_ok disjoint_ok check_all_Inr_iff only_in_def)
qed

section \<open>Empty deltas\<close>

definition confidences_numeric :: "semantic_fact list \<Rightarrow> bool" where
  "confidences_numeric fs \<longleftrightarrow> (\<forall>f \<in> set fs. \<forall>a \<in> set (fact_assertions f). as_confidence a \<noteq> NaN)"

lemma confidence_view_same:
  "confidence_view a = confidence_view b \<Longrightarrow> a \<noteq> NaN \<Longrightarrow> \<not> number_differs a b"
  by (cases a; cases b) (auto simp: number_differs_def confidence_view_def split: option.splits)

lemma same_view_assertion:
  "assertion_view a = assertion_view b \<Longrightarrow> as_confidence a \<noteq> NaN \<Longrightarrow> diff_assertion_pair i a b = Inr None"
  by (simp add: assertion_view_def diff_assertion_pair_def sameAssertionIdentity_def assertionUpdate_def
      changed_fields_def confidence_view_same)

lemma same_view_fact:
  assumes "fact_view f = fact_view t" and "\<forall>a \<in> set (fact_assertions f). as_confidence a \<noteq> NaN"
  shows "diff_fact_pair f t = Inr None"
proof -
  have "list_all2 (\<lambda>a b. assertion_view a = assertion_view b) (fact_assertions f) (fact_assertions t)"
    using assms(1) by (auto simp: fact_view_def list_all2_conv_all_nth list_eq_iff_nth_eq)
  then have "list_all2 (\<lambda>a b. as_id a = as_id b \<and> diff_assertion_pair (fact_id f) a b = Inr None)
      (fact_assertions f) (fact_assertions t)"
    by (rule list.rel_mono_strong) (use assms(2) same_view_assertion in \<open>auto simp: assertion_view_def\<close>)
  from merge_diff_same [OF this] have "diffAssertions f t = Inr None" by (simp add: diffAssertions_def)
  moreover have "sameTriple f t" using assms(1) by (simp add: fact_view_def sameTriple_def)
  ultimately show ?thesis by (simp add: diff_fact_pair_def)
qed

lemma same_view_facts:
  assumes "map fact_view fs = map fact_view ts" and "confidences_numeric fs"
  shows "diffFacts fs ts = Inr ([], [], [])"
proof -
  have "list_all2 (\<lambda>f t. fact_view f = fact_view t) fs ts"
    using assms(1) by (auto simp: list_all2_conv_all_nth list_eq_iff_nth_eq)
  then have "list_all2 (\<lambda>f t. fact_id f = fact_id t \<and> diff_fact_pair f t = Inr None) fs ts"
    by (rule list.rel_mono_strong)
      (use assms(2) same_view_fact in \<open>auto simp: confidences_numeric_def fact_view_def\<close>)
  then show ?thesis unfolding diffFacts_def by (rule merge_diff_same)
qed

section \<open>Properties\<close>

text \<open>
  C13. The two-pointer difference is the classification by id: for fact sets in canonical order, the
  added facts are those of the second set whose id is not in the first, the removed ones those of the
  first whose id is not in the second, and the changed ones, in order, the common facts whose
  assertions differ.
\<close>

theorem diff_facts_classifies:
  assumes "facts_ordered before" and "facts_ordered after" and "diffFacts before after = Inr (added, removed, changed)"
  shows "added = filter (\<lambda>f. fact_id f \<notin> fact_id ` set before) after \<and>
    removed = filter (\<lambda>f. fact_id f \<notin> fact_id ` set after) before \<and>
    changed = changes fact_id diff_fact_pair before after"
  using merge_diff_spec [of fact_id before after diff_fact_pair added removed changed] assms
  by (simp add: facts_ordered_def diffFacts_def only_in_def)

definition sample_assertion :: "string \<Rightarrow> int \<Rightarrow> fact_assertion" where
  "sample_assertion i c =
     \<lparr>as_id = i, as_authority = Authoritative, as_confidence = Decimal c 0,
      as_provenance = [\<lparr>prov_kind = CompilerProvenance, prov_sourceId = ''c'', prov_sourcePath = None, prov_revision = None\<rparr>],
      as_evidence = [], as_validFromRevision = ''build'', as_validToRevision = None\<rparr>"

definition delta_fact :: "string \<Rightarrow> fact_assertion list \<Rightarrow> semantic_fact" where
  "delta_fact i as = \<lparr>fact_id = i, fact_subject = ''app:shop'', fact_predicate = CONTAINS,
     fact_object = EntityRef ''block:core/auth'', fact_assertions = as\<rparr>"

definition before_facts :: "semantic_fact list" where
  "before_facts = [delta_fact ''fact:1'' [sample_assertion ''a'' 1], delta_fact ''fact:2'' [sample_assertion ''b'' 1]]"

definition after_facts :: "semantic_fact list" where
  "after_facts = [delta_fact ''fact:2'' [sample_assertion ''b'' 0], delta_fact ''fact:3'' [sample_assertion ''c'' 1]]"

lemma sample_facts_ordered: "facts_ordered before_facts" "facts_ordered after_facts"
  by (simp_all add: facts_ordered_def before_facts_def after_facts_def delta_fact_def)

lemma sample_diff_ok: "is_ok (diffFacts before_facts after_facts)"
  by code_simp

theorem diff_facts_classifies_witness:
  "\<exists>added removed changed. diffFacts before_facts after_facts = Inr (added, removed, changed) \<and>
     added = filter (\<lambda>f. fact_id f \<notin> fact_id ` set before_facts) after_facts \<and>
     removed = filter (\<lambda>f. fact_id f \<notin> fact_id ` set after_facts) before_facts"
proof -
  obtain a r c where d: "diffFacts before_facts after_facts = Inr (a, r, c)"
    using sample_diff_ok by (auto simp: is_ok_iff)
  from diff_facts_classifies [OF sample_facts_ordered this] d show ?thesis by blast
qed

text \<open>
  C14. A fact delta is lossless: applying the added, removed and changed facts to the first fact set
  gives the second one, up to the validity revisions a delta leaves out.
\<close>

theorem fact_delta_roundtrip:
  assumes "facts_ordered before" and "facts_ordered after" and "diffFacts before after = Inr (added, removed, changed)"
  shows "map fact_view (apply_fact_delta before added removed changed) = map fact_view after"
proof -
  have ord: "ordered_by fact_id before" "ordered_by fact_id after"
    using assms(1,2) by (auto simp: facts_ordered_def)
  note spec = merge_diff_spec [OF ord assms(3) [unfolded diffFacts_def]]
  have "map fact_view (rebuild fact_id (apply_change (changes fact_id diff_fact_pair before after))
      (only_in fact_id after before) (only_in fact_id before after) before) = map fact_view after"
    by (rule rebuild_view [OF ord]) (use spec apply_change_view [OF assms(1,2)] in simp_all)
  then show ?thesis using spec by (simp add: apply_fact_delta_def)
qed

theorem fact_delta_roundtrip_witness:
  "\<exists>added removed changed. diffFacts before_facts after_facts = Inr (added, removed, changed) \<and>
     map fact_view (apply_fact_delta before_facts added removed changed) = map fact_view after_facts"
proof -
  obtain a r c where d: "diffFacts before_facts after_facts = Inr (a, r, c)"
    using sample_diff_ok by (auto simp: is_ok_iff)
  from fact_delta_roundtrip [OF sample_facts_ordered this] d show ?thesis by blast
qed

text \<open>
  C15. The output invariants cannot fail: for snapshots in canonical order \<open>buildFactDelta\<close> throws only
  for its inputs (endpoint, lineage, revision, identity collision or validity), never
  \<open>FACT-DELTA-007\<close> for its own output.
\<close>

theorem fact_delta_failures:
  assumes "facts_ordered (facts (ctx_ir from))" and "facts_ordered (facts (ctx_ir to))"
    and "buildFactDelta digest from to = Inl e"
  shows "failure_code e \<in> {''FACT-DELTA-001'', ''FACT-DELTA-002'', ''FACT-DELTA-003'', ''FACT-DELTA-004'',
           ''FACT-DELTA-005'', ''FACT-DELTA-006''}"
proof -
  have diff: "failure_code e \<in> {''FACT-DELTA-004'', ''FACT-DELTA-005''}"
    if "diffFacts (facts (ctx_ir from)) (facts (ctx_ir to)) = Inl e"
    using that unfolding diffFacts_def
    by (auto dest!: merge_diff_failure simp: diff_fact_pair_def diffAssertions_def diff_assertion_pair_def
        throw_def bind_r_Inl_iff split: if_splits)
  have valid: "failure_code e = ''FACT-DELTA-006''" if "assertSupportedValidity x s = Inl e" for x s
    using that unfolding assertSupportedValidity_def by (auto dest!: check_all_InlD)
  have inv: "assertOutputInvariants a r c \<noteq> Inl e"
    if "diffFacts (facts (ctx_ir from)) (facts (ctx_ir to)) = Inr (a, r, c)" for a r c
    using output_invariants_ok [OF assms(1,2) that] by simp
  from assms(3) show ?thesis
    using diff valid inv
    by (auto simp: buildFactDelta_def bind_r_Inl_iff assertEndpoint_def assertCompatibleLineage_def
        assertSameRevisionInvariant_def Let_def)
qed


definition sample_endpoint :: "string \<Rightarrow> semantic_fact list \<Rightarrow> fact_delta_endpoint_context" where
  "sample_endpoint tx fs = \<lparr>ctx_transactionId = tx, ctx_inputRevision = ''i1'', ctx_semanticRevision = ''s1'',
     ctx_ir = \<lparr>graphId = ''g'', inputRevision = ''i1'', semanticRevision = ''s1'', appId = ''app:shop'',
       entities = [], facts = fs, scenarios = []\<rparr>\<rparr>"

theorem fact_delta_failures_witness:
  "failure_code (CodedFailure ''FACT-DELTA-001'' [''from'']) \<in> {''FACT-DELTA-001'', ''FACT-DELTA-002'', ''FACT-DELTA-003'',
     ''FACT-DELTA-004'', ''FACT-DELTA-005'', ''FACT-DELTA-006''}"
proof -
  have f: "buildFactDelta (\<lambda>s. s) (sample_endpoint [] before_facts) (sample_endpoint ''t2'' after_facts) =
      Inl (CodedFailure ''FACT-DELTA-001'' [''from''])"
    by (simp add: buildFactDelta_def assertEndpoint_def sample_endpoint_def trim_def)
  show ?thesis
    by (rule fact_delta_failures [OF _ _ f]) (simp_all add: sample_endpoint_def sample_facts_ordered)
qed

text \<open>
  A delta is empty exactly between fact sets that agree up to validity revisions, for snapshots in
  canonical order whose confidences are numbers.
\<close>

theorem empty_delta_iff_same_facts:
  assumes "facts_ordered before" and "facts_ordered after" and "confidences_numeric before"
  shows "diffFacts before after = Inr ([], [], []) \<longleftrightarrow> map fact_view before = map fact_view after"
proof
  assume d: "diffFacts before after = Inr ([], [], [])"
  have ord: "ordered_by fact_id before" "ordered_by fact_id after"
    using assms(1,2) by (auto simp: facts_ordered_def)
  note spec = merge_diff_spec [OF ord d [unfolded diffFacts_def]]
  have "map fact_view (rebuild fact_id (apply_change (changes fact_id diff_fact_pair before after))
      (only_in fact_id after before) (only_in fact_id before after) before) = map fact_view after"
    by (rule rebuild_view [OF ord]) (use spec apply_change_view [OF assms(1,2)] in simp_all)
  moreover have "apply_change [] = (\<lambda>f. f)" by (rule ext) (simp add: apply_change_def)
  moreover have "changes fact_id diff_fact_pair before after = []" "only_in fact_id after before = []"
    "only_in fact_id before after = []"
    using spec by auto
  ultimately show "map fact_view before = map fact_view after"
    using ordered_sort [OF ord(1)] by (simp add: rebuild_def)
qed (rule same_view_facts [OF _ assms(3)])

theorem empty_delta_iff_same_facts_witness:
  "diffFacts before_facts before_facts = Inr ([], [], [])"
proof -
  have "confidences_numeric before_facts"
    by (simp add: confidences_numeric_def before_facts_def delta_fact_def sample_assertion_def)
  from empty_delta_iff_same_facts [OF sample_facts_ordered(1) sample_facts_ordered(1) this] show ?thesis by simp
qed

end
