(* ===== verification/Actions.thy ===== *)
theory Actions
  imports Text
begin

text \<open>
  Asynchronous orchestration code as actions over a call history. The pipeline coordinators of
  \<^verbatim>\<open>src/src/application\<close> own an order of calls to injected operations; each call may return or throw,
  and the coordinator awaits it before it goes on. A provider of operations is modelled as a function
  of the whole history of calls made so far, so that it may answer the same call differently each time,
  and theorems quantified over providers hold for every such environment.

  An \<open>action\<close> runs on the history and the local variables of the coordinator. It returns a value
  or throws one. \<open>thrown\<close> is a thrown value with what \<open>describePipelineFailure\<close> reads of it:
  the text of a value that is no \<open>Error\<close> is what \<open>String\<close> or \<open>inspectFailureValue\<close> renders.
  The locale \<open>action_invariant\<close> carries properties of histories through sequencing,
  \<open>catch\<close> and settlement.
\<close>

section \<open>Thrown values\<close>

datatype thrown =
    CodedError string string
  | PlainError string
  | OtherThrown string
  | PassFailure string thrown
  | SettlementFailure thrown "(string \<times> thrown) list"

fun describePipelineFailure :: "thrown \<Rightarrow> string \<times> string" where
  "describePipelineFailure (CodedError code message) = (code, message)"
| "describePipelineFailure (PlainError message) = (''UNEXPECTED'', message)"
| "describePipelineFailure (OtherThrown text) = (''UNEXPECTED'', text)"
| "describePipelineFailure (PassFailure _ cause) = describePipelineFailure cause"
| "describePipelineFailure (SettlementFailure _ _) =
     (''PIPELINE-SETTLEMENT-001'', ''Pipeline failed and failure settlement did not complete'')"

definition isPipelinePassFailure :: "thrown \<Rightarrow> bool" where
  "isPipelinePassFailure e = (case e of PassFailure _ _ \<Rightarrow> True | _ \<Rightarrow> False)"

section \<open>Actions\<close>

type_synonym 'c event = "'c \<times> thrown option"
type_synonym 'c history = "'c event list"
type_synonym ('c, 'l, 'a) action = "'c history \<times> 'l \<Rightarrow> (thrown + 'a) \<times> 'c history \<times> 'l"

definition return_a :: "'a \<Rightarrow> ('c, 'l, 'a) action" where
  "return_a x s = (Inr x, s)"

definition throw_a :: "thrown \<Rightarrow> ('c, 'l, 'a) action" where
  "throw_a e s = (Inl e, s)"

definition bind_a :: "('c, 'l, 'a) action \<Rightarrow> ('a \<Rightarrow> ('c, 'l, 'b) action) \<Rightarrow> ('c, 'l, 'b) action" where
  "bind_a m f s = (case m s of (Inl e, s') \<Rightarrow> (Inl e, s') | (Inr x, s') \<Rightarrow> f x s')"

definition catch_a :: "('c, 'l, 'a) action \<Rightarrow> (thrown \<Rightarrow> ('c, 'l, 'a) action) \<Rightarrow> ('c, 'l, 'a) action" where
  "catch_a m k s = (case m s of (Inl e, s') \<Rightarrow> k e s' | (Inr x, s') \<Rightarrow> (Inr x, s'))"

definition local_a :: "('l \<Rightarrow> 'l) \<Rightarrow> ('c, 'l, unit) action" where
  "local_a g s = (Inr (), fst s, g (snd s))"

definition outcome :: "thrown + 'a \<Rightarrow> thrown option" where
  "outcome r = (case r of Inl e \<Rightarrow> Some e | Inr _ \<Rightarrow> None)"

text \<open>\<open>await operations.c.call(operations, ...)\<close>: the provider answers from the history.\<close>

definition perform :: "'c \<Rightarrow> ('c history \<Rightarrow> thrown + 'a) \<Rightarrow> ('c, 'l, 'a) action" where
  "perform c f s = (f (fst s), fst s @ [(c, outcome (f (fst s)))], snd s)"

section \<open>Settlement of a failure\<close>

fun settle_steps ::
  "(string \<times> ('c, 'l, unit) action) list \<Rightarrow> 'c history \<times> 'l \<Rightarrow> (string \<times> thrown) list \<times> 'c history \<times> 'l" where
  "settle_steps [] s = ([], s)"
| "settle_steps ((operation, run) # steps) s =
     (case run s of
        (Inr _, s') \<Rightarrow> settle_steps steps s'
      | (Inl reason, s') \<Rightarrow>
          (case settle_steps steps s' of (failures, s'') \<Rightarrow> ((operation, reason) # failures, s'')))"

definition settlePipelineFailure ::
  "thrown \<Rightarrow> (string \<times> ('c, 'l, unit) action) list \<Rightarrow> ('c, 'l, 'a) action" where
  "settlePipelineFailure primary steps s =
     (if \<exists>(operation, _) \<in> set steps. operation = []
      then (Inl (SettlementFailure primary [(''settlement-plan'',
              PlainError ''Pipeline settlement steps need a name and callable operation'')]), s)
      else case settle_steps steps s of (failures, s') \<Rightarrow>
        (Inl (if failures \<noteq> [] then SettlementFailure primary failures else primary), s'))"

section \<open>Laws\<close>

named_theorems action_simps \<open>evaluation rules of actions\<close>

lemma bind_a_return [action_simps]: "bind_a (return_a x) f = f x"
  by (rule ext) (simp add: bind_a_def return_a_def)

lemma bind_a_throw [action_simps]: "bind_a (throw_a e) f = throw_a e"
  by (rule ext) (simp add: bind_a_def throw_a_def)

lemma bind_a_assoc: "bind_a (bind_a m f) g = bind_a m (\<lambda>x. bind_a (f x) g)"
  by (rule ext) (auto simp: bind_a_def split: prod.splits sum.splits)

lemma bind_a_InrE:
  assumes "bind_a m f s = (Inr y, s')"
  obtains x u where "m s = (Inr x, u)" "f x u = (Inr y, s')"
  using assms by (auto simp: bind_a_def split: prod.splits sum.splits)

lemma bind_a_InlE:
  assumes "bind_a m f s = (Inl e, s')"
  obtains "m s = (Inl e, s')" | x u where "m s = (Inr x, u)" "f x u = (Inl e, s')"
  using assms by (auto simp: bind_a_def split: prod.splits sum.splits)

lemma perform_Inr_iff:
  "perform c f s = (Inr x, s') \<longleftrightarrow> f (fst s) = Inr x \<and> s' = (fst s @ [(c, None)], snd s)"
  by (cases "f (fst s)") (auto simp: perform_def outcome_def)

lemma perform_Inl_iff:
  "perform c f s = (Inl e, s') \<longleftrightarrow> f (fst s) = Inl e \<and> s' = (fst s @ [(c, Some e)], snd s)"
  by (cases "f (fst s)") (auto simp: perform_def outcome_def)

text \<open>Properties of states that every action of a coordinator keeps.\<close>

definition keeps :: "('c history \<times> 'l \<Rightarrow> bool) \<Rightarrow> ('c, 'l, 'a) action \<Rightarrow> bool" where
  "keeps P m \<longleftrightarrow> (\<forall>s. P s \<longrightarrow> P (snd (m s)))"

lemma keepsI: "(\<And>s. P s \<Longrightarrow> P (snd (m s))) \<Longrightarrow> keeps P m"
  by (simp add: keeps_def)

lemma keepsD: "keeps P m \<Longrightarrow> P s \<Longrightarrow> P (snd (m s))"
  unfolding keeps_def by blast

text \<open>
  The same with a property of the returned value: from a state satisfying \<open>P\<close> the action reaches
  one satisfying \<open>P\<close>, and a value it returns satisfies \<open>Q\<close>.
\<close>

definition ensures :: "('c history \<times> 'l \<Rightarrow> bool) \<Rightarrow> ('c, 'l, 'a) action \<Rightarrow> ('a \<Rightarrow> bool) \<Rightarrow> bool" where
  "ensures P m Q \<longleftrightarrow> (\<forall>s. P s \<longrightarrow> P (snd (m s)) \<and> (\<forall>x. fst (m s) = Inr x \<longrightarrow> Q x))"

lemma ensuresI:
  "(\<And>s. P s \<Longrightarrow> P (snd (m s))) \<Longrightarrow> (\<And>s x. P s \<Longrightarrow> fst (m s) = Inr x \<Longrightarrow> Q x) \<Longrightarrow> ensures P m Q"
  unfolding ensures_def by blast

lemma ensuresD: "ensures P m Q \<Longrightarrow> P s \<Longrightarrow> P (snd (m s))"
  unfolding ensures_def by blast

lemma ensures_return: "Q x \<Longrightarrow> ensures P (return_a x) Q"
  by (simp add: ensures_def return_a_def)

lemma ensures_bind:
  assumes "ensures P m Q" and "\<And>x. Q x \<Longrightarrow> ensures P (f x) R"
  shows "ensures P (bind_a m f) R"
proof -
  have "P (snd (bind_a m f s)) \<and> (\<forall>y. fst (bind_a m f s) = Inr y \<longrightarrow> R y)" if s: "P s" for s
  proof (cases "fst (m s)")
    case (Inl e)
    then have "bind_a m f s = (Inl e, snd (m s))" by (cases "m s") (simp add: bind_a_def)
    then show ?thesis using assms(1) s unfolding ensures_def by (auto simp del: split_paired_All)
  next
    case (Inr x)
    then have "bind_a m f s = f x (snd (m s))" by (cases "m s") (simp add: bind_a_def)
    moreover have "P (snd (m s))" "Q x" using assms(1) s Inr unfolding ensures_def by (auto simp del: split_paired_All)
    ultimately show ?thesis using assms(2) unfolding ensures_def by (auto simp del: split_paired_All)
  qed
  then show ?thesis unfolding ensures_def by blast
qed

lemma ensures_catch:
  assumes "ensures P m Q" and "\<And>e. ensures P (k e) Q"
  shows "ensures P (catch_a m k) Q"
proof -
  have "P (snd (catch_a m k s)) \<and> (\<forall>y. fst (catch_a m k s) = Inr y \<longrightarrow> Q y)" if s: "P s" for s
  proof (cases "fst (m s)")
    case (Inl e)
    then have "catch_a m k s = k e (snd (m s))" by (cases "m s") (simp add: catch_a_def)
    then show ?thesis using assms s unfolding ensures_def by (auto simp del: split_paired_All)
  next
    case (Inr x)
    then have "catch_a m k s = (Inr x, snd (m s))" by (cases "m s") (simp add: catch_a_def)
    then show ?thesis using assms(1) s Inr unfolding ensures_def by (auto simp del: split_paired_All)
  qed
  then show ?thesis unfolding ensures_def by blast
qed

lemma ensures_weaken: "ensures P m Q \<Longrightarrow> (\<And>x. Q x \<Longrightarrow> R x) \<Longrightarrow> ensures P m R"
  unfolding ensures_def by blast

lemma ensures_keeps: "ensures P m (\<lambda>_. True) \<longleftrightarrow> keeps P m"
  unfolding ensures_def keeps_def by blast

lemma settle_steps_keep:
  "(\<And>n m. (n, m) \<in> set steps \<Longrightarrow> keeps P m) \<Longrightarrow> P s \<Longrightarrow> P (snd (settle_steps steps s))"
proof (induction steps s rule: settle_steps.induct)
  case (1 s)
  then show ?case by simp
next
  case (2 operation run steps s)
  have "keeps P run" using "2.prems"(1) [of operation run] by simp
  then have r: "P (snd (run s))" using "2.prems"(2) by (rule keepsD)
  have rest: "\<And>n m. (n, m) \<in> set steps \<Longrightarrow> keeps P m" using "2.prems"(1) by (meson list.set_intros(2))
  obtain res s' where e: "run s = (res, s')" by (rule prod.exhaust)
  show ?case
  proof (cases res)
    case (Inl reason)
    have "P (snd (settle_steps steps s'))"
      using "2.IH"(1) [OF e [symmetric] Inl rest] r by (simp add: e)
    then show ?thesis by (cases "settle_steps steps s'") (simp add: e Inl)
  next
    case (Inr u)
    have "P (snd (settle_steps steps s'))"
      using "2.IH"(2) [OF e [symmetric] Inr rest] r by (simp add: e)
    then show ?thesis by (simp add: e Inr)
  qed
qed

lemma settle_keeps:
  assumes "\<And>n m. (n, m) \<in> set steps \<Longrightarrow> keeps P m"
  shows "keeps P (settlePipelineFailure e steps)"
proof (rule keepsI)
  fix s assume "P s"
  then have "P (snd (settle_steps steps s))" using settle_steps_keep [of steps P s] assms by blast
  then show "P (snd (settlePipelineFailure e steps s))"
    using \<open>P s\<close> by (cases "settle_steps steps s") (simp add: settlePipelineFailure_def)
qed

text \<open>
  A property of histories that every \<open>free\<close> call keeps: the vocabulary in which the
  coordinators' call orders are judged.
\<close>

locale action_invariant =
  fixes good :: "'c history \<Rightarrow> bool"
    and free :: "'c \<Rightarrow> bool"
  assumes free_call: "good h \<Longrightarrow> free c \<Longrightarrow> good (h @ [(c, r)])"
begin

definition sound :: "('c, 'l, 'a) action \<Rightarrow> bool" where
  "sound m \<longleftrightarrow> keeps (\<lambda>s. good (fst s)) m"

lemma sound_return: "sound (return_a x)"
  by (simp add: sound_def keeps_def return_a_def)

lemma sound_throw: "sound (throw_a e)"
  by (simp add: sound_def keeps_def throw_a_def)

lemma sound_local: "sound (local_a g)"
  by (simp add: sound_def keeps_def local_a_def)

lemma sound_bind: "sound m \<Longrightarrow> (\<And>x. sound (f x)) \<Longrightarrow> sound (bind_a m f)"
  unfolding sound_def ensures_keeps [symmetric] by (rule ensures_bind)

lemma sound_catch: "sound m \<Longrightarrow> (\<And>e. sound (k e)) \<Longrightarrow> sound (catch_a m k)"
  unfolding sound_def ensures_keeps [symmetric] by (rule ensures_catch)

lemma sound_perform: "free c \<Longrightarrow> sound (perform c f)"
  by (simp add: sound_def keeps_def perform_def free_call)

lemma sound_settle: "(\<And>n m. (n, m) \<in> set steps \<Longrightarrow> sound m) \<Longrightarrow> sound (settlePipelineFailure e steps)"
  unfolding sound_def by (rule settle_keeps)

lemmas sound_intros = sound_return sound_throw sound_local sound_bind sound_catch sound_perform sound_settle

end

section \<open>Every write follows a write fence\<close>

text \<open>Each call \<open>w\<close> with \<open>is_write w\<close> comes right after a fence that returned.\<close>

definition fenced :: "('c \<Rightarrow> bool) \<Rightarrow> 'c \<Rightarrow> 'c history \<Rightarrow> bool" where
  "fenced is_write fence h \<longleftrightarrow>
     (\<forall>i < length h. is_write (fst (h ! i)) \<longrightarrow> 0 < i \<and> h ! (i - 1) = (fence, None))"

lemma fenced_Nil [simp]: "fenced is_write fence []"
  by (simp add: fenced_def)

lemma fenced_snoc:
  "fenced is_write fence (h @ [e]) \<longleftrightarrow>
     fenced is_write fence h \<and> (is_write (fst e) \<longrightarrow> h \<noteq> [] \<and> last h = (fence, None))"
proof -
  have old: "(h @ [e]) ! i = h ! i" "(h @ [e]) ! (i - 1) = h ! (i - 1)" if "i < length h" for i
    using that by (auto simp: nth_append)
  have new: "0 < length h \<and> (h @ [e]) ! (length h - 1) = x \<longleftrightarrow> h \<noteq> [] \<and> last h = x" for x
    by (auto simp: nth_append last_conv_nth)
  have "fenced is_write fence (h @ [e]) \<longleftrightarrow>
      (\<forall>i < length h. is_write (fst ((h @ [e]) ! i)) \<longrightarrow> 0 < i \<and> (h @ [e]) ! (i - 1) = (fence, None)) \<and>
      (is_write (fst e) \<longrightarrow> 0 < length h \<and> (h @ [e]) ! (length h - 1) = (fence, None))"
    unfolding fenced_def length_append_singleton All_less_Suc by (simp add: conj_commute)
  also have "\<dots> \<longleftrightarrow> fenced is_write fence h \<and> (is_write (fst e) \<longrightarrow> h \<noteq> [] \<and> last h = (fence, None))"
    unfolding fenced_def new using old by (simp cong: conj_cong)
  finally show ?thesis .
qed

lemma fenced_snoc2:
  "fenced is_write fence (h @ [x, y]) \<longleftrightarrow>
     fenced is_write fence (h @ [x]) \<and> (is_write (fst y) \<longrightarrow> x = (fence, None))"
  using fenced_snoc [of is_write fence "h @ [x]" y] by simp

locale fenced_writes =
  fixes is_write :: "'c \<Rightarrow> bool" and fence :: 'c
  assumes fence_is_no_write: "\<not> is_write fence"
begin

sublocale action_invariant "fenced is_write fence" "\<lambda>c. \<not> is_write c"
  by unfold_locales (simp add: fenced_snoc)

lemma sound_fenced_write: "sound (bind_a (perform fence f) (\<lambda>_. perform w g))"
  unfolding sound_def
proof (rule keepsI)
  fix s :: "'c history \<times> 'l"
  assume "fenced is_write fence (fst s)"
  then show "fenced is_write fence (fst (snd (bind_a (perform fence f) (\<lambda>_. perform w g) s)))"
    using fence_is_no_write
    by (cases "f (fst s)") (simp_all add: bind_a_def perform_def outcome_def fenced_snoc fenced_snoc2)
qed

lemma sound_fenced_write_then:
  "(\<And>x. sound (k x)) \<Longrightarrow> sound (bind_a (perform fence f) (\<lambda>_. bind_a (perform w g) k))"
  unfolding bind_a_assoc [symmetric] by (rule sound_bind [OF sound_fenced_write])

lemma sound_fenced_local_write:
  "(\<And>x. sound (k x)) \<Longrightarrow>
     sound (bind_a (perform fence f) (\<lambda>_. bind_a (local_a u) (\<lambda>_. bind_a (perform w g) k)))"
proof -
  assume k: "\<And>x. sound (k x)"
  have "sound (bind_a (bind_a (perform fence f) (\<lambda>_. bind_a (local_a u) (\<lambda>_. perform w g))) k)"
  proof (rule sound_bind [OF _ k])
    show "sound (bind_a (perform fence f) (\<lambda>_. bind_a (local_a u) (\<lambda>_. perform w g)))"
      unfolding sound_def
    proof (rule keepsI)
      fix s :: "'c history \<times> 'b"
      assume "fenced is_write fence (fst s)"
      then show "fenced is_write fence (fst (snd (bind_a (perform fence f) (\<lambda>_. bind_a (local_a u) (\<lambda>_. perform w g)) s)))"
        using fence_is_no_write
        by (cases "f (fst s)") (simp_all add: bind_a_def perform_def outcome_def local_a_def fenced_snoc fenced_snoc2)
    qed
  qed
  then show ?thesis by (simp add: bind_a_assoc)
qed

end

text \<open>Calls that all returned.\<close>

definition returned :: "'c list \<Rightarrow> 'c history" where
  "returned cs = map (\<lambda>c. (c, None)) cs"

lemma returned_append [simp]: "returned (xs @ ys) = returned xs @ returned ys"
  by (simp add: returned_def)

lemma returned_simps [simp]: "returned [] = []" "returned (x # xs) = (x, None) # returned xs"
  by (simp_all add: returned_def)

section \<open>Which calls an action makes\<close>

text \<open>
  The calls are made in order until one throws; a thrown value is the one of the call that ended
  the sequence.
\<close>

definition attempted :: "'c list \<Rightarrow> 'c history \<Rightarrow> thrown + 'a \<Rightarrow> 'c history \<Rightarrow> bool" where
  "attempted calls h res h' \<longleftrightarrow>
     (case res of
        Inr _ \<Rightarrow> h' = h @ returned calls
      | Inl e \<Rightarrow> \<exists>made c rest. calls = made @ c # rest \<and> h' = h @ returned made @ [(c, Some e)])"

lemma attempted_Inr [simp]: "attempted calls h (Inr x) h' \<longleftrightarrow> h' = h @ returned calls"
  by (simp add: attempted_def)

lemma attempted_Inl:
  "attempted calls h (Inl e) h' \<longleftrightarrow> (\<exists>made c rest. calls = made @ c # rest \<and> h' = h @ returned made @ [(c, Some e)])"
  by (simp add: attempted_def)

lemma attempted_Nil [simp]: "attempted [] h res h' \<longleftrightarrow> (\<exists>x. res = Inr x) \<and> h' = h"
  by (cases res) (auto simp: attempted_Inl)

lemma attempted_perform: "perform c f s = (res, s') \<Longrightarrow> attempted [c] (fst s) res (fst s')"
  by (cases res) (auto simp: perform_Inr_iff perform_Inl_iff attempted_Inl intro!: exI [of _ "[]"])

lemma attempted_single: "attempted [c] h res (h @ [(c, outcome res)])"
  by (cases res) (auto simp: attempted_Inl outcome_def intro: exI [of _ "[]"])

lemma attempted_more: "attempted calls h (Inl e) h' \<Longrightarrow> attempted (calls @ more) h (Inl e) h'"
  by (fastforce simp: attempted_Inl)

lemma attempted_after:
  "attempted calls (h @ returned pre) res h' \<Longrightarrow> attempted (pre @ calls) h res h'"
proof (cases res)
  case (Inl e)
  assume "attempted calls (h @ returned pre) res h'"
  then obtain cs c rest where "calls = cs @ c # rest" "h' = h @ returned (pre @ cs) @ [(c, Some e)]"
    using Inl by (auto simp: attempted_Inl)
  then show ?thesis unfolding Inl attempted_Inl by (intro exI [of _ "pre @ cs"]) auto
qed simp

lemma attempted_bind:
  assumes "bind_a m f s = (res, s')"
    and "\<And>r u. m s = (r, u) \<Longrightarrow> attempted before (fst s) r (fst u)"
    and "\<And>x u. m s = (Inr x, u) \<Longrightarrow> f x u = (res, s') \<Longrightarrow> attempted after (fst u) res (fst s')"
  shows "attempted (before @ after) (fst s) res (fst s')"
proof -
  obtain r u where m: "m s = (r, u)" by (rule prod.exhaust)
  show ?thesis
  proof (cases r)
    case (Inl e)
    then show ?thesis using assms(1) assms(2) [OF m] m
      by (auto simp: bind_a_def intro: attempted_more)
  next
    case (Inr x)
    then have "f x u = (res, s')" using assms(1) m by (simp add: bind_a_def)
    then have "attempted after (fst u) res (fst s')" using assms(3) m Inr by blast
    moreover have "fst u = fst s @ returned before" using assms(2) [OF m] Inr by simp
    ultimately show ?thesis using attempted_after by metis
  qed
qed

lemma attempted_events: "attempted calls h res h' \<Longrightarrow> \<exists>new. h' = h @ new \<and> fst ` set new \<subseteq> set calls"
  by (cases res) (auto simp: attempted_Inl returned_def image_image)

lemma attempted_new: "attempted calls h res (h @ new) \<Longrightarrow> fst ` set new \<subseteq> set calls"
  using attempted_events by fastforce

text \<open>The last call of a sequence that threw did not return.\<close>

lemma attempted_unfinished:
  assumes "attempted (calls @ [c]) h (Inl e) (h @ new)" and "c \<notin> set calls"
  shows "(c, None) \<notin> set new"
proof -
  obtain cs c' rest where c: "calls @ [c] = cs @ c' # rest" "new = returned cs @ [(c', Some e)]"
    using assms(1) by (auto simp: attempted_Inl)
  have "set cs \<subseteq> set calls" using c(1) by (cases rest rule: rev_cases) auto
  then show ?thesis using assms(2) c(2) by (auto simp: returned_def)
qed

text \<open>Actions whose calls do not depend on the answers, and that leave the local variables alone.\<close>

definition performs :: "'c list \<Rightarrow> ('c, 'l, 'a) action \<Rightarrow> bool" where
  "performs calls m \<longleftrightarrow>
     (\<forall>s res s'. m s = (res, s') \<longrightarrow> attempted calls (fst s) res (fst s') \<and> snd s' = snd s)"

lemma performsD:
  "performs calls m \<Longrightarrow> m s = (res, s') \<Longrightarrow> attempted calls (fst s) res (fst s') \<and> snd s' = snd s"
  unfolding performs_def by blast

lemma performs_perform: "performs [c] (perform c f)"
  using attempted_perform unfolding performs_def by (fastforce simp: perform_def)

lemma performs_return: "performs [] (return_a x)"
  by (simp add: performs_def return_a_def)

lemma performs_bind:
  assumes m: "performs before m" and f: "\<And>x. performs after (f x)"
  shows "performs (before @ after) (bind_a m f)"
  unfolding performs_def
proof (intro allI impI)
  fix s res s' assume run: "bind_a m f s = (res, s')"
  have "attempted (before @ after) (fst s) res (fst s')"
    using run by (rule attempted_bind) (use performsD [OF m] performsD [OF f] in blast)+
  moreover obtain r u where u: "m s = (r, u)" by (rule prod.exhaust)
  have "snd s' = snd s"
  proof (cases r)
    case (Inl e)
    then show ?thesis using run u performsD [OF m u] by (auto simp: bind_a_def)
  next
    case (Inr x)
    then have "f x u = (res, s')" using run u by (simp add: bind_a_def)
    then show ?thesis using performsD [OF m u] performsD [OF f] by metis
  qed
  ultimately show "attempted (before @ after) (fst s) res (fst s') \<and> snd s' = snd s" ..
qed

lemma performs_fenced: "performs [fence, c] (bind_a (perform fence f) (\<lambda>_. perform c g))"
  using performs_bind [OF performs_perform, of "[c]" "\<lambda>_. perform c g"] performs_perform by fastforce

text \<open>The value a settlement of one or two steps throws.\<close>

definition settlement_value :: "thrown \<Rightarrow> (string \<times> (thrown + unit)) list \<Rightarrow> thrown" where
  "settlement_value primary outcomes =
     (let failures = concat (map (\<lambda>(operation, r). case r of Inl reason \<Rightarrow> [(operation, reason)] | Inr _ \<Rightarrow> []) outcomes)
      in if failures = [] then primary else SettlementFailure primary failures)"

lemma settle_two:
  assumes "settlePipelineFailure primary [(n1, m1), (n2, m2)] s = (res, s')" and "n1 \<noteq> []" "n2 \<noteq> []"
  obtains r1 u r2 where "m1 s = (r1, u)" "m2 u = (r2, s')"
    "res = Inl (settlement_value primary [(n1, r1), (n2, r2)])"
proof -
  obtain r1 u where 1: "m1 s = (r1, u)" by (rule prod.exhaust)
  obtain r2 v where 2: "m2 u = (r2, v)" by (rule prod.exhaust)
  have "s' = v \<and> res = Inl (settlement_value primary [(n1, r1), (n2, r2)])"
    using assms 1 2
    by (cases r1; cases r2) (auto simp: settlePipelineFailure_def settlement_value_def)
  then show ?thesis using that 1 2 by blast
qed

lemma settle_one:
  assumes "settlePipelineFailure primary [(n1, m1)] s = (res, s')" and "n1 \<noteq> []"
  obtains r1 where "m1 s = (r1, s')" "res = Inl (settlement_value primary [(n1, r1)])"
proof -
  obtain r1 u where 1: "m1 s = (r1, u)" by (rule prod.exhaust)
  have "s' = u \<and> res = Inl (settlement_value primary [(n1, r1)])"
    using assms 1 by (cases r1) (auto simp: settlePipelineFailure_def settlement_value_def)
  then show ?thesis using that 1 by blast
qed

end
