(* ===== verification/PipelineStages.thy ===== *)
theory PipelineStages
  imports Text
begin

text \<open>
  The stage data of the compilation pipeline: pass states
  (\<^verbatim>\<open>src/src/compiler/contract/pass-status.ts\<close>), stage ownership and requested stages
  (\<^verbatim>\<open>src/src/compiler/pipeline/stages.ts\<close>), the compiler from pass relations to stage definitions
  (\<^verbatim>\<open>src/src/compiler/pipeline/stage-definitions.ts\<close>) and the state patch of a stage transition
  (\<^verbatim>\<open>src/src/compiler/pipeline/stage-state.ts\<close>).

  Pass and stage identities are strings, as at run time; the arrays of a pass relation are dense
  lists of strings, as their types say (the run-time checks that an array has no holes and
  holds strings only are kept for requested stages, which come from the caller). The state of a pass in a
  lock is \<open>None\<close> for JavaScript's \<open>undefined\<close>.
\<close>

section \<open>Passes and stages\<close>

datatype pass_state = Pending | Running | Succeeded | Failed | Blocked | Skipped

definition PASS_INITIAL_STATES :: "(string, pass_state) jsmap" where
  "PASS_INITIAL_STATES =
     [(''parse'', Pending), (''align'', Pending), (''resolve'', Pending), (''build-ir'', Pending),
      (''compose'', Pending), (''verify'', Pending), (''repair'', Skipped), (''lock'', Pending),
      (''emit'', Pending)]"

record stage_ownership =
  so_primaryPass :: string
  so_ownedPasses :: "string list option"

definition PIPELINE_STAGE_OWNERSHIP :: "(string, stage_ownership) jsmap" where
  "PIPELINE_STAGE_OWNERSHIP =
     [(''resolve'', \<lparr>so_primaryPass = ''resolve'',
          so_ownedPasses = Some [''parse'', ''align'', ''resolve'']\<rparr>),
      (''semantic'', \<lparr>so_primaryPass = ''build-ir'', so_ownedPasses = None\<rparr>),
      (''compose'', \<lparr>so_primaryPass = ''compose'', so_ownedPasses = None\<rparr>),
      (''verify'', \<lparr>so_primaryPass = ''verify'', so_ownedPasses = None\<rparr>),
      (''lock'', \<lparr>so_primaryPass = ''lock'', so_ownedPasses = None\<rparr>),
      (''emit'', \<lparr>so_primaryPass = ''emit'', so_ownedPasses = None\<rparr>)]"

definition PIPELINE_STAGE_IDS :: "string list" where
  "PIPELINE_STAGE_IDS = map fst PIPELINE_STAGE_OWNERSHIP"

text \<open>\<open>PIPELINE_STAGE_IDS.slice(0, PIPELINE_STAGE_IDS.indexOf('verify') + 1)\<close>\<close>

fun index_of :: "'a \<Rightarrow> 'a list \<Rightarrow> int" where
  "index_of x [] = -1"
| "index_of x (y # ys) = (if y = x then 0 else let i = index_of x ys in if i < 0 then -1 else i + 1)"

definition PIPELINE_VERIFY_STAGE_IDS :: "string list" where
  "PIPELINE_VERIFY_STAGE_IDS = take (nat (index_of ''verify'' PIPELINE_STAGE_IDS + 1)) PIPELINE_STAGE_IDS"

text \<open>
  An element of the caller's array is \<open>None\<close> where it is a hole, an accessor or not a string.
  \<open>seen\<close> holds the elements of \<open>result\<close>.
\<close>

definition stage_usage :: failure where
  "stage_usage = CodedFailure ''PIPELINE-USAGE-001'' []"

definition capture_stage :: "string option \<Rightarrow> string list \<Rightarrow> string list result" where
  "capture_stage slot seen = (case slot of
       None \<Rightarrow> throw stage_usage
     | Some stage \<Rightarrow>
         if stage \<notin> set PIPELINE_STAGE_IDS \<or> stage \<in> set seen
         then throw stage_usage
         else Inr (seen @ [stage]))"

text \<open>\<open>None\<close> is a value that is not an array.\<close>

definition capturePipelineRequestedStages :: "string option list option \<Rightarrow> string list result" where
  "capturePipelineRequestedStages v = (case v of
       None \<Rightarrow> throw stage_usage
     | Some slots \<Rightarrow> fold_r capture_stage slots [])"

definition pipelineStageBoundary :: "string \<Rightarrow> string result" where
  "pipelineStageBoundary stage =
     bind_r (throw_if (stage \<notin> set PIPELINE_STAGE_IDS) (NativeError ''Unknown pipeline stage boundary''))
       (\<lambda>_. Inr (''pipeline-'' @ stage))"

definition PIPELINE_EXECUTION_BOUNDARIES :: "string list result" where
  "PIPELINE_EXECUTION_BOUNDARIES =
     bind_r (map_r pipelineStageBoundary PIPELINE_STAGE_IDS) (\<lambda>stages.
       Inr ([''pipeline-bootstrap'', ''pipeline-lease-bind'', ''pipeline-lease-bound'',
             ''pipeline-transaction-bootstrap'', ''pipeline-transaction''] @ stages @
            [''verify-preflight'', ''verify-fast'', ''verify-runtime'', ''verify-artifact-publish'']))"

definition PIPELINE_SOURCE_IDS :: "string list" where
  "PIPELINE_SOURCE_IDS = [''api'', ''cli'', ''reference'', ''upgrade'', ''repair'', ''ci'']"

definition requirePipelineSource :: "string option \<Rightarrow> string result" where
  "requirePipelineSource v = (case v of
       Some s \<Rightarrow> if s \<in> set PIPELINE_SOURCE_IDS then Inr s
                 else throw (CodedFailure ''PIPELINE-USAGE-004'' [])
     | None \<Rightarrow> throw (CodedFailure ''PIPELINE-USAGE-004'' []))"

section \<open>Stage definitions\<close>

record pass_definition =
  pd_id :: string
  pd_requires :: "string list"
  pd_invalidates :: "string list"

definition pass_input :: "string \<Rightarrow> string list \<Rightarrow> string list \<Rightarrow> string \<times> pass_definition" where
  "pass_input i req invs = (i, \<lparr>pd_id = i, pd_requires = req, pd_invalidates = invs\<rparr>)"

definition PASS_DEFINITIONS :: "(string, pass_definition) jsmap" where
  "PASS_DEFINITIONS =
     [pass_input ''parse'' []
        [''align'', ''resolve'', ''build-ir'', ''compose'', ''verify'', ''repair'', ''lock'', ''emit''],
      pass_input ''align'' [''parse'']
        [''resolve'', ''build-ir'', ''compose'', ''verify'', ''repair'', ''lock'', ''emit''],
      pass_input ''resolve'' [''align'']
        [''build-ir'', ''compose'', ''verify'', ''repair'', ''lock'', ''emit''],
      pass_input ''build-ir'' [''resolve''] [''compose'', ''verify'', ''repair'', ''lock'', ''emit''],
      pass_input ''compose'' [''build-ir''] [''verify'', ''repair'', ''lock'', ''emit''],
      pass_input ''verify'' [''compose''] [''repair'', ''lock'', ''emit''],
      pass_input ''repair'' [] [''verify'', ''lock'', ''emit''],
      pass_input ''lock'' [''verify''] [''emit''],
      pass_input ''emit'' [''lock''] []]"

record stage_definition =
  sd_id :: string
  sd_primaryPass :: string
  sd_ownedPasses :: "string list"
  sd_requires :: "string list"
  sd_invalidates :: "string list"

definition exactIdentities :: "(string, 'a) jsmap \<Rightarrow> (string, 'b) jsmap \<Rightarrow> string \<Rightarrow> unit result" where
  "exactIdentities actual expected label =
     throw_if (length actual \<noteq> length expected \<or> (\<exists>key \<in> set (map fst actual). \<not> map_has expected key))
       (NativeError (''Pipeline '' @ label @ '' does not match its declared identity set''))"

definition check_relation :: "(string, pass_definition) jsmap \<Rightarrow> string \<Rightarrow> string list \<Rightarrow> unit result" where
  "check_relation passes i relation =
     bind_r (throw_if (length (dedup relation) \<noteq> length relation)
        (NativeError (''Pipeline pass '' @ i @ '' contains an invalid or duplicate relation''))) (\<lambda>_.
     check_all (\<lambda>target. throw_if (\<not> map_has passes target)
        (NativeError (''Pipeline pass '' @ i @ '' references an unknown endpoint''))) relation)"

definition check_pass :: "(string, pass_definition) jsmap \<Rightarrow> string \<times> pass_definition \<Rightarrow> unit result" where
  "check_pass passes entry = (case entry of (i, pass) \<Rightarrow>
     bind_r (throw_if (pd_id pass \<noteq> i) (NativeError (''Pipeline pass identity mismatch: '' @ i))) (\<lambda>_.
     check_all (check_relation passes i) [pd_requires pass, pd_invalidates pass]))"

text \<open>\<open>set.add(x)\<close> and \<open>set.delete(x)\<close> on a \<open>Set\<close> in insertion order.\<close>

definition set_add :: "'a \<Rightarrow> 'a list \<Rightarrow> 'a list" where
  "set_add x xs = (if x \<in> set xs then xs else xs @ [x])"

definition set_delete :: "'a \<Rightarrow> 'a list \<Rightarrow> 'a list" where
  "set_delete x xs = filter (\<lambda>y. y \<noteq> x) xs"

text \<open>The state of the loop over the owned passes of one stage.\<close>

record ownership_state =
  owners :: "(string, string) jsmap"
  completed :: "string list"
  os_requires :: "string list"
  os_invalidates :: "string list"

definition use_dependency ::
  "string \<Rightarrow> string list \<Rightarrow> string list \<Rightarrow> string \<Rightarrow> string list \<Rightarrow> string list result" where
  "use_dependency stage owned done_passes dependency req =
     (if dependency \<in> set owned
      then bind_r (throw_if (dependency \<notin> set done_passes)
             (NativeError (''Pipeline stage '' @ stage @ '' uses '' @ dependency @ '' before its producer'')))
             (\<lambda>_. Inr req)
      else Inr (set_add dependency req))"

definition use_invalidation ::
  "string list \<Rightarrow> string \<Rightarrow> string list \<times> string list \<Rightarrow> string list \<times> string list" where
  "use_invalidation owned invalidated s = (case s of (done_passes, invs) \<Rightarrow>
     if invalidated \<in> set owned then (set_delete invalidated done_passes, invs)
     else (done_passes, set_add invalidated invs))"

definition own_pass ::
  "(string, pass_definition) jsmap \<Rightarrow> string \<Rightarrow> string list \<Rightarrow> string \<Rightarrow> ownership_state \<Rightarrow> ownership_state result" where
  "own_pass passes stage owned passId s =
     (case (map_has (owners s) passId, map_get passes passId) of
        (False, Some pass) \<Rightarrow>
          bind_r (fold_r (use_dependency stage owned (completed s)) (pd_requires pass) (os_requires s)) (\<lambda>req.
          case fold (use_invalidation owned) (pd_invalidates pass) (completed s, os_invalidates s) of
            (done_passes, invs) \<Rightarrow>
              Inr \<lparr>owners = map_set passId stage (owners s), completed = set_add passId done_passes,
                   os_requires = req, os_invalidates = invs\<rparr>)
      | _ \<Rightarrow> throw (NativeError (''Pipeline pass '' @ passId @ '' has invalid or duplicate stage ownership'')))"

text \<open>One stage: the definition and the owners recorded so far.\<close>

definition compile_stage ::
  "(string, pass_definition) jsmap \<Rightarrow> string \<times> stage_ownership \<Rightarrow>
   (string, string) jsmap \<times> (string \<times> stage_definition) list \<Rightarrow>
   ((string, string) jsmap \<times> (string \<times> stage_definition) list) result" where
  "compile_stage passes entry acc = (case (entry, acc) of ((i, spec), (owns, defs)) \<Rightarrow>
     let owned = (case so_ownedPasses spec of None \<Rightarrow> [so_primaryPass spec] | Some ps \<Rightarrow> ps) in
     bind_r (throw_if (owned = [] \<or> length (dedup owned) \<noteq> length owned \<or> so_primaryPass spec \<notin> set owned)
        (NativeError (''Invalid pipeline ownership for stage '' @ i))) (\<lambda>_.
     bind_r (fold_r (own_pass passes i owned) owned
        \<lparr>owners = owns, completed = [], os_requires = [], os_invalidates = []\<rparr>) (\<lambda>s.
     bind_r (throw_if (length (completed s) \<noteq> length (dedup owned))
        (NativeError (''Pipeline stage '' @ i @ '' leaves an owned pass invalidated''))) (\<lambda>_.
     Inr (owners s, defs @ [(i, \<lparr>sd_id = i, sd_primaryPass = so_primaryPass spec, sd_ownedPasses = owned,
            sd_requires = os_requires s, sd_invalidates = os_invalidates s\<rparr>)])))))"

definition compilePipelineStageDefinitions ::
  "(string, pass_definition) jsmap \<Rightarrow> (string, stage_ownership) jsmap \<Rightarrow>
   (string, stage_definition) jsmap result" where
  "compilePipelineStageDefinitions passes ownership =
     bind_r (exactIdentities passes PASS_INITIAL_STATES ''passes'') (\<lambda>_.
     bind_r (exactIdentities ownership PIPELINE_STAGE_OWNERSHIP ''stages'') (\<lambda>_.
     bind_r (check_all (check_pass passes) passes) (\<lambda>_.
     bind_r (fold_r (compile_stage passes) ownership ([], [])) (\<lambda>(owns, defs).
     Inr (map_from defs)))))"

text \<open>The table a module load computes; an exception would leave the module unloaded.\<close>

definition PIPELINE_STAGE_DEFINITIONS :: "(string, stage_definition) jsmap" where
  "PIPELINE_STAGE_DEFINITIONS =
     (case compilePipelineStageDefinitions PASS_DEFINITIONS PIPELINE_STAGE_OWNERSHIP of
        Inl _ \<Rightarrow> [] | Inr defs \<Rightarrow> defs)"

definition getPipelineStageDefinition :: "string \<Rightarrow> stage_definition result" where
  "getPipelineStageDefinition stageId = (case map_get PIPELINE_STAGE_DEFINITIONS stageId of
       None \<Rightarrow> throw (NativeError (''Unknown pipeline stage: '' @ stageId))
     | Some d \<Rightarrow> Inr d)"

section \<open>Stage states\<close>

datatype stage_transition =
    Started_t
  | Blocked_t
  | Succeeded_t
  | Preparation_failed_t
  | Failed_t (originPass: string)

type_synonym pass_status = "(string, pass_state option) jsmap"

text \<open>Reading and writing a property of the status object.\<close>

definition state_of :: "pass_status \<Rightarrow> string \<Rightarrow> pass_state option" where
  "state_of st p = (case map_get st p of None \<Rightarrow> None | Some s \<Rightarrow> s)"

definition assign_each :: "(string \<Rightarrow> pass_state option) \<Rightarrow> string list \<Rightarrow> pass_status \<Rightarrow> pass_status" where
  "assign_each f ps patch = fold (\<lambda>p. map_set p (f p)) ps patch"

definition failed_states :: "string list \<Rightarrow> int \<Rightarrow> pass_status \<Rightarrow> pass_status" where
  "failed_states owned failureIndex patch =
     fold (\<lambda>index. map_set (owned ! index)
        (Some (if int index < failureIndex then Succeeded
               else if int index = failureIndex then Failed else Blocked)))
       [0..<length owned] patch"

definition pipelineStageStatePatch :: "stage_definition \<Rightarrow> stage_transition \<Rightarrow> pass_status" where
  "pipelineStageStatePatch d t =
     (let owned = sd_ownedPasses d; invs = sd_invalidates d; primary = sd_primaryPass d;
          blocked = assign_each (\<lambda>_. Some Blocked) (owned @ invs) [] in
      case t of
        Succeeded_t \<Rightarrow> assign_each (\<lambda>_. Some Succeeded) owned []
      | Started_t \<Rightarrow> assign_each (\<lambda>_. Some Running) owned
                       (assign_each (map_get PASS_INITIAL_STATES) invs [])
      | Blocked_t \<Rightarrow> blocked
      | Preparation_failed_t \<Rightarrow> map_set primary (Some Failed) blocked
      | Failed_t originp \<Rightarrow>
          (let origin = (if originp \<in> set owned then originp else primary) in
           failed_states owned (index_of origin owned) blocked))"

text \<open>\<open>Object.assign(status, patch)\<close>\<close>

definition assign_patch :: "pass_status \<Rightarrow> pass_status \<Rightarrow> pass_status" where
  "assign_patch st patch = fold (\<lambda>(p, s). map_set p s) patch st"

definition pipelineStageBlockers :: "pass_status \<Rightarrow> string list \<Rightarrow> (string \<times> pass_state option) list" where
  "pipelineStageBlockers st req =
     filter (\<lambda>(p, s). s \<noteq> Some Succeeded) (map (\<lambda>p. (p, state_of st p)) req)"

section \<open>The stage compiler\<close>

text \<open>Pass relations, empty for a pass that is not in the table.\<close>

definition requires_in :: "(string, pass_definition) jsmap \<Rightarrow> string \<Rightarrow> string set" where
  "requires_in passes p = (case map_get passes p of None \<Rightarrow> {} | Some d \<Rightarrow> set (pd_requires d))"

definition invalidates_in :: "(string, pass_definition) jsmap \<Rightarrow> string \<Rightarrow> string set" where
  "invalidates_in passes p = (case map_get passes p of None \<Rightarrow> {} | Some d \<Rightarrow> set (pd_invalidates d))"

text \<open>The passes that are complete after the given ones ran in order.\<close>

definition complete_after :: "(string, pass_definition) jsmap \<Rightarrow> string list \<Rightarrow> string set" where
  "complete_after passes ps = fold (\<lambda>p s. insert p (s - invalidates_in passes p)) ps {}"

text \<open>What a stage definition promises about the passes it was compiled from.\<close>

definition stage_sound :: "(string, pass_definition) jsmap \<Rightarrow> stage_definition \<Rightarrow> bool" where
  "stage_sound passes d \<longleftrightarrow>
     (let owned = sd_ownedPasses d in
      distinct owned \<and> sd_primaryPass d \<in> set owned \<and> (\<forall>p \<in> set owned. map_has passes p) \<and>
      set (sd_requires d) = (\<Union>p \<in> set owned. requires_in passes p) - set owned \<and>
      set (sd_invalidates d) = (\<Union>p \<in> set owned. invalidates_in passes p) - set owned \<and>
      distinct (sd_requires d) \<and> distinct (sd_invalidates d) \<and>
      (\<forall>j < length owned. requires_in passes (owned ! j) \<inter> set owned \<subseteq> set (take j owned)) \<and>
      (\<forall>j < length owned. \<forall>i < j. owned ! i \<notin> invalidates_in passes (owned ! j)))"

lemma set_set_add [simp]: "set (set_add x xs) = insert x (set xs)"
  by (auto simp: set_add_def)

lemma distinct_set_add [simp]: "distinct (set_add x xs) \<longleftrightarrow> distinct xs"
  by (auto simp: set_add_def)

lemma set_set_delete [simp]: "set (set_delete x xs) = set xs - {x}"
  by (auto simp: set_delete_def)

lemma distinct_set_delete [simp]: "distinct xs \<Longrightarrow> distinct (set_delete x xs)"
  by (simp add: set_delete_def)

lemma use_dependencies:
  "fold_r (use_dependency stage owned don) deps req = Inr req' \<Longrightarrow>
     set deps \<inter> set owned \<subseteq> set don \<and> set req' = set req \<union> (set deps - set owned) \<and>
     (distinct req \<longrightarrow> distinct req')"
proof (induction deps arbitrary: req)
  case Nil
  then show ?case by simp
next
  case (Cons d deps)
  then show ?case by (auto simp: use_dependency_def split: if_splits)
qed

lemma use_invalidations:
  "fold (use_invalidation owned) is (don, invs) = (don', invs') \<Longrightarrow>
     set don' = set don - (set is \<inter> set owned) \<and> set invs' = set invs \<union> (set is - set owned) \<and>
     (distinct don \<longrightarrow> distinct don') \<and> (distinct invs \<longrightarrow> distinct invs')"
proof (induction "is" arbitrary: don invs)
  case Nil
  then show ?case by simp
next
  case (Cons i "is")
  show ?case
  proof (cases "i \<in> set owned")
    case True
    then show ?thesis using Cons.IH [of "set_delete i don" invs] Cons.prems
      by (auto simp: use_invalidation_def)
  next
    case False
    then show ?thesis using Cons.IH [of don "set_add i invs"] Cons.prems
      by (auto simp: use_invalidation_def)
  qed
qed

lemma complete_after_snoc [simp]:
  "complete_after passes (ps @ [p]) = insert p (complete_after passes ps - invalidates_in passes p)"
  by (simp add: complete_after_def)

lemma complete_after_subset: "complete_after passes ps \<subseteq> set ps"
  by (induction ps rule: rev_induct) (auto simp: complete_after_def)

text \<open>The loop over owned passes, after a prefix of them.\<close>

definition ownership_inv ::
  "(string, pass_definition) jsmap \<Rightarrow> string \<Rightarrow> string list \<Rightarrow> (string, string) jsmap \<Rightarrow> string list \<Rightarrow> ownership_state \<Rightarrow> bool" where
  "ownership_inv passes stage owned owns ps s \<longleftrightarrow>
     set (os_requires s) = (\<Union>p \<in> set ps. requires_in passes p) - set owned \<and> distinct (os_requires s) \<and>
     set (os_invalidates s) = (\<Union>p \<in> set ps. invalidates_in passes p) - set owned \<and> distinct (os_invalidates s) \<and>
     set (completed s) = complete_after passes ps \<and> distinct (completed s) \<and>
     (\<forall>p. map_get (owners s) p = (if p \<in> set ps then Some stage else map_get owns p)) \<and>
     (\<forall>p \<in> set ps. map_get owns p = None \<and> map_has passes p) \<and>
     (\<forall>j < length ps. requires_in passes (ps ! j) \<inter> set owned \<subseteq> set (take j ps))"

lemma own_pass_step:
  assumes inv: "ownership_inv passes stage owned owns ps s"
    and p: "p \<in> set owned" "set ps \<subseteq> set owned"
    and run: "own_pass passes stage owned p s = Inr s'"
  shows "ownership_inv passes stage owned owns (ps @ [p]) s'"
proof -
  from run obtain pass where new: "\<not> map_has (owners s) p" and pass: "map_get passes p = Some pass"
    by (auto simp: own_pass_def throw_def split: bool.splits option.splits)
  let ?f = "fold (use_invalidation owned) (pd_invalidates pass) (completed s, os_invalidates s)"
  from run new pass obtain req where
    req: "fold_r (use_dependency stage owned (completed s)) (pd_requires pass) (os_requires s) = Inr req"
    and s': "s' = \<lparr>owners = map_set p stage (owners s), completed = set_add p (fst ?f),
               os_requires = req, os_invalidates = snd ?f\<rparr>"
    by (auto simp: own_pass_def split: prod.splits)
  have d: "set (pd_requires pass) = requires_in passes p" "set (pd_invalidates pass) = invalidates_in passes p"
    using pass by (simp_all add: requires_in_def invalidates_in_def)
  note r = use_dependencies [OF req, unfolded d]
  note i = use_invalidations [of owned "pd_invalidates pass" "completed s" "os_invalidates s" "fst ?f" "snd ?f",
      unfolded d, simplified]
  have c: "set (completed s) = complete_after passes ps" "complete_after passes ps \<subseteq> set owned"
    "complete_after passes ps \<subseteq> set ps"
    using inv complete_after_subset p(2) by (auto simp: ownership_inv_def)
  have "set (completed s') = complete_after passes (ps @ [p])" using i c by (auto simp: s')
  moreover have "set (os_requires s') = (\<Union>p \<in> set (ps @ [p]). requires_in passes p) - set owned"
    using r inv by (auto simp: s' ownership_inv_def)
  moreover have "set (os_invalidates s') = (\<Union>p \<in> set (ps @ [p]). invalidates_in passes p) - set owned"
    using i inv by (auto simp: s' ownership_inv_def)
  moreover have "requires_in passes ((ps @ [p]) ! j) \<inter> set owned \<subseteq> set (take j (ps @ [p]))"
    if "j < length (ps @ [p])" for j
    using that inv r c by (cases "j < length ps") (auto simp: ownership_inv_def nth_append not_less le_Suc_eq)
  moreover have "\<forall>q \<in> set (ps @ [p]). map_get owns q = None \<and> map_has passes q"
    using inv new pass by (auto simp: ownership_inv_def map_has_get split: if_splits)
  ultimately show ?thesis
    using inv r i by (simp add: ownership_inv_def s' del: nth_append take_append)
qed

lemma own_passes:
  assumes "fold_r (own_pass passes stage owned) ps \<lparr>owners = owns, completed = [], os_requires = [], os_invalidates = []\<rparr> = Inr s"
    and "set ps \<subseteq> set owned"
  shows "ownership_inv passes stage owned owns ps s"
  using assms
proof (induction ps arbitrary: s rule: rev_induct)
  case Nil
  then show ?case by (auto simp: ownership_inv_def complete_after_def)
next
  case (snoc p ps)
  then obtain u where "fold_r (own_pass passes stage owned) ps \<lparr>owners = owns, completed = [], os_requires = [], os_invalidates = []\<rparr> = Inr u"
    and "own_pass passes stage owned p u = Inr s"
    by auto
  then show ?case using snoc by (auto intro: own_pass_step)
qed

lemma complete_after_keeps:
  "p \<in> complete_after passes (xs @ q # ys) \<Longrightarrow> p \<in> invalidates_in passes q \<Longrightarrow> p \<noteq> q \<Longrightarrow> p \<in> set ys"
proof (induction ys rule: rev_induct)
  case Nil
  then show ?case by simp
next
  case (snoc y ys)
  have "p \<in> complete_after passes ((xs @ q # ys) @ [y])" using snoc.prems(1) by simp
  then show ?case using snoc unfolding complete_after_snoc by auto
qed

lemma all_complete_order:
  assumes "complete_after passes ps = set ps" "distinct ps" "i < j" "j < length ps"
  shows "ps ! i \<notin> invalidates_in passes (ps ! j)"
proof
  assume bad: "ps ! i \<in> invalidates_in passes (ps ! j)"
  have "ps = take j ps @ ps ! j # drop (Suc j) ps" using assms(4) by (rule id_take_nth_drop)
  moreover have "ps ! i \<in> complete_after passes ps" using assms by simp
  ultimately have "ps ! i \<in> complete_after passes (take j ps @ ps ! j # drop (Suc j) ps)" by simp
  moreover have "ps ! i \<noteq> ps ! j" using assms by (simp add: nth_eq_iff_index_eq)
  ultimately have "ps ! i \<in> set (drop (Suc j) ps)" using bad complete_after_keeps by metis
  then obtain k where "k < length ps - Suc j" "ps ! i = ps ! (Suc j + k)"
    by (auto simp: in_set_conv_nth)
  then show False using assms by (simp add: nth_eq_iff_index_eq)
qed

definition owned_by :: "stage_ownership \<Rightarrow> string list" where
  "owned_by spec = (case so_ownedPasses spec of None \<Rightarrow> [so_primaryPass spec] | Some ps \<Rightarrow> ps)"

text \<open>A compiled stage carries the identity and the ownership its entry declares.\<close>

definition declared_as :: "string \<times> stage_ownership \<Rightarrow> string \<times> stage_definition \<Rightarrow> bool" where
  "declared_as e f \<longleftrightarrow> fst e = fst f \<and> sd_primaryPass (snd f) = so_primaryPass (snd e) \<and>
     sd_ownedPasses (snd f) = owned_by (snd e)"

definition compile_inv ::
  "(string, pass_definition) jsmap \<Rightarrow> (string, string) jsmap \<times> (string \<times> stage_definition) list \<Rightarrow> bool" where
  "compile_inv passes acc \<longleftrightarrow>
     (\<forall>(i, d) \<in> set (snd acc). sd_id d = i \<and> stage_sound passes d) \<and>
     (\<forall>(i, d) \<in> set (snd acc). \<forall>p \<in> set (sd_ownedPasses d). map_has (fst acc) p) \<and>
     sorted_wrt (\<lambda>a b. set (sd_ownedPasses (snd a)) \<inter> set (sd_ownedPasses (snd b)) = {}) (snd acc)"

lemma compile_stage_result:
  assumes "compile_stage passes (i, spec) (owns, defs) = Inr (owns', defs')"
  obtains d where "defs' = defs @ [(i, d)]" "sd_id d = i" "sd_primaryPass d = so_primaryPass spec"
    "sd_ownedPasses d = owned_by spec" "stage_sound passes d"
    "\<And>p. map_get owns' p = (if p \<in> set (owned_by spec) then Some i else map_get owns p)"
    "\<And>p. p \<in> set (owned_by spec) \<Longrightarrow> map_get owns p = None"
proof -
  let ?o = "owned_by spec"
  from assms obtain s where ok: "?o \<noteq> []" "distinct ?o" "so_primaryPass spec \<in> set ?o"
    and run: "fold_r (own_pass passes i ?o) ?o \<lparr>owners = owns, completed = [], os_requires = [], os_invalidates = []\<rparr> = Inr s"
    and len: "length (completed s) = length (dedup ?o)" and o': "owns' = owners s"
    and d': "defs' = defs @ [(i, \<lparr>sd_id = i, sd_primaryPass = so_primaryPass spec, sd_ownedPasses = ?o,
            sd_requires = os_requires s, sd_invalidates = os_invalidates s\<rparr>)]"
    by (auto simp: compile_stage_def Let_def owned_by_def [symmetric] length_dedup_eq_iff)
  let ?d = "\<lparr>sd_id = i, sd_primaryPass = so_primaryPass spec, sd_ownedPasses = ?o,
            sd_requires = os_requires s, sd_invalidates = os_invalidates s\<rparr>"
  have inv: "ownership_inv passes i ?o owns ?o s" using run by (rule own_passes) simp
  have "card (complete_after passes ?o) = card (set ?o)"
    using inv len by (simp add: ownership_inv_def length_dedup distinct_card [symmetric])
  then have full: "complete_after passes ?o = set ?o"
    by (simp add: card_subset_eq complete_after_subset)
  have "stage_sound passes ?d"
    using inv ok all_complete_order [OF full ok(2)]
    by (auto simp: stage_sound_def ownership_inv_def)
  then show ?thesis
    using that [of ?d] inv d' o' by (auto simp: ownership_inv_def)
qed

interpretation stage_loop: loop_invariant "compile_stage passes" "compile_inv passes" "\<lambda>_. True"
  for passes
proof unfold_locales
  fix s s' :: "(string, string) jsmap \<times> (string \<times> stage_definition) list" and x
  assume inv: "compile_inv passes s" and run: "compile_stage passes x s = Inr s'"
  obtain i spec owns defs owns' defs' where e: "x = (i, spec)" "s = (owns, defs)" "s' = (owns', defs')"
    by (metis surj_pair)
  from run [unfolded e] obtain d where d: "defs' = defs @ [(i, d)]" "sd_id d = i"
    "sd_ownedPasses d = owned_by spec" "stage_sound passes d"
    "\<And>p. map_get owns' p = (if p \<in> set (owned_by spec) then Some i else map_get owns p)"
    "\<And>p. p \<in> set (owned_by spec) \<Longrightarrow> map_get owns p = None"
    by (rule compile_stage_result) blast
  have "set (sd_ownedPasses c) \<inter> set (sd_ownedPasses d) = {}" if "(k, c) \<in> set defs" for k c
    using inv that d(3,6) by (fastforce simp: compile_inv_def e map_has_get)
  then have "\<forall>a \<in> set defs. set (sd_ownedPasses (snd a)) \<inter> set (sd_ownedPasses d) = {}"
    by (metis prod.collapse)
  then have "sorted_wrt (\<lambda>a b. set (sd_ownedPasses (snd a)) \<inter> set (sd_ownedPasses (snd b)) = {}) defs'"
    using inv by (simp add: d(1) sorted_wrt_append compile_inv_def e)
  then show "compile_inv passes s'"
    using inv d by (auto simp: compile_inv_def e map_has_get split: prod.splits)
qed

lemma compile_stages_keys:
  "fold_r (compile_stage passes) es (owns, defs) = Inr (owns', defs') \<Longrightarrow>
     list_all2 declared_as
       es (drop (length defs) defs') \<and> take (length defs) defs' = defs"
proof (induction es arbitrary: owns defs)
  case Nil
  then show ?case by simp
next
  case (Cons e es)
  obtain i spec where e: "e = (i, spec)" by (cases e)
  from Cons.prems obtain u v where first: "compile_stage passes (i, spec) (owns, defs) = Inr (u, v)"
    and rest: "fold_r (compile_stage passes) es (u, v) = Inr (owns', defs')"
    by (auto simp: e)
  from first obtain d where d: "v = defs @ [(i, d)]" "sd_primaryPass d = so_primaryPass spec"
    "sd_ownedPasses d = owned_by spec"
    by (rule compile_stage_result) blast
  note IH = Cons.IH [OF rest]
  let ?n = "length defs"
  have v: "take (Suc ?n) defs' = defs @ [(i, d)]" using IH d(1) by simp
  have "defs' ! ?n = (i, d)" "?n < length defs'" 
    using arg_cong [OF v, of "\<lambda>l. l ! ?n"] arg_cong [OF v, of length] by auto
  then have "drop ?n defs' = (i, d) # drop (Suc ?n) defs'" by (metis Cons_nth_drop_Suc)
  moreover have "take ?n defs' = defs" using arg_cong [OF v, of "take ?n"] by simp
  ultimately show ?case using IH d by (simp add: e declared_as_def)
qed

lemma compiled_stages:
  assumes "distinct (map fst ownership)" "compilePipelineStageDefinitions passes ownership = Inr defs"
  shows "list_all2 declared_as
       ownership defs"
    and "\<exists>owns. compile_inv passes (owns, defs)"
proof -
  from assms(2) obtain owns l where run: "fold_r (compile_stage passes) ownership ([], []) = Inr (owns, l)"
    and defs: "defs = map_from l"
    by (auto simp: compilePipelineStageDefinitions_def)
  have k: "list_all2 declared_as
       ownership l"
    using compile_stages_keys [OF run] by simp
  then have "map fst l = map fst ownership"
    by (induction rule: list_all2_induct) (auto simp: declared_as_def)
  then have l: "defs = l" using assms(1) by (simp add: defs map_from_distinct)
  show "list_all2 declared_as
       ownership defs" using k l by simp
  have "compile_inv passes (owns, l)"
    using stage_loop.loop_keeps [OF _ _ run] by (simp add: compile_inv_def)
  then show "\<exists>owns. compile_inv passes (owns, defs)" using l by blast
qed

text \<open>
  C20. The compiler of stage definitions, for any pass table and ownership it accepts: the stages come
  out in the order of the ownership table with the primary and owned passes it declares; a stage
  requires and invalidates exactly what its owned passes require and invalidate outside the stage;
  inside the stage every pass runs after the owned passes it requires, and no pass runs after one
  that it would invalidate; no pass belongs to two stages.
\<close>

theorem compiled_stage_definitions:
  assumes "distinct (map fst ownership)"
    and "compilePipelineStageDefinitions passes ownership = Inr defs"
  shows "list_all2 declared_as ownership defs \<and>
         (\<forall>a < length defs. sd_id (snd (defs ! a)) = fst (defs ! a) \<and> stage_sound passes (snd (defs ! a))) \<and>
         (\<forall>a < length defs. \<forall>b < length defs. a \<noteq> b \<longrightarrow>
            set (sd_ownedPasses (snd (defs ! a))) \<inter> set (sd_ownedPasses (snd (defs ! b))) = {})"
proof (intro conjI allI impI)
  obtain owns where inv: "compile_inv passes (owns, defs)" using compiled_stages(2) [OF assms] by blast
  show "list_all2 declared_as ownership defs" by (rule compiled_stages(1) [OF assms])
  show "sd_id (snd (defs ! a)) = fst (defs ! a)" "stage_sound passes (snd (defs ! a))" if "a < length defs" for a
    using inv nth_mem [OF that] by (auto simp: compile_inv_def)
  have lt: "set (sd_ownedPasses (snd (defs ! a))) \<inter> set (sd_ownedPasses (snd (defs ! b))) = {}"
    if "a < b" "b < length defs" for a b
    using inv that sorted_wrt_nth_less by (fastforce simp: compile_inv_def)
  fix a b assume ab: "a < length defs" "b < length defs" "a \<noteq> b"
  then consider "a < b" | "b < a" by linarith
  then show "set (sd_ownedPasses (snd (defs ! a))) \<inter> set (sd_ownedPasses (snd (defs ! b))) = {}"
    using lt ab by cases (auto simp: Int_commute)
qed

theorem compiled_stage_definitions_witness:
  "is_ok (compilePipelineStageDefinitions PASS_DEFINITIONS PIPELINE_STAGE_OWNERSHIP) \<and>
   list_all2 declared_as PIPELINE_STAGE_OWNERSHIP PIPELINE_STAGE_DEFINITIONS"
proof -
  have ok: "is_ok (compilePipelineStageDefinitions PASS_DEFINITIONS PIPELINE_STAGE_OWNERSHIP)" by code_simp
  then obtain defs where d: "compilePipelineStageDefinitions PASS_DEFINITIONS PIPELINE_STAGE_OWNERSHIP = Inr defs"
    unfolding is_ok_iff by blast
  have "distinct (map fst PIPELINE_STAGE_OWNERSHIP)" by code_simp
  from compiled_stage_definitions [OF this d] show ?thesis
    using ok by (simp add: PIPELINE_STAGE_DEFINITIONS_def d)
qed

section \<open>The built-in stages\<close>

definition stage_at :: "nat \<Rightarrow> stage_definition" where
  "stage_at k = snd (PIPELINE_STAGE_DEFINITIONS ! k)"

definition owned_from :: "nat \<Rightarrow> string list" where
  "owned_from k = concat (map (sd_ownedPasses \<circ> snd) (drop k PIPELINE_STAGE_DEFINITIONS))"

lemma builtin_stage_table [code]:
  "PIPELINE_STAGE_DEFINITIONS =
     [(''resolve'', \<lparr>sd_id = ''resolve'', sd_primaryPass = ''resolve'',
         sd_ownedPasses = [''parse'', ''align'', ''resolve''], sd_requires = [],
         sd_invalidates = [''build-ir'', ''compose'', ''verify'', ''repair'', ''lock'', ''emit'']\<rparr>),
      (''semantic'', \<lparr>sd_id = ''semantic'', sd_primaryPass = ''build-ir'', sd_ownedPasses = [''build-ir''],
         sd_requires = [''resolve''], sd_invalidates = [''compose'', ''verify'', ''repair'', ''lock'', ''emit'']\<rparr>),
      (''compose'', \<lparr>sd_id = ''compose'', sd_primaryPass = ''compose'', sd_ownedPasses = [''compose''],
         sd_requires = [''build-ir''], sd_invalidates = [''verify'', ''repair'', ''lock'', ''emit'']\<rparr>),
      (''verify'', \<lparr>sd_id = ''verify'', sd_primaryPass = ''verify'', sd_ownedPasses = [''verify''],
         sd_requires = [''compose''], sd_invalidates = [''repair'', ''lock'', ''emit'']\<rparr>),
      (''lock'', \<lparr>sd_id = ''lock'', sd_primaryPass = ''lock'', sd_ownedPasses = [''lock''],
         sd_requires = [''verify''], sd_invalidates = [''emit'']\<rparr>),
      (''emit'', \<lparr>sd_id = ''emit'', sd_primaryPass = ''emit'', sd_ownedPasses = [''emit''],
         sd_requires = [''lock''], sd_invalidates = []\<rparr>)]"
  by code_simp

text \<open>
  The built-in tables: the module's stage compilation succeeds, one stage per declared stage
  identity; the stages own every pass but \<open>repair\<close>, each once, in the declared pass order; every
  stage but the first requires passes of the stage before it and nothing else; starting a stage
  invalidates every pass of every later stage, and besides them at most \<open>repair\<close>.
\<close>

theorem builtin_stages:
  "is_ok (compilePipelineStageDefinitions PASS_DEFINITIONS PIPELINE_STAGE_OWNERSHIP) \<and>
   map fst PIPELINE_STAGE_DEFINITIONS = PIPELINE_STAGE_IDS \<and>
   owned_from 0 = filter (\<lambda>p. p \<noteq> ''repair'') (map fst PASS_INITIAL_STATES) \<and>
   list_all (\<lambda>k. sd_requires (stage_at k) = [] \<longleftrightarrow> k = 0) [0..<6] \<and>
   list_all (\<lambda>k. set (sd_requires (stage_at (k + 1))) \<subseteq> set (sd_ownedPasses (stage_at k))) [0..<5] \<and>
   list_all (\<lambda>k. set (owned_from (k + 1)) \<subseteq> set (sd_invalidates (stage_at k)) \<and>
      set (sd_invalidates (stage_at k)) \<subseteq> insert ''repair'' (set (owned_from (k + 1)))) [0..<6]"
  by code_simp

text \<open>
  Requested stages: the capture returns exactly the caller's stages in the caller's order when
  every slot holds a declared stage and none is repeated, and refuses everything else with
  \<open>PIPELINE-USAGE-001\<close>.
\<close>

theorem requested_stages:
  "capturePipelineRequestedStages v =
     (case v of None \<Rightarrow> Inl (CodedFailure ''PIPELINE-USAGE-001'' [])
      | Some slots \<Rightarrow>
          if distinct slots \<and> set slots \<subseteq> Some ` set PIPELINE_STAGE_IDS then Inr (map the slots)
          else Inl (CodedFailure ''PIPELINE-USAGE-001'' []))"
proof -
  have "fold_r capture_stage slots seen =
      (if distinct slots \<and> set slots \<subseteq> Some ` set PIPELINE_STAGE_IDS \<and> Some ` set seen \<inter> set slots = {}
       then Inr (seen @ map the slots) else Inl stage_usage)" for slots :: "string option list" and seen
  proof (induction slots arbitrary: seen)
    case Nil
    show ?case by simp
  next
    case (Cons slot slots)
    show ?case
    proof (cases slot)
      case None
      then show ?thesis by (auto simp: capture_stage_def throw_def)
    next
      case (Some stage)
      have "capture_stage slot seen =
        (if stage \<notin> set PIPELINE_STAGE_IDS \<or> stage \<in> set seen then Inl stage_usage else Inr (seen @ [stage]))"
        by (simp add: capture_stage_def throw_def Some)
      then show ?thesis by (auto simp: Cons.IH Some)
    qed
  qed
  from this [of _ "[]"] show ?thesis
    by (simp add: capturePipelineRequestedStages_def throw_def stage_usage_def split: option.split)
qed

section \<open>What a transition does to the pass states\<close>

lemma map_get_assign_each [simp]:
  "map_get (assign_each f ps m) p = (if p \<in> set ps then Some (f p) else map_get m p)"
  unfolding assign_each_def by (induction ps arbitrary: m) auto

lemma distinct_assign_each [simp]: "distinct (map fst m) \<Longrightarrow> distinct (map fst (assign_each f ps m))"
  unfolding assign_each_def by (induction ps arbitrary: m) (auto simp: distinct_map_set)

lemma index_of_nth: "distinct xs \<Longrightarrow> i < length xs \<Longrightarrow> index_of (xs ! i) xs = int i"
proof (induction xs arbitrary: i)
  case Nil
  then show ?case by simp
next
  case (Cons x xs)
  then show ?case by (cases i) (auto simp: Let_def)
qed

lemma failed_states_upto:
  assumes "distinct owned" "n \<le> length owned"
  shows "map_get (fold (\<lambda>index. map_set (owned ! index) (g (int index))) [0..<n] m) p =
     (if p \<in> set (take n owned) then Some (g (index_of p owned)) else map_get m p)"
  using assms(2)
proof (induction n)
  case 0
  show ?case by simp
next
  case (Suc n)
  then have n: "n < length owned" by simp
  have "set (take (Suc n) owned) = insert (owned ! n) (set (take n owned))"
    using n by (simp add: take_Suc_conv_app_nth)
  moreover have "index_of (owned ! n) owned = int n" using assms(1) n by (rule index_of_nth)
  ultimately show ?case using Suc.IH n by auto
qed

lemma failed_states_get:
  assumes "distinct owned"
  shows "map_get (failed_states owned k m) p =
     (if p \<in> set owned then Some (Some (if index_of p owned < k then Succeeded
        else if index_of p owned = k then Failed else Blocked)) else map_get m p)"
  using failed_states_upto [OF assms order_refl,
      of "\<lambda>i. Some (if i < k then Succeeded else if i = k then Failed else Blocked)" m p]
  by (simp add: failed_states_def)

lemma distinct_failed_states: "distinct (map fst m) \<Longrightarrow> distinct (map fst (failed_states owned k m))"
proof -
  have "distinct (map fst m) \<Longrightarrow> distinct (map fst (fold (\<lambda>i. map_set (owned ! i) (g i)) is m))" for g "is"
    by (induction "is" arbitrary: m) (auto simp: distinct_map_set)
  then show "distinct (map fst m) \<Longrightarrow> ?thesis" by (simp add: failed_states_def)
qed

lemma patch_distinct: "distinct (map fst (pipelineStageStatePatch d t))"
  by (cases t) (simp_all add: pipelineStageStatePatch_def Let_def distinct_map_set distinct_failed_states)

lemma assign_patch_get:
  "distinct (map fst patch) \<Longrightarrow>
     map_get (assign_patch st patch) p = (case map_get patch p of Some s \<Rightarrow> Some s | None \<Rightarrow> map_get st p)"
proof (induction patch arbitrary: st)
  case Nil
  show ?case by (simp add: assign_patch_def)
next
  case (Cons e patch)
  obtain q s where e: "e = (q, s)" by (cases e)
  have "assign_patch st (e # patch) = assign_patch (map_set q s st) patch" by (simp add: assign_patch_def e)
  moreover have "map_get patch q = None" using Cons.prems by (simp add: e map_get_None_iff)
  moreover have "map_get (e # patch) p = (if p = q then Some s else map_get patch p)"
    by (auto simp: e map_get_def)
  moreover have "map_get (assign_patch (map_set q s st) patch) p =
      (case map_get patch p of Some s' \<Rightarrow> Some s' | None \<Rightarrow> map_get (map_set q s st) p)"
    using Cons.IH [of "map_set q s st"] Cons.prems by simp
  ultimately show ?case by (auto split: option.splits)
qed

definition apply_transition :: "stage_definition \<Rightarrow> stage_transition \<Rightarrow> pass_status \<Rightarrow> pass_status" where
  "apply_transition d t st = assign_patch st (pipelineStageStatePatch d t)"

lemma apply_transition_get:
  "map_get (apply_transition d t st) p =
     (case map_get (pipelineStageStatePatch d t) p of Some s \<Rightarrow> Some s | None \<Rightarrow> map_get st p)"
  by (simp add: apply_transition_def assign_patch_get patch_distinct)

text \<open>The state each transition gives to a pass.\<close>

definition origin_index :: "stage_definition \<Rightarrow> string \<Rightarrow> int" where
  "origin_index d originp =
     index_of (if originp \<in> set (sd_ownedPasses d) then originp else sd_primaryPass d) (sd_ownedPasses d)"

definition owned_state :: "stage_definition \<Rightarrow> stage_transition \<Rightarrow> string \<Rightarrow> pass_state" where
  "owned_state d t p = (case t of
       Started_t \<Rightarrow> Running | Succeeded_t \<Rightarrow> Succeeded | Blocked_t \<Rightarrow> Blocked
     | Preparation_failed_t \<Rightarrow> if p = sd_primaryPass d then Failed else Blocked
     | Failed_t originp \<Rightarrow>
         (let i = index_of p (sd_ownedPasses d); k = origin_index d originp in
          if i < k then Succeeded else if i = k then Failed else Blocked))"

definition invalidated_state :: "stage_transition \<Rightarrow> pass_status \<Rightarrow> string \<Rightarrow> pass_state option" where
  "invalidated_state t st p = (case t of
       Started_t \<Rightarrow> map_get PASS_INITIAL_STATES p | Succeeded_t \<Rightarrow> state_of st p | _ \<Rightarrow> Some Blocked)"

lemma transition_state:
  assumes "distinct (sd_ownedPasses d)" and "sd_primaryPass d \<in> set (sd_ownedPasses d)"
    and "set (sd_ownedPasses d) \<inter> set (sd_invalidates d) = {}"
  shows "state_of (apply_transition d t st) p =
     (if p \<in> set (sd_ownedPasses d) then Some (owned_state d t p)
      else if p \<in> set (sd_invalidates d) then invalidated_state t st p
      else state_of st p)"
proof (cases t)
  case (Failed_t originp)
  then show ?thesis using assms
    by (simp add: state_of_def apply_transition_get pipelineStageStatePatch_def owned_state_def invalidated_state_def
        origin_index_def Let_def failed_states_get)
next
  case Started_t
  then show ?thesis using assms
    by (auto simp: state_of_def apply_transition_get pipelineStageStatePatch_def owned_state_def
        invalidated_state_def Let_def)
qed (use assms in \<open>auto simp: state_of_def apply_transition_get pipelineStageStatePatch_def owned_state_def
        invalidated_state_def Let_def\<close>)

text \<open>
  The effect of every stage transition on the recorded pass states: owned passes are running
  after a start, succeeded after success and blocked when the stage is blocked; a failure marks the
  failing pass failed, the owned passes before it succeeded and those after it blocked, and a failure
  outside the stage is charged to the primary pass; invalidated passes return to their
  initial state on a start, are blocked by a failure and untouched by success; no other pass changes.
\<close>

theorem stage_transition_effect:
  assumes "distinct (sd_ownedPasses d)" and "sd_primaryPass d \<in> set (sd_ownedPasses d)"
    and "set (sd_ownedPasses d) \<inter> set (sd_invalidates d) = {}"
  shows "state_of (apply_transition d t st) p =
     (if p \<in> set (sd_ownedPasses d) then Some (owned_state d t p)
      else if p \<in> set (sd_invalidates d) then invalidated_state t st p
      else state_of st p)"
  using assms by (rule transition_state)

theorem stage_transition_effect_witness:
  "state_of (apply_transition (stage_at 0) (Failed_t ''align'') [(''verify'', Some Succeeded)]) ''parse'' =
     Some Succeeded \<and>
   state_of (apply_transition (stage_at 0) (Failed_t ''align'') [(''verify'', Some Succeeded)]) ''verify'' =
     Some Blocked"
proof -
  have h: "distinct (sd_ownedPasses (stage_at 0))" "sd_primaryPass (stage_at 0) \<in> set (sd_ownedPasses (stage_at 0))"
    "set (sd_ownedPasses (stage_at 0)) \<inter> set (sd_invalidates (stage_at 0)) = {}"
    by code_simp+
  have s: "''parse'' \<in> set (sd_ownedPasses (stage_at 0))" "''verify'' \<notin> set (sd_ownedPasses (stage_at 0))"
    "''verify'' \<in> set (sd_invalidates (stage_at 0))"
    "owned_state (stage_at 0) (Failed_t ''align'') ''parse'' = Succeeded"
    by code_simp+
  show ?thesis
    by (simp only: stage_transition_effect [OF h] s if_True if_False simp_thms)
      (simp add: invalidated_state_def)
qed

end
