(* ===== verification/PipelineLifecycle.thy ===== *)
theory PipelineLifecycle
  imports Actions PipelineStages
begin

text \<open>
  The coordinator of one pipeline stage, \<^verbatim>\<open>src/src/application/pipeline-stage-lifecycle.ts\<close>. Injected operations are providers in the sense of \<open>Actions\<close>. That a
  provider's methods are functions is given by their types; the run-time checks for it are not
  modelled. A lock is a value with its pass states and an uninterpreted rest; the code updates the
  pass states of a lock it holds and hands the lock to \<open>saveLock\<close>, which the model does with the
  updated value.
\<close>

section \<open>One stage\<close>

record 'r lock_file =
  passStatus :: pass_status
  lock_rest :: 'r

datatype ('t, 'r) stage_call =
    ReadExistingLock
  | AssertWrite
  | SaveLock "'r lock_file"
  | RecordBlocked string string string
  | RecordStart string
  | RecordSuccess string
  | RecordFailure string string string
  | Execute
  | ExtractLock 't

type_synonym ('t, 'r) stage_history = "('t, 'r) stage_call history"

record ('t, 'r) stage_operations =
  readExistingLock :: "('t, 'r) stage_history \<Rightarrow> thrown + 'r lock_file option"
  assertWrite :: "('t, 'r) stage_history \<Rightarrow> thrown + unit"
  saveLock :: "'r lock_file \<Rightarrow> ('t, 'r) stage_history \<Rightarrow> thrown + unit"
  recordBlocked :: "string \<Rightarrow> string \<Rightarrow> string \<Rightarrow> ('t, 'r) stage_history \<Rightarrow> thrown + unit"
  recordStart :: "string \<Rightarrow> ('t, 'r) stage_history \<Rightarrow> thrown + unit"
  recordSuccess :: "string \<Rightarrow> ('t, 'r) stage_history \<Rightarrow> thrown + unit"
  recordFailure :: "string \<Rightarrow> string \<Rightarrow> string \<Rightarrow> ('t, 'r) stage_history \<Rightarrow> thrown + unit"
  execute_op :: "('t, 'r) stage_history \<Rightarrow> thrown + 't"

record ('t, 'r) stage_options =
  extractLock :: "('t \<Rightarrow> ('t, 'r) stage_history \<Rightarrow> thrown + 'r lock_file) option"
  preserveOwnedPassStates :: bool

text \<open>The local variables \<open>startAttempted\<close> and \<open>executionStarted\<close>.\<close>

record stage_flags =
  startAttempted :: bool
  executionStarted :: bool

type_synonym ('t, 'r, 'a) stage_action = "(('t, 'r) stage_call, stage_flags, 'a) action"

definition projected_requirements :: "string \<Rightarrow> string list \<Rightarrow> string list" where
  "projected_requirements stageId req =
     (if stageId = ''lock'' then filter (\<lambda>pass. pass \<noteq> ''verify'') req else req)"

definition assertStageRequirements :: "'r lock_file option \<Rightarrow> string \<Rightarrow> string list \<Rightarrow> thrown option" where
  "assertStageRequirements lock stageId req =
     (if req = [] then None
      else case lock of
        None \<Rightarrow> Some (CodedError ''PIPELINE-BLOCKED-001''
                 (''Pipeline stage \"'' @ stageId @ ''\" requires an existing graph lock''))
      | Some l \<Rightarrow>
          if pipelineStageBlockers (passStatus l) (projected_requirements stageId req) \<noteq> []
          then Some (CodedError ''PIPELINE-BLOCKED-002''
                 (''Pipeline stage \"'' @ stageId @ ''\" has unsatisfied pass dependencies''))
          else None)"

definition transitionStageState :: "stage_definition \<Rightarrow> stage_transition \<Rightarrow> 'r lock_file \<Rightarrow> 'r lock_file" where
  "transitionStageState d t lock = lock\<lparr>passStatus := apply_transition d t (passStatus lock)\<rparr>"

definition write_fence :: "('t, 'r) stage_operations \<Rightarrow> ('t, 'r, unit) stage_action" where
  "write_fence ops = perform AssertWrite (assertWrite ops)"

definition save_lock :: "('t, 'r) stage_operations \<Rightarrow> 'r lock_file \<Rightarrow> ('t, 'r, unit) stage_action" where
  "save_lock ops lock = bind_a (write_fence ops) (\<lambda>_. perform (SaveLock lock) (saveLock ops lock))"

definition journal_blocked :: "('t, 'r) stage_operations \<Rightarrow> string \<Rightarrow> string \<times> string \<Rightarrow> ('t, 'r, unit) stage_action" where
  "journal_blocked ops pass failure = bind_a (write_fence ops) (\<lambda>_.
     perform (RecordBlocked pass (fst failure) (snd failure)) (recordBlocked ops pass (fst failure) (snd failure)))"

definition journal_failed :: "('t, 'r) stage_operations \<Rightarrow> string \<Rightarrow> string \<times> string \<Rightarrow> ('t, 'r, unit) stage_action" where
  "journal_failed ops pass failure = bind_a (write_fence ops) (\<lambda>_.
     perform (RecordFailure pass (fst failure) (snd failure)) (recordFailure ops pass (fst failure) (snd failure)))"

text \<open>The first \<open>catch\<close>: the stage is blocked.\<close>

definition block_stage ::
  "('t, 'r) stage_operations \<Rightarrow> stage_definition \<Rightarrow> 'r lock_file option \<Rightarrow> thrown \<Rightarrow> ('t, 'r, 't) stage_action" where
  "block_stage ops d previousLock error =
     settlePipelineFailure error
       [(''lock-blocked'', case previousLock of None \<Rightarrow> return_a ()
            | Some lock \<Rightarrow> save_lock ops (transitionStageState d Blocked_t lock)),
        (''journal-blocked'', journal_blocked ops (sd_primaryPass d) (describePipelineFailure error))]"

text \<open>The \<open>try\<close> block: start, execute, record success.\<close>

definition start_stage ::
  "('t, 'r) stage_operations \<Rightarrow> stage_definition \<Rightarrow> 'r lock_file option \<Rightarrow> ('t, 'r, unit) stage_action" where
  "start_stage ops d previousLock =
     bind_a (case previousLock of None \<Rightarrow> return_a ()
        | Some lock \<Rightarrow> save_lock ops (transitionStageState d Started_t lock)) (\<lambda>_.
     bind_a (write_fence ops) (\<lambda>_.
     bind_a (local_a (\<lambda>fl. fl\<lparr>startAttempted := True\<rparr>)) (\<lambda>_.
     bind_a (perform (RecordStart (sd_primaryPass d)) (recordStart ops (sd_primaryPass d))) (\<lambda>_.
     local_a (\<lambda>fl. fl\<lparr>executionStarted := True\<rparr>)))))"

definition read_result_lock ::
  "('t, 'r) stage_operations \<Rightarrow> ('t, 'r) stage_options \<Rightarrow> 't \<Rightarrow> ('t, 'r, 'r lock_file option) stage_action" where
  "read_result_lock ops opts result = (case extractLock opts of
       Some f \<Rightarrow> bind_a (perform (ExtractLock result) (f result)) (\<lambda>lock. return_a (Some lock))
     | None \<Rightarrow> perform ReadExistingLock (readExistingLock ops))"

definition finish_stage ::
  "('t, 'r) stage_operations \<Rightarrow> ('t, 'r) stage_options \<Rightarrow> stage_definition \<Rightarrow> 't \<Rightarrow> ('t, 'r, 't) stage_action" where
  "finish_stage ops opts d result =
     bind_a (read_result_lock ops opts result) (\<lambda>lock.
     bind_a (case lock of None \<Rightarrow> return_a ()
        | Some l \<Rightarrow> if preserveOwnedPassStates opts then return_a ()
                    else save_lock ops (transitionStageState d Succeeded_t l)) (\<lambda>_.
     bind_a (write_fence ops) (\<lambda>_.
     bind_a (perform (RecordSuccess (sd_primaryPass d)) (recordSuccess ops (sd_primaryPass d))) (\<lambda>_.
     return_a result))))"

definition stage_body ::
  "('t, 'r) stage_operations \<Rightarrow> ('t, 'r) stage_options \<Rightarrow> stage_definition \<Rightarrow> 'r lock_file option \<Rightarrow>
   ('t, 'r, 't) stage_action" where
  "stage_body ops opts d previousLock =
     bind_a (start_stage ops d previousLock) (\<lambda>_.
     bind_a (perform Execute (execute_op ops)) (finish_stage ops opts d))"

text \<open>The second \<open>catch\<close>.\<close>

definition failure_transition :: "stage_definition \<Rightarrow> stage_flags \<Rightarrow> thrown \<Rightarrow> stage_transition" where
  "failure_transition d fl error =
     (if executionStarted fl
      then Failed_t (case error of PassFailure originp _ \<Rightarrow> originp | _ \<Rightarrow> sd_primaryPass d)
      else if startAttempted fl then Preparation_failed_t else Blocked_t)"

definition fail_lock ::
  "('t, 'r) stage_operations \<Rightarrow> stage_definition \<Rightarrow> stage_transition \<Rightarrow> ('t, 'r, unit) stage_action" where
  "fail_lock ops d t =
     bind_a (if sd_requires d = [] then return_a None else perform ReadExistingLock (readExistingLock ops))
       (\<lambda>lock. case lock of None \<Rightarrow> return_a () | Some l \<Rightarrow> save_lock ops (transitionStageState d t l))"

definition fail_stage ::
  "('t, 'r) stage_operations \<Rightarrow> stage_definition \<Rightarrow> thrown \<Rightarrow> ('t, 'r, 't) stage_action" where
  "fail_stage ops d error s =
     (let fl = snd s; failure = describePipelineFailure error in
      settlePipelineFailure error
        [(''lock-failed'', fail_lock ops d (failure_transition d fl error)),
         if startAttempted fl
         then (''journal-failed'', journal_failed ops (sd_primaryPass d) failure)
         else (''journal-preparation-blocked'', journal_blocked ops (sd_primaryPass d) failure)] s)"

definition run_stage ::
  "('t, 'r) stage_operations \<Rightarrow> ('t, 'r) stage_options \<Rightarrow> stage_definition \<Rightarrow> string \<Rightarrow> ('t, 'r, 't) stage_action" where
  "run_stage ops opts d stageId =
     bind_a (if sd_requires d = [] then return_a None else perform ReadExistingLock (readExistingLock ops))
       (\<lambda>previousLock.
          case assertStageRequirements previousLock stageId (sd_requires d) of
            Some error \<Rightarrow> block_stage ops d previousLock error
          | None \<Rightarrow> catch_a (stage_body ops opts d previousLock) (fail_stage ops d))"

definition executePipelineStageLifecycle ::
  "string \<Rightarrow> ('t, 'r) stage_operations \<Rightarrow> ('t, 'r) stage_options \<Rightarrow> ('t, 'r) stage_history \<Rightarrow>
   (thrown + 't) \<times> ('t, 'r) stage_history" where
  "executePipelineStageLifecycle stageId ops opts h =
     (case map_get PIPELINE_STAGE_DEFINITIONS stageId of
        None \<Rightarrow> (Inl (PlainError (''Unknown pipeline stage: '' @ stageId)), h)
      | Some d \<Rightarrow>
          (case run_stage ops opts d stageId (h, \<lparr>startAttempted = False, executionStarted = False\<rparr>) of
             (r, h', _) \<Rightarrow> (r, h')))"

section \<open>Fencing of stage writes\<close>

definition stage_write :: "('t, 'r) stage_call \<Rightarrow> bool" where
  "stage_write c = (case c of ReadExistingLock \<Rightarrow> False | AssertWrite \<Rightarrow> False | Execute \<Rightarrow> False
     | ExtractLock _ \<Rightarrow> False | _ \<Rightarrow> True)"

interpretation stage_fence: fenced_writes stage_write AssertWrite
  by unfold_locales (simp add: stage_write_def)

lemma stage_fence_parts:
  "stage_fence.sound (save_lock ops lock)"
  "stage_fence.sound (journal_blocked ops p f)"
  "stage_fence.sound (journal_failed ops p f)"
  by (simp_all add: save_lock_def journal_blocked_def journal_failed_def write_fence_def
      stage_fence.sound_fenced_write)

lemma stage_fence_optional:
  "(\<And>l. stage_fence.sound (f l)) \<Longrightarrow> stage_fence.sound (case x of None \<Rightarrow> return_a () | Some l \<Rightarrow> f l)"
  by (simp add: stage_fence.sound_return split: option.split)

lemma stage_fence_block: "stage_fence.sound (block_stage ops d prev e)"
  unfolding block_stage_def
  by (rule stage_fence.sound_settle)
    (auto simp: stage_fence_parts stage_fence.sound_return split: option.split)

lemma stage_fence_start: "stage_fence.sound (start_stage ops d prev)"
  unfolding start_stage_def write_fence_def
  by (intro stage_fence.sound_bind stage_fence_optional stage_fence_parts
      stage_fence.sound_fenced_local_write stage_fence.sound_local)

lemma stage_fence_finish: "stage_fence.sound (finish_stage ops opts d r)"
proof -
  have "stage_fence.sound (read_result_lock ops opts r)"
    by (auto simp: read_result_lock_def stage_write_def split: option.split
        intro!: stage_fence.sound_bind stage_fence.sound_perform stage_fence.sound_return)
  then show ?thesis unfolding finish_stage_def write_fence_def
    by (intro stage_fence.sound_bind stage_fence.sound_fenced_write_then stage_fence.sound_return)
      (auto simp: stage_fence_parts stage_fence.sound_return split: option.split)
qed

lemma stage_fence_fail: "stage_fence.sound (fail_stage ops d e)"
  unfolding stage_fence.sound_def
proof (rule keepsI)
  fix s :: "('a, 'b) stage_history \<times> stage_flags"
  assume g: "fenced stage_write AssertWrite (fst s)"
  have "stage_fence.sound (fail_lock ops d t)" for t
    unfolding fail_lock_def
    by (auto simp: stage_write_def stage_fence_parts split: option.split
        intro!: stage_fence.sound_bind stage_fence.sound_perform stage_fence.sound_return)
  then have "stage_fence.sound (settlePipelineFailure e
        [(''lock-failed'', fail_lock ops d (failure_transition d fl e)),
         if startAttempted fl
         then (''journal-failed'', journal_failed ops (sd_primaryPass d) f)
         else (''journal-preparation-blocked'', journal_blocked ops (sd_primaryPass d) f)])" for fl f
    by (intro stage_fence.sound_settle) (auto simp: stage_fence_parts split: if_splits)
  then show "fenced stage_write AssertWrite (fst (snd (fail_stage ops d e s)))"
    unfolding fail_stage_def Let_def stage_fence.sound_def by (rule keepsD) (rule g)
qed

lemma stage_fence_run: "stage_fence.sound (run_stage ops opts d i)"
  unfolding run_stage_def stage_body_def
  by (auto simp: stage_write_def stage_fence_block split: option.split
      intro!: stage_fence.sound_bind stage_fence.sound_catch stage_fence.sound_perform stage_fence.sound_return
        stage_fence_start stage_fence_finish stage_fence_fail)

text \<open>
  C19. Write fencing of a stage: whatever the injected operations answer and wherever they fail, every
  saved lock and every journal record of a stage run, on the success path as in the settlement of
  a failure, is written directly after an \<open>assertWrite\<close> that returned.
\<close>

theorem stage_writes_are_fenced:
  assumes "fenced stage_write AssertWrite h"
    and "executePipelineStageLifecycle stageId ops opts h = (r, h')"
  shows "fenced stage_write AssertWrite h'"
proof (cases "map_get PIPELINE_STAGE_DEFINITIONS stageId")
  case None
  then show ?thesis using assms by (simp add: executePipelineStageLifecycle_def)
next
  case (Some d)
  let ?s = "(h, \<lparr>startAttempted = False, executionStarted = False\<rparr>)"
  have "fenced stage_write AssertWrite (fst (snd (run_stage ops opts d stageId ?s)))"
    using keepsD [OF stage_fence_run [unfolded stage_fence.sound_def], of ?s] assms(1) by simp
  then show ?thesis using assms(2) Some
    by (auto simp: executePipelineStageLifecycle_def split: prod.splits)
qed

section \<open>Recorded dependencies\<close>

text \<open>
  A pass recorded as succeeded has its required passes recorded as succeeded. The requirement of
  \<open>lock\<close> on \<open>verify\<close> is left out: the lock stage does not consult it in the pass states.
\<close>

definition dependencies_hold :: "pass_status \<Rightarrow> bool" where
  "dependencies_hold st \<longleftrightarrow>
     (\<forall>p \<in> set (map fst PASS_INITIAL_STATES). p \<noteq> ''lock'' \<longrightarrow> state_of st p = Some Succeeded \<longrightarrow>
        (\<forall>r \<in> requires_in PASS_DEFINITIONS p. state_of st r = Some Succeeded))"

definition stage_ready :: "stage_definition \<Rightarrow> pass_status \<Rightarrow> bool" where
  "stage_ready d st \<longleftrightarrow> dependencies_hold st \<and>
     (\<forall>r \<in> set (projected_requirements (sd_id d) (sd_requires d)). state_of st r = Some Succeeded)"

text \<open>What the invariant needs of a stage; the built-in stages have it.\<close>

definition stage_closed :: "stage_definition \<Rightarrow> bool" where
  "stage_closed d \<longleftrightarrow>
     distinct (sd_ownedPasses d) \<and> sd_primaryPass d \<in> set (sd_ownedPasses d) \<and>
     set (sd_ownedPasses d) \<inter> set (sd_invalidates d) = {} \<and>
     set (sd_ownedPasses d @ sd_invalidates d) \<subseteq> set (map fst PASS_INITIAL_STATES) \<and>
     (set (sd_requires d) \<inter> set (sd_ownedPasses d @ sd_invalidates d) = {}) \<and>
     (\<forall>p \<in> set (map fst PASS_INITIAL_STATES). p \<noteq> ''lock'' \<longrightarrow>
        (p \<notin> set (sd_ownedPasses d @ sd_invalidates d) \<longrightarrow>
           requires_in PASS_DEFINITIONS p \<inter> set (sd_ownedPasses d @ sd_invalidates d) = {}) \<and>
        (p \<in> set (sd_ownedPasses d) \<longrightarrow>
           (\<forall>r \<in> requires_in PASS_DEFINITIONS p.
              (r \<in> set (sd_ownedPasses d) \<and> index_of r (sd_ownedPasses d) < index_of p (sd_ownedPasses d)) \<or>
              r \<in> set (projected_requirements (sd_id d) (sd_requires d)))))"

lemma builtin_stages_closed: "list_all (\<lambda>(i, d). sd_id d = i \<and> stage_closed d) PIPELINE_STAGE_DEFINITIONS"
  by code_simp

lemma builtin_stage:
  "map_get PIPELINE_STAGE_DEFINITIONS i = Some d \<Longrightarrow> sd_id d = i \<and> stage_closed d"
  using builtin_stages_closed map_get_Some_in [of PIPELINE_STAGE_DEFINITIONS i d]
  by (auto simp: list_all_iff)

lemma initial_not_succeeded: "map_get PASS_INITIAL_STATES p \<noteq> Some Succeeded"
proof -
  have "list_all (\<lambda>(p, s). s \<noteq> Succeeded) PASS_INITIAL_STATES" by code_simp
  then show ?thesis using map_get_Some_in by (fastforce simp: list_all_iff)
qed

lemma projected_subset: "set (projected_requirements i req) \<subseteq> set req"
  by (auto simp: projected_requirements_def)

lemma closed_transition_state:
  assumes "stage_closed d"
  shows "state_of (apply_transition d t st) p =
     (if p \<in> set (sd_ownedPasses d) then Some (owned_state d t p)
      else if p \<in> set (sd_invalidates d) then invalidated_state t st p
      else state_of st p)"
  using assms by (intro transition_state) (simp_all add: stage_closed_def)

lemma transition_requirements:
  assumes "stage_closed d" and "r \<in> set (sd_requires d)"
  shows "state_of (apply_transition d t st) r = state_of st r"
proof -
  have "r \<notin> set (sd_ownedPasses d)" "r \<notin> set (sd_invalidates d)"
    using assms by (auto simp: stage_closed_def)
  then show ?thesis by (simp add: closed_transition_state [OF assms(1)])
qed

lemma owned_succeeded_earlier:
  assumes "owned_state d t p = Succeeded" "index_of r (sd_ownedPasses d) < index_of p (sd_ownedPasses d)"
  shows "owned_state d t r = Succeeded"
  using assms by (cases t) (auto simp: owned_state_def Let_def split: if_splits)

lemma transition_keeps_dependencies:
  assumes d: "stage_closed d" and dep: "dependencies_hold st"
    and ready: "t = Blocked_t \<or> stage_ready d st"
  shows "dependencies_hold (apply_transition d t st)"
  unfolding dependencies_hold_def
proof (intro ballI impI)
  let ?st = "apply_transition d t st" and ?O = "set (sd_ownedPasses d)" and ?I = "set (sd_invalidates d)"
  fix p r
  assume p: "p \<in> set (map fst PASS_INITIAL_STATES)" "p \<noteq> ''lock''" and ok: "state_of ?st p = Some Succeeded"
    and r: "r \<in> requires_in PASS_DEFINITIONS p"
  note st = closed_transition_state [OF d]
  have old: "state_of st r = Some Succeeded" if "state_of st p = Some Succeeded"
    using dep p r that unfolding dependencies_hold_def by blast
  consider "p \<in> ?O" | "p \<notin> ?O" "p \<in> ?I" | "p \<notin> ?O" "p \<notin> ?I" by blast
  then show "state_of ?st r = Some Succeeded"
  proof cases
    case 1
    then have own: "owned_state d t p = Succeeded" using ok by (simp add: st)
    then have "stage_ready d st" using ready by (auto simp: owned_state_def)
    then have req: "state_of st r = Some Succeeded \<and> r \<in> set (sd_requires d)"
      if "r \<in> set (projected_requirements (sd_id d) (sd_requires d))"
      using that projected_subset unfolding stage_ready_def by blast
    consider "r \<in> ?O" "index_of r (sd_ownedPasses d) < index_of p (sd_ownedPasses d)" |
        "r \<in> set (projected_requirements (sd_id d) (sd_requires d))"
      using d p r 1 unfolding stage_closed_def by blast
    then show ?thesis
    proof cases
      case 1
      then show ?thesis using owned_succeeded_earlier [OF own] by (simp add: st)
    next
      case 2
      then show ?thesis using req transition_requirements [OF d] by simp
    qed
  next
    case 2
    then have "invalidated_state t st p = Some Succeeded" using ok by (simp add: st)
    then have t: "t = Succeeded_t" "state_of st p = Some Succeeded"
      using initial_not_succeeded by (auto simp: invalidated_state_def split: stage_transition.splits)
    then show ?thesis using old by (simp add: st owned_state_def invalidated_state_def)
  next
    case 3
    then have "r \<notin> ?O" "r \<notin> ?I" using d p r unfolding stage_closed_def by auto
    then show ?thesis using ok 3 old by (simp add: st)
  qed
qed

lemma transition_keeps_ready:
  "stage_closed d \<Longrightarrow> stage_ready d st \<Longrightarrow> stage_ready d (apply_transition d t st)"
  using transition_keeps_dependencies [of d st t] transition_requirements [of d _ t st] projected_subset
  unfolding stage_ready_def by (metis subsetD)

text \<open>The lock a store holds after a history of calls.\<close>

definition last_saved :: "'r lock_file option \<Rightarrow> ('t, 'r) stage_history \<Rightarrow> 'r lock_file option" where
  "last_saved stored h =
     fold (\<lambda>e cur. case e of (SaveLock l, None) \<Rightarrow> Some l | _ \<Rightarrow> cur) h stored"

lemma last_saved_snoc [simp]:
  "last_saved stored (h @ [(c, r)]) = (case (c, r) of (SaveLock l, None) \<Rightarrow> Some l | _ \<Rightarrow> last_saved stored h)"
  unfolding last_saved_def by simp

section \<open>The calls of a stage run\<close>

text \<open>
  Providers answer from the history, so the calls a part of the run makes when none of them throws
  are a function of the history it starts on. What the run does is to attempt them in order.
\<close>

definition save_calls ::
  "stage_definition \<Rightarrow> stage_transition \<Rightarrow> 'r lock_file option \<Rightarrow> ('t, 'r) stage_call list" where
  "save_calls d t lock =
     (case lock of None \<Rightarrow> [] | Some l \<Rightarrow> [AssertWrite, SaveLock (transitionStageState d t l)])"

definition start_calls :: "stage_definition \<Rightarrow> 'r lock_file option \<Rightarrow> ('t, 'r) stage_call list" where
  "start_calls d prev = save_calls d Started_t prev @ [AssertWrite, RecordStart (sd_primaryPass d)]"

definition resulting_lock ::
  "('t, 'r) stage_operations \<Rightarrow> ('t, 'r) stage_options \<Rightarrow> 't \<Rightarrow> ('t, 'r) stage_history \<Rightarrow> thrown + 'r lock_file option" where
  "resulting_lock ops opts result h =
     (case extractLock opts of None \<Rightarrow> readExistingLock ops h | Some f \<Rightarrow> map_sum id Some (f result h))"

definition finish_calls ::
  "('t, 'r) stage_options \<Rightarrow> stage_definition \<Rightarrow> 't \<Rightarrow> thrown + 'r lock_file option \<Rightarrow> ('t, 'r) stage_call list" where
  "finish_calls opts d result answer =
     (if extractLock opts = None then ReadExistingLock else ExtractLock result) #
     (case answer of
        Inl _ \<Rightarrow> []
      | Inr lock \<Rightarrow> (if preserveOwnedPassStates opts then [] else save_calls d Succeeded_t lock) @
          [AssertWrite, RecordSuccess (sd_primaryPass d)])"

definition body_calls ::
  "('t, 'r) stage_operations \<Rightarrow> ('t, 'r) stage_options \<Rightarrow> stage_definition \<Rightarrow> 'r lock_file option \<Rightarrow>
   ('t, 'r) stage_history \<Rightarrow> ('t, 'r) stage_call list" where
  "body_calls ops opts d prev h =
     (let started = h @ returned (start_calls d prev) in
      start_calls d prev @ Execute #
      (case execute_op ops started of
         Inl _ \<Rightarrow> []
       | Inr result \<Rightarrow> finish_calls opts d result (resulting_lock ops opts result (started @ [(Execute, None)]))))"

definition failure_save_calls ::
  "('t, 'r) stage_operations \<Rightarrow> stage_definition \<Rightarrow> stage_transition \<Rightarrow> ('t, 'r) stage_history \<Rightarrow> ('t, 'r) stage_call list" where
  "failure_save_calls ops d t h =
     (if sd_requires d = [] then []
      else ReadExistingLock # (case readExistingLock ops h of Inl _ \<Rightarrow> [] | Inr lock \<Rightarrow> save_calls d t lock))"

text \<open>The local variables of a run, read off the calls it has made.\<close>

definition start_was_attempted :: "stage_definition \<Rightarrow> ('t, 'r) stage_history \<Rightarrow> bool" where
  "start_was_attempted d new \<longleftrightarrow> RecordStart (sd_primaryPass d) \<in> fst ` set new"

definition start_was_recorded :: "stage_definition \<Rightarrow> ('t, 'r) stage_history \<Rightarrow> bool" where
  "start_was_recorded d new \<longleftrightarrow> (RecordStart (sd_primaryPass d), None) \<in> set new"

definition flags_of :: "stage_definition \<Rightarrow> ('t, 'r) stage_history \<Rightarrow> stage_flags" where
  "flags_of d new = \<lparr>startAttempted = start_was_attempted d new, executionStarted = start_was_recorded d new\<rparr>"

lemma performs_save: "performs [AssertWrite, SaveLock l] (save_lock ops l)"
  unfolding save_lock_def write_fence_def by (rule performs_fenced)

lemma performs_optional_save:
  "performs (save_calls d t lock)
     (case lock of None \<Rightarrow> return_a () | Some l \<Rightarrow> save_lock ops (transitionStageState d t l))"
  by (cases lock) (simp_all add: save_calls_def performs_return performs_save)

lemma performs_journals:
  "performs [AssertWrite, RecordBlocked p (fst f) (snd f)] (journal_blocked ops p f)"
  "performs [AssertWrite, RecordFailure p (fst f) (snd f)] (journal_failed ops p f)"
  unfolding journal_blocked_def journal_failed_def write_fence_def by (rule performs_fenced)+

lemma no_start_in_save: "RecordStart p \<notin> set (save_calls d t lock)"
  by (simp add: save_calls_def split: option.split)

lemma start_stage_run:
  assumes run: "start_stage ops d prev s = (res, s')" and fl: "snd s = flags_of d []"
  shows "\<exists>new. fst s' = fst s @ new \<and> attempted (start_calls d prev) (fst s) res (fst s') \<and> snd s' = flags_of d new"
proof -
  let ?p = "sd_primaryPass d"
  let ?save = "case prev of None \<Rightarrow> return_a () | Some lock \<Rightarrow> save_lock ops (transitionStageState d Started_t lock)"
  let ?first = "bind_a ?save (\<lambda>_. write_fence ops)"
  let ?before = "save_calls d Started_t prev @ [AssertWrite]"
  let ?rest = "bind_a (local_a (\<lambda>fl. fl\<lparr>startAttempted := True\<rparr>)) (\<lambda>_.
     bind_a (perform (RecordStart ?p) (recordStart ops ?p)) (\<lambda>_. local_a (\<lambda>fl. fl\<lparr>executionStarted := True\<rparr>)))"
  have eq: "start_stage ops d prev = bind_a ?first (\<lambda>_. ?rest)"
    by (simp add: start_stage_def bind_a_assoc)
  have first: "performs ?before ?first"
    unfolding write_fence_def by (intro performs_bind performs_optional_save performs_perform)
  have calls: "start_calls d prev = ?before @ [RecordStart ?p]" by (simp add: start_calls_def)
  obtain r u where u: "?first s = (r, u)" by (rule prod.exhaust)
  note before = performsD [OF first u]
  have quiet: "RecordStart ?p \<notin> set ?before" using no_start_in_save by auto
  show ?thesis
  proof (cases r)
    case (Inl e)
    then have "s' = u" "res = Inl e" using run u by (simp_all add: eq bind_a_def)
    moreover obtain new where new: "fst u = fst s @ new" "fst ` set new \<subseteq> set ?before"
      using attempted_events before by blast
    moreover have "flags_of d new = flags_of d []"
      using new(2) quiet by (force simp: flags_of_def start_was_attempted_def start_was_recorded_def)
    ultimately show ?thesis using before Inl fl calls attempted_more by metis
  next
    case (Inr x)
    then have h: "fst u = fst s @ returned ?before" using before by simp
    have "?rest u = (res, s')" using run u Inr by (simp add: eq bind_a_def)
    moreover have "?rest u =
        (case recordStart ops ?p (fst u) of
           Inl e \<Rightarrow> (Inl e, fst u @ [(RecordStart ?p, Some e)], \<lparr>startAttempted = True, executionStarted = False\<rparr>)
         | Inr x \<Rightarrow> (Inr (), fst u @ [(RecordStart ?p, None)], \<lparr>startAttempted = True, executionStarted = True\<rparr>))"
      using before fl
      by (simp add: bind_a_def local_a_def perform_def outcome_def flags_of_def start_was_recorded_def split: sum.split)
    moreover have "(RecordStart ?p, None) \<notin> set (returned ?before)" using quiet by (auto simp: returned_def)
    ultimately show ?thesis
    proof (cases "recordStart ops ?p (fst u)")
      case (Inl e)
      let ?new = "returned ?before @ [(RecordStart ?p, Some e)]"
      have res: "res = Inl e" "fst s' = fst s @ ?new" "snd s' = flags_of d ?new"
        using \<open>?rest u = (res, s')\<close> \<open>?rest u = (case _ of Inl _ \<Rightarrow> _ | Inr _ \<Rightarrow> _)\<close> Inl h
          \<open>(RecordStart ?p, None) \<notin> set (returned ?before)\<close>
        by (auto simp: flags_of_def start_was_attempted_def start_was_recorded_def)
      then have "attempted (start_calls d prev) (fst s) res (fst s')"
        unfolding calls res(1) attempted_Inl
        by (intro exI [of _ ?before] exI [of _ "RecordStart ?p"] exI [of _ "[]"]) simp
      then show ?thesis using res by blast
    next
      case (Inr y)
      let ?new = "returned (start_calls d prev)"
      have "res = Inr ()" "fst s' = fst s @ ?new" "snd s' = flags_of d ?new"
        using \<open>?rest u = (res, s')\<close> \<open>?rest u = (case _ of Inl _ \<Rightarrow> _ | Inr _ \<Rightarrow> _)\<close> Inr h
        by (auto simp: flags_of_def start_was_attempted_def start_was_recorded_def calls)
      then show ?thesis by auto
    qed
  qed
qed

lemma read_result_run:
  assumes "read_result_lock ops opts r s = (res, s')"
  shows "res = resulting_lock ops opts r (fst s)" and "snd s' = snd s"
    and "attempted [if extractLock opts = None then ReadExistingLock else ExtractLock r] (fst s) res (fst s')"
proof -
  have "res = resulting_lock ops opts r (fst s) \<and> snd s' = snd s \<and>
      fst s' = fst s @ [(if extractLock opts = None then ReadExistingLock else ExtractLock r, outcome res)]"
    using assms
    by (cases "extractLock opts"; cases "resulting_lock ops opts r (fst s)")
      (auto simp: read_result_lock_def resulting_lock_def bind_a_def perform_def return_a_def outcome_def
        split: sum.splits)
  then have res: "res = resulting_lock ops opts r (fst s)" "snd s' = snd s"
      "fst s' = fst s @ [(if extractLock opts = None then ReadExistingLock else ExtractLock r, outcome res)]"
    by blast+
  show "res = resulting_lock ops opts r (fst s)" "snd s' = snd s" by (fact res)+
  show "attempted [if extractLock opts = None then ReadExistingLock else ExtractLock r] (fst s) res (fst s')"
    unfolding res(3) by (rule attempted_single)
qed

lemma finish_stage_run:
  assumes run: "finish_stage ops opts d r s = (res, s')"
  shows "attempted (finish_calls opts d r (resulting_lock ops opts r (fst s))) (fst s) res (fst s')"
    and "snd s' = snd s" and "res = Inr x \<Longrightarrow> x = r \<and> (\<exists>lock. resulting_lock ops opts r (fst s) = Inr lock)"
proof -
  let ?p = "sd_primaryPass d"
  let ?rest = "\<lambda>lock. bind_a (case lock of None \<Rightarrow> return_a ()
        | Some l \<Rightarrow> if preserveOwnedPassStates opts then return_a ()
                    else save_lock ops (transitionStageState d Succeeded_t l)) (\<lambda>_.
     bind_a (write_fence ops) (\<lambda>_. bind_a (perform (RecordSuccess ?p) (recordSuccess ops ?p)) (\<lambda>_. return_a r)))"
  have opt: "performs (if preserveOwnedPassStates opts then [] else save_calls d Succeeded_t lock)
      (case lock of None \<Rightarrow> return_a () | Some l \<Rightarrow> if preserveOwnedPassStates opts then return_a ()
                    else save_lock ops (transitionStageState d Succeeded_t l))" for lock
    using performs_optional_save [of d Succeeded_t lock ops]
    by (cases lock) (simp_all add: save_calls_def performs_return)
  have rest: "performs ((if preserveOwnedPassStates opts then [] else save_calls d Succeeded_t lock) @
      [AssertWrite] @ [RecordSuccess ?p] @ []) (?rest lock)" for lock
    unfolding write_fence_def by (intro performs_bind opt performs_perform performs_return)
  obtain a u where a: "read_result_lock ops opts r s = (a, u)" by (rule prod.exhaust)
  note read = read_result_run [OF a]
  have eq: "finish_stage ops opts d r s = (case a of Inl e \<Rightarrow> (Inl e, u) | Inr lock \<Rightarrow> ?rest lock u)"
    by (simp add: finish_stage_def bind_a_def a split: sum.split)
  show "snd s' = snd s"
    using run read(2) performsD [OF rest] by (cases a) (auto simp: eq)
  show "attempted (finish_calls opts d r (resulting_lock ops opts r (fst s))) (fst s) res (fst s')"
  proof (cases a)
    case (Inl e)
    then have "res = Inl e" "s' = u" using run by (auto simp: eq)
    then show ?thesis
      using attempted_more [of _ _ e _ "[]"] read(3) Inl
      by (simp add: finish_calls_def read(1) [symmetric] attempted_Inl)
  next
    case (Inr lock)
    let ?call = "if extractLock opts = None then ReadExistingLock else ExtractLock r"
    let ?calls = "(if preserveOwnedPassStates opts then [] else save_calls d Succeeded_t lock) @
        [AssertWrite] @ [RecordSuccess ?p] @ []"
    have "fst u = fst s @ returned [?call]" using read(3) Inr by simp
    then have "attempted ?calls (fst s @ returned [?call]) res (fst s')"
      using performsD [OF rest, of lock u] run by (simp add: eq Inr)
    from attempted_after [OF this] have "attempted (?call # ?calls) (fst s) res (fst s')" by simp
    moreover have "resulting_lock ops opts r (fst s) = Inr lock" using read(1) Inr by simp
    ultimately show ?thesis unfolding finish_calls_def by simp
  qed
  show "x = r \<and> (\<exists>lock. resulting_lock ops opts r (fst s) = Inr lock)" if "res = Inr x"
  proof (cases a)
    case (Inl e)
    then show ?thesis using run that by (simp add: eq)
  next
    case (Inr lock)
    then have "?rest lock u = (Inr x, s')" using run that by (simp add: eq)
    then have "x = r" by (auto simp: return_a_def elim!: bind_a_InrE)
    moreover have "resulting_lock ops opts r (fst s) = Inr lock" using read(1) Inr by simp
    ultimately show ?thesis by blast
  qed
qed

lemma stage_body_run:
  assumes run: "stage_body ops opts d prev s = (res, s')" and fl: "snd s = flags_of d []"
  shows "\<exists>new. fst s' = fst s @ new \<and> attempted (body_calls ops opts d prev (fst s)) (fst s) res (fst s') \<and>
     snd s' = flags_of d new"
    and "res = Inr x \<Longrightarrow> execute_op ops (fst s @ returned (start_calls d prev)) = Inr x \<and>
     (\<exists>lock. resulting_lock ops opts x (fst s @ returned (start_calls d prev) @ [(Execute, None)]) = Inr lock)"
proof -
  obtain r u where u: "start_stage ops d prev s = (r, u)" by (rule prod.exhaust)
  obtain n where n: "fst u = fst s @ n" "attempted (start_calls d prev) (fst s) r (fst u)" "snd u = flags_of d n"
    using start_stage_run [OF u fl] by blast
  let ?q = "\<lambda>res s'. (\<exists>new. fst s' = fst s @ new \<and> attempted (body_calls ops opts d prev (fst s)) (fst s) res (fst s') \<and>
     snd s' = flags_of d new) \<and> (\<forall>x. res = Inr x \<longrightarrow> execute_op ops (fst s @ returned (start_calls d prev)) = Inr x \<and>
     (\<exists>lock. resulting_lock ops opts x (fst s @ returned (start_calls d prev) @ [(Execute, None)]) = Inr lock))"
  have "?q res s'"
  proof (cases r)
    case (Inl e)
    then have "res = Inl e" "s' = u" using run u by (simp_all add: stage_body_def bind_a_def)
    then show ?thesis using n Inl attempted_more by (fastforce simp: body_calls_def Let_def)
  next
    case (Inr y)
    then have h: "fst u = fst s @ returned (start_calls d prev)" "n = returned (start_calls d prev)"
      using n by simp_all
    have body: "bind_a (perform Execute (execute_op ops)) (finish_stage ops opts d) u = (res, s')"
      using run u Inr by (simp add: stage_body_def bind_a_def)
    have same: "flags_of d (n @ more) = flags_of d n" for more
      using h(2) by (auto simp: flags_of_def start_was_attempted_def start_was_recorded_def start_calls_def)
    show ?thesis
    proof (cases "execute_op ops (fst u)")
      case (Inl e)
      then have s': "res = Inl e" "s' = (fst u @ [(Execute, Some e)], snd u)"
        using body by (simp_all add: bind_a_def perform_def outcome_def)
      then have "attempted (start_calls d prev @ [Execute]) (fst s) res (fst s')"
        using h attempted_after [OF attempted_single, of "start_calls d prev" Execute "fst s" res]
        by (simp add: outcome_def)
      then show ?thesis
        using s' h n(3) Inl same [of "[(Execute, Some e)]"] by (simp add: body_calls_def Let_def)
    next
      case (Inr z)
      let ?v = "(fst u @ [(Execute, None)], snd u)"
      have fin: "finish_stage ops opts d z ?v = (res, s')"
        using body Inr by (simp add: bind_a_def perform_def outcome_def)
      note f = finish_stage_run [OF fin]
      have "attempted (finish_calls opts d z (resulting_lock ops opts z (fst s @ returned (start_calls d prev) @ [(Execute, None)])))
          (fst s @ returned (start_calls d prev @ [Execute])) res (fst s')"
        using f(1) h(1) by simp
      note attempted_after [OF this]
      then have calls: "attempted (body_calls ops opts d prev (fst s)) (fst s) res (fst s')"
        using Inr h(1) by (simp add: body_calls_def Let_def)
      obtain more where "fst s' = fst ?v @ more" using attempted_events [OF f(1)] by blast
      then have "fst s' = fst s @ n @ (Execute, None) # more" "snd s' = flags_of d (n @ (Execute, None) # more)"
        using h n(3) f(2) same by simp_all
      then show ?thesis using calls f(3) Inr h(1) by (metis append_assoc fst_conv)
    qed
  qed
  then show "\<exists>new. fst s' = fst s @ new \<and> attempted (body_calls ops opts d prev (fst s)) (fst s) res (fst s') \<and>
     snd s' = flags_of d new"
    "res = Inr x \<Longrightarrow> execute_op ops (fst s @ returned (start_calls d prev)) = Inr x \<and>
     (\<exists>lock. resulting_lock ops opts x (fst s @ returned (start_calls d prev) @ [(Execute, None)]) = Inr lock)"
    by blast+
qed

lemma fail_lock_run:
  assumes "fail_lock ops d t s = (res, s')"
  shows "attempted (failure_save_calls ops d t (fst s)) (fst s) res (fst s') \<and> snd s' = snd s"
proof (cases "sd_requires d = []")
  case True
  then show ?thesis using assms by (simp add: fail_lock_def failure_save_calls_def return_a_def bind_a_return)
next
  case False
  let ?save = "\<lambda>lock. case lock of None \<Rightarrow> return_a () | Some l \<Rightarrow> save_lock ops (transitionStageState d t l)"
  have run: "bind_a (perform ReadExistingLock (readExistingLock ops)) ?save s = (res, s')"
    using assms False by (simp add: fail_lock_def)
  show ?thesis
  proof (cases "readExistingLock ops (fst s)")
    case (Inl e)
    then have "res = Inl e" "s' = (fst s @ [(ReadExistingLock, Some e)], snd s)"
      using run by (simp_all add: bind_a_def perform_def outcome_def)
    then show ?thesis using False Inl attempted_single [of ReadExistingLock "fst s" res]
      by (simp add: failure_save_calls_def outcome_def)
  next
    case (Inr lock)
    let ?u = "(fst s @ returned [ReadExistingLock], snd s)"
    have "?save lock ?u = (res, s')" using run Inr by (simp add: bind_a_def perform_def outcome_def)
    note save = performsD [OF performs_optional_save this]
    then have "attempted (save_calls d t lock) (fst s @ returned [ReadExistingLock]) res (fst s')" by simp
    from attempted_after [OF this] show ?thesis using save False Inr by (simp add: failure_save_calls_def)
  qed
qed

text \<open>The three ways in which the \<open>try\<close> blocks of a run may leave it.\<close>

definition run_starts ::
  "('t, 'r) stage_operations \<Rightarrow> stage_definition \<Rightarrow> ('t, 'r) stage_history \<Rightarrow> 'r lock_file option \<Rightarrow>
   ('t, 'r) stage_history \<Rightarrow> bool" where
  "run_starts ops d h prev h1 \<longleftrightarrow>
     (if sd_requires d = [] then prev = None \<and> h1 = h
      else readExistingLock ops h = Inr prev \<and> h1 = h @ [(ReadExistingLock, None)])"

lemma block_stage_run:
  assumes "block_stage ops d prev e s = (res, s')"
  shows "\<exists>r1 h2 r2. res = Inl (settlement_value e [(''lock-blocked'', r1), (''journal-blocked'', r2)]) \<and>
     attempted (save_calls d Blocked_t prev) (fst s) r1 h2 \<and>
     attempted [AssertWrite, RecordBlocked (sd_primaryPass d) (fst (describePipelineFailure e)) (snd (describePipelineFailure e))]
       h2 r2 (fst s')"
proof -
  obtain r1 u r2 where
    m1: "(case prev of None \<Rightarrow> return_a () | Some lock \<Rightarrow> save_lock ops (transitionStageState d Blocked_t lock)) s = (r1, u)" and
    m2: "journal_blocked ops (sd_primaryPass d) (describePipelineFailure e) u = (r2, s')" and
    r: "res = Inl (settlement_value e [(''lock-blocked'', r1), (''journal-blocked'', r2)])"
    using assms unfolding block_stage_def by (rule settle_two) auto
  show ?thesis
    using r performsD [OF performs_optional_save m1] performsD [OF performs_journals(1) m2] by blast
qed

lemma fail_stage_run:
  assumes run: "fail_stage ops d e s = (res, s')" and fl: "snd s = flags_of d new"
  defines "op \<equiv> if start_was_attempted d new then ''journal-failed'' else ''journal-preparation-blocked''"
    and "failure \<equiv> describePipelineFailure e"
  shows "\<exists>r1 h2 r2. res = Inl (settlement_value e [(''lock-failed'', r1), (op, r2)]) \<and>
     attempted (failure_save_calls ops d (failure_transition d (flags_of d new) e) (fst s)) (fst s) r1 h2 \<and>
     attempted [AssertWrite,
       if start_was_attempted d new then RecordFailure (sd_primaryPass d) (fst failure) (snd failure)
       else RecordBlocked (sd_primaryPass d) (fst failure) (snd failure)] h2 r2 (fst s')"
proof -
  let ?journal = "if start_was_attempted d new then journal_failed ops (sd_primaryPass d) failure
     else journal_blocked ops (sd_primaryPass d) failure"
  have "settlePipelineFailure e [(''lock-failed'', fail_lock ops d (failure_transition d (flags_of d new) e)),
      (op, ?journal)] s = (res, s')"
    using run fl by (simp add: fail_stage_def Let_def op_def failure_def flags_of_def split: if_splits)
  then obtain r1 u r2 where
    m1: "fail_lock ops d (failure_transition d (flags_of d new) e) s = (r1, u)" and m2: "?journal u = (r2, s')" and
    r: "res = Inl (settlement_value e [(''lock-failed'', r1), (op, r2)])"
    by (rule settle_two) (auto simp: op_def)
  have "attempted [AssertWrite,
       if start_was_attempted d new then RecordFailure (sd_primaryPass d) (fst failure) (snd failure)
       else RecordBlocked (sd_primaryPass d) (fst failure) (snd failure)] (fst u) r2 (fst s')"
    using m2 performsD [OF performs_journals(1), of ops "sd_primaryPass d" failure u r2 s']
      performsD [OF performs_journals(2), of ops "sd_primaryPass d" failure u r2 s'] by (auto split: if_splits)
  then show ?thesis using r fail_lock_run [OF m1] by blast
qed

definition run_blocked ::
  "('t, 'r) stage_operations \<Rightarrow> stage_definition \<Rightarrow> string \<Rightarrow> ('t, 'r) stage_history \<Rightarrow> thrown \<Rightarrow>
   ('t, 'r) stage_history \<Rightarrow> bool" where
  "run_blocked ops d stageId h e h' \<longleftrightarrow>
     (\<exists>prev h1 error r1 h2 r2. run_starts ops d h prev h1 \<and>
        assertStageRequirements prev stageId (sd_requires d) = Some error \<and>
        attempted (save_calls d Blocked_t prev) h1 r1 h2 \<and>
        attempted [AssertWrite, RecordBlocked (sd_primaryPass d)
          (fst (describePipelineFailure error)) (snd (describePipelineFailure error))] h2 r2 h' \<and>
        e = settlement_value error [(''lock-blocked'', r1), (''journal-blocked'', r2)])"

definition run_failed ::
  "('t, 'r) stage_operations \<Rightarrow> ('t, 'r) stage_options \<Rightarrow> stage_definition \<Rightarrow> string \<Rightarrow> ('t, 'r) stage_history \<Rightarrow>
   thrown \<Rightarrow> ('t, 'r) stage_history \<Rightarrow> bool" where
  "run_failed ops opts d stageId h e h' \<longleftrightarrow>
     (\<exists>prev h1 primary new r1 h2 r2. run_starts ops d h prev h1 \<and>
        assertStageRequirements prev stageId (sd_requires d) = None \<and>
        attempted (body_calls ops opts d prev h1) h1 (Inl primary :: thrown + 't) (h1 @ new) \<and>
        attempted (failure_save_calls ops d
            (if (RecordStart (sd_primaryPass d), None) \<in> set new
             then Failed_t (case primary of PassFailure originp _ \<Rightarrow> originp | _ \<Rightarrow> sd_primaryPass d)
             else if RecordStart (sd_primaryPass d) \<in> fst ` set new then Preparation_failed_t else Blocked_t)
            (h1 @ new)) (h1 @ new) r1 h2 \<and>
        attempted [AssertWrite,
            if RecordStart (sd_primaryPass d) \<in> fst ` set new
            then RecordFailure (sd_primaryPass d) (fst (describePipelineFailure primary)) (snd (describePipelineFailure primary))
            else RecordBlocked (sd_primaryPass d) (fst (describePipelineFailure primary)) (snd (describePipelineFailure primary))]
          h2 r2 h' \<and>
        e = settlement_value primary [(''lock-failed'', r1),
          (if RecordStart (sd_primaryPass d) \<in> fst ` set new then ''journal-failed'' else ''journal-preparation-blocked'', r2)])"

definition run_returns ::
  "('t, 'r) stage_operations \<Rightarrow> ('t, 'r) stage_options \<Rightarrow> stage_definition \<Rightarrow> string \<Rightarrow> ('t, 'r) stage_history \<Rightarrow>
   't \<Rightarrow> ('t, 'r) stage_history \<Rightarrow> bool" where
  "run_returns ops opts d stageId h result h' \<longleftrightarrow>
     (\<exists>prev h1 lock. run_starts ops d h prev h1 \<and> assertStageRequirements prev stageId (sd_requires d) = None \<and>
        execute_op ops (h1 @ returned (start_calls d prev)) = Inr result \<and>
        resulting_lock ops opts result (h1 @ returned (start_calls d prev @ [Execute])) = Inr lock \<and>
        h' = h1 @ returned (start_calls d prev @ Execute # finish_calls opts d result (Inr lock)))"

lemma failed_runI:
  assumes start: "run_starts ops d h prev (fst s)" "assertStageRequirements prev stageId (sd_requires d) = None"
    and body: "stage_body ops opts d prev s = (Inl primary, u)" and fl: "snd s = flags_of d []"
    and fail: "fail_stage ops d primary u = (res, s')"
  shows "\<exists>e. res = Inl e \<and> run_failed ops opts d stageId h e (fst s')"
proof -
  obtain new where new: "fst u = fst s @ new" "snd u = flags_of d new"
      "attempted (body_calls ops opts d prev (fst s)) (fst s) (Inl primary :: thrown + 'a) (fst s @ new)"
    using stage_body_run(1) [OF body fl] by auto
  have t: "failure_transition d (flags_of d new) primary =
      (if (RecordStart (sd_primaryPass d), None) \<in> set new
       then Failed_t (case primary of PassFailure originp _ \<Rightarrow> originp | _ \<Rightarrow> sd_primaryPass d)
       else if RecordStart (sd_primaryPass d) \<in> fst ` set new then Preparation_failed_t else Blocked_t)"
    by (simp add: failure_transition_def flags_of_def start_was_recorded_def start_was_attempted_def)
  from fail_stage_run [OF fail new(2)] show ?thesis
    using start new(3) unfolding t run_failed_def start_was_attempted_def new(1) by blast
qed

lemma blocked_runI:
  assumes "run_starts ops d h prev (fst s)" "assertStageRequirements prev stageId (sd_requires d) = Some error"
    and "block_stage ops d prev error s = (res, s')"
  shows "\<exists>e. res = Inl e \<and> run_blocked ops d stageId h e (fst s')"
  using block_stage_run [OF assms(3)] assms(1,2) unfolding run_blocked_def by blast

lemma returned_runI:
  assumes start: "run_starts ops d h prev (fst s)" "assertStageRequirements prev stageId (sd_requires d) = None"
    and body: "stage_body ops opts d prev s = (Inr r, s')" and fl: "snd s = flags_of d []"
  shows "run_returns ops opts d stageId h r (fst s')"
proof -
  let ?h = "fst s @ returned (start_calls d prev)"
  obtain lock where lock: "resulting_lock ops opts r (?h @ [(Execute, None)]) = Inr lock" and x: "execute_op ops ?h = Inr r"
    using stage_body_run(2) [OF body fl] by auto
  moreover have "fst s' = fst s @ returned (body_calls ops opts d prev (fst s))"
    using stage_body_run(1) [OF body fl] by auto
  ultimately have "fst s' = fst s @ returned (start_calls d prev @ Execute # finish_calls opts d r (Inr lock))"
    by (simp add: body_calls_def Let_def)
  then show ?thesis unfolding run_returns_def using start x lock by auto
qed

lemma no_flags: "flags_of d [] = \<lparr>startAttempted = False, executionStarted = False\<rparr>"
  by (simp add: flags_of_def start_was_attempted_def start_was_recorded_def)

lemma run_stage_run:
  assumes run: "run_stage ops opts d stageId (h, \<lparr>startAttempted = False, executionStarted = False\<rparr>) = (res, s')"
  shows "(case res of
       Inr r \<Rightarrow> run_returns ops opts d stageId h r (fst s')
     | Inl e \<Rightarrow> sd_requires d \<noteq> [] \<and> readExistingLock ops h = Inl e \<and> fst s' = h @ [(ReadExistingLock, Some e)] \<or>
         run_blocked ops d stageId h e (fst s') \<or> run_failed ops opts d stageId h e (fst s'))"
proof -
  let ?s = "(h, \<lparr>startAttempted = False, executionStarted = False\<rparr>)"
  let ?read = "if sd_requires d = [] then return_a None else perform ReadExistingLock (readExistingLock ops)"
  obtain a s1 where a: "?read ?s = (a, s1)" by (rule prod.exhaust)
  show ?thesis
  proof (cases a)
    case (Inl e)
    then show ?thesis using run a
      by (auto simp: run_stage_def bind_a_def return_a_def perform_Inl_iff split: if_splits)
  next
    case (Inr prev)
    have start: "run_starts ops d h prev (fst s1)" and fl: "snd s1 = flags_of d []"
      using a Inr by (auto simp: no_flags run_starts_def return_a_def perform_Inr_iff split: if_splits)
    show ?thesis
    proof (cases "assertStageRequirements prev stageId (sd_requires d)")
      case (Some error)
      then have "block_stage ops d prev error s1 = (res, s')"
        using run a Inr by (simp add: run_stage_def bind_a_def)
      from blocked_runI [OF start Some this] show ?thesis by auto
    next
      case None
      then have run2: "catch_a (stage_body ops opts d prev) (fail_stage ops d) s1 = (res, s')"
        using run a Inr by (simp add: run_stage_def bind_a_def)
      obtain b s2 where b: "stage_body ops opts d prev s1 = (b, s2)" by (rule prod.exhaust)
      show ?thesis
      proof (cases b)
        case (Inl primary)
        then have "fail_stage ops d primary s2 = (res, s')" using run2 b by (simp add: catch_a_def)
        from failed_runI [OF start None b [unfolded Inl] fl this] show ?thesis by auto
      next
        case (Inr r)
        then have res: "res = Inr r" "s' = s2" using run2 b by (simp_all add: catch_a_def)
        from returned_runI [OF start None b [unfolded Inr] fl] show ?thesis by (simp add: res)
      qed
    qed
  qed
qed

lemma run_of_stage:
  assumes "executePipelineStageLifecycle stageId ops opts h = (res, h')"
    and "map_get PIPELINE_STAGE_DEFINITIONS stageId = Some d"
  shows "(case res of
       Inr r \<Rightarrow> run_returns ops opts d stageId h r h'
     | Inl e \<Rightarrow> sd_requires d \<noteq> [] \<and> readExistingLock ops h = Inl e \<and> h' = h @ [(ReadExistingLock, Some e)] \<or>
         run_blocked ops d stageId h e h' \<or> run_failed ops opts d stageId h e h')"
proof -
  obtain s' where "run_stage ops opts d stageId (h, \<lparr>startAttempted = False, executionStarted = False\<rparr>) = (res, s')"
      and "h' = fst s'"
    using assms by (auto simp: executePipelineStageLifecycle_def split: prod.splits)
  then show ?thesis using run_stage_run by blast
qed

lemma requirements_met:
  "assertStageRequirements prev stageId req = None \<longleftrightarrow> req = [] \<or>
     (\<exists>l. prev = Some l \<and> (\<forall>p \<in> set req. state_of (passStatus l) p = Some Succeeded \<or> stageId = ''lock'' \<and> p = ''verify''))"
  by (auto simp: assertStageRequirements_def pipelineStageBlockers_def filter_empty_conv projected_requirements_def
      split: if_splits option.splits)

text \<open>
  C17. A stage run that returns: the stage is a declared one; if it requires passes, the lock read at
  the start records every one of them as succeeded, except that the stage \<open>lock\<close> does not consult
  \<open>verify\<close>; the started state of that lock is saved and the start recorded; the value returned is the
  one the execution returned on the calls made so far; the resulting lock is the one that
  \<open>extractLock\<close> returned for that value, or that was read after the execution when there is no
  extractor; and the run ends by saving the succeeded state of exactly this lock, unless the stage
  preserves pass states or there is no lock, and recording the success. No other call was made, and
  each of them returned.
\<close>

theorem stage_success_calls:
  assumes "executePipelineStageLifecycle stageId ops opts h = (Inr r, h')"
  shows "\<exists>d prev lock h1 h2. map_get PIPELINE_STAGE_DEFINITIONS stageId = Some d \<and>
     (if sd_requires d = [] then prev = None \<and> h1 = h
      else h1 = h @ [(ReadExistingLock, None)] \<and> readExistingLock ops h = Inr prev \<and>
        (\<exists>l. prev = Some l \<and> (\<forall>p \<in> set (sd_requires d).
           state_of (passStatus l) p = Some Succeeded \<or> stageId = ''lock'' \<and> p = ''verify''))) \<and>
     h2 = h1 @ returned ((case prev of None \<Rightarrow> []
          | Some l \<Rightarrow> [AssertWrite, SaveLock (transitionStageState d Started_t l)]) @
        [AssertWrite, RecordStart (sd_primaryPass d)]) \<and>
     execute_op ops h2 = Inr r \<and>
     (case extractLock opts of
        None \<Rightarrow> readExistingLock ops (h2 @ [(Execute, None)]) = Inr lock
      | Some f \<Rightarrow> \<exists>l. f r (h2 @ [(Execute, None)]) = Inr l \<and> lock = Some l) \<and>
     h' = h2 @ returned ([Execute, if extractLock opts = None then ReadExistingLock else ExtractLock r] @
        (if preserveOwnedPassStates opts then []
         else case lock of None \<Rightarrow> []
            | Some l \<Rightarrow> [AssertWrite, SaveLock (transitionStageState d Succeeded_t l)]) @
        [AssertWrite, RecordSuccess (sd_primaryPass d)])"
proof -
  obtain d where d: "map_get PIPELINE_STAGE_DEFINITIONS stageId = Some d"
    using assms by (auto simp: executePipelineStageLifecycle_def split: option.splits)
  obtain prev h1 lock where r: "run_starts ops d h prev h1"
      "assertStageRequirements prev stageId (sd_requires d) = None"
      "execute_op ops (h1 @ returned (start_calls d prev)) = Inr r"
      "resulting_lock ops opts r (h1 @ returned (start_calls d prev @ [Execute])) = Inr lock"
      "h' = h1 @ returned (start_calls d prev @ Execute # finish_calls opts d r (Inr lock))"
    using run_of_stage [OF assms d] by (auto simp: run_returns_def)
  show ?thesis
  proof (rule exI [of _ d], rule exI [of _ prev], rule exI [of _ lock], rule exI [of _ h1],
      rule exI [of _ "h1 @ returned (start_calls d prev)"], intro conjI d r(3))
    show "if sd_requires d = [] then prev = None \<and> h1 = h
      else h1 = h @ [(ReadExistingLock, None)] \<and> readExistingLock ops h = Inr prev \<and>
        (\<exists>l. prev = Some l \<and> (\<forall>p \<in> set (sd_requires d).
           state_of (passStatus l) p = Some Succeeded \<or> stageId = ''lock'' \<and> p = ''verify''))"
      using r(1,2) unfolding run_starts_def requirements_met by (simp split: if_splits)
    show "case extractLock opts of
        None \<Rightarrow> readExistingLock ops ((h1 @ returned (start_calls d prev)) @ [(Execute, None)]) = Inr lock
      | Some f \<Rightarrow> \<exists>l. f r ((h1 @ returned (start_calls d prev)) @ [(Execute, None)]) = Inr l \<and> lock = Some l"
      using r(4) by (auto simp: resulting_lock_def map_sum_def split: option.splits sum.splits)
  qed (simp_all add: r(5) start_calls_def save_calls_def finish_calls_def)
qed

text \<open>The calls of the body before the success record.\<close>

lemma unfinished_body:
  assumes "attempted (body_calls ops opts d prev h1) h1 (Inl primary :: thrown + 'a) (h1 @ new)"
  shows "(RecordSuccess p, None) \<notin> set new"
proof -
  have start: "RecordSuccess p \<notin> set (start_calls d prev)"
    by (simp add: start_calls_def save_calls_def split: option.split)
  have save: "RecordSuccess p \<notin> set (save_calls d Succeeded_t lock)" for lock
    by (simp add: save_calls_def split: option.split)
  show ?thesis
  proof (cases "RecordSuccess p \<in> set (body_calls ops opts d prev h1)")
    case False
    then show ?thesis using attempted_new [OF assms] by force
  next
    case True
    then have "\<exists>calls. body_calls ops opts d prev h1 = calls @ [RecordSuccess p] \<and> RecordSuccess p \<notin> set calls"
      using start save
      by (auto simp: body_calls_def finish_calls_def Let_def split: sum.splits if_splits)
    then show ?thesis using assms attempted_unfinished by metis
  qed
qed

text \<open>
  C18. A stage run that throws. Either reading the lock at the start failed: that failure is thrown and
  nothing else is called or recorded. Or the lock that was read does not meet the requirements: the
  blocked state of that lock is saved and the refusal is recorded as blocked. Or the body failed: its
  calls were made in order up to the one that threw, which is the failure that is settled. Its
  settlement reads the lock again and saves its failed state (with the pass a pass failure names, else
  the primary pass) if the start had been recorded, its preparation-failed state if recording the
  start was what failed, its blocked state before that; then the journal records the code and the
  message of that failure, as a failure once the start was attempted and as blocked before. Each
  settlement step is attempted even when the other throws; the thrown value is the failure itself,
  or carries it with the failures of the settlement. No success record was written.
\<close>

theorem stage_failure_settled:
  fixes ops :: "('t, 'r) stage_operations"
  assumes "executePipelineStageLifecycle stageId ops opts h = (Inl e, h')"
    and "map_get PIPELINE_STAGE_DEFINITIONS stageId = Some d"
  shows "sd_requires d \<noteq> [] \<and> readExistingLock ops h = Inl e \<and> h' = h @ [(ReadExistingLock, Some e)] \<or>
    (\<exists>prev error r1 h2 r2. sd_requires d \<noteq> [] \<and> readExistingLock ops h = Inr prev \<and>
       assertStageRequirements prev stageId (sd_requires d) = Some error \<and>
       attempted (save_calls d Blocked_t prev) (h @ [(ReadExistingLock, None)]) r1 h2 \<and>
       attempted [AssertWrite, RecordBlocked (sd_primaryPass d)
         (fst (describePipelineFailure error)) (snd (describePipelineFailure error))] h2 r2 h' \<and>
       e = settlement_value error [(''lock-blocked'', r1), (''journal-blocked'', r2)]) \<or>
    (\<exists>prev h1 primary new r1 h2 r2.
       (if sd_requires d = [] then prev = None \<and> h1 = h
        else readExistingLock ops h = Inr prev \<and> h1 = h @ [(ReadExistingLock, None)]) \<and>
       assertStageRequirements prev stageId (sd_requires d) = None \<and>
       attempted (body_calls ops opts d prev h1) h1 (Inl primary :: thrown + 't) (h1 @ new) \<and>
       (\<forall>p. (RecordSuccess p, None) \<notin> set new) \<and>
       attempted (failure_save_calls ops d
           (if (RecordStart (sd_primaryPass d), None) \<in> set new
            then Failed_t (case primary of PassFailure originp _ \<Rightarrow> originp | _ \<Rightarrow> sd_primaryPass d)
            else if RecordStart (sd_primaryPass d) \<in> fst ` set new then Preparation_failed_t else Blocked_t)
           (h1 @ new)) (h1 @ new) r1 h2 \<and>
       attempted [AssertWrite,
           if RecordStart (sd_primaryPass d) \<in> fst ` set new
           then RecordFailure (sd_primaryPass d) (fst (describePipelineFailure primary)) (snd (describePipelineFailure primary))
           else RecordBlocked (sd_primaryPass d) (fst (describePipelineFailure primary)) (snd (describePipelineFailure primary))]
         h2 r2 h' \<and>
       e = settlement_value primary [(''lock-failed'', r1),
         (if RecordStart (sd_primaryPass d) \<in> fst ` set new then ''journal-failed'' else ''journal-preparation-blocked'', r2)])"
proof -
  consider (unread) "sd_requires d \<noteq> []" "readExistingLock ops h = Inl e" "h' = h @ [(ReadExistingLock, Some e)]"
    | (blocked) "run_blocked ops d stageId h e h'" | (failed) "run_failed ops opts d stageId h e h'"
    using run_of_stage [OF assms] by auto
  then show ?thesis
  proof cases
    case unread
    then show ?thesis by (intro disjI1 conjI)
  next
    case blocked
    then obtain prev h1 error r1 h2 r2 where b: "run_starts ops d h prev h1"
        "assertStageRequirements prev stageId (sd_requires d) = Some error"
        "attempted (save_calls d Blocked_t prev) h1 r1 h2"
        "attempted [AssertWrite, RecordBlocked (sd_primaryPass d)
          (fst (describePipelineFailure error)) (snd (describePipelineFailure error))] h2 r2 h'"
        "e = settlement_value error [(''lock-blocked'', r1), (''journal-blocked'', r2)]"
      unfolding run_blocked_def by blast
    then have "sd_requires d \<noteq> []" by (auto simp: assertStageRequirements_def)
    then show ?thesis using b unfolding run_starts_def by - (rule disjI2, rule disjI1, auto)
  next
    case failed
    then show ?thesis
      unfolding run_failed_def run_starts_def using unfinished_body by - (rule disjI2, rule disjI2, blast)
  qed
qed

section \<open>Recorded dependencies are kept\<close>

text \<open>
  What a run relies on: whoever else writes the lock, the body of the stage included, keeps a
  property of its pass states. It holds of a store that returns what was saved last.
\<close>

definition store_keeps ::
  "(pass_status \<Rightarrow> bool) \<Rightarrow> 'r lock_file option \<Rightarrow> ('t, 'r) stage_operations \<Rightarrow> bool" where
  "store_keeps P stored ops \<longleftrightarrow>
     (\<forall>h l. readExistingLock ops h = Inr (Some l) \<longrightarrow>
        (\<forall>m. last_saved stored h = Some m \<longrightarrow> P (passStatus m)) \<longrightarrow> P (passStatus l))"

definition reads_last_saved :: "'r lock_file option \<Rightarrow> ('t, 'r) stage_operations \<Rightarrow> bool" where
  "reads_last_saved stored ops \<longleftrightarrow>
     (\<forall>h lock. readExistingLock ops h = Inr lock \<longrightarrow> lock = last_saved stored h)"

lemma store_keepsD:
  "store_keeps P stored ops \<Longrightarrow> readExistingLock ops h = Inr (Some l) \<Longrightarrow>
     (\<And>m. last_saved stored h = Some m \<Longrightarrow> P (passStatus m)) \<Longrightarrow> P (passStatus l)"
  unfolding store_keeps_def by blast

lemma last_saved_store_keeps: "reads_last_saved stored ops \<Longrightarrow> store_keeps P stored ops"
  by (auto simp: store_keeps_def reads_last_saved_def)

lemma last_saved_append: "last_saved stored (k @ evs) = last_saved (last_saved stored k) evs"
  by (simp add: last_saved_def)

lemma last_saved_new:
  "last_saved stored evs = Some m \<Longrightarrow>
     (SaveLock m, None) \<in> set evs \<or> (stored = Some m \<and> (\<forall>l. (SaveLock l, None) \<notin> set evs))"
proof (induction evs rule: rev_induct)
  case Nil
  then show ?case by (simp add: last_saved_def)
next
  case (snoc e evs)
  then show ?case by (cases e) (auto split: stage_call.splits option.splits)
qed

lemma last_saved_cases:
  "last_saved stored (k @ evs) = Some m \<Longrightarrow>
     (SaveLock m, None) \<in> set evs \<or> (last_saved stored k = Some m \<and> (\<forall>l. (SaveLock l, None) \<notin> set evs))"
  unfolding last_saved_append by (rule last_saved_new)

definition saves_sat :: "(pass_status \<Rightarrow> bool) \<Rightarrow> ('t, 'r) stage_call list \<Rightarrow> bool" where
  "saves_sat P calls \<longleftrightarrow> (\<forall>l. SaveLock l \<in> set calls \<longrightarrow> P (passStatus l))"

lemma saves_sat_simps [simp]:
  "saves_sat P []" "saves_sat P (xs @ ys) \<longleftrightarrow> saves_sat P xs \<and> saves_sat P ys"
  "saves_sat P (SaveLock l # xs) \<longleftrightarrow> P (passStatus l) \<and> saves_sat P xs"
  "(\<And>l. c \<noteq> SaveLock l) \<Longrightarrow> saves_sat P (c # xs) \<longleftrightarrow> saves_sat P xs"
  by (auto simp: saves_sat_def)

lemma saves_sat_mono: "saves_sat P xs \<Longrightarrow> (\<And>st. P st \<Longrightarrow> Q st) \<Longrightarrow> saves_sat Q xs"
  unfolding saves_sat_def by blast

lemma attempted_saves:
  "attempted calls k res (k @ evs) \<Longrightarrow> saves_sat P calls \<Longrightarrow> (SaveLock l, x) \<in> set evs \<Longrightarrow> P (passStatus l)"
  using attempted_new [of calls k res evs] unfolding saves_sat_def by (metis fst_conv image_eqI subsetD)

lemma transition_saves:
  assumes "stage_closed d"
  shows "(\<And>l. lock = Some l \<Longrightarrow> stage_ready d (passStatus l)) \<Longrightarrow> saves_sat (stage_ready d) (save_calls d t lock)"
    and "(\<And>l. lock = Some l \<Longrightarrow> dependencies_hold (passStatus l)) \<Longrightarrow>
      saves_sat dependencies_hold (save_calls d Blocked_t lock)"
  using transition_keeps_ready [OF assms] transition_keeps_dependencies [OF assms]
  by (auto simp: save_calls_def transitionStageState_def split: option.splits)

lemma ready_dependencies: "stage_ready d st \<Longrightarrow> dependencies_hold st"
  by (simp add: stage_ready_def)

lemma ready_when_required:
  assumes "assertStageRequirements prev (sd_id d) (sd_requires d) = None" "prev = Some l"
    and "dependencies_hold (passStatus l)"
  shows "stage_ready d (passStatus l)"
  using assms unfolding requirements_met stage_ready_def projected_requirements_def by (auto split: if_splits)

text \<open>What a run of one stage relies on.\<close>

definition relies ::
  "stage_definition \<Rightarrow> 'r lock_file option \<Rightarrow> ('t, 'r) stage_operations \<Rightarrow> ('t, 'r) stage_options \<Rightarrow>
   ('t, 'r) stage_history \<Rightarrow> bool" where
  "relies d stored ops opts h \<longleftrightarrow>
     store_keeps dependencies_hold stored ops \<and> store_keeps (stage_ready d) stored ops \<and>
     (\<forall>f x k l. extractLock opts = Some f \<longrightarrow> f x k = Inr l \<longrightarrow>
        preserveOwnedPassStates opts \<or> stage_ready d (passStatus l)) \<and>
     (\<forall>m. last_saved stored h = Some m \<longrightarrow> dependencies_hold (passStatus m))"

lemma first_lock:
  assumes "relies d stored ops opts h" and "run_starts ops d h prev h1" and "prev = Some l"
  shows "dependencies_hold (passStatus l)"
  using assms store_keepsD [of dependencies_hold stored ops h l]
  by (auto simp: relies_def run_starts_def split: if_splits)

lemma last_saved_start:
  assumes "run_starts ops d h prev h1" shows "last_saved stored h1 = last_saved stored h"
  using assms by (auto simp: run_starts_def split: if_splits)

lemma last_saved_started:
  assumes "run_starts ops d h prev h1"
  shows "last_saved stored (h1 @ returned (start_calls d prev @ [Execute])) =
     (case prev of None \<Rightarrow> last_saved stored h | Some l \<Rightarrow> Some (transitionStageState d Started_t l))"
  using last_saved_start [OF assms, of stored]
  by (simp add: start_calls_def save_calls_def last_saved_def split: option.split)

lemma body_saves:
  fixes ops :: "('t, 'r) stage_operations"
  assumes d: "stage_closed d" and rely: "relies d stored ops opts h" and start: "run_starts ops d h prev h1"
    and ok: "assertStageRequirements prev (sd_id d) (sd_requires d) = None"
  shows "saves_sat (stage_ready d) (body_calls ops opts d prev h1)"
proof -
  let ?h = "h1 @ returned (start_calls d prev)"
  have prev: "stage_ready d (passStatus l)" if "prev = Some l" for l
    using ready_when_required [OF ok that] first_lock [OF rely start that] .
  then have first: "saves_sat (stage_ready d) (start_calls d prev :: ('t, 'r) stage_call list)"
    by (simp add: start_calls_def transition_saves(1) [OF d])
  have bare: "stage_ready d st" if "prev = None" "dependencies_hold st" for st
    using that start ok unfolding requirements_met stage_ready_def run_starts_def projected_requirements_def by simp
  have before: "stage_ready d (passStatus m)"
    if "last_saved stored (?h @ [(Execute, None)]) = Some m" for m
  proof (cases prev)
    case None
    then show ?thesis using that last_saved_started [OF start, of stored] bare rely by (auto simp: relies_def)
  next
    case (Some l)
    then show ?thesis
      using that last_saved_started [OF start, of stored] transition_keeps_ready [OF d prev [OF Some]]
      by (auto simp: transitionStageState_def)
  qed
  have lock: "stage_ready d (passStatus l)"
    if "resulting_lock ops opts x (?h @ [(Execute, None)]) = Inr (Some l)" "\<not> preserveOwnedPassStates opts" for x l
  proof (cases "extractLock opts")
    case None
    then have "readExistingLock ops (?h @ [(Execute, None)]) = Inr (Some l)"
      using that(1) by (simp add: resulting_lock_def)
    moreover have "store_keeps (stage_ready d) stored ops" using rely by (simp add: relies_def)
    ultimately show ?thesis using before store_keepsD by blast
  next
    case (Some f)
    then have "f x (?h @ [(Execute, None)]) = Inr l"
      using that(1) by (auto simp: resulting_lock_def map_sum_def split: sum.splits)
    then show ?thesis using rely Some that(2) unfolding relies_def by blast
  qed
  have "saves_sat (stage_ready d) (finish_calls opts d x (resulting_lock ops opts x (?h @ [(Execute, None)])))" for x
    using lock [of x]
    by (auto simp: finish_calls_def split: sum.splits if_splits intro!: transition_saves(1) [OF d])
  then show ?thesis using first by (simp add: body_calls_def Let_def split: sum.split)
qed

text \<open>The lock that the settlement of a failed body reads.\<close>

lemma failure_lock:
  fixes ops :: "('t, 'r) stage_operations"
  assumes d: "stage_closed d" and rely: "relies d stored ops opts h" and start: "run_starts ops d h prev h1"
    and body: "attempted (body_calls ops opts d prev h1) h1 (Inl primary :: thrown + 't) (h1 @ new)"
    and saves: "saves_sat (stage_ready d) (body_calls ops opts d prev h1)"
    and read: "readExistingLock ops (h1 @ new) = Inr (Some l)" and req: "sd_requires d \<noteq> []"
    and ok: "assertStageRequirements prev stageId (sd_requires d) = None"
  shows "dependencies_hold (passStatus l)"
    and "RecordStart (sd_primaryPass d) \<in> fst ` set new \<Longrightarrow> stage_ready d (passStatus l)"
proof -
  have keep: "store_keeps dependencies_hold stored ops" "store_keeps (stage_ready d) stored ops"
    using rely by (simp_all add: relies_def)
  have saved: "stage_ready d (passStatus m)" if "(SaveLock m, x) \<in> set new" for m x
    using attempted_saves [OF body saves that] .
  have "dependencies_hold (passStatus m)" if "last_saved stored (h1 @ new) = Some m" for m
    using last_saved_cases [OF that] saved ready_dependencies last_saved_start [OF start, of stored] rely
    unfolding relies_def by metis
  then show "dependencies_hold (passStatus l)" by (rule store_keepsD [OF keep(1) read])
  assume started: "RecordStart (sd_primaryPass d) \<in> fst ` set new"
  obtain p where prev: "prev = Some p" using ok req unfolding requirements_met by blast
  let ?l = "transitionStageState d Started_t p"
  obtain cs c rest where c: "body_calls ops opts d prev h1 = cs @ c # rest" "new = returned cs @ [(c, Some primary)]"
    using body by (auto simp: attempted_Inl)
  obtain more where b: "body_calls ops opts d prev h1 = [AssertWrite, SaveLock ?l] @ more"
    by (auto simp: body_calls_def start_calls_def save_calls_def prev Let_def)
  have "SaveLock ?l \<in> set cs"
  proof (rule ccontr)
    assume "SaveLock ?l \<notin> set cs"
    then have "cs = [] \<or> cs = [AssertWrite]"
      using c(1) b by (cases cs; cases "tl cs") auto
    then have "set (cs @ [c]) \<subseteq> {AssertWrite, SaveLock ?l}" using c(1) b by auto
    then show False using started c(2) by (auto simp: returned_def image_image)
  qed
  then have some: "(SaveLock ?l, None) \<in> set new" using c(2) by (simp add: returned_def)
  have "stage_ready d (passStatus m)" if "last_saved stored (h1 @ new) = Some m" for m
    using last_saved_cases [OF that] some saved by blast
  then show "stage_ready d (passStatus l)" by (rule store_keepsD [OF keep(2) read])
qed

lemma failure_saves:
  fixes ops :: "('t, 'r) stage_operations"
  assumes d: "stage_closed d"
    and dep: "\<And>l. readExistingLock ops k = Inr (Some l) \<Longrightarrow> sd_requires d \<noteq> [] \<Longrightarrow> dependencies_hold (passStatus l)"
    and ready: "\<And>l. readExistingLock ops k = Inr (Some l) \<Longrightarrow> sd_requires d \<noteq> [] \<Longrightarrow> t \<noteq> Blocked_t \<Longrightarrow>
      stage_ready d (passStatus l)"
  shows "saves_sat dependencies_hold (failure_save_calls ops d t k)"
proof (cases "t = Blocked_t")
  case True
  have "saves_sat dependencies_hold (save_calls d Blocked_t lock :: ('t, 'r) stage_call list)"
    if "readExistingLock ops k = Inr lock" "sd_requires d \<noteq> []" for lock
    using transition_saves(2) [OF d, of lock] dep that by blast
  then show ?thesis using True by (simp add: failure_save_calls_def split: sum.split)
next
  case False
  have "saves_sat dependencies_hold (save_calls d t lock :: ('t, 'r) stage_call list)"
    if "readExistingLock ops k = Inr lock" "sd_requires d \<noteq> []" for lock
  proof -
    have "saves_sat (stage_ready d) (save_calls d t lock :: ('t, 'r) stage_call list)"
      by (rule transition_saves(1) [OF d]) (use ready that False in blast)
    then show ?thesis by (rule saves_sat_mono) (rule ready_dependencies)
  qed
  then show ?thesis by (simp add: failure_save_calls_def split: sum.split)
qed

lemma new_saves_sat:
  assumes "attempted calls k res k'" and "saves_sat P calls"
  shows "\<exists>evs. k' = k @ evs \<and> (\<forall>l x. (SaveLock l, x) \<in> set evs \<longrightarrow> P (passStatus l))"
  using attempted_events [OF assms(1)] attempted_saves [of calls k res _ P] assms by blast

definition new_saves_keep :: "('t, 'r) stage_history \<Rightarrow> ('t, 'r) stage_history \<Rightarrow> bool" where
  "new_saves_keep h h' \<longleftrightarrow>
     (\<exists>new. h' = h @ new \<and> (\<forall>l x. (SaveLock l, x) \<in> set new \<longrightarrow> dependencies_hold (passStatus l)))"

lemma new_saves_keep_trans:
  assumes "new_saves_keep h h1" and "new_saves_keep h1 h2" shows "new_saves_keep h h2"
proof -
  obtain n1 n2 where "h1 = h @ n1" "h2 = h1 @ n2"
      and "\<forall>l x. (SaveLock l, x) \<in> set n1 \<longrightarrow> dependencies_hold (passStatus l)"
      and "\<forall>l x. (SaveLock l, x) \<in> set n2 \<longrightarrow> dependencies_hold (passStatus l)"
    using assms unfolding new_saves_keep_def by blast
  then show ?thesis unfolding new_saves_keep_def by (intro exI [of _ "n1 @ n2"]) auto
qed

lemma new_saves_keepI: "attempted calls k res k' \<Longrightarrow> saves_sat dependencies_hold calls \<Longrightarrow> new_saves_keep k k'"
  unfolding new_saves_keep_def by (rule new_saves_sat)

lemma run_start_keeps: "run_starts ops d h prev h1 \<Longrightarrow> new_saves_keep h h1"
  by (auto simp: run_starts_def new_saves_keep_def split: if_splits)

lemma journal_saves [simp]:
  "saves_sat P [AssertWrite, RecordBlocked p c m]" "saves_sat P [AssertWrite, RecordFailure p c m]"
  by simp_all

lemma run_failed_keeps:
  fixes ops :: "('t, 'r) stage_operations"
  assumes d: "stage_closed d" and rely: "relies d stored ops opts h"
    and run: "run_failed ops opts d (sd_id d) h e h'"
  shows "new_saves_keep h h'"
proof -
  let ?t = "\<lambda>primary new. if (RecordStart (sd_primaryPass d), None) \<in> set new
             then Failed_t (case primary of PassFailure originp _ \<Rightarrow> originp | _ \<Rightarrow> sd_primaryPass d)
             else if RecordStart (sd_primaryPass d) \<in> fst ` set new then Preparation_failed_t else Blocked_t"
  from run obtain prev h1 primary new h2 and r1 r2 :: "thrown + unit" where start: "run_starts ops d h prev h1"
    and ok: "assertStageRequirements prev (sd_id d) (sd_requires d) = None"
    and body: "attempted (body_calls ops opts d prev h1) h1 (Inl primary :: thrown + 't) (h1 @ new)"
    and lock: "attempted (failure_save_calls ops d (?t primary new) (h1 @ new)) (h1 @ new) r1 h2"
    and journal: "attempted [AssertWrite,
            if RecordStart (sd_primaryPass d) \<in> fst ` set new
            then RecordFailure (sd_primaryPass d) (fst (describePipelineFailure primary)) (snd (describePipelineFailure primary))
            else RecordBlocked (sd_primaryPass d) (fst (describePipelineFailure primary)) (snd (describePipelineFailure primary))]
          h2 r2 h'"
    unfolding run_failed_def by blast
  have ready: "saves_sat (stage_ready d) (body_calls ops opts d prev h1)"
    by (rule body_saves [OF d rely start ok])
  note read = failure_lock [OF d rely start body ready _ _ ok]
  have started: "RecordStart (sd_primaryPass d) \<in> fst ` set new" if "?t primary new \<noteq> Blocked_t"
    using that by (force split: if_splits)
  have "new_saves_keep h1 (h1 @ new)"
    by (rule new_saves_keepI [OF body saves_sat_mono [OF ready ready_dependencies]])
  moreover have "new_saves_keep (h1 @ new) h2"
    by (rule new_saves_keepI [OF lock], rule failure_saves [OF d]) (use read started in blast)+
  moreover have "new_saves_keep h2 h'" by (rule new_saves_keepI [OF journal]) simp
  ultimately show ?thesis using run_start_keeps [OF start] new_saves_keep_trans by metis
qed

lemma run_keeps:
  fixes ops :: "('t, 'r) stage_operations"
  assumes d: "stage_closed d" and rely: "relies d stored ops opts h"
    and run: "executePipelineStageLifecycle (sd_id d) ops opts h = (r, h')"
    and stage: "map_get PIPELINE_STAGE_DEFINITIONS (sd_id d) = Some d"
  shows "new_saves_keep h h'"
proof (cases r)
  case (Inr x)
  then obtain prev h1 lock where start: "run_starts ops d h prev h1"
    and ok: "assertStageRequirements prev (sd_id d) (sd_requires d) = None"
    and calls: "execute_op ops (h1 @ returned (start_calls d prev)) = Inr x"
      "resulting_lock ops opts x (h1 @ returned (start_calls d prev @ [Execute])) = Inr lock"
      "h' = h1 @ returned (start_calls d prev @ Execute # finish_calls opts d x (Inr lock))"
    using run_of_stage [OF run stage] by (auto simp: run_returns_def)
  have "attempted (body_calls ops opts d prev h1) h1 (Inr x :: thrown + 't) h'"
    using calls by (simp add: body_calls_def Let_def)
  moreover have "saves_sat dependencies_hold (body_calls ops opts d prev h1)"
    by (rule saves_sat_mono [OF body_saves [OF d rely start ok] ready_dependencies])
  ultimately show ?thesis using new_saves_keepI run_start_keeps [OF start] new_saves_keep_trans by metis
next
  case (Inl e)
  consider "h' = h @ [(ReadExistingLock, Some e)]" | (blocked) "run_blocked ops d (sd_id d) h e h'"
    | "run_failed ops opts d (sd_id d) h e h'"
    using run_of_stage [OF run stage] Inl by auto
  then show ?thesis
  proof cases
    case blocked
    then obtain prev h1 error h2 and r1 r2 :: "thrown + unit" where b: "run_starts ops d h prev h1"
        "attempted (save_calls d Blocked_t prev) h1 r1 h2"
        "attempted [AssertWrite, RecordBlocked (sd_primaryPass d)
          (fst (describePipelineFailure error)) (snd (describePipelineFailure error))] h2 r2 h'"
      unfolding run_blocked_def by blast
    have "saves_sat dependencies_hold (save_calls d Blocked_t prev :: ('t, 'r) stage_call list)"
      by (rule transition_saves(2) [OF d first_lock [OF rely b(1)]])
    then show ?thesis
      using new_saves_keepI [OF b(2)] new_saves_keepI [OF b(3) journal_saves(1)] run_start_keeps [OF b(1)]
        new_saves_keep_trans by metis
  qed (simp add: new_saves_keep_def, rule run_failed_keeps [OF d rely])
qed

text \<open>
  C16. Recorded dependencies are an invariant of the locks a stage run writes: however the run ends and
  whichever calls throw, every lock it saves records a pass as succeeded only when the passes that
  pass requires are recorded as succeeded (the requirement of \<open>lock\<close> on \<open>verify\<close> excepted, which
  the lock stage does not read from the pass states). It relies on the lock stored before, on other
  writers of the lock and on the lock an extractor returns: they keep the same property and the
  requirements of the stage, where an extracted lock matters only if the stage does not preserve
  pass states.
\<close>

theorem stage_runs_keep_dependencies:
  fixes ops :: "('t, 'r) stage_operations"
  assumes "map_get PIPELINE_STAGE_DEFINITIONS stageId = Some d"
    and "store_keeps dependencies_hold stored ops" and "store_keeps (stage_ready d) stored ops"
    and "\<And>f x k l. extractLock opts = Some f \<Longrightarrow> f x k = Inr l \<Longrightarrow>
      preserveOwnedPassStates opts \<or> stage_ready d (passStatus l)"
    and "\<And>l. last_saved stored h = Some l \<Longrightarrow> dependencies_hold (passStatus l)"
    and "executePipelineStageLifecycle stageId ops opts h = (r, h')"
  shows "\<exists>new. h' = h @ new \<and> (\<forall>l x. (SaveLock l, x) \<in> set new \<longrightarrow> dependencies_hold (passStatus l))"
proof -
  have "sd_id d = stageId" "stage_closed d" using builtin_stage [OF assms(1)] by simp_all
  moreover have "relies d stored ops opts h" using assms(2-5) unfolding relies_def by blast
  ultimately show ?thesis using run_keeps [of d stored ops opts h r h'] assms(1,6) unfolding new_saves_keep_def by blast
qed

section \<open>A memory-backed store\<close>

definition memory_operations ::
  "'r lock_file option \<Rightarrow> (('t, 'r) stage_history \<Rightarrow> thrown + 't) \<Rightarrow> ('t, 'r) stage_operations" where
  "memory_operations stored run =
     \<lparr>readExistingLock = (\<lambda>h. Inr (last_saved stored h)), assertWrite = (\<lambda>h. Inr ()),
      saveLock = (\<lambda>l h. Inr ()), recordBlocked = (\<lambda>p c m h. Inr ()), recordStart = (\<lambda>p h. Inr ()),
      recordSuccess = (\<lambda>p h. Inr ()), recordFailure = (\<lambda>p c m h. Inr ()), execute_op = run\<rparr>"

definition plain_options :: "('t, 'r) stage_options" where
  "plain_options = \<lparr>extractLock = None, preserveOwnedPassStates = False\<rparr>"

definition resolved_lock :: "unit lock_file" where
  "resolved_lock = \<lparr>passStatus = [(''parse'', Some Succeeded), (''align'', Some Succeeded),
     (''resolve'', Some Succeeded), (''build-ir'', Some Pending)], lock_rest = ()\<rparr>"

definition good_run :: "(nat, unit) stage_operations" where
  "good_run = memory_operations (Some resolved_lock) (\<lambda>h. Inr 7)"

definition bad_run :: "(nat, unit) stage_operations" where
  "bad_run = memory_operations (Some resolved_lock) (\<lambda>h. Inl (PlainError ''broken''))"

lemma memory_reads_last_saved: "reads_last_saved stored (memory_operations stored run)"
  by (simp add: reads_last_saved_def memory_operations_def)

theorem stage_writes_are_fenced_witness:
  "length (snd (executePipelineStageLifecycle ''semantic'' good_run plain_options [])) = 11 \<and>
   fenced stage_write AssertWrite (snd (executePipelineStageLifecycle ''semantic'' good_run plain_options []))"
proof
  show "length (snd (executePipelineStageLifecycle ''semantic'' good_run plain_options [])) = 11" by code_simp
  show "fenced stage_write AssertWrite (snd (executePipelineStageLifecycle ''semantic'' good_run plain_options []))"
    by (rule stage_writes_are_fenced [OF fenced_Nil]) (rule prod.collapse [symmetric])
qed

theorem stage_success_calls_witness:
  "\<exists>h2. execute_op good_run h2 = Inr 7 \<and>
     (\<exists>more. snd (executePipelineStageLifecycle ''semantic'' good_run plain_options []) = h2 @ more)"
proof -
  have "fst (executePipelineStageLifecycle ''semantic'' good_run plain_options []) = Inr 7" by code_simp
  then have "executePipelineStageLifecycle ''semantic'' good_run plain_options [] =
      (Inr 7, snd (executePipelineStageLifecycle ''semantic'' good_run plain_options []))"
    by (metis prod.collapse)
  from stage_success_calls [OF this] show ?thesis by blast
qed

theorem stage_failure_settled_witness:
  "\<exists>d prev h1 new primary. map_get PIPELINE_STAGE_DEFINITIONS ''semantic'' = Some d \<and>
     attempted (body_calls bad_run plain_options d prev h1) h1 (Inl primary :: thrown + nat) (h1 @ new) \<and>
     (\<forall>p. (RecordSuccess p, None) \<notin> set new)"
proof -
  let ?x = "executePipelineStageLifecycle ''semantic'' bad_run plain_options []"
  have e: "fst ?x = Inl (PlainError ''broken'')" by code_simp
  then have run: "?x = (Inl (PlainError ''broken''), snd ?x)" by (metis prod.collapse)
  have "case map_get PIPELINE_STAGE_DEFINITIONS ''semantic'' of None \<Rightarrow> False
      | Some d \<Rightarrow> assertStageRequirements (Some resolved_lock) ''semantic'' (sd_requires d) = None"
    by code_simp
  then obtain d where d: "map_get PIPELINE_STAGE_DEFINITIONS ''semantic'' = Some d"
      and ok: "assertStageRequirements (Some resolved_lock) ''semantic'' (sd_requires d) = None"
    by (auto split: option.splits)
  have read: "readExistingLock bad_run [] = Inr (Some resolved_lock)"
    by (simp add: bad_run_def memory_operations_def last_saved_def)
  from stage_failure_settled [OF run d] show ?thesis
  proof (elim disjE exE conjE, goal_cases)
    case 1
    then show ?case using read by simp
  next
    case 2
    then show ?case using read ok by simp
  next
    case 3
    then show ?case using d by blast
  qed
qed

text \<open>A run with an extractor, as the callers of the lifecycle pass it.\<close>

definition extracting_options :: "(nat, unit) stage_options" where
  "extracting_options = \<lparr>extractLock = Some (\<lambda>result k. Inr resolved_lock), preserveOwnedPassStates = False\<rparr>"

theorem stage_runs_keep_dependencies_witness:
  "\<exists>new. snd (executePipelineStageLifecycle ''semantic'' good_run extracting_options []) = [] @ new \<and>
     2 \<le> length (filter (\<lambda>e. case e of (SaveLock l, None) \<Rightarrow> True | _ \<Rightarrow> False) new) \<and>
     (\<forall>l x. (SaveLock l, x) \<in> set new \<longrightarrow> dependencies_hold (passStatus l))"
proof -
  let ?x = "executePipelineStageLifecycle ''semantic'' good_run extracting_options []"
  have "case map_get PIPELINE_STAGE_DEFINITIONS ''semantic'' of None \<Rightarrow> False
      | Some d \<Rightarrow> stage_ready d (passStatus resolved_lock)"
    by code_simp
  then obtain d where d: "map_get PIPELINE_STAGE_DEFINITIONS ''semantic'' = Some d"
      and ready: "stage_ready d (passStatus resolved_lock)"
    by (auto split: option.splits)
  have keeps: "store_keeps P (Some resolved_lock) good_run" for P
    unfolding good_run_def by (rule last_saved_store_keeps [OF memory_reads_last_saved])
  have extracted: "preserveOwnedPassStates extracting_options \<or> stage_ready d (passStatus l)"
    if "extractLock extracting_options = Some f" "f x k = Inr l" for f x k l
    using that ready by (auto simp: extracting_options_def)
  have stored: "dependencies_hold (passStatus l)" if "last_saved (Some resolved_lock) [] = Some l" for l
    using that ready_dependencies [OF ready] by (simp add: last_saved_def)
  have "2 \<le> length (filter (\<lambda>e. case e of (SaveLock l, None) \<Rightarrow> True | _ \<Rightarrow> False) (snd ?x))" by code_simp
  moreover have "\<exists>new. snd ?x = [] @ new \<and> (\<forall>l x. (SaveLock l, x) \<in> set new \<longrightarrow> dependencies_hold (passStatus l))"
    by (rule stage_runs_keep_dependencies [OF d keeps keeps _ _ prod.collapse [symmetric]])
      (fact extracted, fact stored)
  ultimately show ?thesis by auto
qed

end
