(* ===== verification/PipelineRun.thy ===== *)
theory PipelineRun
  imports Actions PipelineStages
begin

text \<open>
  The other coordinators of \<^verbatim>\<open>src/src/application\<close>: one transaction
  (\<^verbatim>\<open>pipeline-transaction-lifecycle.ts\<close>), one pass (\<^verbatim>\<open>pipeline-pass.ts\<close>) and the stage sequence
  (\<^verbatim>\<open>pipeline-run.ts\<close>), over the actions and providers of \<open>Actions\<close>.
\<close>

section \<open>One transaction\<close>

datatype transaction_call =
    Assert_write
  | Start_transaction
  | Create_context string
  | Execute_transaction
  | Commit_transaction string
  | Fail_transaction string string string

type_synonym transaction_history = "transaction_call history"

record ('x, 't) transaction_operations =
  t_assertWrite :: "transaction_history \<Rightarrow> thrown + unit"
  t_start :: "transaction_history \<Rightarrow> thrown + string"
  t_createContext :: "string \<Rightarrow> transaction_history \<Rightarrow> thrown + 'x"
  t_execute :: "'x \<Rightarrow> transaction_history \<Rightarrow> thrown + 't"
  t_commit :: "string \<Rightarrow> transaction_history \<Rightarrow> thrown + unit"
  t_fail :: "string \<Rightarrow> string \<Rightarrow> string \<Rightarrow> transaction_history \<Rightarrow> thrown + unit"

type_synonym 'a transaction_action = "(transaction_call, unit, 'a) action"

definition transaction_body ::
  "('x, 't) transaction_operations \<Rightarrow> string \<Rightarrow> 'x \<Rightarrow> 't transaction_action" where
  "transaction_body ops transactionId context =
     bind_a (perform Execute_transaction (t_execute ops context)) (\<lambda>result.
     bind_a (perform Assert_write (t_assertWrite ops)) (\<lambda>_.
     bind_a (perform (Commit_transaction transactionId) (t_commit ops transactionId)) (\<lambda>_.
     return_a result)))"

definition fail_transaction ::
  "('x, 't) transaction_operations \<Rightarrow> string \<Rightarrow> thrown \<Rightarrow> 't transaction_action" where
  "fail_transaction ops transactionId error =
     (let failure = describePipelineFailure error in
      settlePipelineFailure error
        [(''transaction-failed'',
          bind_a (perform Assert_write (t_assertWrite ops)) (\<lambda>_.
            perform (Fail_transaction transactionId (fst failure) (snd failure))
              (t_fail ops transactionId (fst failure) (snd failure))))])"

definition executePipelineTransactionLifecycle ::
  "('x, 't) transaction_operations \<Rightarrow> 't transaction_action" where
  "executePipelineTransactionLifecycle ops =
     bind_a (perform Assert_write (t_assertWrite ops)) (\<lambda>_.
     bind_a (perform Start_transaction (t_start ops)) (\<lambda>transactionId.
     if transactionId = [] then throw_a (PlainError ''Pipeline transaction identity must be non-empty'')
     else bind_a (perform (Create_context transactionId) (t_createContext ops transactionId)) (\<lambda>context.
       catch_a (transaction_body ops transactionId context) (fail_transaction ops transactionId))))"

section \<open>One pass\<close>

definition runPipelinePass :: "string \<Rightarrow> ('c, 'l, 'a) action \<Rightarrow> ('c, 'l, 'a) action" where
  "runPipelinePass originp execute =
     (if \<not> map_has PASS_INITIAL_STATES originp
      then throw_a (CodedError ''PIPELINE-USAGE-001'' ''Unknown pipeline pass'')
      else catch_a execute (\<lambda>error.
        if isPipelinePassFailure error then throw_a error else throw_a (PassFailure originp error)))"

section \<open>The stage sequence\<close>

datatype use_case_call =
    Before_stage string
  | Invoke_stage string

type_synonym use_case_history = "use_case_call history"

text \<open>The documents stages return are opaque values of one type.\<close>

record 'd use_case_operations =
  u_beforeStage :: "string \<Rightarrow> use_case_history \<Rightarrow> thrown + unit"
  u_resolve :: "use_case_history \<Rightarrow> thrown + 'd"
  u_semantic :: "use_case_history \<Rightarrow> thrown + 'd"
  u_compose :: "use_case_history \<Rightarrow> thrown + 'd"
  u_verify :: "use_case_history \<Rightarrow> thrown + 'd"
  u_lock :: "use_case_history \<Rightarrow> thrown + unit"
  u_emit :: "use_case_history \<Rightarrow> thrown + 'd \<times> 'd \<times> 'd \<times> 'd"

record 'd use_case_result =
  completedStages :: "string list"
  semanticContext :: "'d option"
  plan_result :: "'d option"
  verificationReport :: "'d option"
  emittedLock :: "'d option"
  emittedProvenance :: "'d option"
  explainGraph :: "'d option"
  reviewSummary :: "'d option"

definition empty_result :: "'d use_case_result" where
  "empty_result = \<lparr>completedStages = [], semanticContext = None, plan_result = None,
     verificationReport = None, emittedLock = None, emittedProvenance = None, explainGraph = None,
     reviewSummary = None\<rparr>"

type_synonym ('d, 'a) use_case_action = "(use_case_call, 'd use_case_result, 'a) action"

definition executeStage :: "'d use_case_operations \<Rightarrow> string \<Rightarrow> ('d, unit) use_case_action" where
  "executeStage ops stage =
     (let call = Invoke_stage stage in
      if stage = ''resolve'' then bind_a (perform call (u_resolve ops)) (\<lambda>plan. local_a (\<lambda>r. r\<lparr>plan_result := Some plan\<rparr>))
      else if stage = ''semantic'' then bind_a (perform call (u_semantic ops)) (\<lambda>c. local_a (\<lambda>r. r\<lparr>semanticContext := Some c\<rparr>))
      else if stage = ''compose'' then bind_a (perform call (u_compose ops)) (\<lambda>plan. local_a (\<lambda>r. r\<lparr>plan_result := Some plan\<rparr>))
      else if stage = ''verify'' then bind_a (perform call (u_verify ops)) (\<lambda>v. local_a (\<lambda>r. r\<lparr>verificationReport := Some v\<rparr>))
      else if stage = ''lock'' then perform call (u_lock ops)
      else bind_a (perform call (u_emit ops)) (\<lambda>(l, p, g, v). local_a (\<lambda>r. r\<lparr>emittedLock := Some l,
             emittedProvenance := Some p, explainGraph := Some g, reviewSummary := Some v\<rparr>)))"

primrec run_stages :: "'d use_case_operations \<Rightarrow> string list \<Rightarrow> ('d, unit) use_case_action" where
  "run_stages ops [] = return_a ()"
| "run_stages ops (stage # stages) =
     bind_a (perform (Before_stage stage) (u_beforeStage ops stage)) (\<lambda>_.
     bind_a (executeStage ops stage) (\<lambda>_.
     bind_a (local_a (\<lambda>r. r\<lparr>completedStages := completedStages r @ [stage]\<rparr>)) (\<lambda>_.
     run_stages ops stages)))"

definition coordinatePipelineStages ::
  "string list \<Rightarrow> 'd use_case_operations \<Rightarrow> use_case_history \<Rightarrow>
   (thrown + 'd use_case_result) \<times> use_case_history" where
  "coordinatePipelineStages stages ops h =
     (case filter (\<lambda>stage. stage \<notin> set PIPELINE_STAGE_IDS) stages of
        stage # _ \<Rightarrow> (Inl (PlainError (''Unknown pipeline stage: '' @ stage)), h)
      | [] \<Rightarrow> (case run_stages ops stages (h, empty_result) of
           (Inl e, h', _) \<Rightarrow> (Inl e, h')
         | (Inr _, h', result) \<Rightarrow> (Inr result, h')))"

section \<open>Fencing of transaction writes\<close>

definition transaction_write :: "transaction_call \<Rightarrow> bool" where
  "transaction_write c = (case c of Start_transaction \<Rightarrow> True | Commit_transaction _ \<Rightarrow> True
     | Fail_transaction _ _ _ \<Rightarrow> True | _ \<Rightarrow> False)"

interpretation transaction_fence: fenced_writes transaction_write Assert_write
  by unfold_locales (simp add: transaction_write_def)

lemma transaction_fence_run: "transaction_fence.sound (executePipelineTransactionLifecycle ops)"
proof -
  have fail: "transaction_fence.sound (fail_transaction ops i e)" for i e
    unfolding fail_transaction_def Let_def
    by (rule transaction_fence.sound_settle) (auto intro: transaction_fence.sound_fenced_write)
  have body: "transaction_fence.sound (transaction_body ops i x)" for i x
    unfolding transaction_body_def
    by (rule transaction_fence.sound_bind [OF transaction_fence.sound_perform])
      (simp_all add: transaction_write_def transaction_fence.sound_fenced_write_then transaction_fence.sound_return)
  have rest: "transaction_fence.sound (if i = [] then throw_a e else
      bind_a (perform (Create_context i) (t_createContext ops i)) (\<lambda>x.
        catch_a (transaction_body ops i x) (fail_transaction ops i)))" for i e
    by (auto simp: transaction_write_def intro!: transaction_fence.sound_throw transaction_fence.sound_bind
        transaction_fence.sound_perform transaction_fence.sound_catch body fail)
  show ?thesis unfolding executePipelineTransactionLifecycle_def
    by (rule transaction_fence.sound_fenced_write_then) (rule rest)
qed

section \<open>How a transaction ends\<close>

definition opening_calls :: "('x, 't) transaction_operations \<Rightarrow> transaction_history \<Rightarrow> transaction_call list" where
  "opening_calls ops h = Assert_write # Start_transaction #
     (case t_start ops (h @ [(Assert_write, None)]) of Inl _ \<Rightarrow> [] | Inr i \<Rightarrow> if i = [] then [] else [Create_context i])"

definition opened ::
  "('x, 't) transaction_operations \<Rightarrow> transaction_history \<Rightarrow> string \<Rightarrow> 'x \<Rightarrow> transaction_history \<Rightarrow> bool" where
  "opened ops h i x h1 \<longleftrightarrow> i \<noteq> [] \<and> t_start ops (h @ [(Assert_write, None)]) = Inr i \<and>
     t_createContext ops i (h @ returned [Assert_write, Start_transaction]) = Inr x \<and>
     h1 = h @ returned [Assert_write, Start_transaction, Create_context i]"

lemma transaction_body_run:
  assumes "transaction_body ops i x s = (res, s')"
  shows "attempted [Execute_transaction, Assert_write, Commit_transaction i] (fst s) res (fst s')"
    and "res = Inr y \<Longrightarrow> t_execute ops x (fst s) = Inr y"
proof -
  have "performs ([Execute_transaction] @ [Assert_write] @ [Commit_transaction i] @ []) (transaction_body ops i x)"
    unfolding transaction_body_def by (intro performs_bind performs_perform performs_return)
  from performsD [OF this assms] show
    "attempted [Execute_transaction, Assert_write, Commit_transaction i] (fst s) res (fst s')" by simp
  show "t_execute ops x (fst s) = Inr y" if "res = Inr y"
    using assms that by (auto simp: transaction_body_def perform_Inr_iff return_a_def elim!: bind_a_InrE)
qed

lemma fail_transaction_run:
  assumes "fail_transaction ops i e s = (res, s')"
  shows "\<exists>r. res = Inl (settlement_value e [(''transaction-failed'', r)]) \<and>
     attempted [Assert_write, Fail_transaction i (fst (describePipelineFailure e)) (snd (describePipelineFailure e))]
       (fst s) r (fst s')"
proof -
  obtain r where r: "bind_a (perform Assert_write (t_assertWrite ops)) (\<lambda>_.
      perform (Fail_transaction i (fst (describePipelineFailure e)) (snd (describePipelineFailure e)))
        (t_fail ops i (fst (describePipelineFailure e)) (snd (describePipelineFailure e)))) s = (r, s')"
      "res = Inl (settlement_value e [(''transaction-failed'', r)])"
    using assms unfolding fail_transaction_def Let_def by (rule settle_one) simp
  then show ?thesis using performsD [OF performs_fenced r(1)] by blast
qed

text \<open>The transaction up to the construction of its context.\<close>

lemma transaction_opening:
  assumes "executePipelineTransactionLifecycle ops (h, ()) = (res, h', ())"
  shows "(\<exists>e. res = Inl e \<and> attempted (opening_calls ops h) h (Inl e :: thrown + unit) h') \<or>
    res = Inl (PlainError ''Pipeline transaction identity must be non-empty'') \<and>
      t_start ops (h @ [(Assert_write, None)]) = Inr [] \<and> h' = h @ returned [Assert_write, Start_transaction] \<or>
    (\<exists>i x h1. opened ops h i x h1 \<and>
       catch_a (transaction_body ops i x) (fail_transaction ops i) (h1, ()) = (res, h', ()))"
proof -
  let ?h1 = "h @ [(Assert_write, None)]"
  let ?h2 = "h @ returned [Assert_write, Start_transaction]"
  note run = assms [unfolded executePipelineTransactionLifecycle_def]
  have stop: "attempted (opening_calls ops h) h (Inl e :: thrown + unit) (h @ returned made @ [(c, Some e)])"
    if "opening_calls ops h = made @ c # rest" for made c rest e
    using that by (auto simp: attempted_Inl)
  show ?thesis
  proof (cases "t_assertWrite ops h")
    case (Inl e)
    then have "res = Inl e" "h' = h @ returned [] @ [(Assert_write, Some e)]"
      using run by (auto simp: bind_a_def perform_def outcome_def)
    then show ?thesis using stop [of "[]" Assert_write] by (simp add: opening_calls_def)
  next
    case (Inr u)
    note asserted = this
    show ?thesis
    proof (cases "t_start ops ?h1")
      case (Inl e)
      then have "res = Inl e" "h' = h @ returned [Assert_write] @ [(Start_transaction, Some e)]"
        using run asserted by (auto simp: bind_a_def perform_def outcome_def)
      then show ?thesis using stop [of "[Assert_write]" Start_transaction] by (simp add: opening_calls_def)
    next
      case (Inr i)
      note started = this
      show ?thesis
      proof (cases "i = []")
        case True
        then show ?thesis using run asserted started by (auto simp: bind_a_def perform_def outcome_def throw_a_def)
      next
        case False
        show ?thesis
        proof (cases "t_createContext ops i ?h2")
          case (Inl e)
          then have "res = Inl e" "h' = h @ returned [Assert_write, Start_transaction] @ [(Create_context i, Some e)]"
            using run asserted started False by (auto simp: bind_a_def perform_def outcome_def)
          then show ?thesis
            using stop [of "[Assert_write, Start_transaction]" "Create_context i"] started False
            by (simp add: opening_calls_def)
        next
          case (Inr x)
          then have "opened ops h i x (h @ returned [Assert_write, Start_transaction, Create_context i])"
            using started False by (simp add: opened_def)
          moreover have "catch_a (transaction_body ops i x) (fail_transaction ops i)
              (h @ returned [Assert_write, Start_transaction, Create_context i], ()) = (res, h', ())"
            using run asserted started False Inr by (auto simp: bind_a_def perform_def outcome_def)
          ultimately show ?thesis by blast
        qed
      qed
    qed
  qed
qed

text \<open>No commit returned when the body of the transaction threw.\<close>

lemma failed_commit:
  assumes o: "opened ops h i x h1"
    and body: "attempted [Execute_transaction, Assert_write, Commit_transaction i] h1 (Inl primary :: thrown + unit) h2"
    and settled: "attempted [Assert_write, Fail_transaction i code message] h2 s h'"
  shows "\<forall>j. (Commit_transaction j, None) \<notin> set (drop (length h) h')"
proof
  fix j
  obtain n where n: "h2 = h1 @ n" "fst ` set n \<subseteq> {Execute_transaction, Assert_write, Commit_transaction i}"
    using attempted_events [OF body] by auto
  obtain k where k: "h' = h2 @ k" "fst ` set k \<subseteq> {Assert_write, Fail_transaction i code message}"
    using attempted_events [OF settled] by auto
  have "(Commit_transaction i, None) \<notin> set n"
    using attempted_unfinished [of "[Execute_transaction, Assert_write]" "Commit_transaction i" h1 primary n] body n(1)
    by simp
  then have "(Commit_transaction j, None) \<notin> set n" using n(2) by force
  moreover have "(Commit_transaction j, None) \<notin> set k" using k(2) by force
  moreover have "drop (length h) h' = returned [Assert_write, Start_transaction, Create_context i] @ n @ k"
    using o n(1) k(1) by (simp add: opened_def)
  ultimately show "(Commit_transaction j, None) \<notin> set (drop (length h) h')" by simp
qed

lemma opened_transaction:
  assumes "opened ops h i x h1"
    and "catch_a (transaction_body ops i x) (fail_transaction ops i) (h1, ()) = (r, h', ())"
  shows "case r of
       Inr result \<Rightarrow> t_execute ops x h1 = Inr result \<and>
         h' = h1 @ returned [Execute_transaction, Assert_write, Commit_transaction i]
     | Inl e \<Rightarrow> (\<forall>j. (Commit_transaction j, None) \<notin> set (drop (length h) h')) \<and>
         (\<exists>primary h2 settled.
            attempted [Execute_transaction, Assert_write, Commit_transaction i] h1 (Inl primary :: thrown + unit) h2 \<and>
            attempted [Assert_write, Fail_transaction i (fst (describePipelineFailure primary))
              (snd (describePipelineFailure primary))] h2 settled h' \<and>
            e = settlement_value primary [(''transaction-failed'', settled)])"
proof -
  obtain b s2 where b: "transaction_body ops i x (h1, ()) = (b, s2)" by (rule prod.exhaust)
  note body = transaction_body_run [OF b]
  show ?thesis
  proof (cases b)
    case (Inr y)
    then have "r = Inr y" "fst s2 = h'" using assms(2) b by (auto simp: catch_a_def)
    then show ?thesis using body Inr by auto
  next
    case (Inl primary)
    then have "fail_transaction ops i primary s2 = (r, h', ())" using assms(2) b by (simp add: catch_a_def)
    from fail_transaction_run [OF this] obtain settled where
      s: "r = Inl (settlement_value primary [(''transaction-failed'', settled)])"
        "attempted [Assert_write, Fail_transaction i (fst (describePipelineFailure primary))
            (snd (describePipelineFailure primary))] (fst s2) settled h'" by auto
    have a: "attempted [Execute_transaction, Assert_write, Commit_transaction i] h1 (Inl primary :: thrown + unit) (fst s2)"
      using body(1) Inl by (simp add: attempted_Inl)
    have "(\<forall>j. (Commit_transaction j, None) \<notin> set (drop (length h) h'))" by (rule failed_commit [OF assms(1) a s(2)])
    then show ?thesis unfolding s(1) sum.case using a s(2) by blast
  qed
qed

text \<open>
  C22. One transaction, for every provider: writes are fenced, and a commit returned exactly when the
  transaction returns. It returns the value that the execution returned in the context created for the
  identity that \<open>start\<close> returned, after exactly the calls assert, start, create context, execute,
  assert, commit. It throws in one of three ways. A refused fence, a failing start or a failing
  construction of the context is the last call and is thrown as it is, and an empty identity is refused;
  in these cases nothing is recorded. Once the context exists, the first of execution, fence and commit
  that throws is the failure that is settled: the failure is recorded under the identity with the code
  and message of exactly what was thrown, unless the fence before the record refuses, and thrown, alone or
  with the failure of its settlement.
\<close>

theorem transaction_outcome:
  assumes "executePipelineTransactionLifecycle ops (h, ()) = (r, h', ())" and "fenced transaction_write Assert_write h"
  shows "fenced transaction_write Assert_write h' \<and>
    (case r of
       Inr result \<Rightarrow> \<exists>i x h1. opened ops h i x h1 \<and> t_execute ops x h1 = Inr result \<and>
         h' = h1 @ returned [Execute_transaction, Assert_write, Commit_transaction i]
     | Inl e \<Rightarrow> (\<forall>j. (Commit_transaction j, None) \<notin> set (drop (length h) h')) \<and>
        (attempted (opening_calls ops h) h (Inl e :: thrown + unit) h' \<or>
         e = PlainError ''Pipeline transaction identity must be non-empty'' \<and>
           t_start ops (h @ [(Assert_write, None)]) = Inr [] \<and> h' = h @ returned [Assert_write, Start_transaction] \<or>
         (\<exists>i x h1 primary h2 settled. opened ops h i x h1 \<and>
            attempted [Execute_transaction, Assert_write, Commit_transaction i] h1 (Inl primary :: thrown + unit) h2 \<and>
            attempted [Assert_write, Fail_transaction i (fst (describePipelineFailure primary))
              (snd (describePipelineFailure primary))] h2 settled h' \<and>
            e = settlement_value primary [(''transaction-failed'', settled)])))"
proof
  show "fenced transaction_write Assert_write h'"
    using keepsD [OF transaction_fence_run [unfolded transaction_fence.sound_def], of "(h, ())" ops] assms by simp
  show "case r of
       Inr result \<Rightarrow> \<exists>i x h1. opened ops h i x h1 \<and> t_execute ops x h1 = Inr result \<and>
         h' = h1 @ returned [Execute_transaction, Assert_write, Commit_transaction i]
     | Inl e \<Rightarrow> (\<forall>j. (Commit_transaction j, None) \<notin> set (drop (length h) h')) \<and>
        (attempted (opening_calls ops h) h (Inl e :: thrown + unit) h' \<or>
         e = PlainError ''Pipeline transaction identity must be non-empty'' \<and>
           t_start ops (h @ [(Assert_write, None)]) = Inr [] \<and> h' = h @ returned [Assert_write, Start_transaction] \<or>
         (\<exists>i x h1 primary h2 settled. opened ops h i x h1 \<and>
            attempted [Execute_transaction, Assert_write, Commit_transaction i] h1 (Inl primary :: thrown + unit) h2 \<and>
            attempted [Assert_write, Fail_transaction i (fst (describePipelineFailure primary))
              (snd (describePipelineFailure primary))] h2 settled h' \<and>
            e = settlement_value primary [(''transaction-failed'', settled)]))"
    using transaction_opening [OF assms(1)]
  proof (elim disjE exE conjE)
    fix e assume r: "r = Inl e" and a: "attempted (opening_calls ops h) h (Inl e :: thrown + unit) h'"
    obtain new where "h' = h @ new" "fst ` set new \<subseteq> set (opening_calls ops h)"
      using attempted_events [OF a] by blast
    moreover have "Commit_transaction j \<notin> set (opening_calls ops h)" for j
      by (simp add: opening_calls_def split: sum.split)
    ultimately show ?thesis using r a by force
  next
    fix i x h1
    assume o: "opened ops h i x h1"
      and run: "catch_a (transaction_body ops i x) (fail_transaction ops i) (h1, ()) = (r, h', ())"
    show ?thesis
    proof (cases r)
      case (Inl e)
      then show ?thesis using opened_transaction [OF o run] o by simp blast
    next
      case (Inr y)
      then show ?thesis using opened_transaction [OF o run] o by simp blast
    qed
  qed (auto simp: returned_def)
qed

definition committing :: "(unit, nat) transaction_operations" where
  "committing = \<lparr>t_assertWrite = (\<lambda>h. Inr ()), t_start = (\<lambda>h. Inr ''tx''), t_createContext = (\<lambda>i h. Inr ()),
     t_execute = (\<lambda>x h. Inr 5), t_commit = (\<lambda>i h. Inr ()), t_fail = (\<lambda>i c m h. Inr ())\<rparr>"

theorem transaction_outcome_witness:
  "\<exists>i x h1 h'. opened committing [] i x h1 \<and> t_execute committing x h1 = Inr 5 \<and>
     executePipelineTransactionLifecycle committing ([], ()) = (Inr 5, h', ())"
proof -
  have "fst (executePipelineTransactionLifecycle committing ([], ())) = Inr 5" by code_simp
  then obtain h' where run: "executePipelineTransactionLifecycle committing ([], ()) = (Inr 5, h', ())"
    by (metis prod.collapse old.unit.exhaust)
  from transaction_outcome [OF run fenced_Nil] show ?thesis using run by auto
qed

section \<open>Order and completion of the stage sequence\<close>

definition stage_calls :: "string list \<Rightarrow> use_case_call list" where
  "stage_calls stages = concat (map (\<lambda>s. [Before_stage s, Invoke_stage s]) stages)"

text \<open>
  The documents a completed sequence reports: for each document the value that the last stage producing
  it returned, when it was called on the history of that call.
\<close>

definition last_of :: "(string \<Rightarrow> bool) \<Rightarrow> string list \<Rightarrow> nat option" where
  "last_of P stages =
     (let found = filter (\<lambda>i. P (stages ! i)) [0..<length stages] in if found = [] then None else Some (last found))"

definition invoked_at :: "use_case_history \<Rightarrow> string list \<Rightarrow> nat \<Rightarrow> use_case_history" where
  "invoked_at h stages i = h @ returned (stage_calls (take i stages) @ [Before_stage (stages ! i)])"

definition reported ::
  "(string \<Rightarrow> bool) \<Rightarrow> (string \<Rightarrow> use_case_history \<Rightarrow> thrown + 'a) \<Rightarrow> use_case_history \<Rightarrow> string list \<Rightarrow>
   'a option \<Rightarrow> bool" where
  "reported P answer h stages document \<longleftrightarrow>
     (case last_of P stages of
        None \<Rightarrow> document = None
      | Some i \<Rightarrow> \<exists>x. document = Some x \<and> answer (stages ! i) (invoked_at h stages i) = Inr x)"

definition reports :: "'d use_case_operations \<Rightarrow> use_case_history \<Rightarrow> string list \<Rightarrow> 'd use_case_result \<Rightarrow> bool" where
  "reports ops h stages res \<longleftrightarrow>
     reported (\<lambda>s. s = ''resolve'' \<or> s = ''compose'')
       (\<lambda>s. if s = ''resolve'' then u_resolve ops else u_compose ops) h stages (plan_result res) \<and>
     reported (\<lambda>s. s = ''semantic'') (\<lambda>_. u_semantic ops) h stages (semanticContext res) \<and>
     reported (\<lambda>s. s = ''verify'') (\<lambda>_. u_verify ops) h stages (verificationReport res) \<and>
     reported (\<lambda>s. s = ''emit'') (\<lambda>_ k. map_sum id (\<lambda>(l, p, g, v). l) (u_emit ops k)) h stages (emittedLock res) \<and>
     reported (\<lambda>s. s = ''emit'') (\<lambda>_ k. map_sum id (\<lambda>(l, p, g, v). p) (u_emit ops k)) h stages (emittedProvenance res) \<and>
     reported (\<lambda>s. s = ''emit'') (\<lambda>_ k. map_sum id (\<lambda>(l, p, g, v). g) (u_emit ops k)) h stages (explainGraph res) \<and>
     reported (\<lambda>s. s = ''emit'') (\<lambda>_ k. map_sum id (\<lambda>(l, p, g, v). v) (u_emit ops k)) h stages (reviewSummary res)"

lemma last_of_snoc: "last_of P (xs @ [x]) = (if P x then Some (length xs) else last_of P xs)"
proof -
  have "filter (\<lambda>i. P ((xs @ [x]) ! i)) [0..<length xs] = filter (\<lambda>i. P (xs ! i)) [0..<length xs]"
    by (rule filter_cong) (simp_all add: nth_append)
  then show ?thesis by (simp add: last_of_def Let_def)
qed

lemma last_of_less: "last_of P xs = Some i \<Longrightarrow> i < length xs"
proof -
  let ?found = "filter (\<lambda>i. P (xs ! i)) [0..<length xs]"
  assume "last_of P xs = Some i"
  then have "?found \<noteq> []" "i = last ?found" by (simp_all add: last_of_def Let_def split: if_splits)
  then have "i \<in> set ?found" using last_in_set by metis
  then show ?thesis by simp
qed

lemma reported_Nil [simp]: "reported P answer h [] document \<longleftrightarrow> document = None"
  by (simp add: reported_def last_of_def)

lemma reported_new:
  "P x \<Longrightarrow> answer x (h @ returned (stage_calls xs @ [Before_stage x])) = Inr y \<Longrightarrow>
     reported P answer h (xs @ [x]) (Some y)"
  by (simp add: reported_def last_of_snoc invoked_at_def)

lemma reported_other:
  assumes "\<not> P x" and "reported P answer h xs document" shows "reported P answer h (xs @ [x]) document"
  using assms last_of_less [of P xs]
  by (auto simp: reported_def last_of_snoc invoked_at_def nth_append split: option.splits)

lemma stage_calls_simps [simp]:
  "stage_calls [] = []" "stage_calls (s # ss) = Before_stage s # Invoke_stage s # stage_calls ss"
  by (simp_all add: stage_calls_def)

lemma in_six:
  assumes "x \<in> set [a, b, c, d, e, f]"
  obtains "x = a" | "x = b" | "x = c" | "x = d" | "x = e" | "x = f"
  using assms by auto

lemma stage_ids: "PIPELINE_STAGE_IDS = [''resolve'', ''semantic'', ''compose'', ''verify'', ''lock'', ''emit'']"
  by code_simp

lemmas stage_id_cases = in_six [of _ "''resolve''" "''semantic''" "''compose''" "''verify''" "''lock''" "''emit''",
    folded stage_ids]

lemma executeStage_at:
  "executeStage ops ''resolve'' = bind_a (perform (Invoke_stage ''resolve'') (u_resolve ops)) (\<lambda>plan. local_a (\<lambda>r. r\<lparr>plan_result := Some plan\<rparr>))"
  "executeStage ops ''semantic'' = bind_a (perform (Invoke_stage ''semantic'') (u_semantic ops)) (\<lambda>c. local_a (\<lambda>r. r\<lparr>semanticContext := Some c\<rparr>))"
  "executeStage ops ''compose'' = bind_a (perform (Invoke_stage ''compose'') (u_compose ops)) (\<lambda>plan. local_a (\<lambda>r. r\<lparr>plan_result := Some plan\<rparr>))"
  "executeStage ops ''verify'' = bind_a (perform (Invoke_stage ''verify'') (u_verify ops)) (\<lambda>v. local_a (\<lambda>r. r\<lparr>verificationReport := Some v\<rparr>))"
  "executeStage ops ''lock'' = perform (Invoke_stage ''lock'') (u_lock ops)"
  "executeStage ops ''emit'' = bind_a (perform (Invoke_stage ''emit'') (u_emit ops)) (\<lambda>(l, p, g, v). local_a (\<lambda>r. r\<lparr>emittedLock := Some l,
             emittedProvenance := Some p, explainGraph := Some g, reviewSummary := Some v\<rparr>))"
  by (simp_all add: executeStage_def)

lemma perform_local_Inr:
  assumes "bind_a (perform c f) (\<lambda>y. local_a (g y)) s = (Inr x, s')"
  obtains y where "f (fst s) = Inr y" "s' = (fst s @ returned [c], g y (snd s))"
  using assms by (auto simp: perform_Inr_iff local_a_def elim!: bind_a_InrE)

lemma perform_local_Inl:
  "bind_a (perform c f) (\<lambda>y. local_a (g y)) s = (Inl e, s') \<Longrightarrow> fst s' = fst s @ [(c, Some e)]"
  by (auto simp: perform_Inl_iff local_a_def elim!: bind_a_InlE)

text \<open>A stage operation is one call followed by an update of the result.\<close>

lemma reports_update:
  assumes "reports ops h ds r"
  defines "k \<equiv> \<lambda>stage. h @ returned (stage_calls ds @ [Before_stage stage])"
  shows "u_resolve ops (k ''resolve'') = Inr x \<Longrightarrow> reports ops h (ds @ [''resolve'']) (r\<lparr>plan_result := Some x\<rparr>)"
    and "u_semantic ops (k ''semantic'') = Inr x \<Longrightarrow> reports ops h (ds @ [''semantic'']) (r\<lparr>semanticContext := Some x\<rparr>)"
    and "u_compose ops (k ''compose'') = Inr x \<Longrightarrow> reports ops h (ds @ [''compose'']) (r\<lparr>plan_result := Some x\<rparr>)"
    and "u_verify ops (k ''verify'') = Inr x \<Longrightarrow> reports ops h (ds @ [''verify'']) (r\<lparr>verificationReport := Some x\<rparr>)"
    and "reports ops h (ds @ [''lock'']) r"
    and "u_emit ops (k ''emit'') = Inr (x, y, z, w) \<Longrightarrow> reports ops h (ds @ [''emit''])
      (r\<lparr>emittedLock := Some x, emittedProvenance := Some y, explainGraph := Some z, reviewSummary := Some w\<rparr>)"
  using assms unfolding reports_def
  by (simp_all del: append.simps returned_append returned_simps add: reported_new reported_other)

lemma executeStage_Inr:
  assumes run: "executeStage ops stage s = (Inr x, s')" and known: "stage \<in> set PIPELINE_STAGE_IDS"
  shows "fst s' = fst s @ returned [Invoke_stage stage] \<and>
     completedStages (snd s') = completedStages (snd s) \<and>
     (fst s = h @ returned (stage_calls ds @ [Before_stage stage]) \<longrightarrow> reports ops h ds (snd s) \<longrightarrow>
        reports ops h (ds @ [stage]) (snd s'))"
  using known
proof (rule stage_id_cases)
  assume e: "stage = ''resolve''"
  show ?thesis using run unfolding e executeStage_at
    by (rule perform_local_Inr) (auto intro: reports_update(1))
next
  assume e: "stage = ''semantic''"
  show ?thesis using run unfolding e executeStage_at
    by (rule perform_local_Inr) (auto intro: reports_update(2))
next
  assume e: "stage = ''compose''"
  show ?thesis using run unfolding e executeStage_at
    by (rule perform_local_Inr) (auto intro: reports_update(3))
next
  assume e: "stage = ''verify''"
  show ?thesis using run unfolding e executeStage_at
    by (rule perform_local_Inr) (auto intro: reports_update(4))
next
  assume e: "stage = ''lock''"
  show ?thesis using run unfolding e executeStage_at perform_Inr_iff by (auto intro: reports_update(5))
next
  assume e: "stage = ''emit''"
  show ?thesis using run unfolding e executeStage_at case_prod_unfold
    by (rule perform_local_Inr) (auto intro: reports_update(6))
qed

lemma executeStage_Inl:
  assumes run: "executeStage ops stage s = (Inl e, s')" and known: "stage \<in> set PIPELINE_STAGE_IDS"
  shows "fst s' = fst s @ [(Invoke_stage stage, Some e)]"
  using known
  by (rule stage_id_cases;
      use run in \<open>auto simp: executeStage_at perform_Inl_iff case_prod_unfold dest: perform_local_Inl\<close>)

lemma run_stages_Inr:
  "run_stages ops stages s = (Inr x, s') \<Longrightarrow> set stages \<subseteq> set PIPELINE_STAGE_IDS \<Longrightarrow>
     fst s = h @ returned (stage_calls ds) \<Longrightarrow> reports ops h ds (snd s) \<Longrightarrow>
     fst s' = fst s @ returned (stage_calls stages) \<and>
     completedStages (snd s') = completedStages (snd s) @ stages \<and> reports ops h (ds @ stages) (snd s')"
proof (induction stages arbitrary: s ds)
  case Nil
  then show ?case by (simp add: return_a_def)
next
  case (Cons stage stages)
  from Cons.prems(1) obtain u v where u: "fst u = fst s @ returned [Before_stage stage]" "snd u = snd s"
    and v: "executeStage ops stage u = (Inr (), v)"
    and rest: "run_stages ops stages (fst v, (snd v)\<lparr>completedStages := completedStages (snd v) @ [stage]\<rparr>) = (Inr x, s')"
    by (auto simp: perform_Inr_iff local_a_def elim!: bind_a_InrE)
  have known: "stage \<in> set PIPELINE_STAGE_IDS" using Cons.prems(2) by simp
  have ex: "fst v = fst u @ returned [Invoke_stage stage]"
    "completedStages (snd v) = completedStages (snd u)" "reports ops h (ds @ [stage]) (snd v)"
    using executeStage_Inr [OF v known, of h ds] u Cons.prems(3,4) by simp_all
  have calls: "stage_calls (ds @ [stage]) = stage_calls ds @ [Before_stage stage, Invoke_stage stage]"
    by (simp add: stage_calls_def)
  have "reports ops h (ds @ [stage]) ((snd v)\<lparr>completedStages := completedStages (snd v) @ [stage]\<rparr>)"
    using ex(3) by (simp add: reports_def)
  moreover have "fst v = h @ returned (stage_calls (ds @ [stage]))"
    unfolding calls using ex(1) u(1) Cons.prems(3) by simp
  ultimately show ?case
    using Cons.IH [OF rest, of "ds @ [stage]"] Cons.prems(2) ex(1,2) u by simp
qed

lemma run_stages_Inl:
  "run_stages ops stages s = (Inl e, s') \<Longrightarrow> set stages \<subseteq> set PIPELINE_STAGE_IDS \<Longrightarrow>
     \<exists>before stage after. stages = before @ stage # after \<and>
       (fst s' = fst s @ returned (stage_calls before) @ [(Before_stage stage, Some e)] \<or>
        fst s' = fst s @ returned (stage_calls before @ [Before_stage stage]) @ [(Invoke_stage stage, Some e)])"
proof (induction stages arbitrary: s)
  case Nil
  then show ?case by (simp add: return_a_def)
next
  case (Cons stage stages)
  have known: "stage \<in> set PIPELINE_STAGE_IDS" using Cons.prems(2) by simp
  from Cons.prems(1) consider "fst s' = fst s @ [(Before_stage stage, Some e)]"
    | u where "fst u = fst s @ returned [Before_stage stage]" "executeStage ops stage u = (Inl e, s')"
    | u v x g where "fst u = fst s @ returned [Before_stage stage]" "executeStage ops stage u = (Inr x, v)"
        "run_stages ops stages (fst v, g) = (Inl e, s')"
    by (auto simp: perform_Inl_iff perform_Inr_iff local_a_def elim!: bind_a_InlE)
  then show ?case
  proof cases
    case 1
    then have "fst s' = fst s @ returned (stage_calls []) @ [(Before_stage stage, Some e)]" by simp
    then show ?thesis by blast
  next
    case 2
    then have "fst s' = fst s @ returned (stage_calls [] @ [Before_stage stage]) @ [(Invoke_stage stage, Some e)]"
      using executeStage_Inl [OF 2(2) known] by simp
    then show ?thesis by blast
  next
    case 3
    have v: "fst v = fst s @ returned [Before_stage stage, Invoke_stage stage]"
      using executeStage_Inr [OF 3(2) known, of "[]" "[]"] 3(1) by auto
    from Cons.IH [OF 3(3)] Cons.prems(2) obtain before st after where "stages = before @ st # after"
      "fst s' = fst v @ returned (stage_calls before) @ [(Before_stage st, Some e)] \<or>
        fst s' = fst v @ returned (stage_calls before @ [Before_stage st]) @ [(Invoke_stage st, Some e)]" by auto
    then show ?thesis using v by (intro exI [of _ "stage # before"]) auto
  qed
qed

text \<open>
  C23. The stage sequence: an unknown stage is refused before any call. A sequence that returns has
  called, for each requested stage in order, the hook and the stage operation, each exactly once, reports
  exactly the requested stages as completed, and reports the documents of exactly those stages. A
  sequence that throws stopped at the first call that failed, which is the last call made, and throws
  what that call threw.
\<close>

theorem stage_sequence:
  assumes "coordinatePipelineStages stages ops h = (r, h')"
  shows "case r of
      Inr res \<Rightarrow> set stages \<subseteq> set PIPELINE_STAGE_IDS \<and> h' = h @ returned (stage_calls stages) \<and>
        completedStages res = stages \<and> reports ops h stages res
    | Inl e \<Rightarrow> (\<exists>stage \<in> set stages - set PIPELINE_STAGE_IDS.
          e = PlainError (''Unknown pipeline stage: '' @ stage) \<and> h' = h) \<or>
        (\<exists>before stage after. stages = before @ stage # after \<and>
         (h' = h @ returned (stage_calls before) @ [(Before_stage stage, Some e)] \<or>
          h' = h @ returned (stage_calls before @ [Before_stage stage]) @ [(Invoke_stage stage, Some e)]))"
proof (cases "set stages \<subseteq> set PIPELINE_STAGE_IDS")
  case False
  then obtain stage rest where f: "filter (\<lambda>stage. stage \<notin> set PIPELINE_STAGE_IDS) stages = stage # rest"
    by (cases "filter (\<lambda>stage. stage \<notin> set PIPELINE_STAGE_IDS) stages") (auto simp: filter_empty_conv)
  have "stage \<in> set (filter (\<lambda>stage. stage \<notin> set PIPELINE_STAGE_IDS) stages)" unfolding f by simp
  then have "stage \<in> set stages - set PIPELINE_STAGE_IDS" by simp
  then show ?thesis using assms f by (auto simp: coordinatePipelineStages_def)
next
  case True
  then have none: "filter (\<lambda>stage. stage \<notin> set PIPELINE_STAGE_IDS) stages = []" by (auto simp: filter_empty_conv)
  obtain r0 h1 res where run: "run_stages ops stages (h, empty_result) = (r0, h1, res)" by (metis prod.exhaust)
  have start: "reports ops h [] (snd (h, empty_result))" by (simp add: reports_def empty_result_def)
  show ?thesis
  proof (cases r0)
    case (Inl e)
    then have "r = Inl e" "h' = h1" using assms none run by (simp_all add: coordinatePipelineStages_def)
    then show ?thesis using run_stages_Inl [OF run [unfolded Inl] True] by simp
  next
    case (Inr x)
    then have "r = Inr res" "h' = h1" using assms none run by (simp_all add: coordinatePipelineStages_def)
    then show ?thesis using run_stages_Inr [OF run [unfolded Inr] True _ start] True
      by (simp add: empty_result_def)
  qed
qed

definition sample_use_case :: "nat use_case_operations" where
  "sample_use_case = \<lparr>u_beforeStage = (\<lambda>s h. Inr ()), u_resolve = (\<lambda>h. Inr 1), u_semantic = (\<lambda>h. Inr 2),
     u_compose = (\<lambda>h. Inl (PlainError ''compose'')), u_verify = (\<lambda>h. Inr 3), u_lock = (\<lambda>h. Inr ()),
     u_emit = (\<lambda>h. Inr (4, 5, 6, 7))\<rparr>"

theorem stage_sequence_witness:
  "\<exists>res h'. coordinatePipelineStages [''resolve'', ''semantic''] sample_use_case [] = (Inr res, h') \<and>
     completedStages res = [''resolve'', ''semantic''] \<and>
     reports sample_use_case [] [''resolve'', ''semantic''] res"
proof -
  have "is_ok (map_sum (\<lambda>_. NativeError []) id (fst (coordinatePipelineStages [''resolve'', ''semantic''] sample_use_case [])))"
    by code_simp
  then obtain res where "fst (coordinatePipelineStages [''resolve'', ''semantic''] sample_use_case []) = Inr res"
    by (cases "fst (coordinatePipelineStages [''resolve'', ''semantic''] sample_use_case [])") auto
  then obtain h' where run: "coordinatePipelineStages [''resolve'', ''semantic''] sample_use_case [] = (Inr res, h')"
    by (metis prod.collapse)
  from stage_sequence [OF run] show ?thesis using run by auto
qed

text \<open>
  One pass: a declared pass returns what its body returns, and a failure of the body leaves it as a
  pass failure that names the innermost pass it was raised in and keeps the code and message of
  its cause; nesting passes does not wrap it again.
\<close>

theorem pass_failure_origin:
  "runPipelinePass p m s =
     (if \<not> map_has PASS_INITIAL_STATES p then (Inl (CodedError ''PIPELINE-USAGE-001'' ''Unknown pipeline pass''), s)
      else case m s of
        (Inr x, s') \<Rightarrow> (Inr x, s')
      | (Inl (PassFailure q cause), s') \<Rightarrow> (Inl (PassFailure q cause), s')
      | (Inl e, s') \<Rightarrow> (Inl (PassFailure p e), s')) \<and>
   describePipelineFailure (PassFailure p e) = describePipelineFailure e \<and>
   (map_has PASS_INITIAL_STATES p \<and> map_has PASS_INITIAL_STATES q \<longrightarrow>
      runPipelinePass q (runPipelinePass p m) s = runPipelinePass p m s)"
proof -
  have one: "runPipelinePass p m s =
     (if \<not> map_has PASS_INITIAL_STATES p then (Inl (CodedError ''PIPELINE-USAGE-001'' ''Unknown pipeline pass''), s)
      else case m s of
        (Inr x, s') \<Rightarrow> (Inr x, s')
      | (Inl (PassFailure q cause), s') \<Rightarrow> (Inl (PassFailure q cause), s')
      | (Inl e, s') \<Rightarrow> (Inl (PassFailure p e), s'))" for p m
    by (auto simp: runPipelinePass_def throw_a_def catch_a_def isPipelinePassFailure_def
        split: prod.split sum.split thrown.split)
  show ?thesis
    by (auto simp: one split: prod.split sum.split thrown.split)
qed

theorem pass_failure_origin_witness:
  "runPipelinePass ''verify'' (runPipelinePass ''parse'' (throw_a (PlainError ''broken''))) ([] :: use_case_history, ()) =
     (Inl (PassFailure ''parse'' (PlainError ''broken'')) :: thrown + nat, [], ())"
proof -
  have known: "map_has PASS_INITIAL_STATES ''parse''" "map_has PASS_INITIAL_STATES ''verify''" by code_simp+
  show ?thesis
    using pass_failure_origin [of "''parse''" "throw_a (PlainError ''broken'') :: (use_case_call, unit, nat) action" "([], ())" "PlainError []" "''verify''"] known
    by (simp add: throw_a_def)
qed

end
