(* ===== verification/Canonical.thy ===== *)
theory Canonical
  imports Json
begin

text \<open>
  Canonical values and digests, \<^verbatim>\<open>src/src/contracts/canonical.ts\<close>. A value is a \<open>json\<close>: proxies, accessors,
  cycles, sparse arrays and values outside JSON are excluded by the type, so the refusal that
  remains is that of a number that is not finite. \<open>canonicalTokens\<close> is the explicit stack of frames the code
  keeps in place of recursion, with a termination proof; the theorems identify it with the recursive
  \<open>stringify\<close>. The hash function of \<^verbatim>\<open>node:crypto\<close> is the parameter \<open>hash\<close>, from
  the hashed text to its lower-case hexadecimal digest.
\<close>

section \<open>Normalization\<close>

definition compareCodeUnits :: "string \<Rightarrow> string \<Rightarrow> int" where
  "compareCodeUnits left right = (if left < right then -1 else if right < left then 1 else 0)"

fun finite_json :: "json \<Rightarrow> bool" where
  "finite_json (JNumber n) = is_finite_number n"
| "finite_json (JArray xs) = list_all finite_json xs"
| "finite_json (JObject kvs) = list_all (\<lambda>(k, v). finite_json v) kvs"
| "finite_json _ = True"

text \<open>Keys are visited in code unit order; the output object enumerates array indices first.\<close>

fun canonical_form :: "json \<Rightarrow> json" where
  "canonical_form (JArray xs) = JArray (map canonical_form xs)"
| "canonical_form (JObject kvs) =
     JObject (own_property_order (sort_key fst (map (\<lambda>(k, v). (k, canonical_form v)) kvs)))"
| "canonical_form v = v"

definition canonicalJson :: "json \<Rightarrow> json result" where
  "canonicalJson v =
     (if finite_json v then Inr (canonical_form v)
      else throw (NativeError ''Canonical JSON numbers must be finite''))"

section \<open>Tokens\<close>

text \<open>A frame of \<open>canonicalTokens\<close>: an open container and the cursor into it.\<close>

datatype frame =
    ArrayFrame "json list" nat
  | ObjectFrame "(string \<times> json) list" nat

definition open_token :: "json \<Rightarrow> string" where
  "open_token v = (case v of JArray _ \<Rightarrow> ''['' | JObject _ \<Rightarrow> ''{'' | _ \<Rightarrow> stringify v)"

definition open_frames :: "json \<Rightarrow> frame list" where
  "open_frames v = (case v of JArray xs \<Rightarrow> [ArrayFrame xs 0] | JObject kvs \<Rightarrow> [ObjectFrame kvs 0] | _ \<Rightarrow> [])"

definition comma :: "nat \<Rightarrow> string list" where
  "comma i = (if i > 0 then ['',''] else [])"

fun json_weight :: "json \<Rightarrow> nat" where
  "json_weight (JArray xs) = 2 + sum_list (map json_weight xs)"
| "json_weight (JObject kvs) = 2 + sum_list (map (\<lambda>(k, v). json_weight v) kvs)"
| "json_weight _ = 1"

fun frame_weight :: "frame \<Rightarrow> nat" where
  "frame_weight (ArrayFrame xs i) = 1 + sum_list (map json_weight (drop i xs))"
| "frame_weight (ObjectFrame kvs i) = 1 + sum_list (map (\<lambda>(k, v). json_weight v) (drop i kvs))"

lemma json_weight_pos: "0 < json_weight v"
  by (cases v) auto

lemma open_frames_weight: "sum_list (map frame_weight (open_frames v)) < json_weight v"
  by (cases v) (auto simp: open_frames_def)

text \<open>The loop \<open>while (frames.length > 0)\<close>; the head of the list is the top frame.\<close>

function run_frames :: "frame list \<Rightarrow> string list" where
  "run_frames [] = []"
| "run_frames (ArrayFrame xs i # frames) =
     (if i < length xs
      then comma i @ open_token (xs ! i) # run_frames (open_frames (xs ! i) @ ArrayFrame xs (Suc i) # frames)
      else '']'' # run_frames frames)"
| "run_frames (ObjectFrame kvs i # frames) =
     (if i < length kvs
      then comma i @ quote_string (fst (kvs ! i)) # '':'' # open_token (snd (kvs ! i)) #
             run_frames (open_frames (snd (kvs ! i)) @ ObjectFrame kvs (Suc i) # frames)
      else ''}'' # run_frames frames)"
  by pat_completeness auto
termination
proof (relation "measure (\<lambda>fs. sum_list (map frame_weight fs))")
  fix xs i frames
  assume i: "i < length (xs :: json list)"
  then have "drop i xs = xs ! i # drop (Suc i) xs" by (rule Cons_nth_drop_Suc [symmetric])
  then show "(open_frames (xs ! i) @ ArrayFrame xs (Suc i) # frames, ArrayFrame xs i # frames)
      \<in> measure (\<lambda>fs. sum_list (map frame_weight fs))"
    using open_frames_weight [of "xs ! i"] by simp
next
  fix kvs i frames
  assume i: "i < length (kvs :: (string \<times> json) list)"
  then have "drop i kvs = kvs ! i # drop (Suc i) kvs" by (rule Cons_nth_drop_Suc [symmetric])
  then show "(open_frames (snd (kvs ! i)) @ ObjectFrame kvs (Suc i) # frames, ObjectFrame kvs i # frames)
      \<in> measure (\<lambda>fs. sum_list (map frame_weight fs))"
    using open_frames_weight [of "snd (kvs ! i)"] by (simp add: case_prod_unfold)
qed auto

definition canonicalTokens :: "json \<Rightarrow> string list result" where
  "canonicalTokens v = bind_r (canonicalJson v) (\<lambda>normalized.
     Inr (open_token normalized # run_frames (open_frames normalized)))"

section \<open>Encoding and digest\<close>

definition CANONICAL_HASH_BATCH_CODE_UNITS :: nat where
  "CANONICAL_HASH_BATCH_CODE_UNITS = 8192"

fun batch_tokens :: "string \<Rightarrow> string list \<Rightarrow> string list" where
  "batch_tokens buffered [] = (if buffered \<noteq> [] then [buffered] else [])"
| "batch_tokens buffered (token # tokens) =
     (let b = buffered @ token in
      if length b \<ge> CANONICAL_HASH_BATCH_CODE_UNITS then b # batch_tokens [] tokens
      else batch_tokens b tokens)"

definition canonicalEncodingChunks :: "json \<Rightarrow> string list result" where
  "canonicalEncodingChunks v = bind_r (canonicalTokens v) (\<lambda>tokens. Inr (batch_tokens [] tokens))"

text \<open>The hasher consumes the chunks one after another.\<close>

definition rawSha256 :: "(string \<Rightarrow> string) \<Rightarrow> string \<Rightarrow> string" where
  "rawSha256 hash text = ''sha256:'' @ hash text"

definition sha256 :: "(string \<Rightarrow> string) \<Rightarrow> json \<Rightarrow> string result" where
  "sha256 hash v = bind_r (canonicalEncodingChunks v) (\<lambda>chunks. Inr (rawSha256 hash (concat chunks)))"

definition digest_of :: "(string \<Rightarrow> string) \<Rightarrow> string \<Rightarrow> string" where
  "digest_of hash text = drop (length ''sha256:'') (rawSha256 hash text)"

text \<open>The lockstep comparison of two token streams.\<close>

fun same_tokens :: "string list \<Rightarrow> string list \<Rightarrow> bool" where
  "same_tokens [] [] = True"
| "same_tokens (a # as) (b # bs) = (a = b \<and> same_tokens as bs)"
| "same_tokens _ _ = False"

definition canonicalEquals :: "json \<Rightarrow> json \<Rightarrow> bool result" where
  "canonicalEquals left right =
     bind_r (canonicalTokens left) (\<lambda>a. bind_r (canonicalTokens right) (\<lambda>b. Inr (same_tokens a b)))"

section \<open>Sorted collections\<close>

definition uniqueSorted :: "string list \<Rightarrow> string list" where
  "uniqueSorted values = sort (dedup values)"

definition add_by_key ::
  "('v \<Rightarrow> string) \<Rightarrow> ('v \<Rightarrow> json) \<Rightarrow> 'v \<Rightarrow> (string, 'v) jsmap \<Rightarrow> (string, 'v) jsmap result" where
  "add_by_key keyOf enc v byKey = (case map_get byKey (keyOf v) of
       None \<Rightarrow> Inr (map_set (keyOf v) v byKey)
     | Some old \<Rightarrow> bind_r (canonicalEquals (enc old) (enc v)) (\<lambda>same.
         if same then Inr byKey else throw (CodedFailure ''CANONICAL-KEY-CONFLICT'' [])))"

text \<open>\<open>enc\<close> reads a value as the JSON it is.\<close>

definition uniqueSortedByKey ::
  "('v \<Rightarrow> string) \<Rightarrow> ('v \<Rightarrow> json) \<Rightarrow> 'v list \<Rightarrow> 'v list result" where
  "uniqueSortedByKey keyOf enc values =
     bind_r (fold_r (add_by_key keyOf enc) values []) (\<lambda>byKey. Inr (map snd (sort_key fst byKey)))"

definition stableById :: "('v \<Rightarrow> string) \<Rightarrow> 'v list \<Rightarrow> 'v list" where
  "stableById idOf values = sort_key idOf values"

definition sortedKeys :: "(string \<times> 'a) list \<Rightarrow> string list" where
  "sortedKeys kvs = sort (map fst kvs)"

section \<open>The frame machine prints what the recursive printer prints\<close>

text \<open>Tokens of a value, by recursion.\<close>

fun separated :: "string list list \<Rightarrow> string list" where
  "separated [] = []"
| "separated [t] = t"
| "separated (t # ts) = t @ '','' # separated ts"

fun value_tokens :: "json \<Rightarrow> string list" where
  "value_tokens (JArray xs) = ''['' # separated (map value_tokens xs) @ ['']'']"
| "value_tokens (JObject kvs) =
     ''{'' # separated (map (\<lambda>(k, v). quote_string k # '':'' # value_tokens v) kvs) @ [''}'']"
| "value_tokens v = [stringify v]"

definition tokens_from :: "nat \<Rightarrow> string list list \<Rightarrow> string list" where
  "tokens_from i ts = (if i < length ts then comma i @ separated (drop i ts) else [])"

lemma separated_Cons: "separated (t # ts) = t @ (if ts = [] then [] else '','' # separated ts)"
  by (cases ts) auto

lemma tokens_from_step: "i < length ts \<Longrightarrow> tokens_from i ts = comma i @ ts ! i @ tokens_from (Suc i) ts"
  by (simp add: tokens_from_def Cons_nth_drop_Suc [symmetric] separated_Cons comma_def)

lemma tokens_from_0: "tokens_from 0 ts = separated ts"
  by (simp add: tokens_from_def comma_def)

lemma run_array:
  assumes "\<And>x fs. x \<in> set xs \<Longrightarrow> open_token x # run_frames (open_frames x @ fs) = value_tokens x @ run_frames fs"
  shows "i \<le> length xs \<Longrightarrow>
    run_frames (ArrayFrame xs i # fs) = tokens_from i (map value_tokens xs) @ '']'' # run_frames fs"
proof (induction "length xs - i" arbitrary: i)
  case 0
  then show ?case by (simp add: tokens_from_def)
next
  case (Suc n)
  then have i: "i < length xs" by simp
  then have "run_frames (ArrayFrame xs i # fs) =
      comma i @ value_tokens (xs ! i) @ run_frames (ArrayFrame xs (Suc i) # fs)"
    using assms [OF nth_mem [OF i]] by simp
  also have "run_frames (ArrayFrame xs (Suc i) # fs) = tokens_from (Suc i) (map value_tokens xs) @ '']'' # run_frames fs"
    using Suc.hyps(1) [of "Suc i"] Suc.hyps(2) i by simp
  finally show ?case using i by (simp add: tokens_from_step)
qed

lemma run_object:
  assumes "\<And>k v fs. (k, v) \<in> set kvs \<Longrightarrow> open_token v # run_frames (open_frames v @ fs) = value_tokens v @ run_frames fs"
  shows "i \<le> length kvs \<Longrightarrow>
    run_frames (ObjectFrame kvs i # fs) =
      tokens_from i (map (\<lambda>(k, v). quote_string k # '':'' # value_tokens v) kvs) @ ''}'' # run_frames fs"
proof (induction "length kvs - i" arbitrary: i)
  case 0
  then show ?case by (simp add: tokens_from_def)
next
  case (Suc n)
  then have i: "i < length kvs" by simp
  obtain k v where kv: "kvs ! i = (k, v)" by (rule prod.exhaust)
  then have "(k, v) \<in> set kvs" using nth_mem [OF i] by simp
  from assms [OF this] have "run_frames (ObjectFrame kvs i # fs) =
      comma i @ quote_string k # '':'' # value_tokens v @ run_frames (ObjectFrame kvs (Suc i) # fs)"
    using i by (simp add: kv)
  also have "run_frames (ObjectFrame kvs (Suc i) # fs) =
      tokens_from (Suc i) (map (\<lambda>(k, v). quote_string k # '':'' # value_tokens v) kvs) @ ''}'' # run_frames fs"
    using Suc.hyps(1) [of "Suc i"] Suc.hyps(2) i by simp
  finally show ?case using i by (simp add: tokens_from_step kv)
qed

lemma run_value: "open_token v # run_frames (open_frames v @ fs) = value_tokens v @ run_frames fs"
proof (induction v arbitrary: fs)
  case (JArray xs)
  then show ?case using run_array [of xs 0 fs] by (simp add: open_token_def open_frames_def tokens_from_0 del: run_frames.simps)
next
  case (JObject kvs)
  have "open_token v # run_frames (open_frames v @ fs) = value_tokens v @ run_frames fs" if "(k, v) \<in> set kvs" for k v fs
    using JObject [of "(k, v)" v] that by simp
  then show ?case using run_object [of kvs 0 fs] by (simp add: open_token_def open_frames_def tokens_from_0 del: run_frames.simps)
qed (simp_all add: open_token_def open_frames_def)

lemma concat_separated: "concat (separated ts) = join_with '','' (map concat ts)"
  by (induction ts rule: separated.induct) auto

lemma concat_value_tokens: "concat (value_tokens v) = stringify v"
proof (induction v)
  case (JArray xs)
  then show ?case by (simp add: concat_separated cong: map_cong)
next
  case (JObject kvs)
  then have "map (concat \<circ> (\<lambda>(k, v). quote_string k # '':'' # value_tokens v)) kvs =
      map (\<lambda>(k, v). quote_string k @ '':'' @ stringify v) kvs"
    by (auto simp: case_prod_unfold)
  from arg_cong [OF this, of "join_with '',''"] show ?case by (simp add: concat_separated)
qed simp_all

lemma concat_batch: "concat (batch_tokens buf ts) = buf @ concat ts"
  by (induction buf ts rule: batch_tokens.induct) (auto simp: Let_def)


lemma canonicalTokens_eq:
  "canonicalTokens v = (if finite_json v then Inr (value_tokens (canonical_form v))
     else Inl (NativeError ''Canonical JSON numbers must be finite''))"
  using run_value [of "canonical_form v" "[]"] by (simp add: canonicalTokens_def canonicalJson_def throw_def)

lemma sha256_eq: "finite_json v \<Longrightarrow> sha256 hash v = Inr (''sha256:'' @ hash (stringify (canonical_form v)))"
  by (simp add: sha256_def canonicalEncodingChunks_def canonicalTokens_eq concat_batch concat_value_tokens rawSha256_def)


section \<open>Key order does not matter\<close>

text \<open>The same value with the properties of its objects in another order.\<close>

inductive reordered :: "json \<Rightarrow> json \<Rightarrow> bool" where
  scalar: "reordered v v"
| array: "list_all2 reordered xs ys \<Longrightarrow> reordered (JArray xs) (JArray ys)"
| object: "distinct (map fst kvs) \<Longrightarrow> map fst kvs' = map fst kvs \<Longrightarrow>
    list_all2 reordered (map snd kvs) (map snd kvs') \<Longrightarrow> mset kvs' = mset kvs'' \<Longrightarrow>
    reordered (JObject kvs) (JObject kvs'')"

lemma sort_key_distinct_eq:
  assumes "mset xs = mset ys" "distinct (map f ys)"
  shows "sort_key f xs = sort_key f ys"
proof (rule sort_key_inj_key_eq)
  show "mset xs = mset (sort_key f ys)" using assms by simp
  have "set xs = set ys" using assms(1) by (metis set_mset_mset)
  then show "inj_on f (set xs)" using assms(2) by (simp add: distinct_map)
  show "sorted (map f (sort_key f ys))" by simp
qed

lemma canonical_form_reordered:
  "reordered v w \<Longrightarrow> canonical_form v = canonical_form w \<and> finite_json v = finite_json w"
proof (induction rule: reordered.induct)
  case (array xs ys)
  have "map canonical_form xs = map canonical_form ys \<and> list_all finite_json xs = list_all finite_json ys"
    using array by (induction rule: list_all2_induct) auto
  then show ?case by simp
next
  case (object kvs kvs' kvs'')
  let ?c = "\<lambda>kv :: string \<times> json. (fst kv, canonical_form (snd kv))"
  have each: "canonical_form (snd (kvs ! i)) = canonical_form (snd (kvs' ! i)) \<and>
      finite_json (snd (kvs ! i)) = finite_json (snd (kvs' ! i))" if "i < length kvs" for i
    using object.IH that by (auto simp: list_all2_conv_all_nth)
  have len: "length kvs' = length kvs" using object.hyps(2) by (metis length_map)
  have "map ?c kvs = map ?c kvs'"
  proof (rule nth_equalityI)
    show "length (map ?c kvs) = length (map ?c kvs')" by (simp add: len)
    show "map ?c kvs ! i = map ?c kvs' ! i" if "i < length (map ?c kvs)" for i
      using that each [of i] len arg_cong [OF object.hyps(2), of "\<lambda>l. l ! i"] by simp
  qed
  moreover have "mset (map ?c kvs') = mset (map ?c kvs'')" using object.hyps(3) by simp
  moreover have "distinct (map fst (map ?c kvs''))"
  proof -
    have "mset (map fst kvs'') = mset (map fst kvs)" using object.hyps(2,3) by (metis mset_map)
    then have "distinct (map fst kvs'')" using object.hyps(1) by (metis mset_eq_imp_distinct_iff)
    then show ?thesis by (simp add: comp_def)
  qed
  ultimately have "sort_key fst (map ?c kvs) = sort_key fst (map ?c kvs'')"
    by (simp add: sort_key_distinct_eq del: map_map)
  moreover have "list_all (\<lambda>kv. finite_json (snd kv)) kvs = list_all (\<lambda>kv. finite_json (snd kv)) kvs'"
    using each len by (auto simp: list_all_length)
  moreover have "list_all (\<lambda>kv. finite_json (snd kv)) kvs' = list_all (\<lambda>kv. finite_json (snd kv)) kvs''"
    using object.hyps(3) by (simp add: list_all_iff) (metis set_mset_mset)
  ultimately show ?case by (simp add: case_prod_unfold)
qed simp

text \<open>
  C25. Digests and canonical equality do not depend on the order of properties: a value and the same
  value with the properties of any of its objects reordered have the same digest, whatever the hash
  function, and compare as canonically equal.
\<close>

theorem digest_ignores_key_order:
  assumes "reordered v w"
  shows "sha256 hash v = sha256 hash w \<and> canonicalTokens v = canonicalTokens w \<and>
     (finite_json v \<longrightarrow> canonicalEquals v w = Inr True)"
proof -
  have same: "same_tokens ts ts" for ts by (induction ts) auto
  note r = canonical_form_reordered [OF assms]
  then have "canonicalTokens v = canonicalTokens w" by (simp add: canonicalTokens_eq)
  moreover have "canonicalEquals v w = Inr True" if "finite_json v"
    using that r by (simp add: canonicalEquals_def canonicalTokens_eq same)
  ultimately show ?thesis by (simp add: sha256_def canonicalEncodingChunks_def)
qed

theorem digest_ignores_key_order_witness:
  "sha256 (\<lambda>s. s) (JObject [(''b'', JNull), (''a'', JNumber (Decimal 1 0))]) =
   sha256 (\<lambda>s. s) (JObject [(''a'', JNumber (Decimal 1 0)), (''b'', JNull)])"
proof -
  have "reordered (JObject [(''b'', JNull), (''a'', JNumber (Decimal 1 0))])
      (JObject [(''a'', JNumber (Decimal 1 0)), (''b'', JNull)])"
    by (rule reordered.object [where kvs' = "[(''b'', JNull), (''a'', JNumber (Decimal 1 0))]"])
      (auto intro: reordered.scalar)
  from digest_ignores_key_order [OF this] show ?thesis by blast
qed

section \<open>One representative per key\<close>

definition first_with :: "('v \<Rightarrow> string) \<Rightarrow> 'v list \<Rightarrow> string \<Rightarrow> 'v" where
  "first_with keyOf vs k = hd (filter (\<lambda>v. keyOf v = k) vs)"

definition same_value :: "('v \<Rightarrow> json) \<Rightarrow> 'v \<Rightarrow> 'v \<Rightarrow> bool" where
  "same_value enc a b \<longleftrightarrow> value_tokens (canonical_form (enc a)) = value_tokens (canonical_form (enc b))"

definition no_conflict :: "('v \<Rightarrow> string) \<Rightarrow> ('v \<Rightarrow> json) \<Rightarrow> 'v list \<Rightarrow> bool" where
  "no_conflict keyOf enc vs \<longleftrightarrow> (\<forall>v \<in> set vs. same_value enc (first_with keyOf vs (keyOf v)) v)"

lemma same_tokens_iff: "same_tokens a b \<longleftrightarrow> a = b"
  by (induction a b rule: same_tokens.induct) auto

lemma canonicalEquals_eq:
  "finite_json v \<Longrightarrow> finite_json w \<Longrightarrow>
     canonicalEquals v w = Inr (value_tokens (canonical_form v) = value_tokens (canonical_form w))"
  by (simp add: canonicalEquals_def canonicalTokens_eq same_tokens_iff)

lemma first_with_old: "k \<in> keyOf ` set vs \<Longrightarrow> first_with keyOf (vs @ ws) k = first_with keyOf vs k"
proof -
  assume "k \<in> keyOf ` set vs"
  then have "filter (\<lambda>v. keyOf v = k) vs \<noteq> []" by (auto simp: filter_empty_conv)
  then show ?thesis by (simp add: first_with_def)
qed

lemma first_with_new: "keyOf v \<notin> keyOf ` set vs \<Longrightarrow> first_with keyOf (vs @ [v]) (keyOf v) = v"
proof -
  assume "keyOf v \<notin> keyOf ` set vs"
  then have "filter (\<lambda>w. keyOf w = keyOf v) vs = []" unfolding filter_empty_conv by (metis image_eqI)
  then show ?thesis by (simp add: first_with_def)
qed

lemma dedup_snoc: "dedup (xs @ [x]) = (if x \<in> set xs then dedup xs else dedup xs @ [x])"
  by (induction xs) auto

lemma no_conflict_snoc:
  "no_conflict keyOf enc (vs @ [v]) \<longleftrightarrow> no_conflict keyOf enc vs \<and>
     (keyOf v \<in> keyOf ` set vs \<longrightarrow> same_value enc (first_with keyOf vs (keyOf v)) v)"
proof -
  have "first_with keyOf (vs @ [v]) (keyOf w) = first_with keyOf vs (keyOf w)" if "w \<in> set vs" for w
    using that by (intro first_with_old) simp
  then show ?thesis
    by (cases "keyOf v \<in> keyOf ` set vs")
      (auto simp: no_conflict_def first_with_old first_with_new same_value_def)
qed

lemma add_by_keys:
  assumes "\<And>v. v \<in> set vs \<Longrightarrow> finite_json (enc v)"
  shows "fold_r (add_by_key keyOf enc) vs [] =
     (if no_conflict keyOf enc vs then Inr (map (\<lambda>k. (k, first_with keyOf vs k)) (dedup (map keyOf vs)))
      else Inl (CodedFailure ''CANONICAL-KEY-CONFLICT'' []))"
  using assms
proof (induction vs rule: rev_induct)
  case Nil
  show ?case by (simp add: no_conflict_def)
next
  case (snoc v vs)
  let ?m = "map (\<lambda>k. (k, first_with keyOf vs k)) (dedup (map keyOf vs))"
  have IH: "fold_r (add_by_key keyOf enc) vs [] =
      (if no_conflict keyOf enc vs then Inr ?m else Inl (CodedFailure ''CANONICAL-KEY-CONFLICT'' []))"
    using snoc by simp
  have get: "map_get ?m k = (if k \<in> keyOf ` set vs then Some (first_with keyOf vs k) else None)" for k
    by (simp add: map_get_def map_of_map_restrict restrict_map_def)
  have old: "first_with keyOf (vs @ [v]) k = first_with keyOf vs k" if "k \<in> keyOf ` set vs" for k
    using that by (rule first_with_old)
  show ?case
  proof (cases "no_conflict keyOf enc vs")
    case False
    then show ?thesis using IH by (simp add: no_conflict_snoc)
  next
    case True
    show ?thesis
    proof (cases "keyOf v \<in> keyOf ` set vs")
      case False
      then have "add_by_key keyOf enc v ?m = Inr (?m @ [(keyOf v, v)])"
        by (auto simp: add_by_key_def get image_image intro!: map_set_new)
      moreover have "map (\<lambda>k. (k, first_with keyOf (vs @ [v]) k)) (dedup (map keyOf (vs @ [v]))) = ?m @ [(keyOf v, v)]"
        using False by (simp add: dedup_snoc old first_with_new)
      ultimately show ?thesis using True False IH by (simp add: no_conflict_snoc)
    next
      case in_vs: True
      have fin: "finite_json (enc v)" "finite_json (enc (first_with keyOf vs (keyOf v)))"
      proof -
        have "filter (\<lambda>w. keyOf w = keyOf v) vs \<noteq> []" using in_vs by (auto simp: filter_empty_conv)
        then have "first_with keyOf vs (keyOf v) \<in> set vs"
          unfolding first_with_def by (metis filter_is_subset hd_in_set subsetD)
        then show "finite_json (enc v)" "finite_json (enc (first_with keyOf vs (keyOf v)))" using snoc.prems by simp_all
      qed
      have "add_by_key keyOf enc v ?m =
          (if same_value enc (first_with keyOf vs (keyOf v)) v then Inr ?m else Inl (CodedFailure ''CANONICAL-KEY-CONFLICT'' []))"
        using in_vs fin by (simp add: add_by_key_def get canonicalEquals_eq same_value_def throw_def)
      moreover have "map (\<lambda>k. (k, first_with keyOf (vs @ [v]) k)) (dedup (map keyOf (vs @ [v]))) = ?m"
        using in_vs by (simp add: dedup_snoc old)
      ultimately show ?thesis using True in_vs IH by (simp add: no_conflict_snoc)
    qed
  qed
qed

text \<open>
  One value per key: when all values are canonical data, \<open>uniqueSortedByKey\<close> returns the first
  value of every key in ascending key order if all values of a key are canonically equal, and refuses
  the whole collection with \<open>CANONICAL-KEY-CONFLICT\<close> otherwise.
\<close>

theorem unique_sorted_by_key:
  assumes "\<forall>v \<in> set vs. finite_json (enc v)"
  shows "uniqueSortedByKey keyOf enc vs =
     (if no_conflict keyOf enc vs then Inr (map (first_with keyOf vs) (sort (dedup (map keyOf vs))))
      else Inl (CodedFailure ''CANONICAL-KEY-CONFLICT'' []))"
proof -
  have "sort_key fst (map (\<lambda>k. (k, first_with keyOf vs k)) ks) = map (\<lambda>k. (k, first_with keyOf vs k)) (sort ks)"
    if "distinct ks" for ks
    using that by (intro sort_key_inj_key_eq) (auto simp: inj_on_def comp_def)
  then show ?thesis
    using add_by_keys [of vs enc keyOf] assms by (simp add: uniqueSortedByKey_def comp_def)
qed

theorem unique_sorted_by_key_witness:
  "uniqueSortedByKey fst (\<lambda>v. JString (snd v)) [(''b'', ''x''), (''a'', ''y''), (''b'', ''x'')] =
     Inr [(''a'', ''y''), (''b'', ''x'')]"
proof -
  have "\<forall>v \<in> set [(''b'', ''x''), (''a'', ''y''), (''b'', ''x'')]. finite_json (JString (snd v))" by simp
  from unique_sorted_by_key [OF this, of fst] show ?thesis
    by (simp add: no_conflict_def first_with_def same_value_def)
qed

end
