(* ===== verification/SemanticOperation.thy ===== *)
theory SemanticOperation
  imports Canonical
begin

text \<open>
  Semantic operations, \<^verbatim>\<open>src/src/execution/operation/semantic.ts\<close>: intents and plans compiled to digests,
  capability bindings, provider settlements, domain readbacks, owner joins and the admission of a retry
  after recovery.

  Module-level \<open>WeakSet\<close>s hold object identities. The model keeps them in a \<open>foundation\<close> state as lists of
  the frozen values they contain; a value whose identity matters carries the reference it was created with,
  so that a structural copy is a different value. \<open>hash\<close> is the hash function as in \<open>Canonical\<close>, random
  nonces and the clock are arguments. Millisecond times and budgets are integers: JavaScript numbers that
  are not safe integers are refused by the same checks. \<open>deepFreeze\<close> has no counterpart for values.
\<close>

section \<open>Data\<close>

definition OPERATION_EFFECT_KINDS :: "string list" where
  "OPERATION_EFFECT_KINDS = [''filesystem'', ''network'', ''persistent-state'', ''process'', ''provider'']"

definition OPERATION_BUDGET_RESOURCES :: "string list" where
  "OPERATION_BUDGET_RESOURCES = [''duration-ms'', ''input-bytes'', ''output-bytes'', ''processes'', ''records'']"

record operation_requirement =
  rq_id :: string
  rq_contractDigest :: string
  rq_effectKinds :: "string list"
  rq_failureKinds :: "string list"

record operation_budget =
  bd_resource :: string
  bd_maximum :: int

record operation_identity =
  oi_operation :: string
  oi_intentDigest :: string
  oi_decisionDigest :: string
  oi_identityDigest :: string

record execution_plan =
  ep_operationIdentityDigest :: string
  ep_aggregateBudgets :: "operation_budget list"
  ep_requirements :: "operation_requirement list"
  ep_executionPlanDigest :: string

record operation_intent =
  in_identity :: operation_identity
  in_execution :: execution_plan

record attempt_context =
  ac_ref :: nat
  ac_authorityGrantDigest :: string
  ac_runIdDigest :: "string option"
  ac_resumeEpochDigest :: "string option"
  ac_attemptNonceDigest :: string

record operation_attempt =
  oa_operationIdentityDigest :: string
  oa_executionPlanDigest :: string
  oa_authorityGrantDigest :: string
  oa_runIdDigest :: "string option"
  oa_resumeEpochDigest :: "string option"
  oa_attemptNonceDigest :: string
  oa_deadlineAtUnixMs :: int
  oa_attemptDigest :: string

record operation_plan =
  pl_ref :: nat
  pl_identity :: operation_identity
  pl_execution :: execution_plan
  pl_attempt :: operation_attempt

record capability_binding =
  cb_requirementId :: string
  cb_contractDigest :: string
  cb_providerIdentityDigest :: string
  cb_bindingDigest :: string

record bound_operation =
  bo_plan :: operation_plan
  bo_bindings :: "capability_binding list"
  bo_bindingSetIdentityDigest :: string
  bo_boundAttemptDigest :: string

definition PROVIDER_PHYSICAL_DISPOSITIONS :: "string list" where
  "PROVIDER_PHYSICAL_DISPOSITIONS = [''not-started'', ''settled'', ''unknown'']"

definition DOMAIN_READBACK_DISPOSITIONS :: "string list" where
  "DOMAIN_READBACK_DISPOSITIONS = [''applied'', ''not-applied'', ''unknown'']"

record settlement_receipt =
  sr_requirementId :: string
  sr_contractDigest :: string
  sr_bindingDigest :: string
  sr_operationIdentityDigest :: string
  sr_executionPlanDigest :: string
  sr_boundAttemptDigest :: string
  sr_physicalDisposition :: string
  sr_providerSettlementReferenceDigest :: string
  sr_providerReceiptDigest :: string

record settlement_set =
  ss_operationIdentityDigest :: string
  ss_executionPlanDigest :: string
  ss_bindingSetIdentityDigest :: string
  ss_boundAttemptDigest :: string
  ss_settlements :: "settlement_receipt list"
  ss_providerReceiptDigests :: "string list"
  ss_providerSettlementSetDigest :: string

text \<open>The coordinates of an earlier attempt that a recovered readback refers to.\<close>

record predecessor_reference =
  pr_operationIdentityDigest :: string
  pr_executionPlanDigest :: string
  pr_bindingSetIdentityDigest :: string
  pr_boundAttemptDigest :: string
  pr_attemptNonceDigest :: string
  pr_authorityGrantDigest :: string
  pr_resumeEpochDigest :: "string option"
  pr_deadlineAtUnixMs :: int

text \<open>A readback is recovered exactly when it carries a predecessor.\<close>

record readback_receipt =
  rb_ref :: nat
  rb_operationIdentityDigest :: string
  rb_executionPlanDigest :: string
  rb_bindingSetIdentityDigest :: string
  rb_boundAttemptDigest :: string
  rb_providerSettlementSetDigest :: "string option"
  rb_durableObservationDigest :: "string option"
  rb_predecessor :: "predecessor_reference option"
  rb_readbackContractDigest :: string
  rb_readbackReferenceDigest :: string
  rb_currentPhysicalEpochDigest :: string
  rb_disposition :: string
  rb_readbackReceiptDigest :: string

record join_receipt =
  jr_recoveryMode :: string
  jr_operationIdentityDigest :: string
  jr_executionPlanDigest :: string
  jr_bindingSetIdentityDigest :: string
  jr_boundAttemptDigest :: string
  jr_providerSettlementSetDigest :: "string option"
  jr_readbackReceiptDigest :: string
  jr_ownerTerminalContractDigest :: string
  jr_ownerTerminalReferenceDigest :: string
  jr_joinReceiptDigest :: string

record retry_admission =
  ra_ref :: nat
  ra_operationIdentityDigest :: string
  ra_previousExecutionPlanDigest :: string
  ra_previousBindingSetIdentityDigest :: string
  ra_previousBoundAttemptDigest :: string
  ra_previousAttemptNonceDigest :: string
  ra_previousDeadlineAtUnixMs :: int
  ra_recoveryBoundAttemptDigest :: string
  ra_recoveryAuthorityGrantDigest :: string
  ra_recoveryResumeEpochDigest :: string
  ra_recoveredReadbackReceiptDigest :: string
  ra_currentPhysicalEpochDigest :: string
  ra_retryAdmissionDigest :: string

text \<open>The module's \<open>WeakSet\<close>s and the next fresh reference.\<close>

record foundation =
  next_ref :: nat
  COMPILED_OPERATION_PLANS :: "operation_plan list"
  COMPILED_ATTEMPT_CONTEXTS :: "attempt_context list"
  ISSUED_RECOVERED_READBACK_RECEIPTS :: "readback_receipt list"
  ISSUED_RECOVERED_RETRY_ADMISSIONS :: "retry_admission list"
  CONSUMED_RECOVERED_READBACK_RECEIPTS :: "readback_receipt list"
  CONSUMED_RECOVERED_RETRY_ADMISSIONS :: "retry_admission list"

section \<open>Checks of components\<close>

definition is_digest :: "string \<Rightarrow> bool" where
  "is_digest s = (starts_with s ''sha256:'' \<and> length s = 71 \<and> list_all is_hex_lower (drop 7 s))"

definition requireDigest :: "string \<Rightarrow> string \<Rightarrow> string result" where
  "requireDigest v label =
     bind_r (throw_if (\<not> is_digest v) (NativeError (label @ '' must be a canonical SHA-256 digest.''))) (\<lambda>_. Inr v)"

text \<open>\<open>/^[a-z][a-z0-9]*(?:[.-][a-z0-9]+)+$/\<close>\<close>

definition is_operation_id :: "string \<Rightarrow> bool" where
  "is_operation_id s =
     (let segments = split_on CHR ''.'' (replace_char CHR ''-'' CHR ''.'' s) in
      2 \<le> length segments \<and> list_all (\<lambda>w. w \<noteq> [] \<and> list_all is_lower_alnum w) segments \<and> is_lower (hd s))"

definition requireId :: "string \<Rightarrow> string \<Rightarrow> string result" where
  "requireId v label =
     bind_r (throw_if (\<not> is_operation_id v) (NativeError (label @ '' must be a canonical semantic identity.''))) (\<lambda>_. Inr v)"

definition canonicalUniqueStrings :: "string list \<Rightarrow> string \<Rightarrow> string list result" where
  "canonicalUniqueStrings values label =
     (let canonical = sort values in
      bind_r (throw_if (list_ex (\<lambda>v. v = [] \<or> trim v \<noteq> v) canonical \<or> length (dedup canonical) \<noteq> length canonical)
        (NativeError (label @ '' must contain unique non-empty canonical values.''))) (\<lambda>_. Inr canonical))"

definition is_safe_integer :: "int \<Rightarrow> bool" where
  "is_safe_integer n = (- 9007199254740991 \<le> n \<and> n \<le> 9007199254740991)"

definition isCanonicalOperationBudgetMaximum :: "string \<Rightarrow> int \<Rightarrow> bool" where
  "isCanonicalOperationBudgetMaximum resource maximum =
     (resource \<in> set OPERATION_BUDGET_RESOURCES \<and> is_safe_integer maximum \<and>
      (maximum > 0 \<or> (resource = ''input-bytes'' \<and> maximum = 0)))"

definition canonicalOperationBudget :: "operation_budget \<Rightarrow> operation_budget result" where
  "canonicalOperationBudget budget =
     bind_r (throw_if (\<not> isCanonicalOperationBudgetMaximum (bd_resource budget) (bd_maximum budget))
       (NativeError ''Semantic operation aggregate budget is not canonical.'')) (\<lambda>_. Inr budget)"

definition canonicalRequirement :: "operation_requirement \<Rightarrow> operation_requirement result" where
  "canonicalRequirement requirement =
     bind_r (requireId (rq_id requirement) ''Operation requirement id'') (\<lambda>i.
     bind_r (canonicalUniqueStrings (rq_effectKinds requirement) (''Operation requirement '' @ i @ '' effect kinds'')) (\<lambda>effectKinds.
     bind_r (throw_if (list_ex (\<lambda>kind. kind \<notin> set OPERATION_EFFECT_KINDS) effectKinds)
       (NativeError (''Operation requirement '' @ i @ '' contains an unsupported Effect kind.''))) (\<lambda>_.
     bind_r (requireDigest (rq_contractDigest requirement) (''Operation requirement '' @ i @ '' contract digest'')) (\<lambda>contractDigest.
     bind_r (canonicalUniqueStrings (rq_failureKinds requirement) (''Operation requirement '' @ i @ '' failure kinds'')) (\<lambda>failureKinds.
     Inr \<lparr>rq_id = i, rq_contractDigest = contractDigest, rq_effectKinds = effectKinds,
          rq_failureKinds = failureKinds\<rparr>)))))"

section \<open>Digest payloads\<close>

definition jtext :: "string \<Rightarrow> string \<Rightarrow> string \<times> json" where
  "jtext k s = (k, JString s)"

definition jint :: "string \<Rightarrow> int \<Rightarrow> string \<times> json" where
  "jint k n = (k, JNumber (Decimal n 0))"

definition jnullable :: "string \<Rightarrow> string option \<Rightarrow> string \<times> json" where
  "jnullable k v = (k, case v of None \<Rightarrow> JNull | Some s \<Rightarrow> JString s)"

definition jtexts :: "string \<Rightarrow> string list \<Rightarrow> string \<times> json" where
  "jtexts k ss = (k, JArray (map JString ss))"

definition identity_payload :: "string \<Rightarrow> string \<Rightarrow> string \<Rightarrow> json" where
  "identity_payload operation intentDigest decisionDigest =
     JObject [jtext ''operation'' operation, jtext ''intentDigest'' intentDigest,
       jtext ''decisionDigest'' decisionDigest]"

definition budget_json :: "operation_budget \<Rightarrow> json" where
  "budget_json b = JObject [jtext ''resource'' (bd_resource b), jint ''maximum'' (bd_maximum b)]"

definition requirement_json :: "operation_requirement \<Rightarrow> json" where
  "requirement_json r = JObject [jtext ''id'' (rq_id r), jtext ''contractDigest'' (rq_contractDigest r),
     jtexts ''effectKinds'' (rq_effectKinds r), jtexts ''failureKinds'' (rq_failureKinds r)]"

definition execution_payload :: "string \<Rightarrow> operation_budget list \<Rightarrow> operation_requirement list \<Rightarrow> json" where
  "execution_payload operationIdentityDigest budgets requirements =
     JObject [jtext ''operationIdentityDigest'' operationIdentityDigest,
       (''aggregateBudgets'', JArray (map budget_json budgets)),
       (''requirements'', JArray (map requirement_json requirements))]"

definition attempt_payload :: "operation_attempt \<Rightarrow> json" where
  "attempt_payload a = JObject [jtext ''operationIdentityDigest'' (oa_operationIdentityDigest a),
     jtext ''executionPlanDigest'' (oa_executionPlanDigest a), jtext ''authorityGrantDigest'' (oa_authorityGrantDigest a),
     jnullable ''runIdDigest'' (oa_runIdDigest a), jnullable ''resumeEpochDigest'' (oa_resumeEpochDigest a),
     jtext ''attemptNonceDigest'' (oa_attemptNonceDigest a), jint ''deadlineAtUnixMs'' (oa_deadlineAtUnixMs a)]"

section \<open>Intents, plans and bindings\<close>

definition compileSemanticOperationIntent ::
  "(string \<Rightarrow> string) \<Rightarrow> string \<Rightarrow> string \<Rightarrow> string \<Rightarrow> operation_budget list \<Rightarrow> operation_requirement list \<Rightarrow>
   operation_intent result" where
  "compileSemanticOperationIntent hash operation intentDigest decisionDigest budgets requirements =
     bind_r (requireId operation ''Semantic operation'') (\<lambda>operation.
     bind_r (map_r canonicalOperationBudget (sort_key bd_resource budgets)) (\<lambda>aggregateBudgets.
     bind_r (throw_if (length (dedup (map bd_resource aggregateBudgets)) \<noteq> length aggregateBudgets)
       (NativeError ''Semantic operation aggregate budgets must be unique by resource.'')) (\<lambda>_.
     bind_r (map_r canonicalRequirement requirements) (\<lambda>canonical.
     let reqs = sort_key rq_id canonical in
     bind_r (throw_if (reqs = [] \<or> length (dedup (map rq_id reqs)) \<noteq> length reqs)
       (NativeError ''Semantic operation must have unique capability requirements.'')) (\<lambda>_.
     bind_r (requireDigest intentDigest ''Semantic operation intent digest'') (\<lambda>intentDigest.
     bind_r (requireDigest decisionDigest ''Semantic operation decision digest'') (\<lambda>decisionDigest.
     bind_r (sha256 hash (identity_payload operation intentDigest decisionDigest)) (\<lambda>identityDigest.
     bind_r (sha256 hash (execution_payload identityDigest aggregateBudgets reqs)) (\<lambda>executionPlanDigest.
     Inr \<lparr>in_identity = \<lparr>oi_operation = operation, oi_intentDigest = intentDigest,
            oi_decisionDigest = decisionDigest, oi_identityDigest = identityDigest\<rparr>,
          in_execution = \<lparr>ep_operationIdentityDigest = identityDigest, ep_aggregateBudgets = aggregateBudgets,
            ep_requirements = reqs, ep_executionPlanDigest = executionPlanDigest\<rparr>\<rparr>)))))))))"

text \<open>An attempt context; \<open>nonce\<close> is the hexadecimal text of the random bytes.\<close>

definition optional_digest :: "string option \<Rightarrow> string \<Rightarrow> string option result" where
  "optional_digest v label = (case v of None \<Rightarrow> Inr None | Some d \<Rightarrow> bind_r (requireDigest d label) (\<lambda>d. Inr (Some d)))"

definition issueSemanticOperationAttemptContext ::
  "string \<Rightarrow> string \<Rightarrow> string option \<Rightarrow> string option \<Rightarrow> foundation \<Rightarrow> attempt_context result \<times> foundation" where
  "issueSemanticOperationAttemptContext nonce authorityGrantDigest runIdDigest resumeEpochDigest fnd =
     (case bind_r (requireDigest authorityGrantDigest ''Semantic operation authority grant digest'') (\<lambda>grant.
           bind_r (optional_digest runIdDigest ''Semantic operation run identity digest'') (\<lambda>run.
           bind_r (optional_digest resumeEpochDigest ''Semantic operation resume epoch digest'') (\<lambda>resume.
           Inr \<lparr>ac_ref = next_ref fnd, ac_authorityGrantDigest = grant, ac_runIdDigest = run,
                ac_resumeEpochDigest = resume, ac_attemptNonceDigest = ''sha256:'' @ nonce\<rparr>))) of
        Inl e \<Rightarrow> (Inl e, fnd)
      | Inr context \<Rightarrow> (Inr context, fnd\<lparr>next_ref := next_ref fnd + 1,
           COMPILED_ATTEMPT_CONTEXTS := context # COMPILED_ATTEMPT_CONTEXTS fnd\<rparr>))"

definition compileSemanticOperationPlan ::
  "(string \<Rightarrow> string) \<Rightarrow> string \<Rightarrow> string \<Rightarrow> string \<Rightarrow> int \<Rightarrow> operation_budget list \<Rightarrow> operation_requirement list \<Rightarrow>
   attempt_context \<Rightarrow> foundation \<Rightarrow> operation_plan result \<times> foundation" where
  "compileSemanticOperationPlan hash operation intentDigest decisionDigest deadline budgets requirements context fnd =
     (case bind_r (throw_if (\<not> is_safe_integer deadline \<or> deadline < 1)
             (NativeError ''Semantic operation deadline must be an absolute safe integer.'')) (\<lambda>_.
           bind_r (throw_if (context \<notin> set (COMPILED_ATTEMPT_CONTEXTS fnd))
             (NativeError ''Semantic operation attempt context is not foundation-compiled.'')) (\<lambda>_.
           bind_r (compileSemanticOperationIntent hash operation intentDigest decisionDigest budgets requirements) (\<lambda>intent.
           let attempt = \<lparr>oa_operationIdentityDigest = oi_identityDigest (in_identity intent),
                 oa_executionPlanDigest = ep_executionPlanDigest (in_execution intent),
                 oa_authorityGrantDigest = ac_authorityGrantDigest context, oa_runIdDigest = ac_runIdDigest context,
                 oa_resumeEpochDigest = ac_resumeEpochDigest context,
                 oa_attemptNonceDigest = ac_attemptNonceDigest context, oa_deadlineAtUnixMs = deadline,
                 oa_attemptDigest = []\<rparr> in
           bind_r (sha256 hash (attempt_payload attempt)) (\<lambda>attemptDigest.
           Inr \<lparr>pl_ref = next_ref fnd, pl_identity = in_identity intent, pl_execution = in_execution intent,
                pl_attempt = attempt\<lparr>oa_attemptDigest := attemptDigest\<rparr>\<rparr>)))) of
        Inl e \<Rightarrow> (Inl e, fnd)
      | Inr plan \<Rightarrow> (Inr plan, fnd\<lparr>next_ref := next_ref fnd + 1,
           COMPILED_OPERATION_PLANS := plan # COMPILED_OPERATION_PLANS fnd\<rparr>))"

definition compileCapabilityBinding ::
  "(string \<Rightarrow> string) \<Rightarrow> string \<Rightarrow> string \<Rightarrow> string \<Rightarrow> capability_binding result" where
  "compileCapabilityBinding hash requirementId contractDigest providerIdentityDigest =
     bind_r (requireId requirementId ''Capability binding requirement id'') (\<lambda>requirementId.
     bind_r (requireDigest contractDigest ''Capability binding contract digest'') (\<lambda>contractDigest.
     bind_r (requireDigest providerIdentityDigest ''Capability binding provider identity digest'') (\<lambda>providerIdentityDigest.
     bind_r (sha256 hash (JObject [jtext ''requirementId'' requirementId, jtext ''contractDigest'' contractDigest,
        jtext ''providerIdentityDigest'' providerIdentityDigest])) (\<lambda>bindingDigest.
     Inr \<lparr>cb_requirementId = requirementId, cb_contractDigest = contractDigest,
          cb_providerIdentityDigest = providerIdentityDigest, cb_bindingDigest = bindingDigest\<rparr>))))"

definition assertSemanticOperationPlan :: "foundation \<Rightarrow> operation_plan \<Rightarrow> unit result" where
  "assertSemanticOperationPlan fnd plan =
     throw_if (plan \<notin> set (COMPILED_OPERATION_PLANS fnd))
       (NativeError ''Semantic operation binding requires a foundation-compiled operation plan.'')"

definition check_bound :: "(string \<Rightarrow> string) \<Rightarrow> capability_binding list \<Rightarrow> operation_requirement \<Rightarrow> unit result" where
  "check_bound hash bindings requirement =
     (case find (\<lambda>b. cb_requirementId b = rq_id requirement) bindings of
        None \<Rightarrow> throw (NativeError (''Semantic operation requirement '' @ rq_id requirement @ '' is not exactly bound.''))
      | Some binding \<Rightarrow>
          if cb_contractDigest binding \<noteq> rq_contractDigest requirement
          then throw (NativeError (''Semantic operation requirement '' @ rq_id requirement @ '' is not exactly bound.''))
          else bind_r (compileCapabilityBinding hash (cb_requirementId binding) (cb_contractDigest binding)
                 (cb_providerIdentityDigest binding)) (\<lambda>canonical.
               throw_if (cb_bindingDigest canonical \<noteq> cb_bindingDigest binding)
                 (NativeError (''Semantic operation requirement '' @ rq_id requirement @ '' binding is noncanonical.''))))"

definition bindSemanticOperation ::
  "(string \<Rightarrow> string) \<Rightarrow> foundation \<Rightarrow> operation_plan \<Rightarrow> capability_binding list \<Rightarrow> bound_operation result" where
  "bindSemanticOperation hash fnd plan supplied =
     bind_r (assertSemanticOperationPlan fnd plan) (\<lambda>_.
     let bindings = sort_key cb_requirementId supplied; requirements = ep_requirements (pl_execution plan) in
     bind_r (throw_if (length bindings \<noteq> length requirements \<or>
        length (dedup (map cb_requirementId bindings)) \<noteq> length bindings)
       (NativeError ''Semantic operation requires exactly one binding per requirement.'')) (\<lambda>_.
     bind_r (check_all (check_bound hash bindings) requirements) (\<lambda>_.
     bind_r (sha256 hash (JObject [
        jtext ''operationIdentityDigest'' (oi_identityDigest (pl_identity plan)),
        jtext ''executionPlanDigest'' (ep_executionPlanDigest (pl_execution plan)),
        jtexts ''bindings'' (map cb_bindingDigest bindings)])) (\<lambda>bindingSetIdentityDigest.
     bind_r (sha256 hash (JObject [jtext ''attemptDigest'' (oa_attemptDigest (pl_attempt plan)),
        jtext ''bindingSetIdentityDigest'' bindingSetIdentityDigest])) (\<lambda>boundAttemptDigest.
     Inr \<lparr>bo_plan = plan, bo_bindings = bindings, bo_bindingSetIdentityDigest = bindingSetIdentityDigest,
          bo_boundAttemptDigest = boundAttemptDigest\<rparr>)))))"

definition assertSemanticOperationProjection ::
  "(string \<Rightarrow> string) \<Rightarrow> foundation \<Rightarrow> bound_operation \<Rightarrow> unit result" where
  "assertSemanticOperationProjection hash fnd operation =
     bind_r (assertSemanticOperationPlan fnd (bo_plan operation)) (\<lambda>_.
     bind_r (bindSemanticOperation hash fnd (bo_plan operation) (bo_bindings operation)) (\<lambda>rebound.
     throw_if (bo_bindingSetIdentityDigest rebound \<noteq> bo_bindingSetIdentityDigest operation \<or>
        bo_boundAttemptDigest rebound \<noteq> bo_boundAttemptDigest operation)
       (NativeError ''Semantic operation projection is not canonical.'')))"

section \<open>Digests of payloads always exist\<close>

definition value_digest :: "(string \<Rightarrow> string) \<Rightarrow> json \<Rightarrow> string" where
  "value_digest hash v = ''sha256:'' @ hash (stringify (canonical_form v))"

lemma sha256_digest: "finite_json v \<Longrightarrow> sha256 hash v = Inr (value_digest hash v)"
  by (simp add: sha256_eq value_digest_def)

text \<open>What the code relies on of SHA-256: 64 lower-case hexadecimal digits.\<close>

definition hex_hash :: "(string \<Rightarrow> string) \<Rightarrow> bool" where
  "hex_hash hash \<longleftrightarrow> (\<forall>s. length (hash s) = 64 \<and> list_all is_hex_lower (hash s))"

lemma value_digest_ok: "hex_hash hash \<Longrightarrow> is_digest (value_digest hash v)"
  by (simp add: hex_hash_def is_digest_def value_digest_def)

lemma finite_fields [simp]:
  "finite_json (snd (jtext k s))" "finite_json (snd (jint k n))" "finite_json (snd (jnullable k v))"
  "finite_json (snd (jtexts k ss))"
  by (auto simp: jtext_def jint_def jnullable_def jtexts_def is_finite_number_def list_all_iff split: option.split)

lemma finite_object: "finite_json (JObject kvs) \<longleftrightarrow> (\<forall>kv \<in> set kvs. finite_json (snd kv))"
  by (auto simp: list_all_iff)

lemma finite_payloads [simp]:
  "finite_json (identity_payload a b c)"
  "finite_json (budget_json bd)" "finite_json (requirement_json rq)"
  "finite_json (execution_payload d bds rqs)" "finite_json (attempt_payload att)"
  by (simp_all add: identity_payload_def budget_json_def requirement_json_def execution_payload_def
      attempt_payload_def finite_object list_all_iff del: finite_json.simps(3))

section \<open>Canonical intents\<close>

lemma requireId_Inr [simp]: "requireId v l = Inr w \<longleftrightarrow> is_operation_id v \<and> w = v"
  by (auto simp: requireId_def bind_r_Inr_iff)

lemma requireDigest_Inr [simp]: "requireDigest v l = Inr w \<longleftrightarrow> is_digest v \<and> w = v"
  by (auto simp: requireDigest_def bind_r_Inr_iff)

lemma canonicalUniqueStrings_Inr:
  "canonicalUniqueStrings vs l = Inr ws \<longleftrightarrow>
     ws = sort vs \<and> (\<forall>v \<in> set vs. v \<noteq> [] \<and> trim v = v) \<and> distinct vs"
  by (auto simp: canonicalUniqueStrings_def Let_def bind_r_Inr_iff list_ex_iff length_dedup_eq_iff)

lemma canonicalOperationBudget_Inr: "canonicalOperationBudget b = Inr c \<Longrightarrow> c = b"
  by (auto simp: canonicalOperationBudget_def)

definition requirement_ok :: "operation_requirement \<Rightarrow> bool" where
  "requirement_ok r \<longleftrightarrow> is_operation_id (rq_id r) \<and> is_digest (rq_contractDigest r) \<and>
     (\<forall>k \<in> set (rq_effectKinds r). k \<noteq> [] \<and> trim k = k \<and> k \<in> set OPERATION_EFFECT_KINDS) \<and> distinct (rq_effectKinds r) \<and>
     (\<forall>k \<in> set (rq_failureKinds r). k \<noteq> [] \<and> trim k = k) \<and> distinct (rq_failureKinds r)"

definition sorted_requirement :: "operation_requirement \<Rightarrow> operation_requirement" where
  "sorted_requirement r = \<lparr>rq_id = rq_id r, rq_contractDigest = rq_contractDigest r,
     rq_effectKinds = sort (rq_effectKinds r), rq_failureKinds = sort (rq_failureKinds r)\<rparr>"

lemma canonicalRequirement_Inr:
  "canonicalRequirement r = Inr c \<longleftrightarrow> requirement_ok r \<and> c = sorted_requirement r"
  unfolding canonicalRequirement_def bind_r_Inr_iff requireId_Inr requireDigest_Inr canonicalUniqueStrings_Inr
    throw_if_Inr_iff list_ex_iff requirement_ok_def sorted_requirement_def
  by (simp del: split_paired_Ex) blast

lemma sorted_requirement_ok [simp]: "requirement_ok (sorted_requirement r) \<longleftrightarrow> requirement_ok r"
  by (simp add: requirement_ok_def sorted_requirement_def)

lemma sorted_requirement_idem [simp]: "sorted_requirement (sorted_requirement r) = sorted_requirement r"
  by (simp add: sorted_requirement_def sorted_sort_id)

lemma sorted_requirement_id [simp]: "rq_id (sorted_requirement r) = rq_id r"
  "rq_contractDigest (sorted_requirement r) = rq_contractDigest r"
  by (simp_all add: sorted_requirement_def)

lemma map_r_requirements:
  "map_r canonicalRequirement rs = Inr cs \<longleftrightarrow> (\<forall>r \<in> set rs. requirement_ok r) \<and> cs = map sorted_requirement rs"
  by (induction rs arbitrary: cs) (auto simp: bind_r_Inr_iff canonicalRequirement_Inr)

text \<open>What a compiled intent is made of.\<close>

definition intent_of ::
  "(string \<Rightarrow> string) \<Rightarrow> string \<Rightarrow> string \<Rightarrow> string \<Rightarrow> operation_budget list \<Rightarrow> operation_requirement list \<Rightarrow> operation_intent" where
  "intent_of hash operation intentDigest decisionDigest budgets requirements =
     (let i = value_digest hash (identity_payload operation intentDigest decisionDigest) in
      \<lparr>in_identity = \<lparr>oi_operation = operation, oi_intentDigest = intentDigest, oi_decisionDigest = decisionDigest,
         oi_identityDigest = i\<rparr>,
       in_execution = \<lparr>ep_operationIdentityDigest = i, ep_aggregateBudgets = budgets, ep_requirements = requirements,
         ep_executionPlanDigest = value_digest hash (execution_payload i budgets requirements)\<rparr>\<rparr>)"

definition canonical_parts ::
  "string \<Rightarrow> string \<Rightarrow> string \<Rightarrow> operation_budget list \<Rightarrow> operation_requirement list \<Rightarrow> bool" where
  "canonical_parts operation intentDigest decisionDigest budgets requirements \<longleftrightarrow>
     is_operation_id operation \<and> is_digest intentDigest \<and> is_digest decisionDigest \<and>
     (\<forall>b \<in> set budgets. isCanonicalOperationBudgetMaximum (bd_resource b) (bd_maximum b)) \<and>
     distinct (map bd_resource budgets) \<and> requirements \<noteq> [] \<and>
     (\<forall>r \<in> set requirements. requirement_ok r) \<and> distinct (map rq_id requirements)"

lemma canonicalOperationBudget_eq:
  "isCanonicalOperationBudgetMaximum (bd_resource b) (bd_maximum b) \<Longrightarrow> canonicalOperationBudget b = Inr b"
  by (simp add: canonicalOperationBudget_def)

lemma map_r_budgets:
  "map_r canonicalOperationBudget bs = Inr cs \<longleftrightarrow>
     cs = bs \<and> (\<forall>b \<in> set bs. isCanonicalOperationBudgetMaximum (bd_resource b) (bd_maximum b))"
  by (induction bs arbitrary: cs) (auto simp: bind_r_Inr_iff canonicalOperationBudget_def)

lemma distinct_sort_key_map [simp]: "distinct (map f (sort_key g xs)) \<longleftrightarrow> distinct (map f xs)"
  by (metis mset_eq_imp_distinct_iff mset_map mset_sort)

lemma sort_key_Nil_iff [simp]: "sort_key f xs = [] \<longleftrightarrow> xs = []"
  by (metis mset_sort mset_zero_iff)

lemma compileIntent_iff:
  "compileSemanticOperationIntent hash op i d budgets requirements = Inr intent \<longleftrightarrow>
     canonical_parts op i d budgets requirements \<and>
     intent = intent_of hash op i d (sort_key bd_resource budgets) (sort_key rq_id (map sorted_requirement requirements))"
proof -
  have "map rq_id (map sorted_requirement requirements) = map rq_id requirements" by simp
  then have ids: "distinct (map rq_id (sort_key rq_id (map sorted_requirement requirements))) \<longleftrightarrow> distinct (map rq_id requirements)"
    by (simp only: distinct_sort_key_map)
  have dups: "length (dedup (map rq_id (sort_key rq_id (map sorted_requirement requirements)))) = length requirements \<longleftrightarrow>
      distinct (map rq_id requirements)"
    "length (dedup (map bd_resource (sort_key bd_resource budgets))) = length budgets \<longleftrightarrow> distinct (map bd_resource budgets)"
    using length_dedup_eq_iff [of "map rq_id (sort_key rq_id (map sorted_requirement requirements))"]
      length_dedup_eq_iff [of "map bd_resource (sort_key bd_resource budgets)"] ids by simp_all
  show ?thesis
    unfolding compileSemanticOperationIntent_def bind_r_Inr_iff map_r_budgets map_r_requirements Let_def
      requireId_Inr requireDigest_Inr throw_if_Inr_iff intent_of_def canonical_parts_def
    by (auto simp: sha256_digest dups simp del: map_map)
qed

lemma intent_recompiles:
  assumes "compileSemanticOperationIntent hash op i d budgets requirements = Inr intent"
  shows "compileSemanticOperationIntent hash (oi_operation (in_identity intent)) (oi_intentDigest (in_identity intent))
       (oi_decisionDigest (in_identity intent)) (ep_aggregateBudgets (in_execution intent))
       (ep_requirements (in_execution intent)) = Inr intent"
proof -
  note parts = assms [unfolded compileIntent_iff]
  let ?b = "sort_key bd_resource budgets" and ?r = "sort_key rq_id (map sorted_requirement requirements)"
  have "map sorted_requirement ?r = ?r" by (intro map_idI) auto
  moreover have "canonical_parts op i d ?b ?r"
    using parts by (auto simp: canonical_parts_def comp_def)
  ultimately show ?thesis
    using parts by (simp add: compileIntent_iff intent_of_def Let_def sort_key_id_if_sorted)
qed

text \<open>
  C26. Canonical intents: the compilation of an operation intent does not depend on the order in which
  budgets and requirements are given, and compiling the fields of a compiled intent again gives the same
  intent, with the same identity and execution plan digests.
\<close>

theorem intent_compilation_canonical:
  assumes "compileSemanticOperationIntent hash operation intentDigest decisionDigest budgets requirements = Inr intent"
    and "mset budgets' = mset budgets" and "mset requirements' = mset requirements"
  shows "compileSemanticOperationIntent hash operation intentDigest decisionDigest budgets' requirements' = Inr intent \<and>
     compileSemanticOperationIntent hash (oi_operation (in_identity intent)) (oi_intentDigest (in_identity intent))
       (oi_decisionDigest (in_identity intent)) (ep_aggregateBudgets (in_execution intent))
       (ep_requirements (in_execution intent)) = Inr intent"
proof
  note parts = assms(1) [unfolded compileIntent_iff]
  have sets: "set budgets' = set budgets" "set requirements' = set requirements"
    using assms(2,3) by (metis set_mset_mset)+
  have dist: "distinct (map bd_resource budgets')" "distinct (map rq_id requirements')"
    using parts assms(2,3) unfolding canonical_parts_def by (metis mset_eq_imp_distinct_iff mset_map)+
  have "sort_key bd_resource budgets' = sort_key bd_resource budgets"
    using parts assms(2) by (intro sort_key_distinct_eq) (auto simp: canonical_parts_def)
  moreover have "sort_key rq_id (map sorted_requirement requirements') = sort_key rq_id (map sorted_requirement requirements)"
    using parts assms(3) by (intro sort_key_distinct_eq) (auto simp: canonical_parts_def comp_def)
  moreover have "requirements' \<noteq> []" using parts sets(2) by (auto simp: canonical_parts_def)
  ultimately show "compileSemanticOperationIntent hash operation intentDigest decisionDigest budgets' requirements' = Inr intent"
    using parts sets dist by (simp add: compileIntent_iff canonical_parts_def)
  show "compileSemanticOperationIntent hash (oi_operation (in_identity intent)) (oi_intentDigest (in_identity intent))
       (oi_decisionDigest (in_identity intent)) (ep_aggregateBudgets (in_execution intent))
       (ep_requirements (in_execution intent)) = Inr intent"
    using assms(1) by (rule intent_recompiles)
qed

definition sample_digest :: string where
  "sample_digest = ''sha256:'' @ replicate 64 CHR ''a''"

definition sample_requirement :: "string \<Rightarrow> operation_requirement" where
  "sample_requirement i = \<lparr>rq_id = i, rq_contractDigest = sample_digest, rq_effectKinds = [''process'', ''network''],
     rq_failureKinds = []\<rparr>"

definition sample_hash :: "string \<Rightarrow> string" where
  "sample_hash s = replicate 64 CHR ''0''"

lemma sample_hex_hash: "hex_hash sample_hash"
  by (simp add: hex_hash_def sample_hash_def list_all_iff is_hex_lower_def char_between_def is_digit_def)

theorem intent_compilation_canonical_witness:
  "\<exists>intent. compileSemanticOperationIntent sample_hash ''sec.build'' sample_digest sample_digest []
       [sample_requirement ''sec.b'', sample_requirement ''sec.a''] = Inr intent \<and>
     compileSemanticOperationIntent sample_hash ''sec.build'' sample_digest sample_digest []
       [sample_requirement ''sec.a'', sample_requirement ''sec.b''] = Inr intent"
proof -
  have "canonical_parts ''sec.build'' sample_digest sample_digest []
      [sample_requirement ''sec.b'', sample_requirement ''sec.a'']"
    by code_simp
  then obtain intent where i: "compileSemanticOperationIntent sample_hash ''sec.build'' sample_digest sample_digest []
       [sample_requirement ''sec.b'', sample_requirement ''sec.a''] = Inr intent"
    unfolding compileIntent_iff by blast
  have "mset [sample_requirement ''sec.a'', sample_requirement ''sec.b''] =
      mset [sample_requirement ''sec.b'', sample_requirement ''sec.a'']" by simp
  from intent_compilation_canonical [OF i refl this] show ?thesis using i by blast
qed

section \<open>Sound plans\<close>

text \<open>A plan whose digests are those of its own contents.\<close>

definition plan_sound :: "(string \<Rightarrow> string) \<Rightarrow> operation_plan \<Rightarrow> bool" where
  "plan_sound hash plan \<longleftrightarrow>
     (let i = pl_identity plan; x = pl_execution plan; a = pl_attempt plan in
      compileSemanticOperationIntent hash (oi_operation i) (oi_intentDigest i) (oi_decisionDigest i)
        (ep_aggregateBudgets x) (ep_requirements x) = Inr \<lparr>in_identity = i, in_execution = x\<rparr> \<and>
      oa_operationIdentityDigest a = oi_identityDigest i \<and> oa_executionPlanDigest a = ep_executionPlanDigest x \<and>
      oa_attemptDigest a = value_digest hash (attempt_payload a) \<and>
      is_safe_integer (oa_deadlineAtUnixMs a) \<and> 1 \<le> oa_deadlineAtUnixMs a)"

lemma plan_sound_requirements:
  assumes "plan_sound hash plan"
  shows "sorted (map rq_id (ep_requirements (pl_execution plan)))"
    and "distinct (map rq_id (ep_requirements (pl_execution plan)))"
proof -
  from assms have c: "canonical_parts (oi_operation (pl_identity plan)) (oi_intentDigest (pl_identity plan))
      (oi_decisionDigest (pl_identity plan)) (ep_aggregateBudgets (pl_execution plan)) (ep_requirements (pl_execution plan))"
    and e: "ep_requirements (pl_execution plan) = sort_key rq_id (map sorted_requirement (ep_requirements (pl_execution plan)))"
    unfolding plan_sound_def Let_def compileIntent_iff intent_of_def
    by (auto dest: arg_cong [of _ _ ep_requirements])
  show "sorted (map rq_id (ep_requirements (pl_execution plan)))" by (subst e) simp
  show "distinct (map rq_id (ep_requirements (pl_execution plan)))" using c by (simp add: canonical_parts_def)
qed

lemma compiled_plan_sound:
  assumes "compileSemanticOperationPlan hash op i d deadline budgets requirements context fnd = (Inr plan, fnd')"
  shows "plan_sound hash plan \<and> pl_ref plan = next_ref fnd \<and>
    fnd' = fnd\<lparr>next_ref := next_ref fnd + 1, COMPILED_OPERATION_PLANS := plan # COMPILED_OPERATION_PLANS fnd\<rparr>"
proof -
  from assms obtain intent where
    "compileSemanticOperationIntent hash op i d budgets requirements = Inr intent"
    and *: "is_safe_integer deadline" "1 \<le> deadline" "pl_identity plan = in_identity intent"
      "pl_execution plan = in_execution intent" "pl_ref plan = next_ref fnd"
      "fnd' = fnd\<lparr>next_ref := next_ref fnd + 1, COMPILED_OPERATION_PLANS := plan # COMPILED_OPERATION_PLANS fnd\<rparr>"
      "oa_operationIdentityDigest (pl_attempt plan) = oi_identityDigest (in_identity intent)"
      "oa_executionPlanDigest (pl_attempt plan) = ep_executionPlanDigest (in_execution intent)"
      "oa_deadlineAtUnixMs (pl_attempt plan) = deadline"
      "oa_attemptDigest (pl_attempt plan) = value_digest hash (attempt_payload (pl_attempt plan))"
    by (auto simp: compileSemanticOperationPlan_def Let_def sha256_digest attempt_payload_def not_less
        finite_object list_all_iff simp del: finite_json.simps(3) split: sum.splits)
  from intent_recompiles [OF this(1)] * show ?thesis by (simp add: plan_sound_def)
qed

section \<open>Bound operations\<close>

lemma compileCapabilityBinding_Inr:
  "compileCapabilityBinding hash i c p = Inr b \<longleftrightarrow>
     is_operation_id i \<and> is_digest c \<and> is_digest p \<and>
     b = \<lparr>cb_requirementId = i, cb_contractDigest = c, cb_providerIdentityDigest = p,
          cb_bindingDigest = value_digest hash (JObject [jtext ''requirementId'' i, jtext ''contractDigest'' c,
            jtext ''providerIdentityDigest'' p])\<rparr>"
  by (auto simp: compileCapabilityBinding_def bind_r_Inr_iff sha256_digest finite_object simp del: finite_json.simps(3))

text \<open>A binding of a requirement: its own identifier and contract, and the digest of its own contents.\<close>

definition exactly_binds :: "(string \<Rightarrow> string) \<Rightarrow> operation_requirement \<Rightarrow> capability_binding \<Rightarrow> bool" where
  "exactly_binds hash r b \<longleftrightarrow> cb_requirementId b = rq_id r \<and> cb_contractDigest b = rq_contractDigest r \<and>
     compileCapabilityBinding hash (rq_id r) (rq_contractDigest r) (cb_providerIdentityDigest b) = Inr b"

lemma distinct_key_eq: "distinct (map f xs) \<Longrightarrow> x \<in> set xs \<Longrightarrow> y \<in> set xs \<Longrightarrow> f x = f y \<Longrightarrow> x = y"
  by (simp add: distinct_map inj_on_def)

lemma find_key_distinct:
  assumes "distinct (map f xs)"
  shows "find (\<lambda>x. f x = k) xs = Some y \<longleftrightarrow> y \<in> set xs \<and> f y = k"
proof
  assume y: "y \<in> set xs \<and> f y = k"
  then obtain z where z: "find (\<lambda>x. f x = k) xs = Some z"
    by (cases "find (\<lambda>x. f x = k) xs") (auto simp: find_None_iff)
  then have "z \<in> set xs" "f z = k" by (auto simp: find_Some_iff)
  with y have "z = y" using distinct_key_eq [OF assms] by simp
  then show "find (\<lambda>x. f x = k) xs = Some y" using z by simp
qed (auto simp: find_Some_iff)

lemma exactly_binds_iff:
  "exactly_binds hash r b \<longleftrightarrow> cb_requirementId b = rq_id r \<and> cb_contractDigest b = rq_contractDigest r \<and>
     is_operation_id (rq_id r) \<and> is_digest (rq_contractDigest r) \<and> is_digest (cb_providerIdentityDigest b) \<and>
     cb_bindingDigest b = value_digest hash (JObject [jtext ''requirementId'' (rq_id r),
       jtext ''contractDigest'' (rq_contractDigest r), jtext ''providerIdentityDigest'' (cb_providerIdentityDigest b)])"
  by (cases b) (auto simp: exactly_binds_def compileCapabilityBinding_Inr)

lemma check_bound_Inr:
  assumes "distinct (map cb_requirementId bs)"
  shows "check_bound hash bs r = Inr () \<longleftrightarrow> (\<exists>b \<in> set bs. exactly_binds hash r b)"
proof (cases "find (\<lambda>b. cb_requirementId b = rq_id r) bs")
  case None
  then have "\<forall>b \<in> set bs. cb_requirementId b \<noteq> rq_id r" by (simp add: find_None_iff)
  then show ?thesis using None by (auto simp: check_bound_def throw_def exactly_binds_def)
next
  case (Some b)
  then have b: "b \<in> set bs" "cb_requirementId b = rq_id r" by (simp_all add: find_key_distinct [OF assms])
  have "check_bound hash bs r = Inr () \<longleftrightarrow> exactly_binds hash r b"
    using b(2) unfolding check_bound_def Some exactly_binds_iff option.case
    by (auto simp: throw_def bind_r_Inr_iff compileCapabilityBinding_Inr)
  also have "\<dots> \<longleftrightarrow> (\<exists>b \<in> set bs. exactly_binds hash r b)"
    using b distinct_key_eq [OF assms] unfolding exactly_binds_def by metis
  finally show ?thesis .
qed

text \<open>Two lists with distinct sorted keys of which each element of one has a partner agree position by position.\<close>

lemma partners_sorted:
  assumes "sorted (map f xs)" "sorted (map g ys)" "distinct (map f xs)" "distinct (map g ys)" "length xs = length ys"
    and "\<And>x y. R x y \<Longrightarrow> g y = f x"
  shows "(\<forall>x \<in> set xs. \<exists>y \<in> set ys. R x y) \<longleftrightarrow> list_all2 R xs ys"
proof
  assume partner: "\<forall>x \<in> set xs. \<exists>y \<in> set ys. R x y"
  then have "set (map f xs) \<subseteq> set (map g ys)" using assms(6) by force
  moreover have "card (set (map f xs)) = card (set (map g ys))"
    using assms(3-5) by (simp only: distinct_card) simp
  ultimately have "set (map f xs) = set (map g ys)" by (intro card_subset_eq) auto
  then have keys: "map f xs = map g ys" using assms(1-4) by (intro sorted_distinct_set_unique) auto
  show "list_all2 R xs ys"
  proof (rule list_all2I)
    show "\<forall>x \<in> set (zip xs ys). (\<lambda>(x, y). R x y) x"
    proof (clarify)
      fix x y assume xy: "(x, y) \<in> set (zip xs ys)"
      then obtain y' where y': "y' \<in> set ys" "R x y'" using partner by (meson set_zip_leftD)
      from xy keys have "f x = g y" by (auto simp: in_set_zip) (metis nth_map)
      with y' assms(6) [of x y'] have "y' = y"
        using distinct_key_eq [OF assms(4)] set_zip_rightD [OF xy] by simp
      with y' show "R x y" by simp
    qed
  qed (rule assms(5))
qed (auto simp: list_all2_conv_all_nth set_conv_nth)

definition bound_of :: "(string \<Rightarrow> string) \<Rightarrow> operation_plan \<Rightarrow> capability_binding list \<Rightarrow> bound_operation" where
  "bound_of hash plan bindings =
     (let i = value_digest hash (JObject [jtext ''operationIdentityDigest'' (oi_identityDigest (pl_identity plan)),
            jtext ''executionPlanDigest'' (ep_executionPlanDigest (pl_execution plan)),
            jtexts ''bindings'' (map cb_bindingDigest bindings)]) in
      \<lparr>bo_plan = plan, bo_bindings = bindings, bo_bindingSetIdentityDigest = i,
       bo_boundAttemptDigest = value_digest hash (JObject [jtext ''attemptDigest'' (oa_attemptDigest (pl_attempt plan)),
         jtext ''bindingSetIdentityDigest'' i])\<rparr>)"

lemma length_dedup_sort_key: "length (dedup (map f (sort_key g xs))) = length xs \<longleftrightarrow> distinct (map f xs)"
  using length_dedup_eq_iff [of "map f (sort_key g xs)"] by simp

lemma bindSemanticOperation_iff:
  assumes "plan_sound hash plan"
  shows "bindSemanticOperation hash fnd plan supplied = Inr bound \<longleftrightarrow>
     plan \<in> set (COMPILED_OPERATION_PLANS fnd) \<and> bound = bound_of hash plan (sort_key cb_requirementId supplied) \<and>
     list_all2 (exactly_binds hash) (ep_requirements (pl_execution plan)) (sort_key cb_requirementId supplied)"
proof -
  let ?bs = "sort_key cb_requirementId supplied" and ?rs = "ep_requirements (pl_execution plan)"
  have "length ?bs = length ?rs \<and> distinct (map cb_requirementId ?bs) \<and> check_all (check_bound hash ?bs) ?rs = Inr () \<longleftrightarrow>
      list_all2 (exactly_binds hash) ?rs ?bs" (is "?checks \<longleftrightarrow> ?exact")
  proof
    assume c: ?checks
    then have "\<forall>r \<in> set ?rs. \<exists>b \<in> set ?bs. exactly_binds hash r b"
      using check_bound_Inr [of ?bs hash] by (simp add: check_all_Inr_iff del: set_sort distinct_sort_key_map)
    moreover have "list_all2 (exactly_binds hash) ?rs ?bs \<longleftrightarrow> (\<forall>r \<in> set ?rs. \<exists>b \<in> set ?bs. exactly_binds hash r b)"
      using c plan_sound_requirements [OF assms]
      by (intro partners_sorted [symmetric, of rq_id _ cb_requirementId]) (auto simp: exactly_binds_def)
    ultimately show ?exact by (simp only:)
  next
    assume e: ?exact
    then have keys: "map cb_requirementId ?bs = map rq_id ?rs"
      by (auto simp: list_all2_conv_all_nth exactly_binds_def intro!: nth_equalityI)
    then have d: "distinct (map cb_requirementId ?bs)" using plan_sound_requirements(2) [OF assms] by (simp only:)
    moreover from e have "\<forall>r \<in> set ?rs. \<exists>b \<in> set ?bs. exactly_binds hash r b"
      by (auto simp: list_all2_conv_all_nth set_conv_nth)
    ultimately show ?checks using list_all2_lengthD [OF e] by (simp add: check_all_Inr_iff check_bound_Inr)
  qed
  then show ?thesis
    unfolding bindSemanticOperation_def assertSemanticOperationPlan_def bound_of_def Let_def
    by (auto simp: bind_r_Inr_iff sha256_digest finite_object length_dedup_sort_key simp del: finite_json.simps(3))
qed

lemma bound_projection:
  assumes "plan_sound hash plan" "bindSemanticOperation hash fnd plan supplied = Inr bound"
  shows "assertSemanticOperationProjection hash fnd bound = Inr ()"
proof -
  note b = assms(2) [unfolded bindSemanticOperation_iff [OF assms(1)]]
  then have "bindSemanticOperation hash fnd (bo_plan bound) (bo_bindings bound) = Inr bound"
    using assms(1) by (simp add: bound_of_def Let_def bindSemanticOperation_iff sort_key_id_if_sorted)
  then show ?thesis using b
    by (simp add: assertSemanticOperationProjection_def assertSemanticOperationPlan_def bound_of_def Let_def)
qed

end
