(* ===== verification/OperationSettlement.thy ===== *)
theory OperationSettlement
  imports SemanticOperation
begin

text \<open>
  The second half of \<^verbatim>\<open>src/src/execution/operation/semantic.ts\<close>: provider settlement receipts and sets,
  domain readbacks, owner terminal joins, and the admission of a retry after recovery. A recovered readback and
  a retry admission are used at most once; the theory states this as an invariant of the operations that
  issue and consume them.
\<close>

section \<open>Provider settlements\<close>

definition domain_payload :: "string \<Rightarrow> string \<Rightarrow> json \<Rightarrow> json" where
  "domain_payload domain_name key payload = JObject [jtext ''domain'' domain_name, (key, payload)]"

definition receipt_fields :: "settlement_receipt \<Rightarrow> (string \<times> json) list" where
  "receipt_fields r = [jtext ''requirementId'' (sr_requirementId r), jtext ''contractDigest'' (sr_contractDigest r),
     jtext ''bindingDigest'' (sr_bindingDigest r), jtext ''operationIdentityDigest'' (sr_operationIdentityDigest r),
     jtext ''executionPlanDigest'' (sr_executionPlanDigest r), jtext ''boundAttemptDigest'' (sr_boundAttemptDigest r),
     jtext ''physicalDisposition'' (sr_physicalDisposition r),
     jtext ''providerSettlementReferenceDigest'' (sr_providerSettlementReferenceDigest r)]"

definition receipt_digest :: "(string \<Rightarrow> string) \<Rightarrow> settlement_receipt \<Rightarrow> string result" where
  "receipt_digest hash r =
     sha256 hash (domain_payload ''sec.operation.provider-settlement-receipt'' ''receipt'' (JObject (receipt_fields r)))"

definition issueProviderSettlementReceipt ::
  "(string \<Rightarrow> string) \<Rightarrow> foundation \<Rightarrow> bound_operation \<Rightarrow> string \<Rightarrow> string \<Rightarrow> string \<Rightarrow> settlement_receipt result" where
  "issueProviderSettlementReceipt hash fnd operation requirementId disposition reference =
     bind_r (assertSemanticOperationProjection hash fnd operation) (\<lambda>_.
     bind_r (requireId requirementId ''Provider settlement requirement id'') (\<lambda>requirementId.
     case (find (\<lambda>r. rq_id r = requirementId) (ep_requirements (pl_execution (bo_plan operation))),
           find (\<lambda>b. cb_requirementId b = requirementId) (bo_bindings operation)) of
       (Some requirement, Some binding) \<Rightarrow>
         bind_r (throw_if (cb_contractDigest binding \<noteq> rq_contractDigest requirement)
           (NativeError ''Provider settlement does not bind an exact operation requirement.'')) (\<lambda>_.
         bind_r (throw_if (disposition \<notin> set PROVIDER_PHYSICAL_DISPOSITIONS)
           (NativeError ''Provider physical disposition is not canonical.'')) (\<lambda>_.
         bind_r (requireDigest reference ''Provider settlement reference digest'') (\<lambda>reference.
         let receipt = \<lparr>sr_requirementId = requirementId, sr_contractDigest = rq_contractDigest requirement,
               sr_bindingDigest = cb_bindingDigest binding,
               sr_operationIdentityDigest = oi_identityDigest (pl_identity (bo_plan operation)),
               sr_executionPlanDigest = ep_executionPlanDigest (pl_execution (bo_plan operation)),
               sr_boundAttemptDigest = bo_boundAttemptDigest operation, sr_physicalDisposition = disposition,
               sr_providerSettlementReferenceDigest = reference, sr_providerReceiptDigest = []\<rparr> in
         bind_r (receipt_digest hash receipt) (\<lambda>d. Inr (receipt\<lparr>sr_providerReceiptDigest := d\<rparr>)))))
     | _ \<Rightarrow> throw (NativeError ''Provider settlement does not bind an exact operation requirement.'')))"

text \<open>The pattern of a digest is tested before the digest is recomputed.\<close>

definition digest_matches :: "string \<Rightarrow> string result \<Rightarrow> string \<Rightarrow> unit result" where
  "digest_matches stated recomputed text =
     (if \<not> is_digest stated then throw (NativeError text)
      else bind_r recomputed (\<lambda>d. throw_if (d \<noteq> stated) (NativeError text)))"

definition assertProviderSettlementReceipt :: "(string \<Rightarrow> string) \<Rightarrow> settlement_receipt \<Rightarrow> unit result" where
  "assertProviderSettlementReceipt hash receipt =
     digest_matches (sr_providerReceiptDigest receipt) (receipt_digest hash receipt)
       ''Provider settlement projection digest is invalid.''"

definition check_settlement ::
  "(string \<Rightarrow> string) \<Rightarrow> bound_operation \<Rightarrow> (operation_requirement \<times> settlement_receipt) \<times> capability_binding option \<Rightarrow> unit result" where
  "check_settlement hash operation entry = (case entry of ((requirement, settlement), binding) \<Rightarrow>
     bind_r (assertProviderSettlementReceipt hash settlement) (\<lambda>_.
     throw_if (sr_requirementId settlement \<noteq> rq_id requirement \<or>
        (case binding of None \<Rightarrow> True
         | Some b \<Rightarrow> cb_requirementId b \<noteq> rq_id requirement \<or> sr_contractDigest settlement \<noteq> rq_contractDigest requirement \<or>
             sr_bindingDigest settlement \<noteq> cb_bindingDigest b) \<or>
        sr_operationIdentityDigest settlement \<noteq> oi_identityDigest (pl_identity (bo_plan operation)) \<or>
        sr_executionPlanDigest settlement \<noteq> ep_executionPlanDigest (pl_execution (bo_plan operation)) \<or>
        sr_boundAttemptDigest settlement \<noteq> bo_boundAttemptDigest operation)
       (NativeError (''Provider settlement for '' @ rq_id requirement @ '' does not bind the exact requirement attempt.''))))"

definition settlement_set_payload :: "settlement_set \<Rightarrow> json" where
  "settlement_set_payload s = JObject [jtext ''operationIdentityDigest'' (ss_operationIdentityDigest s),
     jtext ''executionPlanDigest'' (ss_executionPlanDigest s),
     jtext ''bindingSetIdentityDigest'' (ss_bindingSetIdentityDigest s),
     jtext ''boundAttemptDigest'' (ss_boundAttemptDigest s),
     (''settlements'', JArray (map (\<lambda>r. JObject (receipt_fields r @
        [jtext ''providerReceiptDigest'' (sr_providerReceiptDigest r)])) (ss_settlements s))),
     jtexts ''providerReceiptDigests'' (ss_providerReceiptDigests s)]"

definition settlement_set_digest :: "(string \<Rightarrow> string) \<Rightarrow> settlement_set \<Rightarrow> string result" where
  "settlement_set_digest hash s =
     sha256 hash (domain_payload ''sec.operation.provider-settlement-set'' ''settlementSet'' (settlement_set_payload s))"

text \<open>The bindings at the positions of the requirements; one beyond the end is \<open>undefined\<close>.\<close>

definition bindings_at :: "capability_binding list \<Rightarrow> nat \<Rightarrow> capability_binding option list" where
  "bindings_at bs n = map (\<lambda>i. if i < length bs then Some (bs ! i) else None) [0..<n]"

definition compileProviderSettlementSet ::
  "(string \<Rightarrow> string) \<Rightarrow> foundation \<Rightarrow> bound_operation \<Rightarrow> settlement_receipt list \<Rightarrow> settlement_set result" where
  "compileProviderSettlementSet hash fnd operation supplied =
     bind_r (assertSemanticOperationProjection hash fnd operation) (\<lambda>_.
     let settlements = sort_key sr_requirementId supplied;
         requirements = ep_requirements (pl_execution (bo_plan operation)) in
     bind_r (throw_if (length settlements \<noteq> length requirements \<or>
        length (dedup (map sr_requirementId settlements)) \<noteq> length settlements)
       (NativeError ''Provider settlement set requires exactly one receipt per requirement.'')) (\<lambda>_.
     bind_r (check_all (check_settlement hash operation)
       (zip (zip requirements settlements) (bindings_at (bo_bindings operation) (length requirements)))) (\<lambda>_.
     let settlementSet = \<lparr>ss_operationIdentityDigest = oi_identityDigest (pl_identity (bo_plan operation)),
           ss_executionPlanDigest = ep_executionPlanDigest (pl_execution (bo_plan operation)),
           ss_bindingSetIdentityDigest = bo_bindingSetIdentityDigest operation,
           ss_boundAttemptDigest = bo_boundAttemptDigest operation, ss_settlements = settlements,
           ss_providerReceiptDigests = map sr_providerReceiptDigest settlements,
           ss_providerSettlementSetDigest = []\<rparr> in
     bind_r (settlement_set_digest hash settlementSet) (\<lambda>d.
     Inr (settlementSet\<lparr>ss_providerSettlementSetDigest := d\<rparr>)))))"

definition assertProviderSettlementSet :: "(string \<Rightarrow> string) \<Rightarrow> settlement_set \<Rightarrow> unit result" where
  "assertProviderSettlementSet hash settlementSet =
     bind_r (check_all (assertProviderSettlementReceipt hash) (ss_settlements settlementSet)) (\<lambda>_.
     digest_matches (ss_providerSettlementSetDigest settlementSet) (settlement_set_digest hash settlementSet)
       ''Provider settlement projection set digest is invalid.'')"

section \<open>Domain readbacks\<close>

definition requireBoundReadbackOperation :: "(string \<Rightarrow> string) \<Rightarrow> foundation \<Rightarrow> bound_operation \<Rightarrow> unit result" where
  "requireBoundReadbackOperation hash fnd operation = assertSemanticOperationProjection hash fnd operation"

definition canonicalReadbackDisposition :: "string \<Rightarrow> string result" where
  "canonicalReadbackDisposition v =
     bind_r (throw_if (v \<notin> set DOMAIN_READBACK_DISPOSITIONS)
       (NativeError ''Domain readback disposition is not canonical.'')) (\<lambda>_. Inr v)"

definition recovery_mode :: "readback_receipt \<Rightarrow> string" where
  "recovery_mode r = (if rb_predecessor r = None then ''normal'' else ''recovered'')"

definition readback_payload :: "readback_receipt \<Rightarrow> json" where
  "readback_payload r = JObject ([jtext ''recoveryMode'' (recovery_mode r),
     jtext ''operationIdentityDigest'' (rb_operationIdentityDigest r),
     jtext ''executionPlanDigest'' (rb_executionPlanDigest r),
     jtext ''bindingSetIdentityDigest'' (rb_bindingSetIdentityDigest r),
     jtext ''boundAttemptDigest'' (rb_boundAttemptDigest r),
     jnullable ''providerSettlementSetDigest'' (rb_providerSettlementSetDigest r),
     jnullable ''durableObservationDigest'' (rb_durableObservationDigest r)] @
     (case rb_predecessor r of None \<Rightarrow> [] | Some p \<Rightarrow>
       [jtext ''predecessorExecutionPlanDigest'' (pr_executionPlanDigest p),
        jtext ''predecessorBindingSetIdentityDigest'' (pr_bindingSetIdentityDigest p),
        jtext ''predecessorBoundAttemptDigest'' (pr_boundAttemptDigest p),
        jtext ''predecessorAttemptNonceDigest'' (pr_attemptNonceDigest p),
        jtext ''predecessorAuthorityGrantDigest'' (pr_authorityGrantDigest p),
        jnullable ''predecessorResumeEpochDigest'' (pr_resumeEpochDigest p),
        jint ''predecessorDeadlineAtUnixMs'' (pr_deadlineAtUnixMs p)]) @
     [jtext ''readbackContractDigest'' (rb_readbackContractDigest r),
      jtext ''readbackReferenceDigest'' (rb_readbackReferenceDigest r),
      jtext ''currentPhysicalEpochDigest'' (rb_currentPhysicalEpochDigest r),
      jtext ''disposition'' (rb_disposition r)])"

definition readback_digest :: "(string \<Rightarrow> string) \<Rightarrow> readback_receipt \<Rightarrow> string result" where
  "readback_digest hash r =
     sha256 hash (domain_payload ''sec.operation.domain-readback-receipt'' ''readback'' (readback_payload r))"

text \<open>A normal receipt; its identity is never registered, so its reference is not used.\<close>

definition issueDomainReadbackReceipt ::
  "(string \<Rightarrow> string) \<Rightarrow> bound_operation \<Rightarrow> string option \<Rightarrow> string option \<Rightarrow> string \<Rightarrow> string \<Rightarrow> string \<Rightarrow> string \<Rightarrow>
   readback_receipt result" where
  "issueDomainReadbackReceipt hash operation settlementSetDigest observation contract reference epoch disposition =
     bind_r (requireDigest contract ''Domain readback contract digest'') (\<lambda>contract.
     bind_r (requireDigest reference ''Domain readback reference digest'') (\<lambda>reference.
     bind_r (requireDigest epoch ''Domain readback physical epoch digest'') (\<lambda>epoch.
     bind_r (canonicalReadbackDisposition disposition) (\<lambda>disposition.
     let receipt = \<lparr>rb_ref = 0, rb_operationIdentityDigest = oi_identityDigest (pl_identity (bo_plan operation)),
           rb_executionPlanDigest = ep_executionPlanDigest (pl_execution (bo_plan operation)),
           rb_bindingSetIdentityDigest = bo_bindingSetIdentityDigest operation,
           rb_boundAttemptDigest = bo_boundAttemptDigest operation,
           rb_providerSettlementSetDigest = settlementSetDigest, rb_durableObservationDigest = observation,
           rb_predecessor = None, rb_readbackContractDigest = contract, rb_readbackReferenceDigest = reference,
           rb_currentPhysicalEpochDigest = epoch, rb_disposition = disposition, rb_readbackReceiptDigest = []\<rparr> in
     bind_r (readback_digest hash receipt) (\<lambda>d. Inr (receipt\<lparr>rb_readbackReceiptDigest := d\<rparr>))))))"

definition issueNormalDomainReadbackReceipt ::
  "(string \<Rightarrow> string) \<Rightarrow> foundation \<Rightarrow> bound_operation \<Rightarrow> settlement_set \<Rightarrow> string \<Rightarrow> string \<Rightarrow> string \<Rightarrow> string \<Rightarrow>
   readback_receipt result" where
  "issueNormalDomainReadbackReceipt hash fnd operation settlementSet contract reference epoch disposition =
     bind_r (requireBoundReadbackOperation hash fnd operation) (\<lambda>_.
     bind_r (assertProviderSettlementSet hash settlementSet) (\<lambda>_.
     bind_r (throw_if (ss_operationIdentityDigest settlementSet \<noteq> oi_identityDigest (pl_identity (bo_plan operation)) \<or>
        ss_executionPlanDigest settlementSet \<noteq> ep_executionPlanDigest (pl_execution (bo_plan operation)) \<or>
        ss_bindingSetIdentityDigest settlementSet \<noteq> bo_bindingSetIdentityDigest operation \<or>
        ss_boundAttemptDigest settlementSet \<noteq> bo_boundAttemptDigest operation)
       (NativeError ''Normal domain readback does not bind the exact provider settlement set.'')) (\<lambda>_.
     issueDomainReadbackReceipt hash operation (Some (ss_providerSettlementSetDigest settlementSet)) None
       contract reference epoch disposition)))"

definition recovered_readback ::
  "(string \<Rightarrow> string) \<Rightarrow> foundation \<Rightarrow> bound_operation \<Rightarrow> predecessor_reference \<Rightarrow> string \<Rightarrow> string \<Rightarrow> string \<Rightarrow> string \<Rightarrow> string \<Rightarrow>
   readback_receipt result" where
  "recovered_readback hash fnd operation predecessor observation contract reference epoch disposition =
     bind_r (requireBoundReadbackOperation hash fnd operation) (\<lambda>_.
     bind_r (throw_if (pr_operationIdentityDigest predecessor \<noteq> oi_identityDigest (pl_identity (bo_plan operation)) \<or>
        pr_executionPlanDigest predecessor \<noteq> ep_executionPlanDigest (pl_execution (bo_plan operation)) \<or>
        pr_bindingSetIdentityDigest predecessor \<noteq> bo_bindingSetIdentityDigest operation \<or>
        pr_boundAttemptDigest predecessor = bo_boundAttemptDigest operation \<or>
        oa_resumeEpochDigest (pl_attempt (bo_plan operation)) = None)
       (NativeError ''Recovered domain readback does not bind one predecessor and current recovery authority.'')) (\<lambda>_.
     bind_r (throw_if (\<not> is_safe_integer (pr_deadlineAtUnixMs predecessor) \<or> pr_deadlineAtUnixMs predecessor < 1)
       (NativeError ''Recovered domain predecessor deadline is invalid.'')) (\<lambda>_.
     bind_r (requireDigest observation ''Recovered domain durable observation digest'') (\<lambda>observation.
     bind_r (requireDigest (pr_executionPlanDigest predecessor) ''Recovered predecessor execution plan digest'') (\<lambda>_.
     bind_r (requireDigest (pr_bindingSetIdentityDigest predecessor) ''Recovered predecessor binding set digest'') (\<lambda>_.
     bind_r (requireDigest (pr_boundAttemptDigest predecessor) ''Recovered predecessor bound attempt digest'') (\<lambda>_.
     bind_r (requireDigest (pr_attemptNonceDigest predecessor) ''Recovered predecessor attempt nonce digest'') (\<lambda>_.
     bind_r (requireDigest (pr_authorityGrantDigest predecessor) ''Recovered predecessor authority grant digest'') (\<lambda>_.
     bind_r (optional_digest (pr_resumeEpochDigest predecessor) ''Recovered predecessor resume epoch digest'') (\<lambda>_.
     bind_r (requireDigest contract ''Domain readback contract digest'') (\<lambda>contract.
     bind_r (requireDigest reference ''Domain readback reference digest'') (\<lambda>reference.
     bind_r (requireDigest epoch ''Domain readback physical epoch digest'') (\<lambda>epoch.
     bind_r (canonicalReadbackDisposition disposition) (\<lambda>disposition.
     let receipt = \<lparr>rb_ref = next_ref fnd,
           rb_operationIdentityDigest = oi_identityDigest (pl_identity (bo_plan operation)),
           rb_executionPlanDigest = ep_executionPlanDigest (pl_execution (bo_plan operation)),
           rb_bindingSetIdentityDigest = bo_bindingSetIdentityDigest operation,
           rb_boundAttemptDigest = bo_boundAttemptDigest operation, rb_providerSettlementSetDigest = None,
           rb_durableObservationDigest = Some observation, rb_predecessor = Some predecessor,
           rb_readbackContractDigest = contract, rb_readbackReferenceDigest = reference,
           rb_currentPhysicalEpochDigest = epoch, rb_disposition = disposition, rb_readbackReceiptDigest = []\<rparr> in
     bind_r (readback_digest hash receipt) (\<lambda>d. Inr (receipt\<lparr>rb_readbackReceiptDigest := d\<rparr>))))))))))))))))"

definition issueRecoveredDomainReadbackReceipt ::
  "(string \<Rightarrow> string) \<Rightarrow> bound_operation \<Rightarrow> predecessor_reference \<Rightarrow> string \<Rightarrow> string \<Rightarrow> string \<Rightarrow> string \<Rightarrow> string \<Rightarrow>
   foundation \<Rightarrow> readback_receipt result \<times> foundation" where
  "issueRecoveredDomainReadbackReceipt hash operation predecessor observation contract reference epoch disposition fnd =
     (case recovered_readback hash fnd operation predecessor observation contract reference epoch disposition of
        Inl e \<Rightarrow> (Inl e, fnd)
      | Inr receipt \<Rightarrow> (Inr receipt, fnd\<lparr>next_ref := next_ref fnd + 1,
           ISSUED_RECOVERED_READBACK_RECEIPTS := receipt # ISSUED_RECOVERED_READBACK_RECEIPTS fnd\<rparr>))"

definition assertDomainReadbackReceipt :: "(string \<Rightarrow> string) \<Rightarrow> readback_receipt \<Rightarrow> unit result" where
  "assertDomainReadbackReceipt hash readback =
     digest_matches (rb_readbackReceiptDigest readback) (readback_digest hash readback)
       ''Domain readback projection digest is invalid.''"

definition assertReadbackBindsOperation :: "(string \<Rightarrow> string) \<Rightarrow> bound_operation \<Rightarrow> readback_receipt \<Rightarrow> unit result" where
  "assertReadbackBindsOperation hash operation readback =
     bind_r (assertDomainReadbackReceipt hash readback) (\<lambda>_.
     throw_if (rb_operationIdentityDigest readback \<noteq> oi_identityDigest (pl_identity (bo_plan operation)) \<or>
        rb_executionPlanDigest readback \<noteq> ep_executionPlanDigest (pl_execution (bo_plan operation)) \<or>
        rb_bindingSetIdentityDigest readback \<noteq> bo_bindingSetIdentityDigest operation \<or>
        rb_boundAttemptDigest readback \<noteq> bo_boundAttemptDigest operation)
       (NativeError ''Domain readback does not bind the exact operation attempt.''))"

section \<open>Owner joins\<close>

definition join_payload :: "join_receipt \<Rightarrow> json" where
  "join_payload j = JObject [jtext ''recoveryMode'' (jr_recoveryMode j),
     jtext ''operationIdentityDigest'' (jr_operationIdentityDigest j),
     jtext ''executionPlanDigest'' (jr_executionPlanDigest j),
     jtext ''bindingSetIdentityDigest'' (jr_bindingSetIdentityDigest j),
     jtext ''boundAttemptDigest'' (jr_boundAttemptDigest j),
     jnullable ''providerSettlementSetDigest'' (jr_providerSettlementSetDigest j),
     jtext ''readbackReceiptDigest'' (jr_readbackReceiptDigest j),
     jtext ''ownerTerminalContractDigest'' (jr_ownerTerminalContractDigest j),
     jtext ''ownerTerminalReferenceDigest'' (jr_ownerTerminalReferenceDigest j)]"

definition join_digest :: "(string \<Rightarrow> string) \<Rightarrow> join_receipt \<Rightarrow> string result" where
  "join_digest hash j = sha256 hash (domain_payload ''sec.operation.owner-terminal-join'' ''join'' (join_payload j))"

definition issueOwnerTerminalJoinReceipt ::
  "(string \<Rightarrow> string) \<Rightarrow> bound_operation \<Rightarrow> readback_receipt \<Rightarrow> string \<Rightarrow> string \<Rightarrow> join_receipt result" where
  "issueOwnerTerminalJoinReceipt hash operation readback contract reference =
     bind_r (requireDigest contract ''Owner terminal contract digest'') (\<lambda>contract.
     bind_r (requireDigest reference ''Owner terminal reference digest'') (\<lambda>reference.
     let receipt = \<lparr>jr_recoveryMode = recovery_mode readback,
           jr_operationIdentityDigest = oi_identityDigest (pl_identity (bo_plan operation)),
           jr_executionPlanDigest = ep_executionPlanDigest (pl_execution (bo_plan operation)),
           jr_bindingSetIdentityDigest = bo_bindingSetIdentityDigest operation,
           jr_boundAttemptDigest = bo_boundAttemptDigest operation,
           jr_providerSettlementSetDigest = rb_providerSettlementSetDigest readback,
           jr_readbackReceiptDigest = rb_readbackReceiptDigest readback,
           jr_ownerTerminalContractDigest = contract, jr_ownerTerminalReferenceDigest = reference,
           jr_joinReceiptDigest = []\<rparr> in
     bind_r (join_digest hash receipt) (\<lambda>d. Inr (receipt\<lparr>jr_joinReceiptDigest := d\<rparr>))))"

definition issueNormalOwnerTerminalJoinReceipt ::
  "(string \<Rightarrow> string) \<Rightarrow> foundation \<Rightarrow> bound_operation \<Rightarrow> settlement_set \<Rightarrow> readback_receipt \<Rightarrow> string \<Rightarrow> string \<Rightarrow>
   join_receipt result" where
  "issueNormalOwnerTerminalJoinReceipt hash fnd operation settlementSet readback contract reference =
     bind_r (requireBoundReadbackOperation hash fnd operation) (\<lambda>_.
     bind_r (assertProviderSettlementSet hash settlementSet) (\<lambda>_.
     bind_r (assertReadbackBindsOperation hash operation readback) (\<lambda>_.
     bind_r (throw_if (recovery_mode readback \<noteq> ''normal'' \<or>
        rb_providerSettlementSetDigest readback \<noteq> Some (ss_providerSettlementSetDigest settlementSet))
       (NativeError ''Normal owner terminal join requires its exact provider settlement set.'')) (\<lambda>_.
     issueOwnerTerminalJoinReceipt hash operation readback contract reference))))"

text \<open>The readback counts as consumed before the receipt is built, also when building it fails.\<close>

definition recovered_join_checks ::
  "(string \<Rightarrow> string) \<Rightarrow> foundation \<Rightarrow> bound_operation \<Rightarrow> readback_receipt \<Rightarrow> unit result" where
  "recovered_join_checks hash fnd operation readback =
     bind_r (requireBoundReadbackOperation hash fnd operation) (\<lambda>_.
     bind_r (assertReadbackBindsOperation hash operation readback) (\<lambda>_.
     bind_r (throw_if (recovery_mode readback \<noteq> ''recovered'' \<or>
        readback \<notin> set (ISSUED_RECOVERED_READBACK_RECEIPTS fnd))
       (NativeError ''Recovered owner terminal join requires a recovered readback.'')) (\<lambda>_.
     throw_if (readback \<in> set (CONSUMED_RECOVERED_READBACK_RECEIPTS fnd))
       (NativeError ''Recovered domain readback was already consumed by a terminal or retry policy.''))))"

definition issueRecoveredOwnerTerminalJoinReceipt ::
  "(string \<Rightarrow> string) \<Rightarrow> bound_operation \<Rightarrow> readback_receipt \<Rightarrow> string \<Rightarrow> string \<Rightarrow> foundation \<Rightarrow>
   join_receipt result \<times> foundation" where
  "issueRecoveredOwnerTerminalJoinReceipt hash operation readback contract reference fnd =
     (case recovered_join_checks hash fnd operation readback of
        Inl e \<Rightarrow> (Inl e, fnd)
      | Inr _ \<Rightarrow> (issueOwnerTerminalJoinReceipt hash operation readback contract reference,
           fnd\<lparr>CONSUMED_RECOVERED_READBACK_RECEIPTS := readback # CONSUMED_RECOVERED_READBACK_RECEIPTS fnd\<rparr>))"

definition assertOwnerTerminalJoinReceipt :: "(string \<Rightarrow> string) \<Rightarrow> join_receipt \<Rightarrow> unit result" where
  "assertOwnerTerminalJoinReceipt hash j =
     digest_matches (jr_joinReceiptDigest j) (join_digest hash j) ''Owner terminal join projection digest is invalid.''"

section \<open>Retry after recovery\<close>

definition admission_payload :: "retry_admission \<Rightarrow> json" where
  "admission_payload a = JObject [jtext ''operationIdentityDigest'' (ra_operationIdentityDigest a),
     jtext ''previousExecutionPlanDigest'' (ra_previousExecutionPlanDigest a),
     jtext ''previousBindingSetIdentityDigest'' (ra_previousBindingSetIdentityDigest a),
     jtext ''previousBoundAttemptDigest'' (ra_previousBoundAttemptDigest a),
     jtext ''previousAttemptNonceDigest'' (ra_previousAttemptNonceDigest a),
     jint ''previousDeadlineAtUnixMs'' (ra_previousDeadlineAtUnixMs a),
     jtext ''recoveryBoundAttemptDigest'' (ra_recoveryBoundAttemptDigest a),
     jtext ''recoveryAuthorityGrantDigest'' (ra_recoveryAuthorityGrantDigest a),
     jtext ''recoveryResumeEpochDigest'' (ra_recoveryResumeEpochDigest a),
     jtext ''recoveredReadbackReceiptDigest'' (ra_recoveredReadbackReceiptDigest a),
     jtext ''currentPhysicalEpochDigest'' (ra_currentPhysicalEpochDigest a)]"

definition admission_digest :: "(string \<Rightarrow> string) \<Rightarrow> retry_admission \<Rightarrow> string result" where
  "admission_digest hash a =
     sha256 hash (domain_payload ''sec.operation.recovered-retry-admission'' ''admission'' (admission_payload a))"

definition retry_failure :: failure where
  "retry_failure = NativeError ''Retry admission requires a conclusive recovered not-applied readback.''"

definition retry_admission_for ::
  "(string \<Rightarrow> string) \<Rightarrow> foundation \<Rightarrow> bound_operation \<Rightarrow> readback_receipt \<Rightarrow> retry_admission result" where
  "retry_admission_for hash fnd operation readback =
     bind_r (assertSemanticOperationProjection hash fnd operation) (\<lambda>_.
     bind_r (assertDomainReadbackReceipt hash readback) (\<lambda>_.
     case (rb_predecessor readback, oa_resumeEpochDigest (pl_attempt (bo_plan operation))) of
       (Some predecessor, Some resume) \<Rightarrow>
         bind_r (throw_if (readback \<notin> set (ISSUED_RECOVERED_READBACK_RECEIPTS fnd) \<or>
            rb_disposition readback \<noteq> ''not-applied'' \<or>
            rb_operationIdentityDigest readback \<noteq> oi_identityDigest (pl_identity (bo_plan operation)) \<or>
            rb_executionPlanDigest readback \<noteq> ep_executionPlanDigest (pl_execution (bo_plan operation)) \<or>
            rb_bindingSetIdentityDigest readback \<noteq> bo_bindingSetIdentityDigest operation \<or>
            rb_boundAttemptDigest readback \<noteq> bo_boundAttemptDigest operation) retry_failure) (\<lambda>_.
         bind_r (throw_if (readback \<in> set (CONSUMED_RECOVERED_READBACK_RECEIPTS fnd))
           (NativeError ''Recovered domain readback was already consumed by a terminal or retry policy.'')) (\<lambda>_.
         let admission = \<lparr>ra_ref = next_ref fnd, ra_operationIdentityDigest = rb_operationIdentityDigest readback,
               ra_previousExecutionPlanDigest = pr_executionPlanDigest predecessor,
               ra_previousBindingSetIdentityDigest = pr_bindingSetIdentityDigest predecessor,
               ra_previousBoundAttemptDigest = pr_boundAttemptDigest predecessor,
               ra_previousAttemptNonceDigest = pr_attemptNonceDigest predecessor,
               ra_previousDeadlineAtUnixMs = pr_deadlineAtUnixMs predecessor,
               ra_recoveryBoundAttemptDigest = rb_boundAttemptDigest readback,
               ra_recoveryAuthorityGrantDigest = oa_authorityGrantDigest (pl_attempt (bo_plan operation)),
               ra_recoveryResumeEpochDigest = resume,
               ra_recoveredReadbackReceiptDigest = rb_readbackReceiptDigest readback,
               ra_currentPhysicalEpochDigest = rb_currentPhysicalEpochDigest readback,
               ra_retryAdmissionDigest = []\<rparr> in
         bind_r (admission_digest hash admission) (\<lambda>d. Inr (admission\<lparr>ra_retryAdmissionDigest := d\<rparr>))))
     | _ \<Rightarrow> throw retry_failure))"

definition issueRecoveredRetryAdmission ::
  "(string \<Rightarrow> string) \<Rightarrow> bound_operation \<Rightarrow> readback_receipt \<Rightarrow> foundation \<Rightarrow> retry_admission result \<times> foundation" where
  "issueRecoveredRetryAdmission hash operation readback fnd =
     (case retry_admission_for hash fnd operation readback of
        Inl e \<Rightarrow> (Inl e, fnd)
      | Inr admission \<Rightarrow> (Inr admission, fnd\<lparr>next_ref := next_ref fnd + 1,
           CONSUMED_RECOVERED_READBACK_RECEIPTS := readback # CONSUMED_RECOVERED_READBACK_RECEIPTS fnd,
           ISSUED_RECOVERED_RETRY_ADMISSIONS := admission # ISSUED_RECOVERED_RETRY_ADMISSIONS fnd\<rparr>))"

definition assertRecoveredRetryAdmission :: "(string \<Rightarrow> string) \<Rightarrow> foundation \<Rightarrow> retry_admission \<Rightarrow> unit result" where
  "assertRecoveredRetryAdmission hash fnd admission =
     bind_r (throw_if (admission \<notin> set (ISSUED_RECOVERED_RETRY_ADMISSIONS fnd))
       (NativeError ''Recovered retry projection is invalid.'')) (\<lambda>_.
     digest_matches (ra_retryAdmissionDigest admission) (admission_digest hash admission)
       ''Recovered retry projection digest is invalid.'')"

definition assertRecoveredRetryAdmissionForSuccessor ::
  "(string \<Rightarrow> string) \<Rightarrow> int \<Rightarrow> foundation \<Rightarrow> retry_admission \<Rightarrow> bound_operation \<Rightarrow> string \<Rightarrow> unit result" where
  "assertRecoveredRetryAdmissionForSuccessor hash now fnd admission successor epoch =
     (let plan = bo_plan successor;
          refused = NativeError ''Recovered retry admission does not authorize this successor attempt.'' in
      bind_r (assertRecoveredRetryAdmission hash fnd admission) (\<lambda>_.
      bind_r (assertSemanticOperationProjection hash fnd successor) (\<lambda>_.
      bind_r (throw_if (oi_identityDigest (pl_identity plan) \<noteq> ra_operationIdentityDigest admission \<or>
         ep_executionPlanDigest (pl_execution plan) \<noteq> ra_previousExecutionPlanDigest admission \<or>
         bo_bindingSetIdentityDigest successor \<noteq> ra_previousBindingSetIdentityDigest admission \<or>
         bo_boundAttemptDigest successor = ra_previousBoundAttemptDigest admission \<or>
         bo_boundAttemptDigest successor = ra_recoveryBoundAttemptDigest admission \<or>
         oa_authorityGrantDigest (pl_attempt plan) \<noteq> ra_recoveryAuthorityGrantDigest admission \<or>
         oa_resumeEpochDigest (pl_attempt plan) \<noteq> Some (ra_recoveryResumeEpochDigest admission)) refused) (\<lambda>_.
      bind_r (requireDigest epoch ''Recovered retry current physical epoch digest'') (\<lambda>epoch.
      bind_r (throw_if (epoch \<noteq> ra_currentPhysicalEpochDigest admission \<or>
         oa_deadlineAtUnixMs (pl_attempt plan) > ra_previousDeadlineAtUnixMs admission \<or>
         oa_deadlineAtUnixMs (pl_attempt plan) \<le> now) refused) (\<lambda>_.
      throw_if (admission \<in> set (CONSUMED_RECOVERED_RETRY_ADMISSIONS fnd))
        (NativeError ''Recovered retry admission was already consumed.'')))))))"

definition consumeRecoveredRetryAdmission ::
  "(string \<Rightarrow> string) \<Rightarrow> int \<Rightarrow> retry_admission \<Rightarrow> bound_operation \<Rightarrow> string \<Rightarrow> foundation \<Rightarrow> unit result \<times> foundation" where
  "consumeRecoveredRetryAdmission hash now admission successor epoch fnd =
     (case bind_r (assertRecoveredRetryAdmissionForSuccessor hash now fnd admission successor epoch) (\<lambda>_.
           throw_if (admission \<in> set (CONSUMED_RECOVERED_RETRY_ADMISSIONS fnd))
             (NativeError ''Recovered retry admission was already consumed.'')) of
        Inl e \<Rightarrow> (Inl e, fnd)
      | Inr _ \<Rightarrow> (Inr (), fnd\<lparr>CONSUMED_RECOVERED_RETRY_ADMISSIONS :=
           admission # CONSUMED_RECOVERED_RETRY_ADMISSIONS fnd\<rparr>))"

text \<open>The diagnostic projection of raw evidence, whose bytes are given.\<close>

record capability_diagnostic =
  cd_bindingDigest :: string
  cd_code :: string
  cd_failureKind :: string
  cd_evidenceByteLength :: nat
  cd_evidenceDigest :: string

definition projectCapabilityDiagnostic ::
  "(string \<Rightarrow> string) \<Rightarrow> string \<Rightarrow> string \<Rightarrow> string \<Rightarrow> string \<Rightarrow> capability_diagnostic result" where
  "projectCapabilityDiagnostic hash bindingDigest code failureKind evidence =
     bind_r (requireDigest bindingDigest ''Capability diagnostic binding digest'') (\<lambda>bindingDigest.
     bind_r (requireId code ''Capability diagnostic code'') (\<lambda>code.
     bind_r (requireId failureKind ''Capability diagnostic failure kind'') (\<lambda>failureKind.
     Inr \<lparr>cd_bindingDigest = bindingDigest, cd_code = code, cd_failureKind = failureKind,
          cd_evidenceByteLength = length evidence, cd_evidenceDigest = ''sha256:'' @ hash evidence\<rparr>)))"

section \<open>Runs of the foundation\<close>

datatype foundation_event =
    Context_issued attempt_context
  | Plan_compiled operation_plan
  | Readback_issued readback_receipt
  | Joined readback_receipt join_receipt
  | Retry_admitted readback_receipt retry_admission
  | Retry_consumed retry_admission

definition empty_foundation :: foundation where
  "empty_foundation = \<lparr>next_ref = 0, COMPILED_OPERATION_PLANS = [], COMPILED_ATTEMPT_CONTEXTS = [],
     ISSUED_RECOVERED_READBACK_RECEIPTS = [], ISSUED_RECOVERED_RETRY_ADMISSIONS = [],
     CONSUMED_RECOVERED_READBACK_RECEIPTS = [], CONSUMED_RECOVERED_RETRY_ADMISSIONS = []\<rparr>"

text \<open>The event of a call that returned; a call that threw has none.\<close>

definition returned_event :: "('a \<Rightarrow> foundation_event) \<Rightarrow> 'a result \<Rightarrow> foundation_event list" where
  "returned_event f r = (case r of Inl _ \<Rightarrow> [] | Inr x \<Rightarrow> [f x])"

text \<open>Any sequence of calls to the operations that change the foundation.\<close>

inductive foundation_run :: "(string \<Rightarrow> string) \<Rightarrow> foundation_event list \<Rightarrow> foundation \<Rightarrow> bool" for hash where
  run_start: "foundation_run hash [] empty_foundation"
| run_context: "foundation_run hash evs fnd \<Longrightarrow>
    issueSemanticOperationAttemptContext nonce grant run resume fnd = (r, fnd') \<Longrightarrow>
    foundation_run hash (evs @ returned_event Context_issued r) fnd'"
| run_plan: "foundation_run hash evs fnd \<Longrightarrow>
    compileSemanticOperationPlan hash op i d deadline budgets requirements context fnd = (r, fnd') \<Longrightarrow>
    foundation_run hash (evs @ returned_event Plan_compiled r) fnd'"
| run_readback: "foundation_run hash evs fnd \<Longrightarrow>
    issueRecoveredDomainReadbackReceipt hash operation predecessor observation contract reference epoch disposition fnd = (r, fnd') \<Longrightarrow>
    foundation_run hash (evs @ returned_event Readback_issued r) fnd'"
| run_join: "foundation_run hash evs fnd \<Longrightarrow>
    issueRecoveredOwnerTerminalJoinReceipt hash operation readback contract reference fnd = (r, fnd') \<Longrightarrow>
    foundation_run hash (evs @ returned_event (Joined readback) r) fnd'"
| run_admit: "foundation_run hash evs fnd \<Longrightarrow>
    issueRecoveredRetryAdmission hash operation readback fnd = (r, fnd') \<Longrightarrow>
    foundation_run hash (evs @ returned_event (Retry_admitted readback) r) fnd'"
| run_consume: "foundation_run hash evs fnd \<Longrightarrow>
    consumeRecoveredRetryAdmission hash now admission successor epoch fnd = (r, fnd') \<Longrightarrow>
    foundation_run hash (evs @ returned_event (\<lambda>_. Retry_consumed admission) r) fnd'"

definition issued_readbacks :: "foundation_event list \<Rightarrow> readback_receipt list" where
  "issued_readbacks evs = concat (map (\<lambda>e. case e of Readback_issued r \<Rightarrow> [r] | _ \<Rightarrow> []) evs)"

definition used_readbacks :: "foundation_event list \<Rightarrow> readback_receipt list" where
  "used_readbacks evs = concat (map (\<lambda>e. case e of Joined r _ \<Rightarrow> [r] | Retry_admitted r _ \<Rightarrow> [r] | _ \<Rightarrow> []) evs)"

definition admitted_retries :: "foundation_event list \<Rightarrow> retry_admission list" where
  "admitted_retries evs = concat (map (\<lambda>e. case e of Retry_admitted _ a \<Rightarrow> [a] | _ \<Rightarrow> []) evs)"

definition consumed_retries :: "foundation_event list \<Rightarrow> retry_admission list" where
  "consumed_retries evs = concat (map (\<lambda>e. case e of Retry_consumed a \<Rightarrow> [a] | _ \<Rightarrow> []) evs)"

lemma event_lists_append [simp]:
  "issued_readbacks (evs @ es) = issued_readbacks evs @ issued_readbacks es"
  "used_readbacks (evs @ es) = used_readbacks evs @ used_readbacks es"
  "admitted_retries (evs @ es) = admitted_retries evs @ admitted_retries es"
  "consumed_retries (evs @ es) = consumed_retries evs @ consumed_retries es"
  by (simp_all add: issued_readbacks_def used_readbacks_def admitted_retries_def consumed_retries_def)

lemma event_lists_single [simp]:
  "issued_readbacks [] = []" "used_readbacks [] = []" "admitted_retries [] = []" "consumed_retries [] = []"
  "issued_readbacks (e # es) = (case e of Readback_issued r \<Rightarrow> [r] | _ \<Rightarrow> []) @ issued_readbacks es"
  "used_readbacks (e # es) = (case e of Joined r _ \<Rightarrow> [r] | Retry_admitted r _ \<Rightarrow> [r] | _ \<Rightarrow> []) @ used_readbacks es"
  "admitted_retries (e # es) = (case e of Retry_admitted _ a \<Rightarrow> [a] | _ \<Rightarrow> []) @ admitted_retries es"
  "consumed_retries (e # es) = (case e of Retry_consumed a \<Rightarrow> [a] | _ \<Rightarrow> []) @ consumed_retries es"
  by (simp_all add: issued_readbacks_def used_readbacks_def admitted_retries_def consumed_retries_def)

lemma returned_event_simps [simp]: "returned_event f (Inl e) = []" "returned_event f (Inr x) = [f x]"
  by (simp_all add: returned_event_def)

text \<open>What the module-level sets record of a run.\<close>

definition foundation_inv :: "(string \<Rightarrow> string) \<Rightarrow> foundation_event list \<Rightarrow> foundation \<Rightarrow> bool" where
  "foundation_inv hash evs fnd \<longleftrightarrow>
     (\<forall>plan \<in> set (COMPILED_OPERATION_PLANS fnd). plan_sound hash plan) \<and>
     set (ISSUED_RECOVERED_READBACK_RECEIPTS fnd) = set (issued_readbacks evs) \<and>
     set (ISSUED_RECOVERED_RETRY_ADMISSIONS fnd) = set (admitted_retries evs) \<and>
     set (CONSUMED_RECOVERED_RETRY_ADMISSIONS fnd) = set (consumed_retries evs) \<and>
     set (used_readbacks evs) \<subseteq> set (CONSUMED_RECOVERED_READBACK_RECEIPTS fnd) \<and>
     set (CONSUMED_RECOVERED_READBACK_RECEIPTS fnd) \<subseteq> set (issued_readbacks evs) \<and>
     distinct (used_readbacks evs) \<and> distinct (consumed_retries evs) \<and> set (consumed_retries evs) \<subseteq> set (admitted_retries evs)"

text \<open>An operation that registers what it returns leaves the state alone when it throws.\<close>

lemma register_effect:
  "(case x of Inl e \<Rightarrow> (Inl e, s) | Inr a \<Rightarrow> (Inr a, g a)) = (r, s') \<Longrightarrow>
     (\<exists>e. r = Inl e \<and> s' = s) \<or> (\<exists>a. x = Inr a \<and> r = Inr a \<and> s' = g a)"
  by (cases x) auto

lemma guarded_effect:
  "(case x of Inl e \<Rightarrow> (Inl e, s) | Inr (_ :: unit) \<Rightarrow> (y, s2)) = (r, s') \<Longrightarrow>
     (\<exists>e. r = Inl e \<and> s' = s) \<or> (x = Inr () \<and> r = y \<and> s' = s2)"
  by (cases x) auto

lemma recovered_join_effect:
  assumes "issueRecoveredOwnerTerminalJoinReceipt hash operation readback contract reference fnd = (r, fnd')"
  shows "(\<exists>e. r = Inl e \<and> fnd' = fnd) \<or>
     (readback \<in> set (ISSUED_RECOVERED_READBACK_RECEIPTS fnd) \<and>
      readback \<notin> set (CONSUMED_RECOVERED_READBACK_RECEIPTS fnd) \<and>
      fnd' = fnd\<lparr>CONSUMED_RECOVERED_READBACK_RECEIPTS := readback # CONSUMED_RECOVERED_READBACK_RECEIPTS fnd\<rparr>)"
  using guarded_effect [OF assms [unfolded issueRecoveredOwnerTerminalJoinReceipt_def]]
  by (auto simp: recovered_join_checks_def bind_r_Inr_iff)

lemma retry_admission_effect:
  assumes "issueRecoveredRetryAdmission hash operation readback fnd = (r, fnd')"
  shows "(\<exists>e. r = Inl e \<and> fnd' = fnd) \<or>
     (\<exists>a. r = Inr a \<and> retry_admission_for hash fnd operation readback = Inr a \<and>
      readback \<in> set (ISSUED_RECOVERED_READBACK_RECEIPTS fnd) \<and>
      readback \<notin> set (CONSUMED_RECOVERED_READBACK_RECEIPTS fnd) \<and>
      fnd' = fnd\<lparr>next_ref := next_ref fnd + 1,
           CONSUMED_RECOVERED_READBACK_RECEIPTS := readback # CONSUMED_RECOVERED_READBACK_RECEIPTS fnd,
           ISSUED_RECOVERED_RETRY_ADMISSIONS := a # ISSUED_RECOVERED_RETRY_ADMISSIONS fnd\<rparr>)"
  using register_effect [OF assms [unfolded issueRecoveredRetryAdmission_def]]
proof (elim disjE exE conjE)
  fix a
  assume a: "retry_admission_for hash fnd operation readback = Inr a"
  then have "readback \<in> set (ISSUED_RECOVERED_READBACK_RECEIPTS fnd)" "readback \<notin> set (CONSUMED_RECOVERED_READBACK_RECEIPTS fnd)"
    unfolding retry_admission_for_def by (auto simp: throw_def split: option.splits)
  moreover assume "r = Inr a" "fnd' = fnd\<lparr>next_ref := next_ref fnd + 1,
           CONSUMED_RECOVERED_READBACK_RECEIPTS := readback # CONSUMED_RECOVERED_READBACK_RECEIPTS fnd,
           ISSUED_RECOVERED_RETRY_ADMISSIONS := a # ISSUED_RECOVERED_RETRY_ADMISSIONS fnd\<rparr>"
  ultimately show ?thesis using a by simp
qed simp

lemma consume_retry_effect:
  assumes "consumeRecoveredRetryAdmission hash now admission successor epoch fnd = (r, fnd')"
  shows "(\<exists>e. r = Inl e \<and> fnd' = fnd) \<or>
     (r = Inr () \<and> admission \<in> set (ISSUED_RECOVERED_RETRY_ADMISSIONS fnd) \<and>
      admission \<notin> set (CONSUMED_RECOVERED_RETRY_ADMISSIONS fnd) \<and>
      fnd' = fnd\<lparr>CONSUMED_RECOVERED_RETRY_ADMISSIONS := admission # CONSUMED_RECOVERED_RETRY_ADMISSIONS fnd\<rparr>)"
  using guarded_effect [OF assms [unfolded consumeRecoveredRetryAdmission_def]]
  by (auto simp: assertRecoveredRetryAdmissionForSuccessor_def assertRecoveredRetryAdmission_def bind_r_Inr_iff Let_def)

lemma readback_effect:
  assumes "issueRecoveredDomainReadbackReceipt hash operation predecessor observation contract reference epoch disposition fnd = (r, fnd')"
  shows "(\<exists>e. r = Inl e \<and> fnd' = fnd) \<or>
     (\<exists>b. r = Inr b \<and> fnd' = fnd\<lparr>next_ref := next_ref fnd + 1,
         ISSUED_RECOVERED_READBACK_RECEIPTS := b # ISSUED_RECOVERED_READBACK_RECEIPTS fnd\<rparr>)"
  using register_effect [OF assms [unfolded issueRecoveredDomainReadbackReceipt_def]] by blast

lemma foundation_run_inv: "foundation_run hash evs fnd \<Longrightarrow> foundation_inv hash evs fnd"
proof (induction rule: foundation_run.induct)
  case run_start
  show ?case by (simp add: foundation_inv_def empty_foundation_def)
next
  case (run_context evs fnd nonce grant run resume r fnd')
  then show ?case
    by (cases r) (auto simp: issueSemanticOperationAttemptContext_def foundation_inv_def split: sum.splits)
next
  case (run_plan evs fnd op i d deadline budgets requirements ctxt r fnd')
  show ?case
  proof (cases r)
    case (Inl e)
    then have "fnd' = fnd" using run_plan.hyps(2) by (auto simp: compileSemanticOperationPlan_def split: sum.splits)
    then show ?thesis using run_plan.IH Inl by simp
  next
    case (Inr plan)
    then show ?thesis using compiled_plan_sound [of hash op i d deadline budgets requirements ctxt fnd plan fnd'] run_plan
      by (simp add: foundation_inv_def)
  qed
next
  case (run_readback evs fnd operation predecessor observation contract reference epoch disposition r fnd')
  from readback_effect [OF run_readback.hyps(2)] run_readback.IH show ?case
    by (auto simp: foundation_inv_def)
next
  case (run_join evs fnd operation readback contract reference r fnd')
  from recovered_join_effect [OF run_join.hyps(2)] run_join.IH show ?case
    by (cases r) (auto simp: foundation_inv_def)
next
  case (run_admit evs fnd operation readback r fnd')
  from retry_admission_effect [OF run_admit.hyps(2)] run_admit.IH show ?case
    by (auto simp: foundation_inv_def)
next
  case (run_consume evs fnd now admission successor epoch r fnd')
  from consume_retry_effect [OF run_consume.hyps(2)] run_consume.IH show ?case
    by (auto simp: foundation_inv_def)
qed

section \<open>Bindings and settlements of reachable foundations\<close>

lemma foundation_plan_sound:
  "foundation_run hash evs fnd \<Longrightarrow> plan \<in> set (COMPILED_OPERATION_PLANS fnd) \<Longrightarrow> plan_sound hash plan"
  using foundation_run_inv by (auto simp: foundation_inv_def)

subsection \<open>A concrete run\<close>

text \<open>A foundation with one context, one compiled plan and its bound operation, for the witnesses below.\<close>

definition zero_digest :: string where
  "zero_digest = ''sha256:'' @ replicate 64 CHR ''0''"

definition sample_context :: attempt_context where
  "sample_context = \<lparr>ac_ref = 0, ac_authorityGrantDigest = sample_digest, ac_runIdDigest = None,
     ac_resumeEpochDigest = Some sample_digest, ac_attemptNonceDigest = sample_digest\<rparr>"

definition sample_plan :: operation_plan where
  "sample_plan = \<lparr>pl_ref = 1,
     pl_identity = \<lparr>oi_operation = ''sec.build'', oi_intentDigest = sample_digest, oi_decisionDigest = sample_digest,
       oi_identityDigest = zero_digest\<rparr>,
     pl_execution = \<lparr>ep_operationIdentityDigest = zero_digest, ep_aggregateBudgets = [],
       ep_requirements = [sorted_requirement (sample_requirement ''sec.a'')], ep_executionPlanDigest = zero_digest\<rparr>,
     pl_attempt = \<lparr>oa_operationIdentityDigest = zero_digest, oa_executionPlanDigest = zero_digest,
       oa_authorityGrantDigest = sample_digest, oa_runIdDigest = None, oa_resumeEpochDigest = Some sample_digest,
       oa_attemptNonceDigest = sample_digest, oa_deadlineAtUnixMs = 9, oa_attemptDigest = zero_digest\<rparr>\<rparr>"

definition sample_binding :: capability_binding where
  "sample_binding = \<lparr>cb_requirementId = ''sec.a'', cb_contractDigest = sample_digest,
     cb_providerIdentityDigest = sample_digest, cb_bindingDigest = zero_digest\<rparr>"

definition sample_operation :: bound_operation where
  "sample_operation = \<lparr>bo_plan = sample_plan, bo_bindings = [sample_binding],
     bo_bindingSetIdentityDigest = zero_digest, bo_boundAttemptDigest = zero_digest\<rparr>"

definition sample_foundation :: foundation where
  "sample_foundation = empty_foundation\<lparr>next_ref := 2, COMPILED_OPERATION_PLANS := [sample_plan],
     COMPILED_ATTEMPT_CONTEXTS := [sample_context]\<rparr>"

lemma sample_value_digest [simp]: "value_digest sample_hash v = zero_digest"
  by (simp add: value_digest_def sample_hash_def zero_digest_def)

lemma sample_digests [simp]: "is_digest sample_digest" "is_digest zero_digest"
  by code_simp+

lemma sample_digests_differ [simp]: "sample_digest \<noteq> zero_digest" "zero_digest \<noteq> sample_digest"
  by (simp_all add: sample_digest_def zero_digest_def)

lemma sample_parts: "canonical_parts ''sec.build'' sample_digest sample_digest [] [sample_requirement ''sec.a'']"
  by code_simp

lemma sample_intent:
  "compileSemanticOperationIntent sample_hash ''sec.build'' sample_digest sample_digest [] [sample_requirement ''sec.a''] =
     Inr \<lparr>in_identity = pl_identity sample_plan, in_execution = pl_execution sample_plan\<rparr>"
  unfolding compileIntent_iff using sample_parts by (simp add: intent_of_def sample_plan_def)

lemma sample_run:
  "foundation_run sample_hash [Context_issued sample_context, Plan_compiled sample_plan] sample_foundation"
proof -
  have c: "issueSemanticOperationAttemptContext (replicate 64 CHR ''a'') sample_digest None (Some sample_digest) empty_foundation =
      (Inr sample_context, empty_foundation\<lparr>next_ref := 1, COMPILED_ATTEMPT_CONTEXTS := [sample_context]\<rparr>)"
    by (simp add: issueSemanticOperationAttemptContext_def requireDigest_def optional_digest_def empty_foundation_def
        sample_context_def sample_digest_def [simplified, symmetric])
  have p: "compileSemanticOperationPlan sample_hash ''sec.build'' sample_digest sample_digest 9 []
      [sample_requirement ''sec.a''] sample_context (empty_foundation\<lparr>next_ref := 1, COMPILED_ATTEMPT_CONTEXTS := [sample_context]\<rparr>) =
      (Inr sample_plan, sample_foundation)"
    by (simp add: compileSemanticOperationPlan_def sample_intent is_safe_integer_def sha256_digest sample_plan_def
        sample_context_def sample_foundation_def empty_foundation_def)
  show ?thesis using run_plan [OF run_context [OF run_start c] p] by simp
qed

lemma sample_bound: "bindSemanticOperation sample_hash sample_foundation sample_plan [sample_binding] = Inr sample_operation"
proof -
  have "sample_plan \<in> set (COMPILED_OPERATION_PLANS sample_foundation)" by (simp add: sample_foundation_def)
  moreover from this have "plan_sound sample_hash sample_plan" using sample_run foundation_plan_sound by blast
  moreover have "is_operation_id ''sec.a''" by code_simp
  ultimately show ?thesis
    by (simp add: bindSemanticOperation_iff bound_of_def sample_operation_def exactly_binds_iff sample_binding_def
        sample_plan_def sample_requirement_def)
qed

text \<open>
  C27. Operation binding: for a compiled plan of any reachable foundation, a set of capability bindings is
  accepted exactly when, put in order, it has one binding for each requirement in the plan's order, each with the
  requirement's identifier and contract and the digest of its own contents. The bound operation and its
  digests are then determined by the plan and the ordered bindings, and the check made by every later consumer
  accepts it.
\<close>

theorem operation_binding:
  assumes "foundation_run hash evs fnd" and "plan \<in> set (COMPILED_OPERATION_PLANS fnd)"
  shows "(bindSemanticOperation hash fnd plan supplied = Inr bound \<longleftrightarrow>
        list_all2 (exactly_binds hash) (ep_requirements (pl_execution plan)) (sort_key cb_requirementId supplied) \<and>
        bound = bound_of hash plan (sort_key cb_requirementId supplied)) \<and>
     (bindSemanticOperation hash fnd plan supplied = Inr bound \<longrightarrow> assertSemanticOperationProjection hash fnd bound = Inr ())"
  using assms(2) foundation_plan_sound [OF assms] bindSemanticOperation_iff bound_projection by blast

theorem operation_binding_witness:
  "assertSemanticOperationProjection sample_hash sample_foundation sample_operation = Inr ()"
proof -
  have "sample_plan \<in> set (COMPILED_OPERATION_PLANS sample_foundation)" by (simp add: sample_foundation_def)
  from operation_binding [OF sample_run this, of "[sample_binding]" sample_operation] sample_bound show ?thesis by simp
qed

lemma digest_matches_Inr: "digest_matches s (Inr d) l = Inr () \<longleftrightarrow> is_digest s \<and> s = d"
  by (auto simp: digest_matches_def throw_def)

lemma finite_receipt [simp]: "finite_json (domain_payload n k (JObject (receipt_fields r)))"
  by (simp add: domain_payload_def receipt_fields_def finite_object del: finite_json.simps(3))

lemma finite_settlement_set [simp]: "finite_json (domain_payload n k (settlement_set_payload s))"
  by (auto simp: domain_payload_def settlement_set_payload_def receipt_fields_def finite_object list_all_iff
      simp del: finite_json.simps(3))

text \<open>A receipt that settles a requirement through its binding, in exactly this attempt.\<close>

definition settles ::
  "(string \<Rightarrow> string) \<Rightarrow> bound_operation \<Rightarrow> operation_requirement \<Rightarrow> capability_binding \<Rightarrow> settlement_receipt \<Rightarrow> bool" where
  "settles hash operation r b x \<longleftrightarrow>
     sr_requirementId x = rq_id r \<and> sr_contractDigest x = rq_contractDigest r \<and> sr_bindingDigest x = cb_bindingDigest b \<and>
     sr_operationIdentityDigest x = oi_identityDigest (pl_identity (bo_plan operation)) \<and>
     sr_executionPlanDigest x = ep_executionPlanDigest (pl_execution (bo_plan operation)) \<and>
     sr_boundAttemptDigest x = bo_boundAttemptDigest operation \<and>
     assertProviderSettlementReceipt hash x = Inr ()"

definition settled_exactly :: "(string \<Rightarrow> string) \<Rightarrow> bound_operation \<Rightarrow> settlement_receipt list \<Rightarrow> bool" where
  "settled_exactly hash operation xs \<longleftrightarrow>
     (let rs = ep_requirements (pl_execution (bo_plan operation)) in
      length xs = length rs \<and> (\<forall>i < length rs. settles hash operation (rs ! i) (bo_bindings operation ! i) (xs ! i)))"

lemma check_settlement_Inr:
  "cb_requirementId b = rq_id r \<Longrightarrow>
     check_settlement hash operation ((r, x), Some b) = Inr () \<longleftrightarrow> settles hash operation r b x"
  by (auto simp: check_settlement_def settles_def bind_r_Inr_iff)

lemma check_settlements_Inr:
  assumes "length xs = length rs" "length bs = length rs" "\<And>i. i < length rs \<Longrightarrow> cb_requirementId (bs ! i) = rq_id (rs ! i)"
  shows "check_all (check_settlement hash operation) (zip (zip rs xs) (bindings_at bs (length rs))) = Inr () \<longleftrightarrow>
     (\<forall>i < length rs. settles hash operation (rs ! i) (bs ! i) (xs ! i))"
proof -
  have "check_all (check_settlement hash operation) (zip (zip rs xs) (bindings_at bs (length rs))) = Inr () \<longleftrightarrow>
      (\<forall>i < length rs. check_settlement hash operation ((rs ! i, xs ! i), Some (bs ! i)) = Inr ())"
    using assms(1,2) by (simp add: check_all_Inr_iff all_set_conv_all_nth bindings_at_def del: split_paired_All)
  then show ?thesis using check_settlement_Inr assms(3) by simp
qed

definition settlement_set_of :: "(string \<Rightarrow> string) \<Rightarrow> bound_operation \<Rightarrow> settlement_receipt list \<Rightarrow> settlement_set" where
  "settlement_set_of hash operation xs =
     (let s = \<lparr>ss_operationIdentityDigest = oi_identityDigest (pl_identity (bo_plan operation)),
           ss_executionPlanDigest = ep_executionPlanDigest (pl_execution (bo_plan operation)),
           ss_bindingSetIdentityDigest = bo_bindingSetIdentityDigest operation,
           ss_boundAttemptDigest = bo_boundAttemptDigest operation, ss_settlements = xs,
           ss_providerReceiptDigests = map sr_providerReceiptDigest xs, ss_providerSettlementSetDigest = []\<rparr> in
      s\<lparr>ss_providerSettlementSetDigest :=
          value_digest hash (domain_payload ''sec.operation.provider-settlement-set'' ''settlementSet'' (settlement_set_payload s))\<rparr>)"

lemma compileProviderSettlementSet_iff:
  assumes sound: "plan_sound hash plan" and bound: "bindSemanticOperation hash fnd plan bindings = Inr operation"
  shows "compileProviderSettlementSet hash fnd operation supplied = Inr s \<longleftrightarrow>
     settled_exactly hash operation (sort_key sr_requirementId supplied) \<and>
     s = settlement_set_of hash operation (sort_key sr_requirementId supplied)"
proof -
  let ?xs = "sort_key sr_requirementId supplied" and ?rs = "ep_requirements (pl_execution plan)"
  note b = bound [unfolded bindSemanticOperation_iff [OF sound]]
  have plan: "bo_plan operation = plan" using b by (simp add: bound_of_def Let_def)
  have "list_all2 (exactly_binds hash) ?rs (bo_bindings operation)" using b by (simp add: bound_of_def Let_def)
  then have len: "length (bo_bindings operation) = length ?rs"
    and key: "\<And>i. i < length ?rs \<Longrightarrow> cb_requirementId (bo_bindings operation ! i) = rq_id (?rs ! i)"
    by (auto simp: list_all2_conv_all_nth exactly_binds_def)
  have dist: "distinct (map sr_requirementId supplied)" if "settled_exactly hash operation ?xs"
  proof -
    have "map sr_requirementId ?xs = map rq_id ?rs"
      using that plan by (auto simp: settled_exactly_def settles_def Let_def intro!: nth_equalityI)
    then have "distinct (map sr_requirementId ?xs)" using plan_sound_requirements(2) [OF sound] by (simp only:)
    then show ?thesis by simp
  qed
  have "length ?xs = length ?rs \<and> distinct (map sr_requirementId supplied) \<and>
      check_all (check_settlement hash operation) (zip (zip ?rs ?xs) (bindings_at (bo_bindings operation) (length ?rs))) = Inr ()
      \<longleftrightarrow> settled_exactly hash operation ?xs"
    using check_settlements_Inr [of ?xs ?rs "bo_bindings operation" hash operation] len key dist plan
    by (auto simp: settled_exactly_def Let_def)
  then show ?thesis
    unfolding compileProviderSettlementSet_def settlement_set_digest_def settlement_set_of_def plan Let_def
      bind_r_Inr_iff bound_projection [OF sound bound]
    by (auto simp: length_dedup_sort_key sha256_digest)
qed

lemma receipt_digest_eq:
  "receipt_digest hash x = Inr (value_digest hash (domain_payload ''sec.operation.provider-settlement-receipt'' ''receipt''
     (JObject (receipt_fields x))))"
  by (simp add: receipt_digest_def sha256_digest)

lemma compiled_set_accepted:
  assumes "hex_hash hash" "settled_exactly hash operation xs"
  shows "assertProviderSettlementSet hash (settlement_set_of hash operation xs) = Inr ()"
proof -
  let ?s = "settlement_set_of hash operation xs"
  have xs: "ss_settlements ?s = xs" by (simp add: settlement_set_of_def Let_def)
  have "check_all (assertProviderSettlementReceipt hash) xs = Inr ()"
    using assms(2) by (simp add: check_all_Inr_iff all_set_conv_all_nth settled_exactly_def settles_def Let_def)
  moreover have "settlement_set_payload ?s = settlement_set_payload (?s\<lparr>ss_providerSettlementSetDigest := []\<rparr>)"
    by (simp add: settlement_set_payload_def)
  then have "settlement_set_digest hash ?s = Inr (ss_providerSettlementSetDigest ?s)"
    by (simp add: settlement_set_digest_def sha256_digest settlement_set_of_def Let_def)
  moreover have "is_digest (ss_providerSettlementSetDigest ?s)"
    using assms(1) by (simp add: settlement_set_of_def Let_def value_digest_ok)
  ultimately show ?thesis by (simp add: assertProviderSettlementSet_def digest_matches_def xs)
qed

lemma issued_receipt_settles:
  assumes "hex_hash hash" "bindSemanticOperation hash fnd plan bindings = Inr operation" "plan_sound hash plan"
    and "i < length (ep_requirements (pl_execution plan))"
    and issued: "issueProviderSettlementReceipt hash fnd operation (rq_id (ep_requirements (pl_execution plan) ! i)) d ref = Inr x"
  shows "settles hash operation (ep_requirements (pl_execution plan) ! i) (bo_bindings operation ! i) x"
proof -
  let ?rs = "ep_requirements (pl_execution plan)"
  note b = assms(2) [unfolded bindSemanticOperation_iff [OF assms(3)]]
  have plan: "bo_plan operation = plan" using b by (simp add: bound_of_def Let_def)
  have exact: "list_all2 (exactly_binds hash) ?rs (bo_bindings operation)" using b by (simp add: bound_of_def Let_def)
  then have key: "map cb_requirementId (bo_bindings operation) = map rq_id ?rs"
    by (auto simp: list_all2_conv_all_nth exactly_binds_def intro!: nth_equalityI)
  then have dist: "distinct (map cb_requirementId (bo_bindings operation))" "distinct (map rq_id ?rs)"
    using plan_sound_requirements(2) [OF assms(3)] by (simp_all only:)
  have len: "i < length (bo_bindings operation)" using assms(4) exact by (simp add: list_all2_lengthD [symmetric])
  have "find (\<lambda>r. rq_id r = rq_id (?rs ! i)) ?rs = Some (?rs ! i)"
    using assms(4) by (simp add: find_key_distinct [OF dist(2)])
  moreover have "cb_requirementId (bo_bindings operation ! i) = rq_id (?rs ! i)"
    using exact assms(4) by (simp add: list_all2_conv_all_nth exactly_binds_def)
  then have "find (\<lambda>c. cb_requirementId c = rq_id (?rs ! i)) (bo_bindings operation) = Some (bo_bindings operation ! i)"
    using len by (simp add: find_key_distinct [OF dist(1)])
  ultimately show ?thesis using issued assms(1)
    unfolding issueProviderSettlementReceipt_def plan Let_def settles_def assertProviderSettlementReceipt_def receipt_digest_eq
    by (auto simp: bind_r_Inr_iff plan digest_matches_Inr value_digest_ok receipt_fields_def)
qed

text \<open>
  C28. Provider settlement sets: for an operation bound in a reachable foundation, receipts given in any order are
  accepted exactly when, put in order, the i-th of them settles the i-th requirement of the plan through its binding in
  exactly this attempt, with a valid digest of its own. The set is then determined by the ordered receipts,
  the check made by later consumers accepts it, and every receipt issued for a requirement settles it.
\<close>

theorem provider_settlement_set:
  assumes "hex_hash hash" and "foundation_run hash evs fnd" and "plan \<in> set (COMPILED_OPERATION_PLANS fnd)"
    and "bindSemanticOperation hash fnd plan bindings = Inr operation"
  shows "(compileProviderSettlementSet hash fnd operation supplied = Inr s \<longleftrightarrow>
        settled_exactly hash operation (sort_key sr_requirementId supplied) \<and>
        s = settlement_set_of hash operation (sort_key sr_requirementId supplied)) \<and>
     (compileProviderSettlementSet hash fnd operation supplied = Inr s \<longrightarrow> assertProviderSettlementSet hash s = Inr ()) \<and>
     (i < length (ep_requirements (pl_execution plan)) \<and>
      issueProviderSettlementReceipt hash fnd operation (rq_id (ep_requirements (pl_execution plan) ! i)) disposition reference
        = Inr x \<longrightarrow>
      settles hash operation (ep_requirements (pl_execution plan) ! i) (bo_bindings operation ! i) x)"
proof -
  have sound: "plan_sound hash plan" using assms(2,3) by (rule foundation_plan_sound)
  note compiled = compileProviderSettlementSet_iff [OF sound assms(4), of supplied s]
  show ?thesis
  proof (intro conjI impI)
    show "compileProviderSettlementSet hash fnd operation supplied = Inr s \<longleftrightarrow>
        settled_exactly hash operation (sort_key sr_requirementId supplied) \<and>
        s = settlement_set_of hash operation (sort_key sr_requirementId supplied)" by (rule compiled)
  next
    assume "compileProviderSettlementSet hash fnd operation supplied = Inr s"
    then show "assertProviderSettlementSet hash s = Inr ()"
      using compiled compiled_set_accepted [OF assms(1), of operation "sort_key sr_requirementId supplied"] by simp
  qed (elim conjE, rule issued_receipt_settles [OF assms(1,4) sound])
qed

definition sample_receipt :: settlement_receipt where
  "sample_receipt = \<lparr>sr_requirementId = ''sec.a'', sr_contractDigest = sample_digest, sr_bindingDigest = zero_digest,
     sr_operationIdentityDigest = zero_digest, sr_executionPlanDigest = zero_digest, sr_boundAttemptDigest = zero_digest,
     sr_physicalDisposition = ''settled'', sr_providerSettlementReferenceDigest = sample_digest,
     sr_providerReceiptDigest = zero_digest\<rparr>"

theorem provider_settlement_set_witness:
  "settles sample_hash sample_operation (sorted_requirement (sample_requirement ''sec.a'')) sample_binding sample_receipt \<and>
   compileProviderSettlementSet sample_hash sample_foundation sample_operation [sample_receipt] =
     Inr (settlement_set_of sample_hash sample_operation [sample_receipt])"
proof -
  have p: "sample_plan \<in> set (COMPILED_OPERATION_PLANS sample_foundation)" by (simp add: sample_foundation_def)
  have "settles sample_hash sample_operation (sorted_requirement (sample_requirement ''sec.a'')) sample_binding sample_receipt"
    by (simp add: settles_def sample_receipt_def sample_operation_def sample_plan_def sample_binding_def sample_requirement_def
        assertProviderSettlementReceipt_def receipt_digest_eq digest_matches_Inr)
  moreover from this have "settled_exactly sample_hash sample_operation [sample_receipt]"
    by (simp add: settled_exactly_def sample_operation_def sample_plan_def)
  ultimately show ?thesis
    using provider_settlement_set [OF sample_hex_hash sample_run p sample_bound, of "[sample_receipt]"
        "settlement_set_of sample_hash sample_operation [sample_receipt]"] by simp
qed

text \<open>
  C29. Recovery evidence is used at most once: in every sequence of calls, each recovered readback
  is turned into an owner join or into a retry admission at most once and never into both, and
  only after it was issued; each retry admission is consumed at most once, and only after it was admitted.
\<close>

theorem recovery_single_use:
  assumes "foundation_run hash evs fnd"
  shows "distinct (used_readbacks evs) \<and> set (used_readbacks evs) \<subseteq> set (issued_readbacks evs) \<and>
     distinct (consumed_retries evs) \<and> set (consumed_retries evs) \<subseteq> set (admitted_retries evs)"
  using foundation_run_inv [OF assms] by (auto simp: foundation_inv_def)

text \<open>A recovered readback of the sample operation, and the retry it admits.\<close>

definition sample_predecessor :: predecessor_reference where
  "sample_predecessor = \<lparr>pr_operationIdentityDigest = zero_digest, pr_executionPlanDigest = zero_digest,
     pr_bindingSetIdentityDigest = zero_digest, pr_boundAttemptDigest = sample_digest, pr_attemptNonceDigest = sample_digest,
     pr_authorityGrantDigest = sample_digest, pr_resumeEpochDigest = None, pr_deadlineAtUnixMs = 5\<rparr>"

definition sample_readback :: readback_receipt where
  "sample_readback = \<lparr>rb_ref = 2, rb_operationIdentityDigest = zero_digest, rb_executionPlanDigest = zero_digest,
     rb_bindingSetIdentityDigest = zero_digest, rb_boundAttemptDigest = zero_digest, rb_providerSettlementSetDigest = None,
     rb_durableObservationDigest = Some sample_digest, rb_predecessor = Some sample_predecessor,
     rb_readbackContractDigest = sample_digest, rb_readbackReferenceDigest = sample_digest,
     rb_currentPhysicalEpochDigest = sample_digest, rb_disposition = ''not-applied'', rb_readbackReceiptDigest = zero_digest\<rparr>"

definition sample_admission :: retry_admission where
  "sample_admission = \<lparr>ra_ref = 3, ra_operationIdentityDigest = zero_digest, ra_previousExecutionPlanDigest = zero_digest,
     ra_previousBindingSetIdentityDigest = zero_digest, ra_previousBoundAttemptDigest = sample_digest,
     ra_previousAttemptNonceDigest = sample_digest, ra_previousDeadlineAtUnixMs = 5,
     ra_recoveryBoundAttemptDigest = zero_digest, ra_recoveryAuthorityGrantDigest = sample_digest,
     ra_recoveryResumeEpochDigest = sample_digest, ra_recoveredReadbackReceiptDigest = zero_digest,
     ra_currentPhysicalEpochDigest = sample_digest, ra_retryAdmissionDigest = zero_digest\<rparr>"

lemma finite_recovery_payloads [simp]:
  "finite_json (domain_payload n k (readback_payload r))" "finite_json (domain_payload n k (admission_payload a))"
  by (cases "rb_predecessor r"; simp add: domain_payload_def readback_payload_def admission_payload_def finite_object
      del: finite_json.simps(3))+

definition admitted_foundation :: foundation where
  "admitted_foundation = sample_foundation\<lparr>next_ref := 4, ISSUED_RECOVERED_READBACK_RECEIPTS := [sample_readback],
     CONSUMED_RECOVERED_READBACK_RECEIPTS := [sample_readback], ISSUED_RECOVERED_RETRY_ADMISSIONS := [sample_admission]\<rparr>"

lemma sample_operation_fields:
  "bo_plan sample_operation = sample_plan" "bo_bindingSetIdentityDigest sample_operation = zero_digest"
  "bo_boundAttemptDigest sample_operation = zero_digest" "oi_identityDigest (pl_identity sample_plan) = zero_digest"
  "ep_executionPlanDigest (pl_execution sample_plan) = zero_digest"
  "oa_resumeEpochDigest (pl_attempt sample_plan) = Some sample_digest"
  "oa_authorityGrantDigest (pl_attempt sample_plan) = sample_digest"
  by (simp_all add: sample_operation_def sample_plan_def)

lemma sample_projection:
  "COMPILED_OPERATION_PLANS fnd = [sample_plan] \<Longrightarrow> assertSemanticOperationProjection sample_hash fnd sample_operation = Inr ()"
  using bound_projection [of sample_hash sample_plan fnd "[sample_binding]" sample_operation]
    bindSemanticOperation_iff [of sample_hash sample_plan sample_foundation "[sample_binding]" sample_operation]
    bindSemanticOperation_iff [of sample_hash sample_plan fnd "[sample_binding]" sample_operation]
    sample_bound foundation_plan_sound [OF sample_run, of sample_plan]
  by (simp add: sample_foundation_def)

lemma admitted_run:
  "foundation_run sample_hash [Context_issued sample_context, Plan_compiled sample_plan, Readback_issued sample_readback,
     Retry_admitted sample_readback sample_admission] admitted_foundation"
proof -
  let ?f = "sample_foundation\<lparr>next_ref := 3, ISSUED_RECOVERED_READBACK_RECEIPTS := [sample_readback]\<rparr>"
  have plans: "COMPILED_OPERATION_PLANS sample_foundation = [sample_plan]" by (simp add: sample_foundation_def)
  have "recovered_readback sample_hash sample_foundation sample_operation sample_predecessor sample_digest sample_digest
      sample_digest sample_digest ''not-applied'' = Inr sample_readback"
    unfolding recovered_readback_def requireBoundReadbackOperation_def sample_projection [OF plans]
    by (simp add: requireDigest_def optional_digest_def canonicalReadbackDisposition_def DOMAIN_READBACK_DISPOSITIONS_def
        readback_digest_def sha256_digest is_safe_integer_def sample_predecessor_def sample_operation_fields
        sample_readback_def sample_foundation_def)
  then have r: "issueRecoveredDomainReadbackReceipt sample_hash sample_operation sample_predecessor sample_digest sample_digest
      sample_digest sample_digest ''not-applied'' sample_foundation = (Inr sample_readback, ?f)"
    by (simp add: issueRecoveredDomainReadbackReceipt_def sample_foundation_def empty_foundation_def)
  have projection: "assertSemanticOperationProjection sample_hash ?f sample_operation = Inr ()"
    by (rule sample_projection) (simp add: plans)
  have "retry_admission_for sample_hash ?f sample_operation sample_readback = Inr sample_admission"
    unfolding retry_admission_for_def projection
    by (simp add: assertDomainReadbackReceipt_def readback_digest_def sha256_digest digest_matches_def admission_digest_def
        sample_readback_def sample_predecessor_def sample_operation_fields sample_admission_def sample_foundation_def
        empty_foundation_def)
  then have a: "issueRecoveredRetryAdmission sample_hash sample_operation sample_readback ?f = (Inr sample_admission, admitted_foundation)"
    by (simp add: issueRecoveredRetryAdmission_def admitted_foundation_def sample_foundation_def empty_foundation_def)
  show ?thesis using run_admit [OF run_readback [OF sample_run r] a] by simp
qed

theorem recovery_single_use_witness:
  "foundation_run sample_hash [Context_issued sample_context, Plan_compiled sample_plan, Readback_issued sample_readback,
     Retry_admitted sample_readback sample_admission] admitted_foundation \<and>
   used_readbacks [Context_issued sample_context, Plan_compiled sample_plan, Readback_issued sample_readback,
     Retry_admitted sample_readback sample_admission] = [sample_readback] \<and> distinct [sample_readback]"
  using recovery_single_use [OF admitted_run] admitted_run by simp

end
