(* ===== verification/EffectGrant.thy ===== *)
theory EffectGrant
  imports OperationSettlement Complex_Main
begin

text \<open>
  Effect grants, \<^verbatim>\<open>src/src/execution/operation/effect-grant.ts\<close>: process-local authorities that issue a grant for one
  effect attempt and consume it once. A grant is an empty frozen object, that is a fresh reference; an
  authority's \<open>WeakMap\<close> from grants to their records is an insertion-ordered map from references.
  Both clocks (\<open>Date.now()\<close> in integral milliseconds, \<open>performance.now()\<close> as a rational) and the hexadecimal text of
  the random nonce are arguments. An \<open>OperationEffectGrantError\<close> is a coded failure whose arguments are its reason and
  its message.
\<close>

section \<open>Authorities\<close>

definition grant_fail :: "string \<Rightarrow> string \<Rightarrow> failure" where
  "grant_fail reason message = CodedFailure ''SEC-OPERATION-EFFECT-GRANT'' [reason, message]"

record grant_record =
  gr_issuerIdentityDigest :: string
  gr_semanticOperation :: string
  gr_intentDigest :: string
  gr_decisionDigest :: string
  gr_operationIdentityDigest :: string
  gr_executionPlanDigest :: string
  gr_currentEpochDigest :: string
  gr_deadlineAtUnixMs :: int
  gr_deadlineAtMonotonicMs :: rat
  gr_authorityGrantDigest :: string
  gr_consumed :: bool

record issued_grant =
  ig_grant :: nat
  ig_authorityGrantDigest :: string
  ig_operationIdentityDigest :: string
  ig_executionPlanDigest :: string
  ig_currentEpochDigest :: string
  ig_deadlineAtUnixMs :: int

record consumed_binding =
  cg_authorityGrantDigest :: string
  cg_operationIdentityDigest :: string
  cg_executionPlanDigest :: string
  cg_attemptDigest :: string
  cg_currentEpochDigest :: string
  cg_deadlineAtUnixMs :: int
  cg_attemptBindingDigest :: string

record authority =
  au_semanticOperation :: string
  au_issuerIdentityDigest :: string
  au_grants :: "(nat, grant_record) jsmap"

definition requireGrantDigest :: "string \<Rightarrow> string \<Rightarrow> string result" where
  "requireGrantDigest v label =
     bind_r (throw_if (\<not> is_digest v) (grant_fail ''invalid-authority'' (label @ '' must be one canonical SHA-256 digest.'')))
       (\<lambda>_. Inr v)"

definition requireCanonicalIntent :: "(string \<Rightarrow> string) \<Rightarrow> operation_intent \<Rightarrow> unit result" where
  "requireCanonicalIntent hash operation =
     bind_r (compileSemanticOperationIntent hash (oi_operation (in_identity operation)) (oi_intentDigest (in_identity operation))
       (oi_decisionDigest (in_identity operation)) (ep_aggregateBudgets (in_execution operation))
       (ep_requirements (in_execution operation))) (\<lambda>canonical.
     throw_if (oi_identityDigest (in_identity canonical) \<noteq> oi_identityDigest (in_identity operation) \<or>
        ep_operationIdentityDigest (in_execution canonical) \<noteq> ep_operationIdentityDigest (in_execution operation) \<or>
        ep_executionPlanDigest (in_execution canonical) \<noteq> ep_executionPlanDigest (in_execution operation))
       (grant_fail ''invalid-authority'' ''Effect grant issuance requires one canonical semantic operation intent.''))"

definition createOperationEffectGrantAuthority :: "string \<Rightarrow> string \<Rightarrow> authority result" where
  "createOperationEffectGrantAuthority semanticOperation issuerIdentityDigest =
     bind_r (throw_if (\<not> is_operation_id semanticOperation)
       (grant_fail ''invalid-authority'' ''Effect grant semantic operation must be canonical.'')) (\<lambda>_.
     bind_r (requireGrantDigest issuerIdentityDigest ''Effect grant issuer identity digest'') (\<lambda>issuerIdentityDigest.
     Inr \<lparr>au_semanticOperation = semanticOperation, au_issuerIdentityDigest = issuerIdentityDigest, au_grants = []\<rparr>))"

definition grant_payload :: "authority \<Rightarrow> operation_intent \<Rightarrow> string \<Rightarrow> int \<Rightarrow> string \<Rightarrow> json" where
  "grant_payload au operation epoch deadline nonceDigest =
     JObject [jtext ''domain'' ''sec.operation.effect-grant'', jtext ''issuerIdentityDigest'' (au_issuerIdentityDigest au),
       jtext ''semanticOperation'' (au_semanticOperation au),
       jtext ''intentDigest'' (oi_intentDigest (in_identity operation)),
       jtext ''decisionDigest'' (oi_decisionDigest (in_identity operation)),
       jtext ''operationIdentityDigest'' (oi_identityDigest (in_identity operation)),
       jtext ''executionPlanDigest'' (ep_executionPlanDigest (in_execution operation)),
       jtext ''currentEpochDigest'' epoch, jint ''deadlineAtUnixMs'' deadline, jtext ''nonceDigest'' nonceDigest]"

text \<open>The issuer: the checks, then the record of the grant; \<open>grant\<close> is the reference of the new object.\<close>

definition issue_record ::
  "(string \<Rightarrow> string) \<Rightarrow> int \<Rightarrow> rat \<Rightarrow> string \<Rightarrow> operation_intent \<Rightarrow> string \<Rightarrow> int \<Rightarrow> authority \<Rightarrow> grant_record result" where
  "issue_record hash now monotonic nonce operation epoch deadline au =
     bind_r (requireCanonicalIntent hash operation) (\<lambda>_.
     bind_r (throw_if (oi_operation (in_identity operation) \<noteq> au_semanticOperation au)
       (grant_fail ''operation-mismatch'' ''Effect grant issuer does not own this semantic operation.'')) (\<lambda>_.
     bind_r (requireGrantDigest epoch ''Effect grant current epoch digest'') (\<lambda>epoch.
     bind_r (throw_if (\<not> is_safe_integer deadline \<or> deadline \<le> now)
       (grant_fail ''expired'' ''Effect grant deadline must be a future absolute safe integer.'')) (\<lambda>_.
     bind_r (sha256 hash (grant_payload au operation epoch deadline (''sha256:'' @ nonce))) (\<lambda>authorityGrantDigest.
     Inr \<lparr>gr_issuerIdentityDigest = au_issuerIdentityDigest au, gr_semanticOperation = au_semanticOperation au,
          gr_intentDigest = oi_intentDigest (in_identity operation), gr_decisionDigest = oi_decisionDigest (in_identity operation),
          gr_operationIdentityDigest = oi_identityDigest (in_identity operation),
          gr_executionPlanDigest = ep_executionPlanDigest (in_execution operation), gr_currentEpochDigest = epoch,
          gr_deadlineAtUnixMs = deadline, gr_deadlineAtMonotonicMs = monotonic + of_int (deadline - now),
          gr_authorityGrantDigest = authorityGrantDigest, gr_consumed = False\<rparr>)))))"

definition issued_of :: "nat \<Rightarrow> grant_record \<Rightarrow> issued_grant" where
  "issued_of grant r = \<lparr>ig_grant = grant, ig_authorityGrantDigest = gr_authorityGrantDigest r,
     ig_operationIdentityDigest = gr_operationIdentityDigest r, ig_executionPlanDigest = gr_executionPlanDigest r,
     ig_currentEpochDigest = gr_currentEpochDigest r, ig_deadlineAtUnixMs = gr_deadlineAtUnixMs r\<rparr>"

definition issue ::
  "(string \<Rightarrow> string) \<Rightarrow> int \<Rightarrow> rat \<Rightarrow> string \<Rightarrow> nat \<Rightarrow> operation_intent \<Rightarrow> string \<Rightarrow> int \<Rightarrow> authority \<Rightarrow>
   issued_grant result \<times> authority" where
  "issue hash now monotonic nonce grant operation epoch deadline au =
     (case issue_record hash now monotonic nonce operation epoch deadline au of
        Inl e \<Rightarrow> (Inl e, au)
      | Inr r \<Rightarrow> (Inr (issued_of grant r), au\<lparr>au_grants := map_set grant r (au_grants au)\<rparr>))"

section \<open>Consumption\<close>

definition consume_checks ::
  "int \<Rightarrow> rat \<Rightarrow> foundation \<Rightarrow> operation_plan \<Rightarrow> string \<Rightarrow> authority \<Rightarrow> grant_record option \<Rightarrow> grant_record result" where
  "consume_checks now monotonic fnd plan epoch au found =
     (case found of
        None \<Rightarrow> throw (grant_fail ''foreign-grant'' ''Effect grant was not issued by this authority.'')
      | Some r \<Rightarrow>
     bind_r (throw_if (gr_issuerIdentityDigest r \<noteq> au_issuerIdentityDigest au)
       (grant_fail ''foreign-grant'' ''Effect grant was not issued by this authority.'')) (\<lambda>_.
     bind_r (throw_if (gr_consumed r) (grant_fail ''already-consumed'' ''Effect grant has already been consumed.'')) (\<lambda>_.
     bind_r (assertSemanticOperationPlan fnd plan) (\<lambda>_.
     bind_r (requireGrantDigest epoch ''Effect grant current epoch digest'') (\<lambda>epoch.
     bind_r (throw_if (oi_operation (pl_identity plan) \<noteq> gr_semanticOperation r)
       (grant_fail ''operation-mismatch'' ''Effect grant does not bind this semantic operation.'')) (\<lambda>_.
     bind_r (throw_if (oi_intentDigest (pl_identity plan) \<noteq> gr_intentDigest r)
       (grant_fail ''intent-mismatch'' ''Effect grant does not bind this operation intent.'')) (\<lambda>_.
     bind_r (throw_if (oi_decisionDigest (pl_identity plan) \<noteq> gr_decisionDigest r)
       (grant_fail ''decision-mismatch'' ''Effect grant does not bind this operation decision.'')) (\<lambda>_.
     bind_r (throw_if (oi_identityDigest (pl_identity plan) \<noteq> gr_operationIdentityDigest r)
       (grant_fail ''operation-mismatch'' ''Effect grant operation identity has drifted.'')) (\<lambda>_.
     bind_r (throw_if (ep_executionPlanDigest (pl_execution plan) \<noteq> gr_executionPlanDigest r)
       (grant_fail ''execution-plan-mismatch'' ''Effect grant execution plan has drifted.'')) (\<lambda>_.
     bind_r (throw_if (epoch \<noteq> gr_currentEpochDigest r)
       (grant_fail ''epoch-mismatch'' ''Effect grant current epoch has drifted.'')) (\<lambda>_.
     bind_r (throw_if (oa_deadlineAtUnixMs (pl_attempt plan) \<noteq> gr_deadlineAtUnixMs r)
       (grant_fail ''deadline-mismatch'' ''Effect grant deadline does not bind the operation attempt.'')) (\<lambda>_.
     bind_r (throw_if (gr_deadlineAtUnixMs r \<le> now \<or> gr_deadlineAtMonotonicMs r \<le> monotonic)
       (grant_fail ''expired'' ''Effect grant expired before consumption.'')) (\<lambda>_.
     bind_r (throw_if (oa_authorityGrantDigest (pl_attempt plan) \<noteq> gr_authorityGrantDigest r)
       (grant_fail ''grant-attempt-mismatch'' ''Effect grant does not bind the operation attempt authority.'')) (\<lambda>_.
     Inr r))))))))))))))"

definition consumed_payload :: "grant_record \<Rightarrow> operation_plan \<Rightarrow> json" where
  "consumed_payload r plan =
     JObject [jtext ''domain'' ''sec.operation.effect-grant-attempt-binding'',
       jtext ''authorityGrantDigest'' (gr_authorityGrantDigest r), jtext ''operationIdentityDigest'' (gr_operationIdentityDigest r),
       jtext ''executionPlanDigest'' (gr_executionPlanDigest r), jtext ''attemptDigest'' (oa_attemptDigest (pl_attempt plan)),
       jtext ''currentEpochDigest'' (gr_currentEpochDigest r), jint ''deadlineAtUnixMs'' (gr_deadlineAtUnixMs r)]"

definition consumed_of :: "(string \<Rightarrow> string) \<Rightarrow> grant_record \<Rightarrow> operation_plan \<Rightarrow> consumed_binding result" where
  "consumed_of hash r plan =
     bind_r (sha256 hash (consumed_payload r plan)) (\<lambda>attemptBindingDigest.
     Inr \<lparr>cg_authorityGrantDigest = gr_authorityGrantDigest r, cg_operationIdentityDigest = gr_operationIdentityDigest r,
          cg_executionPlanDigest = gr_executionPlanDigest r, cg_attemptDigest = oa_attemptDigest (pl_attempt plan),
          cg_currentEpochDigest = gr_currentEpochDigest r, cg_deadlineAtUnixMs = gr_deadlineAtUnixMs r,
          cg_attemptBindingDigest = attemptBindingDigest\<rparr>)"

text \<open>The record is marked before the binding is built.\<close>

definition consume ::
  "(string \<Rightarrow> string) \<Rightarrow> int \<Rightarrow> rat \<Rightarrow> foundation \<Rightarrow> nat \<Rightarrow> operation_plan \<Rightarrow> string \<Rightarrow> authority \<Rightarrow>
   consumed_binding result \<times> authority" where
  "consume hash now monotonic fnd grant plan epoch au =
     (case consume_checks now monotonic fnd plan epoch au (map_get (au_grants au) grant) of
        Inl e \<Rightarrow> (Inl e, au)
      | Inr r \<Rightarrow> (consumed_of hash r plan, au\<lparr>au_grants := map_set grant (r\<lparr>gr_consumed := True\<rparr>) (au_grants au)\<rparr>))"

section \<open>Runs of several authorities\<close>

record grant_world =
  gw_next :: nat
  gw_authorities :: "authority list"

text \<open>What happened, in order: an issue or a consumption that returned, with the authority's index and its inputs.\<close>

datatype grant_event =
    Grant_issued (ev_authority: nat) (ev_issued: issued_grant) (ev_intent: operation_intent)
  | Grant_consumed (ev_authority: nat) (ev_grant: nat) (ev_plan: operation_plan) (ev_epoch: string) (ev_now: int)

text \<open>Any interleaving of calls to any number of authorities, over any reachable foundations, at any clock readings.\<close>

inductive grant_run :: "(string \<Rightarrow> string) \<Rightarrow> grant_event list \<Rightarrow> grant_world \<Rightarrow> bool" for hash where
  grants_start: "grant_run hash [] \<lparr>gw_next = 0, gw_authorities = []\<rparr>"
| grants_create: "grant_run hash evs w \<Longrightarrow> createOperationEffectGrantAuthority semanticOperation issuer = Inr au \<Longrightarrow>
    grant_run hash evs (w\<lparr>gw_authorities := gw_authorities w @ [au]\<rparr>)"
| grants_issue: "grant_run hash evs w \<Longrightarrow> k < length (gw_authorities w) \<Longrightarrow>
    issue hash now monotonic nonce (gw_next w) operation epoch deadline (gw_authorities w ! k) = (r, au') \<Longrightarrow>
    grant_run hash (evs @ (case r of Inl _ \<Rightarrow> [] | Inr ig \<Rightarrow> [Grant_issued k ig operation]))
      (w\<lparr>gw_next := gw_next w + 1, gw_authorities := (gw_authorities w)[k := au']\<rparr>)"
| grants_consume: "grant_run hash evs w \<Longrightarrow> k < length (gw_authorities w) \<Longrightarrow> foundation_run hash fevs fnd \<Longrightarrow>
    consume hash now monotonic fnd grant plan epoch (gw_authorities w ! k) = (r, au') \<Longrightarrow>
    grant_run hash (evs @ (case r of Inl _ \<Rightarrow> [] | Inr b \<Rightarrow> [Grant_consumed k grant plan epoch now]))
      (w\<lparr>gw_authorities := (gw_authorities w)[k := au']\<rparr>)"

definition consumed_grants :: "grant_event list \<Rightarrow> nat list" where
  "consumed_grants evs = map ev_grant (filter (\<lambda>e. case e of Grant_consumed _ _ _ _ _ \<Rightarrow> True | _ \<Rightarrow> False) evs)"

lemma consumed_grants_simps [simp]:
  "consumed_grants [] = []" "consumed_grants (evs @ es) = consumed_grants evs @ consumed_grants es"
  "consumed_grants [Grant_issued k ig i] = []" "consumed_grants [Grant_consumed k g p ep n] = [g]"
  by (simp_all add: consumed_grants_def)

text \<open>The issue that a consumption relies on: the same authority, grant, operation, plan, epoch and deadline.\<close>

definition authorizes :: "grant_event \<Rightarrow> grant_event \<Rightarrow> bool" where
  "authorizes i c = (case (i, c) of
     (Grant_issued k ig intent, Grant_consumed k' g plan epoch now) \<Rightarrow>
       k' = k \<and> g = ig_grant ig \<and>
       oi_operation (pl_identity plan) = oi_operation (in_identity intent) \<and>
       oi_intentDigest (pl_identity plan) = oi_intentDigest (in_identity intent) \<and>
       oi_decisionDigest (pl_identity plan) = oi_decisionDigest (in_identity intent) \<and>
       oi_identityDigest (pl_identity plan) = oi_identityDigest (in_identity intent) \<and>
       ep_executionPlanDigest (pl_execution plan) = ep_executionPlanDigest (in_execution intent) \<and>
       oa_authorityGrantDigest (pl_attempt plan) = ig_authorityGrantDigest ig \<and>
       epoch = ig_currentEpochDigest ig \<and> oa_deadlineAtUnixMs (pl_attempt plan) = ig_deadlineAtUnixMs ig \<and>
       now < ig_deadlineAtUnixMs ig
   | _ \<Rightarrow> False)"

definition is_consumption :: "grant_event \<Rightarrow> bool" where
  "is_consumption e = (case e of Grant_consumed _ _ _ _ _ \<Rightarrow> True | _ \<Rightarrow> False)"

text \<open>Every consumption is authorized by an issue among the events before it.\<close>

fun authorized_after :: "grant_event list \<Rightarrow> grant_event list \<Rightarrow> bool" where
  "authorized_after before [] = True"
| "authorized_after before (e # es) =
     ((is_consumption e \<longrightarrow> list_ex (\<lambda>i. authorizes i e) before) \<and> authorized_after (before @ [e]) es)"

definition all_authorized :: "grant_event list \<Rightarrow> bool" where
  "all_authorized evs = authorized_after [] evs"

lemma authorized_after_append:
  "authorized_after before (evs @ es) \<longleftrightarrow> authorized_after before evs \<and> authorized_after (before @ evs) es"
  by (induction evs arbitrary: before) auto

lemma all_authorized_snoc:
  "all_authorized (evs @ [e]) \<longleftrightarrow> all_authorized evs \<and> (is_consumption e \<longrightarrow> (\<exists>i \<in> set evs. authorizes i e))"
  by (simp add: all_authorized_def authorized_after_append list_ex_iff)

text \<open>The record of a grant is the one its issue made.\<close>

definition issued_as :: "grant_event list \<Rightarrow> nat \<Rightarrow> nat \<Rightarrow> grant_record \<Rightarrow> bool" where
  "issued_as evs k g r \<longleftrightarrow> (\<exists>intent. Grant_issued k (issued_of g r) intent \<in> set evs \<and>
     gr_semanticOperation r = oi_operation (in_identity intent) \<and> gr_intentDigest r = oi_intentDigest (in_identity intent) \<and>
     gr_decisionDigest r = oi_decisionDigest (in_identity intent) \<and>
     gr_operationIdentityDigest r = oi_identityDigest (in_identity intent) \<and>
     gr_executionPlanDigest r = ep_executionPlanDigest (in_execution intent))"

lemma issued_as_append [intro]: "issued_as evs k g r \<Longrightarrow> issued_as (evs @ es) k g r"
  by (auto simp: issued_as_def)

lemma issued_as_consumed [simp]: "issued_as evs k g (r\<lparr>gr_consumed := b\<rparr>) \<longleftrightarrow> issued_as evs k g r"
  by (simp add: issued_as_def issued_of_def)

text \<open>The grant table of the \<open>k\<close>-th authority.\<close>

definition grant_at :: "grant_world \<Rightarrow> nat \<Rightarrow> nat \<Rightarrow> grant_record option" where
  "grant_at w k g = (if k < length (gw_authorities w) then map_get (au_grants (gw_authorities w ! k)) g else None)"

definition grant_inv :: "grant_event list \<Rightarrow> grant_world \<Rightarrow> bool" where
  "grant_inv evs w \<longleftrightarrow>
     (\<forall>k g r. grant_at w k g = Some r \<longrightarrow> g < gw_next w \<and> issued_as evs k g r) \<and>
     (\<forall>k k' g. grant_at w k g \<noteq> None \<longrightarrow> grant_at w k' g \<noteq> None \<longrightarrow> k = k') \<and>
     (\<forall>g \<in> set (consumed_grants evs). \<exists>k r. grant_at w k g = Some r \<and> gr_consumed r) \<and>
     distinct (consumed_grants evs) \<and> all_authorized evs"

lemma grant_inv_owner: "grant_inv evs w \<Longrightarrow> grant_at w k g \<noteq> None \<Longrightarrow> grant_at w k' g \<noteq> None \<Longrightarrow> k = k'"
  unfolding grant_inv_def by blast

lemma grant_at_create [simp]:
  "au_grants au = [] \<Longrightarrow> grant_at (w\<lparr>gw_authorities := gw_authorities w @ [au]\<rparr>) k g = grant_at w k g"
  by (auto simp: grant_at_def nth_append)

lemma grant_at_same [simp]:
  "grant_at (w\<lparr>gw_next := n\<rparr>) k g = grant_at w k g"
  by (simp add: grant_at_def)

lemma grant_at_update:
  "k < length (gw_authorities w) \<Longrightarrow>
   grant_at (w\<lparr>gw_next := n, gw_authorities := (gw_authorities w)
       [k := (gw_authorities w ! k)\<lparr>au_grants := map_set g r (au_grants (gw_authorities w ! k))\<rparr>]\<rparr>) k' g' =
     (if k' = k \<and> g' = g then Some r else grant_at w k' g')"
  by (cases "k' = k") (simp_all add: grant_at_def)

lemma issue_record_Inr:
  assumes "issue_record hash now monotonic nonce operation epoch deadline au = Inr r"
  shows "\<not> gr_consumed r \<and> gr_semanticOperation r = oi_operation (in_identity operation) \<and>
     gr_intentDigest r = oi_intentDigest (in_identity operation) \<and>
     gr_decisionDigest r = oi_decisionDigest (in_identity operation) \<and>
     gr_operationIdentityDigest r = oi_identityDigest (in_identity operation) \<and>
     gr_executionPlanDigest r = ep_executionPlanDigest (in_execution operation)"
  using assms by (auto simp: issue_record_def)

lemma consume_checks_Inr:
  assumes "consume_checks now monotonic fnd plan epoch au found = Inr r"
  shows "found = Some r \<and> \<not> gr_consumed r \<and>
     oi_operation (pl_identity plan) = gr_semanticOperation r \<and> oi_intentDigest (pl_identity plan) = gr_intentDigest r \<and>
     oi_decisionDigest (pl_identity plan) = gr_decisionDigest r \<and>
     oi_identityDigest (pl_identity plan) = gr_operationIdentityDigest r \<and>
     ep_executionPlanDigest (pl_execution plan) = gr_executionPlanDigest r \<and> epoch = gr_currentEpochDigest r \<and>
     oa_deadlineAtUnixMs (pl_attempt plan) = gr_deadlineAtUnixMs r \<and> now < gr_deadlineAtUnixMs r \<and>
     oa_authorityGrantDigest (pl_attempt plan) = gr_authorityGrantDigest r"
  using assms by (auto simp: consume_checks_def throw_def requireGrantDigest_def split: option.splits)

lemma consumed_of_ok: "\<exists>b. consumed_of hash r plan = Inr b"
  by (simp add: consumed_of_def consumed_payload_def sha256_digest finite_object del: finite_json.simps(3))

lemma grant_inv_issue:
  assumes "grant_inv evs w" "k < length (gw_authorities w)"
    and "issue hash now monotonic nonce (gw_next w) operation epoch deadline (gw_authorities w ! k) = (r, au')"
  shows "grant_inv (evs @ (case r of Inl _ \<Rightarrow> [] | Inr ig \<Rightarrow> [Grant_issued k ig operation]))
    (w\<lparr>gw_next := gw_next w + 1, gw_authorities := (gw_authorities w)[k := au']\<rparr>)"
proof (cases "issue_record hash now monotonic nonce operation epoch deadline (gw_authorities w ! k)")
  case (Inl e)
  then have "r = Inl e" "au' = gw_authorities w ! k" using assms(3) by (simp_all add: issue_def)
  then show ?thesis using assms(1) by (auto simp: grant_inv_def less_Suc_eq)
next
  case (Inr x)
  let ?evs = "evs @ [Grant_issued k (issued_of (gw_next w) x) operation]"
  let ?w = "w\<lparr>gw_next := gw_next w + 1, gw_authorities := (gw_authorities w)
       [k := (gw_authorities w ! k)\<lparr>au_grants := map_set (gw_next w) x (au_grants (gw_authorities w ! k))\<rparr>]\<rparr>"
  have at: "grant_at ?w k' g = (if k' = k \<and> g = gw_next w then Some x else grant_at w k' g)" for k' g
    by (rule grant_at_update) (rule assms(2))
  have new: "issued_as ?evs k (gw_next w) x" using issue_record_Inr [OF Inr] by (auto simp: issued_as_def)
  have old: "g < gw_next w \<and> issued_as ?evs k' g y" if "grant_at w k' g = Some y" for k' g y
    using assms(1) that by (auto simp: grant_inv_def)
  have fresh: "grant_at w k' (gw_next w) = None" for k'
    using old [of k' "gw_next w"] by (cases "grant_at w k' (gw_next w)") auto
  have "grant_inv ?evs ?w"
    unfolding grant_inv_def at
  proof (intro conjI allI impI ballI)
    fix k1 k2 g
    assume "(if k1 = k \<and> g = gw_next w then Some x else grant_at w k1 g) \<noteq> None"
      "(if k2 = k \<and> g = gw_next w then Some x else grant_at w k2 g) \<noteq> None"
    then show "k1 = k2" using grant_inv_owner [OF assms(1), of k1 g k2] fresh by (auto split: if_splits)
  next
    fix g assume "g \<in> set (consumed_grants ?evs)"
    then obtain k1 y where "grant_at w k1 g = Some y" "gr_consumed y" using assms(1) by (auto simp: grant_inv_def)
    then show "\<exists>k1 y. (if k1 = k \<and> g = gw_next w then Some x else grant_at w k1 g) = Some y \<and> gr_consumed y"
      using fresh by (intro exI [of _ k1] exI [of _ y]) auto
  next
    show "distinct (consumed_grants ?evs)" "all_authorized ?evs"
      using assms(1) by (auto simp: grant_inv_def all_authorized_snoc is_consumption_def)
  next
    fix k1 g y
    assume "(if k1 = k \<and> g = gw_next w then Some x else grant_at w k1 g) = Some y"
    then show "g < gw_next ?w" "issued_as ?evs k1 g y" using new old [of k1 g y] by (auto split: if_splits)
  qed
  moreover have "r = Inr (issued_of (gw_next w) x)"
    "au' = (gw_authorities w ! k)\<lparr>au_grants := map_set (gw_next w) x (au_grants (gw_authorities w ! k))\<rparr>"
    using assms(3) Inr by (simp_all add: issue_def)
  ultimately show ?thesis by simp
qed

lemma grant_inv_consume:
  assumes "grant_inv evs w" "k < length (gw_authorities w)"
    and "consume hash now monotonic fnd grant plan epoch (gw_authorities w ! k) = (r, au')"
  shows "grant_inv (evs @ (case r of Inl _ \<Rightarrow> [] | Inr b \<Rightarrow> [Grant_consumed k grant plan epoch now]))
    (w\<lparr>gw_authorities := (gw_authorities w)[k := au']\<rparr>)"
proof (cases "consume_checks now monotonic fnd plan epoch (gw_authorities w ! k) (map_get (au_grants (gw_authorities w ! k)) grant)")
  case (Inl e)
  then have "r = Inl e" "au' = gw_authorities w ! k" using assms(3) by (simp_all add: consume_def)
  then show ?thesis using assms(1) by (auto simp: grant_inv_def)
next
  case (Inr x)
  let ?e = "Grant_consumed k grant plan epoch now"
  let ?w = "w\<lparr>gw_next := gw_next w, gw_authorities := (gw_authorities w)
       [k := (gw_authorities w ! k)\<lparr>au_grants := map_set grant (x\<lparr>gr_consumed := True\<rparr>) (au_grants (gw_authorities w ! k))\<rparr>]\<rparr>"
  note checks = consume_checks_Inr [OF Inr]
  have at: "grant_at ?w k' g = (if k' = k \<and> g = grant then Some (x\<lparr>gr_consumed := True\<rparr>) else grant_at w k' g)" for k' g
    by (rule grant_at_update) (rule assms(2))
  have x: "grant_at w k grant = Some x" using checks assms(2) by (simp add: grant_at_def)
  then have issued: "issued_as evs k grant x" and bound: "grant < gw_next w" using assms(1) by (simp_all add: grant_inv_def)
  obtain intent where intent: "Grant_issued k (issued_of grant x) intent \<in> set evs"
      "authorizes (Grant_issued k (issued_of grant x) intent) ?e"
    using issued checks by (auto simp: issued_as_def authorizes_def issued_of_def)
  then have auth: "\<exists>i \<in> set evs. authorizes i ?e" by blast
  have owner: "k' = k" if "grant_at w k' grant \<noteq> None" for k'
    using grant_inv_owner [OF assms(1) that, of k] x by simp
  have unused: "grant \<notin> set (consumed_grants evs)"
  proof
    assume "grant \<in> set (consumed_grants evs)"
    then obtain k1 y where y: "grant_at w k1 grant = Some y" "gr_consumed y"
      using assms(1) unfolding grant_inv_def by blast
    then have "k1 = k" using owner by simp
    then show False using x y checks by simp
  qed
  have "grant_inv (evs @ [?e]) ?w"
    unfolding grant_inv_def at
  proof (intro conjI allI impI ballI)
    fix k1 k2 g
    assume "(if k1 = k \<and> g = grant then Some (x\<lparr>gr_consumed := True\<rparr>) else grant_at w k1 g) \<noteq> None"
      "(if k2 = k \<and> g = grant then Some (x\<lparr>gr_consumed := True\<rparr>) else grant_at w k2 g) \<noteq> None"
    then have "grant_at w k1 g \<noteq> None" "grant_at w k2 g \<noteq> None" using x by (simp_all split: if_splits)
    then show "k1 = k2" by (rule grant_inv_owner [OF assms(1)])
  next
    fix g assume "g \<in> set (consumed_grants (evs @ [?e]))"
    then have "g = grant \<or> g \<noteq> grant \<and> g \<in> set (consumed_grants evs)" by auto
    then consider "g = grant" | k1 y where "grant_at w k1 g = Some y" "gr_consumed y" "g \<noteq> grant"
      using assms(1) unfolding grant_inv_def by blast
    then show "\<exists>k1 y. (if k1 = k \<and> g = grant then Some (x\<lparr>gr_consumed := True\<rparr>) else grant_at w k1 g) = Some y \<and> gr_consumed y"
    proof cases
      case 1
      then show ?thesis by (intro exI [of _ k]) simp
    next
      case (2 k1 y)
      then show ?thesis by (intro exI [of _ k1] exI [of _ y]) simp
    qed
  next
    show "distinct (consumed_grants (evs @ [?e]))" "all_authorized (evs @ [?e])"
      using assms(1) unused auth by (simp_all add: grant_inv_def all_authorized_snoc)
  next
    fix k1 g y
    assume y: "(if k1 = k \<and> g = grant then Some (x\<lparr>gr_consumed := True\<rparr>) else grant_at w k1 g) = Some y"
    then have "(k1 = k \<and> g = grant \<and> y = x\<lparr>gr_consumed := True\<rparr>) \<or> grant_at w k1 g = Some y" by (auto split: if_splits)
    then have "g < gw_next w \<and> issued_as evs k1 g y"
      using issued bound assms(1) by (auto simp: grant_inv_def)
    then show "g < gw_next ?w" "issued_as (evs @ [?e]) k1 g y" by auto
  qed
  moreover obtain b where "r = Inr b"
    "au' = (gw_authorities w ! k)\<lparr>au_grants := map_set grant (x\<lparr>gr_consumed := True\<rparr>) (au_grants (gw_authorities w ! k))\<rparr>"
    using assms(3) Inr consumed_of_ok [of hash x plan] by (auto simp: consume_def)
  ultimately show ?thesis by simp
qed

lemma grant_run_inv: "grant_run hash evs w \<Longrightarrow> grant_inv evs w"
proof (induction rule: grant_run.induct)
  case grants_start
  show ?case by (simp add: grant_inv_def grant_at_def all_authorized_def)
next
  case (grants_create evs w semanticOperation issuer au)
  then have "au_grants au = []" by (auto simp: createOperationEffectGrantAuthority_def)
  then show ?case using grants_create.IH by (simp add: grant_inv_def)
next
  case (grants_issue evs w k now monotonic nonce operation epoch deadline r au')
  then show ?case by (intro grant_inv_issue)
next
  case (grants_consume evs w k fevs fnd now monotonic grant plan epoch r au')
  then show ?case by (intro grant_inv_consume)
qed

lemma consumed_plan_sound:
  "grant_run hash evs w \<Longrightarrow> e \<in> set evs \<Longrightarrow> is_consumption e \<Longrightarrow> plan_sound hash (ev_plan e)"
proof (induction rule: grant_run.induct)
  case (grants_issue evs w k now monotonic nonce operation epoch deadline r au')
  then show ?case by (auto simp: is_consumption_def split: sum.splits)
next
  case (grants_consume evs w k fevs fnd now monotonic grant plan epoch r au')
  show ?case
  proof (cases "e \<in> set evs")
    case True
    then show ?thesis using grants_consume.IH grants_consume.prems(2) by simp
  next
    case False
    then obtain b where b: "r = Inr b" "e = Grant_consumed k grant plan epoch now"
      using grants_consume.prems(1) by (auto split: sum.splits)
    with grants_consume.hyps(4) have "plan \<in> set (COMPILED_OPERATION_PLANS fnd)"
      by (auto simp: consume_def consume_checks_def assertSemanticOperationPlan_def throw_def bind_r_Inr_iff
          split: sum.splits option.splits)
    then show ?thesis using foundation_plan_sound [OF grants_consume.hyps(3)] b by simp
  qed
qed simp_all

text \<open>
  C30. Effect grants: whatever calls are made to whatever authorities, a grant is consumed at most once, by the
  authority that issued it and no other, and only after that issue; the consuming plan is a sound one with
  the operation, intent, decision, identity and execution plan digests the grant was issued for, in the same epoch,
  with the grant's digest and deadline as those of its attempt, and before that deadline.
\<close>

theorem effect_grant_single_use:
  assumes "grant_run hash evs w"
  shows "distinct (consumed_grants evs) \<and> all_authorized evs \<and>
     (\<forall>k grant plan epoch now. Grant_consumed k grant plan epoch now \<in> set evs \<longrightarrow> plan_sound hash plan)"
  using grant_run_inv [OF assms] consumed_plan_sound [OF assms] by (fastforce simp: grant_inv_def is_consumption_def)

text \<open>A run with one authority, one grant and the plan it authorizes.\<close>

definition granted_context :: attempt_context where
  "granted_context = sample_context\<lparr>ac_authorityGrantDigest := zero_digest\<rparr>"

definition granted_plan :: operation_plan where
  "granted_plan = sample_plan\<lparr>pl_attempt := (pl_attempt sample_plan)\<lparr>oa_authorityGrantDigest := zero_digest\<rparr>\<rparr>"

definition granted_foundation :: foundation where
  "granted_foundation = empty_foundation\<lparr>next_ref := 2, COMPILED_OPERATION_PLANS := [granted_plan],
     COMPILED_ATTEMPT_CONTEXTS := [granted_context]\<rparr>"

definition granted_intent :: operation_intent where
  "granted_intent = \<lparr>in_identity = pl_identity sample_plan, in_execution = pl_execution sample_plan\<rparr>"

definition sample_authority :: authority where
  "sample_authority = \<lparr>au_semanticOperation = ''sec.build'', au_issuerIdentityDigest = sample_digest, au_grants = []\<rparr>"

definition granted_record :: grant_record where
  "granted_record = \<lparr>gr_issuerIdentityDigest = sample_digest, gr_semanticOperation = ''sec.build'',
     gr_intentDigest = sample_digest, gr_decisionDigest = sample_digest, gr_operationIdentityDigest = zero_digest,
     gr_executionPlanDigest = zero_digest, gr_currentEpochDigest = sample_digest, gr_deadlineAtUnixMs = 9,
     gr_deadlineAtMonotonicMs = 8, gr_authorityGrantDigest = zero_digest, gr_consumed = False\<rparr>"

lemma granted_run:
  "foundation_run sample_hash [Context_issued granted_context, Plan_compiled granted_plan] granted_foundation"
proof -
  have c: "issueSemanticOperationAttemptContext (replicate 64 CHR ''a'') zero_digest None (Some sample_digest) empty_foundation =
      (Inr granted_context, empty_foundation\<lparr>next_ref := 1, COMPILED_ATTEMPT_CONTEXTS := [granted_context]\<rparr>)"
    by (simp add: issueSemanticOperationAttemptContext_def requireDigest_def optional_digest_def empty_foundation_def
        granted_context_def sample_context_def sample_digest_def [simplified, symmetric])
  have p: "compileSemanticOperationPlan sample_hash ''sec.build'' sample_digest sample_digest 9 []
      [sample_requirement ''sec.a''] granted_context (empty_foundation\<lparr>next_ref := 1, COMPILED_ATTEMPT_CONTEXTS := [granted_context]\<rparr>) =
      (Inr granted_plan, granted_foundation)"
    by (simp add: compileSemanticOperationPlan_def sample_intent is_safe_integer_def sha256_digest granted_plan_def sample_plan_def
        granted_context_def sample_context_def granted_foundation_def empty_foundation_def)
  show ?thesis using run_plan [OF run_context [OF run_start c] p] by simp
qed

lemma granted_issue:
  "issue sample_hash 1 0 (replicate 64 CHR ''a'') 0 granted_intent sample_digest 9 sample_authority =
     (Inr (issued_of 0 granted_record), sample_authority\<lparr>au_grants := [(0, granted_record)]\<rparr>)"
proof -
  have "compileSemanticOperationIntent sample_hash (oi_operation (pl_identity sample_plan)) (oi_intentDigest (pl_identity sample_plan))
      (oi_decisionDigest (pl_identity sample_plan)) (ep_aggregateBudgets (pl_execution sample_plan))
      (ep_requirements (pl_execution sample_plan)) = Inr granted_intent"
    using intent_recompiles [OF sample_intent] by (simp add: granted_intent_def)
  then have "requireCanonicalIntent sample_hash granted_intent = Inr ()"
    by (simp add: requireCanonicalIntent_def granted_intent_def)
  then have "issue_record sample_hash 1 0 (replicate 64 CHR ''a'') granted_intent sample_digest 9 sample_authority = Inr granted_record"
    by (simp add: issue_record_def granted_intent_def sample_plan_def sample_authority_def requireGrantDigest_def
        is_safe_integer_def sha256_digest grant_payload_def finite_object granted_record_def del: finite_json.simps(3))
  then show ?thesis by (simp add: issue_def sample_authority_def map_set_def)
qed

lemma granted_consume:
  "consume sample_hash 2 1 granted_foundation 0 granted_plan sample_digest (sample_authority\<lparr>au_grants := [(0, granted_record)]\<rparr>) =
     (consumed_of sample_hash granted_record granted_plan,
      sample_authority\<lparr>au_grants := [(0, granted_record\<lparr>gr_consumed := True\<rparr>)]\<rparr>)"
proof -
  have "granted_plan \<in> set (COMPILED_OPERATION_PLANS granted_foundation)" by (simp add: granted_foundation_def)
  then have "consume_checks 2 1 granted_foundation granted_plan sample_digest (sample_authority\<lparr>au_grants := [(0, granted_record)]\<rparr>)
      (Some granted_record) = Inr granted_record"
    by (simp add: consume_checks_def assertSemanticOperationPlan_def requireGrantDigest_def)
      (simp add: granted_plan_def sample_plan_def sample_authority_def granted_record_def)
  then show ?thesis by (simp add: consume_def map_get_def map_set_def)
qed

theorem effect_grant_single_use_witness:
  "\<exists>w. grant_run sample_hash
      [Grant_issued 0 (issued_of 0 granted_record) granted_intent, Grant_consumed 0 0 granted_plan sample_digest 2] w \<and>
    plan_sound sample_hash granted_plan"
proof -
  have a: "createOperationEffectGrantAuthority ''sec.build'' sample_digest = Inr sample_authority"
  proof -
    have "is_operation_id ''sec.build''" by code_simp
    then show ?thesis by (simp add: createOperationEffectGrantAuthority_def requireGrantDigest_def sample_authority_def)
  qed
  note created = grants_create [OF grants_start a]
  have issued: "grant_run sample_hash [Grant_issued 0 (issued_of 0 granted_record) granted_intent]
      \<lparr>gw_next = 1, gw_authorities = [sample_authority\<lparr>au_grants := [(0, granted_record)]\<rparr>]\<rparr>"
    using grants_issue [OF created, of 0 sample_hash 1 0 "replicate 64 CHR ''a''" granted_intent sample_digest 9
      "Inr (issued_of 0 granted_record)" "sample_authority\<lparr>au_grants := [(0, granted_record)]\<rparr>"] granted_issue by simp
  obtain b where "consumed_of sample_hash granted_record granted_plan = Inr b" using consumed_of_ok by blast
  then obtain w where "grant_run sample_hash
      [Grant_issued 0 (issued_of 0 granted_record) granted_intent, Grant_consumed 0 0 granted_plan sample_digest 2] w"
    using grants_consume [OF issued _ granted_run, of 0 2 1 0 granted_plan sample_digest] granted_consume by auto
  with effect_grant_single_use [OF this] show ?thesis by fastforce
qed

end
