(* ===== verification/RequirementBinding.thy ===== *)
theory RequirementBinding
  imports OperationSettlement
begin

text \<open>
  Requirement binding contexts, \<^verbatim>\<open>src/src/execution/operation/requirement-binding-context.ts\<close>: the foundation issues,
  for one requirement of one bound operation, an opaque context that carries narrowed resource ceilings and a
  deadline, and a physical worker consumes it once. A context is an empty frozen object, that is a fresh reference;
  the \<open>WeakMap\<close> by operation is keyed by the reference of the operation object, which is an argument
  beside its contents. The clock is an argument. A resource ceiling is a record with exactly two fields, so the check
  of its keys is part of its type.
\<close>

section \<open>Data\<close>

definition OPERATION_REQUIREMENT_BINDING_ISSUER_ROLE :: string where
  "OPERATION_REQUIREMENT_BINDING_ISSUER_ROLE = ''semantic-operation-foundation''"

record binding_projection =
  bp_issuerRole :: string
  bp_operationIdentityDigest :: string
  bp_executionPlanDigest :: string
  bp_boundAttemptDigest :: string
  bp_requirementId :: string
  bp_requirementContractDigest :: string
  bp_providerIdentityDigest :: string
  bp_providerBindingDigest :: string
  bp_absoluteDeadlineAtUnixMs :: int
  bp_resourceCeilings :: "operation_budget list"
  bp_resourceCeilingIdentityDigest :: string
  bp_contextDigest :: string

text \<open>The module's weak collections; \<open>rw_next\<close> is the reference of the next object.\<close>

record requirement_world =
  rw_next :: nat
  ISSUED_REQUIREMENT_BINDING_CONTEXTS :: "nat list"
  CONSUMED_REQUIREMENT_BINDING_CONTEXTS :: "nat list"
  PROJECTION_BY_CONTEXT :: "(nat, binding_projection) jsmap"
  CONTEXT_BY_OPERATION_REQUIREMENT :: "(nat, (string, nat) jsmap) jsmap"

definition no_contexts :: requirement_world where
  "no_contexts = \<lparr>rw_next = 0, ISSUED_REQUIREMENT_BINDING_CONTEXTS = [], CONSUMED_REQUIREMENT_BINDING_CONTEXTS = [],
     PROJECTION_BY_CONTEXT = [], CONTEXT_BY_OPERATION_REQUIREMENT = []\<rparr>"

section \<open>Operations\<close>

definition canonical_ceiling :: "bound_operation \<Rightarrow> operation_budget \<Rightarrow> operation_budget result" where
  "canonical_ceiling operation limit =
     bind_r (throw_if (\<not> isCanonicalOperationBudgetMaximum (bd_resource limit) (bd_maximum limit))
       (NativeError ''Operation requirement resource ceiling is not canonical.'')) (\<lambda>_.
     case find (\<lambda>b. bd_resource b = bd_resource limit) (ep_aggregateBudgets (pl_execution (bo_plan operation))) of
       None \<Rightarrow> throw (NativeError (''Operation requirement resource ceiling '' @ bd_resource limit @
                 '' is not narrowed from its operation.''))
     | Some parent \<Rightarrow>
         bind_r (throw_if (bd_maximum limit > bd_maximum parent)
           (NativeError (''Operation requirement resource ceiling '' @ bd_resource limit @
              '' is not narrowed from its operation.''))) (\<lambda>_. Inr limit))"

definition canonicalResourceCeilings :: "bound_operation \<Rightarrow> operation_budget list \<Rightarrow> operation_budget list result" where
  "canonicalResourceCeilings operation supplied =
     bind_r (throw_if (supplied = []) (NativeError ''Operation requirement binding needs at least one resource ceiling.'')) (\<lambda>_.
     bind_r (map_r (canonical_ceiling operation) (sort_key bd_resource supplied)) (\<lambda>ceilings.
     bind_r (throw_if (length (dedup (map bd_resource ceilings)) \<noteq> length ceilings)
       (NativeError ''Operation requirement resource ceilings must be unique by resource.'')) (\<lambda>_. Inr ceilings)))"

definition ceiling_payload :: "bound_operation \<Rightarrow> operation_requirement \<Rightarrow> capability_binding \<Rightarrow> int \<Rightarrow> operation_budget list \<Rightarrow> json" where
  "ceiling_payload operation requirement binding deadline ceilings =
     JObject [jtext ''domain'' ''sec.operation.requirement-resource-ceiling'',
       jtext ''operationIdentityDigest'' (oi_identityDigest (pl_identity (bo_plan operation))),
       jtext ''executionPlanDigest'' (ep_executionPlanDigest (pl_execution (bo_plan operation))),
       jtext ''boundAttemptDigest'' (bo_boundAttemptDigest operation),
       jtext ''requirementId'' (rq_id requirement), jtext ''providerBindingDigest'' (cb_bindingDigest binding),
       jint ''absoluteDeadlineAtUnixMs'' deadline, (''resourceCeilings'', JArray (map budget_json ceilings))]"

definition projection_payload :: "binding_projection \<Rightarrow> json" where
  "projection_payload p =
     JObject [jtext ''issuerRole'' (bp_issuerRole p), jtext ''operationIdentityDigest'' (bp_operationIdentityDigest p),
       jtext ''executionPlanDigest'' (bp_executionPlanDigest p), jtext ''boundAttemptDigest'' (bp_boundAttemptDigest p),
       jtext ''requirementId'' (bp_requirementId p), jtext ''requirementContractDigest'' (bp_requirementContractDigest p),
       jtext ''providerIdentityDigest'' (bp_providerIdentityDigest p),
       jtext ''providerBindingDigest'' (bp_providerBindingDigest p),
       jint ''absoluteDeadlineAtUnixMs'' (bp_absoluteDeadlineAtUnixMs p),
       (''resourceCeilings'', JArray (map budget_json (bp_resourceCeilings p))),
       jtext ''resourceCeilingIdentityDigest'' (bp_resourceCeilingIdentityDigest p)]"

definition missing_binding :: failure where
  "missing_binding = NativeError ''Operation requirement binding is not present in the exact operation.''"

text \<open>The projection of a request, before the module's collections are consulted.\<close>

definition requirement_projection ::
  "(string \<Rightarrow> string) \<Rightarrow> int \<Rightarrow> foundation \<Rightarrow> bound_operation \<Rightarrow> string \<Rightarrow> operation_budget list \<Rightarrow> int option \<Rightarrow>
   binding_projection result" where
  "requirement_projection hash now fnd operation requirementId supplied deadline =
     bind_r (assertSemanticOperationProjection hash fnd operation) (\<lambda>_.
     case (find (\<lambda>r. rq_id r = requirementId) (ep_requirements (pl_execution (bo_plan operation))),
           find (\<lambda>b. cb_requirementId b = requirementId) (bo_bindings operation)) of
       (Some requirement, Some binding) \<Rightarrow>
         bind_r (throw_if (cb_contractDigest binding \<noteq> rq_contractDigest requirement) missing_binding) (\<lambda>_.
         bind_r (canonicalResourceCeilings operation supplied) (\<lambda>ceilings.
         let attemptDeadline = oa_deadlineAtUnixMs (pl_attempt (bo_plan operation));
             absolute = (case deadline of None \<Rightarrow> attemptDeadline | Some d \<Rightarrow> d) in
         bind_r (throw_if (\<not> is_safe_integer absolute \<or> absolute \<le> now \<or> absolute > attemptDeadline)
           (NativeError ''Operation requirement absolute deadline is not narrowed from its attempt.'')) (\<lambda>_.
         bind_r (sha256 hash (ceiling_payload operation requirement binding absolute ceilings)) (\<lambda>ceilingDigest.
         let p = \<lparr>bp_issuerRole = OPERATION_REQUIREMENT_BINDING_ISSUER_ROLE,
               bp_operationIdentityDigest = oi_identityDigest (pl_identity (bo_plan operation)),
               bp_executionPlanDigest = ep_executionPlanDigest (pl_execution (bo_plan operation)),
               bp_boundAttemptDigest = bo_boundAttemptDigest operation, bp_requirementId = rq_id requirement,
               bp_requirementContractDigest = rq_contractDigest requirement,
               bp_providerIdentityDigest = cb_providerIdentityDigest binding,
               bp_providerBindingDigest = cb_bindingDigest binding, bp_absoluteDeadlineAtUnixMs = absolute,
               bp_resourceCeilings = ceilings, bp_resourceCeilingIdentityDigest = ceilingDigest, bp_contextDigest = []\<rparr> in
         bind_r (sha256 hash (domain_payload ''sec.operation.requirement-binding-context'' ''binding'' (projection_payload p)))
           (\<lambda>d. Inr (p\<lparr>bp_contextDigest := d\<rparr>))))))
     | _ \<Rightarrow> throw missing_binding)"

definition contexts_of :: "requirement_world \<Rightarrow> nat \<Rightarrow> (string, nat) jsmap" where
  "contexts_of w opref = (case map_get (CONTEXT_BY_OPERATION_REQUIREMENT w) opref of None \<Rightarrow> [] | Some m \<Rightarrow> m)"

text \<open>One context per operation object and requirement: the same request again gives the context back.\<close>

definition issueOperationRequirementBindingContext ::
  "(string \<Rightarrow> string) \<Rightarrow> int \<Rightarrow> foundation \<Rightarrow> nat \<Rightarrow> bound_operation \<Rightarrow> string \<Rightarrow> operation_budget list \<Rightarrow> int option \<Rightarrow>
   requirement_world \<Rightarrow> nat result \<times> requirement_world" where
  "issueOperationRequirementBindingContext hash now fnd opref operation requirementId supplied deadline w =
     (case requirement_projection hash now fnd operation requirementId supplied deadline of
        Inl e \<Rightarrow> (Inl e, w)
      | Inr p \<Rightarrow>
          (case map_get (contexts_of w opref) (bp_requirementId p) of
             Some existing \<Rightarrow>
               if map_option bp_contextDigest (map_get (PROJECTION_BY_CONTEXT w) existing) \<noteq> Some (bp_contextDigest p)
               then (Inl (NativeError ''Operation requirement already has a different issued resource-ceiling context.''), w)
               else (Inr existing, w)
           | None \<Rightarrow> (Inr (rw_next w), w\<lparr>rw_next := rw_next w + 1,
               ISSUED_REQUIREMENT_BINDING_CONTEXTS := rw_next w # ISSUED_REQUIREMENT_BINDING_CONTEXTS w,
               PROJECTION_BY_CONTEXT := map_set (rw_next w) p (PROJECTION_BY_CONTEXT w),
               CONTEXT_BY_OPERATION_REQUIREMENT := map_set opref
                 (map_set (bp_requirementId p) (rw_next w) (contexts_of w opref)) (CONTEXT_BY_OPERATION_REQUIREMENT w)\<rparr>)))"

definition consumeOperationRequirementBindingContext ::
  "nat \<Rightarrow> requirement_world \<Rightarrow> binding_projection result \<times> requirement_world" where
  "consumeOperationRequirementBindingContext context_ref w =
     (if context_ref \<notin> set (ISSUED_REQUIREMENT_BINDING_CONTEXTS w)
      then (Inl (NativeError ''Physical requirement admission requires an operation-foundation-issued binding context.''), w)
      else case map_get (PROJECTION_BY_CONTEXT w) context_ref of
        None \<Rightarrow> (Inl (NativeError ''Operation requirement binding context has no issuer projection.''), w)
      | Some p \<Rightarrow>
          if context_ref \<in> set (CONSUMED_REQUIREMENT_BINDING_CONTEXTS w)
          then (Inl (NativeError ''Operation requirement binding context has already been consumed.''), w)
          else (Inr p, w\<lparr>CONSUMED_REQUIREMENT_BINDING_CONTEXTS := context_ref # CONSUMED_REQUIREMENT_BINDING_CONTEXTS w\<rparr>))"

section \<open>Narrowed projections\<close>

text \<open>A projection that stays within the operation it was issued for, at the time it was issued.\<close>

definition narrowed :: "bound_operation \<Rightarrow> int \<Rightarrow> binding_projection \<Rightarrow> bool" where
  "narrowed operation now p \<longleftrightarrow>
     (\<exists>r \<in> set (ep_requirements (pl_execution (bo_plan operation))). \<exists>b \<in> set (bo_bindings operation).
        bp_requirementId p = rq_id r \<and> cb_requirementId b = rq_id r \<and> cb_contractDigest b = rq_contractDigest r \<and>
        bp_requirementContractDigest p = rq_contractDigest r \<and> bp_providerBindingDigest p = cb_bindingDigest b \<and>
        bp_providerIdentityDigest p = cb_providerIdentityDigest b) \<and>
     bp_boundAttemptDigest p = bo_boundAttemptDigest operation \<and>
     bp_resourceCeilings p \<noteq> [] \<and> sorted (map bd_resource (bp_resourceCeilings p)) \<and>
     distinct (map bd_resource (bp_resourceCeilings p)) \<and>
     (\<forall>c \<in> set (bp_resourceCeilings p). \<exists>b \<in> set (ep_aggregateBudgets (pl_execution (bo_plan operation))).
        bd_resource b = bd_resource c \<and> 0 \<le> bd_maximum c \<and> bd_maximum c \<le> bd_maximum b) \<and>
     now < bp_absoluteDeadlineAtUnixMs p \<and>
     bp_absoluteDeadlineAtUnixMs p \<le> oa_deadlineAtUnixMs (pl_attempt (bo_plan operation))"

lemma canonical_ceiling_Inr:
  assumes "canonical_ceiling operation c = Inr d"
  shows "d = c \<and> 0 \<le> bd_maximum c \<and> (\<exists>b \<in> set (ep_aggregateBudgets (pl_execution (bo_plan operation))).
     bd_resource b = bd_resource c \<and> bd_maximum c \<le> bd_maximum b)"
  using assms
  by (auto simp: canonical_ceiling_def throw_def isCanonicalOperationBudgetMaximum_def find_Some_iff
      split: option.splits intro: nth_mem)

lemma map_r_ceilings:
  "map_r (canonical_ceiling operation) cs = Inr ds \<Longrightarrow> ds = cs \<and>
     (\<forall>c \<in> set cs. 0 \<le> bd_maximum c \<and> (\<exists>b \<in> set (ep_aggregateBudgets (pl_execution (bo_plan operation))).
        bd_resource b = bd_resource c \<and> bd_maximum c \<le> bd_maximum b))"
  by (induction cs arbitrary: ds) (auto dest: canonical_ceiling_Inr)

lemma canonicalResourceCeilings_Inr:
  assumes "canonicalResourceCeilings operation supplied = Inr cs"
  shows "cs = sort_key bd_resource supplied \<and> cs \<noteq> [] \<and> distinct (map bd_resource cs) \<and>
     (\<forall>c \<in> set cs. \<exists>b \<in> set (ep_aggregateBudgets (pl_execution (bo_plan operation))).
        bd_resource b = bd_resource c \<and> 0 \<le> bd_maximum c \<and> bd_maximum c \<le> bd_maximum b)"
proof -
  from assms have "supplied \<noteq> []" "map_r (canonical_ceiling operation) (sort_key bd_resource supplied) = Inr cs"
    "length (dedup (map bd_resource cs)) = length (map bd_resource cs)"
    by (auto simp: canonicalResourceCeilings_def)
  with map_r_ceilings [OF this(2)] show ?thesis unfolding length_dedup_eq_iff by auto
qed

lemma requirement_projection_narrowed:
  assumes "requirement_projection hash now fnd operation requirementId supplied deadline = Inr p"
  shows "narrowed operation now p" "bp_requirementId p = requirementId"
proof -
  obtain r b cs where f: "find (\<lambda>r. rq_id r = requirementId) (ep_requirements (pl_execution (bo_plan operation))) = Some r"
      "find (\<lambda>b. cb_requirementId b = requirementId) (bo_bindings operation) = Some b"
    and c: "canonicalResourceCeilings operation supplied = Inr cs" and d: "cb_contractDigest b = rq_contractDigest r"
    and p: "bp_requirementId p = rq_id r" "bp_requirementContractDigest p = rq_contractDigest r"
      "bp_providerBindingDigest p = cb_bindingDigest b" "bp_providerIdentityDigest p = cb_providerIdentityDigest b"
      "bp_boundAttemptDigest p = bo_boundAttemptDigest operation" "bp_resourceCeilings p = cs"
      "now < bp_absoluteDeadlineAtUnixMs p" "bp_absoluteDeadlineAtUnixMs p \<le> oa_deadlineAtUnixMs (pl_attempt (bo_plan operation))"
    using assms unfolding requirement_projection_def Let_def
    by (auto simp: throw_def split: option.splits prod.splits)
  from f have m: "r \<in> set (ep_requirements (pl_execution (bo_plan operation)))" "b \<in> set (bo_bindings operation)"
    "rq_id r = requirementId" "cb_requirementId b = requirementId" by (auto simp: find_Some_iff)
  show "bp_requirementId p = requirementId" using p m by simp
  show "narrowed operation now p"
    unfolding narrowed_def using canonicalResourceCeilings_Inr [OF c] m d p by auto
qed

section \<open>Runs\<close>

datatype context_event =
    Context_given (cv_operation: nat) bound_operation (cv_requirement: string) (cv_context: nat) int
  | Context_consumed nat binding_projection

text \<open>Any sequence of calls, over any reachable foundations and clock readings.\<close>

inductive requirement_run :: "(string \<Rightarrow> string) \<Rightarrow> context_event list \<Rightarrow> requirement_world \<Rightarrow> bool" for hash where
  contexts_start: "requirement_run hash [] no_contexts"
| contexts_issue: "requirement_run hash evs w \<Longrightarrow> foundation_run hash fevs fnd \<Longrightarrow>
    issueOperationRequirementBindingContext hash now fnd opref operation requirementId supplied deadline w = (r, w') \<Longrightarrow>
    requirement_run hash (evs @ (case r of Inl _ \<Rightarrow> [] | Inr c \<Rightarrow> [Context_given opref operation requirementId c now])) w'"
| contexts_consume: "requirement_run hash evs w \<Longrightarrow>
    consumeOperationRequirementBindingContext c w = (r, w') \<Longrightarrow>
    requirement_run hash (evs @ (case r of Inl _ \<Rightarrow> [] | Inr p \<Rightarrow> [Context_consumed c p])) w'"

definition consumed_contexts :: "context_event list \<Rightarrow> nat list" where
  "consumed_contexts evs = concat (map (\<lambda>e. case e of Context_consumed c _ \<Rightarrow> [c] | _ \<Rightarrow> []) evs)"

lemma consumed_contexts_simps [simp]:
  "consumed_contexts [] = []" "consumed_contexts (evs @ es) = consumed_contexts evs @ consumed_contexts es"
  "consumed_contexts [Context_given o' p r c n] = []" "consumed_contexts [Context_consumed c q] = [c]"
  by (simp_all add: consumed_contexts_def)

text \<open>The issue that a projection comes from.\<close>

definition given_narrowed :: "context_event list \<Rightarrow> nat \<Rightarrow> binding_projection \<Rightarrow> bool" where
  "given_narrowed evs c p \<longleftrightarrow>
     (\<exists>opref operation now. Context_given opref operation (bp_requirementId p) c now \<in> set evs \<and> narrowed operation now p)"

lemma given_narrowed_append [intro]: "given_narrowed evs c p \<Longrightarrow> given_narrowed (evs @ es) c p"
  by (auto simp: given_narrowed_def)

definition context_inv :: "context_event list \<Rightarrow> requirement_world \<Rightarrow> bool" where
  "context_inv evs w \<longleftrightarrow>
     (\<forall>c p. map_get (PROJECTION_BY_CONTEXT w) c = Some p \<longrightarrow> c < rw_next w \<and> given_narrowed evs c p) \<and>
     (\<forall>opref operation r c now. Context_given opref operation r c now \<in> set evs \<longrightarrow> map_get (contexts_of w opref) r = Some c) \<and>
     (\<forall>c p. Context_consumed c p \<in> set evs \<longrightarrow> map_get (PROJECTION_BY_CONTEXT w) c = Some p) \<and>
     set (CONSUMED_REQUIREMENT_BINDING_CONTEXTS w) = set (consumed_contexts evs) \<and> distinct (consumed_contexts evs)"

lemma context_inv_given:
  "context_inv evs w \<Longrightarrow> Context_given opref operation r c now \<in> set evs \<Longrightarrow> map_get (contexts_of w opref) r = Some c"
  unfolding context_inv_def by blast

lemma context_inv_projection:
  "context_inv evs w \<Longrightarrow> map_get (PROJECTION_BY_CONTEXT w) c = Some p \<Longrightarrow> c < rw_next w \<and> given_narrowed evs c p"
  unfolding context_inv_def by blast

lemma contexts_of_set:
  "contexts_of (w\<lparr>rw_next := n, ISSUED_REQUIREMENT_BINDING_CONTEXTS := is, PROJECTION_BY_CONTEXT := ps,
       CONTEXT_BY_OPERATION_REQUIREMENT := map_set opref m (CONTEXT_BY_OPERATION_REQUIREMENT w)\<rparr>) opref' =
     (if opref' = opref then m else contexts_of w opref')"
  by (simp add: contexts_of_def)

lemma contexts_of_consumed [simp]:
  "contexts_of (w\<lparr>CONSUMED_REQUIREMENT_BINDING_CONTEXTS := cs\<rparr>) opref = contexts_of w opref"
  by (simp add: contexts_of_def)

text \<open>What an issue does: nothing but a refusal, the context given before, or a fresh one.\<close>

lemma issue_context_cases:
  assumes "issueOperationRequirementBindingContext hash now fnd opref operation requirementId supplied deadline w = (r, w')"
  obtains (refused) e where "r = Inl e" "w' = w"
  | (existing) c where "r = Inr c" "w' = w" "map_get (contexts_of w opref) requirementId = Some c"
  | (fresh) p where "r = Inr (rw_next w)" "narrowed operation now p" "bp_requirementId p = requirementId"
      "map_get (contexts_of w opref) requirementId = None"
      "w' = w\<lparr>rw_next := rw_next w + 1,
         ISSUED_REQUIREMENT_BINDING_CONTEXTS := rw_next w # ISSUED_REQUIREMENT_BINDING_CONTEXTS w,
         PROJECTION_BY_CONTEXT := map_set (rw_next w) p (PROJECTION_BY_CONTEXT w),
         CONTEXT_BY_OPERATION_REQUIREMENT := map_set opref
           (map_set requirementId (rw_next w) (contexts_of w opref)) (CONTEXT_BY_OPERATION_REQUIREMENT w)\<rparr>"
proof (cases "requirement_projection hash now fnd operation requirementId supplied deadline")
  case (Inl e)
  then show ?thesis using assms refused [of e] by (simp add: issueOperationRequirementBindingContext_def)
next
  case (Inr p)
  note p = requirement_projection_narrowed [OF Inr]
  show ?thesis
  proof (cases "map_get (contexts_of w opref) requirementId")
    case None
    then show ?thesis using assms Inr p fresh [of p] by (simp add: issueOperationRequirementBindingContext_def)
  next
    case (Some c)
    show ?thesis
    proof (cases "map_option bp_contextDigest (map_get (PROJECTION_BY_CONTEXT w) c) = Some (bp_contextDigest p)")
      case True
      then show ?thesis using assms Inr p Some existing [of c] by (simp add: issueOperationRequirementBindingContext_def)
    next
      case False
      then have "r = Inl (NativeError ''Operation requirement already has a different issued resource-ceiling context.'')" "w' = w"
        using assms Inr p Some by (simp_all add: issueOperationRequirementBindingContext_def)
      then show ?thesis by (rule refused)
    qed
  qed
qed

lemma context_inv_fresh:
  assumes inv: "context_inv evs w" and p: "narrowed operation now p"
    and none: "map_get (contexts_of w opref) (bp_requirementId p) = None"
    and w': "w' = w\<lparr>rw_next := rw_next w + 1,
         ISSUED_REQUIREMENT_BINDING_CONTEXTS := rw_next w # ISSUED_REQUIREMENT_BINDING_CONTEXTS w,
         PROJECTION_BY_CONTEXT := map_set (rw_next w) p (PROJECTION_BY_CONTEXT w),
         CONTEXT_BY_OPERATION_REQUIREMENT := map_set opref
           (map_set (bp_requirementId p) (rw_next w) (contexts_of w opref)) (CONTEXT_BY_OPERATION_REQUIREMENT w)\<rparr>"
  shows "context_inv (evs @ [Context_given opref operation (bp_requirementId p) (rw_next w) now]) w'" (is "context_inv ?evs w'")
  unfolding context_inv_def
proof (intro conjI allI impI)
  fix c q assume "map_get (PROJECTION_BY_CONTEXT w') c = Some q"
  then have "(c = rw_next w \<and> q = p) \<or> map_get (PROJECTION_BY_CONTEXT w) c = Some q" using w' by (auto split: if_splits)
  moreover have "given_narrowed ?evs (rw_next w) p" using p unfolding given_narrowed_def by auto
  ultimately show "c < rw_next w'" "given_narrowed ?evs c q"
    using context_inv_projection [OF inv, of c q] w' by (auto simp: less_Suc_eq)
next
  fix opref' operation' r c now'
  assume "Context_given opref' operation' r c now' \<in> set ?evs"
  then have "(opref' = opref \<and> r = bp_requirementId p \<and> c = rw_next w) \<or> map_get (contexts_of w opref') r = Some c"
    using context_inv_given [OF inv, of opref' operation' r c now'] by auto
  then show "map_get (contexts_of w' opref') r = Some c"
    using none unfolding w' contexts_of_set by auto
next
  fix c q assume "Context_consumed c q \<in> set ?evs"
  then have q: "map_get (PROJECTION_BY_CONTEXT w) c = Some q" using inv unfolding context_inv_def by auto
  then have "c < rw_next w" using context_inv_projection [OF inv] by blast
  then show "map_get (PROJECTION_BY_CONTEXT w') c = Some q" using q w' by simp
next
  show "set (CONSUMED_REQUIREMENT_BINDING_CONTEXTS w') = set (consumed_contexts ?evs)" "distinct (consumed_contexts ?evs)"
    using inv w' by (simp_all add: context_inv_def)
qed

lemma requirement_run_inv: "requirement_run hash evs w \<Longrightarrow> context_inv evs w"
proof (induction rule: requirement_run.induct)
  case contexts_start
  show ?case by (simp add: context_inv_def no_contexts_def)
next
  case (contexts_issue evs w fevs fnd now opref operation requirementId supplied deadline r w')
  from contexts_issue.hyps(3) show ?case
  proof (cases rule: issue_context_cases)
    case (refused e)
    then show ?thesis using contexts_issue.IH by simp
  next
    case (existing c)
    then show ?thesis using contexts_issue.IH by (auto simp: context_inv_def)
  next
    case (fresh p)
    then show ?thesis using context_inv_fresh [OF contexts_issue.IH, of operation now p opref w'] by simp
  qed
next
  case (contexts_consume evs w c r w')
  show ?case
  proof (cases r)
    case (Inl e)
    then have "w' = w" using contexts_consume.hyps(2)
      by (auto simp: consumeOperationRequirementBindingContext_def split: if_splits option.splits)
    then show ?thesis using contexts_consume.IH Inl by simp
  next
    case (Inr p)
    then have "map_get (PROJECTION_BY_CONTEXT w) c = Some p" "c \<notin> set (CONSUMED_REQUIREMENT_BINDING_CONTEXTS w)"
      "w' = w\<lparr>CONSUMED_REQUIREMENT_BINDING_CONTEXTS := c # CONSUMED_REQUIREMENT_BINDING_CONTEXTS w\<rparr>"
      using contexts_consume.hyps(2)
      by (auto simp: consumeOperationRequirementBindingContext_def split: if_splits option.splits)
    then show ?thesis using contexts_consume.IH Inr by (auto simp: context_inv_def)
  qed
qed

text \<open>
  C31. Requirement contexts: in every sequence of calls, at most one context is ever given for one operation
  object and requirement, each context is consumed at most once, and the projection a worker obtains was given for a
  requirement of a bound operation through that requirement's own binding, with resource ceilings that are nonempty, unique by
  resource and each within the operation's budget for the resource, and a deadline that was in the future when it was
  given and is not after the attempt's.
\<close>

theorem requirement_context_narrowed:
  assumes "requirement_run hash evs w"
  shows "distinct (consumed_contexts evs) \<and>
     (\<forall>c p. Context_consumed c p \<in> set evs \<longrightarrow> given_narrowed evs c p) \<and>
     (\<forall>opref r operation c now operation' c' now'. Context_given opref operation r c now \<in> set evs \<and>
        Context_given opref operation' r c' now' \<in> set evs \<longrightarrow> c = c')"
proof (intro conjI allI impI)
  note inv = requirement_run_inv [OF assms, unfolded context_inv_def]
  show "distinct (consumed_contexts evs)" using inv by blast
  show "given_narrowed evs c p" if "Context_consumed c p \<in> set evs" for c p using inv that by blast
  show "c = c'" if "Context_given opref operation r c now \<in> set evs \<and> Context_given opref operation' r c' now' \<in> set evs"
    for opref r operation c now operation' c' now'
  proof -
    from inv that have "map_get (contexts_of w opref) r = Some c" "map_get (contexts_of w opref) r = Some c'" by blast+
    then show ?thesis by simp
  qed
qed

text \<open>A run over an operation with a budget: one context, consumed once.\<close>

definition sample_budget :: operation_budget where
  "sample_budget = \<lparr>bd_resource = ''records'', bd_maximum = 10\<rparr>"

definition budgeted_plan :: operation_plan where
  "budgeted_plan = sample_plan\<lparr>pl_execution := (pl_execution sample_plan)\<lparr>ep_aggregateBudgets := [sample_budget]\<rparr>\<rparr>"

definition budgeted_operation :: bound_operation where
  "budgeted_operation = sample_operation\<lparr>bo_plan := budgeted_plan\<rparr>"

definition budgeted_foundation :: foundation where
  "budgeted_foundation = sample_foundation\<lparr>COMPILED_OPERATION_PLANS := [budgeted_plan]\<rparr>"

lemma budgeted_parts: "canonical_parts ''sec.build'' sample_digest sample_digest [sample_budget] [sample_requirement ''sec.a'']"
  by code_simp

lemma budgeted_intent:
  "compileSemanticOperationIntent sample_hash ''sec.build'' sample_digest sample_digest [sample_budget] [sample_requirement ''sec.a''] =
     Inr \<lparr>in_identity = pl_identity budgeted_plan, in_execution = pl_execution budgeted_plan\<rparr>"
  unfolding compileIntent_iff using budgeted_parts by (simp add: intent_of_def budgeted_plan_def sample_plan_def)

lemma budgeted_run:
  "foundation_run sample_hash [Context_issued sample_context, Plan_compiled budgeted_plan] budgeted_foundation"
proof -
  have c: "issueSemanticOperationAttemptContext (replicate 64 CHR ''a'') sample_digest None (Some sample_digest) empty_foundation =
      (Inr sample_context, empty_foundation\<lparr>next_ref := 1, COMPILED_ATTEMPT_CONTEXTS := [sample_context]\<rparr>)"
    by (simp add: issueSemanticOperationAttemptContext_def requireDigest_def optional_digest_def empty_foundation_def
        sample_context_def sample_digest_def [simplified, symmetric])
  have p: "compileSemanticOperationPlan sample_hash ''sec.build'' sample_digest sample_digest 9 [sample_budget]
      [sample_requirement ''sec.a''] sample_context (empty_foundation\<lparr>next_ref := 1, COMPILED_ATTEMPT_CONTEXTS := [sample_context]\<rparr>) =
      (Inr budgeted_plan, budgeted_foundation)"
    by (simp add: compileSemanticOperationPlan_def budgeted_intent is_safe_integer_def sha256_digest budgeted_plan_def sample_plan_def
        sample_context_def budgeted_foundation_def sample_foundation_def empty_foundation_def)
  show ?thesis using run_plan [OF run_context [OF run_start c] p] by simp
qed

lemma budgeted_projection: "assertSemanticOperationProjection sample_hash budgeted_foundation budgeted_operation = Inr ()"
proof -
  have p: "budgeted_plan \<in> set (COMPILED_OPERATION_PLANS budgeted_foundation)" by (simp add: budgeted_foundation_def)
  have s: "plan_sound sample_hash budgeted_plan" using budgeted_run p by (rule foundation_plan_sound)
  have "is_operation_id ''sec.a''" by code_simp
  then have "bindSemanticOperation sample_hash budgeted_foundation budgeted_plan [sample_binding] = Inr budgeted_operation"
    using p s by (simp add: bindSemanticOperation_iff bound_of_def budgeted_operation_def sample_operation_def exactly_binds_iff
        sample_binding_def budgeted_plan_def sample_plan_def sample_requirement_def)
  with s show ?thesis by (rule bound_projection)
qed

definition sample_projection_value :: binding_projection where
  "sample_projection_value = \<lparr>bp_issuerRole = OPERATION_REQUIREMENT_BINDING_ISSUER_ROLE, bp_operationIdentityDigest = zero_digest,
     bp_executionPlanDigest = zero_digest, bp_boundAttemptDigest = zero_digest, bp_requirementId = ''sec.a'',
     bp_requirementContractDigest = sample_digest, bp_providerIdentityDigest = sample_digest,
     bp_providerBindingDigest = zero_digest, bp_absoluteDeadlineAtUnixMs = 9,
     bp_resourceCeilings = [\<lparr>bd_resource = ''records'', bd_maximum = 4\<rparr>], bp_resourceCeilingIdentityDigest = zero_digest,
     bp_contextDigest = zero_digest\<rparr>"

lemma finite_binding_payloads [simp]:
  "finite_json (ceiling_payload op r b d cs)" "finite_json (domain_payload n k (projection_payload p))"
  by (simp_all add: ceiling_payload_def domain_payload_def projection_payload_def finite_object list_all_iff
      del: finite_json.simps(3))

lemma sample_requirement_projection:
  "requirement_projection sample_hash 1 budgeted_foundation budgeted_operation ''sec.a''
     [\<lparr>bd_resource = ''records'', bd_maximum = 4\<rparr>] None = Inr sample_projection_value"
proof -
  have c: "canonicalResourceCeilings budgeted_operation [\<lparr>bd_resource = ''records'', bd_maximum = 4\<rparr>] =
      Inr [\<lparr>bd_resource = ''records'', bd_maximum = 4\<rparr>]"
    by (simp add: canonicalResourceCeilings_def canonical_ceiling_def isCanonicalOperationBudgetMaximum_def
        OPERATION_BUDGET_RESOURCES_def is_safe_integer_def budgeted_operation_def budgeted_plan_def sample_budget_def)
  have f: "ep_requirements (pl_execution (bo_plan budgeted_operation)) = [sorted_requirement (sample_requirement ''sec.a'')]"
    "bo_bindings budgeted_operation = [sample_binding]" "oa_deadlineAtUnixMs (pl_attempt (bo_plan budgeted_operation)) = 9"
    "oi_identityDigest (pl_identity (bo_plan budgeted_operation)) = zero_digest"
    "ep_executionPlanDigest (pl_execution (bo_plan budgeted_operation)) = zero_digest"
    "bo_boundAttemptDigest budgeted_operation = zero_digest"
    by (simp_all add: budgeted_operation_def budgeted_plan_def sample_operation_def sample_plan_def)
  show ?thesis
    unfolding requirement_projection_def budgeted_projection c f
    by (simp add: c f sample_requirement_def sample_binding_def is_safe_integer_def sha256_digest sample_projection_value_def)
qed

theorem requirement_context_narrowed_witness:
  "\<exists>w. requirement_run sample_hash [Context_given 0 budgeted_operation ''sec.a'' 0 1,
      Context_consumed 0 sample_projection_value] w \<and>
    given_narrowed [Context_given 0 budgeted_operation ''sec.a'' 0 1, Context_consumed 0 sample_projection_value]
      0 sample_projection_value"
proof -
  have "issueOperationRequirementBindingContext sample_hash 1 budgeted_foundation 0 budgeted_operation ''sec.a''
      [\<lparr>bd_resource = ''records'', bd_maximum = 4\<rparr>] None no_contexts = (Inr 0, no_contexts\<lparr>rw_next := 1,
        ISSUED_REQUIREMENT_BINDING_CONTEXTS := [0], PROJECTION_BY_CONTEXT := [(0, sample_projection_value)],
        CONTEXT_BY_OPERATION_REQUIREMENT := [(0, [(''sec.a'', 0)])]\<rparr>)" (is "_ = (_, ?w)")
    by (simp add: issueOperationRequirementBindingContext_def sample_requirement_projection no_contexts_def contexts_of_def
        map_set_def) (simp add: sample_projection_value_def)
  from contexts_issue [OF contexts_start budgeted_run this]
  have given: "requirement_run sample_hash [Context_given 0 budgeted_operation ''sec.a'' 0 1] ?w" by simp
  have "consumeOperationRequirementBindingContext 0 ?w =
      (Inr sample_projection_value, ?w\<lparr>CONSUMED_REQUIREMENT_BINDING_CONTEXTS := [0]\<rparr>)"
    by (simp add: consumeOperationRequirementBindingContext_def no_contexts_def map_get_def)
  from contexts_consume [OF given this]
  have run: "requirement_run sample_hash [Context_given 0 budgeted_operation ''sec.a'' 0 1,
      Context_consumed 0 sample_projection_value] (?w\<lparr>CONSUMED_REQUIREMENT_BINDING_CONTEXTS := [0]\<rparr>)" by simp
  with requirement_context_narrowed [OF run] show ?thesis by auto
qed

end
