(* ===== verification/ImpactRules.thy ===== *)
theory ImpactRules
  imports EngineeringIR
begin

text \<open>
  The index of an IR (\<^verbatim>\<open>src/src/compiler/ir/index-engineering-ir.ts\<close>) and the impact propagation rules
  (\<^verbatim>\<open>src/src/compiler/semantic-impact/propagation-rules.ts\<close>). The cache of indexes by object identity and the
  protection of its maps against mutation have no counterpart for values. A registry is the list of its own properties;
  the message and the details of its failures are not modelled beyond the predicate they name.
\<close>

section \<open>The index\<close>

record ir_index =
  entityById :: "(string, semantic_entity) jsmap"
  entitiesByKind :: "(semantic_entity_kind, semantic_entity list) jsmap"
  factById :: "(string, semantic_fact) jsmap"
  factsByPredicate :: "(semantic_predicate, semantic_fact list) jsmap"
  outgoingFactsBySubject :: "(string, semantic_fact list) jsmap"
  incomingFactsByEntityObject :: "(string, semantic_fact list) jsmap"

definition empty_index :: ir_index where
  "empty_index = \<lparr>entityById = [], entitiesByKind = [], factById = [], factsByPredicate = [],
     outgoingFactsBySubject = [], incomingFactsByEntityObject = []\<rparr>"

definition index_entity :: "semantic_entity \<Rightarrow> ir_index \<Rightarrow> ir_index" where
  "index_entity entity ix = ix\<lparr>entityById := map_set (ent_id entity) entity (entityById ix),
     entitiesByKind := map_push (ent_kind entity) entity (entitiesByKind ix)\<rparr>"

definition index_fact :: "semantic_fact \<Rightarrow> ir_index \<Rightarrow> ir_index" where
  "index_fact fct ix = ix\<lparr>factById := map_set (fact_id fct) fct (factById ix),
     factsByPredicate := map_push (fact_predicate fct) fct (factsByPredicate ix),
     outgoingFactsBySubject := map_push (fact_subject fct) fct (outgoingFactsBySubject ix),
     incomingFactsByEntityObject := (case fact_object fct of
        EntityRef e \<Rightarrow> map_push e fct (incomingFactsByEntityObject ix)
      | _ \<Rightarrow> incomingFactsByEntityObject ix)\<rparr>"

definition indexEngineeringIR :: "engineering_ir \<Rightarrow> ir_index" where
  "indexEngineeringIR ir = fold index_fact (facts ir) (fold index_entity (entities ir) empty_index)"

text \<open>A list in a map, with \<open>?? []\<close>.\<close>

definition list_at :: "('k, 'v list) jsmap \<Rightarrow> 'k \<Rightarrow> 'v list" where
  "list_at m k = (case map_get m k of None \<Rightarrow> [] | Some vs \<Rightarrow> vs)"

lemma list_at_Nil [simp]: "list_at [] k = []"
  by (simp add: list_at_def)

lemma list_at_push: "list_at (map_push k v m) k' = (if k' = k then list_at m k @ [v] else list_at m k')"
  by (simp add: list_at_def map_get_push)

lemma entities_keep_facts [simp]:
  "factById (fold index_entity es ix) = factById ix"
  "factsByPredicate (fold index_entity es ix) = factsByPredicate ix"
  "outgoingFactsBySubject (fold index_entity es ix) = outgoingFactsBySubject ix"
  "incomingFactsByEntityObject (fold index_entity es ix) = incomingFactsByEntityObject ix"
  by (induction es arbitrary: ix) (simp_all add: index_entity_def)

lemma facts_keep_entities [simp]:
  "entityById (fold index_fact fs ix) = entityById ix" "entitiesByKind (fold index_fact fs ix) = entitiesByKind ix"
  by (induction fs arbitrary: ix) (simp_all add: index_fact_def)

lemma fold_index_outgoing:
  "list_at (outgoingFactsBySubject (fold index_fact fs ix)) s =
     list_at (outgoingFactsBySubject ix) s @ filter (\<lambda>f. fact_subject f = s) fs"
  by (induction fs arbitrary: ix) (simp_all add: index_fact_def list_at_push)

lemma fold_index_incoming:
  "list_at (incomingFactsByEntityObject (fold index_fact fs ix)) e =
     list_at (incomingFactsByEntityObject ix) e @ filter (\<lambda>f. fact_object f = EntityRef e) fs"
  by (induction fs arbitrary: ix) (auto simp: index_fact_def list_at_push split: semantic_fact_object.split)

lemma fold_index_entities:
  "fst ` set (entityById (fold index_entity es ix)) = ent_id ` set es \<union> fst ` set (entityById ix)"
  by (induction es arbitrary: ix) (auto simp: index_entity_def)

lemma index_lookups:
  "list_at (outgoingFactsBySubject (indexEngineeringIR ir)) s = filter (\<lambda>f. fact_subject f = s) (facts ir)"
  "list_at (incomingFactsByEntityObject (indexEngineeringIR ir)) e = filter (\<lambda>f. fact_object f = EntityRef e) (facts ir)"
  "map_has (entityById (indexEngineeringIR ir)) i \<longleftrightarrow> i \<in> ent_id ` set (entities ir)"
  by (simp_all add: indexEngineeringIR_def fold_index_outgoing fold_index_incoming map_has_keys fold_index_entities
      empty_index_def)

section \<open>Rules\<close>

datatype rule_direction = SubjectToObject | ObjectToSubject

datatype impact_rule = EdgeRule rule_direction string | ValueStop | VerificationRule | UnknownRule | ReservedRule

fun direction_name :: "rule_direction \<Rightarrow> string" where
  "direction_name SubjectToObject = ''subject-to-object''"
| "direction_name ObjectToSubject = ''object-to-subject''"

definition impactPropagationRules :: "semantic_predicate \<Rightarrow> impact_rule" where
  "impactPropagationRules p = (case p of
     IMPLEMENTS \<Rightarrow> EdgeRule ObjectToSubject ''impact.implements.object-to-subject.v1''
   | DEPENDS_ON \<Rightarrow> EdgeRule ObjectToSubject ''impact.depends-on.object-to-subject.v1''
   | REQUIRES \<Rightarrow> EdgeRule ObjectToSubject ''impact.requires.object-to-subject.v1''
   | LOWERS_TO \<Rightarrow> EdgeRule SubjectToObject ''impact.lowers-to.subject-to-object.v1''
   | GUARANTEES \<Rightarrow> ValueStop
   | VERIFIED_BY \<Rightarrow> VerificationRule
   | ASSUMES \<Rightarrow> ReservedRule | CONNECTS_TO \<Rightarrow> ReservedRule | FORKS_TO \<Rightarrow> ReservedRule | JOINS \<Rightarrow> ReservedRule
   | DERIVES_FROM \<Rightarrow> ReservedRule | TRANSFORMS_TO \<Rightarrow> ReservedRule | VALIDATES \<Rightarrow> ReservedRule
   | SANITIZES \<Rightarrow> ReservedRule | SERIALIZES_AS \<Rightarrow> ReservedRule | DESERIALIZES_FROM \<Rightarrow> ReservedRule
   | PERSISTS_AS \<Rightarrow> ReservedRule | INITIALIZES \<Rightarrow> ReservedRule | DISPOSES \<Rightarrow> ReservedRule | ESCAPES \<Rightarrow> ReservedRule
   | CROSSES_BOUNDARY \<Rightarrow> ReservedRule | ORIGINATES_FROM \<Rightarrow> ReservedRule | VIOLATES \<Rightarrow> ReservedRule
   | _ \<Rightarrow> UnknownRule)"

definition IMPACT_PROPAGATION_RULES :: "(string \<times> impact_rule) list" where
  "IMPACT_PROPAGATION_RULES = map (\<lambda>p. (predicate_name p, impactPropagationRules p)) SEMANTIC_PREDICATES"

definition EXPECTED_EDGE_RULES :: "(semantic_predicate \<times> impact_rule) list" where
  "EXPECTED_EDGE_RULES = [
     (DEPENDS_ON, EdgeRule ObjectToSubject ''impact.depends-on.object-to-subject.v1''),
     (IMPLEMENTS, EdgeRule ObjectToSubject ''impact.implements.object-to-subject.v1''),
     (LOWERS_TO, EdgeRule SubjectToObject ''impact.lowers-to.subject-to-object.v1''),
     (REQUIRES, EdgeRule ObjectToSubject ''impact.requires.object-to-subject.v1'')]"

definition rule_failure :: "string list \<Rightarrow> failure" where
  "rule_failure args = CodedFailure ''IMPACT-003'' args"

definition rule_of :: "(string \<times> impact_rule) list \<Rightarrow> semantic_predicate \<Rightarrow> impact_rule" where
  "rule_of registry p = the (map_of registry (predicate_name p))"

definition is_edge :: "impact_rule \<Rightarrow> bool" where
  "is_edge r = (case r of EdgeRule _ _ \<Rightarrow> True | _ \<Rightarrow> False)"

text \<open>The body of the loop over the predicates, with the variant ids seen before.\<close>

definition check_rule ::
  "(string \<times> impact_rule) list \<Rightarrow> semantic_predicate \<Rightarrow> string list \<Rightarrow> string list result" where
  "check_rule registry p variantIds =
     (let rule = rule_of registry p; reserved = (case PREDICATE_SIGNATURE_REGISTRY p of Reserved _ \<Rightarrow> True | Active _ \<Rightarrow> False) in
      bind_r (throw_if (reserved \<and> rule \<noteq> ReservedRule) (rule_failure [predicate_name p])) (\<lambda>_.
      bind_r (throw_if (\<not> reserved \<and> rule = ReservedRule) (rule_failure [predicate_name p])) (\<lambda>_.
      case rule of
        EdgeRule _ variant \<Rightarrow>
          bind_r (throw_if (trim variant = [] \<or> variant \<in> set variantIds) (rule_failure [predicate_name p])) (\<lambda>_.
          Inr (variant # variantIds))
      | _ \<Rightarrow> Inr variantIds)))"

definition assertImpactPropagationRuleRegistry ::
  "(string \<times> impact_rule) list \<Rightarrow> unit result" where
  "assertImpactPropagationRuleRegistry registry =
     bind_r (throw_if (sort (map fst registry) \<noteq> sort (map predicate_name SEMANTIC_PREDICATES)) (rule_failure [])) (\<lambda>_.
     bind_r (fold_r (check_rule registry) SEMANTIC_PREDICATES []) (\<lambda>_.
     bind_r (check_all (\<lambda>(p, expected). throw_if (rule_of registry p \<noteq> expected) (rule_failure [predicate_name p]))
       EXPECTED_EDGE_RULES) (\<lambda>_.
     case find (\<lambda>p. is_edge (rule_of registry p) \<and> p \<notin> fst ` set EXPECTED_EDGE_RULES) SEMANTIC_PREDICATES of
       None \<Rightarrow> Inr ()
     | Some p \<Rightarrow> throw (rule_failure [predicate_name p]))))"

lemma builtin_rules: "assertImpactPropagationRuleRegistry IMPACT_PROPAGATION_RULES = Inr ()"
  by code_simp

lemma predicate_name_inj: "predicate_name p = predicate_name q \<Longrightarrow> p = q"
proof -
  have "distinct (map predicate_name SEMANTIC_PREDICATES)" by code_simp
  then have "inj_on predicate_name (set SEMANTIC_PREDICATES)" by (simp add: distinct_map)
  then show "predicate_name p = predicate_name q \<Longrightarrow> p = q" using in_SEMANTIC_PREDICATES by (auto dest: inj_onD)
qed

lemma rule_of_builtin: "rule_of IMPACT_PROPAGATION_RULES p = impactPropagationRules p"
proof -
  have "\<forall>p \<in> set SEMANTIC_PREDICATES. rule_of IMPACT_PROPAGATION_RULES p = impactPropagationRules p"
    by code_simp
  then show ?thesis using in_SEMANTIC_PREDICATES by blast
qed

end
