(* ===== verification/LayeredPaths.thy ===== *)
theory LayeredPaths
  imports Prelude
begin

text \<open>
  Shortest paths by layers, the reference for breadth-first searches. \<open>edges u\<close> is the set of steps that leave
  \<open>u\<close> and \<open>target\<close> the node a step leads to; a seed is an identifier with the node it anchors. The labels of a node at
  length \<open>k\<close> are all paths of \<open>k\<close> steps from an anchor to it, each with the identifier of its seed.
\<close>

fun labels :: "('v \<Rightarrow> 'x set) \<Rightarrow> ('x \<Rightarrow> 'v) \<Rightarrow> ('s \<times> 'v) set \<Rightarrow> nat \<Rightarrow> 'v \<Rightarrow> ('s \<times> 'x list) set" where
  "labels edges target seeds 0 v = {(s, []) | s. (s, v) \<in> seeds}"
| "labels edges target seeds (Suc k) v =
     {(s, p @ [x]) | s p x u. (s, p) \<in> labels edges target seeds k u \<and> x \<in> edges u \<and> target x = v}"

definition at_level :: "('v \<Rightarrow> 'x set) \<Rightarrow> ('x \<Rightarrow> 'v) \<Rightarrow> ('s \<times> 'v) set \<Rightarrow> nat \<Rightarrow> 'v \<Rightarrow> bool" where
  "at_level edges target seeds k v \<longleftrightarrow>
     labels edges target seeds k v \<noteq> {} \<and> (\<forall>j < k. labels edges target seeds j v = {})"

definition reached_by :: "('v \<Rightarrow> 'x set) \<Rightarrow> ('x \<Rightarrow> 'v) \<Rightarrow> ('s \<times> 'v) set \<Rightarrow> nat \<Rightarrow> 'v \<Rightarrow> bool" where
  "reached_by edges target seeds k v \<longleftrightarrow> (\<exists>j \<le> k. at_level edges target seeds j v)"

text \<open>The labels that some of the steps of a layer give.\<close>

definition extended ::
  "('v \<Rightarrow> 'x set) \<Rightarrow> ('x \<Rightarrow> 'v) \<Rightarrow> ('s \<times> 'v) set \<Rightarrow> nat \<Rightarrow> ('v \<times> 'x) set \<Rightarrow> 'v \<Rightarrow> ('s \<times> 'x list) set" where
  "extended edges target seeds k steps v =
     {(s, p @ [x]) | s p x u. (u, x) \<in> steps \<and> (s, p) \<in> labels edges target seeds k u \<and> target x = v}"

lemma label_length: "(s, p) \<in> labels edges target seeds k v \<Longrightarrow> length p = k"
  by (induction k arbitrary: v p) auto

lemma label_target: "(s, p) \<in> labels edges target seeds k v \<Longrightarrow> p \<noteq> [] \<Longrightarrow> target (last p) = v"
  by (cases k) auto

declare labels.simps [simp del]

lemma label_step:
  "(s, p) \<in> labels edges target seeds k u \<Longrightarrow> x \<in> edges u \<Longrightarrow> target x = v \<Longrightarrow>
     (s, p @ [x]) \<in> labels edges target seeds (Suc k) v"
  by (auto simp: labels.simps)

lemma at_level_unique: "at_level edges target seeds j v \<Longrightarrow> at_level edges target seeds k v \<Longrightarrow> j = k"
  by (metis at_level_def linorder_neqE_nat)

lemma labels_at_level:
  assumes k: "labels edges target seeds k v \<noteq> {}"
  shows "reached_by edges target seeds k v"
proof -
  let ?j = "LEAST j. labels edges target seeds j v \<noteq> {}"
  have "labels edges target seeds ?j v \<noteq> {}" using k by (rule LeastI)
  moreover have "?j \<le> k" using k by (rule Least_le)
  moreover have "\<forall>i < ?j. labels edges target seeds i v = {}" using not_less_Least by blast
  ultimately show ?thesis unfolding reached_by_def at_level_def by blast
qed

lemma reached_by_mono: "reached_by edges target seeds j v \<Longrightarrow> j \<le> k \<Longrightarrow> reached_by edges target seeds k v"
  unfolding reached_by_def using le_trans by blast

lemma not_reached_labels: "\<not> reached_by edges target seeds k v \<Longrightarrow> j \<le> k \<Longrightarrow> labels edges target seeds j v = {}"
  using labels_at_level reached_by_mono by metis

lemma reached_by_Suc:
  "reached_by edges target seeds (Suc k) v \<longleftrightarrow> reached_by edges target seeds k v \<or> at_level edges target seeds (Suc k) v"
  by (auto simp: reached_by_def le_Suc_eq)

lemma at_level_Suc_iff:
  "at_level edges target seeds (Suc k) v \<longleftrightarrow>
     \<not> reached_by edges target seeds k v \<and> labels edges target seeds (Suc k) v \<noteq> {}"
proof
  assume l: "at_level edges target seeds (Suc k) v"
  have "\<not> at_level edges target seeds j v" if "j \<le> k" for j using at_level_unique [OF l, of j] that by auto
  then show "\<not> reached_by edges target seeds k v \<and> labels edges target seeds (Suc k) v \<noteq> {}"
    using l unfolding reached_by_def at_level_def by blast
next
  assume "\<not> reached_by edges target seeds k v \<and> labels edges target seeds (Suc k) v \<noteq> {}"
  then show "at_level edges target seeds (Suc k) v"
    unfolding at_level_def less_Suc_eq_le using not_reached_labels [of edges target seeds k v] by auto
qed

text \<open>The steps that leave a layer give all labels of the nodes they reach first.\<close>

lemma source_at_level:
  assumes "\<not> reached_by edges target seeds k v" "(s, p) \<in> labels edges target seeds k u" "x \<in> edges u" "target x = v"
  shows "at_level edges target seeds k u"
proof (rule ccontr)
  assume "\<not> at_level edges target seeds k u"
  with assms(2) obtain j where j: "j < k" "labels edges target seeds j u \<noteq> {}" unfolding at_level_def by blast
  then obtain t q where "(t, q) \<in> labels edges target seeds j u" by (metis ex_in_conv surj_pair)
  then have "labels edges target seeds (Suc j) v \<noteq> {}" using label_step [of t q edges target seeds j u x v] assms(3,4) by blast
  then show False using not_reached_labels [OF assms(1), of "Suc j"] j(1) by simp
qed

lemma labels_from_layer:
  assumes "\<not> reached_by edges target seeds k v"
  shows "labels edges target seeds (Suc k) v =
    extended edges target seeds k {(u, x). at_level edges target seeds k u \<and> x \<in> edges u} v"
  unfolding extended_def labels.simps using source_at_level [OF assms] by blast

lemma layer_before: "at_level edges target seeds (Suc k) v \<Longrightarrow> \<exists>u. at_level edges target seeds k u"
  using labels_from_layer [of edges target seeds k v] unfolding at_level_Suc_iff extended_def by blast

lemma no_layer_after:
  assumes "\<And>u. \<not> at_level edges target seeds k u"
  shows "\<not> at_level edges target seeds (k + n) v"
proof (induction n arbitrary: v)
  case 0
  show ?case using assms by simp
next
  case (Suc n)
  show ?case using Suc layer_before [of edges target seeds "k + n" v] by auto
qed

lemma extended_insert:
  "extended edges target seeds k (insert (u, x) steps) v =
     extended edges target seeds k steps v \<union>
     (if target x = v then (\<lambda>(s, p). (s, p @ [x])) ` labels edges target seeds k u else {})"
  by (force simp: extended_def)

lemma extended_empty [simp]: "extended edges target seeds k {} v = {}"
  by (simp add: extended_def)

end
