(* ===== verification/ImpactTraversal.thy ===== *)
theory ImpactTraversal
  imports ImpactRules Canonical LayeredPaths "HOL-Library.Product_Lexorder"
begin

text \<open>
  The traversal of \<^verbatim>\<open>src/src/compiler/semantic-impact/build-impact-propagation.ts\<close>: from the entities that
  propagating seeds anchor, along the facts whose predicate has an edge rule, layer by layer, with the least path and
  all seeds at the least distance kept for each entity, and with the uncertainties noted on the way. The types are those
  of \<^verbatim>\<open>src/src/semantics/impact/types.ts\<close>. A seed is one record with the fields of all its variants, absent
  ones being \<open>None\<close>. The loop over frontiers is a partial function whose value is \<open>None\<close> where it does not return;
  a theorem shows that it always does.
\<close>

section \<open>Data\<close>

datatype impact_basis = FromBasis | ToBasis

definition BASIS_RANK :: "impact_basis \<Rightarrow> nat" where
  "BASIS_RANK b = (case b of FromBasis \<Rightarrow> 0 | ToBasis \<Rightarrow> 1)"

record impact_seed =
  sd_id :: string
  sd_kind :: string
  sd_basis :: impact_basis
  sd_entityId :: "string option"
  sd_factId :: "string option"
  sd_assertionId :: "string option"
  sd_anchorEntityId :: string
  sd_changedFields :: "string list option"

record propagating_seed =
  pg_seed :: impact_seed
  pg_propagates :: bool

record impact_path_step =
  ps_factId :: string
  ps_predicate :: semantic_predicate
  ps_ruleVariantId :: string
  ps_direction :: rule_direction
  ps_fromEntityId :: string
  ps_toEntityId :: string

record reach_state =
  rs_entityId :: string
  rs_distance :: nat
  rs_seedIds :: "string list"
  rs_canonicalSeedId :: string
  rs_canonicalPath :: "impact_path_step list"

record impact_uncertainty =
  ud_basis :: impact_basis
  ud_classification :: string
  ud_reasonCode :: string
  ud_boundaryEntityId :: "string option"
  ud_factId :: "string option"
  ud_predicate :: "semantic_predicate option"
  ud_seedIds :: "string list"
  ud_canonicalPath :: "impact_path_step list"

record uncertainty_draft = impact_uncertainty +
  ud_distance :: nat
  ud_canonicalSeedId :: string

type_synonym reach_states = "(string, reach_state) jsmap"
type_synonym uncertainties = "(string, uncertainty_draft) jsmap"

section \<open>Comparisons\<close>

fun compareStringArrays :: "string list \<Rightarrow> string list \<Rightarrow> int" where
  "compareStringArrays (l # ls) (r # rs) =
     (let comparison = compareCodeUnits l r in if comparison \<noteq> 0 then comparison else compareStringArrays ls rs)"
| "compareStringArrays ls rs = int (length ls) - int (length rs)"

definition pathStepTuple :: "impact_path_step \<Rightarrow> string list" where
  "pathStepTuple step = [predicate_name (ps_predicate step), ps_factId step, ps_ruleVariantId step,
     direction_name (ps_direction step), ps_fromEntityId step, ps_toEntityId step]"

fun comparePaths :: "impact_path_step list \<Rightarrow> impact_path_step list \<Rightarrow> int" where
  "comparePaths (l # ls) (r # rs) =
     (let comparison = compareStringArrays (pathStepTuple l) (pathStepTuple r) in
      if comparison \<noteq> 0 then comparison else comparePaths ls rs)"
| "comparePaths ls rs = int (length ls) - int (length rs)"

definition compareSeedPaths ::
  "string \<Rightarrow> impact_path_step list \<Rightarrow> string \<Rightarrow> impact_path_step list \<Rightarrow> int" where
  "compareSeedPaths leftSeedId leftPath rightSeedId rightPath =
     (let seedComparison = compareCodeUnits leftSeedId rightSeedId in
      if seedComparison \<noteq> 0 then seedComparison else comparePaths leftPath rightPath)"

definition nullish :: "string option \<Rightarrow> string" where
  "nullish v = (case v of None \<Rightarrow> [] | Some s \<Rightarrow> s)"

definition uncertaintyIdentity :: "'a impact_uncertainty_scheme \<Rightarrow> string list" where
  "uncertaintyIdentity u = [show_nat (BASIS_RANK (ud_basis u)), ud_classification u, ud_reasonCode u,
     nullish (ud_boundaryEntityId u), nullish (ud_factId u), nullish (map_option predicate_name (ud_predicate u))]"

section \<open>Uncertainties\<close>

definition addUncertainty :: "uncertainty_draft \<Rightarrow> uncertainties \<Rightarrow> uncertainties" where
  "addUncertainty draft uncertainties =
     (let key = stringify (JArray (map JString (uncertaintyIdentity draft)));
          fresh = map_set key (draft\<lparr>ud_seedIds := uniqueSorted (ud_seedIds draft)\<rparr>) uncertainties in
      case map_get uncertainties key of
        None \<Rightarrow> fresh
      | Some existing \<Rightarrow>
          if ud_distance draft < ud_distance existing then fresh
          else if ud_distance draft > ud_distance existing then uncertainties
          else let useDraftPath = compareSeedPaths (ud_canonicalSeedId draft) (ud_canonicalPath draft)
                     (ud_canonicalSeedId existing) (ud_canonicalPath existing) < 0 in
            map_set key (existing\<lparr>ud_seedIds := uniqueSorted (ud_seedIds existing @ ud_seedIds draft),
              ud_canonicalSeedId := (if useDraftPath then ud_canonicalSeedId draft else ud_canonicalSeedId existing),
              ud_canonicalPath := (if useDraftPath then ud_canonicalPath draft else ud_canonicalPath existing)\<rparr>) uncertainties)"

definition unknown_at :: "string \<Rightarrow> impact_basis \<Rightarrow> semantic_fact \<Rightarrow> string \<Rightarrow> string list \<Rightarrow> string \<Rightarrow> impact_path_step list \<Rightarrow> nat \<Rightarrow>
   uncertainty_draft" where
  "unknown_at reason basis fct boundary seedIds seedId path distance =
     \<lparr>ud_basis = basis, ud_classification = ''unknown'', ud_reasonCode = reason, ud_boundaryEntityId = Some boundary,
      ud_factId = Some (fact_id fct), ud_predicate = Some (fact_predicate fct), ud_seedIds = seedIds,
      ud_canonicalPath = path, ud_distance = distance, ud_canonicalSeedId = seedId\<rparr>"

definition nonDefiniteUncertainty ::
  "impact_basis \<Rightarrow> semantic_fact \<Rightarrow> string \<Rightarrow> string list \<Rightarrow> string \<Rightarrow> impact_path_step list \<Rightarrow> uncertainty_draft" where
  "nonDefiniteUncertainty basis fct boundaryEntityId seedIds canonicalSeedId canonicalPath =
     unknown_at ''non-definite-authority'' basis fct boundaryEntityId seedIds canonicalSeedId canonicalPath
       (length canonicalPath)"

text \<open>The drafts of \<open>edgeCandidates\<close> take seeds, path and distance from the state they are found at.\<close>

definition unknown_from :: "string \<Rightarrow> impact_basis \<Rightarrow> reach_state \<Rightarrow> semantic_fact \<Rightarrow> uncertainty_draft" where
  "unknown_from reason basis state fct = unknown_at reason basis fct (rs_entityId state) (rs_seedIds state)
     (rs_canonicalSeedId state) (rs_canonicalPath state) (rs_distance state)"

definition non_definite_from :: "impact_basis \<Rightarrow> reach_state \<Rightarrow> semantic_fact \<Rightarrow> uncertainty_draft" where
  "non_definite_from basis state fct = nonDefiniteUncertainty basis fct (rs_entityId state) (rs_seedIds state)
     (rs_canonicalSeedId state) (rs_canonicalPath state)"

definition hasDefiniteAuthority :: "semantic_fact \<Rightarrow> bool" where
  "hasDefiniteAuthority fct =
     list_ex (\<lambda>a. as_authority a = Authoritative \<or> as_authority a = Derived) (fact_assertions fct)"

section \<open>Edges\<close>

type_synonym edge_state = "impact_path_step list \<times> uncertainties"

definition step_of :: "semantic_fact \<Rightarrow> string \<Rightarrow> rule_direction \<Rightarrow> string \<Rightarrow> string \<Rightarrow> impact_path_step" where
  "step_of fct variant direction from to = \<lparr>ps_factId = fact_id fct, ps_predicate = fact_predicate fct,
     ps_ruleVariantId = variant, ps_direction = direction, ps_fromEntityId = from, ps_toEntityId = to\<rparr>"

text \<open>The bodies of the two loops.\<close>

definition outgoing_fact :: "impact_basis \<Rightarrow> reach_state \<Rightarrow> semantic_fact \<Rightarrow> edge_state \<Rightarrow> edge_state result" where
  "outgoing_fact basis state fct st = (case st of (candidates, unc) \<Rightarrow>
     (case impactPropagationRules (fact_predicate fct) of
        UnknownRule \<Rightarrow> Inr (candidates, addUncertainty (unknown_from ''unregistered-active-predicate'' basis state fct) unc)
      | ValueStop \<Rightarrow> Inr (candidates, addUncertainty
          (if hasDefiniteAuthority fct then unknown_from ''value-object-boundary'' basis state fct
           else non_definite_from basis state fct) unc)
      | EdgeRule SubjectToObject variant \<Rightarrow>
          (case fact_object fct of
             ValueObj _ \<Rightarrow> throw (CodedFailure ''IMPACT-003'' [variant, predicate_name (fact_predicate fct), fact_id fct])
           | EntityRef object \<Rightarrow>
               if \<not> hasDefiniteAuthority fct then Inr (candidates, addUncertainty (non_definite_from basis state fct) unc)
               else Inr (candidates @ [step_of fct variant SubjectToObject (rs_entityId state) object], unc))
      | _ \<Rightarrow> Inr (candidates, unc)))"

definition incoming_fact :: "impact_basis \<Rightarrow> reach_state \<Rightarrow> semantic_fact \<Rightarrow> edge_state \<Rightarrow> edge_state" where
  "incoming_fact basis state fct st = (case st of (candidates, unc) \<Rightarrow>
     (case impactPropagationRules (fact_predicate fct) of
        UnknownRule \<Rightarrow> (candidates, addUncertainty (unknown_from ''unregistered-active-predicate'' basis state fct) unc)
      | EdgeRule ObjectToSubject variant \<Rightarrow>
          if \<not> hasDefiniteAuthority fct then (candidates, addUncertainty (non_definite_from basis state fct) unc)
          else (candidates @ [step_of fct variant ObjectToSubject (rs_entityId state) (fact_subject fct)], unc)
      | _ \<Rightarrow> (candidates, unc)))"

definition edgeCandidates ::
  "impact_basis \<Rightarrow> reach_state \<Rightarrow> ir_index \<Rightarrow> uncertainties \<Rightarrow> edge_state result" where
  "edgeCandidates basis state ix unc =
     bind_r (fold_r (outgoing_fact basis state) (list_at (outgoingFactsBySubject ix) (rs_entityId state)) ([], unc)) (\<lambda>st.
     case fold (incoming_fact basis state) (list_at (incomingFactsByEntityObject ix) (rs_entityId state)) st of
       (candidates, unc) \<Rightarrow> Inr (sort_key pathStepTuple candidates, unc))"

section \<open>Traversal\<close>

text \<open>The flag tells whether the states changed.\<close>

definition mergeReachState :: "reach_states \<Rightarrow> string \<Rightarrow> reach_state \<Rightarrow> reach_states \<times> bool" where
  "mergeReachState states entityId candidate =
     (case map_get states entityId of
        None \<Rightarrow> (map_set entityId candidate states, True)
      | Some existing \<Rightarrow>
          if rs_distance candidate < rs_distance existing then (map_set entityId candidate states, True)
          else if rs_distance candidate > rs_distance existing then (states, False)
          else let seedIds = uniqueSorted (rs_seedIds existing @ rs_seedIds candidate);
                   betterPath = compareSeedPaths (rs_canonicalSeedId candidate) (rs_canonicalPath candidate)
                     (rs_canonicalSeedId existing) (rs_canonicalPath existing) < 0;
                   seedsChanged = compareStringArrays seedIds (rs_seedIds existing) \<noteq> 0 in
            if \<not> betterPath \<and> \<not> seedsChanged then (states, False)
            else (map_set entityId (existing\<lparr>rs_seedIds := seedIds,
                rs_canonicalSeedId := (if betterPath then rs_canonicalSeedId candidate else rs_canonicalSeedId existing),
                rs_canonicalPath := (if betterPath then rs_canonicalPath candidate else rs_canonicalPath existing)\<rparr>) states,
              True))"

definition seed_state :: "impact_seed \<Rightarrow> reach_state" where
  "seed_state seed = \<lparr>rs_entityId = sd_anchorEntityId seed, rs_distance = 0, rs_seedIds = [sd_id seed],
     rs_canonicalSeedId = sd_id seed, rs_canonicalPath = []\<rparr>"

definition seed_states :: "impact_basis \<Rightarrow> propagating_seed list \<Rightarrow> reach_states" where
  "seed_states basis seeds = fold (\<lambda>entry states.
     if sd_basis (pg_seed entry) \<noteq> basis \<or> \<not> pg_propagates entry then states
     else fst (mergeReachState states (sd_anchorEntityId (pg_seed entry)) (seed_state (pg_seed entry)))) seeds []"

text \<open>The comparator of a frontier: distance, seed, path, entity.\<close>

definition frontier_key :: "reach_states \<Rightarrow> string \<Rightarrow> nat \<times> string \<times> string list list \<times> string" where
  "frontier_key states entityId = (let state = the (map_get states entityId) in
     (rs_distance state, rs_canonicalSeedId state, map pathStepTuple (rs_canonicalPath state), entityId))"

type_synonym round_state = "reach_states \<times> string list \<times> uncertainties"

definition extend_state :: "reach_state \<Rightarrow> impact_path_step \<Rightarrow> reach_state" where
  "extend_state state step = \<lparr>rs_entityId = ps_toEntityId step, rs_distance = rs_distance state + 1,
     rs_seedIds = rs_seedIds state, rs_canonicalSeedId = rs_canonicalSeedId state,
     rs_canonicalPath = rs_canonicalPath state @ [step]\<rparr>"

definition visit_step :: "ir_index \<Rightarrow> reach_state \<Rightarrow> impact_path_step \<Rightarrow> round_state \<Rightarrow> round_state result" where
  "visit_step ix state step rnd = (case rnd of (states, nextFrontier, unc) \<Rightarrow>
     bind_r (throw_if (\<not> map_has (entityById ix) (ps_toEntityId step))
       (CodedFailure ''IMPACT-006'' [ps_toEntityId step, ps_factId step])) (\<lambda>_.
     case mergeReachState states (ps_toEntityId step) (extend_state state step) of (states, changed) \<Rightarrow>
       Inr (states, if changed \<and> ps_toEntityId step \<notin> set nextFrontier then nextFrontier @ [ps_toEntityId step]
         else nextFrontier, unc)))"

definition visit_entity :: "impact_basis \<Rightarrow> ir_index \<Rightarrow> string \<Rightarrow> round_state \<Rightarrow> round_state result" where
  "visit_entity basis ix entityId rnd = (case rnd of (states, nextFrontier, unc) \<Rightarrow>
     let state = the (map_get states entityId) in
     bind_r (edgeCandidates basis state ix unc) (\<lambda>(steps, unc).
     fold_r (visit_step ix state) steps (states, nextFrontier, unc)))"

definition visit_frontier :: "impact_basis \<Rightarrow> ir_index \<Rightarrow> string list \<Rightarrow> reach_states \<Rightarrow> uncertainties \<Rightarrow> round_state result" where
  "visit_frontier basis ix frontier states unc =
     fold_r (visit_entity basis ix) (sort_key (frontier_key states) frontier) (states, [], unc)"

partial_function (option) visit_rounds ::
  "impact_basis \<Rightarrow> ir_index \<Rightarrow> string list \<Rightarrow> reach_states \<Rightarrow> uncertainties \<Rightarrow> (reach_states \<times> uncertainties) result option" where
  "visit_rounds basis ix frontier states unc =
     (if frontier = [] then Some (Inr (states, unc))
      else case visit_frontier basis ix frontier states unc of
        Inl e \<Rightarrow> Some (Inl e)
      | Inr (states', nextFrontier, unc') \<Rightarrow> visit_rounds basis ix nextFrontier states' unc')"

declare visit_rounds.simps [code]

definition traverseBasis ::
  "impact_basis \<Rightarrow> propagating_seed list \<Rightarrow> ir_index \<Rightarrow> uncertainties \<Rightarrow> (reach_states \<times> uncertainties) result option" where
  "traverseBasis basis seeds ix unc =
     (let states = seed_states basis seeds in visit_rounds basis ix (map fst states) states unc)"

section \<open>The comparators are linear orders\<close>

lemma compareCodeUnits_sign [simp]: "compareCodeUnits l r < 0 \<longleftrightarrow> l < r" "compareCodeUnits l r = 0 \<longleftrightarrow> l = r"
  by (auto simp: compareCodeUnits_def)

lemma Nil_less_iff [simp]: "([] :: 'a :: linorder list) < xs \<longleftrightarrow> xs \<noteq> []"
  by (cases xs) auto

lemma compareStringArrays_sign [simp]:
  "compareStringArrays l r < 0 \<longleftrightarrow> l < r" "compareStringArrays l r = 0 \<longleftrightarrow> l = r"
proof (induction l r rule: compareStringArrays.induct)
  case (1 l ls r rs)
  {
    case 1
    then show ?case using "1.IH" by (auto simp: Let_def)
  next
    case 2
    then show ?case using "1.IH" by (auto simp: Let_def)
  }
qed auto

definition path_key :: "impact_path_step list \<Rightarrow> string list list" where
  "path_key path = map pathStepTuple path"

lemma comparePaths_sign:
  "comparePaths l r < 0 \<longleftrightarrow> path_key l < path_key r" "comparePaths l r = 0 \<longleftrightarrow> path_key l = path_key r"
proof (induction l r rule: comparePaths.induct)
  case (1 l ls r rs)
  {
    case 1
    then show ?case using "1.IH" by (auto simp: Let_def path_key_def)
  next
    case 2
    then show ?case using "1.IH" by (auto simp: Let_def path_key_def)
  }
qed (auto simp: path_key_def)

definition label_key :: "string \<times> impact_path_step list \<Rightarrow> string \<times> string list list" where
  "label_key l = (fst l, path_key (snd l))"

lemma compareSeedPaths_sign: "compareSeedPaths s p t q < 0 \<longleftrightarrow> label_key (s, p) < label_key (t, q)"
  by (auto simp: compareSeedPaths_def label_key_def comparePaths_sign)

lemma direction_name_inj [simp]: "direction_name d = direction_name e \<longleftrightarrow> d = e"
  by (cases d; cases e) auto

lemma pathStepTuple_inj [simp]: "pathStepTuple a = pathStepTuple b \<longleftrightarrow> a = b"
  by (cases a; cases b) (auto simp: pathStepTuple_def dest: predicate_name_inj)

lemma label_key_inj: "label_key l = label_key m \<longleftrightarrow> l = m"
proof -
  have "inj pathStepTuple" by (auto intro: injI)
  then show ?thesis by (cases l; cases m) (auto simp: label_key_def path_key_def inj_map_eq_map)
qed

section \<open>States as sets of labels\<close>

text \<open>A state stands for all its seeds and for the least of its paths.\<close>

definition represents :: "string \<Rightarrow> reach_state \<Rightarrow> nat \<Rightarrow> (string \<times> impact_path_step list) set \<Rightarrow> bool" where
  "represents v st k T \<longleftrightarrow> rs_entityId st = v \<and> rs_distance st = k \<and> finite T \<and>
     rs_seedIds st = sorted_list_of_set (fst ` T) \<and> (rs_canonicalSeedId st, rs_canonicalPath st) \<in> T \<and>
     (\<forall>l \<in> T. label_key (rs_canonicalSeedId st, rs_canonicalPath st) \<le> label_key l)"

lemma represents_unique: "represents v st k T \<Longrightarrow> represents v st' k T \<Longrightarrow> st = st'"
proof -
  assume r: "represents v st k T" "represents v st' k T"
  then have "label_key (rs_canonicalSeedId st, rs_canonicalPath st) = label_key (rs_canonicalSeedId st', rs_canonicalPath st')"
    by (intro order_antisym) (auto simp: represents_def)
  then show ?thesis using r by (cases st; cases st') (auto simp: represents_def label_key_inj)
qed

lemma uniqueSorted_set: "uniqueSorted xs = sorted_list_of_set (set xs)"
  by (rule sorted_distinct_set_unique) (simp_all add: uniqueSorted_def)

lemma append_same_le:
  "length xs = length ys \<Longrightarrow> (xs :: 'a :: linorder list) \<le> ys \<Longrightarrow> xs @ zs \<le> ys @ zs"
  by (induction xs ys rule: list_induct2) auto

lemma represents_extend:
  assumes r: "represents u st k T" and len: "\<And>s p. (s, p) \<in> T \<Longrightarrow> length p = k"
  shows "represents (ps_toEntityId x) (extend_state st x) (Suc k) ((\<lambda>(s, p). (s, p @ [x])) ` T)"
proof -
  have "label_key (rs_canonicalSeedId st, rs_canonicalPath st @ [x]) \<le> label_key (s, p @ [x])" if "(s, p) \<in> T" for s p
  proof -
    have "label_key (rs_canonicalSeedId st, rs_canonicalPath st) \<le> label_key (s, p)" using r that by (auto simp: represents_def)
    moreover have "length (rs_canonicalPath st) = length p" using r that len by (auto simp: represents_def)
    ultimately show ?thesis
      using append_same_le [of "path_key (rs_canonicalPath st)" "path_key p" "[pathStepTuple x]"]
      by (auto simp: label_key_def path_key_def)
  qed
  moreover have "fst ` (\<lambda>(s, p). (s, p @ [x])) ` T = fst ` T" by (force simp: image_image)
  ultimately show ?thesis using r by (auto simp: represents_def extend_state_def)
qed

lemma merge_new:
  "map_get states v = None \<Longrightarrow> mergeReachState states v c = (map_set v c states, True)"
  by (simp add: mergeReachState_def)

lemma merge_farther:
  "map_get states v = Some st \<Longrightarrow> rs_distance st < rs_distance c \<Longrightarrow> mergeReachState states v c = (states, False)"
  by (simp add: mergeReachState_def)

lemma merge_same_distance:
  assumes st: "map_get states v = Some st" "represents v st k S" and c: "represents v c k T"
  obtains st' changed where "represents v st' k (S \<union> T)"
    "mergeReachState states v c = (if changed then map_set v st' states else states, changed)" "changed \<or> st' = st"
proof -
  let ?seedIds = "uniqueSorted (rs_seedIds st @ rs_seedIds c)"
  let ?better = "compareSeedPaths (rs_canonicalSeedId c) (rs_canonicalPath c) (rs_canonicalSeedId st) (rs_canonicalPath st) < 0"
  let ?st' = "st\<lparr>rs_seedIds := ?seedIds,
      rs_canonicalSeedId := (if ?better then rs_canonicalSeedId c else rs_canonicalSeedId st),
      rs_canonicalPath := (if ?better then rs_canonicalPath c else rs_canonicalPath st)\<rparr>"
  have "set (rs_seedIds st @ rs_seedIds c) = fst ` (S \<union> T)" using st c by (auto simp: represents_def)
  then have ids: "?seedIds = sorted_list_of_set (fst ` (S \<union> T))" by (simp only: uniqueSorted_set)
  have rep: "represents v ?st' k (S \<union> T)"
  proof (cases ?better)
    case True
    then have "label_key (rs_canonicalSeedId c, rs_canonicalPath c) < label_key (rs_canonicalSeedId st, rs_canonicalPath st)"
      by (simp only: compareSeedPaths_sign)
    then show ?thesis using st c ids True by (fastforce simp: represents_def)
  next
    case False
    then have "label_key (rs_canonicalSeedId st, rs_canonicalPath st) \<le> label_key (rs_canonicalSeedId c, rs_canonicalPath c)"
      by (simp only: compareSeedPaths_sign not_less)
    then show ?thesis using st c ids False by (fastforce simp: represents_def)
  qed
  show thesis
  proof (cases "\<not> ?better \<and> ?seedIds = rs_seedIds st")
    case True
    then have "?st' = st" by simp
    then show ?thesis using that [of ?st' False] rep st c True by (simp add: mergeReachState_def represents_def)
  next
    case False
    then show ?thesis using that [of ?st' True] rep st c by (simp add: mergeReachState_def represents_def Let_def)
  qed
qed

section \<open>Edges\<close>

definition impact_edges :: "ir_index \<Rightarrow> string \<Rightarrow> impact_path_step set" where
  "impact_edges ix u =
     {step_of f variant SubjectToObject u e | f variant e. f \<in> set (list_at (outgoingFactsBySubject ix) u) \<and>
        impactPropagationRules (fact_predicate f) = EdgeRule SubjectToObject variant \<and> hasDefiniteAuthority f \<and>
        fact_object f = EntityRef e} \<union>
     {step_of f variant ObjectToSubject u (fact_subject f) | f variant. f \<in> set (list_at (incomingFactsByEntityObject ix) u) \<and>
        impactPropagationRules (fact_predicate f) = EdgeRule ObjectToSubject variant \<and> hasDefiniteAuthority f}"

abbreviation impact_labels :: "ir_index \<Rightarrow> (string \<times> string) set \<Rightarrow> nat \<Rightarrow> string \<Rightarrow> (string \<times> impact_path_step list) set" where
  "impact_labels ix \<equiv> labels (impact_edges ix) ps_toEntityId"

abbreviation impact_level :: "ir_index \<Rightarrow> (string \<times> string) set \<Rightarrow> nat \<Rightarrow> string \<Rightarrow> bool" where
  "impact_level ix \<equiv> at_level (impact_edges ix) ps_toEntityId"

abbreviation impact_reached :: "ir_index \<Rightarrow> (string \<times> string) set \<Rightarrow> nat \<Rightarrow> string \<Rightarrow> bool" where
  "impact_reached ix \<equiv> reached_by (impact_edges ix) ps_toEntityId"

abbreviation impact_extended ::
  "ir_index \<Rightarrow> (string \<times> string) set \<Rightarrow> nat \<Rightarrow> (string \<times> impact_path_step) set \<Rightarrow> string \<Rightarrow> (string \<times> impact_path_step list) set" where
  "impact_extended ix \<equiv> extended (impact_edges ix) ps_toEntityId"

lemma outgoing_facts_edges:
  "fold_r (outgoing_fact basis st) fs (cs, unc) = Inr (cs', unc') \<Longrightarrow> set cs' = set cs \<union>
     {step_of f variant SubjectToObject (rs_entityId st) e | f variant e. f \<in> set fs \<and>
        impactPropagationRules (fact_predicate f) = EdgeRule SubjectToObject variant \<and> hasDefiniteAuthority f \<and>
        fact_object f = EntityRef e}"
proof (induction fs arbitrary: cs unc)
  case (Cons f fs)
  then obtain cs1 unc1 where one: "outgoing_fact basis st f (cs, unc) = Inr (cs1, unc1)"
    and rest: "fold_r (outgoing_fact basis st) fs (cs1, unc1) = Inr (cs', unc')" by auto
  have "set cs1 = set cs \<union> {step_of f variant SubjectToObject (rs_entityId st) e | variant e.
        impactPropagationRules (fact_predicate f) = EdgeRule SubjectToObject variant \<and> hasDefiniteAuthority f \<and>
        fact_object f = EntityRef e}"
    using one by (auto simp: outgoing_fact_def throw_def
        split: impact_rule.splits rule_direction.splits semantic_fact_object.splits if_splits)
  then show ?case using Cons.IH [OF rest] by auto
qed simp

lemma incoming_facts_edges:
  "fold (incoming_fact basis st) fs (cs, unc) = (cs', unc') \<Longrightarrow> set cs' = set cs \<union>
     {step_of f variant ObjectToSubject (rs_entityId st) (fact_subject f) | f variant. f \<in> set fs \<and>
        impactPropagationRules (fact_predicate f) = EdgeRule ObjectToSubject variant \<and> hasDefiniteAuthority f}"
proof (induction fs arbitrary: cs unc)
  case (Cons f fs)
  obtain cs1 unc1 where one: "incoming_fact basis st f (cs, unc) = (cs1, unc1)" by fastforce
  then have rest: "fold (incoming_fact basis st) fs (cs1, unc1) = (cs', unc')" using Cons.prems by simp
  have "set cs1 = set cs \<union> {step_of f variant ObjectToSubject (rs_entityId st) (fact_subject f) | variant.
        impactPropagationRules (fact_predicate f) = EdgeRule ObjectToSubject variant \<and> hasDefiniteAuthority f}"
    using one by (auto simp: incoming_fact_def split: impact_rule.splits rule_direction.splits if_splits)
  then show ?case using Cons.IH [OF rest] by auto
qed simp

lemma edgeCandidates_edges:
  assumes "edgeCandidates basis st ix unc = Inr (cs, unc')"
  shows "set cs = impact_edges ix (rs_entityId st)"
proof -
  obtain cs1 unc1 where out: "fold_r (outgoing_fact basis st) (list_at (outgoingFactsBySubject ix) (rs_entityId st)) ([], unc) = Inr (cs1, unc1)"
    using assms by (auto simp: edgeCandidates_def)
  obtain cs2 unc2 where inc: "fold (incoming_fact basis st) (list_at (incomingFactsByEntityObject ix) (rs_entityId st)) (cs1, unc1) = (cs2, unc2)"
    by fastforce
  have "set cs = set cs2" using assms out inc by (auto simp: edgeCandidates_def)
  then show ?thesis using outgoing_facts_edges [OF out] incoming_facts_edges [OF inc] by (simp add: impact_edges_def)
qed

section \<open>Rounds\<close>

definition layer_inv :: "ir_index \<Rightarrow> (string \<times> string) set \<Rightarrow> nat \<Rightarrow> reach_states \<Rightarrow> bool" where
  "layer_inv ix S k states \<longleftrightarrow> (\<forall>v j. j \<le> k \<longrightarrow> impact_level ix S j v \<longrightarrow>
     (\<exists>st. map_get states v = Some st \<and> represents v st j (impact_labels ix S j v)))"

definition next_state :: "ir_index \<Rightarrow> (string \<times> string) set \<Rightarrow> nat \<Rightarrow> (string \<times> impact_path_step) set \<Rightarrow> reach_states \<Rightarrow> string \<Rightarrow> bool" where
  "next_state ix S k D states v \<longleftrightarrow>
     (if impact_extended ix S k D v = {} then map_get states v = None
      else \<exists>st. map_get states v = Some st \<and> represents v st (Suc k) (impact_extended ix S k D v))"

text \<open>Within a round: \<open>D\<close> are the steps taken so far, each with the entity it leaves.\<close>

definition round_inv ::
  "ir_index \<Rightarrow> (string \<times> string) set \<Rightarrow> nat \<Rightarrow> (string \<times> impact_path_step) set \<Rightarrow> reach_states \<Rightarrow> string list \<Rightarrow> bool" where
  "round_inv ix S k D states next \<longleftrightarrow> layer_inv ix S k states \<and>
     (\<forall>v. \<not> impact_reached ix S k v \<longrightarrow> next_state ix S k D states v) \<and>
     set next = {v. \<not> impact_reached ix S k v \<and> impact_extended ix S k D v \<noteq> {}} \<and>
     set next \<subseteq> fst ` set (entityById ix)"

lemma layer_inv_update:
  "layer_inv ix S k states \<Longrightarrow> \<not> impact_reached ix S k v \<Longrightarrow> layer_inv ix S k (map_set v st states)"
  unfolding layer_inv_def reached_by_def by auto

lemma reached_distance:
  assumes "layer_inv ix S k states" "impact_reached ix S k v"
  obtains st where "map_get states v = Some st" "rs_distance st \<le> k"
  using assms unfolding layer_inv_def reached_by_def represents_def by metis

lemma extended_one:
  "v \<noteq> ps_toEntityId x \<Longrightarrow> impact_extended ix S k (insert (u, x) D) v = impact_extended ix S k D v"
  by (simp add: extended_insert)

lemma next_state_other:
  "v \<noteq> ps_toEntityId x \<Longrightarrow> map_get states' v = map_get states v \<Longrightarrow>
     next_state ix S k (insert (u, x) D) states' v \<longleftrightarrow> next_state ix S k D states v"
  by (simp add: next_state_def extended_one)

text \<open>The effect of one step on the state of its target, when the target was not reached before this round.\<close>

lemma merge_next:
  assumes "next_state ix S k D states v" and c: "represents v c (Suc k) T" and T: "T \<noteq> {}"
    and ext: "impact_extended ix S k D' v = impact_extended ix S k D v \<union> T"
    and m: "mergeReachState states v c = (states', changed)"
  shows "next_state ix S k D' states' v" "\<And>w. w \<noteq> v \<Longrightarrow> map_get states' w = map_get states w"
    "\<exists>st. states' = map_set v st states \<or> states' = states" "impact_extended ix S k D v = {} \<Longrightarrow> changed"
proof -
  have "next_state ix S k D' states' v \<and> (\<forall>w. w \<noteq> v \<longrightarrow> map_get states' w = map_get states w) \<and>
      (\<exists>st. states' = map_set v st states \<or> states' = states) \<and> (impact_extended ix S k D v = {} \<longrightarrow> changed)"
  proof (cases "impact_extended ix S k D v = {}")
    case True
    then have "states' = map_set v c states" "changed" using assms(1) m merge_new [of states v c] by (auto simp: next_state_def)
    then show ?thesis using True c T ext by (auto simp: next_state_def)
  next
    case False
    then obtain st where st: "map_get states v = Some st" "represents v st (Suc k) (impact_extended ix S k D v)"
      using assms(1) by (auto simp: next_state_def)
    from merge_same_distance [OF st c] obtain st' b where "represents v st' (Suc k) (impact_extended ix S k D v \<union> T)"
      "mergeReachState states v c = (if b then map_set v st' states else states, b)" "b \<or> st' = st" .
    then show ?thesis using False st m ext by (cases b) (auto simp: next_state_def)
  qed
  then show "next_state ix S k D' states' v" "\<And>w. w \<noteq> v \<Longrightarrow> map_get states' w = map_get states w"
    "\<exists>st. states' = map_set v st states \<or> states' = states" "impact_extended ix S k D v = {} \<Longrightarrow> changed"
    by blast+
qed

lemma visit_step_inv:
  assumes inv: "round_inv ix S k D states next" and u: "represents u st k (impact_labels ix S k u)"
    and v: "visit_step ix st x (states, next, unc) = Inr (states', next', unc')"
  shows "round_inv ix S k (insert (u, x) D) states' next' \<and> unc' = unc"
proof -
  let ?v = "ps_toEntityId x" and ?T = "(\<lambda>(s, p). (s, p @ [x])) ` impact_labels ix S k u"
  obtain changed where m: "mergeReachState states ?v (extend_state st x) = (states', changed)"
    and n: "next' = (if changed \<and> ?v \<notin> set next then next @ [?v] else next)" "unc' = unc"
    and mem: "?v \<in> fst ` set (entityById ix)"
    using v by (auto simp: visit_step_def map_has_keys split: prod.splits)
  have c: "represents ?v (extend_state st x) (Suc k) ?T"
    using represents_extend [OF u] label_length by metis
  have T: "?T \<noteq> {}" using u by (auto simp: represents_def)
  have ext: "impact_extended ix S k (insert (u, x) D) ?v = impact_extended ix S k D ?v \<union> ?T"
    by (simp add: extended_insert)
  have layer: "layer_inv ix S k states" using inv by (simp add: round_inv_def)
  show ?thesis
  proof (cases "impact_reached ix S k ?v")
    case True
    then obtain old where "map_get states ?v = Some old" "rs_distance old \<le> k" using reached_distance [OF layer] by metis
    then have same: "states' = states" "next' = next" using c m n merge_farther [of states ?v old "extend_state st x"]
      by (auto simp: represents_def)
    have other: "w \<noteq> ?v" if "\<not> impact_reached ix S k w" for w using True that by auto
    then have eq: "impact_extended ix S k (insert (u, x) D) w = impact_extended ix S k D w" if "\<not> impact_reached ix S k w" for w
      using that extended_one by metis
    have coll: "{w. \<not> impact_reached ix S k w \<and> impact_extended ix S k (insert (u, x) D) w \<noteq> {}} =
        {w. \<not> impact_reached ix S k w \<and> impact_extended ix S k D w \<noteq> {}}"
      by (intro Collect_cong conj_cong) (simp_all add: eq)
    have "\<forall>w. \<not> impact_reached ix S k w \<longrightarrow> next_state ix S k (insert (u, x) D) states w"
      using inv by (simp add: round_inv_def next_state_def eq)
    then show ?thesis using inv n(2) unfolding same round_inv_def coll by (elim conjE, intro conjI)
  next
    case False
    then have ns: "next_state ix S k D states ?v" using inv by (simp add: round_inv_def)
    note merged = merge_next [OF ns c T ext m]
    have "layer_inv ix S k states'" using merged(3) layer layer_inv_update [OF layer False] by auto
    moreover have "next_state ix S k (insert (u, x) D) states' w" if "\<not> impact_reached ix S k w" for w
      using merged(1) next_state_other [of w x states' states] merged(2) inv that by (cases "w = ?v") (auto simp: round_inv_def)
    moreover have "set next' = {w. \<not> impact_reached ix S k w \<and> impact_extended ix S k (insert (u, x) D) w \<noteq> {}}"
    proof -
      have new: "set next' = insert ?v (set next)"
        using n(1) inv merged(4) False by (auto simp: round_inv_def)
      have "impact_extended ix S k (insert (u, x) D) w \<noteq> {} \<longleftrightarrow> w = ?v \<or> impact_extended ix S k D w \<noteq> {}" for w
        using ext T extended_one [of w x] by (cases "w = ?v") auto
      then show ?thesis using new inv False by (auto simp: round_inv_def)
    qed
    moreover have "set next' \<subseteq> fst ` set (entityById ix)" using n(1) inv mem by (auto simp: round_inv_def)
    ultimately show ?thesis using n(2) by (simp add: round_inv_def)
  qed
qed

lemma visit_steps_inv:
  assumes "represents u st k (impact_labels ix S k u)"
  shows "round_inv ix S k D states next \<Longrightarrow> fold_r (visit_step ix st) xs (states, next, unc) = Inr (states', next', unc') \<Longrightarrow>
    round_inv ix S k (D \<union> {u} \<times> set xs) states' next' \<and> unc' = unc"
proof (induction xs arbitrary: D states "next" unc)
  case (Cons x xs)
  obtain states1 next1 unc1 where one: "visit_step ix st x (states, next, unc) = Inr (states1, next1, unc1)"
    and rest: "fold_r (visit_step ix st) xs (states1, next1, unc1) = Inr (states', next', unc')"
    using Cons.prems(2) by auto
  note step = visit_step_inv [OF Cons.prems(1) assms one]
  have "insert (u, x) D \<union> {u} \<times> set xs = D \<union> {u} \<times> set (x # xs)" by auto
  then show ?case using Cons.IH [of "insert (u, x) D", OF _ rest] step by auto
qed simp

lemma visit_entity_inv:
  assumes inv: "round_inv ix S k D states next" and u: "impact_level ix S k u"
    and v: "visit_entity basis ix u (states, next, unc) = Inr (states', next', unc')"
  shows "round_inv ix S k (D \<union> {u} \<times> impact_edges ix u) states' next'"
proof -
  obtain st where st: "map_get states u = Some st" "represents u st k (impact_labels ix S k u)"
    using inv u unfolding round_inv_def layer_inv_def by blast
  then obtain steps unc1 where steps: "edgeCandidates basis st ix unc = Inr (steps, unc1)"
    and f: "fold_r (visit_step ix st) steps (states, next, unc1) = Inr (states', next', unc')"
    using v by (auto simp: visit_entity_def)
  have "set steps = impact_edges ix u" using edgeCandidates_edges [OF steps] st(2) by (simp add: represents_def)
  then show ?thesis using visit_steps_inv [OF st(2) inv f] by simp
qed

lemma visit_entities_inv:
  "round_inv ix S k D states next \<Longrightarrow> (\<And>u. u \<in> set us \<Longrightarrow> impact_level ix S k u) \<Longrightarrow>
     fold_r (visit_entity basis ix) us (states, next, unc) = Inr (states', next', unc') \<Longrightarrow>
     round_inv ix S k (D \<union> (SIGMA u : set us. impact_edges ix u)) states' next'"
proof (induction us arbitrary: D states "next" unc)
  case (Cons u us)
  obtain states1 next1 unc1 where one: "visit_entity basis ix u (states, next, unc) = Inr (states1, next1, unc1)"
    and rest: "fold_r (visit_entity basis ix) us (states1, next1, unc1) = Inr (states', next', unc')"
    using Cons.prems(3) by auto
  have "round_inv ix S k (D \<union> {u} \<times> impact_edges ix u) states1 next1"
    using visit_entity_inv [OF Cons.prems(1) _ one] Cons.prems(2) by simp
  from Cons.IH [OF this _ rest] Cons.prems(2)
  have "round_inv ix S k (D \<union> {u} \<times> impact_edges ix u \<union> (SIGMA u : set us. impact_edges ix u)) states' next'" by simp
  moreover have "D \<union> {u} \<times> impact_edges ix u \<union> (SIGMA u : set us. impact_edges ix u) = D \<union> (SIGMA u : set (u # us). impact_edges ix u)"
    by auto
  ultimately show ?case by simp
qed simp

text \<open>Between rounds: exactly the entities within \<open>k\<close> steps have a state, and the frontier is the last layer.\<close>

definition frontier_inv :: "ir_index \<Rightarrow> (string \<times> string) set \<Rightarrow> nat \<Rightarrow> reach_states \<Rightarrow> string list \<Rightarrow> bool" where
  "frontier_inv ix S k states frontier \<longleftrightarrow> layer_inv ix S k states \<and>
     (\<forall>v. \<not> impact_reached ix S k v \<longrightarrow> map_get states v = None) \<and> set frontier = {v. impact_level ix S k v}"

lemma visit_frontier_inv:
  assumes inv: "frontier_inv ix S k states frontier"
    and v: "visit_frontier basis ix frontier states unc = Inr (states', next, unc')"
  shows "frontier_inv ix S (Suc k) states' next \<and> set next \<subseteq> fst ` set (entityById ix)"
proof -
  let ?D = "{(u, x). impact_level ix S k u \<and> x \<in> impact_edges ix u}"
  have "round_inv ix S k {} states []" using inv by (simp add: round_inv_def frontier_inv_def next_state_def)
  moreover have "(SIGMA u : set (sort_key (frontier_key states) frontier). impact_edges ix u) = ?D"
    using inv by (auto simp: frontier_inv_def)
  ultimately have r: "round_inv ix S k ?D states' next"
    using visit_entities_inv [of ix S k "{}" states "[]" "sort_key (frontier_key states) frontier" basis unc states' "next" unc'] v inv
    by (simp add: visit_frontier_def frontier_inv_def)
  have ext: "impact_extended ix S k ?D v = impact_labels ix S (Suc k) v" if "\<not> impact_reached ix S k v" for v
    using labels_from_layer [OF that] by simp
  have level: "impact_level ix S (Suc k) v \<longleftrightarrow> \<not> impact_reached ix S k v \<and> impact_extended ix S k ?D v \<noteq> {}" for v
    using at_level_Suc_iff [of "impact_edges ix" ps_toEntityId S k v] ext [of v]
    by (cases "impact_reached ix S k v") simp_all
  have "layer_inv ix S (Suc k) states'"
    unfolding layer_inv_def
  proof (intro allI impI)
    fix v j assume j: "j \<le> Suc k" "impact_level ix S j v"
    show "\<exists>st. map_get states' v = Some st \<and> represents v st j (impact_labels ix S j v)"
    proof (cases "j = Suc k")
      case True
      then have new: "\<not> impact_reached ix S k v" "impact_extended ix S k ?D v \<noteq> {}" using j level by blast+
      then have "next_state ix S k ?D states' v" using r unfolding round_inv_def by blast
      then show ?thesis using new ext [of v] True by (simp add: next_state_def)
    next
      case False
      then show ?thesis using j r by (simp add: round_inv_def layer_inv_def)
    qed
  qed
  moreover have "map_get states' v = None" if far: "\<not> impact_reached ix S (Suc k) v" for v
  proof -
    have "\<not> impact_reached ix S k v" "\<not> impact_level ix S (Suc k) v" using far by (simp_all add: reached_by_Suc)
    then have "impact_extended ix S k ?D v = {}" "next_state ix S k ?D states' v"
      using level [of v] r unfolding round_inv_def by blast+
    then show ?thesis by (simp add: next_state_def)
  qed
  moreover have "set next = {v. impact_level ix S (Suc k) v}" using r unfolding round_inv_def level by blast
  moreover have "set next \<subseteq> fst ` set (entityById ix)" using r unfolding round_inv_def by blast
  ultimately show ?thesis unfolding frontier_inv_def by blast
qed

section \<open>No failure on a consistent IR\<close>

lemma fold_r_ok: "(\<And>x s. x \<in> set xs \<Longrightarrow> \<exists>s'. f x s = Inr s') \<Longrightarrow> \<exists>s'. fold_r f xs s = Inr s'"
proof (induction xs arbitrary: s)
  case (Cons x xs)
  obtain s' where "f x s = Inr s'" using Cons.prems [of x s] by auto
  then show ?case using Cons by simp
qed simp

text \<open>The facts of edge rules from subject to object have an entity as object, and edges lead to entities.\<close>

definition edges_closed :: "ir_index \<Rightarrow> bool" where
  "edges_closed ix \<longleftrightarrow>
     (\<forall>u f variant. f \<in> set (list_at (outgoingFactsBySubject ix) u) \<longrightarrow>
        impactPropagationRules (fact_predicate f) = EdgeRule SubjectToObject variant \<longrightarrow> (\<exists>e. fact_object f = EntityRef e)) \<and>
     (\<forall>u x. x \<in> impact_edges ix u \<longrightarrow> map_has (entityById ix) (ps_toEntityId x))"

lemma outgoing_fact_ok:
  "(\<And>variant. impactPropagationRules (fact_predicate f) = EdgeRule SubjectToObject variant \<Longrightarrow> \<exists>e. fact_object f = EntityRef e) \<Longrightarrow>
     \<exists>st'. outgoing_fact basis state f st = Inr st'"
  by (cases st) (force simp: outgoing_fact_def split: impact_rule.split rule_direction.split semantic_fact_object.split)

lemma edgeCandidates_ok:
  assumes "edges_closed ix"
  shows "\<exists>cs unc'. edgeCandidates basis state ix unc = Inr (cs, unc')"
proof -
  have "\<exists>st. fold_r (outgoing_fact basis state) (list_at (outgoingFactsBySubject ix) (rs_entityId state)) ([], unc) = Inr st"
    using assms by (intro fold_r_ok outgoing_fact_ok) (auto simp: edges_closed_def)
  then show ?thesis by (auto simp: edgeCandidates_def split: prod.split)
qed

lemma visit_entity_ok:
  assumes closed: "edges_closed ix"
  shows "\<exists>rnd'. visit_entity basis ix u rnd = Inr rnd'"
proof -
  obtain states frontier unc where rnd: "rnd = (states, frontier, unc)" by (cases rnd)
  let ?st = "the (map_get states u)"
  obtain steps unc' where steps: "edgeCandidates basis ?st ix unc = Inr (steps, unc')"
    using edgeCandidates_ok [OF closed] by blast
  have "\<exists>rnd'. visit_step ix ?st x r = Inr rnd'" if "x \<in> set steps" for x r
    using that closed unfolding edgeCandidates_edges [OF steps] edges_closed_def
    by (cases r) (auto simp: visit_step_def split: prod.split)
  from fold_r_ok [OF this] show ?thesis using steps by (simp add: visit_entity_def rnd Let_def)
qed

lemma visit_frontier_ok: "edges_closed ix \<Longrightarrow> \<exists>rnd. visit_frontier basis ix frontier states unc = Inr rnd"
  unfolding visit_frontier_def by (intro fold_r_ok visit_entity_ok)

section \<open>The traversal returns\<close>

lemma frontier_inv_None: "frontier_inv ix S k states frontier \<Longrightarrow> map_get states v = None \<longleftrightarrow> \<not> impact_reached ix S k v"
  unfolding frontier_inv_def layer_inv_def reached_by_def by fastforce

lemma frontier_inv_Some:
  "frontier_inv ix S k states frontier \<Longrightarrow> map_get states v = Some st \<Longrightarrow>
     \<exists>j \<le> k. impact_level ix S j v \<and> represents v st j (impact_labels ix S j v)"
  using frontier_inv_None [of ix S k states frontier v] unfolding frontier_inv_def layer_inv_def reached_by_def by force

text \<open>What the states stand for once the frontier is empty.\<close>

definition complete_states :: "ir_index \<Rightarrow> (string \<times> string) set \<Rightarrow> reach_states \<Rightarrow> bool" where
  "complete_states ix S states \<longleftrightarrow>
     (\<forall>v. map_get states v = None \<longleftrightarrow> (\<forall>k. impact_labels ix S k v = {})) \<and>
     (\<forall>v st. map_get states v = Some st \<longrightarrow> (\<exists>k. impact_level ix S k v \<and> represents v st k (impact_labels ix S k v)))"

lemma frontier_inv_complete:
  assumes "frontier_inv ix S k states []"
  shows "complete_states ix S states"
proof -
  have "\<not> impact_level ix S k u" for u using assms by (simp add: frontier_inv_def)
  then have after: "\<not> impact_level ix S (k + n) v" for n v by (rule no_layer_after)
  have "impact_reached ix S k v" if l: "impact_labels ix S j v \<noteq> {}" for j v
  proof -
    obtain i where i: "impact_level ix S i v" using labels_at_level [OF l] by (auto simp: reached_by_def)
    then have "i \<le> k" using after [of "i - k" v] by (cases "i \<le> k") auto
    then show ?thesis using i by (auto simp: reached_by_def)
  qed
  moreover have "\<exists>j. impact_labels ix S j v \<noteq> {}" if "impact_reached ix S k v" for v
    using that by (auto simp: reached_by_def at_level_def)
  ultimately show ?thesis
    unfolding complete_states_def using frontier_inv_None [OF assms] frontier_inv_Some [OF assms] by blast
qed

lemma visit_rounds_returns:
  "frontier_inv ix S k states frontier \<Longrightarrow>
     \<exists>r. visit_rounds basis ix frontier states unc = Some r \<and>
       (\<forall>states' unc'. r = Inr (states', unc') \<longrightarrow> complete_states ix S states') \<and>
       (edges_closed ix \<longrightarrow> (\<exists>x. r = Inr x))"
proof (induction "card (fst ` set (entityById ix) - {v. impact_reached ix S k v})" arbitrary: k states frontier unc
    rule: less_induct)
  case less
  show ?case
  proof (cases "frontier = []")
    case True
    then show ?thesis using frontier_inv_complete less.prems by (simp add: visit_rounds.simps)
  next
    case False
    show ?thesis
    proof (cases "visit_frontier basis ix frontier states unc")
      case (Inl e)
      then have "\<not> edges_closed ix" using visit_frontier_ok [of ix basis frontier states unc] by auto
      then show ?thesis using False Inl by (simp add: visit_rounds.simps)
    next
      case (Inr r)
      obtain states1 next1 unc1 where r: "r = (states1, next1, unc1)" by (cases r)
      note step = visit_frontier_inv [OF less.prems Inr [unfolded r]]
      have once: "visit_rounds basis ix frontier states unc = visit_rounds basis ix next1 states1 unc1"
        using False Inr r by (subst visit_rounds.simps) simp
      show ?thesis
      proof (cases "next1 = []")
        case True
        then show ?thesis using once step frontier_inv_complete by (simp add: visit_rounds.simps)
      next
        case ne: False
        then obtain v where v: "v \<in> set next1" by (cases next1) auto
        then have new: "v \<in> fst ` set (entityById ix)" "impact_level ix S (Suc k) v"
          using step by (auto simp: frontier_inv_def)
        then have "\<not> impact_reached ix S k v" "impact_reached ix S (Suc k) v"
          using at_level_Suc_iff reached_by_Suc by metis+
        moreover have "{v. impact_reached ix S k v} \<subseteq> {v. impact_reached ix S (Suc k) v}" by (auto simp: reached_by_Suc)
        ultimately have "card (fst ` set (entityById ix) - {v. impact_reached ix S (Suc k) v}) <
            card (fst ` set (entityById ix) - {v. impact_reached ix S k v})"
          using new(1) by (intro psubset_card_mono) auto
        from less.hyps [OF this, of states1 next1 unc1] step once show ?thesis by simp
      qed
    qed
  qed
qed

section \<open>Seeds\<close>

definition seed_anchors :: "impact_basis \<Rightarrow> propagating_seed list \<Rightarrow> (string \<times> string) set" where
  "seed_anchors basis seeds = {(sd_id (pg_seed e), sd_anchorEntityId (pg_seed e)) | e.
     e \<in> set seeds \<and> sd_basis (pg_seed e) = basis \<and> pg_propagates e}"

definition anchored :: "(string \<times> string) set \<Rightarrow> string \<Rightarrow> (string \<times> impact_path_step list) set" where
  "anchored S v = {(s, []) | s. (s, v) \<in> S}"

lemma anchored_labels: "impact_labels ix S 0 v = anchored S v"
  by (simp add: labels.simps anchored_def)

lemma anchored_insert: "anchored (insert (s, v) S) w = (if w = v then insert (s, []) (anchored S w) else anchored S w)"
  by (auto simp: anchored_def)

definition seeds_inv :: "(string \<times> string) set \<Rightarrow> reach_states \<Rightarrow> bool" where
  "seeds_inv S states \<longleftrightarrow> (\<forall>v. if anchored S v = {} then map_get states v = None
     else \<exists>st. map_get states v = Some st \<and> represents v st 0 (anchored S v))"

lemma seeds_inv_insert:
  assumes inv: "seeds_inv S states"
  shows "seeds_inv (insert (sd_id seed, sd_anchorEntityId seed) S)
    (fst (mergeReachState states (sd_anchorEntityId seed) (seed_state seed)))"
proof -
  let ?v = "sd_anchorEntityId seed"
  have c: "represents ?v (seed_state seed) 0 {(sd_id seed, [])}"
    by (simp add: represents_def seed_state_def)
  have other: "map_get (fst (mergeReachState states ?v (seed_state seed))) w = map_get states w" if "w \<noteq> ?v" for w
    using that by (auto simp: mergeReachState_def Let_def split: option.splits)
  have "\<exists>st. map_get (fst (mergeReachState states ?v (seed_state seed))) ?v = Some st \<and>
      represents ?v st 0 (insert (sd_id seed, []) (anchored S ?v))"
  proof (cases "anchored S ?v = {}")
    case True
    then have "map_get states ?v = None" using inv by (simp add: seeds_inv_def)
    then show ?thesis using c True by (simp add: merge_new)
  next
    case False
    then obtain st where st: "map_get states ?v = Some st" "represents ?v st 0 (anchored S ?v)"
      using inv [unfolded seeds_inv_def, THEN spec, of ?v] by auto
    from merge_same_distance [OF st c] obtain st' b where r: "represents ?v st' 0 (anchored S ?v \<union> {(sd_id seed, [])})"
      "mergeReachState states ?v (seed_state seed) = (if b then map_set ?v st' states else states, b)" "b \<or> st' = st" .
    then show ?thesis using st by (cases b) auto
  qed
  note at_anchor = this
  show ?thesis
    unfolding seeds_inv_def
  proof
    fix w
    show "if anchored (insert (sd_id seed, ?v) S) w = {}
      then map_get (fst (mergeReachState states ?v (seed_state seed))) w = None
      else \<exists>st. map_get (fst (mergeReachState states ?v (seed_state seed))) w = Some st \<and>
        represents w st 0 (anchored (insert (sd_id seed, ?v) S) w)"
    proof (cases "w = ?v")
      case True
      then show ?thesis using at_anchor by (simp add: anchored_insert)
    next
      case False
      then show ?thesis using inv other [OF False] by (simp add: anchored_insert seeds_inv_def)
    qed
  qed
qed

lemma seed_anchors_Cons:
  "seed_anchors basis (e # seeds) = (if sd_basis (pg_seed e) \<noteq> basis \<or> \<not> pg_propagates e then seed_anchors basis seeds
     else insert (sd_id (pg_seed e), sd_anchorEntityId (pg_seed e)) (seed_anchors basis seeds))"
  by (auto simp: seed_anchors_def)

lemma seed_states_fold:
  "seeds_inv S states \<Longrightarrow> seeds_inv (S \<union> seed_anchors basis seeds) (fold (\<lambda>entry states.
     if sd_basis (pg_seed entry) \<noteq> basis \<or> \<not> pg_propagates entry then states
     else fst (mergeReachState states (sd_anchorEntityId (pg_seed entry)) (seed_state (pg_seed entry)))) seeds states)"
proof (induction seeds arbitrary: S states)
  case Nil
  then show ?case by (simp add: seed_anchors_def)
next
  case (Cons e seeds)
  show ?case
  proof (cases "sd_basis (pg_seed e) \<noteq> basis \<or> \<not> pg_propagates e")
    case True
    then show ?thesis using Cons by (simp only: seed_anchors_Cons fold_simps if_True)
  next
    case False
    from Cons.IH [OF seeds_inv_insert [OF Cons.prems, of "pg_seed e"]]
    show ?thesis by (simp only: seed_anchors_Cons fold_simps False if_False Un_insert_left Un_insert_right)
  qed
qed

lemma seed_states_inv: "seeds_inv (seed_anchors basis seeds) (seed_states basis seeds)"
  using seed_states_fold [of "{}" "[]" basis seeds] by (simp add: seeds_inv_def anchored_def seed_states_def)

lemma at_level_0: "impact_level ix S 0 v \<longleftrightarrow> anchored S v \<noteq> {}"
  by (simp add: at_level_def anchored_labels)

lemma seed_frontier:
  assumes "seeds_inv S states"
  shows "frontier_inv ix S 0 states (map fst states)"
proof -
  have s: "if anchored S v = {} then map_get states v = None
     else \<exists>st. map_get states v = Some st \<and> represents v st 0 (anchored S v)" for v
    using assms by (simp add: seeds_inv_def)
  have none: "map_get states v = None \<longleftrightarrow> anchored S v = {}" for v
    using s [of v] by (cases "anchored S v = {}") auto
  have "layer_inv ix S 0 states"
    using s by (simp add: layer_inv_def at_level_0 anchored_labels)
  moreover have "map_get states v = None" if "\<not> impact_reached ix S 0 v" for v
    using that by (simp add: reached_by_def at_level_0 none)
  moreover have "set (map fst states) = {v. impact_level ix S 0 v}"
    using none by (auto simp: at_level_0 map_get_None_iff)
  ultimately show ?thesis by (simp add: frontier_inv_def)
qed

lemma traversal_returns:
  "\<exists>r. traverseBasis basis seeds ix unc = Some r \<and>
     (\<forall>states unc'. r = Inr (states, unc') \<longrightarrow> complete_states ix (seed_anchors basis seeds) states) \<and>
     (edges_closed ix \<longrightarrow> (\<exists>x. r = Inr x))"
  unfolding traverseBasis_def Let_def by (rule visit_rounds_returns [OF seed_frontier [OF seed_states_inv]])

section \<open>Properties\<close>

text \<open>The traversal of one basis always returns: whatever the seeds, the index and the uncertainties found so far, the
  loop over frontiers ends, with the states or with a failure.\<close>

lemma traversal_terminates: "traverseBasis basis seeds ix unc \<noteq> None"
  using traversal_returns [of basis seeds ix unc] by auto

text \<open>The steps of a path from an anchor, by the facts of the IR.\<close>

lemma impact_edges_index:
  "impact_edges (indexEngineeringIR ir) u =
     {step_of f variant SubjectToObject u e | f variant e. f \<in> set (facts ir) \<and> fact_subject f = u \<and>
        impactPropagationRules (fact_predicate f) = EdgeRule SubjectToObject variant \<and> hasDefiniteAuthority f \<and>
        fact_object f = EntityRef e} \<union>
     {step_of f variant ObjectToSubject u (fact_subject f) | f variant. f \<in> set (facts ir) \<and> fact_object f = EntityRef u \<and>
        impactPropagationRules (fact_predicate f) = EdgeRule ObjectToSubject variant \<and> hasDefiniteAuthority f}"
  by (auto simp: impact_edges_def index_lookups)

definition ir_traversable :: "engineering_ir \<Rightarrow> bool" where
  "ir_traversable ir \<longleftrightarrow> (\<forall>f \<in> set (facts ir). fact_subject f \<in> ent_id ` set (entities ir) \<and>
     (case fact_object f of EntityRef e \<Rightarrow> e \<in> ent_id ` set (entities ir)
      | ValueObj _ \<Rightarrow> (case impactPropagationRules (fact_predicate f) of EdgeRule SubjectToObject _ \<Rightarrow> False | _ \<Rightarrow> True)))"

lemma traversable_object:
  assumes "ir_traversable ir" "f \<in> set (facts ir)" "impactPropagationRules (fact_predicate f) = EdgeRule SubjectToObject variant"
  shows "\<exists>e. fact_object f = EntityRef e"
  using assms by (cases "fact_object f") (fastforce simp: ir_traversable_def)+

lemma traversable_target:
  assumes ir: "ir_traversable ir" and x: "x \<in> impact_edges (indexEngineeringIR ir) u"
  shows "ps_toEntityId x \<in> ent_id ` set (entities ir)"
proof -
  consider f variant e where "x = step_of f variant SubjectToObject u e" "f \<in> set (facts ir)" "fact_object f = EntityRef e"
    | f variant where "x = step_of f variant ObjectToSubject u (fact_subject f)" "f \<in> set (facts ir)"
    using x unfolding impact_edges_index by blast
  then show ?thesis
  proof cases
    case 1
    then show ?thesis using ir by (force simp: ir_traversable_def step_of_def)
  next
    case 2
    then show ?thesis using ir by (force simp: ir_traversable_def step_of_def)
  qed
qed

lemma traversable_closed: "ir_traversable ir \<Longrightarrow> edges_closed (indexEngineeringIR ir)"
  unfolding edges_closed_def index_lookups
  using traversable_object [of ir] traversable_target [of ir] by simp

text \<open>On an IR whose facts relate entities of the IR and whose facts with a rule from subject to object have an entity as
  object, the traversal returns its states and uncertainties: neither the check of edge objects nor the check of edge targets fails.\<close>

lemma traversal_succeeds:
  "ir_traversable ir \<Longrightarrow> \<exists>states unc'. traverseBasis basis seeds (indexEngineeringIR ir) unc = Some (Inr (states, unc'))"
  using traversal_returns [of basis seeds "indexEngineeringIR ir" unc] traversable_closed [of ir] by auto

definition impact_fact :: "string \<Rightarrow> string \<Rightarrow> string \<Rightarrow> semantic_fact" where
  "impact_fact i subject object = \<lparr>fact_id = i, fact_subject = subject, fact_predicate = DEPENDS_ON,
     fact_object = EntityRef object, fact_assertions =
       [\<lparr>as_id = ''x'', as_authority = Authoritative, as_confidence = Decimal 1 0, as_provenance = [], as_evidence = [],
         as_validFromRevision = ''build'', as_validToRevision = None\<rparr>]\<rparr>"

definition impact_ir :: engineering_ir where
  "impact_ir = \<lparr>graphId = ''g'', inputRevision = ''i1'', semanticRevision = ''s1'', appId = ''app'',
     entities = map (\<lambda>i. \<lparr>ent_id = i, ent_kind = BlockKind, ent_label = i, ent_attributes = []\<rparr>) [''a'', ''b'', ''c''],
     facts = [impact_fact ''f1'' ''a'' ''b'', impact_fact ''f2'' ''b'' ''c'', impact_fact ''f3'' ''c'' ''b''], scenarios = []\<rparr>"

definition impact_seeds :: "propagating_seed list" where
  "impact_seeds = [\<lparr>pg_seed = \<lparr>sd_id = ''s'', sd_kind = ''entity-added'', sd_basis = ToBasis, sd_entityId = Some ''c'', sd_factId = None,
     sd_assertionId = None, sd_anchorEntityId = ''c'', sd_changedFields = None\<rparr>, pg_propagates = True\<rparr>]"

text \<open>C32. The states returned are the shortest paths: an entity has a state exactly when some path of edges leads to it from
  an entity that a propagating seed of the basis anchors; its distance is the least length of such paths, its seeds are all
  seeds with a path of that length, in order, and its path is the least of these paths, by seed and then step by step.\<close>

theorem traversal_shortest:
  assumes "traverseBasis basis seeds ix unc = Some (Inr (states, unc'))"
  shows "(case map_get states v of
      None \<Rightarrow> \<forall>k. labels (impact_edges ix) ps_toEntityId (seed_anchors basis seeds) k v = {}
    | Some st \<Rightarrow> let T = labels (impact_edges ix) ps_toEntityId (seed_anchors basis seeds) (rs_distance st) v in
        rs_entityId st = v \<and>
        (\<forall>j < rs_distance st. labels (impact_edges ix) ps_toEntityId (seed_anchors basis seeds) j v = {}) \<and>
        rs_seedIds st = sorted_list_of_set (fst ` T) \<and>
        (rs_canonicalSeedId st, rs_canonicalPath st) \<in> T \<and>
        (\<forall>(s, p) \<in> T. compareSeedPaths s p (rs_canonicalSeedId st) (rs_canonicalPath st) \<ge> 0))"
proof -
  have c: "complete_states ix (seed_anchors basis seeds) states"
    using traversal_returns [of basis seeds ix unc] assms by auto
  show ?thesis
  proof (cases "map_get states v")
    case None
    then have "\<forall>k. impact_labels ix (seed_anchors basis seeds) k v = {}" using c unfolding complete_states_def by blast
    then show ?thesis using None by simp
  next
    case (Some st)
    then obtain k where "impact_level ix (seed_anchors basis seeds) k v"
      "represents v st k (impact_labels ix (seed_anchors basis seeds) k v)" using c unfolding complete_states_def by blast
    then show ?thesis using Some
      by (auto simp: represents_def at_level_def compareSeedPaths_sign not_less [symmetric])
  qed
qed

definition impact_sample :: "(nat \<times> string list) option" where
  "impact_sample = (case traverseBasis ToBasis impact_seeds (indexEngineeringIR impact_ir) [] of
     Some (Inr (states, unc)) \<Rightarrow> map_option (\<lambda>st. (rs_distance st, rs_seedIds st)) (map_get states ''a'') | _ \<Rightarrow> None)"

theorem traversal_shortest_witness:
  "labels (impact_edges (indexEngineeringIR impact_ir)) ps_toEntityId (seed_anchors ToBasis impact_seeds) 1 ''a'' = {} \<and>
   [''s''] = sorted_list_of_set (fst ` labels (impact_edges (indexEngineeringIR impact_ir)) ps_toEntityId
     (seed_anchors ToBasis impact_seeds) 2 ''a'')"
proof -
  have "impact_sample = Some (2, [''s''])" by code_simp
  then obtain states unc st where r: "traverseBasis ToBasis impact_seeds (indexEngineeringIR impact_ir) [] = Some (Inr (states, unc))"
    "map_get states ''a'' = Some st" "rs_distance st = 2" "rs_seedIds st = [''s'']"
    by (auto simp: impact_sample_def split: option.splits sum.splits prod.splits)
  from traversal_shortest [OF r(1), of "''a''"] r(2-) show ?thesis by (simp add: Let_def)
qed

end
