(* ===== verification/ImpactPropagation.thy ===== *)
theory ImpactPropagation
  imports ImpactTraversal FactDelta
begin

text \<open>
  \<open>buildImpactPropagation\<close> of \<^verbatim>\<open>src/src/compiler/semantic-impact/build-impact-propagation.ts\<close> around the traversal:
  the binding of the input, the seeds of entities and of the fact delta, the occurrences, the verification that is
  recommended and the checks of the output. The SHA-256 of \<open>node:crypto\<close> is the parameter \<open>digest\<close>. The records of the
  contract have one format version, so its comparison always holds. A fact delta is printed with the properties in the
  order of the code that builds it.
\<close>

section \<open>Data\<close>

record impact_propagation_input =
  in_delta :: fact_delta
  in_from :: fact_delta_endpoint_context
  in_to :: fact_delta_endpoint_context

datatype impact_level = DirectLevel | TransitiveLevel

record impact_occurrence =
  oc_basis :: impact_basis
  oc_entityId :: string
  oc_level :: impact_level
  oc_distance :: nat
  oc_seedIds :: "string list"
  oc_canonicalPath :: "impact_path_step list"

datatype source_level = SeedLevel | ImpactLevel impact_level

record impact_source =
  so_basis :: impact_basis
  so_entityId :: string
  so_level :: source_level
  so_seedIds :: "string list"
  so_canonicalSeedId :: string
  so_canonicalPath :: "impact_path_step list"

record verification_reason =
  vr_basis :: impact_basis
  vr_sourceEntityId :: string
  vr_sourceLevel :: source_level
  vr_sourceSeedIds :: "string list"
  vr_factId :: "string option"

datatype recommendation_target = AcceptanceTarget string | SelectorTarget string

record verification_recommendation =
  rec_target :: recommendation_target
  rec_reasons :: "verification_reason list"

record semantic_impact_propagation =
  im_graphId :: string
  im_appId :: string
  im_deltaRevision :: string
  im_fromSemanticRevision :: string
  im_toSemanticRevision :: string
  im_fromFactSetDigest :: string
  im_toFactSetDigest :: string
  im_seeds :: "impact_seed list"
  im_direct :: "impact_occurrence list"
  im_transitive :: "impact_occurrence list"
  im_uncertainties :: "impact_uncertainty list"
  im_verification :: "verification_recommendation list"
  im_impactRevision :: string

definition IMPACT_CONTRACT_VERSION :: string where
  "IMPACT_CONTRACT_VERSION = ''1''"

definition IMPACT_SCOPE :: string where
  "IMPACT_SCOPE = ''fact-delta+validated-graph''"

definition IMPACT_PROPAGATION_RULE_REVISION :: string where
  "IMPACT_PROPAGATION_RULE_REVISION = ''impact-propagation-rules-v1''"

fun basis_name :: "impact_basis \<Rightarrow> string" where
  "basis_name FromBasis = ''from''"
| "basis_name ToBasis = ''to''"

fun SOURCE_LEVEL_RANK :: "source_level \<Rightarrow> nat" where
  "SOURCE_LEVEL_RANK SeedLevel = 0"
| "SOURCE_LEVEL_RANK (ImpactLevel DirectLevel) = 1"
| "SOURCE_LEVEL_RANK (ImpactLevel TransitiveLevel) = 2"

section \<open>Comparisons\<close>

text \<open>\<open>left || right\<close> on numbers.\<close>

definition or_else :: "int \<Rightarrow> int \<Rightarrow> int" where
  "or_else l r = (if l \<noteq> 0 then l else r)"

definition rank_difference :: "impact_basis \<Rightarrow> impact_basis \<Rightarrow> int" where
  "rank_difference l r = int (BASIS_RANK l) - int (BASIS_RANK r)"

definition compareSeeds :: "impact_seed \<Rightarrow> impact_seed \<Rightarrow> int" where
  "compareSeeds l r = or_else (rank_difference (sd_basis l) (sd_basis r))
     (or_else (compareCodeUnits (sd_kind l) (sd_kind r)) (compareCodeUnits (sd_id l) (sd_id r)))"

definition compareOccurrences :: "impact_occurrence \<Rightarrow> impact_occurrence \<Rightarrow> int" where
  "compareOccurrences l r = or_else (rank_difference (oc_basis l) (oc_basis r))
     (or_else (int (oc_distance l) - int (oc_distance r)) (compareCodeUnits (oc_entityId l) (oc_entityId r)))"

definition compareUncertainties :: "impact_uncertainty \<Rightarrow> impact_uncertainty \<Rightarrow> int" where
  "compareUncertainties l r = or_else (compareStringArrays (uncertaintyIdentity l) (uncertaintyIdentity r))
     (or_else (compareStringArrays (ud_seedIds l) (ud_seedIds r)) (comparePaths (ud_canonicalPath l) (ud_canonicalPath r)))"

fun target_kind :: "recommendation_target \<Rightarrow> string" where
  "target_kind (AcceptanceTarget _) = ''acceptance''"
| "target_kind (SelectorTarget _) = ''selector''"

fun verificationTarget :: "recommendation_target \<Rightarrow> string" where
  "verificationTarget (AcceptanceTarget acceptanceEntityId) = acceptanceEntityId"
| "verificationTarget (SelectorTarget selector) = selector"

definition compareVerificationReasons :: "verification_reason \<Rightarrow> verification_reason \<Rightarrow> int" where
  "compareVerificationReasons l r = or_else (rank_difference (vr_basis l) (vr_basis r))
     (or_else (int (SOURCE_LEVEL_RANK (vr_sourceLevel l)) - int (SOURCE_LEVEL_RANK (vr_sourceLevel r)))
     (or_else (compareCodeUnits (vr_sourceEntityId l) (vr_sourceEntityId r))
     (or_else (compareCodeUnits (nullish (vr_factId l)) (nullish (vr_factId r)))
       (compareStringArrays (vr_sourceSeedIds l) (vr_sourceSeedIds r)))))"

definition compareRecommendations :: "verification_recommendation \<Rightarrow> verification_recommendation \<Rightarrow> int" where
  "compareRecommendations l r = or_else (compareCodeUnits (target_kind (rec_target l)) (target_kind (rec_target r)))
     (compareCodeUnits (verificationTarget (rec_target l)) (verificationTarget (rec_target r)))"

text \<open>\<open>sort\<close> with a comparator that orders by a key sorts by that key.\<close>

definition seed_key :: "impact_seed \<Rightarrow> nat \<times> string \<times> string" where
  "seed_key s = (BASIS_RANK (sd_basis s), sd_kind s, sd_id s)"

definition occurrence_key :: "impact_occurrence \<Rightarrow> nat \<times> nat \<times> string" where
  "occurrence_key v = (BASIS_RANK (oc_basis v), oc_distance v, oc_entityId v)"

definition uncertainty_key :: "impact_uncertainty \<Rightarrow> string list \<times> string list \<times> string list list" where
  "uncertainty_key u = (uncertaintyIdentity u, ud_seedIds u, path_key (ud_canonicalPath u))"

definition reason_key :: "verification_reason \<Rightarrow> nat \<times> nat \<times> string \<times> string \<times> string list" where
  "reason_key r = (BASIS_RANK (vr_basis r), SOURCE_LEVEL_RANK (vr_sourceLevel r), vr_sourceEntityId r,
     nullish (vr_factId r), vr_sourceSeedIds r)"

definition recommendation_key :: "verification_recommendation \<Rightarrow> string \<times> string" where
  "recommendation_key r = (target_kind (rec_target r), verificationTarget (rec_target r))"

section \<open>Binding of the input\<close>

definition impact_failure :: "string \<Rightarrow> string list \<Rightarrow> failure" where
  "impact_failure code args = CodedFailure code args"

definition assertInputBinding :: "impact_propagation_input \<Rightarrow> unit result" where
  "assertInputBinding inp =
     (let delta = in_delta inp; from = in_from inp; to = in_to inp;
          valid = dl_graphId delta = graphId (ctx_ir from) \<and> dl_graphId delta = graphId (ctx_ir to) \<and>
            dl_appId delta = appId (ctx_ir from) \<and> dl_appId delta = appId (ctx_ir to) \<and>
            ep_transactionId (dl_from delta) = ctx_transactionId from \<and>
            ep_inputRevision (dl_from delta) = ctx_inputRevision from \<and>
            ep_semanticRevision (dl_from delta) = ctx_semanticRevision from \<and>
            ep_transactionId (dl_to delta) = ctx_transactionId to \<and>
            ep_inputRevision (dl_to delta) = ctx_inputRevision to \<and>
            ep_semanticRevision (dl_to delta) = ctx_semanticRevision to in
      throw_if (\<not> valid) (impact_failure ''IMPACT-001'' []))"

definition assertion_json :: "fact_assertion \<Rightarrow> json" where
  "assertion_json a =
     JObject ([(''id'', JString (as_id a)), (''authority'', JString (authority_name (as_authority a))),
       (''confidence'', JNumber (as_confidence a)), (''provenance'', JArray (map provenance_json (as_provenance a))),
       (''evidence'', JArray (map evidence_json (as_evidence a))),
       (''validFromRevision'', JString (as_validFromRevision a))] @ optional_string ''validToRevision'' (as_validToRevision a))"

definition fact_json :: "semantic_fact \<Rightarrow> json" where
  "fact_json f =
     JObject [(''id'', JString (fact_id f)), (''subject'', JString (fact_subject f)),
       (''predicate'', JString (predicate_name (fact_predicate f))), (''object'', fact_object_json (fact_object f)),
       (''assertions'', JArray (map assertion_json (fact_assertions f)))]"

definition full_change_json :: "semantic_fact_change \<Rightarrow> json" where
  "full_change_json c =
     JObject [(''factId'', JString (ch_factId c)),
       (''addedAssertions'', JArray (map assertion_json (ch_addedAssertions c))),
       (''removedAssertions'', JArray (map assertion_json (ch_removedAssertions c))),
       (''updatedAssertions'', JArray (map update_json (ch_updatedAssertions c)))]"

definition endpoint_json :: "fact_delta_endpoint \<Rightarrow> json" where
  "endpoint_json e = JObject [(''transactionId'', JString (ep_transactionId e)),
     (''inputRevision'', JString (ep_inputRevision e)), (''semanticRevision'', JString (ep_semanticRevision e))]"

definition delta_json :: "fact_delta \<Rightarrow> json" where
  "delta_json delta =
     JObject [(''contractVersion'', JString ''1''), (''scope'', JString ''fact-set''),
       (''formatVersion'', JString ENGINEERING_IR_FORMAT_VERSION),
       (''graphId'', JString (dl_graphId delta)), (''appId'', JString (dl_appId delta)),
       (''from'', endpoint_json (dl_from delta)), (''to'', endpoint_json (dl_to delta)),
       (''fromFactSetDigest'', JString (dl_fromFactSetDigest delta)),
       (''toFactSetDigest'', JString (dl_toFactSetDigest delta)),
       (''added'', JArray (map fact_json (dl_added delta))), (''removed'', JArray (map fact_json (dl_removed delta))),
       (''changed'', JArray (map full_change_json (dl_changed delta))), (''deltaRevision'', JString (dl_deltaRevision delta))]"

definition assertCanonicalDelta ::
  "(string \<Rightarrow> string) \<Rightarrow> fact_delta \<Rightarrow> fact_delta_endpoint_context \<Rightarrow> fact_delta_endpoint_context \<Rightarrow> fact_delta result" where
  "assertCanonicalDelta digest supplied from to =
     bind_r (buildFactDelta digest from to) (\<lambda>canonical.
     bind_r (throw_if (stringify (delta_json supplied) \<noteq> stringify (delta_json canonical)) (impact_failure ''IMPACT-002'' []))
       (\<lambda>_. Inr canonical))"

section \<open>Seeds\<close>

definition seedDigest :: "(string \<Rightarrow> string) \<Rightarrow> (string \<times> string) list \<Rightarrow> string result" where
  "seedDigest digest payload =
     sha256 digest (JObject ((''domain'', JString ''engineering-ir-impact-seed-v1'') # map (\<lambda>(k, v). (k, JString v)) payload))"

definition entitySeed :: "(string \<Rightarrow> string) \<Rightarrow> string \<Rightarrow> impact_basis \<Rightarrow> string \<Rightarrow> impact_seed result" where
  "entitySeed digest kind basis entityId =
     bind_r (seedDigest digest [(''kind'', kind), (''basis'', basis_name basis), (''entityId'', entityId)]) (\<lambda>seedId.
     Inr \<lparr>sd_id = seedId, sd_kind = kind, sd_basis = basis, sd_entityId = Some entityId, sd_factId = None, sd_assertionId = None,
       sd_anchorEntityId = entityId, sd_changedFields = None\<rparr>)"

definition updatedEntitySeed :: "(string \<Rightarrow> string) \<Rightarrow> impact_basis \<Rightarrow> string \<Rightarrow> string list \<Rightarrow> impact_seed result" where
  "updatedEntitySeed digest basis entityId changedFields =
     bind_r (seedDigest digest [(''kind'', ''entity-updated''), (''basis'', basis_name basis), (''entityId'', entityId)]) (\<lambda>seedId.
     Inr \<lparr>sd_id = seedId, sd_kind = ''entity-updated'', sd_basis = basis, sd_entityId = Some entityId, sd_factId = None,
       sd_assertionId = None, sd_anchorEntityId = entityId, sd_changedFields = Some changedFields\<rparr>)"

definition factSeed :: "(string \<Rightarrow> string) \<Rightarrow> string \<Rightarrow> impact_basis \<Rightarrow> semantic_fact \<Rightarrow> impact_seed result" where
  "factSeed digest kind basis fct =
     bind_r (seedDigest digest [(''kind'', kind), (''basis'', basis_name basis), (''factId'', fact_id fct)]) (\<lambda>seedId.
     Inr \<lparr>sd_id = seedId, sd_kind = kind, sd_basis = basis, sd_entityId = None, sd_factId = Some (fact_id fct), sd_assertionId = None,
       sd_anchorEntityId = fact_subject fct, sd_changedFields = None\<rparr>)"

definition assertionSeed ::
  "(string \<Rightarrow> string) \<Rightarrow> string \<Rightarrow> impact_basis \<Rightarrow> semantic_fact \<Rightarrow> string \<Rightarrow> impact_seed result" where
  "assertionSeed digest kind basis fct assertionId =
     bind_r (seedDigest digest [(''kind'', kind), (''basis'', basis_name basis), (''factId'', fact_id fct),
       (''assertionId'', assertionId)]) (\<lambda>seedId.
     Inr \<lparr>sd_id = seedId, sd_kind = kind, sd_basis = basis, sd_entityId = None, sd_factId = Some (fact_id fct),
       sd_assertionId = Some assertionId, sd_anchorEntityId = fact_subject fct, sd_changedFields = None\<rparr>)"

definition assertionUpdateSeed ::
  "(string \<Rightarrow> string) \<Rightarrow> impact_basis \<Rightarrow> semantic_fact \<Rightarrow> string \<Rightarrow> string list \<Rightarrow> impact_seed result" where
  "assertionUpdateSeed digest basis fct assertionId changedFields =
     bind_r (seedDigest digest [(''kind'', ''assertion-updated''), (''basis'', basis_name basis), (''factId'', fact_id fct),
       (''assertionId'', assertionId)]) (\<lambda>seedId.
     Inr \<lparr>sd_id = seedId, sd_kind = ''assertion-updated'', sd_basis = basis, sd_entityId = None, sd_factId = Some (fact_id fct),
       sd_assertionId = Some assertionId, sd_anchorEntityId = fact_subject fct, sd_changedFields = Some changedFields\<rparr>)"

definition entityChangedFields :: "semantic_entity \<Rightarrow> semantic_entity \<Rightarrow> string list" where
  "entityChangedFields before after =
     (if ent_label before \<noteq> ent_label after then [''label''] else []) @
     (if stringify (JArray (map attribute_json (ent_attributes before))) \<noteq>
         stringify (JArray (map attribute_json (ent_attributes after))) then [''attributes''] else [])"

text \<open>A seed pushed with its \<open>propagates\<close> flag.\<close>

definition pushed :: "bool \<Rightarrow> impact_seed result \<Rightarrow> propagating_seed result" where
  "pushed propagates m = bind_r m (\<lambda>seed. Inr \<lparr>pg_seed = seed, pg_propagates = propagates\<rparr>)"

definition push_before :: "propagating_seed result \<Rightarrow> propagating_seed list result \<Rightarrow> propagating_seed list result" where
  "push_before m rest = bind_r m (\<lambda>seed. bind_r rest (\<lambda>seeds. Inr (seed # seeds)))"

fun entity_seeds :: "(string \<Rightarrow> string) \<Rightarrow> semantic_entity list \<Rightarrow> semantic_entity list \<Rightarrow> propagating_seed list result" where
  "entity_seeds digest [] [] = Inr []"
| "entity_seeds digest [] (t # ts) =
     push_before (pushed True (entitySeed digest ''entity-added'' ToBasis (ent_id t))) (entity_seeds digest [] ts)"
| "entity_seeds digest (f # fs) [] =
     push_before (pushed True (entitySeed digest ''entity-removed'' FromBasis (ent_id f))) (entity_seeds digest fs [])"
| "entity_seeds digest (f # fs) (t # ts) =
     (let comparison = compareCodeUnits (ent_id f) (ent_id t) in
      if comparison < 0 then
        push_before (pushed True (entitySeed digest ''entity-removed'' FromBasis (ent_id f))) (entity_seeds digest fs (t # ts))
      else if comparison > 0 then
        push_before (pushed True (entitySeed digest ''entity-added'' ToBasis (ent_id t))) (entity_seeds digest (f # fs) ts)
      else bind_r (throw_if (ent_kind f \<noteq> ent_kind t) (impact_failure ''IMPACT-004'' [ent_id f])) (\<lambda>_.
        let changedFields = entityChangedFields f t in
        if changedFields \<noteq> [] then
          push_before (pushed True (updatedEntitySeed digest FromBasis (ent_id f) changedFields))
            (push_before (pushed True (updatedEntitySeed digest ToBasis (ent_id t) changedFields)) (entity_seeds digest fs ts))
        else entity_seeds digest fs ts))"

definition collectEntitySeeds ::
  "(string \<Rightarrow> string) \<Rightarrow> fact_delta_endpoint_context \<Rightarrow> fact_delta_endpoint_context \<Rightarrow> propagating_seed list result" where
  "collectEntitySeeds digest from to = entity_seeds digest (entities (ctx_ir from)) (entities (ctx_ir to))"

definition requireFact :: "ir_index \<Rightarrow> string \<Rightarrow> impact_basis \<Rightarrow> semantic_fact result" where
  "requireFact ix factId basis = (case map_get (factById ix) factId of
     None \<Rightarrow> throw (impact_failure ''IMPACT-006'' [basis_name basis, factId]) | Some fct \<Rightarrow> Inr fct)"

definition change_seeds ::
  "(string \<Rightarrow> string) \<Rightarrow> ir_index \<Rightarrow> ir_index \<Rightarrow> semantic_fact_change \<Rightarrow> propagating_seed list result" where
  "change_seeds digest fromIndex toIndex change =
     bind_r (requireFact fromIndex (ch_factId change) FromBasis) (\<lambda>before.
     bind_r (requireFact toIndex (ch_factId change) ToBasis) (\<lambda>after.
     bind_r (map_r (\<lambda>a. pushed False (assertionSeed digest ''assertion-added'' ToBasis after (as_id a)))
       (ch_addedAssertions change)) (\<lambda>added.
     bind_r (map_r (\<lambda>a. pushed False (assertionSeed digest ''assertion-removed'' FromBasis before (as_id a)))
       (ch_removedAssertions change)) (\<lambda>removed.
     bind_r (map_r (\<lambda>u. let fs = map update_field_name (up_changedFields u) in
         bind_r (pushed False (assertionUpdateSeed digest FromBasis before (up_assertionId u) fs)) (\<lambda>l.
         bind_r (pushed False (assertionUpdateSeed digest ToBasis after (up_assertionId u) fs)) (\<lambda>r. Inr [l, r])))
       (ch_updatedAssertions change)) (\<lambda>updated.
     Inr (added @ removed @ concat updated))))))"

definition collectFactSeeds ::
  "(string \<Rightarrow> string) \<Rightarrow> fact_delta \<Rightarrow> ir_index \<Rightarrow> ir_index \<Rightarrow> propagating_seed list result" where
  "collectFactSeeds digest delta fromIndex toIndex =
     bind_r (map_r (\<lambda>f. pushed (hasDefiniteAuthority f) (factSeed digest ''fact-added'' ToBasis f)) (dl_added delta)) (\<lambda>added.
     bind_r (map_r (\<lambda>f. pushed (hasDefiniteAuthority f) (factSeed digest ''fact-removed'' FromBasis f)) (dl_removed delta)) (\<lambda>removed.
     bind_r (map_r (change_seeds digest fromIndex toIndex) (dl_changed delta)) (\<lambda>changed.
     Inr (added @ removed @ concat changed))))"

section \<open>Occurrences and sources\<close>

definition level_of :: "nat \<Rightarrow> impact_level" where
  "level_of distance = (if distance = 1 then DirectLevel else TransitiveLevel)"

definition occurrence :: "impact_basis \<Rightarrow> reach_state \<Rightarrow> impact_occurrence option" where
  "occurrence basis state =
     (if rs_distance state = 0 then None
      else Some \<lparr>oc_basis = basis, oc_entityId = rs_entityId state, oc_level = level_of (rs_distance state),
        oc_distance = rs_distance state, oc_seedIds = rs_seedIds state, oc_canonicalPath = rs_canonicalPath state\<rparr>)"

text \<open>The keys \<open>basis NUL entity\<close> of the maps and sets.\<close>

definition basis_key :: "impact_basis \<Rightarrow> string \<Rightarrow> string" where
  "basis_key basis entityId = basis_name basis @ CHR 0x00 # entityId"

type_synonym sources = "(string, impact_source) jsmap"

definition add_seed_source :: "propagating_seed \<Rightarrow> sources \<Rightarrow> sources" where
  "add_seed_source entry sources =
     (let seed = pg_seed entry in
      if \<not> pg_propagates entry \<and> (sd_kind seed = ''fact-added'' \<or> sd_kind seed = ''fact-removed'') then sources
      else let key = basis_key (sd_basis seed) (sd_anchorEntityId seed); existing = map_get sources key in
        map_set key \<lparr>so_basis = sd_basis seed, so_entityId = sd_anchorEntityId seed, so_level = SeedLevel,
          so_seedIds = uniqueSorted ((case existing of None \<Rightarrow> [] | Some e \<Rightarrow> so_seedIds e) @ [sd_id seed]),
          so_canonicalSeedId = (case existing of None \<Rightarrow> sd_id seed | Some e \<Rightarrow> hd (sort [so_canonicalSeedId e, sd_id seed])),
          so_canonicalPath = []\<rparr> sources)"

definition add_state_source :: "impact_basis \<Rightarrow> reach_state \<Rightarrow> sources \<Rightarrow> sources" where
  "add_state_source basis state sources =
     (let key = basis_key basis (rs_entityId state) in
      if rs_distance state = 0 \<or> map_has sources key then sources
      else map_set key \<lparr>so_basis = basis, so_entityId = rs_entityId state, so_level = ImpactLevel (level_of (rs_distance state)),
          so_seedIds = rs_seedIds state, so_canonicalSeedId = rs_canonicalSeedId state,
          so_canonicalPath = rs_canonicalPath state\<rparr> sources)"

definition source_key :: "impact_source \<Rightarrow> nat \<times> nat \<times> string" where
  "source_key s = (BASIS_RANK (so_basis s), SOURCE_LEVEL_RANK (so_level s), so_entityId s)"

definition sourcesForVerification ::
  "propagating_seed list \<Rightarrow> reach_states \<Rightarrow> reach_states \<Rightarrow> impact_source list" where
  "sourcesForVerification seeds fromStates toStates =
     (let sources = fold add_seed_source seeds [];
          sources = fold (add_state_source FromBasis) (map snd fromStates) sources;
          sources = fold (add_state_source ToBasis) (map snd toStates) sources in
      sort_key source_key (map snd sources))"

section \<open>Verification\<close>

definition verificationReason :: "impact_source \<Rightarrow> string option \<Rightarrow> verification_reason" where
  "verificationReason src factId = \<lparr>vr_basis = so_basis src, vr_sourceEntityId = so_entityId src,
     vr_sourceLevel = so_level src, vr_sourceSeedIds = so_seedIds src, vr_factId = factId\<rparr>"

record recommendation_draft =
  rd_target :: recommendation_target
  rd_reasonsByKey :: "(string, verification_reason) jsmap"

type_synonym recommendations = "(string, recommendation_draft) jsmap"

definition target_key :: "recommendation_target \<Rightarrow> string" where
  "target_key target = target_kind target @ CHR 0x00 # verificationTarget target"

definition reasonKey :: "verification_reason \<Rightarrow> string" where
  "reasonKey reason = stringify (JArray [JString (basis_name (vr_basis reason)),
     JNumber (Decimal (int (SOURCE_LEVEL_RANK (vr_sourceLevel reason))) 0), JString (vr_sourceEntityId reason),
     JString (nullish (vr_factId reason)), JArray (map JString (vr_sourceSeedIds reason))])"

definition addRecommendation :: "recommendation_target \<Rightarrow> verification_reason \<Rightarrow> recommendations \<Rightarrow> recommendations" where
  "addRecommendation target reason recommendations =
     (let key = target_key target;
          draft = (case map_get recommendations key of None \<Rightarrow> \<lparr>rd_target = target, rd_reasonsByKey = []\<rparr> | Some d \<Rightarrow> d) in
      map_set key (draft\<lparr>rd_reasonsByKey := map_set (reasonKey reason) reason (rd_reasonsByKey draft)\<rparr>) recommendations)"

definition selectorFromFact :: "semantic_fact \<Rightarrow> string result" where
  "selectorFromFact fct = (case fact_object fct of
     ValueObj (SObject kvs) \<Rightarrow>
       (case map_of kvs ''selector'' of Some (SString s) \<Rightarrow> Inr s
        | _ \<Rightarrow> throw (impact_failure ''IMPACT-005'' [fact_id fct]))
   | _ \<Rightarrow> throw (impact_failure ''IMPACT-005'' [fact_id fct]))"

text \<open>The drafts of this part take seeds and path from a source.\<close>

definition source_unknown :: "string \<Rightarrow> impact_source \<Rightarrow> semantic_fact option \<Rightarrow> uncertainty_draft" where
  "source_unknown reason src fct =
     \<lparr>ud_basis = so_basis src, ud_classification = ''unknown'', ud_reasonCode = reason,
      ud_boundaryEntityId = Some (so_entityId src), ud_factId = map_option fact_id fct, ud_predicate = map_option fact_predicate fct,
      ud_seedIds = so_seedIds src, ud_canonicalPath = so_canonicalPath src, ud_distance = length (so_canonicalPath src),
      ud_canonicalSeedId = so_canonicalSeedId src\<rparr>"

type_synonym verify_state = "recommendations \<times> uncertainties"

definition required_target :: "ir_index \<Rightarrow> semantic_fact \<Rightarrow> string \<Rightarrow> semantic_entity_kind \<Rightarrow> semantic_entity result" where
  "required_target ix fct entityId kind =
     (let failure = impact_failure ''IMPACT-005'' [fact_id fct, entityId] in
      case map_get (entityById ix) entityId of
        None \<Rightarrow> throw failure | Some target \<Rightarrow> if ent_kind target \<noteq> kind then throw failure else Inr target)"

text \<open>The body of the loop over mappings; the flags are \<open>runnable\<close> and \<open>nonDefinite\<close>.\<close>

definition verify_mapping ::
  "ir_index \<Rightarrow> impact_source \<Rightarrow> semantic_entity \<Rightarrow> semantic_fact \<Rightarrow> verify_state \<times> bool \<times> bool \<Rightarrow> (verify_state \<times> bool \<times> bool) result" where
  "verify_mapping ix src entity fct st = (case st of ((recs, unc), runnable, nonDefinite) \<Rightarrow>
     if \<not> hasDefiniteAuthority fct then
       Inr ((recs, addUncertainty (nonDefiniteUncertainty (so_basis src) fct (so_entityId src) (so_seedIds src)
         (so_canonicalSeedId src) (so_canonicalPath src)) unc), runnable, True)
     else if ent_kind entity = PolicyKind then
       (case fact_object fct of
          ValueObj _ \<Rightarrow> throw (impact_failure ''IMPACT-005'' [fact_id fct])
        | EntityRef target \<Rightarrow>
            bind_r (required_target ix fct target PolicyKind) (\<lambda>_.
            Inr ((recs, addUncertainty (source_unknown ''verification-mapping-non-runnable'' src (Some fct)) unc), runnable, nonDefinite)))
     else (case fact_object fct of
          EntityRef target \<Rightarrow>
            bind_r (required_target ix fct target AcceptanceKind) (\<lambda>entity.
            Inr ((addRecommendation (AcceptanceTarget (ent_id entity)) (verificationReason src (Some (fact_id fct))) recs, unc),
              True, nonDefinite))
        | ValueObj _ \<Rightarrow>
            bind_r (throw_if (ent_kind entity \<noteq> ArtifactKind) (impact_failure ''IMPACT-005'' [fact_id fct, ent_id entity])) (\<lambda>_.
            bind_r (selectorFromFact fct) (\<lambda>selector.
            Inr ((addRecommendation (SelectorTarget selector) (verificationReason src (Some (fact_id fct))) recs, unc),
              True, nonDefinite)))))"

definition verify_source :: "(impact_basis \<Rightarrow> ir_index) \<Rightarrow> impact_source \<Rightarrow> verify_state \<Rightarrow> verify_state result" where
  "verify_source indexes src st = (case st of (recs, unc) \<Rightarrow> let ix = indexes (so_basis src) in
     (case map_get (entityById ix) (so_entityId src) of
        None \<Rightarrow> throw (impact_failure ''IMPACT-006'' [basis_name (so_basis src), so_entityId src])
      | Some entity \<Rightarrow>
          if ent_kind entity = AcceptanceKind then
            Inr (addRecommendation (AcceptanceTarget (ent_id entity)) (verificationReason src None) recs, unc)
          else if ent_kind entity \<noteq> ScenarioKind \<and> ent_kind entity \<noteq> ArtifactKind \<and> ent_kind entity \<noteq> PolicyKind then Inr (recs, unc)
          else bind_r (fold_r (verify_mapping ix src entity)
              (filter (\<lambda>f. fact_predicate f = VERIFIED_BY) (list_at (outgoingFactsBySubject ix) (ent_id entity)))
              ((recs, unc), False, False)) (\<lambda>((recs, unc), runnable, nonDefinite).
            Inr (recs, if (ent_kind entity = ScenarioKind \<or> ent_kind entity = ArtifactKind) \<and> \<not> runnable \<and> \<not> nonDefinite
              then addUncertainty (source_unknown ''verification-mapping-missing'' src None) unc else unc))))"

definition recommendation_of :: "recommendation_draft \<Rightarrow> verification_recommendation" where
  "recommendation_of d = \<lparr>rec_target = rd_target d, rec_reasons = sort_key reason_key (map snd (rd_reasonsByKey d))\<rparr>"

definition collectVerification ::
  "impact_source list \<Rightarrow> (impact_basis \<Rightarrow> ir_index) \<Rightarrow> uncertainties \<Rightarrow>
   (verification_recommendation list \<times> uncertainties) result" where
  "collectVerification sources indexes unc =
     bind_r (fold_r (verify_source indexes) sources ([], unc)) (\<lambda>(recs, unc).
     Inr (sort_key recommendation_key (map (\<lambda>(k, d). recommendation_of d) recs), unc))"

section \<open>Checks of the output\<close>

fun check_seeds :: "string list \<Rightarrow> impact_seed option \<Rightarrow> impact_seed list \<Rightarrow> unit result" where
  "check_seeds seedIds previous [] = Inr ()"
| "check_seeds seedIds previous (seed # seeds) =
     bind_r (throw_if (sd_id seed \<in> set seedIds \<or> (case previous of None \<Rightarrow> False | Some p \<Rightarrow> compareSeeds p seed \<ge> 0))
       (impact_failure ''IMPACT-006'' [sd_id seed])) (\<lambda>_. check_seeds (sd_id seed # seedIds) (Some seed) seeds)"

fun check_occurrences ::
  "bool \<Rightarrow> string list \<Rightarrow> impact_occurrence option \<Rightarrow> impact_occurrence list \<Rightarrow> string list result" where
  "check_occurrences direct occurrences previous [] = Inr occurrences"
| "check_occurrences direct occurrences previous (v # vs) =
     (let key = basis_key (oc_basis v) (oc_entityId v) in
      bind_r (throw_if (key \<in> set occurrences \<or> oc_level v \<noteq> level_of (oc_distance v) \<or>
          length (oc_canonicalPath v) \<noteq> oc_distance v \<or>
          (case previous of None \<Rightarrow> False | Some p \<Rightarrow> compareOccurrences p v \<ge> 0) \<or>
          (oc_canonicalPath v = [] \<or> ps_toEntityId (last (oc_canonicalPath v)) \<noteq> oc_entityId v) \<or>
          (if direct then oc_distance v \<noteq> 1 else oc_distance v < 2))
        (impact_failure ''IMPACT-006'' [basis_name (oc_basis v), oc_entityId v])) (\<lambda>_.
      check_occurrences direct (key # occurrences) (Some v) vs))"

fun check_increasing :: "('v \<Rightarrow> 'v \<Rightarrow> int) \<Rightarrow> 'v list \<Rightarrow> unit result" where
  "check_increasing compare (v # w # vs) =
     bind_r (throw_if (compare v w \<ge> 0) (impact_failure ''IMPACT-006'' [])) (\<lambda>_. check_increasing compare (w # vs))"
| "check_increasing compare vs = Inr ()"

definition assertCanonicalOutput ::
  "impact_seed list \<Rightarrow> impact_occurrence list \<Rightarrow> impact_occurrence list \<Rightarrow> impact_uncertainty list \<Rightarrow>
   verification_recommendation list \<Rightarrow> unit result" where
  "assertCanonicalOutput seeds direct transitive uncertainties verification =
     bind_r (check_seeds [] None seeds) (\<lambda>_.
     bind_r (check_occurrences True [] None direct) (\<lambda>occurrences.
     bind_r (check_occurrences False occurrences None transitive) (\<lambda>_.
     bind_r (check_increasing compareUncertainties uncertainties) (\<lambda>_.
     check_increasing compareRecommendations verification))))"

section \<open>Revision\<close>

definition strings_json :: "string list \<Rightarrow> json" where
  "strings_json ss = JArray (map JString ss)"

definition optional_strings :: "string \<Rightarrow> string list option \<Rightarrow> (string \<times> json) list" where
  "optional_strings key v = (case v of None \<Rightarrow> [] | Some ss \<Rightarrow> [(key, strings_json ss)])"

definition seed_json :: "impact_seed \<Rightarrow> json" where
  "seed_json s = JObject ([(''id'', JString (sd_id s)), (''kind'', JString (sd_kind s)), (''basis'', JString (basis_name (sd_basis s)))]
     @ optional_string ''entityId'' (sd_entityId s) @ optional_string ''factId'' (sd_factId s)
     @ optional_string ''assertionId'' (sd_assertionId s) @ [(''anchorEntityId'', JString (sd_anchorEntityId s))]
     @ optional_strings ''changedFields'' (sd_changedFields s))"

definition path_step_json :: "impact_path_step \<Rightarrow> json" where
  "path_step_json p = JObject [(''factId'', JString (ps_factId p)), (''predicate'', JString (predicate_name (ps_predicate p))),
     (''ruleVariantId'', JString (ps_ruleVariantId p)), (''direction'', JString (direction_name (ps_direction p))),
     (''fromEntityId'', JString (ps_fromEntityId p)), (''toEntityId'', JString (ps_toEntityId p))]"

fun level_name :: "impact_level \<Rightarrow> string" where
  "level_name DirectLevel = ''direct''"
| "level_name TransitiveLevel = ''transitive''"

fun source_level_name :: "source_level \<Rightarrow> string" where
  "source_level_name SeedLevel = ''seed''"
| "source_level_name (ImpactLevel l) = level_name l"

definition occurrence_json :: "impact_occurrence \<Rightarrow> json" where
  "occurrence_json v = JObject [(''basis'', JString (basis_name (oc_basis v))), (''entityId'', JString (oc_entityId v)),
     (''level'', JString (level_name (oc_level v))), (''distance'', JNumber (Decimal (int (oc_distance v)) 0)),
     (''seedIds'', strings_json (oc_seedIds v)), (''canonicalPath'', JArray (map path_step_json (oc_canonicalPath v)))]"

definition uncertainty_json :: "impact_uncertainty \<Rightarrow> json" where
  "uncertainty_json u = JObject ([(''basis'', JString (basis_name (ud_basis u))), (''classification'', JString (ud_classification u)),
     (''reasonCode'', JString (ud_reasonCode u))] @ optional_string ''boundaryEntityId'' (ud_boundaryEntityId u)
     @ optional_string ''factId'' (ud_factId u) @ optional_string ''predicate'' (map_option predicate_name (ud_predicate u))
     @ [(''seedIds'', strings_json (ud_seedIds u)), (''canonicalPath'', JArray (map path_step_json (ud_canonicalPath u)))])"

definition reason_json :: "verification_reason \<Rightarrow> json" where
  "reason_json r = JObject ([(''basis'', JString (basis_name (vr_basis r))), (''sourceEntityId'', JString (vr_sourceEntityId r)),
     (''sourceLevel'', JString (source_level_name (vr_sourceLevel r))), (''sourceSeedIds'', strings_json (vr_sourceSeedIds r))]
     @ optional_string ''factId'' (vr_factId r))"

definition recommendation_json :: "verification_recommendation \<Rightarrow> json" where
  "recommendation_json r = JObject [(''kind'', JString (target_kind (rec_target r))),
     (case rec_target r of AcceptanceTarget e \<Rightarrow> (''acceptanceEntityId'', JString e) | SelectorTarget s \<Rightarrow> (''selector'', JString s)),
     (''reasons'', JArray (map reason_json (rec_reasons r)))]"

definition impactDigestPayload :: "semantic_impact_propagation \<Rightarrow> string result" where
  "impactDigestPayload v = bind_r (canonicalJson (JObject [
       (''domain'', JString ''engineering-ir-impact-propagation-v1''), (''contractVersion'', JString IMPACT_CONTRACT_VERSION),
       (''scope'', JString IMPACT_SCOPE), (''formatVersion'', JString ENGINEERING_IR_FORMAT_VERSION),
       (''graphId'', JString (im_graphId v)), (''appId'', JString (im_appId v)),
       (''deltaRevision'', JString (im_deltaRevision v)),
       (''from'', JObject [(''semanticRevision'', JString (im_fromSemanticRevision v)),
          (''factSetDigest'', JString (im_fromFactSetDigest v))]),
       (''to'', JObject [(''semanticRevision'', JString (im_toSemanticRevision v)),
          (''factSetDigest'', JString (im_toFactSetDigest v))]),
       (''propagationRuleRevision'', JString IMPACT_PROPAGATION_RULE_REVISION),
       (''seeds'', JArray (map seed_json (im_seeds v))), (''direct'', JArray (map occurrence_json (im_direct v))),
       (''transitive'', JArray (map occurrence_json (im_transitive v))),
       (''uncertainties'', JArray (map uncertainty_json (im_uncertainties v))),
       (''verification'', JArray (map recommendation_json (im_verification v)))]))
     (\<lambda>json. Inr (stringify json))"

section \<open>Composition\<close>

text \<open>Sequencing with a computation that may also not return.\<close>

definition bind_o :: "'a result option \<Rightarrow> ('a \<Rightarrow> 'b result option) \<Rightarrow> 'b result option" where
  "bind_o m f = (case m of None \<Rightarrow> None | Some (Inl e) \<Rightarrow> Some (Inl e) | Some (Inr x) \<Rightarrow> f x)"

lemma bind_o_simps [simp]: "bind_o (Some (Inl e)) f = Some (Inl e)" "bind_o (Some (Inr x)) f = f x" "bind_o None f = None"
  by (simp_all add: bind_o_def)

definition unpropagated_seed ::
  "(impact_basis \<Rightarrow> ir_index) \<Rightarrow> propagating_seed \<Rightarrow> uncertainties \<Rightarrow> uncertainties result" where
  "unpropagated_seed indexes entry unc =
     (let seed = pg_seed entry in
      if pg_propagates entry \<or> (sd_kind seed \<noteq> ''fact-added'' \<and> sd_kind seed \<noteq> ''fact-removed'') then Inr unc
      else bind_r (requireFact (indexes (sd_basis seed)) (nullish (sd_factId seed)) (sd_basis seed)) (\<lambda>fct.
        Inr (addUncertainty (nonDefiniteUncertainty (sd_basis seed) fct (sd_anchorEntityId seed) [sd_id seed] (sd_id seed) []) unc)))"

definition collect_seeds ::
  "(string \<Rightarrow> string) \<Rightarrow> fact_delta \<Rightarrow> fact_delta_endpoint_context \<Rightarrow> fact_delta_endpoint_context \<Rightarrow>
   (impact_basis \<Rightarrow> ir_index) \<Rightarrow> propagating_seed list result" where
  "collect_seeds digest delta from to indexes =
     bind_r (collectEntitySeeds digest from to) (\<lambda>entitySeeds.
     bind_r (collectFactSeeds digest delta (indexes FromBasis) (indexes ToBasis)) (\<lambda>factSeeds.
     Inr (sort_key (\<lambda>entry. seed_key (pg_seed entry)) (entitySeeds @ factSeeds))))"

definition occurrences_of :: "propagating_seed list \<Rightarrow> impact_basis \<Rightarrow> reach_states \<Rightarrow> impact_occurrence list" where
  "occurrences_of seeds basis states =
     (let seedAnchors = map (\<lambda>entry. basis_key (sd_basis (pg_seed entry)) (sd_anchorEntityId (pg_seed entry))) seeds in
      filter (\<lambda>v. basis_key basis (oc_entityId v) \<notin> set seedAnchors) (List.map_filter (occurrence basis) (map snd states)))"

definition impact_result ::
  "(string \<Rightarrow> string) \<Rightarrow> impact_propagation_input \<Rightarrow> fact_delta \<Rightarrow> (impact_basis \<Rightarrow> ir_index) \<Rightarrow> propagating_seed list \<Rightarrow>
   reach_states \<Rightarrow> reach_states \<Rightarrow> uncertainties \<Rightarrow> semantic_impact_propagation result" where
  "impact_result digest inp delta indexes seeds fromStates toStates unc =
     (let occurrences = occurrences_of seeds FromBasis fromStates @ occurrences_of seeds ToBasis toStates;
          direct = sort_key occurrence_key (filter (\<lambda>v. oc_level v = DirectLevel) occurrences);
          transitive = sort_key occurrence_key (filter (\<lambda>v. oc_level v = TransitiveLevel) occurrences) in
      bind_r (collectVerification (sourcesForVerification seeds fromStates toStates) indexes unc) (\<lambda>(verification, unc).
      let uncertaintyOutput = sort_key uncertainty_key (map (\<lambda>(k, d). impact_uncertainty.truncate d) unc);
          seedOutput = map pg_seed seeds in
      bind_r (assertCanonicalOutput seedOutput direct transitive uncertaintyOutput verification) (\<lambda>_.
      let withoutRevision = \<lparr>im_graphId = graphId (ctx_ir (in_from inp)), im_appId = appId (ctx_ir (in_from inp)),
            im_deltaRevision = dl_deltaRevision delta, im_fromSemanticRevision = ctx_semanticRevision (in_from inp),
            im_toSemanticRevision = ctx_semanticRevision (in_to inp), im_fromFactSetDigest = dl_fromFactSetDigest delta,
            im_toFactSetDigest = dl_toFactSetDigest delta, im_seeds = seedOutput, im_direct = direct, im_transitive = transitive,
            im_uncertainties = uncertaintyOutput, im_verification = verification, im_impactRevision = []\<rparr> in
      bind_r (impactDigestPayload withoutRevision) (\<lambda>payload.
      Inr (withoutRevision\<lparr>im_impactRevision := ''sha256:'' @ digest payload\<rparr>)))))"

definition buildImpactPropagation ::
  "(string \<Rightarrow> string) \<Rightarrow> impact_propagation_input \<Rightarrow> semantic_impact_propagation result option" where
  "buildImpactPropagation digest inp =
     bind_o (Some (assertInputBinding inp)) (\<lambda>_.
     bind_o (Some (assertCanonicalDelta digest (in_delta inp) (in_from inp) (in_to inp))) (\<lambda>delta.
     bind_o (Some (assertImpactPropagationRuleRegistry IMPACT_PROPAGATION_RULES)) (\<lambda>_.
     let indexes = (\<lambda>basis. case basis of FromBasis \<Rightarrow> indexEngineeringIR (ctx_ir (in_from inp))
           | ToBasis \<Rightarrow> indexEngineeringIR (ctx_ir (in_to inp))) in
     bind_o (Some (collect_seeds digest delta (in_from inp) (in_to inp) indexes)) (\<lambda>seeds.
     bind_o (Some (fold_r (unpropagated_seed indexes) seeds [])) (\<lambda>unc.
     bind_o (traverseBasis FromBasis seeds (indexes FromBasis) unc) (\<lambda>(fromStates, unc).
     bind_o (traverseBasis ToBasis seeds (indexes ToBasis) unc) (\<lambda>(toStates, unc).
     Some (impact_result digest inp delta indexes seeds fromStates toStates unc))))))))"

end
