(* ===== verification/ImpactOutput.thy ===== *)
theory ImpactOutput
  imports ImpactPropagation
begin

text \<open>
  The output of \<open>buildImpactPropagation\<close>: the states of a traversal, the uncertainties and the recommendations are maps whose
  keys belong to their values, so the sorted lists made of them are strictly ordered, and the checks the code ends with hold.
\<close>

section \<open>Traversals keep their maps well formed\<close>

definition unc_inv :: "uncertainties \<Rightarrow> bool" where
  "unc_inv unc \<longleftrightarrow> distinct (map fst unc) \<and>
     (\<forall>(k, d) \<in> set unc. k = stringify (JArray (map JString (uncertaintyIdentity d))))"

declare distinct_map_set [simp]

lemma map_set_in: "(k', v') \<in> set (map_set k v m) \<Longrightarrow> distinct (map fst m) \<Longrightarrow> (k' = k \<and> v' = v) \<or> (k' \<noteq> k \<and> (k', v') \<in> set m)"
  by (metis map_get_def map_get_set map_of_eq_Some_iff distinct_map_set option.inject)

lemma unc_inv_Nil [simp]: "unc_inv []"
  by (simp add: unc_inv_def)

lemma unc_inv_set:
  "unc_inv unc \<Longrightarrow> k = stringify (JArray (map JString (uncertaintyIdentity d))) \<Longrightarrow> unc_inv (map_set k d unc)"
  unfolding unc_inv_def using map_set_in [of _ _ k d unc] by fastforce

lemma unc_inv_add [simp]:
  assumes "unc_inv unc"
  shows "unc_inv (addUncertainty draft unc)"
proof -
  let ?key = "stringify (JArray (map JString (uncertaintyIdentity draft)))"
  have kept: "uncertaintyIdentity (d\<lparr>ud_seedIds := ids\<rparr>) = uncertaintyIdentity d"
    "uncertaintyIdentity (d\<lparr>ud_seedIds := ids, ud_canonicalSeedId := s, ud_canonicalPath := p\<rparr>) = uncertaintyIdentity d"
    for d :: uncertainty_draft and ids s p
    by (simp_all add: uncertaintyIdentity_def)
  have "?key = stringify (JArray (map JString (uncertaintyIdentity d)))" if "map_get unc ?key = Some d" for d
    using assms map_get_Some_in [OF that] by (auto simp: unc_inv_def)
  then show ?thesis using assms
    by (auto simp: addUncertainty_def Let_def kept intro!: unc_inv_set split: option.split)
qed

lemma fold_r_invariant:
  assumes "\<And>x s s'. P s \<Longrightarrow> f x s = Inr s' \<Longrightarrow> P s'"
  shows "P s \<Longrightarrow> fold_r f xs s = Inr s' \<Longrightarrow> P s'"
  by (induction xs arbitrary: s) (auto dest: assms)

lemma fold_invariant_plain: "(\<And>x s. P s \<Longrightarrow> P (f x s)) \<Longrightarrow> P s \<Longrightarrow> P (fold f xs s)"
  by (induction xs arbitrary: s) auto

lemma edgeCandidates_unc:
  assumes "unc_inv unc" "edgeCandidates basis st ix unc = Inr (cs, unc')"
  shows "unc_inv unc'"
proof -
  obtain st1 where out: "fold_r (outgoing_fact basis st) (list_at (outgoingFactsBySubject ix) (rs_entityId st)) ([], unc) = Inr st1"
    and rest: "snd (fold (incoming_fact basis st) (list_at (incomingFactsByEntityObject ix) (rs_entityId st)) st1) = unc'"
    using assms(2) by (auto simp: edgeCandidates_def split: prod.splits)
  have "unc_inv (snd st1)"
    by (rule fold_r_invariant [where P = "\<lambda>s. unc_inv (snd s)", OF _ _ out])
      (use assms in \<open>auto simp: outgoing_fact_def throw_def
        split: impact_rule.splits rule_direction.splits semantic_fact_object.splits if_splits\<close>)
  then have "unc_inv (snd (fold (incoming_fact basis st) (list_at (incomingFactsByEntityObject ix) (rs_entityId st)) st1))"
    by (rule fold_invariant_plain [where P = "\<lambda>s. unc_inv (snd s)", rotated])
      (auto simp: incoming_fact_def split: impact_rule.split rule_direction.split)
  then show ?thesis using rest by simp
qed

definition round_wf :: "round_state \<Rightarrow> bool" where
  "round_wf rnd = (case rnd of (states, next, unc) \<Rightarrow> distinct (map fst states) \<and> unc_inv unc)"

lemma merge_distinct: "distinct (map fst states) \<Longrightarrow> distinct (map fst (fst (mergeReachState states v c)))"
  by (auto simp: mergeReachState_def Let_def split: option.split)

lemma visit_step_wf: "round_wf rnd \<Longrightarrow> visit_step ix st x rnd = Inr rnd' \<Longrightarrow> round_wf rnd'"
proof -
  assume wf: "round_wf rnd" and v: "visit_step ix st x rnd = Inr rnd'"
  obtain states "next" unc where rnd: "rnd = (states, next, unc)" by (cases rnd)
  obtain states1 changed where m: "mergeReachState states (ps_toEntityId x) (extend_state st x) = (states1, changed)" by fastforce
  then have "distinct (map fst states1)" using merge_distinct [of states "ps_toEntityId x" "extend_state st x"] wf
    by (simp add: rnd round_wf_def)
  then show "round_wf rnd'" using wf v by (auto simp: visit_step_def rnd round_wf_def m)
qed

lemma visit_entity_wf: "round_wf rnd \<Longrightarrow> visit_entity basis ix u rnd = Inr rnd' \<Longrightarrow> round_wf rnd'"
proof -
  assume wf: "round_wf rnd" and v: "visit_entity basis ix u rnd = Inr rnd'"
  obtain states "next" unc where rnd: "rnd = (states, next, unc)" by (cases rnd)
  then obtain steps unc1 where e: "edgeCandidates basis (the (map_get states u)) ix unc = Inr (steps, unc1)"
    and f: "fold_r (visit_step ix (the (map_get states u))) steps (states, next, unc1) = Inr rnd'"
    using v by (auto simp: visit_entity_def Let_def)
  have "round_wf (states, next, unc1)" using wf edgeCandidates_unc [OF _ e] by (simp add: rnd round_wf_def)
  from fold_r_invariant [where P = round_wf, OF _ this f] show "round_wf rnd'" using visit_step_wf by blast
qed

lemma visit_frontier_wf:
  assumes v: "visit_frontier basis ix frontier states unc = Inr rnd" and wf: "distinct (map fst states)" "unc_inv unc"
  shows "round_wf rnd"
proof -
  have "round_wf (states, [], unc)" using wf by (simp add: round_wf_def)
  from fold_r_invariant [where P = round_wf, OF _ this v [unfolded visit_frontier_def]] show ?thesis
    using visit_entity_wf by blast
qed

lemma visit_rounds_wf:
  assumes "visit_rounds basis ix frontier states unc = Some y"
  shows "distinct (map fst states) \<longrightarrow> unc_inv unc \<longrightarrow>
    (\<forall>states' unc'. y = Inr (states', unc') \<longrightarrow> distinct (map fst states') \<and> unc_inv unc')"
  by (rule visit_rounds.raw_induct [OF _ assms, where P = "\<lambda>basis ix frontier states unc y. distinct (map fst states) \<longrightarrow> unc_inv unc \<longrightarrow>
      (\<forall>states' unc'. y = Inr (states', unc') \<longrightarrow> distinct (map fst states') \<and> unc_inv unc')"])
    (auto split: if_splits sum.splits dest!: visit_frontier_wf simp: round_wf_def)

lemma seed_states_distinct: "distinct (map fst (seed_states basis seeds))"
  unfolding seed_states_def
  by (rule fold_invariant_plain [where P = "\<lambda>s. distinct (map fst s)"]) (auto intro: merge_distinct)

lemma traverseBasis_wf:
  assumes "traverseBasis basis seeds ix unc = Some (Inr (states, unc'))" "unc_inv unc"
  shows "distinct (map fst states)" "unc_inv unc'"
  using visit_rounds_wf [OF assms(1) [unfolded traverseBasis_def Let_def]] assms(2) seed_states_distinct by auto

section \<open>The comparators order by their keys\<close>

lemma or_else_neg [simp]: "or_else a b < 0 \<longleftrightarrow> a < 0 \<or> a = 0 \<and> b < 0"
  by (auto simp: or_else_def)

lemma BASIS_RANK_inj [simp]: "BASIS_RANK a = BASIS_RANK b \<longleftrightarrow> a = b"
  by (cases a; cases b) (simp_all add: BASIS_RANK_def)

lemma rank_difference_sign [simp]:
  "rank_difference a b < 0 \<longleftrightarrow> BASIS_RANK a < BASIS_RANK b" "rank_difference a b = 0 \<longleftrightarrow> a = b"
  by (auto simp: rank_difference_def)

lemma compareSeeds_sign: "compareSeeds l r < 0 \<longleftrightarrow> seed_key l < seed_key r"
  by (auto simp: compareSeeds_def seed_key_def)

lemma compareOccurrences_sign: "compareOccurrences l r < 0 \<longleftrightarrow> occurrence_key l < occurrence_key r"
  by (auto simp: compareOccurrences_def occurrence_key_def)

lemma compareUncertainties_sign: "compareUncertainties l r < 0 \<longleftrightarrow> uncertainty_key l < uncertainty_key r"
  by (auto simp: compareUncertainties_def uncertainty_key_def or_else_def comparePaths_sign)

lemma compareRecommendations_sign: "compareRecommendations l r < 0 \<longleftrightarrow> recommendation_key l < recommendation_key r"
  by (auto simp: compareRecommendations_def recommendation_key_def)

lemma compareVerificationReasons_sign: "compareVerificationReasons l r < 0 \<longleftrightarrow> reason_key l < reason_key r"
  by (auto simp: compareVerificationReasons_def reason_key_def)

lemma sort_key_strict: "distinct (map f xs) \<Longrightarrow> sorted_wrt (\<lambda>x y. f x < f y) (sort_key f xs)"
proof -
  assume "distinct (map f xs)"
  then have "distinct (map f (sort_key f xs))" by (metis mset_sort mset_map mset_eq_imp_distinct_iff)
  moreover have "sorted (map f (sort_key f xs))" by simp
  ultimately have "sorted_wrt (<) (map f (sort_key f xs))" by (simp add: strict_sorted_iff)
  then show ?thesis by (simp add: sorted_wrt_map)
qed

section \<open>Checks on strictly ordered lists\<close>

lemma check_increasing_ok: "sorted_wrt (\<lambda>x y. compare x y < 0) vs \<Longrightarrow> check_increasing compare vs = Inr ()"
  by (induction compare vs rule: check_increasing.induct) (auto simp: not_le)

lemma check_seeds_ok:
  "sorted_wrt (\<lambda>x y. compareSeeds x y < 0) seeds \<Longrightarrow> distinct (map sd_id seeds) \<Longrightarrow> set ids \<inter> sd_id ` set seeds = {} \<Longrightarrow>
     (\<And>p s. previous = Some p \<Longrightarrow> s \<in> set seeds \<Longrightarrow> compareSeeds p s < 0) \<Longrightarrow> check_seeds ids previous seeds = Inr ()"
proof (induction ids previous seeds rule: check_seeds.induct)
  case (2 ids previous seed seeds)
  have "\<not> (case previous of None \<Rightarrow> False | Some p \<Rightarrow> compareSeeds p seed \<ge> 0)"
    using "2.prems"(4) [of _ seed] by (auto split: option.split simp: not_le)
  then show ?case using 2 by (auto simp: not_le)
qed simp

text \<open>What the checks ask of an occurrence alone.\<close>

definition occurrence_ok :: "bool \<Rightarrow> impact_occurrence \<Rightarrow> bool" where
  "occurrence_ok direct v \<longleftrightarrow> oc_level v = level_of (oc_distance v) \<and> length (oc_canonicalPath v) = oc_distance v \<and>
     oc_canonicalPath v \<noteq> [] \<and> ps_toEntityId (last (oc_canonicalPath v)) = oc_entityId v \<and>
     (if direct then oc_distance v = 1 else oc_distance v \<ge> 2)"

abbreviation occurrence_id :: "impact_occurrence \<Rightarrow> string" where
  "occurrence_id v \<equiv> basis_key (oc_basis v) (oc_entityId v)"

lemma check_occurrences_ok:
  "sorted_wrt (\<lambda>x y. compareOccurrences x y < 0) vs \<Longrightarrow> distinct (map occurrence_id vs) \<Longrightarrow>
     set keys \<inter> occurrence_id ` set vs = {} \<Longrightarrow> (\<And>v. v \<in> set vs \<Longrightarrow> occurrence_ok direct v) \<Longrightarrow>
     (\<And>p v. previous = Some p \<Longrightarrow> v \<in> set vs \<Longrightarrow> compareOccurrences p v < 0) \<Longrightarrow>
     check_occurrences direct keys previous vs = Inr (rev (map occurrence_id vs) @ keys)"
proof (induction direct keys previous vs rule: check_occurrences.induct)
  case (2 direct keys previous v vs)
  have p: "\<not> (case previous of None \<Rightarrow> False | Some p \<Rightarrow> compareOccurrences p v \<ge> 0)"
    using "2.prems"(5) [of _ v] by (auto split: option.split simp: not_le)
  have ok: "occurrence_ok direct v" "occurrence_id v \<notin> set keys" using "2.prems"(3,4) by auto
  then have far: "\<not> direct \<Longrightarrow> \<not> oc_distance v < 2" by (simp add: occurrence_ok_def)
  have rest: "check_occurrences direct (occurrence_id v # keys) (Some v) vs = Inr (rev (map occurrence_id vs) @ occurrence_id v # keys)"
    by (rule "2.IH" [OF refl]) (use "2.prems" p ok far in \<open>auto simp: occurrence_ok_def\<close>)
  show ?case using p ok rest by (auto simp: occurrence_ok_def Let_def)
qed simp

section \<open>Occurrences\<close>

lemma basis_key_inj [simp]: "basis_key a v = basis_key b w \<longleftrightarrow> a = b \<and> v = w"
  by (cases a; cases b) (auto simp: basis_key_def)

lemma complete_states_entry:
  assumes c: "complete_states ix S states" and d: "distinct (map fst states)" and e: "(v, st) \<in> set states"
  shows "represents v st (rs_distance st) (impact_labels ix S (rs_distance st) v)"
proof -
  have "map_get states v = Some st" using d e by (simp add: map_get_def)
  then show ?thesis using c unfolding complete_states_def by (metis represents_def)
qed

lemma in_map_filter: "y \<in> set (List.map_filter f xs) \<longleftrightarrow> (\<exists>x \<in> set xs. f x = Some y)"
  by (force simp: List.map_filter_def)

lemma occurrences_of_in:
  "v \<in> set (occurrences_of seeds basis states) \<longleftrightarrow> (\<exists>u st. (u, st) \<in> set states \<and> occurrence basis st = Some v) \<and>
     (\<forall>entry \<in> set seeds. sd_basis (pg_seed entry) = basis \<longrightarrow> sd_anchorEntityId (pg_seed entry) \<noteq> oc_entityId v)"
  by (simp add: occurrences_of_def in_map_filter image_iff Bex_def split_paired_Ex) metis

lemma occurrence_ids:
  assumes "complete_states ix S states" "distinct (map fst states)"
  shows "distinct (map oc_entityId (occurrences_of seeds basis states))"
proof -
  have id: "rs_entityId st = v" if "(v, st) \<in> set states" for v st
    using complete_states_entry [OF assms that] by (simp add: represents_def)
  have "map oc_entityId (List.map_filter (occurrence basis) (map snd m)) = map fst (filter (\<lambda>e. rs_distance (snd e) \<noteq> 0) m)"
    if "set m \<subseteq> set states" for m
    using that by (induction m) (auto simp: map_filter_simps occurrence_def id)
  then have "distinct (map oc_entityId (List.map_filter (occurrence basis) (map snd states)))"
    using assms(2) by (simp add: distinct_map_filter)
  then show ?thesis unfolding occurrences_of_def Let_def by (rule distinct_map_filter)
qed

lemma occurrence_checked:
  assumes "complete_states ix S states" "distinct (map fst states)" "v \<in> set (occurrences_of seeds basis states)"
  shows "oc_basis v = basis" "occurrence_ok (oc_level v = DirectLevel) v"
proof -
  obtain u st where e: "(u, st) \<in> set states" "occurrence basis st = Some v" using assms(3) by (auto simp: occurrences_of_in)
  have r: "represents u st (rs_distance st) (impact_labels ix S (rs_distance st) u)"
    by (rule complete_states_entry [OF assms(1,2) e(1)])
  then have l: "(rs_canonicalSeedId st, rs_canonicalPath st) \<in> impact_labels ix S (rs_distance st) u" by (simp add: represents_def)
  have far: "rs_distance st \<noteq> 0" using e(2) by (simp add: occurrence_def split: if_splits)
  have len: "length (rs_canonicalPath st) = rs_distance st" using label_length [OF l] .
  then have "ps_toEntityId (last (rs_canonicalPath st)) = u" using label_target [OF l] far by fastforce
  then have "occurrence_ok (oc_level v = DirectLevel) v \<and> oc_basis v = basis"
    using e(2) r far len by (auto simp: occurrence_def occurrence_ok_def level_of_def represents_def split: if_splits)
  then show "oc_basis v = basis" "occurrence_ok (oc_level v = DirectLevel) v" by blast+
qed

text \<open>The two lists of occurrences pass their checks.\<close>

lemma occurrence_lists_ok:
  fixes fromStates toStates seeds
  defines "vs \<equiv> occurrences_of seeds FromBasis fromStates @ occurrences_of seeds ToBasis toStates"
  assumes f: "complete_states ixf Sf fromStates" "distinct (map fst fromStates)"
    and t: "complete_states ixt St toStates" "distinct (map fst toStates)"
  shows "\<exists>keys. check_occurrences True [] None (sort_key occurrence_key (filter (\<lambda>v. oc_level v = DirectLevel) vs)) = Inr keys \<and>
    is_ok (check_occurrences False keys None (sort_key occurrence_key (filter (\<lambda>v. oc_level v = TransitiveLevel) vs)))"
proof -
  let ?on = "\<lambda>l. sort_key occurrence_key (filter (\<lambda>v. oc_level v = l) vs)"
  have basis: "oc_basis v = FromBasis" if "v \<in> set (occurrences_of seeds FromBasis fromStates)" for v
    using occurrence_checked(1) [OF f that] .
  have basis': "oc_basis v = ToBasis" if "v \<in> set (occurrences_of seeds ToBasis toStates)" for v
    using occurrence_checked(1) [OF t that] .
  have dis: "distinct (map (\<lambda>v. (oc_basis v, oc_entityId v)) vs)"
    using occurrence_ids [OF f, of seeds FromBasis] occurrence_ids [OF t, of seeds ToBasis] basis basis'
    by (auto simp: vs_def distinct_map inj_on_def)
  have ok: "occurrence_ok (oc_level v = DirectLevel) v" if "v \<in> set vs" for v
    using that occurrence_checked(2) [OF f] occurrence_checked(2) [OF t] by (auto simp: vs_def)
  have ids: "distinct (map occurrence_id (?on l))" "sorted_wrt (\<lambda>x y. compareOccurrences x y < 0) (?on l)" for l
  proof -
    have inj: "inj_on (\<lambda>v. (oc_basis v, oc_entityId v)) (set vs)" "distinct vs" using dis by (simp_all add: distinct_map)
    then have "inj_on occurrence_id (set vs)" "inj_on occurrence_key (set vs)"
      by (auto simp: inj_on_def occurrence_key_def)
    then show "distinct (map occurrence_id (?on l))" "sorted_wrt (\<lambda>x y. compareOccurrences x y < 0) (?on l)"
      using inj(2) unfolding compareOccurrences_sign
      by (auto simp: distinct_map intro!: sort_key_strict elim!: inj_on_subset)
  qed
  have "check_occurrences True [] None (?on DirectLevel) = Inr (rev (map occurrence_id (?on DirectLevel)) @ [])"
  proof (rule check_occurrences_ok)
    show "occurrence_ok True v" if "v \<in> set (?on DirectLevel)" for v using that ok [of v] by simp
  qed (use ids [of DirectLevel] in simp_all)
  moreover have "check_occurrences False (rev (map occurrence_id (?on DirectLevel)) @ []) None (?on TransitiveLevel) =
      Inr (rev (map occurrence_id (?on TransitiveLevel)) @ rev (map occurrence_id (?on DirectLevel)) @ [])"
  proof (rule check_occurrences_ok)
    have "occurrence_id v \<noteq> occurrence_id w" if "v \<in> set vs" "w \<in> set vs" "oc_level v \<noteq> oc_level w" for v w
      using dis that by (auto simp: distinct_map inj_on_def)
    then show "set (rev (map occurrence_id (?on DirectLevel)) @ []) \<inter> occurrence_id ` set (?on TransitiveLevel) = {}" by fastforce
    show "occurrence_ok False v" if "v \<in> set (?on TransitiveLevel)" for v using that ok [of v] by simp
  qed (use ids [of TransitiveLevel] in simp_all)
  ultimately show ?thesis by simp
qed

section \<open>Uncertainties and recommendations\<close>

lemma uncertainties_increasing:
  assumes "unc_inv unc"
  shows "check_increasing compareUncertainties (sort_key uncertainty_key (map (\<lambda>(k, d). impact_uncertainty.truncate d) unc)) = Inr ()"
proof -
  let ?key = "\<lambda>u. stringify (JArray (map JString (uncertaintyIdentity u)))"
  have trunc: "uncertaintyIdentity (impact_uncertainty.truncate d) = uncertaintyIdentity d" for d :: uncertainty_draft
    by (simp add: uncertaintyIdentity_def impact_uncertainty.truncate_def)
  have "map ?key (map (\<lambda>(k, d). impact_uncertainty.truncate d) unc) = map fst unc"
    using assms by (auto simp: unc_inv_def trunc)
  moreover have "?key u = ?key w" if "uncertainty_key u = uncertainty_key w" for u w
    using that by (simp add: uncertainty_key_def)
  ultimately have "distinct (map uncertainty_key (map (\<lambda>(k, d). impact_uncertainty.truncate d) unc))"
    using assms unfolding unc_inv_def by (metis (no_types, lifting) distinct_map inj_on_def)
  then show ?thesis using sort_key_strict by (intro check_increasing_ok) (simp only: compareUncertainties_sign)
qed

definition recs_inv :: "recommendations \<Rightarrow> bool" where
  "recs_inv recs \<longleftrightarrow> distinct (map fst recs) \<and> (\<forall>(k, d) \<in> set recs. k = target_key (rd_target d))"

lemma recs_inv_add [simp]:
  assumes "recs_inv recs"
  shows "recs_inv (addRecommendation target reason recs)"
proof -
  have "target_key (rd_target d) = target_key target" if "map_get recs (target_key target) = Some d" for d
    using assms map_get_Some_in [OF that] by (auto simp: recs_inv_def)
  then show ?thesis using assms map_set_in [where m = recs]
    unfolding recs_inv_def addRecommendation_def Let_def by (fastforce split: option.splits)
qed

definition verify_wf :: "verify_state \<Rightarrow> bool" where
  "verify_wf st = (case st of (recs, unc) \<Rightarrow> recs_inv recs \<and> unc_inv unc)"

lemma verify_mapping_wf:
  "verify_wf (fst st) \<Longrightarrow> verify_mapping ix src entity fct st = Inr st' \<Longrightarrow> verify_wf (fst st')"
  by (cases st) (auto simp: verify_mapping_def verify_wf_def throw_def split: if_splits semantic_fact_object.splits prod.splits)

lemma verify_source_wf: "verify_wf st \<Longrightarrow> verify_source indexes src st = Inr st' \<Longrightarrow> verify_wf st'"
proof -
  assume wf: "verify_wf st" and v: "verify_source indexes src st = Inr st'"
  obtain recs unc where st: "st = (recs, unc)" by (cases st)
  let ?ix = "indexes (so_basis src)"
  obtain entity where e: "map_get (entityById ?ix) (so_entityId src) = Some entity"
    using v by (auto simp: verify_source_def st throw_def Let_def split: option.splits)
  have loop: "verify_wf (fst s')" if "fold_r (verify_mapping ?ix src entity) fs ((recs, unc), False, False) = Inr s'" for fs s'
    using fold_r_invariant [where P = "\<lambda>s. verify_wf (fst s)", OF verify_mapping_wf _ that] wf by (simp add: st)
  show "verify_wf st'"
    using v wf loop by (fastforce simp: verify_source_def st e Let_def verify_wf_def split: if_splits)
qed

lemma recommendations_increasing:
  assumes "recs_inv recs"
  shows "check_increasing compareRecommendations (sort_key recommendation_key (map (\<lambda>(k, d). recommendation_of d) recs)) = Inr ()"
proof -
  have "map (\<lambda>r. target_key (rec_target r)) (map (\<lambda>(k, d). recommendation_of d) recs) = map fst recs"
    using assms by (auto simp: recs_inv_def recommendation_of_def)
  moreover have "target_key (rec_target r) = target_key (rec_target s)" if "recommendation_key r = recommendation_key s" for r s
    using that by (simp add: recommendation_key_def target_key_def)
  ultimately have "distinct (map recommendation_key (map (\<lambda>(k, d). recommendation_of d) recs))"
    using assms unfolding recs_inv_def by (metis (no_types, lifting) distinct_map inj_on_def)
  then show ?thesis using sort_key_strict by (intro check_increasing_ok) (simp only: compareRecommendations_sign)
qed

lemma collectVerification_wf:
  assumes v: "collectVerification sources indexes unc = Inr (verification, unc')" and "unc_inv unc"
  shows "check_increasing compareRecommendations verification = Inr ()" "unc_inv unc'"
proof -
  obtain recs where f: "fold_r (verify_source indexes) sources ([], unc) = Inr (recs, unc')"
    and vs: "verification = sort_key recommendation_key (map (\<lambda>(k, d). recommendation_of d) recs)"
    using v by (auto simp: collectVerification_def)
  have "verify_wf ([], unc)" using assms(2) by (simp add: verify_wf_def recs_inv_def)
  from fold_r_invariant [where P = verify_wf, OF _ this f] have "verify_wf (recs, unc')" using verify_source_wf by blast
  then show "check_increasing compareRecommendations verification = Inr ()" "unc_inv unc'"
    using recommendations_increasing by (simp_all add: verify_wf_def vs)
qed

end
