(* ===== verification/JsonText.thy ===== *)
theory JsonText
  imports Canonical
begin

text \<open>
  Quoted strings can be read back: \<open>JSON.stringify\<close> of objects whose members are strings, and of arrays of strings that may be absent, is injective, because the quoted text
  of a string is never a prefix of another one followed by more text.
\<close>

definition unescape_short :: "char \<Rightarrow> char" where
  "unescape_short c = (if c = CHR ''b'' then CHR 0x08 else if c = CHR ''t'' then CHR 0x09 else if c = CHR ''n'' then CHR 0x0A
     else if c = CHR ''f'' then CHR 0x0C else if c = CHR ''r'' then CHR 0x0D else c)"

definition hex_value :: "char \<Rightarrow> nat" where
  "hex_value c = (if is_digit c then of_char c - 48 else of_char c - 87)"

text \<open>Reads one escaped code unit and returns the rest.\<close>

fun read_unit :: "string \<Rightarrow> (char \<times> string) option" where
  "read_unit [] = None"
| "read_unit (c # s) = (if c \<noteq> CHR 0x5C then Some (c, s) else (case s of
     [] \<Rightarrow> None
   | d # s \<Rightarrow> if d \<noteq> CHR ''u'' then Some (unescape_short d, s)
       else (case s of _ # _ # h # l # s \<Rightarrow> Some (char_of (16 * hex_value h + hex_value l), s) | _ \<Rightarrow> None)))"

lemma hex_value_digit: "n < 16 \<Longrightarrow> hex_value (hex_digit n) = n"
  by (auto simp: hex_value_def hex_digit_def is_digit_def)

lemma control_char:
  "of_char c = (8 :: nat) \<Longrightarrow> c = CHR 0x08" "of_char c = (9 :: nat) \<Longrightarrow> c = CHR 0x09" "of_char c = (10 :: nat) \<Longrightarrow> c = CHR 0x0A"
  "of_char c = (12 :: nat) \<Longrightarrow> c = CHR 0x0C" "of_char c = (13 :: nat) \<Longrightarrow> c = CHR 0x0D"
  by (rule of_char_eqI [where 'a = nat], simp)+

lemma read_escaped: "read_unit (escape_char c @ x) = Some (c, x)"
proof -
  let ?n = "of_char c :: nat"
  have "char_of (16 * (?n div 16) + ?n mod 16) = c" by simp
  then have u: "read_unit (CHR 0x5C # ''u00'' @ [hex_digit (?n div 16), hex_digit (?n mod 16)] @ x) = Some (c, x)" if "?n < 32"
    using that by (simp add: hex_value_digit)
  consider "c = CHR 0x22" | "c = CHR 0x5C" | "?n = 8" | "?n = 9" | "?n = 10" | "?n = 12" | "?n = 13"
    | "?n < 32" "?n \<notin> {8, 9, 10, 12, 13}" "c \<noteq> CHR 0x22" "c \<noteq> CHR 0x5C" | "?n \<ge> 32" "c \<noteq> CHR 0x22" "c \<noteq> CHR 0x5C" by fastforce
  then show ?thesis
  proof cases
    case 8
    then show ?thesis using u by (simp add: escape_char_def Let_def)
  qed (auto simp: escape_char_def Let_def unescape_short_def dest: control_char)
qed

lemma escape_char_not_quote: "\<exists>a s. escape_char c = a # s \<and> a \<noteq> CHR 0x22"
  by (auto simp: escape_char_def Let_def)

lemma escaped_prefix:
  "concat (map escape_char s) @ CHR 0x22 # x = concat (map escape_char t) @ CHR 0x22 # y \<Longrightarrow> s = t \<and> x = y"
proof (induction s arbitrary: t)
  case Nil
  then show ?case using escape_char_not_quote by (cases t) (auto, metis append_Cons list.inject)
next
  case (Cons c s)
  show ?case
  proof (cases t)
    case Nil
    then show ?thesis using Cons.prems escape_char_not_quote [of c] by auto
  next
    case t: (Cons d u)
    have "read_unit (escape_char c @ concat (map escape_char s) @ CHR 0x22 # x) =
        read_unit (escape_char d @ concat (map escape_char u) @ CHR 0x22 # y)"
      using Cons.prems t by simp
    then show ?thesis using Cons.IH [of u] t by (simp add: read_escaped)
  qed
qed

lemma quote_string_prefix: "quote_string s @ x = quote_string t @ y \<longleftrightarrow> s = t \<and> x = y"
  using escaped_prefix [of s x t y] by (auto simp: quote_string_def)

text \<open>Objects of strings.\<close>

definition strings_object :: "(string \<times> string) list \<Rightarrow> json" where
  "strings_object kvs = JObject (map (\<lambda>(k, v). (k, JString v)) kvs)"

definition member_text :: "string \<times> string \<Rightarrow> string" where
  "member_text kv = quote_string (fst kv) @ '':'' @ quote_string (snd kv)"

lemma stringify_strings_object: "stringify (strings_object kvs) = ''{'' @ join_with '','' (map member_text kvs) @ ''}''"
  by (simp add: strings_object_def member_text_def [abs_def] comp_def case_prod_beta)

lemma member_text_prefix: "member_text a @ x = member_text b @ y \<longleftrightarrow> a = b \<and> x = y"
  by (cases a; cases b) (auto simp: member_text_def quote_string_prefix)

text \<open>
  Texts that can be read off the front of a longer one can also be read off a list of them that is
  separated by commas and closed by a character with which none of them begins.
\<close>

locale prefix_code =
  fixes text_of :: "'a \<Rightarrow> string" and close :: char
  assumes text_prefix: "text_of a @ x = text_of b @ y \<Longrightarrow> a = b \<and> x = y"
    and text_start: "\<exists>c s. text_of a = c # s \<and> c \<noteq> close"
    and close_no_comma: "close \<noteq> CHR '',''"
begin

lemma list_prefix:
  "join_with '','' (map text_of as) @ close # x = join_with '','' (map text_of bs) @ close # y \<Longrightarrow> as = bs \<and> x = y"
proof (induction as arbitrary: bs)
  case Nil
  show ?case
  proof (cases bs)
    case (Cons b bs')
    obtain c s where "text_of b = c # s" "c \<noteq> close" using text_start by blast
    then show ?thesis using Nil Cons by (cases bs') auto
  qed (use Nil in simp)
next
  case (Cons a as)
  have tail: "join_with '','' (map text_of (c # cs)) @ close # z = text_of c @
      (if cs = [] then close # z else '','' @ join_with '','' (map text_of cs) @ close # z)" for c cs z
    by (cases cs) simp_all
  obtain c s where start: "text_of a = c # s" "c \<noteq> close" using text_start by blast
  obtain b bs' where bs: "bs = b # bs'"
    using Cons.prems start unfolding tail by (cases bs) auto
  have "a = b \<and> (if as = [] then close # x else '','' @ join_with '','' (map text_of as) @ close # x) =
      (if bs' = [] then close # y else '','' @ join_with '','' (map text_of bs') @ close # y)"
    using Cons.prems unfolding bs tail by (rule text_prefix)
  then show ?case using Cons.IH [of bs'] bs close_no_comma by (auto split: if_splits)
qed

lemma list_inj:
  "join_with '','' (map text_of as) @ [close] = join_with '','' (map text_of bs) @ [close] \<Longrightarrow> as = bs"
  using list_prefix [of as "[]" bs "[]"] by simp

end

interpretation member: prefix_code member_text "CHR ''}''"
  by unfold_locales (auto simp: member_text_prefix, auto simp: member_text_def quote_string_def)

lemma strings_object_inj: "stringify (strings_object as) = stringify (strings_object bs) \<longleftrightarrow> as = bs"
  using member.list_inj [of as bs] by (auto simp: stringify_strings_object)

text \<open>Arrays of such objects.\<close>

interpretation strings_objects: prefix_code "\<lambda>kvs. stringify (strings_object kvs)" "CHR '']''"
proof unfold_locales
  fix a b x y assume "stringify (strings_object a) @ x = stringify (strings_object b) @ y"
  then show "a = b \<and> x = y" using member.list_prefix [of a x b y] by (simp add: stringify_strings_object)
qed (simp_all add: stringify_strings_object)

lemma strings_objects_inj:
  "stringify (JArray (map strings_object as)) = stringify (JArray (map strings_object bs)) \<longleftrightarrow> as = bs"
  using strings_objects.list_inj [of as bs] by (auto simp: comp_def)

text \<open>Arrays of strings that may be absent: an absent one is printed as \<open>null\<close>.\<close>

definition optional_array :: "string option list \<Rightarrow> json" where
  "optional_array vs = JArray (map (\<lambda>v. case v of None \<Rightarrow> JNull | Some s \<Rightarrow> JString s) vs)"

definition element_text :: "string option \<Rightarrow> string" where
  "element_text v = (case v of None \<Rightarrow> ''null'' | Some s \<Rightarrow> quote_string s)"

lemma stringify_optional_array: "stringify (optional_array vs) = ''['' @ join_with '','' (map element_text vs) @ '']''"
proof -
  have "stringify (case v of None \<Rightarrow> JNull | Some s \<Rightarrow> JString s) = element_text v" for v
    by (cases v) (simp_all add: element_text_def)
  then show ?thesis by (simp add: optional_array_def comp_def)
qed

lemma element_text_prefix: "element_text a @ x = element_text b @ y \<longleftrightarrow> a = b \<and> x = y"
  using quote_string_prefix by (cases a; cases b) (auto simp: element_text_def quote_string_def)

interpretation element: prefix_code element_text "CHR '']''"
  by unfold_locales (auto simp: element_text_prefix, auto simp: element_text_def quote_string_def split: option.splits)

lemma optional_array_inj: "stringify (optional_array as) = stringify (optional_array bs) \<longleftrightarrow> as = bs"
  using element.list_inj [of as bs] by (auto simp: stringify_optional_array)

end
