(* ===== verification/ImpactSeeds.thy ===== *)
theory ImpactSeeds
  imports ImpactOutput JsonText
begin

text \<open>
  The seeds of \<open>collectEntitySeeds\<close> and \<open>collectFactSeeds\<close>: where they come from, and that their identifiers differ as long as
  SHA-256 has no collision on the texts it is given.
\<close>

section \<open>Identifiers\<close>

text \<open>What an identifier is the digest of.\<close>

definition seed_tuple :: "impact_seed \<Rightarrow> string \<times> impact_basis \<times> string option \<times> string option \<times> string option" where
  "seed_tuple s = (sd_kind s, sd_basis s, sd_entityId s, sd_factId s, sd_assertionId s)"

definition optional_member :: "string \<Rightarrow> string option \<Rightarrow> (string \<times> string) list" where
  "optional_member k v = (case v of None \<Rightarrow> [] | Some s \<Rightarrow> [(k, s)])"

definition seed_payload :: "impact_seed \<Rightarrow> (string \<times> string) list" where
  "seed_payload s = [(''kind'', sd_kind s), (''basis'', basis_name (sd_basis s))] @ optional_member ''entityId'' (sd_entityId s)
     @ optional_member ''factId'' (sd_factId s) @ optional_member ''assertionId'' (sd_assertionId s)"

definition seed_text :: "impact_seed \<Rightarrow> string" where
  "seed_text s = stringify (strings_object (optional_member ''assertionId'' (sd_assertionId s) @
     [(''basis'', basis_name (sd_basis s)), (''domain'', ''engineering-ir-impact-seed-v1'')] @
     optional_member ''entityId'' (sd_entityId s) @ optional_member ''factId'' (sd_factId s) @ [(''kind'', sd_kind s)]))"

lemma seed_text_inj: "seed_text s = seed_text t \<Longrightarrow> seed_tuple s = seed_tuple t"
  unfolding seed_text_def strings_object_inj
  by (cases "sd_basis s"; cases "sd_basis t") (auto simp: seed_tuple_def optional_member_def split: option.splits)

lemma seedDigest_text: "seedDigest digest (seed_payload s) = Inr (''sha256:'' @ digest (seed_text s))"
proof -
  let ?o = "JObject ((''domain'', JString ''engineering-ir-impact-seed-v1'') # map (\<lambda>(k, v). (k, JString v)) (seed_payload s))"
  have "finite_json ?o" by (auto simp: seed_payload_def optional_member_def split: option.split)
  moreover have "stringify (canonical_form ?o) = seed_text s"
    unfolding seed_payload_def seed_text_def strings_object_def optional_member_def
    by (cases "sd_entityId s"; cases "sd_factId s"; cases "sd_assertionId s")
      (simp_all add: own_property_order_def is_array_index_def is_digit_def char_between_def)
  ultimately show ?thesis unfolding seedDigest_def by (simp only: sha256_eq)
qed

definition seed_made :: "(string \<Rightarrow> string) \<Rightarrow> impact_seed \<Rightarrow> bool" where
  "seed_made digest s \<longleftrightarrow> sd_id s = ''sha256:'' @ digest (seed_text s)"

definition plain_seed ::
  "string \<Rightarrow> impact_basis \<Rightarrow> string option \<Rightarrow> string option \<Rightarrow> string option \<Rightarrow> string \<Rightarrow> string list option \<Rightarrow> impact_seed" where
  "plain_seed kind basis e f a anchor changed = \<lparr>sd_id = [], sd_kind = kind, sd_basis = basis, sd_entityId = e, sd_factId = f,
     sd_assertionId = a, sd_anchorEntityId = anchor, sd_changedFields = changed\<rparr>"

definition identified :: "(string \<Rightarrow> string) \<Rightarrow> impact_seed \<Rightarrow> impact_seed" where
  "identified digest s = s\<lparr>sd_id := ''sha256:'' @ digest (seed_text s)\<rparr>"

lemma seed_text_id [simp]: "seed_text (s\<lparr>sd_id := i\<rparr>) = seed_text s"
  by (simp add: seed_text_def)

lemma identified_fields [simp]:
  "seed_made digest (identified digest s)" "sd_kind (identified digest s) = sd_kind s" "sd_basis (identified digest s) = sd_basis s"
  "sd_entityId (identified digest s) = sd_entityId s" "sd_factId (identified digest s) = sd_factId s"
  "sd_assertionId (identified digest s) = sd_assertionId s" "sd_anchorEntityId (identified digest s) = sd_anchorEntityId s"
  by (simp_all add: identified_def seed_made_def)

lemma plain_seed_fields [simp]:
  "sd_kind (plain_seed k b e f a anchor fs) = k" "sd_basis (plain_seed k b e f a anchor fs) = b"
  "sd_entityId (plain_seed k b e f a anchor fs) = e" "sd_factId (plain_seed k b e f a anchor fs) = f"
  "sd_assertionId (plain_seed k b e f a anchor fs) = a" "sd_anchorEntityId (plain_seed k b e f a anchor fs) = anchor"
  by (simp_all add: plain_seed_def)

lemma seed_constructors:
  "entitySeed digest kind b e = Inr (identified digest (plain_seed kind b (Some e) None None e None))"
  "updatedEntitySeed digest b e fs = Inr (identified digest (plain_seed ''entity-updated'' b (Some e) None None e (Some fs)))"
  "factSeed digest kind b f = Inr (identified digest (plain_seed kind b None (Some (fact_id f)) None (fact_subject f) None))"
  "assertionSeed digest kind b f a =
     Inr (identified digest (plain_seed kind b None (Some (fact_id f)) (Some a) (fact_subject f) None))"
  "assertionUpdateSeed digest b f a fs =
     Inr (identified digest (plain_seed ''assertion-updated'' b None (Some (fact_id f)) (Some a) (fact_subject f) (Some fs)))"
  using seedDigest_text [of digest "plain_seed kind b (Some e) None None e None"]
    seedDigest_text [of digest "plain_seed ''entity-updated'' b (Some e) None None e (Some fs)"]
    seedDigest_text [of digest "plain_seed kind b None (Some (fact_id f)) None (fact_subject f) None"]
    seedDigest_text [of digest "plain_seed kind b None (Some (fact_id f)) (Some a) (fact_subject f) None"]
    seedDigest_text [of digest "plain_seed ''assertion-updated'' b None (Some (fact_id f)) (Some a) (fact_subject f) (Some fs)"]
  by (simp_all add: entitySeed_def updatedEntitySeed_def factSeed_def assertionSeed_def assertionUpdateSeed_def
      seed_payload_def optional_member_def identified_def plain_seed_def)

section \<open>Entity seeds\<close>

text \<open>A seed of an entity is about an entity of its own basis and anchored there.\<close>

definition entity_entry :: "(string \<Rightarrow> string) \<Rightarrow> string set \<Rightarrow> string set \<Rightarrow> propagating_seed \<Rightarrow> bool" where
  "entity_entry digest from to e \<longleftrightarrow> seed_made digest (pg_seed e) \<and> pg_propagates e \<and>
     sd_factId (pg_seed e) = None \<and> sd_assertionId (pg_seed e) = None \<and>
     sd_kind (pg_seed e) \<in> {''entity-added'', ''entity-removed'', ''entity-updated''} \<and>
     sd_entityId (pg_seed e) = Some (sd_anchorEntityId (pg_seed e)) \<and>
     sd_anchorEntityId (pg_seed e) \<in> (case sd_basis (pg_seed e) of FromBasis \<Rightarrow> from | ToBasis \<Rightarrow> to)"

abbreviation seed_place :: "propagating_seed \<Rightarrow> impact_basis \<times> string option" where
  "seed_place e \<equiv> (sd_basis (pg_seed e), sd_entityId (pg_seed e))"

lemma entity_entry_mono: "entity_entry digest A B e \<Longrightarrow> A \<subseteq> A' \<Longrightarrow> B \<subseteq> B' \<Longrightarrow> entity_entry digest A' B' e"
  by (auto simp: entity_entry_def split: impact_basis.splits)

lemma entity_place: "entity_entry digest A B e \<Longrightarrow> seed_place e \<in> {(FromBasis, Some i) | i. i \<in> A} \<union> {(ToBasis, Some i) | i. i \<in> B}"
  by (auto simp: entity_entry_def split: impact_basis.splits)

definition entity_entries :: "(string \<Rightarrow> string) \<Rightarrow> string set \<Rightarrow> string set \<Rightarrow> propagating_seed list \<Rightarrow> bool" where
  "entity_entries digest from to seeds \<longleftrightarrow> (\<forall>e \<in> set seeds. entity_entry digest from to e) \<and> distinct (map seed_place seeds)"

lemma entity_entries_mono:
  "entity_entries digest A B seeds \<Longrightarrow> A \<subseteq> A' \<Longrightarrow> B \<subseteq> B' \<Longrightarrow> entity_entries digest A' B' seeds"
  using entity_entry_mono unfolding entity_entries_def by blast

lemma entity_entries_push:
  assumes "entity_entries digest A B seeds" "A \<subseteq> A'" "B \<subseteq> B'" "entity_entry digest A' B' e"
    "seed_place e \<notin> {(FromBasis, Some i) | i. i \<in> A} \<union> {(ToBasis, Some i) | i. i \<in> B}"
  shows "entity_entries digest A' B' (e # seeds)"
proof -
  have "seed_place d \<noteq> seed_place e" if "d \<in> set seeds" for d
    using entity_place [of digest A B d] that assms(1,5) unfolding entity_entries_def by metis
  then have "seed_place e \<notin> seed_place ` set seeds" by (metis (no_types, lifting) image_iff)
  then show ?thesis using assms(4) entity_entries_mono [OF assms(1-3)] by (simp add: entity_entries_def)
qed

definition made_entry :: "(string \<Rightarrow> string) \<Rightarrow> string \<Rightarrow> impact_basis \<Rightarrow> string \<Rightarrow> string list option \<Rightarrow> propagating_seed" where
  "made_entry digest kind b i changed =
     \<lparr>pg_seed = identified digest (plain_seed kind b (Some i) None None i changed), pg_propagates = True\<rparr>"

lemma made_entry_place [simp]: "seed_place (made_entry digest kind b i changed) = (b, Some i)"
  by (simp add: made_entry_def)

lemma made_entry_ok:
  "kind \<in> {''entity-added'', ''entity-removed'', ''entity-updated''} \<Longrightarrow> i \<in> (case b of FromBasis \<Rightarrow> A | ToBasis \<Rightarrow> B) \<Longrightarrow>
     entity_entry digest A B (made_entry digest kind b i changed)"
  by (simp add: made_entry_def entity_entry_def)

lemma push_entity [simp]:
  "push_before (pushed True (entitySeed digest kind b i)) (Inr seeds) = Inr (made_entry digest kind b i None # seeds)"
  "push_before (pushed True (updatedEntitySeed digest b i fs)) (Inr seeds) =
     Inr (made_entry digest ''entity-updated'' b i (Some fs) # seeds)"
  by (simp_all add: push_before_def pushed_def seed_constructors made_entry_def)

lemma push_made:
  assumes "entity_entries digest A B seeds" "kind \<in> {''entity-added'', ''entity-removed'', ''entity-updated''}"
    and "case b of FromBasis \<Rightarrow> i \<notin> A \<and> A' = insert i A \<and> B' = B | ToBasis \<Rightarrow> i \<notin> B \<and> B' = insert i B \<and> A' = A"
  shows "entity_entries digest A' B' (made_entry digest kind b i changed # seeds)"
  by (rule entity_entries_push [OF assms(1)])
    (use assms(2,3) in \<open>auto intro!: made_entry_ok split: impact_basis.splits\<close>)

lemma entity_seeds_same:
  assumes same: "ent_id f = ent_id t" "ent_kind f = ent_kind t" and new: "ent_id f \<notin> ent_id ` set fs" "ent_id t \<notin> ent_id ` set ts"
    and s: "entity_seeds digest fs ts = Inr seeds" "entity_entries digest (ent_id ` set fs) (ent_id ` set ts) seeds"
  shows "\<exists>seeds. entity_seeds digest (f # fs) (t # ts) = Inr seeds \<and>
    entity_entries digest (ent_id ` set (f # fs)) (ent_id ` set (t # ts)) seeds"
proof (cases "entityChangedFields f t = []")
  let ?F = "ent_id ` set (f # fs)" and ?T = "ent_id ` set (t # ts)"
  case True
  have "entity_entries digest ?F ?T seeds" by (rule entity_entries_mono [OF s(2)]) auto
  then show ?thesis using True s(1) same by (simp add: compareCodeUnits_def)
next
  let ?F = "ent_id ` set (f # fs)" and ?T = "ent_id ` set (t # ts)"
  case False
  have r: "entity_entries digest (ent_id ` set fs) ?T
      (made_entry digest ''entity-updated'' ToBasis (ent_id t) (Some (entityChangedFields f t)) # seeds)"
    by (rule push_made [OF s(2)]) (use new in simp_all)
  show ?thesis
    using s(1) same False push_made [OF r, where kind = "''entity-updated''" and b = FromBasis and i = "ent_id f" and A' = ?F and B' = ?T] new
    by (simp add: Let_def compareCodeUnits_def)
qed

lemma entity_seeds_entries:
  assumes "\<And>f t. f \<in> set fs \<Longrightarrow> t \<in> set ts \<Longrightarrow> ent_id f = ent_id t \<Longrightarrow> ent_kind f = ent_kind t"
    and "ordered_by ent_id fs" "ordered_by ent_id ts"
  shows "\<exists>seeds. entity_seeds digest fs ts = Inr seeds \<and> entity_entries digest (ent_id ` set fs) (ent_id ` set ts) seeds"
  using assms
proof (induction digest fs ts rule: entity_seeds.induct)
  case (1 digest)
  then show ?case by (simp add: entity_entries_def)
next
  case (2 digest t ts)
  have new: "ent_id t \<notin> ent_id ` set ts" using "2.prems"(3) by auto
  obtain seeds where s: "entity_seeds digest [] ts = Inr seeds" "entity_entries digest {} (ent_id ` set ts) seeds"
    using "2.IH" "2.prems"(3) by (simp, blast)
  then show ?case using push_made [OF s(2), where kind = "''entity-added''" and b = ToBasis and i = "ent_id t"] new by simp
next
  case (3 digest f fs)
  have new: "ent_id f \<notin> ent_id ` set fs" using "3.prems"(2) by auto
  obtain seeds where s: "entity_seeds digest fs [] = Inr seeds" "entity_entries digest (ent_id ` set fs) {} seeds"
    using "3.IH" "3.prems"(2) by (simp, blast)
  then show ?case using push_made [OF s(2), where kind = "''entity-removed''" and b = FromBasis and i = "ent_id f"] new by simp
next
  case (4 digest f fs t ts)
  let ?F = "ent_id ` set (f # fs)" and ?T = "ent_id ` set (t # ts)"
  have new: "ent_id f \<notin> ent_id ` set fs" "ent_id t \<notin> ent_id ` set ts" using "4.prems"(2,3) by auto
  consider "ent_id f < ent_id t" | "ent_id t < ent_id f" | "ent_id f = ent_id t" by fastforce
  then show ?case
  proof cases
    case 1
    then obtain seeds where s: "entity_seeds digest fs (t # ts) = Inr seeds" "entity_entries digest (ent_id ` set fs) ?T seeds"
      using "4.IH"(1) [OF refl] "4.prems" by auto
    show ?thesis using 1 s(1) push_made [OF s(2), where kind = "''entity-removed''" and b = FromBasis and i = "ent_id f" and A' = ?F and B' = ?T] new
      by (simp add: Let_def del: image_eqI)
  next
    case 2
    then have c: "\<not> compareCodeUnits (ent_id f) (ent_id t) < 0" "compareCodeUnits (ent_id f) (ent_id t) > 0"
      by (auto simp: compareCodeUnits_def)
    then obtain seeds where s: "entity_seeds digest (f # fs) ts = Inr seeds" "entity_entries digest ?F (ent_id ` set ts) seeds"
      using "4.IH"(2) [OF refl] "4.prems" by auto
    show ?thesis using c s(1) push_made [OF s(2), where kind = "''entity-added''" and b = ToBasis and i = "ent_id t" and A' = ?F and B' = ?T] new
      by (simp add: Let_def)
  next
    case 3
    then have c: "\<not> compareCodeUnits (ent_id f) (ent_id t) < 0" "\<not> compareCodeUnits (ent_id f) (ent_id t) > 0" "ent_kind f = ent_kind t"
      using "4.prems"(1) [of f t] by (simp_all add: compareCodeUnits_def)
    have admitted: "throw_if (ent_kind f \<noteq> ent_kind t) (impact_failure ''IMPACT-004'' [ent_id f]) = Inr ()" using c(3) by simp
    have kinds: "f' \<in> set fs \<Longrightarrow> t' \<in> set ts \<Longrightarrow> ent_id f' = ent_id t' \<Longrightarrow> ent_kind f' = ent_kind t'" for f' t'
      using "4.prems"(1) by simp
    have ordered: "ordered_by ent_id fs" "ordered_by ent_id ts" using "4.prems"(2,3) by simp_all
    obtain seeds where s: "entity_seeds digest fs ts = Inr seeds" "entity_entries digest (ent_id ` set fs) (ent_id ` set ts) seeds"
      using "4.IH"(3) [OF refl c(1,2) admitted refl] "4.IH"(4) [OF refl c(1,2) admitted refl] kinds ordered by blast
    show ?thesis by (rule entity_seeds_same [OF 3 c(3) new s])
  qed
qed

section \<open>The delta\<close>

lemma merge_diff_members:
  "merge_diff key pair fs ts = Inr (added, removed, changed) \<Longrightarrow> set added \<subseteq> set ts \<and> set removed \<subseteq> set fs \<and>
     (\<forall>c \<in> set changed. \<exists>f \<in> set fs. \<exists>t \<in> set ts. key f = key t \<and> pair f t = Inr (Some c))"
proof (induction key pair fs ts arbitrary: added removed changed rule: merge_diff.induct)
  case (4 key pair f fs t ts)
  consider "key f < key t" | "key t < key f" | "key f = key t" by fastforce
  then show ?case
  proof cases
    case 1
    then obtain r where "merge_diff key pair fs (t # ts) = Inr (added, r, changed)" "removed = f # r" using "4.prems" by auto
    then show ?thesis using "4.IH"(1) [OF 1] by fastforce
  next
    case 2
    then have n: "\<not> key f < key t" by auto
    obtain a where "merge_diff key pair (f # fs) ts = Inr (a, removed, changed)" "added = t # a" using "4.prems" 2 n by auto
    then show ?thesis using "4.IH"(2) [OF n 2] by fastforce
  next
    case 3
    then have n: "\<not> key f < key t" "\<not> key t < key f" by auto
    obtain c cs where "pair f t = Inr c" "merge_diff key pair fs ts = Inr (added, removed, cs)"
      "changed = (case c of None \<Rightarrow> cs | Some c \<Rightarrow> c # cs)" using "4.prems" n by auto
    then show ?thesis using "4.IH"(3) [OF n] 3 by (fastforce split: option.splits)
  qed
qed fastforce+

lemma disjoint_distinct: "assert_disjoint seen ids = Inr () \<Longrightarrow> distinct ids \<and> set seen \<inter> set ids = {}"
  by (induction seen ids rule: assert_disjoint.induct) (auto simp: throw_def split: if_splits)

text \<open>What a delta that was built has to do with the two fact sets.\<close>

definition delta_of :: "semantic_fact list \<Rightarrow> semantic_fact list \<Rightarrow> fact_delta \<Rightarrow> bool" where
  "delta_of before after delta \<longleftrightarrow> set (dl_added delta) \<subseteq> set after \<and> set (dl_removed delta) \<subseteq> set before \<and>
     (\<forall>c \<in> set (dl_changed delta). ch_factId c \<in> fact_id ` set before \<and> ch_factId c \<in> fact_id ` set after) \<and>
     distinct (map fact_id (dl_added delta)) \<and> distinct (map fact_id (dl_removed delta)) \<and> distinct (map ch_factId (dl_changed delta)) \<and>
     (\<forall>c \<in> set (dl_changed delta). distinct (map as_id (ch_addedAssertions c)) \<and> distinct (map as_id (ch_removedAssertions c)) \<and>
        distinct (map up_assertionId (ch_updatedAssertions c)))"

lemma diff_fact_pair_id: "diff_fact_pair f t = Inr (Some c) \<Longrightarrow> ch_factId c = fact_id f"
  by (auto simp: diff_fact_pair_def diffAssertions_def throw_def split: if_splits)

lemma built_delta:
  assumes "buildFactDelta digest from to = Inr delta"
  shows "delta_of (facts (ctx_ir from)) (facts (ctx_ir to)) delta"
proof -
  obtain added removed changed where d: "diffFacts (facts (ctx_ir from)) (facts (ctx_ir to)) = Inr (added, removed, changed)"
    and inv: "assertOutputInvariants added removed changed = Inr ()"
    and l: "dl_added delta = added" "dl_removed delta = removed" "dl_changed delta = changed"
    using assms by (auto simp: buildFactDelta_def Let_def)
  have "assert_disjoint [] (map fact_id added @ map fact_id removed @ map ch_factId changed) = Inr ()"
    and each: "\<forall>c \<in> set changed. assert_change c = Inr ()"
    using inv by (auto simp: assertOutputInvariants_def check_all_Inr_iff)
  then have dis: "distinct (map fact_id added @ map fact_id removed @ map ch_factId changed)" using disjoint_distinct by blast
  have "distinct (map as_id (ch_addedAssertions c) @ map as_id (ch_removedAssertions c) @ map up_assertionId (ch_updatedAssertions c))"
    if "c \<in> set changed" for c
  proof -
    have "assert_disjoint [] (map as_id (ch_addedAssertions c) @ map as_id (ch_removedAssertions c) @
        map up_assertionId (ch_updatedAssertions c)) = Inr ()"
      using each that by (auto simp: assert_change_def)
    then show ?thesis using disjoint_distinct by blast
  qed
  note assertions = this
  note members = merge_diff_members [OF d [unfolded diffFacts_def]]
  have "ch_factId c \<in> fact_id ` set (facts (ctx_ir from)) \<and> ch_factId c \<in> fact_id ` set (facts (ctx_ir to))"
    if "c \<in> set changed" for c
    using members that diff_fact_pair_id by (metis image_eqI)
  then show ?thesis using dis members assertions unfolding delta_of_def l by simp
qed

section \<open>Fact seeds\<close>

lemma fold_index_facts:
  "map_get (factById (fold index_fact fs ix)) i = Some f \<Longrightarrow> (f \<in> set fs \<and> fact_id f = i) \<or> map_get (factById ix) i = Some f"
  "i \<in> fact_id ` set fs \<or> map_get (factById ix) i \<noteq> None \<Longrightarrow> map_get (factById (fold index_fact fs ix)) i \<noteq> None"
proof (induction fs arbitrary: ix)
  case (Cons f fs)
  {
    case 1
    then show ?case using Cons.IH(1) [of "index_fact f ix"] by (auto simp: index_fact_def split: if_splits)
  next
    case 2
    then show ?case using Cons.IH(2) [of "index_fact f ix"] by (auto simp: index_fact_def)
  }
qed simp_all

lemma index_fact_found:
  assumes "i \<in> fact_id ` set (facts ir)"
  obtains f where "map_get (factById (indexEngineeringIR ir)) i = Some f" "f \<in> set (facts ir)" "fact_id f = i"
proof -
  let ?ix = "fold index_entity (entities ir) empty_index"
  obtain f where f: "map_get (factById (indexEngineeringIR ir)) i = Some f"
    using fold_index_facts(2) [of i "facts ir" ?ix] assms by (auto simp: indexEngineeringIR_def)
  then have "f \<in> set (facts ir) \<and> fact_id f = i"
    using fold_index_facts(1) [of "facts ir" ?ix i f] by (simp add: indexEngineeringIR_def empty_index_def)
  then show thesis using that f by blast
qed

definition fact_made ::
  "(string \<Rightarrow> string) \<Rightarrow> bool \<Rightarrow> string \<Rightarrow> impact_basis \<Rightarrow> semantic_fact \<Rightarrow> string option \<Rightarrow> string list option \<Rightarrow> propagating_seed" where
  "fact_made digest p kind b f a changed =
     \<lparr>pg_seed = identified digest (plain_seed kind b None (Some (fact_id f)) a (fact_subject f) changed), pg_propagates = p\<rparr>"

lemma pushed_fact [simp]:
  "pushed p (factSeed digest kind b f) = Inr (fact_made digest p kind b f None None)"
  "pushed p (assertionSeed digest kind b f a) = Inr (fact_made digest p kind b f (Some a) None)"
  "pushed p (assertionUpdateSeed digest b f a fs) = Inr (fact_made digest p ''assertion-updated'' b f (Some a) (Some fs))"
  by (simp_all add: pushed_def seed_constructors fact_made_def)

abbreviation entry_tuple :: "propagating_seed \<Rightarrow> string \<times> impact_basis \<times> string option \<times> string option \<times> string option" where
  "entry_tuple e \<equiv> seed_tuple (pg_seed e)"

lemma fact_made_tuple [simp]: "entry_tuple (fact_made digest p kind b f a changed) = (kind, b, None, Some (fact_id f), a)"
  by (simp add: fact_made_def seed_tuple_def)

definition change_entries ::
  "(string \<Rightarrow> string) \<Rightarrow> semantic_fact \<Rightarrow> semantic_fact \<Rightarrow> semantic_fact_change \<Rightarrow> propagating_seed list" where
  "change_entries digest before after c =
     map (\<lambda>a. fact_made digest False ''assertion-added'' ToBasis after (Some (as_id a)) None) (ch_addedAssertions c) @
     map (\<lambda>a. fact_made digest False ''assertion-removed'' FromBasis before (Some (as_id a)) None) (ch_removedAssertions c) @
     concat (map (\<lambda>u. [fact_made digest False ''assertion-updated'' FromBasis before (Some (up_assertionId u))
         (Some (map update_field_name (up_changedFields u))),
       fact_made digest False ''assertion-updated'' ToBasis after (Some (up_assertionId u))
         (Some (map update_field_name (up_changedFields u)))]) (ch_updatedAssertions c))"

lemma change_seeds_eq:
  assumes "map_get (factById ixf) (ch_factId c) = Some before" "map_get (factById ixt) (ch_factId c) = Some after"
  shows "change_seeds digest ixf ixt c = Inr (change_entries digest before after c)"
  using assms by (simp add: change_seeds_def requireFact_def map_r_total Let_def change_entries_def)

lemma change_entries_tuples:
  assumes "fact_id before = i" "fact_id after = i"
    and "distinct (map as_id (ch_addedAssertions c))" "distinct (map as_id (ch_removedAssertions c))"
      "distinct (map up_assertionId (ch_updatedAssertions c))"
  shows "distinct (map entry_tuple (change_entries digest before after c))"
    "\<forall>e \<in> set (change_entries digest before after c). sd_factId (pg_seed e) = Some i"
proof -
  have upd: "distinct (map entry_tuple (concat (map (\<lambda>u. [fact_made digest False ''assertion-updated'' FromBasis before
        (Some (up_assertionId u)) (g u), fact_made digest False ''assertion-updated'' ToBasis after (Some (up_assertionId u)) (g u)]) us)))"
    if "distinct (map up_assertionId us)" for us :: "fact_assertion_update list" and g
    using that by (induction us) auto
  show "distinct (map entry_tuple (change_entries digest before after c))"
    using assms upd by (auto simp: change_entries_def comp_def distinct_map inj_on_def)
  show "\<forall>e \<in> set (change_entries digest before after c). sd_factId (pg_seed e) = Some i"
    using assms(1,2) by (auto simp: change_entries_def fact_made_def)
qed

lemma distinct_concat_by:
  "distinct (map key xs) \<Longrightarrow> (\<And>x. x \<in> set xs \<Longrightarrow> distinct (map g (F x))) \<Longrightarrow>
     (\<And>x y. x \<in> set xs \<Longrightarrow> y \<in> set (F x) \<Longrightarrow> h (g y) = key x) \<Longrightarrow> distinct (map g (concat (map F xs)))"
proof (induction xs)
  case (Cons x xs)
  have "g y \<noteq> g z" if "y \<in> set (F x)" "x' \<in> set xs" "z \<in> set (F x')" for x' y z
  proof -
    have "h (g y) = key x" "h (g z) = key x'" using Cons.prems(3) that by simp_all
    moreover have "key x \<noteq> key x'" using Cons.prems(1) that by auto
    ultimately show ?thesis by auto
  qed
  moreover have "distinct (map g (concat (map F xs)))" using Cons by simp
  ultimately show ?case using Cons.prems(2) by fastforce
qed simp

text \<open>A seed of a fact is about a fact of its own basis and anchored at its subject.\<close>

definition fact_entry :: "(string \<Rightarrow> string) \<Rightarrow> semantic_fact list \<Rightarrow> semantic_fact list \<Rightarrow> propagating_seed \<Rightarrow> bool" where
  "fact_entry digest from to e \<longleftrightarrow> seed_made digest (pg_seed e) \<and> sd_entityId (pg_seed e) = None \<and>
     (\<exists>f \<in> set (case sd_basis (pg_seed e) of FromBasis \<Rightarrow> from | ToBasis \<Rightarrow> to).
        sd_factId (pg_seed e) = Some (fact_id f) \<and> sd_anchorEntityId (pg_seed e) = fact_subject f)"

lemma fact_made_entry:
  "f \<in> set (case b of FromBasis \<Rightarrow> from | ToBasis \<Rightarrow> to) \<Longrightarrow> fact_entry digest from to (fact_made digest p kind b f a changed)"
  by (auto simp: fact_entry_def fact_made_def)

lemma change_entries_facts:
  "before \<in> set from \<Longrightarrow> after \<in> set to \<Longrightarrow> e \<in> set (change_entries digest before after c) \<Longrightarrow>
     fact_entry digest from to e \<and> sd_kind (pg_seed e) \<notin> {''fact-added'', ''fact-removed''}"
  by (auto simp: change_entries_def intro!: fact_made_entry) (simp_all add: fact_made_def)

lemma changed_tuples:
  assumes d: "delta_of from to delta"
    and ids: "\<And>c. c \<in> set (dl_changed delta) \<Longrightarrow> fact_id (before c) = ch_factId c"
      "\<And>c. c \<in> set (dl_changed delta) \<Longrightarrow> fact_id (after c) = ch_factId c"
  shows "distinct (map entry_tuple (concat (map (\<lambda>c. change_entries digest (before c) (after c) c) (dl_changed delta))))"
proof (rule distinct_concat_by [where key = "\<lambda>c. Some (ch_factId c)" and h = "\<lambda>(k, b, e, f, a). f"])
  show "distinct (map (\<lambda>c. Some (ch_factId c)) (dl_changed delta))"
    using d by (auto simp: delta_of_def distinct_map inj_on_def)
  fix c assume c: "c \<in> set (dl_changed delta)"
  then have a: "distinct (map as_id (ch_addedAssertions c))" "distinct (map as_id (ch_removedAssertions c))"
    "distinct (map up_assertionId (ch_updatedAssertions c))" using d by (auto simp: delta_of_def)
  show "distinct (map entry_tuple (change_entries digest (before c) (after c) c))"
    by (rule change_entries_tuples(1) [OF ids(1) [OF c] ids(2) [OF c] a])
  fix e assume "e \<in> set (change_entries digest (before c) (after c) c)"
  then show "(case entry_tuple e of (k, b, e, f, a) \<Rightarrow> f) = Some (ch_factId c)"
    using change_entries_tuples(2) [OF ids(1) [OF c] ids(2) [OF c] a] by (simp add: seed_tuple_def)
qed

lemma fact_tuples_append:
  assumes "distinct added" "distinct removed" "distinct (map entry_tuple changed)"
    and "\<And>e. e \<in> set changed \<Longrightarrow> sd_kind (pg_seed e) \<notin> {''fact-added'', ''fact-removed''}"
  shows "distinct (map (\<lambda>i. (''fact-added'', ToBasis, None, Some i, None)) added @
    map (\<lambda>i. (''fact-removed'', FromBasis, None, Some i, None)) removed @ map entry_tuple changed)"
proof -
  have "distinct (map (\<lambda>i. (k, b, None, Some i, None)) ids)" if "distinct ids" for k :: string and b :: impact_basis and ids :: "string list"
    using that by (simp add: distinct_map inj_on_def)
  moreover have "(''fact-added'', x) \<noteq> entry_tuple e" "(''fact-removed'', x) \<noteq> entry_tuple e" if "e \<in> set changed" for e x
    using assms(4) [OF that] by (auto simp: seed_tuple_def)
  ultimately show ?thesis using assms(1-3) by auto
qed

lemma fact_seeds_entries:
  assumes d: "delta_of (facts from) (facts to) delta"
  shows "\<exists>seeds. collectFactSeeds digest delta (indexEngineeringIR from) (indexEngineeringIR to) = Inr seeds \<and>
    (\<forall>e \<in> set seeds. fact_entry digest (facts from) (facts to) e) \<and> distinct (map entry_tuple seeds)"
proof -
  let ?before = "\<lambda>c. the (map_get (factById (indexEngineeringIR from)) (ch_factId c))"
  let ?after = "\<lambda>c. the (map_get (factById (indexEngineeringIR to)) (ch_factId c))"
  let ?changed = "map (\<lambda>c. change_entries digest (?before c) (?after c) c) (dl_changed delta)"
  let ?added = "map (\<lambda>f. fact_made digest (hasDefiniteAuthority f) ''fact-added'' ToBasis f None None) (dl_added delta)"
  let ?removed = "map (\<lambda>f. fact_made digest (hasDefiniteAuthority f) ''fact-removed'' FromBasis f None None) (dl_removed delta)"
  have found: "map_get (factById (indexEngineeringIR from)) (ch_factId c) = Some (?before c)" "?before c \<in> set (facts from)"
      "fact_id (?before c) = ch_factId c" "map_get (factById (indexEngineeringIR to)) (ch_factId c) = Some (?after c)"
      "?after c \<in> set (facts to)" "fact_id (?after c) = ch_factId c" if "c \<in> set (dl_changed delta)" for c
    using d that index_fact_found [of "ch_factId c" "from"] index_fact_found [of "ch_factId c" to]
    unfolding delta_of_def by (metis option.sel)+
  have "map_r (change_seeds digest (indexEngineeringIR from) (indexEngineeringIR to)) (dl_changed delta) =
      map_r (\<lambda>c. Inr (change_entries digest (?before c) (?after c) c)) (dl_changed delta)"
    using found(1,4) by (intro map_r_cong refl change_seeds_eq)
  then have "collectFactSeeds digest delta (indexEngineeringIR from) (indexEngineeringIR to) = Inr (?added @ ?removed @ concat ?changed)"
    by (simp add: collectFactSeeds_def map_r_total)
  moreover have changed: "fact_entry digest (facts from) (facts to) e \<and> sd_kind (pg_seed e) \<notin> {''fact-added'', ''fact-removed''}"
    if e: "e \<in> set (concat ?changed)" for e
  proof -
    obtain c where c: "c \<in> set (dl_changed delta)" "e \<in> set (change_entries digest (?before c) (?after c) c)" using e by auto
    show ?thesis by (rule change_entries_facts [OF found(2) [OF c(1)] found(5) [OF c(1)] c(2)])
  qed
  moreover have "fact_entry digest (facts from) (facts to) e" if "e \<in> set (?added @ ?removed)" for e
    using that d unfolding delta_of_def by (auto intro!: fact_made_entry)
  moreover have "distinct (map entry_tuple (?added @ ?removed @ concat ?changed))"
    using fact_tuples_append [of "map fact_id (dl_added delta)" "map fact_id (dl_removed delta)" "concat ?changed"]
      changed changed_tuples [OF d found(3,6)] d by (simp add: comp_def delta_of_def)
  ultimately show ?thesis by (intro exI [of _ "?added @ ?removed @ concat ?changed"]) auto
qed

end
