(* ===== verification/ImpactComplete.thy ===== *)
theory ImpactComplete
  imports ImpactSeeds
begin

text \<open>
  \<open>buildImpactPropagation\<close> as a whole. Endpoints whose facts satisfy the predicate signatures give an impact: none of the checks
  inside it can fail. And an impact that is returned lists exactly the entities that are reached.
\<close>

section \<open>Seeds\<close>

abbreviation basis_index :: "impact_propagation_input \<Rightarrow> impact_basis \<Rightarrow> ir_index" where
  "basis_index inp basis \<equiv> (case basis of FromBasis \<Rightarrow> indexEngineeringIR (ctx_ir (in_from inp))
     | ToBasis \<Rightarrow> indexEngineeringIR (ctx_ir (in_to inp)))"

abbreviation basis_ir :: "impact_propagation_input \<Rightarrow> impact_basis \<Rightarrow> engineering_ir" where
  "basis_ir inp basis \<equiv> (case basis of FromBasis \<Rightarrow> ctx_ir (in_from inp) | ToBasis \<Rightarrow> ctx_ir (in_to inp))"

lemma basis_index_ir: "basis_index inp basis = indexEngineeringIR (basis_ir inp basis)"
  by (cases basis) simp_all

definition entities_comparable :: "semantic_entity list \<Rightarrow> semantic_entity list \<Rightarrow> bool" where
  "entities_comparable fs ts \<longleftrightarrow> ordered_by ent_id fs \<and> ordered_by ent_id ts \<and>
     (\<forall>f \<in> set fs. \<forall>t \<in> set ts. ent_id f = ent_id t \<longrightarrow> ent_kind f = ent_kind t)"

text \<open>The origin of a seed in one of the two endpoints.\<close>

definition seed_entry :: "(string \<Rightarrow> string) \<Rightarrow> impact_propagation_input \<Rightarrow> propagating_seed \<Rightarrow> bool" where
  "seed_entry digest inp e \<longleftrightarrow>
     entity_entry digest (ent_id ` set (entities (ctx_ir (in_from inp)))) (ent_id ` set (entities (ctx_ir (in_to inp)))) e \<or>
     fact_entry digest (facts (ctx_ir (in_from inp))) (facts (ctx_ir (in_to inp))) e"

lemma seed_entry_made: "seed_entry digest inp e \<Longrightarrow> seed_made digest (pg_seed e)"
  by (auto simp: seed_entry_def entity_entry_def fact_entry_def)

lemma collect_seeds_ok:
  assumes c: "entities_comparable (entities (ctx_ir (in_from inp))) (entities (ctx_ir (in_to inp)))"
    and d: "delta_of (facts (ctx_ir (in_from inp))) (facts (ctx_ir (in_to inp))) delta"
  shows "\<exists>seeds. collect_seeds digest delta (in_from inp) (in_to inp) (basis_index inp) = Inr seeds \<and>
    (\<forall>e \<in> set seeds. seed_entry digest inp e) \<and> distinct (map entry_tuple seeds) \<and> sorted (map (\<lambda>e. seed_key (pg_seed e)) seeds)"
proof -
  obtain es where es: "entity_seeds digest (entities (ctx_ir (in_from inp))) (entities (ctx_ir (in_to inp))) = Inr es"
    "entity_entries digest (ent_id ` set (entities (ctx_ir (in_from inp)))) (ent_id ` set (entities (ctx_ir (in_to inp)))) es"
    using entity_seeds_entries [of "entities (ctx_ir (in_from inp))" "entities (ctx_ir (in_to inp))" digest] c
    unfolding entities_comparable_def by blast
  obtain fs where fs: "collectFactSeeds digest delta (basis_index inp FromBasis) (basis_index inp ToBasis) = Inr fs"
    "\<forall>e \<in> set fs. fact_entry digest (facts (ctx_ir (in_from inp))) (facts (ctx_ir (in_to inp))) e" "distinct (map entry_tuple fs)"
    using fact_seeds_entries [OF d, of digest] by auto
  let ?seeds = "sort_key (\<lambda>entry. seed_key (pg_seed entry)) (es @ fs)"
  have "distinct (map entry_tuple es)"
    using es(2) by (auto simp: entity_entries_def distinct_map inj_on_def seed_tuple_def)
  moreover have "entry_tuple e \<noteq> entry_tuple f" if "e \<in> set es" "f \<in> set fs" for e f
    using that es(2) fs(2) by (auto simp: entity_entries_def entity_entry_def fact_entry_def seed_tuple_def)
  ultimately have "distinct (map entry_tuple (es @ fs))" using fs(3) by fastforce
  then have "distinct (map entry_tuple ?seeds)" by (metis mset_sort mset_map mset_eq_imp_distinct_iff)
  moreover have "\<forall>e \<in> set ?seeds. seed_entry digest inp e"
    using es(2) fs(2) by (auto simp: entity_entries_def seed_entry_def)
  ultimately show ?thesis using es(1) fs(1) by (simp add: collect_seeds_def collectEntitySeeds_def)
qed

lemma distinct_map_finer:
  "distinct (map f xs) \<Longrightarrow> (\<And>x y. x \<in> set xs \<Longrightarrow> y \<in> set xs \<Longrightarrow> g x = g y \<Longrightarrow> f x = f y) \<Longrightarrow> distinct (map g xs)"
  unfolding distinct_map inj_on_def by metis

lemma seed_checks_ok:
  assumes made: "\<forall>e \<in> set seeds. seed_made digest (pg_seed e)" and tuples: "distinct (map entry_tuple seeds)"
    and s: "sorted (map (\<lambda>e. seed_key (pg_seed e)) seeds)" and inj: "inj_on digest (seed_text ` pg_seed ` set seeds)"
  shows "check_seeds [] None (map pg_seed seeds) = Inr ()"
proof -
  have id: "entry_tuple e = entry_tuple f" if "e \<in> set seeds" "f \<in> set seeds" "sd_id (pg_seed e) = sd_id (pg_seed f)" for e f
  proof -
    have "digest (seed_text (pg_seed e)) = digest (seed_text (pg_seed f))" using that made by (simp add: seed_made_def)
    then have "seed_text (pg_seed e) = seed_text (pg_seed f)" using inj that by (auto dest: inj_onD)
    then show ?thesis by (rule seed_text_inj)
  qed
  have dis: "distinct (map sd_id (map pg_seed seeds))"
    unfolding map_map comp_def by (rule distinct_map_finer [OF tuples id])
  have "distinct (map (\<lambda>e. seed_key (pg_seed e)) seeds)"
    by (rule distinct_map_finer [OF tuples id]) (simp_all add: seed_key_def)
  then have "sorted_wrt (<) (map (\<lambda>e. seed_key (pg_seed e)) seeds)" using s by (simp add: strict_sorted_iff)
  then have "sorted_wrt (\<lambda>x y. compareSeeds x y < 0) (map pg_seed seeds)"
    by (simp add: sorted_wrt_map compareSeeds_sign)
  then show ?thesis using dis by (intro check_seeds_ok) auto
qed

section \<open>What the predicate signatures give\<close>

definition signatures_hold :: "engineering_ir \<Rightarrow> bool" where
  "signatures_hold ir \<longleftrightarrow> assertEngineeringIRPredicateSignatures (entities ir) (facts ir) = Inr ()"

lemma fold_index_entityById:
  "entityById (fold index_entity es ix) = fold (\<lambda>(k, v). map_set k v) (map (\<lambda>e. (ent_id e, e)) es) (entityById ix)"
  by (induction es arbitrary: ix) (simp_all add: index_entity_def)

lemma entityById_index: "entityById (indexEngineeringIR ir) = map_from (map (\<lambda>e. (ent_id e, e)) (entities ir))"
  by (simp add: indexEngineeringIR_def fold_index_entityById map_from_def empty_index_def)

lemma fold_set_entity:
  "map_get (fold (\<lambda>(k, v). map_set k v) (map (\<lambda>e. (ent_id e, e)) es) m) i = Some e \<Longrightarrow>
     (e \<in> set es \<and> ent_id e = i) \<or> map_get m i = Some e"
proof (induction es arbitrary: m)
  case (Cons d es)
  then show ?case using Cons.IH [of "map_set (ent_id d) d m"] by (auto split: if_splits)
qed simp

lemma entity_lookup:
  "map_get (entityById (indexEngineeringIR ir)) i = Some e \<Longrightarrow> e \<in> set (entities ir) \<and> ent_id e = i"
  using fold_set_entity [of "entities ir" "[]" i e] by (simp add: entityById_index map_from_def)

lemma entity_found: "i \<in> ent_id ` set (entities ir) \<Longrightarrow> \<exists>e. map_get (entityById (indexEngineeringIR ir)) i = Some e"
  using index_lookups(3) [of ir i] by (auto simp: map_has_get)

lemma signature_fits:
  assumes "signatures_hold ir" "f \<in> set (facts ir)"
  shows "\<exists>vs v. PREDICATE_SIGNATURE_REGISTRY (fact_predicate f) = Active vs \<and> v \<in> set vs \<and>
    variant_fits (entityById (indexEngineeringIR ir)) f v"
proof -
  have "check_all (check_fact (entityById (indexEngineeringIR ir))) (sort_key fact_id (facts ir)) = Inr ()"
    using assms(1) unfolding signatures_hold_def assertEngineeringIRPredicateSignatures_def registry_consistent entityById_index
    by (simp add: Let_def)
  then have "check_fact (entityById (indexEngineeringIR ir)) f = Inr ()" using assms(2) by (simp add: check_all_Inr_iff)
  then show ?thesis by (auto simp: check_fact_ok_iff)
qed

lemma subject_object_rule: "impactPropagationRules p = EdgeRule SubjectToObject variant \<Longrightarrow> p = LOWERS_TO"
  by (cases p) (simp_all add: impactPropagationRules_def)

lemma signatures_traversable:
  assumes "signatures_hold ir"
  shows "ir_traversable ir"
  unfolding ir_traversable_def
proof
  fix f assume f: "f \<in> set (facts ir)"
  obtain vs v where v: "PREDICATE_SIGNATURE_REGISTRY (fact_predicate f) = Active vs" "v \<in> set vs"
    "variant_fits (entityById (indexEngineeringIR ir)) f v" using signature_fits [OF assms f] by blast
  have lookup: "i \<in> ent_id ` set (entities ir)" if "map_get (entityById (indexEngineeringIR ir)) i = Some e" for i e
    using entity_lookup [OF that] by blast
  have "fact_subject f \<in> ent_id ` set (entities ir)" using v(3) lookup by (auto simp: variant_fits_def)
  moreover have "e \<in> ent_id ` set (entities ir)" if "fact_object f = EntityRef e" for e
    using v(3) that lookup by (auto simp: variant_fits_def split: object_signature.splits)
  moreover have False if "fact_object f = ValueObj x" "impactPropagationRules (fact_predicate f) = EdgeRule SubjectToObject r" for x r
    using v that(1) subject_object_rule [OF that(2)]
    by (auto simp: variant_fits_def sig_LOWERS_TO_def split: object_signature.splits)
  ultimately show "fact_subject f \<in> ent_id ` set (entities ir) \<and>
      (case fact_object f of EntityRef e \<Rightarrow> e \<in> ent_id ` set (entities ir)
       | ValueObj _ \<Rightarrow> (case impactPropagationRules (fact_predicate f) of EdgeRule SubjectToObject _ \<Rightarrow> False | _ \<Rightarrow> True))"
    by (auto split: semantic_fact_object.split impact_rule.split rule_direction.split)
qed

lemma selector_schema:
  "validateValue m path (ObjectSchema [(''selector'', StringSchema)]) v = None \<Longrightarrow>
     \<exists>kvs s. v = SObject kvs \<and> map_of kvs ''selector'' = Some (SString s)"
  by (auto simp: validateValue.simps Let_def split: semantic_value.splits option.splits)

lemma verified_by_shape:
  assumes s: "signatures_hold ir" and f: "f \<in> set (facts ir)" "fact_predicate f = VERIFIED_BY"
    and e: "map_get (entityById (indexEngineeringIR ir)) (fact_subject f) = Some entity"
  shows "case fact_object f of
      EntityRef i \<Rightarrow> \<exists>t. map_get (entityById (indexEngineeringIR ir)) i = Some t \<and>
        ent_kind t = (if ent_kind entity = PolicyKind then PolicyKind else AcceptanceKind)
    | ValueObj v \<Rightarrow> ent_kind entity = ArtifactKind \<and> (\<exists>kvs s. v = SObject kvs \<and> map_of kvs ''selector'' = Some (SString s))"
proof -
  obtain vs v where v: "PREDICATE_SIGNATURE_REGISTRY (fact_predicate f) = Active vs" "v \<in> set vs"
    "variant_fits (entityById (indexEngineeringIR ir)) f v" using signature_fits [OF s f(1)] by blast
  have "v \<in> set [Variant ''scenario-verified-by-acceptance'' [ScenarioKind] (EntityObject [AcceptanceKind]),
      Variant ''semantic-policy-verified-by-verification-policy'' [PolicyKind] (EntityObject [PolicyKind]),
      Variant ''artifact-verified-by-acceptance'' [ArtifactKind] (EntityObject [AcceptanceKind]),
      Variant ''artifact-verified-by-selector'' [ArtifactKind]
        (ValueObject ''artifact-verification-selector-v1'' (ObjectSchema [(''selector'', StringSchema)]))]"
    using v(1,2) f(2) by (simp add: sig_VERIFIED_BY_def)
  then show ?thesis
    using v(3) e selector_schema [of "entityById (indexEngineeringIR ir)" "''$''"]
    by (cases "fact_object f") (auto simp: variant_fits_def)
qed

section \<open>Steps that cannot fail\<close>

lemma unpropagated_ok:
  assumes "seed_entry digest inp e"
  shows "\<exists>unc'. unpropagated_seed (basis_index inp) e unc = Inr unc'"
proof (cases "fact_entry digest (facts (ctx_ir (in_from inp))) (facts (ctx_ir (in_to inp))) e")
  case True
  then obtain f where f: "f \<in> set (facts (basis_ir inp (sd_basis (pg_seed e))))" "sd_factId (pg_seed e) = Some (fact_id f)"
    by (cases "sd_basis (pg_seed e)") (auto simp: fact_entry_def)
  then obtain g where "map_get (factById (basis_index inp (sd_basis (pg_seed e)))) (fact_id f) = Some g"
    unfolding basis_index_ir using index_fact_found [of "fact_id f"] by (metis imageI)
  then show ?thesis using f(2) by (simp add: unpropagated_seed_def requireFact_def nullish_def Let_def)
next
  case False
  then show ?thesis using assms by (simp add: seed_entry_def entity_entry_def unpropagated_seed_def)
qed

lemma seed_anchor:
  assumes "seed_entry digest inp e" "signatures_hold (basis_ir inp (sd_basis (pg_seed e)))"
  shows "sd_anchorEntityId (pg_seed e) \<in> ent_id ` set (entities (basis_ir inp (sd_basis (pg_seed e))))"
  using assms(1) unfolding seed_entry_def
proof
  assume "fact_entry digest (facts (ctx_ir (in_from inp))) (facts (ctx_ir (in_to inp))) e"
  then obtain f where f: "f \<in> set (facts (basis_ir inp (sd_basis (pg_seed e))))" "sd_anchorEntityId (pg_seed e) = fact_subject f"
    by (cases "sd_basis (pg_seed e)") (auto simp: fact_entry_def)
  then show ?thesis using signatures_traversable [OF assms(2)] by (simp add: ir_traversable_def)
qed (auto simp: entity_entry_def split: impact_basis.splits)

lemma state_entity:
  assumes c: "complete_states (indexEngineeringIR ir) S states" "distinct (map fst states)" and v: "(v, st) \<in> set states"
    and s: "signatures_hold ir" and S: "\<And>i a. (i, a) \<in> S \<Longrightarrow> a \<in> ent_id ` set (entities ir)"
  shows "rs_entityId st = v" "v \<in> ent_id ` set (entities ir)"
proof -
  have r: "represents v st (rs_distance st) (impact_labels (indexEngineeringIR ir) S (rs_distance st) v)"
    by (rule complete_states_entry [OF c v])
  then show "rs_entityId st = v" by (simp add: represents_def)
  have "(rs_canonicalSeedId st, rs_canonicalPath st) \<in> impact_labels (indexEngineeringIR ir) S (rs_distance st) v"
    using r by (simp add: represents_def)
  then show "v \<in> ent_id ` set (entities ir)"
    using S traversable_target [OF signatures_traversable [OF s]] by (cases "rs_distance st") (auto simp: labels.simps)
qed

lemma verify_mapping_ok:
  assumes s: "signatures_hold ir" and f: "f \<in> set (facts ir)" "fact_predicate f = VERIFIED_BY" "fact_subject f = so_entityId src"
    and e: "map_get (entityById (indexEngineeringIR ir)) (so_entityId src) = Some entity"
  shows "\<exists>st'. verify_mapping (indexEngineeringIR ir) src entity f st = Inr st'"
proof -
  obtain recs unc r n where st: "st = ((recs, unc), r, n)" by (cases st) auto
  show ?thesis
    using verified_by_shape [OF s f(1,2)] f(3) e
    by (cases "fact_object f") (auto simp: verify_mapping_def st required_target_def selectorFromFact_def Let_def)
qed

lemma verify_source_ok:
  assumes s: "signatures_hold (basis_ir inp (so_basis src))"
    and e: "so_entityId src \<in> ent_id ` set (entities (basis_ir inp (so_basis src)))"
  shows "\<exists>st'. verify_source (basis_index inp) src st = Inr st'"
proof -
  let ?ir = "basis_ir inp (so_basis src)"
  obtain recs unc where st: "st = (recs, unc)" by (cases st)
  obtain entity where entity: "map_get (entityById (indexEngineeringIR ?ir)) (so_entityId src) = Some entity"
    using entity_found [OF e] by blast
  have id: "ent_id entity = so_entityId src" using entity_lookup [OF entity] by blast
  have "\<exists>s'. fold_r (verify_mapping (indexEngineeringIR ?ir) src entity)
      (filter (\<lambda>f. fact_predicate f = VERIFIED_BY) (list_at (outgoingFactsBySubject (indexEngineeringIR ?ir)) (ent_id entity)))
      ((recs, unc), False, False) = Inr s'"
    by (rule fold_r_ok, rule verify_mapping_ok [OF s _ _ _ entity]) (simp_all add: index_lookups id)
  then show ?thesis unfolding verify_source_def st basis_index_ir by (auto simp: entity Let_def)
qed

definition sources_in :: "impact_propagation_input \<Rightarrow> sources \<Rightarrow> bool" where
  "sources_in inp sources \<longleftrightarrow> distinct (map fst sources) \<and>
     (\<forall>(k, s) \<in> set sources. so_entityId s \<in> ent_id ` set (entities (basis_ir inp (so_basis s))))"

lemma sources_in_set:
  "sources_in inp sources \<Longrightarrow> so_entityId s \<in> ent_id ` set (entities (basis_ir inp (so_basis s))) \<Longrightarrow>
     sources_in inp (map_set k s sources)"
  unfolding sources_in_def using map_set_in [of _ _ k s sources] by (fastforce simp del: image_iff)

lemma fold_kept: "(\<And>x s. x \<in> set xs \<Longrightarrow> P s \<Longrightarrow> P (f x s)) \<Longrightarrow> P s \<Longrightarrow> P (fold f xs s)"
  by (induction xs arbitrary: s) auto

lemma seed_sources_in:
  assumes "\<And>e. e \<in> set seeds \<Longrightarrow>
    sd_anchorEntityId (pg_seed e) \<in> ent_id ` set (entities (basis_ir inp (sd_basis (pg_seed e))))"
  shows "sources_in inp (fold add_seed_source seeds [])"
  by (rule fold_kept) (use assms in \<open>auto simp: add_seed_source_def Let_def sources_in_def [of _ "[]"] intro!: sources_in_set\<close>)

lemma state_sources_in:
  assumes "\<And>st. st \<in> set states \<Longrightarrow> rs_entityId st \<in> ent_id ` set (entities (basis_ir inp basis))" "sources_in inp sources"
  shows "sources_in inp (fold (add_state_source basis) states sources)"
  by (rule fold_kept) (use assms in \<open>auto simp: add_state_source_def Let_def intro!: sources_in_set\<close>)

lemma sources_entities:
  assumes "\<And>e. e \<in> set seeds \<Longrightarrow> sd_anchorEntityId (pg_seed e) \<in> ent_id ` set (entities (basis_ir inp (sd_basis (pg_seed e))))"
    and "\<And>st. st \<in> snd ` set fromStates \<Longrightarrow> rs_entityId st \<in> ent_id ` set (entities (basis_ir inp FromBasis))"
    and "\<And>st. st \<in> snd ` set toStates \<Longrightarrow> rs_entityId st \<in> ent_id ` set (entities (basis_ir inp ToBasis))"
    and src: "src \<in> set (sourcesForVerification seeds fromStates toStates)"
  shows "so_entityId src \<in> ent_id ` set (entities (basis_ir inp (so_basis src)))"
proof -
  have "sources_in inp (fold (add_state_source ToBasis) (map snd toStates) (fold (add_state_source FromBasis) (map snd fromStates)
      (fold add_seed_source seeds [])))"
    using assms(1-3) by (intro state_sources_in seed_sources_in) auto
  then show ?thesis using src unfolding sources_in_def sourcesForVerification_def Let_def by fastforce
qed

lemma json_finite:
  "finite_json (strings_json ss)" "list_all (\<lambda>(k, v). finite_json v) (optional_strings k o1)"
  "list_all (\<lambda>(k, v). finite_json v) (optional_string k o2)" "finite_json (seed_json s)" "finite_json (path_step_json p)"
  by (auto simp: strings_json_def optional_strings_def optional_string_def seed_json_def path_step_json_def list_all_iff split: option.split)

lemma output_json_finite:
  "finite_json (occurrence_json v)" "finite_json (uncertainty_json u)" "finite_json (reason_json r)" "finite_json (recommendation_json w)"
proof -
  have reason: "finite_json (reason_json r)" for r by (simp add: reason_json_def json_finite)
  then show "finite_json (reason_json r)" .
  show "finite_json (occurrence_json v)" by (simp add: occurrence_json_def json_finite is_finite_number_def list_all_iff)
  show "finite_json (uncertainty_json u)" by (simp add: uncertainty_json_def json_finite list_all_iff [of _ "map path_step_json _"])
  show "finite_json (recommendation_json w)"
    by (cases "rec_target w") (simp_all add: recommendation_json_def reason list_all_iff)
qed

lemma impact_payload_ok: "\<exists>text. impactDigestPayload v = Inr text"
  by (simp add: impactDigestPayload_def canonicalJson_def list_all_iff json_finite output_json_finite)

section \<open>Composition\<close>

lemma built_delta_fields:
  "buildFactDelta digest from to = Inr delta \<Longrightarrow> assertCompatibleLineage from to = Inr () \<and>
     dl_graphId delta = graphId (ctx_ir from) \<and> dl_appId delta = appId (ctx_ir from) \<and>
     dl_from delta = endpoint from \<and> dl_to delta = endpoint to"
  by (auto simp: buildFactDelta_def Let_def)

lemma built_delta_bound:
  assumes "buildFactDelta digest (in_from inp) (in_to inp) = Inr (in_delta inp)"
  shows "assertInputBinding inp = Inr ()" "assertCanonicalDelta digest (in_delta inp) (in_from inp) (in_to inp) = Inr (in_delta inp)"
proof -
  show "assertInputBinding inp = Inr ()"
    using built_delta_fields [OF assms] by (simp add: assertInputBinding_def assertCompatibleLineage_def endpoint_def Let_def)
  show "assertCanonicalDelta digest (in_delta inp) (in_from inp) (in_to inp) = Inr (in_delta inp)"
    using assms by (simp add: assertCanonicalDelta_def)
qed

lemma payload_bind: "\<exists>r. bind_r (impactDigestPayload w) (\<lambda>p. Inr (g p)) = Inr r"
  using impact_payload_ok [of w] by auto

lemma impact_result_ok:
  assumes sig: "\<And>b. signatures_hold (basis_ir inp b)" and entries: "\<forall>e \<in> set seeds. seed_entry digest inp e"
    and checked: "check_seeds [] None (map pg_seed seeds) = Inr ()"
    and cf: "complete_states (basis_index inp FromBasis) (seed_anchors FromBasis seeds) fromStates" "distinct (map fst fromStates)"
    and ct: "complete_states (basis_index inp ToBasis) (seed_anchors ToBasis seeds) toStates" "distinct (map fst toStates)"
    and unc: "unc_inv unc"
  shows "\<exists>r. impact_result digest inp delta (basis_index inp) seeds fromStates toStates unc = Inr r"
proof -
  have anchor: "sd_anchorEntityId (pg_seed e) \<in> ent_id ` set (entities (basis_ir inp (sd_basis (pg_seed e))))" if "e \<in> set seeds" for e
    using seed_anchor sig entries that by blast
  have S: "a \<in> ent_id ` set (entities (basis_ir inp b))" if "(i, a) \<in> seed_anchors b seeds" for b i a
    using that anchor by (auto simp: seed_anchors_def)
  have fs: "rs_entityId st \<in> ent_id ` set (entities (basis_ir inp FromBasis))" if "st \<in> snd ` set fromStates" for st
    using that state_entity [OF cf [unfolded basis_index_ir] _ sig S] by fastforce
  have ts: "rs_entityId st \<in> ent_id ` set (entities (basis_ir inp ToBasis))" if "st \<in> snd ` set toStates" for st
    using that state_entity [OF ct [unfolded basis_index_ir] _ sig S] by fastforce
  have "\<exists>st. fold_r (verify_source (basis_index inp)) (sourcesForVerification seeds fromStates toStates) ([], unc) = Inr st"
    by (rule fold_r_ok, rule verify_source_ok [OF sig sources_entities [OF anchor fs ts]])
  then obtain vs unc' where v: "collectVerification (sourcesForVerification seeds fromStates toStates) (basis_index inp) unc = Inr (vs, unc')"
    by (auto simp: collectVerification_def)
  note wf = collectVerification_wf [OF v unc]
  let ?occ = "occurrences_of seeds FromBasis fromStates @ occurrences_of seeds ToBasis toStates"
  obtain keys where "check_occurrences True [] None (sort_key occurrence_key (filter (\<lambda>v. oc_level v = DirectLevel) ?occ)) = Inr keys"
    "is_ok (check_occurrences False keys None (sort_key occurrence_key (filter (\<lambda>v. oc_level v = TransitiveLevel) ?occ)))"
    using occurrence_lists_ok [OF cf ct, of seeds] by blast
  then have "assertCanonicalOutput (map pg_seed seeds) (sort_key occurrence_key (filter (\<lambda>v. oc_level v = DirectLevel) ?occ))
      (sort_key occurrence_key (filter (\<lambda>v. oc_level v = TransitiveLevel) ?occ))
      (sort_key uncertainty_key (map (\<lambda>(k, d). impact_uncertainty.truncate d) unc')) vs = Inr ()"
    using checked wf(1) uncertainties_increasing [OF wf(2)]
    unfolding assertCanonicalOutput_def is_ok_iff by (elim exE) (simp only: bind_r_simps)
  then show ?thesis using v payload_bind unfolding impact_result_def Let_def by (simp only: bind_r_simps prod.case)
qed

text \<open>SHA-256 gives the texts of the seeds of an input different digests.\<close>

definition seed_digests_differ :: "(string \<Rightarrow> string) \<Rightarrow> impact_propagation_input \<Rightarrow> bool" where
  "seed_digests_differ digest inp \<longleftrightarrow> (\<forall>seeds. collect_seeds digest (in_delta inp) (in_from inp) (in_to inp) (basis_index inp) = Inr seeds \<longrightarrow>
     inj_on digest (seed_text ` pg_seed ` set seeds))"

lemma unpropagated_wf: "unc_inv unc \<Longrightarrow> unpropagated_seed ixs e unc = Inr unc' \<Longrightarrow> unc_inv unc'"
  by (auto simp: unpropagated_seed_def Let_def split: if_splits)

lemma build_steps:
  assumes "assertInputBinding inp = Inr ()" "assertCanonicalDelta digest (in_delta inp) (in_from inp) (in_to inp) = Inr delta"
    "collect_seeds digest delta (in_from inp) (in_to inp) (basis_index inp) = Inr seeds"
    "fold_r (unpropagated_seed (basis_index inp)) seeds [] = Inr unc"
    "traverseBasis FromBasis seeds (basis_index inp FromBasis) unc = Some (Inr (fromStates, unc1))"
    "traverseBasis ToBasis seeds (basis_index inp ToBasis) unc1 = Some (Inr (toStates, unc2))"
  shows "buildImpactPropagation digest inp = Some (impact_result digest inp delta (basis_index inp) seeds fromStates toStates unc2)"
  using assms unfolding buildImpactPropagation_def Let_def builtin_rules by (simp only: bind_o_simps prod.case)

lemma traversal_of_signed:
  assumes "signatures_hold ir" "unc_inv unc"
  obtains states unc' where "traverseBasis basis seeds (indexEngineeringIR ir) unc = Some (Inr (states, unc'))"
    "complete_states (indexEngineeringIR ir) (seed_anchors basis seeds) states" "distinct (map fst states)" "unc_inv unc'"
proof -
  obtain r where r: "traverseBasis basis seeds (indexEngineeringIR ir) unc = Some r"
    "\<forall>states unc'. r = Inr (states, unc') \<longrightarrow> complete_states (indexEngineeringIR ir) (seed_anchors basis seeds) states"
    "\<exists>x. r = Inr x"
    using traversal_returns [of basis seeds "indexEngineeringIR ir" unc] traversable_closed [OF signatures_traversable [OF assms(1)]] by blast
  then obtain states unc' where x: "r = Inr (states, unc')" by auto
  have run: "traverseBasis basis seeds (indexEngineeringIR ir) unc = Some (Inr (states, unc'))" using r(1) x by simp
  show thesis by (rule that [OF run _ traverseBasis_wf [OF run assms(2)]]) (use r(2) x in blast)
qed

lemma impact_returns:
  assumes d: "buildFactDelta digest (in_from inp) (in_to inp) = Inr (in_delta inp)"
    and sf: "assertEngineeringIRPredicateSignatures (entities (ctx_ir (in_from inp))) (facts (ctx_ir (in_from inp))) = Inr ()"
    and st: "assertEngineeringIRPredicateSignatures (entities (ctx_ir (in_to inp))) (facts (ctx_ir (in_to inp))) = Inr ()"
    and c: "entities_comparable (entities (ctx_ir (in_from inp))) (entities (ctx_ir (in_to inp)))"
    and h: "seed_digests_differ digest inp"
  shows "\<exists>r. buildImpactPropagation digest inp = Some (Inr r)"
proof -
  have sig: "signatures_hold (basis_ir inp b)" for b using sf st by (cases b) (simp_all add: signatures_hold_def)
  obtain seeds where seeds: "collect_seeds digest (in_delta inp) (in_from inp) (in_to inp) (basis_index inp) = Inr seeds"
    "\<forall>e \<in> set seeds. seed_entry digest inp e" "distinct (map entry_tuple seeds)" "sorted (map (\<lambda>e. seed_key (pg_seed e)) seeds)"
    using collect_seeds_ok [OF c built_delta [OF d], of digest] by blast
  have checked: "check_seeds [] None (map pg_seed seeds) = Inr ()"
    using seed_checks_ok [OF _ seeds(3,4)] seeds(1,2) h seed_entry_made unfolding seed_digests_differ_def by blast
  obtain unc where unc: "fold_r (unpropagated_seed (basis_index inp)) seeds [] = Inr unc"
    using fold_r_ok [of seeds "unpropagated_seed (basis_index inp)" "[]"] unpropagated_ok seeds(2) by blast
  have "unc_inv unc" using fold_r_invariant [where P = unc_inv, OF _ _ unc] unpropagated_wf by fastforce
  then obtain fromStates unc1 where f: "traverseBasis FromBasis seeds (basis_index inp FromBasis) unc = Some (Inr (fromStates, unc1))"
    "complete_states (basis_index inp FromBasis) (seed_anchors FromBasis seeds) fromStates" "distinct (map fst fromStates)" "unc_inv unc1"
    using traversal_of_signed [OF sig [of FromBasis], where basis = FromBasis and seeds = seeds] unfolding basis_index_ir by metis
  then obtain toStates unc2 where t: "traverseBasis ToBasis seeds (basis_index inp ToBasis) unc1 = Some (Inr (toStates, unc2))"
    "complete_states (basis_index inp ToBasis) (seed_anchors ToBasis seeds) toStates" "distinct (map fst toStates)" "unc_inv unc2"
    using traversal_of_signed [OF sig [of ToBasis], where basis = ToBasis and seeds = seeds] unfolding basis_index_ir by metis
  show ?thesis
    using build_steps [OF built_delta_bound [OF d] seeds(1) unc f(1) t(1)]
      impact_result_ok [OF sig seeds(2) checked f(2,3) t(2-4), of "in_delta inp"] by auto
qed

text \<open>C33. Impact propagation succeeds on validated endpoints: when the delta is the one built from the two endpoints, the facts of
  both satisfy their predicate signatures, the entities of both are in order and keep their kinds, and SHA-256 gives the seeds
  different identifiers, the code returns an impact. Neither its search, nor the verification mappings, nor the checks of its
  own output can fail.\<close>

theorem impact_succeeds:
  assumes d: "buildFactDelta digest (in_from inp) (in_to inp) = Inr (in_delta inp)"
    and sf: "assertEngineeringIRPredicateSignatures (entities (ctx_ir (in_from inp))) (facts (ctx_ir (in_from inp))) = Inr ()"
    and st: "assertEngineeringIRPredicateSignatures (entities (ctx_ir (in_to inp))) (facts (ctx_ir (in_to inp))) = Inr ()"
    and c: "entities_comparable (entities (ctx_ir (in_from inp))) (entities (ctx_ir (in_to inp)))"
    and h: "seed_digests_differ digest inp"
  shows "\<exists>r. buildImpactPropagation digest inp = Some (Inr r)"
  by (rule impact_returns [OF assms])

definition impact_endpoint :: "string \<Rightarrow> string \<Rightarrow> fact_delta_endpoint_context" where
  "impact_endpoint revision label = \<lparr>ctx_transactionId = revision, ctx_inputRevision = revision, ctx_semanticRevision = revision,
     ctx_ir = \<lparr>graphId = ''g'', inputRevision = revision, semanticRevision = revision, appId = ''app'',
       entities = [\<lparr>ent_id = ''b'', ent_kind = BlockKind, ent_label = ''b'', ent_attributes = []\<rparr>,
         \<lparr>ent_id = ''c'', ent_kind = CapabilityKind, ent_label = label, ent_attributes = []\<rparr>],
       facts = [impact_fact ''f'' ''b'' ''c''], scenarios = []\<rparr>\<rparr>"

definition impact_input :: impact_propagation_input where
  "impact_input = \<lparr>in_delta = (case buildFactDelta (\<lambda>s. s) (impact_endpoint ''r1'' ''old'') (impact_endpoint ''r2'' ''new'') of
       Inr d \<Rightarrow> d | Inl _ \<Rightarrow> undefined),
     in_from = impact_endpoint ''r1'' ''old'', in_to = impact_endpoint ''r2'' ''new''\<rparr>"

lemma impact_input_ok:
  "buildFactDelta (\<lambda>s. s) (in_from impact_input) (in_to impact_input) = Inr (in_delta impact_input)"
  "assertEngineeringIRPredicateSignatures (entities (ctx_ir (in_from impact_input))) (facts (ctx_ir (in_from impact_input))) = Inr ()"
  "assertEngineeringIRPredicateSignatures (entities (ctx_ir (in_to impact_input))) (facts (ctx_ir (in_to impact_input))) = Inr ()"
  "entities_comparable (entities (ctx_ir (in_from impact_input))) (entities (ctx_ir (in_to impact_input)))"
  "seed_digests_differ (\<lambda>s. s) impact_input"
proof -
  have "is_ok (buildFactDelta (\<lambda>s. s) (impact_endpoint ''r1'' ''old'') (impact_endpoint ''r2'' ''new''))" by code_simp
  then show "buildFactDelta (\<lambda>s. s) (in_from impact_input) (in_to impact_input) = Inr (in_delta impact_input)"
    by (auto simp: is_ok_iff impact_input_def)
  show "assertEngineeringIRPredicateSignatures (entities (ctx_ir (in_from impact_input))) (facts (ctx_ir (in_from impact_input))) = Inr ()"
    "assertEngineeringIRPredicateSignatures (entities (ctx_ir (in_to impact_input))) (facts (ctx_ir (in_to impact_input))) = Inr ()"
    by (simp_all add: impact_input_def) (code_simp)+
  show "entities_comparable (entities (ctx_ir (in_from impact_input))) (entities (ctx_ir (in_to impact_input)))"
    by (simp add: entities_comparable_def impact_input_def impact_endpoint_def)
  show "seed_digests_differ (\<lambda>s. s) impact_input" by (simp add: seed_digests_differ_def)
qed

theorem impact_succeeds_witness: "\<exists>r. buildImpactPropagation (\<lambda>s. s) impact_input = Some (Inr r)"
  by (rule impact_succeeds [OF impact_input_ok])

lemma bind_o_returns: "m \<noteq> None \<Longrightarrow> (\<And>x. f x \<noteq> None) \<Longrightarrow> bind_o m f \<noteq> None"
  by (auto simp: bind_o_def split: option.split sum.split)

lemma pair_returns: "(\<And>a b. f a b \<noteq> None) \<Longrightarrow> (case p of (a, b) \<Rightarrow> f a b) \<noteq> None"
  by (cases p) simp

lemma traverseBasis_returns: "traverseBasis b seeds ix unc \<noteq> None"
  using traversal_returns [of b seeds ix unc] by auto

text \<open>C34. Impact propagation always returns, with an impact or with a failure.\<close>

theorem impact_terminates: "buildImpactPropagation digest inp \<noteq> None"
  unfolding buildImpactPropagation_def Let_def
  by (intro bind_o_returns pair_returns traverseBasis_returns option.distinct)

section \<open>What an impact lists\<close>

lemma bind_o_Inr: "bind_o m f = Some (Inr y) \<longleftrightarrow> (\<exists>x. m = Some (Inr x) \<and> f x = Some (Inr y))"
  by (auto simp: bind_o_def split: option.splits sum.splits)

lemma canonical_delta_built: "assertCanonicalDelta digest d f t = Inr delta \<Longrightarrow> buildFactDelta digest f t = Inr delta"
  by (auto simp: assertCanonicalDelta_def)

lemma build_inverted:
  assumes "buildImpactPropagation digest inp = Some (Inr r)"
  obtains delta seeds unc fromStates unc1 toStates unc2 where
    "buildFactDelta digest (in_from inp) (in_to inp) = Inr delta"
    "collect_seeds digest delta (in_from inp) (in_to inp) (basis_index inp) = Inr seeds"
    "fold_r (unpropagated_seed (basis_index inp)) seeds [] = Inr unc"
    "traverseBasis FromBasis seeds (basis_index inp FromBasis) unc = Some (Inr (fromStates, unc1))"
    "traverseBasis ToBasis seeds (basis_index inp ToBasis) unc1 = Some (Inr (toStates, unc2))"
    "impact_result digest inp delta (basis_index inp) seeds fromStates toStates unc2 = Inr r"
  using assms unfolding buildImpactPropagation_def Let_def bind_o_Inr by (auto simp: bind_o_Inr dest!: canonical_delta_built)

lemma occurrences_iff:
  assumes c: "complete_states ix S states" "distinct (map fst states)"
  shows "(\<exists>v \<in> set (occurrences_of seeds b states). oc_entityId v = e \<and> oc_level v = l) \<longleftrightarrow>
    (\<exists>k > 0. impact_level ix S k e \<and> level_of k = l) \<and>
    (\<forall>entry \<in> set seeds. sd_basis (pg_seed entry) = b \<longrightarrow> sd_anchorEntityId (pg_seed entry) \<noteq> e)" (is "?occ \<longleftrightarrow> ?lev \<and> ?free")
proof
  assume ?occ
  then obtain u st v where v: "(u, st) \<in> set states" "occurrence b st = Some v" "oc_entityId v = e" "oc_level v = l" and ?free
    by (auto simp: occurrences_of_in)
  have g: "map_get states u = Some st" using c(2) v(1) by (simp add: map_get_def)
  then obtain k where k: "impact_level ix S k u" "represents u st k (impact_labels ix S k u)" using c(1) unfolding complete_states_def by blast
  then have "k > 0" "level_of k = l" "u = e" using v(2-4) by (auto simp: occurrence_def represents_def split: if_splits)
  then show "?lev \<and> ?free" using k(1) \<open>?free\<close> by blast
next
  assume a: "?lev \<and> ?free"
  then obtain k where k: "k > 0" "impact_level ix S k e" "level_of k = l" by blast
  then have "impact_labels ix S k e \<noteq> {}" by (simp add: at_level_def)
  then obtain st where st: "map_get states e = Some st" using c(1) unfolding complete_states_def by (metis option.exhaust)
  then obtain j where j: "impact_level ix S j e" "represents e st j (impact_labels ix S j e)" using c(1) unfolding complete_states_def by blast
  have "j = k" using at_level_unique [OF j(1) k(2)] .
  then show ?occ
    using k j(2) a map_get_Some_in [OF st] unfolding occurrences_of_in
    by (intro bexI [of _ "the (occurrence b st)"]) (auto simp: occurrences_of_in occurrence_def represents_def)
qed

lemma traversal_complete:
  assumes "traverseBasis b seeds ix unc = Some (Inr (states, unc'))" "unc_inv unc"
  shows "complete_states ix (seed_anchors b seeds) states" "distinct (map fst states)" "unc_inv unc'"
  using traversal_returns [of b seeds ix unc] traverseBasis_wf [OF assms] assms(1) by auto

lemma impact_result_lists:
  assumes "impact_result digest inp delta indexes seeds fromStates toStates unc = Inr r"
  shows "im_seeds r = map pg_seed seeds"
    "set (im_direct r) = {v \<in> set (occurrences_of seeds FromBasis fromStates @ occurrences_of seeds ToBasis toStates). oc_level v = DirectLevel}"
    "set (im_transitive r) =
      {v \<in> set (occurrences_of seeds FromBasis fromStates @ occurrences_of seeds ToBasis toStates). oc_level v = TransitiveLevel}"
  using assms by (auto simp: impact_result_def Let_def)

lemma listed_occurrences:
  assumes f: "complete_states (ix FromBasis) (seed_anchors FromBasis seeds) fromStates" "distinct (map fst fromStates)"
    and t: "complete_states (ix ToBasis) (seed_anchors ToBasis seeds) toStates" "distinct (map fst toStates)"
  shows "(\<exists>v \<in> set (occurrences_of seeds FromBasis fromStates @ occurrences_of seeds ToBasis toStates).
      oc_level v = l \<and> oc_basis v = b \<and> oc_entityId v = e) \<longleftrightarrow>
    (\<exists>k > 0. impact_level (ix b) (seed_anchors b seeds) k e \<and> level_of k = l) \<and>
    (\<forall>entry \<in> set seeds. sd_basis (pg_seed entry) = b \<longrightarrow> sd_anchorEntityId (pg_seed entry) \<noteq> e)"
proof -
  have own: "oc_basis v = FromBasis" if "v \<in> set (occurrences_of seeds FromBasis fromStates)" for v
    using that by (rule occurrence_checked(1) [OF f])
  have own': "oc_basis v = ToBasis" if "v \<in> set (occurrences_of seeds ToBasis toStates)" for v
    using that by (rule occurrence_checked(1) [OF t])
  show ?thesis
    using own own' occurrences_iff [OF f, of seeds FromBasis e l] occurrences_iff [OF t, of seeds ToBasis e l] by (cases b) auto
qed

lemma level_distance:
  "(\<exists>k > 0. P k \<and> level_of k = DirectLevel) \<longleftrightarrow> P 1" "(\<exists>k > 0. P k \<and> level_of k = TransitiveLevel) \<longleftrightarrow> (\<exists>k \<ge> 2. P k)"
proof -
  have "k > 0 \<and> level_of k = DirectLevel \<longleftrightarrow> k = 1" "k > 0 \<and> level_of k = TransitiveLevel \<longleftrightarrow> k \<ge> 2" for k
    by (auto simp: level_of_def)
  then show "(\<exists>k > 0. P k \<and> level_of k = DirectLevel) \<longleftrightarrow> P 1"
    "(\<exists>k > 0. P k \<and> level_of k = TransitiveLevel) \<longleftrightarrow> (\<exists>k \<ge> 2. P k)" by metis+
qed

text \<open>C35. An impact lists exactly what is reached. Its seeds are those of the entities and of the canonical delta of the endpoints.
  For each of the two bases an entity is listed as direct when it is one edge away from the nearest entity that a propagating seed
  anchors, as transitive when it is two or more edges away, and not at all when it is not reached or is itself the anchor of a seed.\<close>

theorem impact_lists_reached:
  assumes "buildImpactPropagation digest inp = Some (Inr r)"
  shows "\<exists>delta seeds. buildFactDelta digest (in_from inp) (in_to inp) = Inr delta \<and>
    collect_seeds digest delta (in_from inp) (in_to inp) (basis_index inp) = Inr seeds \<and> im_seeds r = map pg_seed seeds \<and>
    (\<forall>b e. let level = at_level (impact_edges (basis_index inp b)) ps_toEntityId (seed_anchors b seeds);
         free = (\<forall>s \<in> set (im_seeds r). sd_basis s = b \<longrightarrow> sd_anchorEntityId s \<noteq> e) in
      ((\<exists>v \<in> set (im_direct r). oc_basis v = b \<and> oc_entityId v = e) \<longleftrightarrow> free \<and> level 1 e) \<and>
      ((\<exists>v \<in> set (im_transitive r). oc_basis v = b \<and> oc_entityId v = e) \<longleftrightarrow> free \<and> (\<exists>k \<ge> 2. level k e)))"
proof -
  obtain delta seeds unc fromStates unc1 toStates unc2 where b: "buildFactDelta digest (in_from inp) (in_to inp) = Inr delta"
    "collect_seeds digest delta (in_from inp) (in_to inp) (basis_index inp) = Inr seeds"
    "fold_r (unpropagated_seed (basis_index inp)) seeds [] = Inr unc"
    "traverseBasis FromBasis seeds (basis_index inp FromBasis) unc = Some (Inr (fromStates, unc1))"
    "traverseBasis ToBasis seeds (basis_index inp ToBasis) unc1 = Some (Inr (toStates, unc2))"
    "impact_result digest inp delta (basis_index inp) seeds fromStates toStates unc2 = Inr r"
    using build_inverted [OF assms] by blast
  have "unc_inv unc" using fold_r_invariant [where P = unc_inv, OF _ _ b(3)] unpropagated_wf by fastforce
  note f = traversal_complete [OF b(4) this]
  note t = traversal_complete [OF b(5) f(3)]
  note lists = impact_result_lists [OF b(6)]
  note listed = listed_occurrences [of "basis_index inp", OF f(1,2) t(1,2)]
  have "(\<exists>v \<in> set (im_direct r). oc_basis v = b \<and> oc_entityId v = e) \<longleftrightarrow>
      (\<forall>s \<in> set (im_seeds r). sd_basis s = b \<longrightarrow> sd_anchorEntityId s \<noteq> e) \<and> impact_level (basis_index inp b) (seed_anchors b seeds) 1 e" for b e
    using listed [of DirectLevel b e] lists(1) unfolding level_distance(1) lists(2) by auto
  moreover have "(\<exists>v \<in> set (im_transitive r). oc_basis v = b \<and> oc_entityId v = e) \<longleftrightarrow>
      (\<forall>s \<in> set (im_seeds r). sd_basis s = b \<longrightarrow> sd_anchorEntityId s \<noteq> e) \<and>
      (\<exists>k \<ge> 2. impact_level (basis_index inp b) (seed_anchors b seeds) k e)" for b e
    using listed [of TransitiveLevel b e] lists(1) unfolding level_distance(2) lists(3) by auto
  ultimately show ?thesis using b(1,2) lists(1) unfolding Let_def by blast
qed

theorem impact_lists_reached_witness:
  "\<exists>r delta seeds. buildImpactPropagation (\<lambda>s. s) impact_input = Some (Inr r) \<and>
     collect_seeds (\<lambda>s. s) delta (in_from impact_input) (in_to impact_input) (basis_index impact_input) = Inr seeds \<and>
     im_seeds r = map pg_seed seeds"
proof -
  obtain r where r: "buildImpactPropagation (\<lambda>s. s) impact_input = Some (Inr r)" using impact_returns [OF impact_input_ok] by blast
  show ?thesis using impact_lists_reached [OF r] r by blast
qed

end
