(* ===== verification/IdentityComponents.thy ===== *)
theory IdentityComponents
  imports Text Canonical
begin

text \<open>
  The components of machine identities (\<^verbatim>\<open>src/src/semantics/definitions/identity-components.ts\<close>) and
  \<open>normalizedArtifactTarget\<close> of \<^verbatim>\<open>src/src/contracts/canonical.ts\<close> with the \<open>path.posix.normalize\<close> of Node it calls.
  The optional parameter \<open>fieldTarget\<close> is an argument; values are strings, so the check of their type has no counterpart.
\<close>

section \<open>Components\<close>

definition isSemanticIdentityComponent :: "string \<Rightarrow> bool \<Rightarrow> bool" where
  "isSemanticIdentityComponent v fieldTarget \<longleftrightarrow> v \<noteq> [] \<and> trim v = v \<and> CHR '':'' \<notin> set v \<and> CHR 0x00 \<notin> set v \<and>
     (\<not> fieldTarget \<or> CHR ''.'' \<notin> set v)"

definition assertSemanticIdentityComponent :: "string \<Rightarrow> string \<Rightarrow> bool \<Rightarrow> unit result" where
  "assertSemanticIdentityComponent v role fieldTarget =
     throw_if (\<not> isSemanticIdentityComponent v fieldTarget) (CodedFailure ''CONTRACT-SEMANTIC-024'' [role])"

text \<open>\<open>split('::')\<close>\<close>

fun split_double_colon :: "string \<Rightarrow> string list" where
  "split_double_colon [] = [[]]"
| "split_double_colon [c] = [[c]]"
| "split_double_colon (c # d # s) =
     (if c = CHR '':'' \<and> d = CHR '':'' then [] # split_double_colon s
      else case split_double_colon (d # s) of [] \<Rightarrow> [[c]] | w # ws \<Rightarrow> (c # w) # ws)"

text \<open>The pair of qualifier and id, and the pair of entity id and field id.\<close>

definition semanticReferenceParts :: "string \<Rightarrow> (string option \<times> string) result" where
  "semanticReferenceParts reference = (case split_double_colon reference of
       [_] \<Rightarrow> bind_r (assertSemanticIdentityComponent reference ''Semantic reference'' False) (\<lambda>_. Inr (None, reference))
     | [q, i] \<Rightarrow>
         bind_r (assertSemanticIdentityComponent q ''Semantic reference qualifier'' False) (\<lambda>_.
         bind_r (assertSemanticIdentityComponent i ''Semantic reference id'' False) (\<lambda>_. Inr (Some q, i)))
     | _ \<Rightarrow> throw (CodedFailure ''CONTRACT-SEMANTIC-018'' [reference]))"

definition semanticTargetParts :: "string \<Rightarrow> (string \<times> string option) result" where
  "semanticTargetParts target = (case split_on (CHR ''.'') target of
       [e] \<Rightarrow> bind_r (assertSemanticIdentityComponent e ''Entity target'' True) (\<lambda>_. Inr (e, None))
     | [e, f] \<Rightarrow>
         bind_r (assertSemanticIdentityComponent e ''Entity target'' True) (\<lambda>_.
         bind_r (assertSemanticIdentityComponent f ''Field target'' True) (\<lambda>_. Inr (e, Some f)))
     | _ \<Rightarrow> throw (CodedFailure ''CONTRACT-SEMANTIC-024'' [target]))"

definition compare_optional :: "string option \<Rightarrow> string option \<Rightarrow> int" where
  "compare_optional a b = (case (a, b) of
     (None, None) \<Rightarrow> 0 | (None, Some _) \<Rightarrow> -1 | (Some _, None) \<Rightarrow> 1 | (Some x, Some y) \<Rightarrow> compareCodeUnits x y)"

fun compareSemanticTuple :: "string option list \<Rightarrow> string option list \<Rightarrow> int" where
  "compareSemanticTuple (a # as) (b # bs) =
     (let order = compare_optional a b in if order \<noteq> 0 then order else compareSemanticTuple as bs)"
| "compareSemanticTuple as bs = int (length as) - int (length bs)"

section \<open>Artifact targets\<close>

text \<open>\<open>path.posix.normalize\<close>: empty and dot segments vanish, a parent segment takes back the last segment, and is kept where there
  is nothing to take back and the path is relative.\<close>

fun resolve_segments :: "bool \<Rightarrow> string list \<Rightarrow> string list \<Rightarrow> string list" where
  "resolve_segments absolute done [] = rev done"
| "resolve_segments absolute done (s # ss) =
     (if s = [] \<or> s = ''.'' then resolve_segments absolute done ss
      else if s = ''..'' then (case done of
          [] \<Rightarrow> resolve_segments absolute (if absolute then [] else [''..'']) ss
        | d # ds \<Rightarrow> resolve_segments absolute (if d = ''..'' then ''..'' # d # ds else ds) ss)
      else resolve_segments absolute (s # done) ss)"

definition posix_normalize :: "string \<Rightarrow> string" where
  "posix_normalize p = (if p = [] then ''.'' else
     let absolute = (hd p = CHR ''/''); trailing = (last p = CHR ''/'');
         body = join_with ''/'' (resolve_segments absolute [] (split_on (CHR ''/'') p)) in
     if body = [] then (if absolute then ''/'' else if trailing then ''./'' else ''.'')
     else (if absolute then ''/'' else []) @ body @ (if trailing then ''/'' else []))"

definition normalizedArtifactTarget :: "string \<Rightarrow> string" where
  "normalizedArtifactTarget target = posix_normalize (replace_char (CHR 0x5C) (CHR ''/'') target)"

section \<open>Lemmas on components\<close>

lemma component_no_separator:
  "isSemanticIdentityComponent v f \<Longrightarrow> CHR '':'' \<notin> set v \<and> CHR 0x00 \<notin> set v \<and> v \<noteq> []"
  by (simp add: isSemanticIdentityComponent_def)

lemma assert_component [simp]: "assertSemanticIdentityComponent v role f = Inr u \<longleftrightarrow> isSemanticIdentityComponent v f"
  by (simp add: assertSemanticIdentityComponent_def)

lemma split_join_parts:
  "split_on sep s = ws \<longleftrightarrow> ws \<noteq> [] \<and> s = join_with [sep] ws \<and> (\<forall>w \<in> set ws. sep \<notin> set w)"
proof
  assume "split_on sep s = ws"
  then show "ws \<noteq> [] \<and> s = join_with [sep] ws \<and> (\<forall>w \<in> set ws. sep \<notin> set w)"
    using join_split [of sep s] split_on_no_sep [of _ sep s] split_on_nonempty [of sep s] by metis
qed (simp add: split_join)

section \<open>Normalized targets are fixed points\<close>

text \<open>Segments already resolved, last one first: names above parent segments, which only a relative path has.\<close>

definition resolved :: "bool \<Rightarrow> string list \<Rightarrow> bool" where
  "resolved absolute done \<longleftrightarrow> (\<exists>k xs. done = xs @ replicate k ''..'' \<and> ''..'' \<notin> set xs \<and> (absolute \<longrightarrow> k = 0)) \<and>
     [] \<notin> set done \<and> ''.'' \<notin> set done"

lemma resolved_Nil [simp]: "resolved a []"
  by (simp add: resolved_def)

lemma resolved_push: "resolved a ds \<Longrightarrow> s \<noteq> [] \<Longrightarrow> s \<noteq> ''.'' \<Longrightarrow> s \<noteq> ''..'' \<Longrightarrow> resolved a (s # ds)"
  unfolding resolved_def by (metis append_Cons set_ConsD)

lemma resolved_parents: "resolved a (''..'' # ds) \<longleftrightarrow> \<not> a \<and> (\<exists>k. ds = replicate k ''..'')"
proof
  assume "resolved a (''..'' # ds)"
  then obtain k xs where k: "''..'' # ds = xs @ replicate k ''..''" "''..'' \<notin> set xs" "a \<longrightarrow> k = 0" by (auto simp: resolved_def)
  then have "xs = []" by (cases xs) auto
  then show "\<not> a \<and> (\<exists>k. ds = replicate k ''..'')" using k by (cases k) auto
next
  assume "\<not> a \<and> (\<exists>k. ds = replicate k ''..'')"
  then obtain k where "\<not> a" "''..'' # ds = [] @ replicate (Suc k) ''..''" by auto
  then show "resolved a (''..'' # ds)" unfolding resolved_def
    by (intro conjI exI [of _ "Suc k"] exI [of _ "[]"]) (auto simp del: replicate_Suc)
qed

lemma resolved_pop: "resolved a (d # ds) \<Longrightarrow> resolved a ds"
proof (cases "d = ''..''")
  case True
  assume "resolved a (d # ds)"
  then obtain k where "\<not> a" "ds = replicate k ''..''" using resolved_parents True by blast
  then show ?thesis unfolding resolved_def by (intro conjI exI [of _ k] exI [of _ "[]"]) auto
next
  case False
  assume "resolved a (d # ds)"
  then obtain k xs where k: "d # ds = xs @ replicate k ''..''" "''..'' \<notin> set xs" "a \<longrightarrow> k = 0" "[] \<notin> set ds" "''.'' \<notin> set ds"
    by (auto simp: resolved_def)
  then obtain ys where "xs = d # ys" "ds = ys @ replicate k ''..''" using False by (cases xs; cases k) auto
  then show ?thesis using k unfolding resolved_def by (intro conjI exI [of _ k] exI [of _ ys]) auto
qed

lemma resolved_more: "resolved a (''..'' # ds) \<Longrightarrow> resolved a (''..'' # ''..'' # ds)"
  unfolding resolved_parents by (metis replicate_Suc)

lemma resolve_segments_resolved: "resolved a ds \<Longrightarrow> resolved a (rev (resolve_segments a ds ss))"
proof (induction a ds ss rule: resolve_segments.induct)
  case (2 a ds s ss)
  consider "s = [] \<or> s = ''.''" | "s = ''..''" "ds = []" | d ds' where "s = ''..''" "ds = d # ds'"
    | "s \<noteq> []" "s \<noteq> ''.''" "s \<noteq> ''..''" by (cases ds) auto
  then show ?case
  proof cases
    case 2
    then show ?thesis using "2.IH"(2) [of] resolved_parents [of a "[]"] by (cases a) auto
  next
    case (3 d ds')
    then show ?thesis using "2.IH" "2.prems" resolved_pop [of a d ds'] resolved_more [of a ds'] by auto
  next
    case 4
    then show ?thesis using "2.IH" "2.prems" resolved_push by simp
  qed (use 2 in auto)
qed simp

lemma resolve_resolved: "resolved a (rev ss @ ds) \<Longrightarrow> resolve_segments a ds ss = rev ds @ ss"
proof (induction ss arbitrary: ds)
  case (Cons s ss)
  have pre: "resolved a (xs @ ys) \<Longrightarrow> resolved a ys" for xs ys
    by (induction xs) (auto dest: resolved_pop)
  have r: "resolved a (s # ds)" using pre [of "rev ss" "s # ds"] Cons.prems by simp
  have ih: "resolve_segments a (s # ds) ss = rev (s # ds) @ ss" using Cons by simp
  show ?case
  proof (cases "s = ''..''")
    case True
    then obtain k where "\<not> a" "ds = replicate k ''..''" using r resolved_parents by blast
    then show ?thesis using ih True by (cases k) auto
  next
    case False
    then show ?thesis using ih r by (auto simp: resolved_def)
  qed
qed simp

lemma resolve_segments_subset: "set (resolve_segments a ds ss) \<subseteq> set ds \<union> set ss \<union> {''..''}"
  by (induction a ds ss rule: resolve_segments.induct) (auto split: list.splits if_splits)

text \<open>The parts of a path that is not empty after normalization.\<close>

lemma posix_normalize_body:
  assumes p: "p \<noteq> []" and segs: "segs = resolve_segments (hd p = CHR ''/'') [] (split_on (CHR ''/'') p)"
  shows "posix_normalize p = (if segs = [] then (if hd p = CHR ''/'' then ''/'' else if last p = CHR ''/'' then ''./'' else ''.'')
      else (if hd p = CHR ''/'' then ''/'' else []) @ join_with ''/'' segs @ (if last p = CHR ''/'' then ''/'' else []))"
    and "resolved (hd p = CHR ''/'') (rev segs)" "\<forall>s \<in> set segs. s \<noteq> [] \<and> CHR ''/'' \<notin> set s"
proof -
  show r: "resolved (hd p = CHR ''/'') (rev segs)" using resolve_segments_resolved [OF resolved_Nil] segs by metis
  have "CHR ''/'' \<notin> set s" if "s \<in> set segs" for s
    using that resolve_segments_subset [of "hd p = CHR ''/''" "[]" "split_on (CHR ''/'') p"] split_on_no_sep [of s "CHR ''/''" p]
    unfolding segs by auto
  then show el: "\<forall>s \<in> set segs. s \<noteq> [] \<and> CHR ''/'' \<notin> set s" using r by (auto simp: resolved_def)
  have "join_with ''/'' segs = [] \<longleftrightarrow> segs = []" using el by (cases segs rule: remdups_adj.cases) auto
  then show "posix_normalize p = (if segs = [] then (if hd p = CHR ''/'' then ''/'' else if last p = CHR ''/'' then ''./'' else ''.'')
      else (if hd p = CHR ''/'' then ''/'' else []) @ join_with ''/'' segs @ (if last p = CHR ''/'' then ''/'' else []))"
    using p segs by (simp add: posix_normalize_def Let_def)
qed

lemma join_ends:
  assumes "segs \<noteq> []" "\<forall>s \<in> set segs. s \<noteq> [] \<and> CHR ''/'' \<notin> set s"
  shows "join_with ''/'' segs \<noteq> []" "hd (join_with ''/'' segs) \<noteq> CHR ''/''" "last (join_with ''/'' segs) \<noteq> CHR ''/''"
proof -
  obtain s ss where s: "segs = s # ss" using assms(1) by (cases segs) auto
  then show "join_with ''/'' segs \<noteq> []" "hd (join_with ''/'' segs) \<noteq> CHR ''/''" using assms(2) by (cases ss; cases s; auto)+
  show "last (join_with ''/'' segs) \<noteq> CHR ''/''" using assms
  proof (induction segs rule: join_with.induct [of _ "''/''"])
    case (2 sep w)
    then show ?case using last_in_set [of w] by (metis join_with.simps(2) list.set_intros(1))
  next
    case (3 sep w v ws)
    then show ?case by (cases ws) auto
  qed simp
qed

lemma split_joined_path:
  assumes "segs \<noteq> []" "\<forall>s \<in> set segs. s \<noteq> [] \<and> CHR ''/'' \<notin> set s"
  shows "split_on (CHR ''/'') ((if a then ''/'' else []) @ join_with ''/'' segs @ (if t then ''/'' else [])) =
    (if a then [[]] else []) @ segs @ (if t then [[]] else [])"
proof -
  have "join_with ''/'' segs @ (if t then ''/'' else []) = join_with [CHR ''/''] (segs @ (if t then [[]] else []))"
    using assms(1) by (induction segs rule: join_with.induct [of _ "''/''"]) auto
  moreover have "split_on (CHR ''/'') (join_with [CHR ''/''] (segs @ (if t then [[]] else []))) = segs @ (if t then [[]] else [])"
    using assms by (intro split_join) auto
  ultimately show ?thesis by simp
qed

lemma resolve_ignores_empty:
  "resolve_segments a ds (ss @ [[]]) = resolve_segments a ds ss" "resolve_segments a ds ([] # ss) = resolve_segments a ds ss"
  by (induction a ds ss rule: resolve_segments.induct) (auto split: list.split)

lemma posix_normalize_fixed:
  "posix_normalize ''/'' = ''/''" "posix_normalize ''./'' = ''./''" "posix_normalize ''.'' = ''.''"
  by code_simp+

lemma posix_normalize_idem: "posix_normalize (posix_normalize p) = posix_normalize p"
proof (cases "p = []")
  case False
  let ?a = "hd p = CHR ''/''" and ?t = "last p = CHR ''/''" and ?segs = "resolve_segments (hd p = CHR ''/'') [] (split_on (CHR ''/'') p)"
  note b = posix_normalize_body [OF False refl]
  show ?thesis
  proof (cases "?segs = []")
    case True
    then consider "posix_normalize p = ''/''" | "posix_normalize p = ''./''" | "posix_normalize p = ''.''"
      using b(1) by (auto split: if_splits)
    then show ?thesis by cases (simp_all only: posix_normalize_fixed)
  next
    case segs: False
    let ?q = "(if ?a then ''/'' else []) @ join_with ''/'' ?segs @ (if ?t then ''/'' else [])"
    have q: "posix_normalize p = ?q" using b(1) segs by simp
    note e = join_ends [OF segs b(3)]
    have ends: "?q \<noteq> []" "(hd ?q = CHR ''/'') = ?a" "(last ?q = CHR ''/'') = ?t" using e by auto
    have "resolve_segments ?a [] (split_on (CHR ''/'') ?q) = ?segs"
      unfolding split_joined_path [OF segs b(3)] using resolve_resolved [of ?a ?segs "[]"] b(2)
      by (auto simp: resolve_ignores_empty)
    then show ?thesis using posix_normalize_body(1) [OF ends(1) refl] segs ends unfolding q by simp
  qed
qed (simp add: posix_normalize_def)

end
