(* ===== verification/IRNormalization.thy ===== *)
theory IRNormalization
  imports EngineeringIR JsonText IdentityComponents "HOL-Library.Option_ord"
begin

text \<open>
  \<^verbatim>\<open>src/src/compiler/ir/ir-normalization.ts\<close>: normal forms of fact objects, attributes, provenance and evidence, and the
  provenance of manifests and of the compiler. A value is given with the JSON \<open>enc\<close> it is; copies of arrays are the arrays.
  Sorting with \<open>compareSemanticTuple\<close> is sorting by the tuple, an absent component first.
\<close>

section \<open>Definitions\<close>

fun normalizeSemanticValue :: "semantic_value \<Rightarrow> semantic_value" where
  "normalizeSemanticValue (SArray vs) = SArray (map normalizeSemanticValue vs)"
| "normalizeSemanticValue (SObject kvs) =
     SObject (own_property_order (sort_key fst (map (\<lambda>(k, v). (k, normalizeSemanticValue v)) kvs)))"
| "normalizeSemanticValue v = v"

fun normalizeFactObject :: "semantic_fact_object \<Rightarrow> semantic_fact_object" where
  "normalizeFactObject (EntityRef i) = EntityRef i"
| "normalizeFactObject (ValueObj v) = ValueObj (normalizeSemanticValue v)"

definition normalizeAttributes :: "semantic_attribute list \<Rightarrow> semantic_attribute list result" where
  "normalizeAttributes attributes =
     bind_r (uniqueSortedByKey attr_key attribute_json attributes) (\<lambda>unique. Inr (sort_key attr_key unique))"

definition provenanceKey :: "fact_provenance \<Rightarrow> string option list" where
  "provenanceKey p =
     [Some (provenance_kind_name (prov_kind p)), Some (prov_sourceId p), prov_sourcePath p, prov_revision p]"

definition evidenceKey :: "evidence_reference \<Rightarrow> string option list" where
  "evidenceKey e = [Some (ev_kind e), Some (ev_ref e), ev_digest e]"

definition metadataWireFields :: "json \<Rightarrow> (string \<times> string) list result" where
  "metadataWireFields v = (case v of
       JObject kvs \<Rightarrow> map_r (\<lambda>(k, d). case d of JString s \<Rightarrow> Inr (k, s)
         | _ \<Rightarrow> throw (NativeError ''IR metadata duplicates require enumerable own string data'')) kvs
     | _ \<Rightarrow> throw (NativeError ''IR metadata duplicates require plain data records''))"

text \<open>The callback that computes the key of a value and compares the value with the first one of the same key.\<close>

definition metadata_key ::
    "('v \<Rightarrow> json) \<Rightarrow> ('v \<Rightarrow> string option list) \<Rightarrow> 'v \<Rightarrow> (string, 'v) jsmap \<Rightarrow> (string \<times> (string, 'v) jsmap) result" where
  "metadata_key enc keyOf v byKey = (let key = stringify (optional_array (keyOf v)) in
     case map_get byKey key of
       None \<Rightarrow> Inr (key, map_set key v byKey)
     | Some old \<Rightarrow> bind_r (metadataWireFields (enc old)) (\<lambda>previous. bind_r (metadataWireFields (enc v)) (\<lambda>current.
         if previous \<noteq> current then throw (CodedFailure ''CANONICAL-KEY-CONFLICT'' []) else Inr (key, byKey))))"

definition add_metadata :: "('v \<Rightarrow> json) \<Rightarrow> ('v \<Rightarrow> string option list) \<Rightarrow> 'v \<Rightarrow>
    (string, 'v) jsmap \<times> (string, 'v) jsmap \<Rightarrow> ((string, 'v) jsmap \<times> (string, 'v) jsmap) result" where
  "add_metadata enc keyOf v maps = bind_r (metadata_key enc keyOf v (fst maps)) (\<lambda>(key, seen).
     bind_r (add_by_key (\<lambda>_. key) enc v (snd maps)) (\<lambda>byKey. Inr (seen, byKey)))"

definition uniqueSortedMetadataByKey :: "('v \<Rightarrow> json) \<Rightarrow> ('v \<Rightarrow> string option list) \<Rightarrow> 'v list \<Rightarrow> 'v list result" where
  "uniqueSortedMetadataByKey enc keyOf values =
     bind_r (fold_r (add_metadata enc keyOf) values ([], [])) (\<lambda>(seen, byKey).
       Inr (sort_key keyOf (map snd (sort_key fst byKey))))"

definition normalizeProvenance :: "fact_provenance list \<Rightarrow> fact_provenance list result" where
  "normalizeProvenance = uniqueSortedMetadataByKey provenance_json provenanceKey"

definition normalizeEvidence :: "evidence_reference list \<Rightarrow> evidence_reference list result" where
  "normalizeEvidence = uniqueSortedMetadataByKey evidence_json evidenceKey"

definition manifestProvenance :: "string \<Rightarrow> string option \<Rightarrow> fact_provenance list" where
  "manifestProvenance blockId path = [\<lparr>prov_kind = ContractProvenance, prov_sourceId = ''manifest:'' @ blockId,
     prov_sourcePath = (case path of Some p \<Rightarrow> if p = [] then None else Some p | None \<Rightarrow> None), prov_revision = None\<rparr>]"

definition compilerProvenance :: "string \<Rightarrow> fact_provenance list" where
  "compilerProvenance sourceId =
     [\<lparr>prov_kind = CompilerProvenance, prov_sourceId = sourceId, prov_sourcePath = None, prov_revision = None\<rparr>]"

section \<open>The order of tuples\<close>

lemma compare_optional_sign: "compare_optional a b < 0 \<longleftrightarrow> a < b" "compare_optional a b = 0 \<longleftrightarrow> a = b"
  by (cases a; cases b; auto simp: compare_optional_def compareCodeUnits_def)+

lemma compareSemanticTuple_less: "compareSemanticTuple as bs < 0 \<longleftrightarrow> as < bs"
proof (induction as arbitrary: bs)
  case (Cons a as)
  then show ?case by (cases bs) (auto simp: compare_optional_sign Let_def)
next
  case Nil
  then show ?case by (cases bs) auto
qed

section \<open>Normal values are fixed points\<close>

lemma filter_key_own_order: "filter (\<lambda>kv. fst kv = k) (own_property_order kvs) = filter (\<lambda>kv. fst kv = k) kvs"
proof -
  let ?r = "\<lambda>kv. read_nat (fst kv)" and ?idx = "\<lambda>kv. is_array_index (fst kv)" and ?P = "\<lambda>kv. fst kv = k"
  have "sorted (map ?r (filter ?P (filter ?idx kvs)))" by (induction kvs) auto
  then have "filter ?P (sort_key ?r (filter ?idx kvs)) = filter ?P (filter ?idx kvs)"
    using filter_sort [of ?P ?r "filter ?idx kvs"] sort_key_id_if_sorted by metis
  then have "filter ?P (own_property_order kvs) = filter ?P (filter ?idx kvs) @ filter ?P (filter (\<lambda>kv. \<not> ?idx kv) kvs)"
    unfolding own_property_order_def filter_append by (simp only:)
  also have "\<dots> = filter ?P kvs"
  proof (cases "is_array_index k")
    case True
    then have "filter ?P (filter (\<lambda>kv. \<not> ?idx kv) kvs) = []" "filter ?P (filter ?idx kvs) = filter ?P kvs"
      by (induction kvs) auto
    then show ?thesis by simp
  next
    case False
    then have "filter ?P (filter ?idx kvs) = []" "filter ?P (filter (\<lambda>kv. \<not> ?idx kv) kvs) = filter ?P kvs"
      by (induction kvs) auto
    then show ?thesis by simp
  qed
  finally show ?thesis .
qed

lemma sort_own_order: "sort_key fst (own_property_order kvs) = sort_key fst kvs"
proof (rule properties_for_sort_key)
  show "filter (\<lambda>x. fst kv = fst x) (sort_key fst kvs) = filter (\<lambda>x. fst kv = fst x) (own_property_order kvs)" for kv
    using filter_key_own_order [of "fst kv" kvs] sort_key_stable [of fst "fst kv" kvs] by (simp add: eq_commute)
qed simp_all

lemma map_sort_key: "(\<And>x. f' (h x) = f x) \<Longrightarrow> map h (sort_key f xs) = sort_key f' (map h xs)"
proof (induction xs)
  case (Cons x xs)
  have "map h (insort_key f x ys) = insort_key f' (h x) (map h ys)" for ys
    using Cons.prems by (induction ys) auto
  then show ?case using Cons by simp
qed simp

lemma map_values_own_order:
  "map (\<lambda>(k, v). (k, f v)) (own_property_order (sort_key fst kvs)) =
     own_property_order (sort_key fst (map (\<lambda>(k, v). (k, f v)) kvs))"
proof -
  have "map (\<lambda>(k, v). (k, f v)) (own_property_order xs) = own_property_order (map (\<lambda>(k, v). (k, f v)) xs)" for xs
    by (auto simp: own_property_order_def map_sort_key filter_map case_prod_unfold comp_def)
  moreover have "map (\<lambda>(k, v). (k, f v)) (sort_key fst kvs) = sort_key fst (map (\<lambda>(k, v). (k, f v)) kvs)"
    by (rule map_sort_key) auto
  ultimately show ?thesis by simp
qed

lemma normalizeSemanticValue_idem [simp]: "normalizeSemanticValue (normalizeSemanticValue v) = normalizeSemanticValue v"
proof (induction v)
  case (SObject kvs)
  let ?m = "map (\<lambda>(k, v). (k, normalizeSemanticValue v))"
  have "?m (?m kvs) = ?m kvs" using SObject by fastforce
  then have "?m (own_property_order (sort_key fst (?m kvs))) = own_property_order (sort_key fst (?m kvs))"
    by (simp only: map_values_own_order)
  then show ?case by (simp only: normalizeSemanticValue.simps sort_own_order) (simp add: sort_key_id_if_sorted)
qed simp_all

lemma normalizeFactObject_idem [simp]: "normalizeFactObject (normalizeFactObject x) = normalizeFactObject x"
  by (cases x) simp_all

lemma normalizeSemanticValue_json:
  "semantic_value_json (normalizeSemanticValue v) = canonical_form (semantic_value_json v)"
proof (induction v)
  case (SObject kvs)
  have "map (\<lambda>(k, v). (k, semantic_value_json v)) (map (\<lambda>(k, v). (k, normalizeSemanticValue v)) kvs) =
      map (\<lambda>(k, v). (k, canonical_form v)) (map (\<lambda>(k, v). (k, semantic_value_json v)) kvs)"
    using SObject by fastforce
  then show ?case by (simp only: normalizeSemanticValue.simps semantic_value_json.simps canonical_form.simps map_values_own_order)
qed simp_all

section \<open>One representative per key\<close>

lemma fold_add_by_key:
  assumes "fold_r (add_by_key keyOf enc) vs m = Inr m'" "distinct (map fst m)" "\<forall>(k, v) \<in> set m. keyOf v = k"
  shows "distinct (map fst m') \<and> (\<forall>(k, v) \<in> set m'. keyOf v = k \<and> v \<in> snd ` set m \<union> set vs) \<and>
     fst ` set m' = fst ` set m \<union> keyOf ` set vs"
  using assms
proof (induction vs arbitrary: m)
  case Nil
  then show ?case by (force simp: case_prod_unfold)
next
  case (Cons v vs)
  then obtain m1 where m1: "add_by_key keyOf enc v m = Inr m1" "fold_r (add_by_key keyOf enc) vs m1 = Inr m'" by auto
  show ?case
  proof (cases "map_get m (keyOf v)")
    case None
    then have n: "keyOf v \<notin> fst ` set m" using map_get_None_iff by metis
    then have e: "m1 = m @ [(keyOf v, v)]" using m1(1) None by (simp add: add_by_key_def map_set_new)
    then have "distinct (map fst m1)" "\<forall>(k, v) \<in> set m1. keyOf v = k" using Cons.prems n by auto
    from Cons.IH [OF m1(2) this] show ?thesis using e by (auto simp: case_prod_unfold)
  next
    case (Some w)
    then have e: "m1 = m" using m1(1) by (auto simp: add_by_key_def throw_def split: if_splits)
    have "keyOf v \<in> fst ` set m" using Some map_get_Some_in by force
    with Cons.IH [OF m1(2)] show ?thesis using Cons.prems(2,3) e by (auto simp: case_prod_unfold)
  qed
qed

lemma sorted_by_key_values:
  assumes "distinct (map fst m)" "\<forall>(k, v) \<in> set m. keyOf v = k"
  shows "map snd (sort_key fst m) = sort_key keyOf (map snd m)" "distinct (map keyOf (map snd m))"
    "map keyOf (map snd m) = map fst m"
proof -
  have k: "map keyOf (map snd xs) = map fst xs" if "set xs \<subseteq> set m" for xs
    using that assms(2) by (induction xs) (simp_all add: case_prod_unfold)
  show "map keyOf (map snd m) = map fst m" by (rule k) simp
  then show d: "distinct (map keyOf (map snd m))" using assms(1) by (metis order_refl)
  show "map snd (sort_key fst m) = sort_key keyOf (map snd m)"
  proof (rule sort_key_inj_key_eq [symmetric])
    show "inj_on keyOf (set (map snd m))" using d distinct_map by blast
    have "map keyOf (map snd (sort_key fst m)) = map fst (sort_key fst m)" by (rule k) simp
    then show "sorted (map keyOf (map snd (sort_key fst m)))" by (simp only: sorted_sort_key)
  qed (metis mset_map mset_sort)
qed

lemma uniqueSortedByKey_unique:
  assumes "uniqueSortedByKey keyOf enc vs = Inr us"
  shows "distinct (map keyOf us)" "sorted (map keyOf us)" "set us \<subseteq> set vs" "keyOf ` set us = keyOf ` set vs"
proof -
  obtain m where m: "fold_r (add_by_key keyOf enc) vs [] = Inr m" "us = map snd (sort_key fst m)"
    using assms by (auto simp: uniqueSortedByKey_def)
  have f: "distinct (map fst m)" "\<forall>(k, v) \<in> set m. keyOf v = k" "\<forall>(k, v) \<in> set m. v \<in> set vs" "fst ` set m = keyOf ` set vs"
    using fold_add_by_key [OF m(1)] by auto
  note s = sorted_by_key_values [OF f(1,2)]
  have u: "us = sort_key keyOf (map snd m)" using m(2) s(1) by simp
  have "distinct (map keyOf us) \<longleftrightarrow> distinct (map keyOf (map snd m))"
    unfolding u by (metis mset_eq_imp_distinct_iff mset_map mset_sort)
  then show "distinct (map keyOf us)" using s(2) by simp
  show "sorted (map keyOf us)" by (simp add: u)
  show "set us \<subseteq> set vs" using f(3) by (simp add: u) force
  have "keyOf ` set us = set (map keyOf (map snd m))" by (simp add: u image_image)
  then show "keyOf ` set us = keyOf ` set vs" unfolding s(3) using f(4) by simp
qed

lemma uniqueSortedByKey_distinct:
  assumes "distinct (map keyOf vs)"
  shows "uniqueSortedByKey keyOf enc vs = Inr (sort_key keyOf vs)"
proof -
  have "fold_r (add_by_key keyOf enc) vs m = Inr (m @ map (\<lambda>v. (keyOf v, v)) vs)"
    if "distinct (map keyOf vs)" "keyOf ` set vs \<inter> fst ` set m = {}" for m
    using that
  proof (induction vs arbitrary: m)
    case (Cons v vs)
    then have n: "keyOf v \<notin> fst ` set m" by simp
    then have "map_get m (keyOf v) = None" using map_get_None_iff by metis
    with n have "add_by_key keyOf enc v m = Inr (m @ [(keyOf v, v)])" by (simp add: add_by_key_def map_set_new)
    then show ?case using Cons.IH [of "m @ [(keyOf v, v)]"] Cons.prems by auto
  qed simp
  from this [OF assms, of "[]"] show ?thesis
    using sorted_by_key_values [of "map (\<lambda>v. (keyOf v, v)) vs" keyOf] assms by (simp add: uniqueSortedByKey_def comp_def)
qed

lemma normalizeAttributes_normal:
  assumes "normalizeAttributes as = Inr bs"
  shows "distinct (map attr_key bs)" "sorted (map attr_key bs)" "set bs \<subseteq> set as"
proof -
  obtain us where u: "uniqueSortedByKey attr_key attribute_json as = Inr us" "bs = sort_key attr_key us"
    using assms by (auto simp: normalizeAttributes_def)
  then show "distinct (map attr_key bs)" "sorted (map attr_key bs)" "set bs \<subseteq> set as"
    using uniqueSortedByKey_unique [OF u(1)] by (simp_all add: sort_key_id_if_sorted)
qed

lemma normalizeAttributes_distinct: "distinct (map attr_key as) \<Longrightarrow> normalizeAttributes as = Inr (sort_key attr_key as)"
  by (simp add: normalizeAttributes_def uniqueSortedByKey_distinct sort_key_id_if_sorted)

lemma normalizeAttributes_idem: "normalizeAttributes as = Inr bs \<Longrightarrow> normalizeAttributes bs = Inr bs"
  using normalizeAttributes_normal [of as bs] normalizeAttributes_distinct [of bs] by (simp add: sort_key_id_if_sorted)

section \<open>Metadata\<close>

lemma metadata_loop:
  assumes "inj keyOf" "\<And>v. is_ok (metadataWireFields (enc v))" "\<And>v. finite_json (enc v)" "distinct ds"
  defines "M \<equiv> map (\<lambda>v. (stringify (optional_array (keyOf v)), v))"
  shows "fold_r (add_metadata enc keyOf) vs (M ds, M ds) = Inr (M (dedup (ds @ vs)), M (dedup (ds @ vs)))"
proof (induction vs rule: rev_induct)
  case Nil
  then show ?case using assms(4) by simp
next
  case (snoc v vs)
  define es where "es = dedup (ds @ vs)"
  let ?k = "stringify (optional_array (keyOf v))"
  have inj: "stringify (optional_array (keyOf a)) = stringify (optional_array (keyOf b)) \<longleftrightarrow> a = b" for a b
    by (simp only: optional_array_inj inj_eq [OF assms(1)])
  have "map_of (M xs) ?k = (if v \<in> set xs then Some v else None)" for xs
    unfolding M_def by (induction xs) (simp_all add: inj)
  then have get: "map_get (M es) ?k = (if v \<in> set es then Some v else None)" by (simp add: map_get_def)
  obtain w where w: "metadataWireFields (enc v) = Inr w" using assms(2) [of v] by (auto simp: is_ok_iff)
  have "add_metadata enc keyOf v (M es, M es) = Inr (M (dedup (es @ [v])), M (dedup (es @ [v])))"
  proof (cases "v \<in> set es")
    case True
    then have "metadata_key enc keyOf v (M es) = Inr (?k, M es)" using get w by (simp add: metadata_key_def Let_def)
    moreover have "add_by_key (\<lambda>_. ?k) enc v (M es) = Inr (M es)"
      using True get assms(3) by (simp add: add_by_key_def canonicalEquals_eq)
    moreover have "dedup (es @ [v]) = es" using True by (simp add: dedup_snoc es_def)
    ultimately show ?thesis by (simp add: add_metadata_def)
  next
    case False
    then have "?k \<notin> fst ` set (M es)" using inj by (auto simp: M_def)
    then have "map_set ?k v (M es) = M (es @ [v])" by (simp add: map_set_new) (simp add: M_def)
    then have "metadata_key enc keyOf v (M es) = Inr (?k, M (es @ [v]))" "add_by_key (\<lambda>_. ?k) enc v (M es) = Inr (M (es @ [v]))"
      using get False by (simp_all add: metadata_key_def Let_def add_by_key_def)
    moreover have "dedup (es @ [v]) = es @ [v]" using False by (simp add: dedup_snoc es_def)
    ultimately show ?thesis by (simp add: add_metadata_def)
  qed
  moreover have "dedup (es @ [v]) = dedup (ds @ vs @ [v])"
    using dedup_snoc [of es v] dedup_snoc [of "ds @ vs" v] by (simp add: es_def)
  ultimately show ?case using snoc by (simp add: es_def)
qed

lemma uniqueSortedMetadata_eq:
  assumes "inj keyOf" "\<And>v. is_ok (metadataWireFields (enc v))" "\<And>v. finite_json (enc v)"
  shows "uniqueSortedMetadataByKey enc keyOf vs = Inr (sort_key keyOf (dedup vs))"
proof -
  let ?k = "\<lambda>v. stringify (optional_array (keyOf v))" and ?ds = "dedup vs"
  let ?m = "map (\<lambda>v. (?k v, v)) ?ds"
  have inj: "inj_on ?k (set ?ds)" by (rule inj_onI) (simp only: optional_array_inj inj_eq [OF assms(1)])
  then have "distinct (map fst ?m)" by (simp add: comp_def distinct_map)
  then have "map snd (sort_key fst ?m) = sort_key ?k ?ds" using sorted_by_key_values(1) [of ?m ?k] by (simp add: comp_def)
  moreover have "sort_key keyOf (sort_key ?k ?ds) = sort_key keyOf ?ds"
    by (rule sort_key_inj_key_eq) (use inj_on_subset [OF assms(1)] in simp_all)
  ultimately show ?thesis using metadata_loop [OF assms, where ds = "[]" and vs = vs] by (simp add: uniqueSortedMetadataByKey_def)
qed

lemma normalizeProvenance_eq: "normalizeProvenance ps = Inr (sort_key provenanceKey (dedup ps))"
  unfolding normalizeProvenance_def
proof (rule uniqueSortedMetadata_eq)
  have "provenance_kind_name a = provenance_kind_name b \<Longrightarrow> a = b" for a b by (cases a; cases b) simp_all
  then show "inj provenanceKey" by (auto simp: inj_def provenanceKey_def)
qed (auto simp: provenance_json_def optional_string_def metadataWireFields_def is_ok_iff split: option.splits)

lemma normalizeEvidence_eq: "normalizeEvidence es = Inr (sort_key evidenceKey (dedup es))"
  unfolding normalizeEvidence_def
proof (rule uniqueSortedMetadata_eq)
  show "inj evidenceKey" by (auto simp: inj_def evidenceKey_def)
qed (auto simp: evidence_json_def optional_string_def metadataWireFields_def is_ok_iff split: option.splits)

end
