(* ===== verification/IRIdentity.thy ===== *)
theory IRIdentity
  imports IRNormalization
begin

text \<open>
  \<^verbatim>\<open>src/src/compiler/ir/ir-identity.ts\<close>: the identities of semantic entities and facts. The constructors build an id from its
  components, \<open>isCanonicalSemanticEntityIdentity\<close> is the grammar that persisted ids are checked against, and \<open>addEntity\<close> is the
  store of entities. Kinds are given by their names where the code compares them as strings. The hash function is the
  parameter \<open>hash\<close>.
\<close>

section \<open>The grammar\<close>

definition is_sha256_hex :: "string \<Rightarrow> bool" where
  "is_sha256_hex s \<longleftrightarrow> length s = 64 \<and> list_all is_hex_lower s"

definition canonical_step :: "string \<Rightarrow> bool" where
  "canonical_step i = (case split_on (CHR '':'') i of
       [s, n, c, p] \<Rightarrow> s = ''scenario'' \<and> isSemanticIdentityComponent n False \<and> ends_with c ''#step'' \<and>
         isSemanticIdentityComponent (take (length c - length ''#step'') c) False \<and> isSemanticIdentityComponent p False
     | _ \<Rightarrow> False)"

text \<open>The text after the kind and the first colon.\<close>

definition canonical_body :: "string \<Rightarrow> string \<Rightarrow> bool" where
  "canonical_body kind body = (
     if kind = ''artifact'' then trim body \<noteq> [] \<and> normalizedArtifactTarget body = body
     else let parts = split_on (CHR '':'') body in
     if kind = ''port'' then (case parts of
         [b, d, p] \<Rightarrow> isSemanticIdentityComponent b False \<and> (d = ''input'' \<or> d = ''output'') \<and> isSemanticIdentityComponent p False
       | _ \<Rightarrow> False)
     else if kind = ''field'' then (case parts of
         [n, t] \<Rightarrow> isSemanticIdentityComponent n False \<and> (case split_on (CHR ''.'') t of
             [e, f] \<Rightarrow> isSemanticIdentityComponent e True \<and> isSemanticIdentityComponent f True
           | _ \<Rightarrow> False)
       | _ \<Rightarrow> False)
     else if kind = ''responsibility-binding'' then (case parts of
         [n, r, h] \<Rightarrow> isSemanticIdentityComponent n False \<and> isSemanticIdentityComponent r False \<and> is_sha256_hex h
       | _ \<Rightarrow> False)
     else if kind = ''generator'' then (case parts of
         [b, g] \<Rightarrow> isSemanticIdentityComponent b False \<and> isSemanticIdentityComponent g False
       | _ \<Rightarrow> False)
     else if kind \<in> set [''entity'', ''responsibility'', ''operation'', ''scenario'', ''state'', ''event'', ''permission'', ''effect''] then (case parts of
         [n, c] \<Rightarrow> isSemanticIdentityComponent n False \<and> isSemanticIdentityComponent c (kind = ''entity'')
       | _ \<Rightarrow> False)
     else if kind = ''policy'' then (length parts = 1 \<or> length parts = 2) \<and> list_all (\<lambda>p. isSemanticIdentityComponent p False) parts
     else kind \<in> set [''app'', ''block'', ''capability'', ''boundary'', ''acceptance''] \<and> length parts = 1 \<and>
       isSemanticIdentityComponent body False)"

definition isCanonicalSemanticEntityIdentity :: "string \<Rightarrow> string \<Rightarrow> bool" where
  "isCanonicalSemanticEntityIdentity i kind = (
     if CHR 0x00 \<in> set i then False
     else if kind = ''scenario-step'' then canonical_step i
     else starts_with i (kind @ '':'') \<and> canonical_body kind (drop (length kind + 1) i))"

definition assertCanonicalEntityIdentity :: "string \<Rightarrow> string \<Rightarrow> unit result" where
  "assertCanonicalEntityIdentity i kind =
     throw_if (\<not> isCanonicalSemanticEntityIdentity i kind) (CodedFailure ''IR-IDENTITY-008'' [i, kind])"

section \<open>Constructors\<close>

definition assertAppIdentity :: "string option \<Rightarrow> unit result" where
  "assertAppIdentity i = (case i of
       None \<Rightarrow> throw (CodedFailure ''IR-IDENTITY-007'' [])
     | Some v \<Rightarrow> if trim v = [] then throw (CodedFailure ''IR-IDENTITY-007'' []) else assertSemanticIdentityComponent v ''App id'' False)"

definition scopedEntityId :: "string \<Rightarrow> string \<Rightarrow> string \<Rightarrow> string result" where
  "scopedEntityId kind namespace i =
     bind_r (assertSemanticIdentityComponent namespace ''Semantic namespace'' False) (\<lambda>_.
     bind_r (assertSemanticIdentityComponent i (kind @ '' id'') False) (\<lambda>_.
     Inr (kind @ '':'' @ namespace @ '':'' @ i)))"

definition blockEntityId :: "string \<Rightarrow> string result" where
  "blockEntityId i = bind_r (assertSemanticIdentityComponent i ''Block id'' False) (\<lambda>_. Inr (''block:'' @ i))"

definition portEntityId :: "string \<Rightarrow> string \<Rightarrow> string \<Rightarrow> string result" where
  "portEntityId blockId direction i =
     bind_r (assertSemanticIdentityComponent blockId ''Port block id'' False) (\<lambda>_.
     bind_r (assertSemanticIdentityComponent i ''Port id'' False) (\<lambda>_.
     bind_r (throw_if (direction \<noteq> ''input'' \<and> direction \<noteq> ''output'') (CodedFailure ''IR-IDENTITY-008'' [])) (\<lambda>_.
     Inr (''port:'' @ blockId @ '':'' @ direction @ '':'' @ i))))"

definition acceptanceEntityId :: "string \<Rightarrow> string result" where
  "acceptanceEntityId i = bind_r (assertSemanticIdentityComponent i ''Acceptance id'' False) (\<lambda>_. Inr (''acceptance:'' @ i))"

definition verificationPolicyEntityId :: "string \<Rightarrow> string result" where
  "verificationPolicyEntityId i =
     bind_r (assertSemanticIdentityComponent i ''Verification policy id'' False) (\<lambda>_. Inr (''policy:'' @ i))"

definition appEntityId :: "string option \<Rightarrow> string result" where
  "appEntityId i = bind_r (assertAppIdentity i) (\<lambda>_. Inr (''app:'' @ the i))"

definition engineeringGraphId :: "string option \<Rightarrow> string result" where
  "engineeringGraphId i = bind_r (assertAppIdentity i) (\<lambda>_. Inr (''engineering-ir:'' @ the i))"

definition capabilityEntityId :: "string \<Rightarrow> string result" where
  "capabilityEntityId i = bind_r (assertSemanticIdentityComponent i ''Capability id'' False) (\<lambda>_. Inr (''capability:'' @ i))"

definition contractEntityId :: "string \<Rightarrow> string \<Rightarrow> string result" where
  "contractEntityId namespace i =
     bind_r (assertSemanticIdentityComponent i ''Entity id'' True) (\<lambda>_. scopedEntityId ''entity'' namespace i)"

definition contractFieldId :: "string \<Rightarrow> string \<Rightarrow> string \<Rightarrow> string result" where
  "contractFieldId namespace entityId fieldId =
     bind_r (assertSemanticIdentityComponent namespace ''Semantic namespace'' False) (\<lambda>_.
     bind_r (assertSemanticIdentityComponent entityId ''Entity id'' True) (\<lambda>_.
     bind_r (assertSemanticIdentityComponent fieldId ''Field id'' True) (\<lambda>_.
     Inr (''field:'' @ namespace @ '':'' @ entityId @ ''.'' @ fieldId))))"

definition contractResponsibilityId :: "string \<Rightarrow> string \<Rightarrow> string result" where
  "contractResponsibilityId = scopedEntityId ''responsibility''"

definition contractOperationId :: "string \<Rightarrow> string \<Rightarrow> string result" where
  "contractOperationId = scopedEntityId ''operation''"

definition contractStateId :: "string \<Rightarrow> string \<Rightarrow> string result" where
  "contractStateId = scopedEntityId ''state''"

definition contractEventId :: "string \<Rightarrow> string \<Rightarrow> string result" where
  "contractEventId = scopedEntityId ''event''"

definition contractPolicyId :: "string \<Rightarrow> string \<Rightarrow> string result" where
  "contractPolicyId = scopedEntityId ''policy''"

definition contractPermissionId :: "string \<Rightarrow> string \<Rightarrow> string result" where
  "contractPermissionId = scopedEntityId ''permission''"

definition contractEffectId :: "string \<Rightarrow> string \<Rightarrow> string result" where
  "contractEffectId = scopedEntityId ''effect''"

definition contractScenarioId :: "string \<Rightarrow> string \<Rightarrow> string result" where
  "contractScenarioId = scopedEntityId ''scenario''"

definition contractResponsibilityBindingId ::
    "(string \<Rightarrow> string) \<Rightarrow> string \<Rightarrow> string \<Rightarrow> string \<Rightarrow> string \<Rightarrow> string \<Rightarrow> string \<Rightarrow> string result" where
  "contractResponsibilityBindingId hash namespace responsibilityId targetKind targetId declarationPath declarationExportName =
     bind_r (assertSemanticIdentityComponent namespace ''Semantic namespace'' False) (\<lambda>_.
     bind_r (assertSemanticIdentityComponent responsibilityId ''Responsibility id'' False) (\<lambda>_.
     bind_r (assertSemanticIdentityComponent targetKind ''Binding target kind'' False) (\<lambda>_.
     bind_r (assertCanonicalEntityIdentity targetId targetKind) (\<lambda>_.
     Inr (''responsibility-binding:'' @ namespace @ '':'' @ responsibilityId @ '':'' @
       digest_of hash (stringify (strings_object [(''targetKind'', targetKind), (''targetId'', targetId),
         (''declarationPath'', normalizedArtifactTarget declarationPath), (''declarationExportName'', declarationExportName)])))))))"

definition generatorEntityId :: "string \<Rightarrow> string \<Rightarrow> string result" where
  "generatorEntityId blockId generatorId =
     bind_r (assertSemanticIdentityComponent blockId ''Generator block id'' False) (\<lambda>_.
     bind_r (assertSemanticIdentityComponent generatorId ''Generator id'' False) (\<lambda>_.
     Inr (''generator:'' @ blockId @ '':'' @ generatorId)))"

definition artifactEntityId :: "string \<Rightarrow> string result" where
  "artifactEntityId target = (let i = ''artifact:'' @ normalizedArtifactTarget target in
     bind_r (assertCanonicalEntityIdentity i ''artifact'') (\<lambda>_. Inr i))"

definition scenarioStepEntityId :: "string \<Rightarrow> string \<Rightarrow> string result" where
  "scenarioStepEntityId scenarioId stepId =
     bind_r (assertCanonicalEntityIdentity scenarioId ''scenario'') (\<lambda>_.
     bind_r (assertSemanticIdentityComponent stepId ''Scenario step id'' False) (\<lambda>_.
     Inr (scenarioId @ ''#step:'' @ stepId)))"

section \<open>Entities and facts\<close>

definition semanticEntity ::
    "string \<Rightarrow> semantic_entity_kind \<Rightarrow> string \<Rightarrow> semantic_attribute list \<Rightarrow> semantic_entity result" where
  "semanticEntity i kind label attributes =
     bind_r (assertCanonicalEntityIdentity i (entity_kind_name kind)) (\<lambda>_.
     bind_r (normalizeAttributes attributes) (\<lambda>normal.
     Inr \<lparr>ent_id = i, ent_kind = kind, ent_label = label, ent_attributes = normal\<rparr>))"

definition valueAttribute :: "string \<Rightarrow> semantic_attribute_value \<Rightarrow> semantic_attribute" where
  "valueAttribute key v = \<lparr>attr_key = key, attr_value = v\<rparr>"

definition objectKey :: "semantic_fact_object \<Rightarrow> string" where
  "objectKey x = (case normalizeFactObject x of
     EntityRef i \<Rightarrow> ''entity:'' @ i | ValueObj v \<Rightarrow> ''value:'' @ stringify (semantic_value_json v))"

definition factIdentity :: "string \<Rightarrow> semantic_predicate \<Rightarrow> semantic_fact_object \<Rightarrow> string result" where
  "factIdentity subject predicate obj =
     bind_r (throw_if (CHR 0x00 \<in> set subject \<or> CHR 0x00 \<in> set (predicate_name predicate) \<or>
         (case obj of EntityRef i \<Rightarrow> CHR 0x00 \<in> set i | ValueObj _ \<Rightarrow> False)) (CodedFailure ''IR-IDENTITY-008'' [])) (\<lambda>_.
     Inr (subject @ CHR 0x00 # predicate_name predicate @ CHR 0x00 # objectKey obj))"

definition addEntity :: "semantic_entity \<Rightarrow> (string, semantic_entity) jsmap \<Rightarrow> (string, semantic_entity) jsmap result" where
  "addEntity entity store =
     bind_r (assertCanonicalEntityIdentity (ent_id entity) (entity_kind_name (ent_kind entity))) (\<lambda>_.
     case map_get store (ent_id entity) of
       Some existing \<Rightarrow> bind_r (throw_if (stringify (entity_json existing) \<noteq> stringify (entity_json entity))
           (CodedFailure ''IR-IDENTITY-001'' [ent_id entity])) (\<lambda>_. Inr store)
     | None \<Rightarrow> Inr (map_set (ent_id entity) entity store))"

definition check_assertion_authority :: "fact_assertion \<Rightarrow> unit result" where
  "check_assertion_authority a =
     bind_r (throw_if (\<not> is_finite_number (as_confidence a) \<or> number_less (as_confidence a) (Decimal 0 0) \<or>
         number_less (Decimal 1 0) (as_confidence a)) (CodedFailure ''IR-AUTHORITY-001'' [as_id a])) (\<lambda>_.
     throw_if (as_provenance a = []) (CodedFailure ''IR-AUTHORITY-002'' [as_id a]))"

definition check_fact_references :: "string list \<Rightarrow> semantic_fact \<Rightarrow> unit result" where
  "check_fact_references entityIds f =
     bind_r (throw_if (fact_subject f \<notin> set entityIds) (CodedFailure ''IR-FACT-002'' [fact_id f, fact_subject f])) (\<lambda>_.
     bind_r (case fact_object f of
         EntityRef i \<Rightarrow> throw_if (i \<notin> set entityIds) (CodedFailure ''IR-FACT-003'' [fact_id f, i]) | ValueObj _ \<Rightarrow> Inr ()) (\<lambda>_.
     bind_r (throw_if (fact_assertions f = []) (CodedFailure ''IR-AUTHORITY-004'' [fact_id f])) (\<lambda>_.
     check_all check_assertion_authority (fact_assertions f))))"

definition check_scenario_references :: "string list \<Rightarrow> scenario_definition \<Rightarrow> unit result" where
  "check_scenario_references entityIds s =
     bind_r (throw_if (scen_id s \<notin> set entityIds \<or> scen_entryEntityId s \<notin> set entityIds)
         (CodedFailure ''IR-FACT-004'' [scen_id s])) (\<lambda>_.
     bind_r (check_all (\<lambda>p. throw_if (step_operationEntityId p \<notin> set entityIds)
         (CodedFailure ''IR-FACT-005'' [scen_id s, step_id p, step_operationEntityId p])) (scen_steps s)) (\<lambda>_.
     check_all (\<lambda>a. throw_if (a \<notin> set entityIds) (CodedFailure ''IR-FACT-006'' [scen_id s, a])) (scen_acceptanceEntityIds s)))"

definition assertEngineeringIRReferences ::
    "string list \<Rightarrow> semantic_fact list \<Rightarrow> scenario_definition list \<Rightarrow> unit result" where
  "assertEngineeringIRReferences entityIds fs ss =
     bind_r (check_all (check_fact_references entityIds) fs) (\<lambda>_. check_all (check_scenario_references entityIds) ss)"

section \<open>The grammar as patterns\<close>

lemma case_two: "(case ws of [x, y] \<Rightarrow> P x y | _ \<Rightarrow> False) \<longleftrightarrow> (\<exists>x y. ws = [x, y] \<and> P x y)"
  by (auto split: list.split)

lemma case_three: "(case ws of [x, y, z] \<Rightarrow> P x y z | _ \<Rightarrow> False) \<longleftrightarrow> (\<exists>x y z. ws = [x, y, z] \<and> P x y z)"
  by (auto split: list.split)

lemma case_four: "(case ws of [x, y, z, w] \<Rightarrow> P x y z w | _ \<Rightarrow> False) \<longleftrightarrow> (\<exists>x y z w. ws = [x, y, z, w] \<and> P x y z w)"
  by (auto split: list.split)

lemmas case_lists = case_two case_three case_four

abbreviation component :: "string \<Rightarrow> bool" where
  "component s \<equiv> isSemanticIdentityComponent s False"

abbreviation target_component :: "string \<Rightarrow> bool" where
  "target_component s \<equiv> isSemanticIdentityComponent s True"

lemma component_chars [dest]:
  "isSemanticIdentityComponent v f \<Longrightarrow> CHR '':'' \<notin> set v"
  "isSemanticIdentityComponent v f \<Longrightarrow> CHR 0x00 \<notin> set v"
  "isSemanticIdentityComponent v True \<Longrightarrow> CHR ''.'' \<notin> set v"
  by (auto simp: isSemanticIdentityComponent_def)

lemma target_component_component: "target_component v \<longleftrightarrow> component v \<and> CHR ''.'' \<notin> set v"
  by (auto simp: isSemanticIdentityComponent_def)

lemma split_colons:
  "split_on c s = [w] \<longleftrightarrow> s = w \<and> c \<notin> set w"
  "split_on c s = [w, x] \<longleftrightarrow> s = w @ c # x \<and> c \<notin> set w \<and> c \<notin> set x"
  "split_on c s = [w, x, y] \<longleftrightarrow> s = w @ c # x @ c # y \<and> c \<notin> set w \<and> c \<notin> set x \<and> c \<notin> set y"
  "split_on c s = [w, x, y, z] \<longleftrightarrow>
     s = w @ c # x @ c # y @ c # z \<and> c \<notin> set w \<and> c \<notin> set x \<and> c \<notin> set y \<and> c \<notin> set z"
  by (auto simp: split_join_parts)

lemma component_parts:
  "component w \<Longrightarrow> split_on (CHR '':'') w = [w]"
  "component v \<Longrightarrow> component w \<Longrightarrow> split_on (CHR '':'') (v @ CHR '':'' # w) = [v, w]"
  by (auto simp: split_colons)

lemma starts_with_drop: "starts_with i (k @ '':'') \<longleftrightarrow> i = k @ CHR '':'' # drop (length k + 1) i"
  by (auto simp: starts_with_iff)

lemma canonical_prefix:
  "kind \<noteq> ''scenario-step'' \<Longrightarrow> isCanonicalSemanticEntityIdentity i kind \<longleftrightarrow>
     CHR 0x00 \<notin> set i \<and> (\<exists>body. i = kind @ CHR '':'' # body \<and> canonical_body kind body)"
  unfolding isCanonicalSemanticEntityIdentity_def starts_with_drop by force

text \<open>The bodies of the kinds.\<close>

definition simple_kinds :: "string set" where
  "simple_kinds = {''app'', ''block'', ''capability'', ''boundary'', ''acceptance''}"

definition scoped_kinds :: "string set" where
  "scoped_kinds = {''entity'', ''responsibility'', ''operation'', ''scenario'', ''state'', ''event'', ''permission'', ''effect'', ''generator''}"

definition entity_kind_names :: "string set" where
  "entity_kind_names = simple_kinds \<union> scoped_kinds \<union> {''policy'', ''port'', ''field'', ''responsibility-binding''}"

lemma body_simple:
  assumes "kind \<in> simple_kinds"
  shows "canonical_body kind body \<longleftrightarrow> component body"
proof -
  have "canonical_body kind body \<longleftrightarrow> length (split_on (CHR '':'') body) = 1 \<and> component body"
    using assms unfolding simple_kinds_def by (elim insertE emptyE; simp add: canonical_body_def)
  then show ?thesis using component_parts(1) [of body] by auto
qed

lemma body_scoped:
  assumes "kind \<in> scoped_kinds"
  shows "canonical_body kind body \<longleftrightarrow>
    (\<exists>n c. body = n @ CHR '':'' # c \<and> component n \<and> isSemanticIdentityComponent c (kind = ''entity''))"
proof -
  have "canonical_body kind body \<longleftrightarrow> (\<exists>n c. split_on (CHR '':'') body = [n, c] \<and> component n \<and> isSemanticIdentityComponent c (kind = ''entity''))"
    using assms unfolding scoped_kinds_def by (elim insertE emptyE; simp add: canonical_body_def case_lists)
  then show ?thesis unfolding split_colons using component_chars(1) by blast
qed

lemma body_policy:
  "canonical_body ''policy'' body \<longleftrightarrow> component body \<or> (\<exists>n c. body = n @ CHR '':'' # c \<and> component n \<and> component c)"
proof -
  have "canonical_body ''policy'' body \<longleftrightarrow> (\<exists>w. split_on (CHR '':'') body = [w] \<and> component w) \<or>
      (\<exists>n c. split_on (CHR '':'') body = [n, c] \<and> component n \<and> component c)"
    by (cases "split_on (CHR '':'') body" rule: remdups_adj.cases) (auto simp: canonical_body_def length_Suc_conv numeral_2_eq_2)
  then show ?thesis unfolding split_colons using component_chars(1) by blast
qed

lemma body_port:
  "canonical_body ''port'' body \<longleftrightarrow>
     (\<exists>b d p. body = b @ CHR '':'' # d @ CHR '':'' # p \<and> component b \<and> (d = ''input'' \<or> d = ''output'') \<and> component p)"
proof -
  have "canonical_body ''port'' body \<longleftrightarrow>
      (\<exists>b d p. split_on (CHR '':'') body = [b, d, p] \<and> component b \<and> (d = ''input'' \<or> d = ''output'') \<and> component p)"
    by (simp add: canonical_body_def case_lists)
  moreover have "CHR '':'' \<notin> set d" if "d = ''input'' \<or> d = ''output''" for d using that by auto
  ultimately show ?thesis unfolding split_colons using component_chars(1) by blast
qed

lemma body_field:
  "canonical_body ''field'' body \<longleftrightarrow>
     (\<exists>n e f. body = n @ CHR '':'' # e @ CHR ''.'' # f \<and> component n \<and> target_component e \<and> target_component f)"
proof -
  have "canonical_body ''field'' body \<longleftrightarrow> (\<exists>n t. split_on (CHR '':'') body = [n, t] \<and> component n \<and>
      (\<exists>e f. split_on (CHR ''.'') t = [e, f] \<and> target_component e \<and> target_component f))"
    by (simp add: canonical_body_def case_lists)
  moreover have "CHR '':'' \<notin> set (e @ CHR ''.'' # f)" if "target_component e" "target_component f" for e f
    using that component_chars(1) by auto
  ultimately show ?thesis unfolding split_colons using component_chars(1,3) by metis
qed

lemma hex_chars: "is_sha256_hex h \<Longrightarrow> c \<in> set h \<Longrightarrow> is_hex_lower c"
  by (auto simp: is_sha256_hex_def list_all_iff)

lemma body_binding:
  "canonical_body ''responsibility-binding'' body \<longleftrightarrow>
     (\<exists>n r h. body = n @ CHR '':'' # r @ CHR '':'' # h \<and> component n \<and> component r \<and> is_sha256_hex h)"
proof -
  have "CHR '':'' \<notin> set h" if "is_sha256_hex h" for h
    using hex_chars [OF that, of "CHR '':''"] by (auto simp: is_hex_lower_def is_digit_def char_between_def)
  moreover have "canonical_body ''responsibility-binding'' body \<longleftrightarrow>
      (\<exists>n r h. split_on (CHR '':'') body = [n, r, h] \<and> component n \<and> component r \<and> is_sha256_hex h)"
    by (simp add: canonical_body_def case_lists)
  ultimately show ?thesis unfolding split_colons using component_chars(1) by blast
qed

lemma step_form:
  "canonical_step i \<longleftrightarrow>
     (\<exists>n c p. i = ''scenario:'' @ n @ CHR '':'' # c @ ''#step:'' @ p \<and> component n \<and> component c \<and> component p)"
proof -
  have e: "ends_with c ''#step'' \<and> component (take (length c - length ''#step'') c) \<longleftrightarrow> (\<exists>d. c = d @ ''#step'' \<and> component d)" for c
    by (auto simp: ends_with_iff)
  have "CHR '':'' \<notin> set (d @ ''#step'')" if "component d" for d using component_chars(1) [OF that] by simp
  moreover have "CHR '':'' \<notin> set ''scenario''" by simp
  moreover have "canonical_step i \<longleftrightarrow> (\<exists>n c p. split_on (CHR '':'') i = [''scenario'', n, c, p] \<and> component n \<and>
      (\<exists>d. c = d @ ''#step'' \<and> component d) \<and> component p)"
    unfolding canonical_step_def case_lists e [symmetric] by blast
  ultimately have "canonical_step i \<longleftrightarrow> (\<exists>n d p. i = ''scenario'' @ CHR '':'' # n @ CHR '':'' # (d @ ''#step'') @ CHR '':'' # p \<and>
      component n \<and> component d \<and> component p)"
    unfolding split_colons using component_chars(1) by metis
  then show ?thesis by simp
qed

lemmas body_forms = body_simple body_scoped body_policy body_port body_field body_binding

lemma body_kind: "canonical_body kind body \<Longrightarrow> kind = ''artifact'' \<or> kind \<in> entity_kind_names"
proof (rule ccontr)
  assume b: "canonical_body kind body" and "\<not> (kind = ''artifact'' \<or> kind \<in> entity_kind_names)"
  then have "kind \<noteq> ''artifact''" "kind \<notin> entity_kind_names" by blast+
  then have "\<not> canonical_body kind body"
    by (simp add: canonical_body_def entity_kind_names_def simple_kinds_def scoped_kinds_def)
  then show False using b ..
qed

lemma kind_chars: "kind \<in> entity_kind_names \<Longrightarrow> CHR '':'' \<notin> set kind \<and> CHR 0x00 \<notin> set kind \<and> kind \<noteq> ''scenario-step'' \<and> kind \<noteq> ''artifact''"
  unfolding entity_kind_names_def simple_kinds_def scoped_kinds_def by (elim UnE insertE emptyE) simp_all

lemma body_no_nul: "kind \<in> entity_kind_names \<Longrightarrow> canonical_body kind body \<Longrightarrow> CHR 0x00 \<notin> set body"
proof -
  assume k: "kind \<in> entity_kind_names" and b: "canonical_body kind body"
  have hex: "CHR 0x00 \<notin> set h" if "is_sha256_hex h" for h
    using hex_chars [OF that, of "CHR 0x00"] by (auto simp: is_hex_lower_def is_digit_def char_between_def)
  consider (simple) "kind \<in> simple_kinds"
    | (scoped) "kind \<in> scoped_kinds"
    | (policy) "kind = ''policy''" | (port) "kind = ''port''" | (field) "kind = ''field''" | (binding) "kind = ''responsibility-binding''"
    using k unfolding entity_kind_names_def by blast
  then show ?thesis
  proof cases
    case simple
    then show ?thesis using b body_simple component_chars(2) by blast
  next
    case scoped
    then obtain n c f where "body = n @ CHR '':'' # c" "component n" "isSemanticIdentityComponent c f" using b body_scoped by blast
    then show ?thesis using component_chars(2) by auto
  next
    case policy
    then show ?thesis using b component_chars(2) unfolding policy body_policy by auto
  next
    case port
    then show ?thesis using b component_chars(2) unfolding port body_port by auto
  next
    case field
    then show ?thesis using b component_chars(2) unfolding field body_field by auto
  next
    case binding
    then show ?thesis using b hex component_chars(2) unfolding binding body_binding by auto
  qed
qed

lemma canonical_form:
  "kind \<in> entity_kind_names \<Longrightarrow> isCanonicalSemanticEntityIdentity i kind \<longleftrightarrow> (\<exists>body. i = kind @ CHR '':'' # body \<and> canonical_body kind body)"
proof -
  assume k: "kind \<in> entity_kind_names"
  note c = kind_chars [OF k]
  have "CHR 0x00 \<notin> set (kind @ CHR '':'' # body)" if "canonical_body kind body" for body
    using body_no_nul [OF k that] c by simp
  then show ?thesis using canonical_prefix [of kind i] c by metis
qed

lemma canonical_step_form:
  "isCanonicalSemanticEntityIdentity i ''scenario-step'' \<longleftrightarrow>
     (\<exists>n c p. i = ''scenario:'' @ n @ CHR '':'' # c @ ''#step:'' @ p \<and> component n \<and> component c \<and> component p)"
proof -
  have "CHR 0x00 \<notin> set (''scenario:'' @ n @ CHR '':'' # c @ ''#step:'' @ p)" if "component n" "component c" "component p" for n c p
    using that component_chars(2) by auto
  then have "canonical_step i \<longrightarrow> CHR 0x00 \<notin> set i" unfolding step_form by blast
  then show ?thesis unfolding isCanonicalSemanticEntityIdentity_def step_form [symmetric] by auto
qed

section \<open>What the constructors return\<close>

named_theorems constructed \<open>results of the identity constructors\<close>

lemma scopedEntityId_Inr: "scopedEntityId kind n c = Inr i \<longleftrightarrow> component n \<and> component c \<and> i = kind @ CHR '':'' # n @ CHR '':'' # c"
  by (auto simp: scopedEntityId_def bind_r_Inr_iff)

lemma simple_Inr [constructed]:
  "blockEntityId c = Inr i \<longleftrightarrow> component c \<and> i = ''block'' @ CHR '':'' # c"
  "capabilityEntityId c = Inr i \<longleftrightarrow> component c \<and> i = ''capability'' @ CHR '':'' # c"
  "acceptanceEntityId c = Inr i \<longleftrightarrow> component c \<and> i = ''acceptance'' @ CHR '':'' # c"
  "verificationPolicyEntityId c = Inr i \<longleftrightarrow> component c \<and> i = ''policy'' @ CHR '':'' # c"
  by (auto simp: blockEntityId_def capabilityEntityId_def acceptanceEntityId_def verificationPolicyEntityId_def bind_r_Inr_iff)

lemma app_Inr [constructed]:
  "appEntityId a = Inr i \<longleftrightarrow> (\<exists>c. a = Some c \<and> component c \<and> i = ''app'' @ CHR '':'' # c)"
  "engineeringGraphId a = Inr i \<longleftrightarrow> (\<exists>c. a = Some c \<and> component c \<and> i = ''engineering-ir:'' @ c)"
proof -
  have "assertAppIdentity a = Inr u \<longleftrightarrow> (\<exists>c. a = Some c \<and> component c)" for u
    by (cases a) (auto simp: assertAppIdentity_def throw_def isSemanticIdentityComponent_def)
  then show "appEntityId a = Inr i \<longleftrightarrow> (\<exists>c. a = Some c \<and> component c \<and> i = ''app'' @ CHR '':'' # c)"
    "engineeringGraphId a = Inr i \<longleftrightarrow> (\<exists>c. a = Some c \<and> component c \<and> i = ''engineering-ir:'' @ c)"
    by (auto simp: appEntityId_def engineeringGraphId_def bind_r_Inr_iff)
qed

lemma scoped_Inr [constructed]:
  "contractResponsibilityId n c = Inr i \<longleftrightarrow> component n \<and> component c \<and> i = ''responsibility'' @ CHR '':'' # n @ CHR '':'' # c"
  "contractOperationId n c = Inr i \<longleftrightarrow> component n \<and> component c \<and> i = ''operation'' @ CHR '':'' # n @ CHR '':'' # c"
  "contractStateId n c = Inr i \<longleftrightarrow> component n \<and> component c \<and> i = ''state'' @ CHR '':'' # n @ CHR '':'' # c"
  "contractEventId n c = Inr i \<longleftrightarrow> component n \<and> component c \<and> i = ''event'' @ CHR '':'' # n @ CHR '':'' # c"
  "contractPolicyId n c = Inr i \<longleftrightarrow> component n \<and> component c \<and> i = ''policy'' @ CHR '':'' # n @ CHR '':'' # c"
  "contractPermissionId n c = Inr i \<longleftrightarrow> component n \<and> component c \<and> i = ''permission'' @ CHR '':'' # n @ CHR '':'' # c"
  "contractEffectId n c = Inr i \<longleftrightarrow> component n \<and> component c \<and> i = ''effect'' @ CHR '':'' # n @ CHR '':'' # c"
  "contractScenarioId n c = Inr i \<longleftrightarrow> component n \<and> component c \<and> i = ''scenario'' @ CHR '':'' # n @ CHR '':'' # c"
  "generatorEntityId n c = Inr i \<longleftrightarrow> component n \<and> component c \<and> i = ''generator'' @ CHR '':'' # n @ CHR '':'' # c"
  unfolding contractResponsibilityId_def contractOperationId_def contractStateId_def contractEventId_def contractPolicyId_def
    contractPermissionId_def contractEffectId_def contractScenarioId_def scopedEntityId_Inr
  by (auto simp: generatorEntityId_def bind_r_Inr_iff)

lemma target_Inr [constructed]:
  "contractEntityId n c = Inr i \<longleftrightarrow> component n \<and> target_component c \<and> i = ''entity'' @ CHR '':'' # n @ CHR '':'' # c"
  "contractFieldId n c f = Inr i \<longleftrightarrow>
     component n \<and> target_component c \<and> target_component f \<and> i = ''field'' @ CHR '':'' # n @ CHR '':'' # c @ CHR ''.'' # f"
  using target_component_component [of c]
  by (auto simp: contractEntityId_def contractFieldId_def scopedEntityId_Inr bind_r_Inr_iff)

lemma port_Inr [constructed]:
  "portEntityId b d p = Inr i \<longleftrightarrow> component b \<and> (d = ''input'' \<or> d = ''output'') \<and> component p \<and>
     i = ''port'' @ CHR '':'' # b @ CHR '':'' # d @ CHR '':'' # p"
  by (auto simp: portEntityId_def bind_r_Inr_iff)

lemma assertCanonical_Inr [simp]: "assertCanonicalEntityIdentity i kind = Inr u \<longleftrightarrow> isCanonicalSemanticEntityIdentity i kind"
  by (simp add: assertCanonicalEntityIdentity_def)

lemma binding_Inr [constructed]:
  "contractResponsibilityBindingId hash n r k t d e = Inr i \<longleftrightarrow> component n \<and> component r \<and> component k \<and>
     isCanonicalSemanticEntityIdentity t k \<and> i = ''responsibility-binding'' @ CHR '':'' # n @ CHR '':'' # r @ CHR '':'' #
       digest_of hash (stringify (strings_object [(''targetKind'', k), (''targetId'', t),
         (''declarationPath'', normalizedArtifactTarget d), (''declarationExportName'', e)]))"
  by (auto simp: contractResponsibilityBindingId_def bind_r_Inr_iff)

lemma artifact_Inr [constructed]:
  "artifactEntityId t = Inr i \<longleftrightarrow> i = ''artifact'' @ CHR '':'' # normalizedArtifactTarget t \<and> isCanonicalSemanticEntityIdentity i ''artifact''"
  by (auto simp: artifactEntityId_def bind_r_Inr_iff Let_def)

lemma step_Inr [constructed]:
  "scenarioStepEntityId s p = Inr i \<longleftrightarrow> isCanonicalSemanticEntityIdentity s ''scenario'' \<and> component p \<and> i = s @ ''#step:'' @ p"
  by (auto simp: scenarioStepEntityId_def bind_r_Inr_iff)

lemma canonical_scenario:
  "isCanonicalSemanticEntityIdentity s ''scenario'' \<longleftrightarrow> (\<exists>n c. s = ''scenario'' @ CHR '':'' # n @ CHR '':'' # c \<and> component n \<and> component c)"
proof -
  have "isCanonicalSemanticEntityIdentity s ''scenario'' \<longleftrightarrow>
      (\<exists>body. s = ''scenario'' @ CHR '':'' # body \<and> (\<exists>n c. body = n @ CHR '':'' # c \<and> component n \<and> component c))"
    using canonical_form [of "''scenario''" s] body_scoped [of "''scenario''"] by (simp add: entity_kind_names_def scoped_kinds_def)
  then show ?thesis by blast
qed

lemma kinds_listed [simp]:
  "''app'' \<in> entity_kind_names" "''block'' \<in> entity_kind_names" "''capability'' \<in> entity_kind_names" "''acceptance'' \<in> entity_kind_names"
  "''policy'' \<in> entity_kind_names" "''entity'' \<in> entity_kind_names" "''field'' \<in> entity_kind_names" "''port'' \<in> entity_kind_names"
  "''responsibility'' \<in> entity_kind_names" "''operation'' \<in> entity_kind_names" "''state'' \<in> entity_kind_names"
  "''event'' \<in> entity_kind_names" "''permission'' \<in> entity_kind_names" "''effect'' \<in> entity_kind_names"
  "''scenario'' \<in> entity_kind_names" "''generator'' \<in> entity_kind_names" "''responsibility-binding'' \<in> entity_kind_names"
  by (simp_all add: entity_kind_names_def simple_kinds_def scoped_kinds_def)

lemma named_kind:
  assumes "isCanonicalSemanticEntityIdentity i kind" "kind \<noteq> ''scenario-step''"
  obtains body where "i = kind @ CHR '':'' # body" "canonical_body kind body" "CHR '':'' \<notin> set kind"
proof -
  obtain body where b: "i = kind @ CHR '':'' # body" "canonical_body kind body" using assms canonical_prefix by blast
  have "CHR '':'' \<notin> set kind" using body_kind [OF b(2)] kind_chars by force
  then show ?thesis using that b by blast
qed

lemma canonical_simple:
  "k \<in> simple_kinds \<Longrightarrow> isCanonicalSemanticEntityIdentity i k \<longleftrightarrow> (\<exists>c. component c \<and> i = k @ CHR '':'' # c)"
  using canonical_form [of k i] body_simple [of k] by (auto simp: entity_kind_names_def)

lemma canonical_scoped:
  assumes "k \<in> scoped_kinds"
  shows "isCanonicalSemanticEntityIdentity i k \<longleftrightarrow>
    (\<exists>n c. component n \<and> isSemanticIdentityComponent c (k = ''entity'') \<and> i = k @ CHR '':'' # n @ CHR '':'' # c)"
proof -
  have "isCanonicalSemanticEntityIdentity i k \<longleftrightarrow> (\<exists>body. i = k @ CHR '':'' # body \<and> canonical_body k body)"
    using assms canonical_form [of k i] by (simp add: entity_kind_names_def)
  then show ?thesis unfolding body_scoped [OF assms] by blast
qed

lemma artifact_body:
  assumes "isCanonicalSemanticEntityIdentity i ''artifact''"
  obtains t where "i = ''artifact'' @ CHR '':'' # normalizedArtifactTarget t"
proof -
  obtain body where "i = ''artifact'' @ CHR '':'' # body" "canonical_body ''artifact'' body"
    using named_kind [OF assms] by blast
  then show ?thesis using that [of body] by (simp add: canonical_body_def)
qed

section \<open>Properties\<close>

lemma digest_of_value: "digest_of hash x = hash x"
  by (simp add: digest_of_def rawSha256_def)

text \<open>A sample target for a binding whose digest is given.\<close>

lemma binding_of_digest:
  assumes "component n" "component r" "is_sha256_hex h"
  shows "\<exists>hash k t d e. (\<forall>x. is_sha256_hex (hash x)) \<and>
     contractResponsibilityBindingId hash n r k t d e = Inr (''responsibility-binding'' @ CHR '':'' # n @ CHR '':'' # r @ CHR '':'' # h)"
proof -
  have "component ''app''" "isCanonicalSemanticEntityIdentity ''app:a'' ''app''" by code_simp+
  then have "contractResponsibilityBindingId (\<lambda>_. h) n r ''app'' ''app:a'' [] [] =
      Inr (''responsibility-binding'' @ CHR '':'' # n @ CHR '':'' # r @ CHR '':'' # h)"
    using assms by (simp add: binding_Inr digest_of_value)
  moreover have "\<forall>x. is_sha256_hex ((\<lambda>_. h) x)" using assms(3) by simp
  ultimately show ?thesis by (intro exI conjI)
qed

lemma canonical_binding:
  "isCanonicalSemanticEntityIdentity i ''responsibility-binding'' \<longleftrightarrow>
     (\<exists>hash n r k t d e. (\<forall>x. is_sha256_hex (hash x)) \<and> contractResponsibilityBindingId hash n r k t d e = Inr i)"
  (is "_ \<longleftrightarrow> ?R")
proof
  assume "isCanonicalSemanticEntityIdentity i ''responsibility-binding''"
  then obtain n r h where "i = ''responsibility-binding'' @ CHR '':'' # n @ CHR '':'' # r @ CHR '':'' # h"
      "component n" "component r" "is_sha256_hex h"
    unfolding canonical_form [OF kinds_listed(17)] body_binding by blast
  then show ?R using binding_of_digest by blast
next
  assume ?R
  then show "isCanonicalSemanticEntityIdentity i ''responsibility-binding''"
    unfolding binding_Inr canonical_form [OF kinds_listed(17)] body_binding digest_of_value by blast
qed

text \<open>
  C36. The grammar of persisted identities is the range of the constructors: for every kind that has a
  constructor, the ids that \<open>isCanonicalSemanticEntityIdentity\<close> accepts are exactly the ids that the
  constructors of the kind return. The id of a responsibility binding ends in a digest, which the
  grammar can only check to be 64 lower-case hexadecimal digits: the accepted ids are exactly those
  returned with some digest function whose values have that form, and with any one such digest
  function every id that is returned is accepted.
\<close>

theorem canonical_ids_constructed:
  "(isCanonicalSemanticEntityIdentity i ''app'' \<longleftrightarrow> (\<exists>a. appEntityId a = Inr i)) \<and>
   (isCanonicalSemanticEntityIdentity i ''block'' \<longleftrightarrow> (\<exists>b. blockEntityId b = Inr i)) \<and>
   (isCanonicalSemanticEntityIdentity i ''capability'' \<longleftrightarrow> (\<exists>c. capabilityEntityId c = Inr i)) \<and>
   (isCanonicalSemanticEntityIdentity i ''acceptance'' \<longleftrightarrow> (\<exists>a. acceptanceEntityId a = Inr i)) \<and>
   (isCanonicalSemanticEntityIdentity i ''port'' \<longleftrightarrow> (\<exists>b d p. portEntityId b d p = Inr i)) \<and>
   (isCanonicalSemanticEntityIdentity i ''entity'' \<longleftrightarrow> (\<exists>n e. contractEntityId n e = Inr i)) \<and>
   (isCanonicalSemanticEntityIdentity i ''field'' \<longleftrightarrow> (\<exists>n e f. contractFieldId n e f = Inr i)) \<and>
   (isCanonicalSemanticEntityIdentity i ''responsibility'' \<longleftrightarrow> (\<exists>n r. contractResponsibilityId n r = Inr i)) \<and>
   (isCanonicalSemanticEntityIdentity i ''operation'' \<longleftrightarrow> (\<exists>n p. contractOperationId n p = Inr i)) \<and>
   (isCanonicalSemanticEntityIdentity i ''state'' \<longleftrightarrow> (\<exists>n s. contractStateId n s = Inr i)) \<and>
   (isCanonicalSemanticEntityIdentity i ''event'' \<longleftrightarrow> (\<exists>n e. contractEventId n e = Inr i)) \<and>
   (isCanonicalSemanticEntityIdentity i ''permission'' \<longleftrightarrow> (\<exists>n p. contractPermissionId n p = Inr i)) \<and>
   (isCanonicalSemanticEntityIdentity i ''effect'' \<longleftrightarrow> (\<exists>n e. contractEffectId n e = Inr i)) \<and>
   (isCanonicalSemanticEntityIdentity i ''scenario'' \<longleftrightarrow> (\<exists>n s. contractScenarioId n s = Inr i)) \<and>
   (isCanonicalSemanticEntityIdentity i ''scenario-step'' \<longleftrightarrow> (\<exists>s p. scenarioStepEntityId s p = Inr i)) \<and>
   (isCanonicalSemanticEntityIdentity i ''generator'' \<longleftrightarrow> (\<exists>b g. generatorEntityId b g = Inr i)) \<and>
   (isCanonicalSemanticEntityIdentity i ''policy'' \<longleftrightarrow> (\<exists>p. verificationPolicyEntityId p = Inr i) \<or> (\<exists>n p. contractPolicyId n p = Inr i)) \<and>
   (isCanonicalSemanticEntityIdentity i ''artifact'' \<longleftrightarrow> (\<exists>t. artifactEntityId t = Inr i)) \<and>
   (isCanonicalSemanticEntityIdentity i ''responsibility-binding'' \<longleftrightarrow>
      (\<exists>hash n r k t d e. (\<forall>x. is_sha256_hex (hash x)) \<and> contractResponsibilityBindingId hash n r k t d e = Inr i))"
proof (intro conjI)
  show "isCanonicalSemanticEntityIdentity i ''responsibility-binding'' \<longleftrightarrow>
      (\<exists>hash n r k t d e. (\<forall>x. is_sha256_hex (hash x)) \<and> contractResponsibilityBindingId hash n r k t d e = Inr i)"
    by (rule canonical_binding)
  show "isCanonicalSemanticEntityIdentity i ''app'' \<longleftrightarrow> (\<exists>a. appEntityId a = Inr i)"
    "isCanonicalSemanticEntityIdentity i ''block'' \<longleftrightarrow> (\<exists>b. blockEntityId b = Inr i)"
    "isCanonicalSemanticEntityIdentity i ''capability'' \<longleftrightarrow> (\<exists>c. capabilityEntityId c = Inr i)"
    "isCanonicalSemanticEntityIdentity i ''acceptance'' \<longleftrightarrow> (\<exists>a. acceptanceEntityId a = Inr i)"
    unfolding constructed by (subst canonical_simple; simp add: simple_kinds_def)+
  show "isCanonicalSemanticEntityIdentity i ''responsibility'' \<longleftrightarrow> (\<exists>n r. contractResponsibilityId n r = Inr i)"
    "isCanonicalSemanticEntityIdentity i ''operation'' \<longleftrightarrow> (\<exists>n p. contractOperationId n p = Inr i)"
    "isCanonicalSemanticEntityIdentity i ''state'' \<longleftrightarrow> (\<exists>n s. contractStateId n s = Inr i)"
    "isCanonicalSemanticEntityIdentity i ''event'' \<longleftrightarrow> (\<exists>n e. contractEventId n e = Inr i)"
    "isCanonicalSemanticEntityIdentity i ''permission'' \<longleftrightarrow> (\<exists>n p. contractPermissionId n p = Inr i)"
    "isCanonicalSemanticEntityIdentity i ''effect'' \<longleftrightarrow> (\<exists>n e. contractEffectId n e = Inr i)"
    "isCanonicalSemanticEntityIdentity i ''scenario'' \<longleftrightarrow> (\<exists>n s. contractScenarioId n s = Inr i)"
    "isCanonicalSemanticEntityIdentity i ''generator'' \<longleftrightarrow> (\<exists>b g. generatorEntityId b g = Inr i)"
    "isCanonicalSemanticEntityIdentity i ''entity'' \<longleftrightarrow> (\<exists>n e. contractEntityId n e = Inr i)"
    unfolding constructed by (subst canonical_scoped; simp add: scoped_kinds_def)+
  show "isCanonicalSemanticEntityIdentity i ''port'' \<longleftrightarrow> (\<exists>b d p. portEntityId b d p = Inr i)"
    unfolding constructed canonical_form [OF kinds_listed(8)] body_port by blast
  show "isCanonicalSemanticEntityIdentity i ''field'' \<longleftrightarrow> (\<exists>n e f. contractFieldId n e f = Inr i)"
    unfolding constructed canonical_form [OF kinds_listed(7)] body_field by blast
  show "isCanonicalSemanticEntityIdentity i ''policy'' \<longleftrightarrow>
      (\<exists>p. verificationPolicyEntityId p = Inr i) \<or> (\<exists>n p. contractPolicyId n p = Inr i)"
    unfolding constructed canonical_form [OF kinds_listed(5)] body_policy by blast
  show "isCanonicalSemanticEntityIdentity i ''scenario-step'' \<longleftrightarrow> (\<exists>s p. scenarioStepEntityId s p = Inr i)"
  proof -
    have "''scenario:'' @ n @ CHR '':'' # c @ ''#step:'' @ p = (''scenario'' @ CHR '':'' # n @ CHR '':'' # c) @ ''#step:'' @ p" for n c p
      by simp
    then show ?thesis unfolding constructed canonical_scenario canonical_step_form by metis
  qed
  show "isCanonicalSemanticEntityIdentity i ''artifact'' \<longleftrightarrow> (\<exists>t. artifactEntityId t = Inr i)"
    unfolding constructed using artifact_body by blast
qed

lemma canonical_split:
  assumes "isCanonicalSemanticEntityIdentity i kind"
  shows "(kind = ''scenario-step'' \<and> (\<exists>n c p. split_on (CHR '':'') i = [''scenario'', n, c, p])) \<or>
    (kind = ''scenario'' \<and> (\<exists>n c. split_on (CHR '':'') i = [''scenario'', n, c])) \<or>
    (kind \<noteq> ''scenario'' \<and> hd (split_on (CHR '':'') i) = kind)"
proof -
  have step: "\<exists>n c p. split_on (CHR '':'') i = [''scenario'', n, c, p]" if "kind = ''scenario-step''"
  proof -
    have "canonical_step i" using assms that by (simp add: isCanonicalSemanticEntityIdentity_def split: if_splits)
    then show ?thesis unfolding canonical_step_def case_lists by blast
  qed
  have scenario: "\<exists>n c. split_on (CHR '':'') i = [''scenario'', n, c]" if k: "kind = ''scenario''"
  proof -
    obtain n c where i: "i = ''scenario'' @ CHR '':'' # n @ CHR '':'' # c" "component n" "component c"
      using assms unfolding k canonical_scenario by blast
    then have "split_on (CHR '':'') i = [''scenario'', n, c]"
      unfolding i(1) split_colons using component_chars(1) [OF i(2)] component_chars(1) [OF i(3)] by simp
    then show ?thesis by blast
  qed
  have "hd (split_on (CHR '':'') i) = kind" if "kind \<noteq> ''scenario-step''"
    by (rule named_kind [OF assms that]) (simp add: split_on_append_sep)
  note named = this
  show ?thesis
  proof (cases "kind = ''scenario-step''")
    case True
    with step [OF True] show ?thesis by (intro disjI1 conjI)
  next
    case not_step: False
    show ?thesis
    proof (cases "kind = ''scenario''")
      case True
      with scenario [OF True] show ?thesis by (intro disjI2 disjI1 conjI)
    next
      case False
      with named [OF not_step] show ?thesis by (intro disjI2 conjI)
    qed
  qed
qed

text \<open>
  C37. An id has one kind: no string is a canonical id of two kinds, so entities of different kinds never share an id.
\<close>

theorem canonical_kind_unique:
  assumes "isCanonicalSemanticEntityIdentity i kind" "isCanonicalSemanticEntityIdentity i kind'"
  shows "kind = kind'"
  using canonical_split [OF assms(1)] canonical_split [OF assms(2)] by (elim disjE conjE exE) simp_all

theorem canonical_kind_unique_witness: "isCanonicalSemanticEntityIdentity ''policy:shop:p1'' ''policy''"
proof -
  have c: "isCanonicalSemanticEntityIdentity ''policy:shop:p1'' ''policy''" by code_simp
  then show ?thesis using canonical_kind_unique [OF c c] by simp
qed

lemma predicate_name_injective: "predicate_name p = predicate_name q \<Longrightarrow> p = q"
proof -
  have "distinct (map predicate_name SEMANTIC_PREDICATES)" by code_simp
  then show "predicate_name p = predicate_name q \<Longrightarrow> p = q"
    unfolding distinct_map inj_on_def using in_SEMANTIC_PREDICATES by blast
qed

lemma separator_unique: "c \<notin> set x \<Longrightarrow> c \<notin> set x' \<Longrightarrow> x @ c # y = x' @ c # y' \<longleftrightarrow> x = x' \<and> y = y'"
proof (induction x arbitrary: x')
  case Nil
  then show ?case by (cases x') auto
next
  case (Cons a x)
  then show ?case by (cases x') auto
qed

lemma scenario_no_hash_step:
  assumes "isCanonicalSemanticEntityIdentity s ''scenario''" "isCanonicalSemanticEntityIdentity s' ''scenario''"
    "component q" "component q'" "s @ ''#step:'' @ q = s' @ ''#step:'' @ q'"
  shows "s = s' \<and> q = q'"
proof -
  obtain n c where s: "s = ''scenario'' @ CHR '':'' # n @ CHR '':'' # c" "component n" "component c"
    using assms(1) [unfolded canonical_scenario] by blast
  obtain n' c' where s': "s' = ''scenario'' @ CHR '':'' # n' @ CHR '':'' # c'" "component n'" "component c'"
    using assms(2) [unfolded canonical_scenario] by blast
  have "n @ CHR '':'' # (c @ ''#step'') @ CHR '':'' # q = n' @ CHR '':'' # (c' @ ''#step'') @ CHR '':'' # q'"
    using assms(5) by (simp add: s(1) s'(1))
  then have n: "n = n'" and r: "(c @ ''#step'') @ CHR '':'' # q = (c' @ ''#step'') @ CHR '':'' # q'"
    unfolding separator_unique [OF component_chars(1) [OF s(2)] component_chars(1) [OF s'(2)]] by blast+
  have "CHR '':'' \<notin> set (c @ ''#step'')" "CHR '':'' \<notin> set (c' @ ''#step'')"
    using component_chars(1) [OF s(3)] component_chars(1) [OF s'(3)] by simp_all
  from separator_unique [OF this, THEN iffD1, OF r] have "c @ ''#step'' = c' @ ''#step'' \<and> q = q'" .
  then show ?thesis using n s(1) s'(1) by simp
qed

lemma factIdentity_unique:
  assumes "factIdentity x y z = Inr t" "factIdentity x' y' z' = Inr t"
  shows "x = x' \<and> y = y' \<and> objectKey z = objectKey z'"
proof -
  have e: "x @ CHR 0x00 # predicate_name y @ CHR 0x00 # objectKey z = x' @ CHR 0x00 # predicate_name y' @ CHR 0x00 # objectKey z'"
    and c: "CHR 0x00 \<notin> set x" "CHR 0x00 \<notin> set x'" "CHR 0x00 \<notin> set (predicate_name y)" "CHR 0x00 \<notin> set (predicate_name y')"
    using assms by (auto simp: factIdentity_def bind_r_Inr_iff)
  have "x = x'" "predicate_name y = predicate_name y'" "objectKey z = objectKey z'" using e by (simp_all add: separator_unique c)
  then show ?thesis using predicate_name_injective by blast
qed

text \<open>
  C38. Identities can be read back: an id determines the components it was built from, and the identity of a fact
  determines its subject, its predicate and the key of its object.
\<close>

theorem identities_read_back:
  "(portEntityId b d p = Inr i \<and> portEntityId b' d' p' = Inr i \<longrightarrow> b = b' \<and> d = d' \<and> p = p') \<and>
   (contractFieldId n e f = Inr j \<and> contractFieldId n' e' f' = Inr j \<longrightarrow> n = n' \<and> e = e' \<and> f = f') \<and>
   (scopedEntityId k n c = Inr l \<and> scopedEntityId k n' c' = Inr l \<longrightarrow> n = n' \<and> c = c') \<and>
   (scenarioStepEntityId s q = Inr m \<and> scenarioStepEntityId s' q' = Inr m \<longrightarrow> s = s' \<and> q = q') \<and>
   (factIdentity x y z = Inr t \<and> factIdentity x' y' z' = Inr t \<longrightarrow> x = x' \<and> y = y' \<and> objectKey z = objectKey z')"
proof (intro conjI impI; elim conjE)
  have dir: "d = ''input'' \<or> d = ''output'' \<Longrightarrow> CHR '':'' \<notin> set d" for d by auto
  show "b = b'" "d = d'" "p = p'" if "portEntityId b d p = Inr i" "portEntityId b' d' p' = Inr i"
  proof -
    have "b @ CHR '':'' # d @ CHR '':'' # p = b' @ CHR '':'' # d' @ CHR '':'' # p'" using that unfolding constructed by simp
    moreover have "CHR '':'' \<notin> set b" "CHR '':'' \<notin> set b'" "CHR '':'' \<notin> set d" "CHR '':'' \<notin> set d'"
      using that component_chars(1) dir unfolding constructed by blast+
    ultimately show "b = b'" "d = d'" "p = p'" by (simp_all add: separator_unique)
  qed
  show "n = n'" "e = e'" "f = f'" if "contractFieldId n e f = Inr j" "contractFieldId n' e' f' = Inr j"
  proof -
    have "n @ CHR '':'' # e @ CHR ''.'' # f = n' @ CHR '':'' # e' @ CHR ''.'' # f'" using that unfolding constructed by simp
    moreover have "CHR '':'' \<notin> set n" "CHR '':'' \<notin> set n'" "CHR ''.'' \<notin> set e" "CHR ''.'' \<notin> set e'"
      using that component_chars(1,3) unfolding constructed by blast+
    ultimately show "n = n'" "e = e'" "f = f'" by (simp_all add: separator_unique)
  qed
  show "n = n'" "c = c'" if "scopedEntityId k n c = Inr l" "scopedEntityId k n' c' = Inr l"
  proof -
    have "n @ CHR '':'' # c = n' @ CHR '':'' # c'" "CHR '':'' \<notin> set n" "CHR '':'' \<notin> set n'"
      using that component_chars(1) unfolding scopedEntityId_Inr by (blast | simp)+
    then show "n = n'" "c = c'" by (simp_all add: separator_unique)
  qed
  show "s = s'" "q = q'" if "scenarioStepEntityId s q = Inr m" "scenarioStepEntityId s' q' = Inr m"
    using that scenario_no_hash_step [of s s' q q'] unfolding constructed by blast+
  show "x = x'" "y = y'" "objectKey z = objectKey z'" if "factIdentity x y z = Inr t" "factIdentity x' y' z' = Inr t"
    using factIdentity_unique [OF that] by blast+
qed

theorem identities_read_back_witness:
  "portEntityId ''b'' ''input'' ''p'' = Inr ''port:b:input:p'' \<and> contractFieldId ''n'' ''e'' ''f'' = Inr ''field:n:e.f'' \<and>
   scenarioStepEntityId ''scenario:n:s'' ''q'' = Inr ''scenario:n:s#step:q''"
proof -
  have "portEntityId ''b'' ''input'' ''p'' = Inr ''port:b:input:p''" "contractFieldId ''n'' ''e'' ''f'' = Inr ''field:n:e.f''"
    "scenarioStepEntityId ''scenario:n:s'' ''q'' = Inr ''scenario:n:s#step:q''" by code_simp+
  then show ?thesis
    using identities_read_back [of "''b''" "''input''" "''p''" "''port:b:input:p''" "''b''" "''input''" "''p''"] by blast
qed

end
