(* ===== verification/IRFactStore.thy ===== *)
theory IRFactStore
  imports IRIdentity
begin

text \<open>
  The store of facts, \<^verbatim>\<open>src/src/compiler/ir/ir-fact-store.ts\<close>: a map from fact ids to facts, in insertion order. The id of a fact is
  a prefix of the digest of its identity and the id of an assertion a prefix of the digest of the fact id, the authority
  and the provenance; what is added twice is merged.
\<close>

section \<open>Operations\<close>

record fact_input =
  fi_subject :: string
  fi_predicate :: semantic_predicate
  fi_object :: semantic_fact_object
  fi_authority :: semantic_authority
  fi_provenance :: "fact_provenance list"
  fi_evidence :: "evidence_reference list option"
  fi_confidence :: "js_number option"

definition confidence_of :: "fact_input \<Rightarrow> js_number" where
  "confidence_of i = (case fi_confidence i of None \<Rightarrow> Decimal 1 0 | Some c \<Rightarrow> c)"

definition valid_confidence :: "js_number \<Rightarrow> bool" where
  "valid_confidence c \<longleftrightarrow> is_finite_number c \<and> \<not> number_less c (Decimal 0 0) \<and> \<not> number_less (Decimal 1 0) c"

definition assertFactInput :: "fact_input \<Rightarrow> unit result" where
  "assertFactInput i =
     bind_r (throw_if (\<not> valid_confidence (confidence_of i)) (CodedFailure ''IR-AUTHORITY-001'' [])) (\<lambda>_.
     throw_if (fi_provenance i = []) (CodedFailure ''IR-AUTHORITY-002'' []))"

definition factAssertionId :: "(string \<Rightarrow> string) \<Rightarrow> string \<Rightarrow> semantic_authority \<Rightarrow> fact_provenance list \<Rightarrow> string" where
  "factAssertionId hash factId authority provenance = ''assertion:'' @ take 24 (digest_of hash
     (join_with [CHR 0x00] [factId, authority_name authority, stringify (JArray (map provenance_json provenance))]))"

definition buildAssertion :: "(string \<Rightarrow> string) \<Rightarrow> string \<Rightarrow> fact_input \<Rightarrow> fact_assertion result" where
  "buildAssertion hash factId i =
     bind_r (normalizeProvenance (fi_provenance i)) (\<lambda>provenance.
     bind_r (normalizeEvidence (case fi_evidence i of None \<Rightarrow> [] | Some e \<Rightarrow> e)) (\<lambda>evidence.
     Inr \<lparr>as_id = factAssertionId hash factId (fi_authority i) provenance, as_authority = fi_authority i,
       as_confidence = confidence_of i, as_provenance = provenance, as_evidence = evidence,
       as_validFromRevision = ''build'', as_validToRevision = None\<rparr>))"

definition fact_id_of :: "(string \<Rightarrow> string) \<Rightarrow> string \<Rightarrow> string" where
  "fact_id_of hash identity = ''fact:'' @ take 24 (digest_of hash identity)"

definition buildFact :: "(string \<Rightarrow> string) \<Rightarrow> fact_input \<Rightarrow> semantic_fact result" where
  "buildFact hash i =
     bind_r (assertFactInput i) (\<lambda>_. let normalizedObject = normalizeFactObject (fi_object i) in
     bind_r (factIdentity (fi_subject i) (fi_predicate i) normalizedObject) (\<lambda>identity. let factId = fact_id_of hash identity in
     bind_r (buildAssertion hash factId i) (\<lambda>assertion.
     Inr \<lparr>fact_id = factId, fact_subject = fi_subject i, fact_predicate = fi_predicate i, fact_object = normalizedObject,
       fact_assertions = [assertion]\<rparr>)))"

definition mergeAssertion :: "fact_assertion \<Rightarrow> fact_assertion \<Rightarrow> fact_assertion result" where
  "mergeAssertion existing incoming =
     bind_r (throw_if (as_id existing \<noteq> as_id incoming \<or> as_authority existing \<noteq> as_authority incoming \<or>
         stringify (JArray (map provenance_json (as_provenance existing))) \<noteq>
         stringify (JArray (map provenance_json (as_provenance incoming)))) (CodedFailure ''IR-AUTHORITY-003'' [as_id existing])) (\<lambda>_.
     bind_r (throw_if (number_differs (as_confidence existing) (as_confidence incoming))
         (CodedFailure ''IR-AUTHORITY-003'' [as_id existing])) (\<lambda>_.
     bind_r (normalizeEvidence (as_evidence existing @ as_evidence incoming)) (\<lambda>evidence.
     Inr (existing\<lparr>as_evidence := evidence\<rparr>))))"

definition put_assertion :: "fact_assertion \<Rightarrow> (string, fact_assertion) jsmap \<Rightarrow> (string, fact_assertion) jsmap result" where
  "put_assertion a assertions = (case map_get assertions (as_id a) of
       None \<Rightarrow> Inr (map_set (as_id a) a assertions)
     | Some current \<Rightarrow> bind_r (mergeAssertion current a) (\<lambda>merged. Inr (map_set (as_id a) merged assertions)))"

definition appendFactAssertions :: "semantic_fact \<Rightarrow> semantic_fact \<Rightarrow> semantic_fact result" where
  "appendFactAssertions existing incoming =
     bind_r (factIdentity (fact_subject existing) (fact_predicate existing) (fact_object existing)) (\<lambda>a.
     bind_r (factIdentity (fact_subject incoming) (fact_predicate incoming) (fact_object incoming)) (\<lambda>b.
     bind_r (throw_if (a \<noteq> b) (CodedFailure ''IR-FACT-001'' [fact_id existing])) (\<lambda>_.
     bind_r (fold_r put_assertion (fact_assertions incoming) (map_from (map (\<lambda>a. (as_id a, a)) (fact_assertions existing)))) (\<lambda>assertions.
     Inr (existing\<lparr>fact_assertions := sort_key as_id (map snd assertions)\<rparr>)))))"

definition addFact :: "(string \<Rightarrow> string) \<Rightarrow> fact_input \<Rightarrow> (string, semantic_fact) jsmap \<Rightarrow>
    (string \<times> (string, semantic_fact) jsmap) result" where
  "addFact hash i store =
     bind_r (buildFact hash i) (\<lambda>fact.
     bind_r (case map_get store (fact_id fact) of None \<Rightarrow> Inr fact | Some existing \<Rightarrow> appendFactAssertions existing fact) (\<lambda>stored.
     Inr (fact_id fact, map_set (fact_id fact) stored store)))"

section \<open>The invariant of the store\<close>

text \<open>An assertion of a fact: its id is derived, its confidence valid, its provenance present, and both lists are normal.\<close>

definition assertion_ok :: "(string \<Rightarrow> string) \<Rightarrow> string \<Rightarrow> fact_assertion \<Rightarrow> bool" where
  "assertion_ok hash factId a \<longleftrightarrow> as_id a = factAssertionId hash factId (as_authority a) (as_provenance a) \<and>
     valid_confidence (as_confidence a) \<and> as_provenance a \<noteq> [] \<and>
     normalizeProvenance (as_provenance a) = Inr (as_provenance a) \<and> normalizeEvidence (as_evidence a) = Inr (as_evidence a) \<and>
     as_validFromRevision a = ''build'' \<and> as_validToRevision a = None"

definition stored_fact_ok :: "(string \<Rightarrow> string) \<Rightarrow> semantic_fact \<Rightarrow> bool" where
  "stored_fact_ok hash f \<longleftrightarrow>
     (\<exists>identity. factIdentity (fact_subject f) (fact_predicate f) (fact_object f) = Inr identity \<and> fact_id f = fact_id_of hash identity) \<and>
     normalizeFactObject (fact_object f) = fact_object f \<and> fact_assertions f \<noteq> [] \<and>
     sorted_wrt (<) (map as_id (fact_assertions f)) \<and> (\<forall>a \<in> set (fact_assertions f). assertion_ok hash (fact_id f) a)"

definition fact_store_ok :: "(string \<Rightarrow> string) \<Rightarrow> (string, semantic_fact) jsmap \<Rightarrow> bool" where
  "fact_store_ok hash store \<longleftrightarrow> distinct (map fst store) \<and> (\<forall>(k, f) \<in> set store. k = fact_id f \<and> stored_fact_ok hash f)"

lemma normalizeProvenance_idem: "normalizeProvenance ps = Inr qs \<Longrightarrow> normalizeProvenance qs = Inr qs"
  by (auto simp: normalizeProvenance_eq sort_key_id_if_sorted)

lemma normalizeEvidence_idem: "normalizeEvidence es = Inr fs \<Longrightarrow> normalizeEvidence fs = Inr fs"
  by (auto simp: normalizeEvidence_eq sort_key_id_if_sorted)

lemma normalizeProvenance_set: "normalizeProvenance ps = Inr qs \<Longrightarrow> set qs = set ps"
  by (auto simp: normalizeProvenance_eq)

lemma normalizeEvidence_set: "normalizeEvidence es = Inr fs \<Longrightarrow> set fs = set es"
  by (auto simp: normalizeEvidence_eq)

text \<open>The printed provenance that assertions are compared by determines the provenance.\<close>

definition provenance_fields :: "fact_provenance \<Rightarrow> (string \<times> string) list" where
  "provenance_fields p = [(''kind'', provenance_kind_name (prov_kind p)), (''sourceId'', prov_sourceId p)] @
     (case prov_sourcePath p of None \<Rightarrow> [] | Some v \<Rightarrow> [(''sourcePath'', v)]) @
     (case prov_revision p of None \<Rightarrow> [] | Some v \<Rightarrow> [(''revision'', v)])"

lemma provenance_json_fields: "provenance_json p = strings_object (provenance_fields p)"
  by (simp add: provenance_json_def provenance_fields_def strings_object_def optional_string_def split: option.split)

lemma provenance_fields_inj: "inj provenance_fields"
proof (rule injI)
  have kind: "provenance_kind_name a = provenance_kind_name b \<Longrightarrow> a = b" for a b by (cases a; cases b) simp_all
  fix p q assume "provenance_fields p = provenance_fields q"
  then show "p = q"
    using kind [of "prov_kind p" "prov_kind q"]
    by (cases p; cases q) (auto simp: provenance_fields_def split: option.splits)
qed

lemma provenance_text_inj:
  "stringify (JArray (map provenance_json ps)) = stringify (JArray (map provenance_json qs)) \<longleftrightarrow> ps = qs"
proof -
  have fields: "map provenance_json xs = map strings_object (map provenance_fields xs)" for xs
    by (simp add: provenance_json_fields)
  show ?thesis unfolding fields strings_objects_inj by (rule inj_map_eq_map [OF provenance_fields_inj])
qed

lemma buildAssertion_ok:
  assumes "buildAssertion hash factId i = Inr a" "assertFactInput i = Inr ()"
  shows "assertion_ok hash factId a" "as_authority a = fi_authority i" "set (as_provenance a) = set (fi_provenance i)"
    "as_confidence a = confidence_of i" "set (as_evidence a) = set (case fi_evidence i of None \<Rightarrow> [] | Some e \<Rightarrow> e)"
proof -
  obtain p e where p: "normalizeProvenance (fi_provenance i) = Inr p"
    and e: "normalizeEvidence (case fi_evidence i of None \<Rightarrow> [] | Some e \<Rightarrow> e) = Inr e"
    and a: "a = \<lparr>as_id = factAssertionId hash factId (fi_authority i) p, as_authority = fi_authority i, as_confidence = confidence_of i,
      as_provenance = p, as_evidence = e, as_validFromRevision = ''build'', as_validToRevision = None\<rparr>"
    using assms(1) by (auto simp: buildAssertion_def)
  have i: "valid_confidence (confidence_of i)" "fi_provenance i \<noteq> []" using assms(2) by (auto simp: assertFactInput_def)
  show "as_authority a = fi_authority i" "set (as_provenance a) = set (fi_provenance i)"
    "as_confidence a = confidence_of i" "set (as_evidence a) = set (case fi_evidence i of None \<Rightarrow> [] | Some e \<Rightarrow> e)"
    using a normalizeProvenance_set [OF p] normalizeEvidence_set [OF e] by simp_all
  have "p \<noteq> []" using i(2) normalizeProvenance_set [OF p] by auto
  then show "assertion_ok hash factId a"
    using a i(1) normalizeProvenance_idem [OF p] normalizeEvidence_idem [OF e] by (simp add: assertion_ok_def)
qed

lemma buildFact_ok:
  assumes "buildFact hash i = Inr f"
  shows "stored_fact_ok hash f" "fact_subject f = fi_subject i" "fact_predicate f = fi_predicate i"
    "fact_object f = normalizeFactObject (fi_object i)" "assertFactInput i = Inr ()"
    "\<exists>a. fact_assertions f = [a] \<and> buildAssertion hash (fact_id f) i = Inr a"
proof -
  obtain identity a where f: "assertFactInput i = Inr ()"
    "factIdentity (fi_subject i) (fi_predicate i) (normalizeFactObject (fi_object i)) = Inr identity"
    "buildAssertion hash (fact_id_of hash identity) i = Inr a"
    "f = \<lparr>fact_id = fact_id_of hash identity, fact_subject = fi_subject i, fact_predicate = fi_predicate i,
      fact_object = normalizeFactObject (fi_object i), fact_assertions = [a]\<rparr>"
    using assms by (auto simp: buildFact_def Let_def)
  then show "fact_subject f = fi_subject i" "fact_predicate f = fi_predicate i" "assertFactInput i = Inr ()"
    "fact_object f = normalizeFactObject (fi_object i)" "\<exists>a. fact_assertions f = [a] \<and> buildAssertion hash (fact_id f) i = Inr a"
    by simp_all
  show "stored_fact_ok hash f" using f buildAssertion_ok(1) [OF f(3,1)] by (simp add: stored_fact_ok_def)
qed

lemma mergeAssertion_ok:
  assumes "mergeAssertion a b = Inr c" "assertion_ok hash factId a"
  shows "assertion_ok hash factId c" "as_id c = as_id a" "as_authority c = as_authority a" "as_provenance c = as_provenance a"
    "as_confidence c = as_confidence a" "set (as_evidence c) = set (as_evidence a) \<union> set (as_evidence b)"
proof -
  obtain e where e: "normalizeEvidence (as_evidence a @ as_evidence b) = Inr e" "c = a\<lparr>as_evidence := e\<rparr>"
    using assms(1) by (auto simp: mergeAssertion_def)
  then show "assertion_ok hash factId c" "as_id c = as_id a" "as_authority c = as_authority a" "as_provenance c = as_provenance a"
    "as_confidence c = as_confidence a" "set (as_evidence c) = set (as_evidence a) \<union> set (as_evidence b)"
    using assms(2) normalizeEvidence_idem [OF e(1)] normalizeEvidence_set [OF e(1)] by (simp_all add: assertion_ok_def)
qed

text \<open>What a fact keeps of an assertion: the same identity, provenance and confidence, and all the evidence.\<close>

definition keeps_assertion :: "fact_assertion list \<Rightarrow> fact_assertion \<Rightarrow> bool" where
  "keeps_assertion as a \<longleftrightarrow> (\<exists>b \<in> set as. as_id b = as_id a \<and> as_authority b = as_authority a \<and>
     as_provenance b = as_provenance a \<and> \<not> number_differs (as_confidence b) (as_confidence a) \<and> set (as_evidence a) \<subseteq> set (as_evidence b))"

lemma number_same [simp]: "is_finite_number c \<Longrightarrow> \<not> number_differs c c"
  by (cases c) (auto simp: number_differs_def is_finite_number_def)

lemma keeps_self: "valid_confidence (as_confidence a) \<Longrightarrow> keeps_assertion [a] a"
  by (simp add: keeps_assertion_def valid_confidence_def)

lemma mergeAssertion_keeps:
  assumes "mergeAssertion a b = Inr c" "valid_confidence (as_confidence a)"
  shows "keeps_assertion [c] a \<and> keeps_assertion [c] b"
proof -
  have "as_id a = as_id b" "as_authority a = as_authority b" "as_provenance a = as_provenance b"
      "\<not> number_differs (as_confidence a) (as_confidence b)"
    using assms(1) unfolding mergeAssertion_def provenance_text_inj by (auto simp: bind_r_Inr_iff)
  moreover obtain e where "normalizeEvidence (as_evidence a @ as_evidence b) = Inr e" "c = a\<lparr>as_evidence := e\<rparr>"
    using assms(1) by (auto simp: mergeAssertion_def)
  note abc = calculation this
  have "set e = set (as_evidence a) \<union> set (as_evidence b)" using normalizeEvidence_set [OF abc(5)] by simp
  then show ?thesis using abc(1-4,6) assms(2) by (simp add: keeps_assertion_def valid_confidence_def)
qed

lemma number_same_trans:
  assumes "\<not> number_differs x y" "\<not> number_differs y z"
  shows "\<not> number_differs x z"
  using assms by (cases "number_value x"; cases "number_value y"; cases "number_value z") (simp_all add: number_differs_def)

lemma keeps_trans: "keeps_assertion [c] e \<Longrightarrow> keeps_assertion [e] b \<Longrightarrow> keeps_assertion [c] b"
  using number_same_trans [of "as_confidence c" "as_confidence e" "as_confidence b"] by (auto simp: keeps_assertion_def)

lemma keeps_member: "e \<in> set as \<Longrightarrow> keeps_assertion [e] b \<Longrightarrow> keeps_assertion as b"
  by (auto simp: keeps_assertion_def)

definition assertion_map_ok :: "(string \<Rightarrow> string) \<Rightarrow> string \<Rightarrow> (string, fact_assertion) jsmap \<Rightarrow> bool" where
  "assertion_map_ok hash factId m \<longleftrightarrow> distinct (map fst m) \<and> (\<forall>(k, a) \<in> set m. k = as_id a \<and> assertion_ok hash factId a)"

lemma set_map_set: "set (map_set k v m) \<subseteq> insert (k, v) (set m)"
  unfolding map_set_def by (induction m) auto

lemma map_set_entry: "distinct (map fst m) \<Longrightarrow> (k', v') \<in> set (map_set k v m) \<longleftrightarrow> (if k' = k then v' = v else (k', v') \<in> set m)"
proof -
  assume d: "distinct (map fst m)"
  have "(k', v') \<in> set xs \<longleftrightarrow> map_get xs k' = Some v'" if "distinct (map fst xs)" for xs
    using that by (simp add: map_get_def)
  then show ?thesis using d distinct_map_set [OF d, of k v] by auto
qed

lemma put_assertion_ok:
  assumes "put_assertion a m = Inr m'" "assertion_map_ok hash factId m" "assertion_ok hash factId a"
  shows "assertion_map_ok hash factId m'" "m' \<noteq> []" "keeps_assertion (map snd m') a"
    "\<And>b. keeps_assertion (map snd m) b \<Longrightarrow> keeps_assertion (map snd m') b"
proof -
  have d: "distinct (map fst m)" and ok: "\<And>k b. (k, b) \<in> set m \<Longrightarrow> k = as_id b \<and> assertion_ok hash factId b"
    using assms(2) by (auto simp: assertion_map_ok_def)
  obtain c where c: "m' = map_set (as_id a) c m" "as_id c = as_id a" "assertion_ok hash factId c" "keeps_assertion [c] a"
    "\<forall>b. (as_id a, b) \<in> set m \<longrightarrow> keeps_assertion [c] b"
  proof (cases "map_get m (as_id a)")
    case None
    then have "as_id a \<notin> fst ` set m" using map_get_None_iff by metis
    then have "\<forall>b. (as_id a, b) \<in> set m \<longrightarrow> keeps_assertion [a] b" by force
    moreover have "valid_confidence (as_confidence a)" using assms(3) unfolding assertion_ok_def by blast
    moreover have "m' = map_set (as_id a) a m" using None assms(1) by (simp add: put_assertion_def)
    ultimately show ?thesis using that [of a] assms(3) keeps_self by blast
  next
    case (Some b)
    then obtain c where m: "mergeAssertion b a = Inr c" "m' = map_set (as_id a) c m" using assms(1) by (auto simp: put_assertion_def)
    note b = map_get_Some_in [OF Some]
    then have okb: "assertion_ok hash factId b" "as_id b = as_id a" using ok by auto
    have uniq: "b' = b" if "(as_id a, b') \<in> set m" for b' using that b d by (metis eq_key_imp_eq_value)
    have "valid_confidence (as_confidence b)" using okb(1) unfolding assertion_ok_def by blast
    note k = mergeAssertion_keeps [OF m(1) this]
    show ?thesis
    proof (rule that [OF m(2)])
      show "as_id c = as_id a" using mergeAssertion_ok(2) [OF m(1) okb(1)] okb(2) by simp
      show "assertion_ok hash factId c" using mergeAssertion_ok(1) [OF m(1) okb(1)] .
      show "keeps_assertion [c] a" "\<forall>b. (as_id a, b) \<in> set m \<longrightarrow> keeps_assertion [c] b" using k uniq by blast+
    qed
  qed
  have in_m': "(k, b) \<in> set m' \<longleftrightarrow> (if k = as_id a then b = c else (k, b) \<in> set m)" for k b
    unfolding c(1) by (rule map_set_entry [OF d])
  show "assertion_map_ok hash factId m'"
    using distinct_map_set [OF d] in_m' ok c by (auto simp: assertion_map_ok_def split: if_splits)
  have mem: "(as_id a, c) \<in> set m'" using in_m' by simp
  then show "m' \<noteq> []" by auto
  show "keeps_assertion (map snd m') a" using keeps_member [OF _ c(4), of "map snd m'"] mem by force
  show "keeps_assertion (map snd m') b" if kb: "keeps_assertion (map snd m) b" for b
  proof -
    obtain k e where e: "(k, e) \<in> set m" "keeps_assertion [e] b" using kb by (force simp: keeps_assertion_def)
    show ?thesis
    proof (cases "k = as_id a")
      case False
      then have "(k, e) \<in> set m'" using e(1) in_m' by simp
      then have "e \<in> set (map snd m')" by force
      then show ?thesis using keeps_member e(2) by blast
    next
      case True
      then have "keeps_assertion [c] e" using c(5) e(1) by blast
      then have "keeps_assertion [c] b" using keeps_trans e(2) by blast
      then show ?thesis using keeps_member [of c "map snd m'"] mem by force
    qed
  qed
qed

lemma put_assertions_ok:
  assumes "fold_r put_assertion as m = Inr m'" "assertion_map_ok hash factId m" "\<forall>a \<in> set as. assertion_ok hash factId a" "m \<noteq> [] \<or> as \<noteq> []"
  shows "assertion_map_ok hash factId m' \<and> m' \<noteq> [] \<and> (\<forall>b. b \<in> set as \<or> keeps_assertion (map snd m) b \<longrightarrow> keeps_assertion (map snd m') b)"
  using assms
proof (induction as arbitrary: m)
  case (Cons a as)
  then obtain n where n: "put_assertion a m = Inr n" "fold_r put_assertion as n = Inr m'" by auto
  have oka: "assertion_ok hash factId a" using Cons.prems(3) by simp
  note s = put_assertion_ok [OF n(1) Cons.prems(2) oka]
  show ?case using Cons.IH [OF n(2) s(1)] Cons.prems(3) s(2,3,4) by auto
qed simp

lemma appendFactAssertions_ok:
  assumes "appendFactAssertions f g = Inr h" "stored_fact_ok hash f" "stored_fact_ok hash g" "fact_id g = fact_id f"
  shows "stored_fact_ok hash h" "fact_id h = fact_id f" "fact_subject h = fact_subject f" "fact_predicate h = fact_predicate f"
    "fact_object h = fact_object f" "\<forall>a. a \<in> set (fact_assertions f) \<union> set (fact_assertions g) \<longrightarrow> keeps_assertion (fact_assertions h) a"
    "factIdentity (fact_subject f) (fact_predicate f) (fact_object f) = factIdentity (fact_subject g) (fact_predicate g) (fact_object g)"
proof -
  let ?pairs = "map (\<lambda>a. (as_id a, a)) (fact_assertions f)"
  have sorted: "sorted_wrt (<) (map as_id (fact_assertions f))" using assms(2) by (simp add: stored_fact_ok_def)
  then have d: "distinct (map fst ?pairs)" by (simp add: comp_def strict_sorted_iff)
  obtain m where m: "fold_r put_assertion (fact_assertions g) ?pairs = Inr m" "h = f\<lparr>fact_assertions := sort_key as_id (map snd m)\<rparr>"
    "factIdentity (fact_subject f) (fact_predicate f) (fact_object f) = factIdentity (fact_subject g) (fact_predicate g) (fact_object g)"
    using assms(1) map_from_distinct [OF d] by (auto simp: appendFactAssertions_def)
  have ok: "assertion_map_ok hash (fact_id f) ?pairs" "\<forall>a \<in> set (fact_assertions g). assertion_ok hash (fact_id f) a" "fact_assertions g \<noteq> []"
    using assms(2,3,4) d by (auto simp: assertion_map_ok_def stored_fact_ok_def)
  have r: "assertion_map_ok hash (fact_id f) m" "m \<noteq> []"
    "\<forall>b. b \<in> set (fact_assertions g) \<or> keeps_assertion (map snd ?pairs) b \<longrightarrow> keeps_assertion (map snd m) b"
    using put_assertions_ok [OF m(1) ok(1,2)] ok(3) by blast+
  show "fact_id h = fact_id f" "fact_subject h = fact_subject f" "fact_predicate h = fact_predicate f" "fact_object h = fact_object f"
    using m(2) by simp_all
  show "factIdentity (fact_subject f) (fact_predicate f) (fact_object f) = factIdentity (fact_subject g) (fact_predicate g) (fact_object g)"
    by (rule m(3))
  have "map as_id (map snd m) = map fst m" using r(1) by (auto simp: assertion_map_ok_def)
  then have "distinct (map as_id (map snd m))" using r(1) by (simp only: assertion_map_ok_def)
  then have "distinct (map as_id (sort_key as_id (map snd m)))" by (metis mset_eq_imp_distinct_iff mset_map mset_sort)
  then have s: "sorted_wrt (<) (map as_id (sort_key as_id (map snd m)))" unfolding strict_sorted_iff by simp
  have "\<forall>a \<in> set (map snd m). assertion_ok hash (fact_id f) a" using r(1) by (auto simp: assertion_map_ok_def)
  moreover have "sort_key as_id (map snd m) \<noteq> []" using r(2) by (metis length_0_conv length_map length_sort)
  ultimately show "stored_fact_ok hash h" using assms(2) s m(2) by (simp add: stored_fact_ok_def)
  have self: "keeps_assertion (map snd ?pairs) a" if "a \<in> set (fact_assertions f)" for a
    using that assms(2) by (force simp: keeps_assertion_def stored_fact_ok_def assertion_ok_def valid_confidence_def)
  have "keeps_assertion (fact_assertions h) a = keeps_assertion (map snd m) a" for a using m(2) by (simp add: keeps_assertion_def)
  then show "\<forall>a. a \<in> set (fact_assertions f) \<union> set (fact_assertions g) \<longrightarrow> keeps_assertion (fact_assertions h) a"
    using r(3) self by blast
qed

section \<open>Adding a fact\<close>

text \<open>The stored fact records the input, and what the store held before.\<close>

definition records_input :: "fact_input \<Rightarrow> semantic_fact \<Rightarrow> bool" where
  "records_input i f \<longleftrightarrow> fact_subject f = fi_subject i \<and> fact_predicate f = fi_predicate i \<and> objectKey (fact_object f) = objectKey (fi_object i) \<and>
     (\<exists>a \<in> set (fact_assertions f). as_authority a = fi_authority i \<and> set (as_provenance a) = set (fi_provenance i) \<and>
        \<not> number_differs (as_confidence a) (confidence_of i) \<and>
        set (case fi_evidence i of None \<Rightarrow> [] | Some e \<Rightarrow> e) \<subseteq> set (as_evidence a))"

lemma objectKey_normal: "objectKey (normalizeFactObject x) = objectKey x"
  by (simp add: objectKey_def)

lemma addFact_step:
  assumes "addFact hash i store = Inr (k, store')" "fact_store_ok hash store"
  obtains f where "store' = map_set k f store" "fact_id f = k" "stored_fact_ok hash f" "records_input i f"
    "\<forall>g. map_get store k = Some g \<longrightarrow> fact_subject f = fact_subject g \<and> fact_predicate f = fact_predicate g \<and> fact_object f = fact_object g \<and>
       (\<forall>a \<in> set (fact_assertions g). keeps_assertion (fact_assertions f) a)"
proof -
  obtain b f where b: "buildFact hash i = Inr b" "k = fact_id b" "store' = map_set k f store"
    and f: "(case map_get store k of None \<Rightarrow> Inr b | Some g \<Rightarrow> appendFactAssertions g b) = Inr f"
    using assms(1) by (auto simp: addFact_def)
  note bo = buildFact_ok [OF b(1)]
  obtain a where a: "fact_assertions b = [a]" "buildAssertion hash (fact_id b) i = Inr a" using bo(6) by blast
  note ao = buildAssertion_ok [OF a(2) bo(5)]
  have fin: "is_finite_number (confidence_of i)" using bo(5) by (auto simp: assertFactInput_def valid_confidence_def)
  show ?thesis
  proof (cases "map_get store k")
    case None
    then have "f = b" using f by simp
    moreover have "records_input i b" using bo a(1) ao fin by (simp add: records_input_def objectKey_normal)
    ultimately show ?thesis using that [OF b(3)] b(2) bo(1) None by simp
  next
    case (Some g)
    then have ap: "appendFactAssertions g b = Inr f" using f by simp
    have g: "fact_id g = k" "stored_fact_ok hash g"
      using map_get_Some_in [OF Some] assms(2) by (auto simp: fact_store_ok_def)
    have "fact_id b = fact_id g" using g(1) b(2) by simp
    note p = appendFactAssertions_ok [OF ap g(2) bo(1) this]
    obtain t where "factIdentity (fact_subject g) (fact_predicate g) (fact_object g) = Inr t" using g(2) by (auto simp: stored_fact_ok_def)
    then have same: "fact_subject g = fact_subject b \<and> fact_predicate g = fact_predicate b \<and> objectKey (fact_object g) = objectKey (fact_object b)"
      using p(7) factIdentity_unique by metis
    have "keeps_assertion (fact_assertions f) a" using p(6) a(1) by simp
    then have "records_input i f" using same bo ao p(3,4,5)
      by (auto simp: records_input_def objectKey_normal keeps_assertion_def)
    then show ?thesis using that [OF b(3)] p g(1) Some by simp
  qed
qed

lemma addFact_store_ok:
  assumes "addFact hash i store = Inr (k, store')" "fact_store_ok hash store"
  shows "fact_store_ok hash store'"
proof -
  obtain f where f: "store' = map_set k f store" "fact_id f = k" "stored_fact_ok hash f"
    by (rule addFact_step [OF assms])
  have d: "distinct (map fst store)" using assms(2) by (simp add: fact_store_ok_def)
  have "\<forall>(k', g) \<in> set store'. k' = fact_id g \<and> stored_fact_ok hash g"
    using assms(2) f map_set_entry [OF d, of _ _ k f] by (auto simp: fact_store_ok_def split: if_splits)
  then show ?thesis using distinct_map_set [OF d, of k f] f(1) by (simp add: fact_store_ok_def)
qed

text \<open>
  C39. Adding a fact to the store: when \<open>addFact\<close> returns on a consistent store, the new store is consistent (every fact
  sits under the id derived from its triple, its assertions are strictly ordered by ids derived from their authority and
  provenance, and are normal), the returned id holds a fact that records the input: its triple, and an assertion with its
  authority, exactly its provenance entries, its confidence and all its evidence. Other ids are unchanged, and every
  assertion stored before is still there with its id, authority, provenance and confidence and all its evidence.
\<close>

theorem addFact_store:
  assumes "fact_store_ok hash store" "addFact hash i store = Inr (k, store')"
  shows "fact_store_ok hash store' \<and> (\<exists>f. map_get store' k = Some f \<and> records_input i f) \<and>
    (\<forall>k'. k' \<noteq> k \<longrightarrow> map_get store' k' = map_get store k') \<and>
    (\<forall>g f. map_get store k = Some g \<and> map_get store' k = Some f \<longrightarrow>
       (\<forall>a \<in> set (fact_assertions g). keeps_assertion (fact_assertions f) a))"
proof -
  obtain f where f: "store' = map_set k f store" "records_input i f"
    "\<forall>g. map_get store k = Some g \<longrightarrow> fact_subject f = fact_subject g \<and> fact_predicate f = fact_predicate g \<and> fact_object f = fact_object g \<and>
       (\<forall>a \<in> set (fact_assertions g). keeps_assertion (fact_assertions f) a)"
    by (rule addFact_step [OF assms(2,1)])
  then show ?thesis using addFact_store_ok [OF assms(2,1)] by simp
qed

definition sample_input :: "evidence_reference list option \<Rightarrow> fact_input" where
  "sample_input e = \<lparr>fi_subject = ''app:shop'', fi_predicate = CONTAINS, fi_object = EntityRef ''block:auth'', fi_authority = Derived,
     fi_provenance = compilerProvenance ''resolve'', fi_evidence = e, fi_confidence = None\<rparr>"

theorem addFact_store_witness:
  "\<exists>k store. addFact (\<lambda>s. s) (sample_input None) [] = Inr (k, store) \<and> fact_store_ok (\<lambda>s. s) store"
proof -
  have "is_ok (addFact (\<lambda>s. s) (sample_input None) [])" by code_simp
  then obtain k store where r: "addFact (\<lambda>s. s) (sample_input None) [] = Inr (k, store)" by (auto simp: is_ok_iff)
  have "fact_store_ok (\<lambda>s. s) []" by (simp add: fact_store_ok_def)
  from addFact_store [OF this r] show ?thesis using r by blast
qed

end
