(* ===== verification/SemanticContract.thy ===== *)
theory SemanticContract
  imports IRFactStore
begin

text \<open>
  Semantic contracts, \<^verbatim>\<open>src/src/semantics/definitions/types.ts\<close>, the check of their identity components
  (\<open>assertSemanticContractIdentityComponents\<close> of \<^verbatim>\<open>identity-components.ts\<close>), and the claim of a namespace by a contract
  (\<open>claimSemanticNamespace\<close> of \<^verbatim>\<open>src/src/compiler/ir/ir-identity.ts\<close>). \<open>formatVersion\<close> has a single value. The JSON of a contract
  lists the properties in the order of their declaration, optional ones where they are present.
\<close>

section \<open>Contracts\<close>

datatype semantic_effect_kind =
    DatabaseRead | DatabaseWrite | FilesystemRead | FilesystemWrite | NetworkConnect | NetworkSend | ProcessSpawn
  | EnvironmentRead | SecretRead | ClockRead | RandomRead | EventEmit | ExternalServiceCall

fun effect_kind_name :: "semantic_effect_kind \<Rightarrow> string" where
  "effect_kind_name DatabaseRead = ''database-read''"
| "effect_kind_name DatabaseWrite = ''database-write''"
| "effect_kind_name FilesystemRead = ''filesystem-read''"
| "effect_kind_name FilesystemWrite = ''filesystem-write''"
| "effect_kind_name NetworkConnect = ''network-connect''"
| "effect_kind_name NetworkSend = ''network-send''"
| "effect_kind_name ProcessSpawn = ''process-spawn''"
| "effect_kind_name EnvironmentRead = ''environment-read''"
| "effect_kind_name SecretRead = ''secret-read''"
| "effect_kind_name ClockRead = ''clock-read''"
| "effect_kind_name RandomRead = ''random-read''"
| "effect_kind_name EventEmit = ''event-emit''"
| "effect_kind_name ExternalServiceCall = ''external-service-call''"

datatype responsibility_target_kind = TargetEntity | TargetEffect | TargetOperation | TargetScenario

fun target_kind_name :: "responsibility_target_kind \<Rightarrow> string" where
  "target_kind_name TargetEntity = ''entity''"
| "target_kind_name TargetEffect = ''effect''"
| "target_kind_name TargetOperation = ''operation''"
| "target_kind_name TargetScenario = ''scenario''"

record contract_import =
  imp_alias :: string
  imp_namespace :: string
  imp_contractId :: string

record contract_field =
  fld_id :: string
  fld_type :: string
  fld_required :: "bool option"
  fld_mutable :: "bool option"

record contract_entity =
  cent_id :: string
  cent_label :: "string option"
  cent_fields :: "contract_field list"

record contract_transition =
  tr_from :: string
  tr_to :: string
  tr_by :: string

record contract_state =
  cst_id :: string
  cst_label :: "string option"
  cst_entity :: string
  cst_field :: string
  cst_owner :: string
  cst_values :: "string list"
  cst_transitions :: "contract_transition list"

record responsibility_binding =
  bnd_kind :: responsibility_target_kind
  bnd_target :: string
  bnd_path :: string
  bnd_exportName :: string

record contract_responsibility =
  rsp_id :: string
  rsp_label :: "string option"
  rsp_role :: "string option"
  rsp_bindings :: "responsibility_binding list option"
  rsp_owns :: "string list"
  rsp_implements :: "string list"
  rsp_dependsOn :: "string list"

record contract_operation =
  opn_id :: string
  opn_label :: "string option"
  opn_responsibility :: string
  opn_inputs :: "string list"
  opn_output :: "string option"
  opn_reads :: "string list"
  opn_writes :: "string list"
  opn_mutates :: "string list"
  opn_requiresPolicies :: "string list"
  opn_requiresPermissions :: "string list"
  opn_performsEffects :: "string list"
  opn_emits :: "string list"
  opn_invokes :: "string list"
  opn_awaits :: "string list"

record contract_event =
  evt_id :: string
  evt_label :: "string option"
  evt_payloadType :: "string option"

record contract_policy =
  pol_id :: string
  pol_label :: "string option"
  pol_rule :: "string option"
  pol_verifiedBy :: "string list option"

record contract_permission =
  prm_id :: string
  prm_label :: "string option"
  prm_scope :: "string option"

record contract_effect =
  eff_id :: string
  eff_label :: "string option"
  eff_kind :: semantic_effect_kind
  eff_target :: "string option"

record contract_step =
  stp_id :: string
  stp_operation :: string
  stp_after :: "string list"
  stp_awaits :: "bool option"
  stp_retryMaxAttempts :: "js_number option"
  stp_onError :: "string option"

record contract_scenario =
  scn_id :: string
  scn_label :: "string option"
  scn_entry :: string
  scn_steps :: "contract_step list"
  scn_acceptance :: "string list"

record semantic_contract =
  con_id :: string
  con_namespace :: string
  con_imports :: "contract_import list option"
  con_entities :: "contract_entity list"
  con_states :: "contract_state list"
  con_responsibilities :: "contract_responsibility list"
  con_operations :: "contract_operation list"
  con_events :: "contract_event list"
  con_policies :: "contract_policy list"
  con_permissions :: "contract_permission list"
  con_effects :: "contract_effect list"
  con_scenarios :: "contract_scenario list"

record loaded_contract =
  lc_blockId :: string
  lc_contractPath :: string
  lc_contract :: semantic_contract

section \<open>JSON of contracts\<close>

definition strings_json :: "string list \<Rightarrow> json" where
  "strings_json ss = JArray (map JString ss)"

definition present :: "string \<Rightarrow> ('a \<Rightarrow> json) \<Rightarrow> 'a option \<Rightarrow> (string \<times> json) list" where
  "present key enc v = (case v of None \<Rightarrow> [] | Some x \<Rightarrow> [(key, enc x)])"

definition contract_import_json :: "contract_import \<Rightarrow> json" where
  "contract_import_json x =
     JObject ([(''alias'', JString (imp_alias x)), (''namespace'', JString (imp_namespace x)),
         (''contractId'', JString (imp_contractId x))])"

definition contract_field_json :: "contract_field \<Rightarrow> json" where
  "contract_field_json x =
     JObject ([(''id'', JString (fld_id x)), (''type'', JString (fld_type x))] @
       present ''required'' JBoolean (fld_required x) @
       present ''mutable'' JBoolean (fld_mutable x))"

definition contract_entity_json :: "contract_entity \<Rightarrow> json" where
  "contract_entity_json x =
     JObject ([(''id'', JString (cent_id x))] @
       present ''label'' JString (cent_label x) @
       [(''fields'', JArray (map contract_field_json (cent_fields x)))])"

definition contract_transition_json :: "contract_transition \<Rightarrow> json" where
  "contract_transition_json x =
     JObject ([(''from'', JString (tr_from x)), (''to'', JString (tr_to x)), (''by'', JString (tr_by x))])"

definition contract_state_json :: "contract_state \<Rightarrow> json" where
  "contract_state_json x =
     JObject ([(''id'', JString (cst_id x))] @
       present ''label'' JString (cst_label x) @
       [(''entity'', JString (cst_entity x)), (''field'', JString (cst_field x)),
         (''owner'', JString (cst_owner x)), (''values'', strings_json (cst_values x)),
         (''transitions'', JArray (map contract_transition_json (cst_transitions x)))])"

definition responsibility_binding_json :: "responsibility_binding \<Rightarrow> json" where
  "responsibility_binding_json b =
     JObject [(''target'', JObject [(''kind'', JString (target_kind_name (bnd_kind b))), (''id'', JString (bnd_target b))]),
       (''declaration'', JObject [(''path'', JString (bnd_path b)), (''exportName'', JString (bnd_exportName b))])]"

definition contract_responsibility_json :: "contract_responsibility \<Rightarrow> json" where
  "contract_responsibility_json x =
     JObject ([(''id'', JString (rsp_id x))] @
       present ''label'' JString (rsp_label x) @
       present ''role'' JString (rsp_role x) @
       present ''bindings'' (\<lambda>xs. JArray (map responsibility_binding_json xs)) (rsp_bindings x) @
       [(''owns'', strings_json (rsp_owns x)), (''implements'', strings_json (rsp_implements x)),
         (''dependsOn'', strings_json (rsp_dependsOn x))])"

definition contract_operation_json :: "contract_operation \<Rightarrow> json" where
  "contract_operation_json x =
     JObject ([(''id'', JString (opn_id x))] @
       present ''label'' JString (opn_label x) @
       [(''responsibility'', JString (opn_responsibility x)), (''inputs'', strings_json (opn_inputs x))] @
       present ''output'' JString (opn_output x) @
       [(''reads'', strings_json (opn_reads x)), (''writes'', strings_json (opn_writes x)),
         (''mutates'', strings_json (opn_mutates x)), (''requiresPolicies'', strings_json (opn_requiresPolicies x)),
         (''requiresPermissions'', strings_json (opn_requiresPermissions x)),
         (''performsEffects'', strings_json (opn_performsEffects x)), (''emits'', strings_json (opn_emits x)),
         (''invokes'', strings_json (opn_invokes x)), (''awaits'', strings_json (opn_awaits x))])"

definition contract_event_json :: "contract_event \<Rightarrow> json" where
  "contract_event_json x =
     JObject ([(''id'', JString (evt_id x))] @
       present ''label'' JString (evt_label x) @
       present ''payloadType'' JString (evt_payloadType x))"

definition contract_policy_json :: "contract_policy \<Rightarrow> json" where
  "contract_policy_json x =
     JObject ([(''id'', JString (pol_id x))] @
       present ''label'' JString (pol_label x) @
       present ''rule'' JString (pol_rule x) @
       present ''verifiedBy'' strings_json (pol_verifiedBy x))"

definition contract_permission_json :: "contract_permission \<Rightarrow> json" where
  "contract_permission_json x =
     JObject ([(''id'', JString (prm_id x))] @
       present ''label'' JString (prm_label x) @
       present ''scope'' JString (prm_scope x))"

definition contract_effect_json :: "contract_effect \<Rightarrow> json" where
  "contract_effect_json x =
     JObject ([(''id'', JString (eff_id x))] @
       present ''label'' JString (eff_label x) @
       [(''kind'', JString (effect_kind_name (eff_kind x)))] @
       present ''target'' JString (eff_target x))"

definition contract_step_json :: "contract_step \<Rightarrow> json" where
  "contract_step_json x =
     JObject ([(''id'', JString (stp_id x)), (''operation'', JString (stp_operation x)), (''after'', strings_json (stp_after x))] @
       present ''awaits'' JBoolean (stp_awaits x) @
       present ''retryMaxAttempts'' JNumber (stp_retryMaxAttempts x) @
       present ''onError'' JString (stp_onError x))"

definition contract_scenario_json :: "contract_scenario \<Rightarrow> json" where
  "contract_scenario_json x =
     JObject ([(''id'', JString (scn_id x))] @
       present ''label'' JString (scn_label x) @
       [(''entry'', JString (scn_entry x)), (''steps'', JArray (map contract_step_json (scn_steps x))),
         (''acceptance'', strings_json (scn_acceptance x))])"

definition semantic_contract_json :: "semantic_contract \<Rightarrow> json" where
  "semantic_contract_json x =
     JObject ([(''formatVersion'', JString ''1''), (''id'', JString (con_id x)), (''namespace'', JString (con_namespace x))] @
       present ''imports'' (\<lambda>xs. JArray (map contract_import_json xs)) (con_imports x) @
       [(''entities'', JArray (map contract_entity_json (con_entities x))),
         (''states'', JArray (map contract_state_json (con_states x))),
         (''responsibilities'', JArray (map contract_responsibility_json (con_responsibilities x))),
         (''operations'', JArray (map contract_operation_json (con_operations x))),
         (''events'', JArray (map contract_event_json (con_events x))),
         (''policies'', JArray (map contract_policy_json (con_policies x))),
         (''permissions'', JArray (map contract_permission_json (con_permissions x))),
         (''effects'', JArray (map contract_effect_json (con_effects x))),
         (''scenarios'', JArray (map contract_scenario_json (con_scenarios x)))])"

definition loaded_contract_json :: "loaded_contract \<Rightarrow> json" where
  "loaded_contract_json x =
     JObject ([(''blockId'', JString (lc_blockId x)), (''contractPath'', JString (lc_contractPath x)),
         (''contract'', semantic_contract_json (lc_contract x))])"

section \<open>Identity components of a contract\<close>

text \<open>Checks in the order of the source: the first failure is thrown.\<close>

definition in_order :: "unit result list \<Rightarrow> unit result" where
  "in_order = check_all (\<lambda>c. c)"

definition check_reference :: "string \<Rightarrow> unit result" where
  "check_reference v = bind_r (semanticReferenceParts v) (\<lambda>_. Inr ())"

definition check_target :: "string \<Rightarrow> unit result" where
  "check_target v = bind_r (semanticReferenceParts v) (\<lambda>(q, i). bind_r (semanticTargetParts i) (\<lambda>_. Inr ()))"

definition check_import_components :: "contract_import \<Rightarrow> unit result" where
  "check_import_components e =
     check_all (\<lambda>v. assertSemanticIdentityComponent v ''Semantic import'' False) [imp_alias e, imp_namespace e, imp_contractId e]"

definition check_entity_components :: "contract_entity \<Rightarrow> unit result" where
  "check_entity_components e = in_order [assertSemanticIdentityComponent (cent_id e) ''Entity id'' True,
     check_all (\<lambda>f. assertSemanticIdentityComponent (fld_id f) ''Field id'' True) (cent_fields e)]"

definition check_state_components :: "contract_state \<Rightarrow> unit result" where
  "check_state_components s = in_order [
     bind_r (semanticReferenceParts (cst_entity s)) (\<lambda>(q, i). assertSemanticIdentityComponent i ''State entity'' True),
     assertSemanticIdentityComponent (cst_field s) ''State field'' True,
     check_reference (cst_owner s),
     check_all (\<lambda>t. check_reference (tr_by t)) (cst_transitions s)]"

definition check_responsibility_components :: "contract_responsibility \<Rightarrow> unit result" where
  "check_responsibility_components r = in_order [
     check_all (\<lambda>b. check_reference (bnd_target b)) (case rsp_bindings r of None \<Rightarrow> [] | Some bs \<Rightarrow> bs),
     check_all check_target (rsp_owns r),
     check_all check_reference (rsp_implements r @ rsp_dependsOn r)]"

definition check_operation_components :: "contract_operation \<Rightarrow> unit result" where
  "check_operation_components p = in_order [
     check_reference (opn_responsibility p),
     check_all check_target (opn_reads p @ opn_writes p @ opn_mutates p),
     check_all check_reference (opn_requiresPolicies p @ opn_requiresPermissions p @ opn_performsEffects p @ opn_emits p @
       opn_invokes p @ opn_awaits p)]"

definition check_step_components :: "contract_step \<Rightarrow> unit result" where
  "check_step_components s = in_order [
     assertSemanticIdentityComponent (stp_id s) ''Scenario step id'' False,
     check_reference (stp_operation s),
     check_all (\<lambda>v. assertSemanticIdentityComponent v ''Scenario dependency id'' False) (stp_after s),
     (case stp_onError s of None \<Rightarrow> Inr () | Some v \<Rightarrow> assertSemanticIdentityComponent v ''Scenario recovery step id'' False)]"

definition check_scenario_components :: "contract_scenario \<Rightarrow> unit result" where
  "check_scenario_components s = in_order [
     check_reference (scn_entry s),
     check_all (\<lambda>v. assertSemanticIdentityComponent v ''Acceptance id'' False) (scn_acceptance s),
     check_all check_step_components (scn_steps s)]"

definition declaration_ids :: "semantic_contract \<Rightarrow> string list" where
  "declaration_ids c = map cst_id (con_states c) @ map rsp_id (con_responsibilities c) @ map opn_id (con_operations c) @
     map evt_id (con_events c) @ map pol_id (con_policies c) @ map prm_id (con_permissions c) @ map eff_id (con_effects c) @
     map scn_id (con_scenarios c)"

definition assertSemanticContractIdentityComponents :: "semantic_contract \<Rightarrow> unit result" where
  "assertSemanticContractIdentityComponents c = in_order [
     assertSemanticIdentityComponent (con_id c) ''Semantic contract id'' False,
     assertSemanticIdentityComponent (con_namespace c) ''Semantic namespace'' False,
     check_all check_import_components (case con_imports c of None \<Rightarrow> [] | Some is \<Rightarrow> is),
     check_all check_entity_components (con_entities c),
     check_all (\<lambda>i. assertSemanticIdentityComponent i ''Semantic declaration id'' False) (declaration_ids c),
     check_all check_state_components (con_states c),
     check_all check_responsibility_components (con_responsibilities c),
     check_all check_operation_components (con_operations c),
     check_all (\<lambda>p. check_all (\<lambda>v. assertSemanticIdentityComponent v ''Verification policy id'' False)
       (case pol_verifiedBy p of None \<Rightarrow> [] | Some vs \<Rightarrow> vs)) (con_policies c),
     check_all check_scenario_components (con_scenarios c)]"

section \<open>Namespaces\<close>

record namespace_owner =
  owner_identity :: string
  owner_label :: string

definition semanticContractOwnerIdentity :: "(string \<Rightarrow> string) \<Rightarrow> loaded_contract \<Rightarrow> string result" where
  "semanticContractOwnerIdentity hash l = bind_r (canonicalJson (semantic_contract_json (lc_contract l))) (\<lambda>c.
     Inr (digest_of hash (stringify (JObject [(''blockId'', JString (lc_blockId l)), (''contractPath'', JString (lc_contractPath l)),
       (''contract'', c)]))))"

definition semanticContractOwnerLabel :: "loaded_contract \<Rightarrow> string" where
  "semanticContractOwnerLabel l = lc_blockId l @ '':'' @ con_id (lc_contract l) @ ''@'' @ lc_contractPath l"

definition claimSemanticNamespace :: "(string \<Rightarrow> string) \<Rightarrow> loaded_contract \<Rightarrow>
    (string, namespace_owner) jsmap \<Rightarrow> (string, namespace_owner) jsmap result" where
  "claimSemanticNamespace hash l owners = (let namespace = con_namespace (lc_contract l) in
     bind_r (semanticContractOwnerIdentity hash l) (\<lambda>identity.
     let owner = \<lparr>owner_identity = identity, owner_label = semanticContractOwnerLabel l\<rparr> in
     bind_r (case map_get owners namespace of
         None \<Rightarrow> Inr ()
       | Some existing \<Rightarrow> throw_if (owner_identity existing \<noteq> identity)
           (CodedFailure ''IR-IDENTITY-006'' [namespace, owner_label existing, owner_label owner])) (\<lambda>_.
     Inr (map_set namespace owner owners))))"

end
