(* ===== verification/ContractLink.thy ===== *)
theory ContractLink
  imports SemanticContract
begin

text \<open>
  Linking of the semantic contracts of a workspace, \<^verbatim>\<open>src/src/semantics/definitions/link.ts\<close>: every reference of a contract is replaced
  by the namespace and id of the declaration it resolves to. The registry has one entry per namespace, so two entries
  are the same object exactly when their namespaces are equal; the cache of field ids holds what it would compute.
\<close>

section \<open>The registry\<close>

datatype symbol_kind =
  SymEntity | SymResponsibility | SymOperation | SymEvent | SymPolicy | SymPermission | SymEffect | SymScenario

fun symbols :: "semantic_contract \<Rightarrow> symbol_kind \<Rightarrow> string list" where
  "symbols c SymEntity = map cent_id (con_entities c)"
| "symbols c SymResponsibility = map rsp_id (con_responsibilities c)"
| "symbols c SymOperation = map opn_id (con_operations c)"
| "symbols c SymEvent = map evt_id (con_events c)"
| "symbols c SymPolicy = map pol_id (con_policies c)"
| "symbols c SymPermission = map prm_id (con_permissions c)"
| "symbols c SymEffect = map eff_id (con_effects c)"
| "symbols c SymScenario = map scn_id (con_scenarios c)"

definition target_symbol :: "responsibility_target_kind \<Rightarrow> symbol_kind" where
  "target_symbol k = (case k of TargetEntity \<Rightarrow> SymEntity | TargetEffect \<Rightarrow> SymEffect | TargetOperation \<Rightarrow> SymOperation
     | TargetScenario \<Rightarrow> SymScenario)"

definition entity_of :: "semantic_contract \<Rightarrow> string \<Rightarrow> contract_entity option" where
  "entity_of c i = map_get (map_from (map (\<lambda>e. (cent_id e, e)) (con_entities c))) i"

definition contractOrderKey :: "loaded_contract \<Rightarrow> string option list" where
  "contractOrderKey l = [Some (con_namespace (lc_contract l)), Some (con_id (lc_contract l)), Some (lc_blockId l), Some (lc_contractPath l)]"

definition contractIdentity :: "loaded_contract \<Rightarrow> string" where
  "contractIdentity l = con_namespace (lc_contract l) @ CHR 0x00 # con_id (lc_contract l)"

definition exactContractIdentity :: "loaded_contract \<Rightarrow> string" where
  "exactContractIdentity l = stringify (loaded_contract_json l)"

type_synonym alias_map = "(string, loaded_contract) jsmap"

definition import_entry :: "loaded_contract \<Rightarrow> (string, loaded_contract) jsmap \<Rightarrow> contract_import \<Rightarrow> alias_map \<Rightarrow> alias_map result" where
  "import_entry owner registryByIdentity e byAlias =
     bind_r (throw_if (map_has byAlias (imp_alias e)) (CodedFailure ''SEMANTIC-LINK-002'' [imp_alias e, con_id (lc_contract owner)])) (\<lambda>_.
     case map_get registryByIdentity (imp_namespace e @ CHR 0x00 # imp_contractId e) of
       None \<Rightarrow> throw (CodedFailure ''SEMANTIC-LINK-003'' [imp_alias e, imp_namespace e, imp_contractId e])
     | Some target \<Rightarrow>
         bind_r (throw_if (con_namespace (lc_contract target) = con_namespace (lc_contract owner))
           (CodedFailure ''SEMANTIC-LINK-005'' [con_id (lc_contract owner), imp_alias e])) (\<lambda>_.
         Inr (map_set (imp_alias e) target byAlias)))"

definition importedRegistry :: "loaded_contract \<Rightarrow> (string, loaded_contract) jsmap \<Rightarrow> alias_map result" where
  "importedRegistry owner registryByIdentity =
     fold_r (import_entry owner registryByIdentity) (case con_imports (lc_contract owner) of None \<Rightarrow> [] | Some is \<Rightarrow> is) []"

section \<open>References\<close>

definition targetEntry :: "loaded_contract \<Rightarrow> alias_map \<Rightarrow> string \<Rightarrow> (loaded_contract \<times> string) result" where
  "targetEntry owner imports reference = bind_r (semanticReferenceParts reference) (\<lambda>(qualifier, i). case qualifier of
       None \<Rightarrow> Inr (owner, i)
     | Some q \<Rightarrow> (case map_get imports q of
         None \<Rightarrow> throw (CodedFailure ''SEMANTIC-LINK-004'' [q])
       | Some target \<Rightarrow> Inr (target, i)))"

definition linked_name :: "loaded_contract \<Rightarrow> string \<Rightarrow> string" where
  "linked_name target i = con_namespace (lc_contract target) @ ''::'' @ i"

definition resolveSymbol :: "loaded_contract \<Rightarrow> alias_map \<Rightarrow> symbol_kind \<Rightarrow> string \<Rightarrow> string result" where
  "resolveSymbol owner imports kind reference = bind_r (targetEntry owner imports reference) (\<lambda>(target, i).
     bind_r (throw_if (i \<notin> set (symbols (lc_contract target) kind)) (CodedFailure ''SEMANTIC-LINK-004'' [reference])) (\<lambda>_.
     Inr (linked_name target i)))"

definition requireLocalOwnershipReference :: "string \<Rightarrow> unit result" where
  "requireLocalOwnershipReference reference = bind_r (semanticReferenceParts reference) (\<lambda>(qualifier, i).
     throw_if (qualifier \<noteq> None) (CodedFailure ''SEMANTIC-LINK-005'' [reference]))"

definition entityFieldIds :: "contract_entity \<Rightarrow> string list" where
  "entityFieldIds e = map fld_id (cent_fields e)"

definition target_declared :: "semantic_contract \<Rightarrow> string \<Rightarrow> string option \<Rightarrow> bool" where
  "target_declared c entityId fieldId = (case entity_of c entityId of
       None \<Rightarrow> False
     | Some e \<Rightarrow> (case fieldId of None \<Rightarrow> True | Some f \<Rightarrow> f \<in> set (entityFieldIds e)))"

definition resolveEntityTarget :: "loaded_contract \<Rightarrow> alias_map \<Rightarrow> string \<Rightarrow> string result" where
  "resolveEntityTarget owner imports reference = bind_r (targetEntry owner imports reference) (\<lambda>(target, i).
     bind_r (semanticTargetParts i) (\<lambda>(entityId, fieldId).
     bind_r (throw_if (\<not> target_declared (lc_contract target) entityId fieldId) (CodedFailure ''SEMANTIC-LINK-004'' [reference])) (\<lambda>_.
     Inr (linked_name target i))))"

section \<open>Contracts\<close>

definition canonicalImports :: "contract_import list option \<Rightarrow> contract_import list" where
  "canonicalImports imports = sort_key imp_alias (case imports of None \<Rightarrow> [] | Some is \<Rightarrow> is)"

definition linkResponsibilityBinding :: "loaded_contract \<Rightarrow> alias_map \<Rightarrow> responsibility_binding \<Rightarrow> responsibility_binding result" where
  "linkResponsibilityBinding owner imports b =
     bind_r (requireLocalOwnershipReference (bnd_target b)) (\<lambda>_.
     bind_r (resolveSymbol owner imports (target_symbol (bnd_kind b)) (bnd_target b)) (\<lambda>i.
     Inr (b\<lparr>bnd_target := i\<rparr>)))"

definition linkTransition :: "loaded_contract \<Rightarrow> alias_map \<Rightarrow> contract_transition \<Rightarrow> contract_transition result" where
  "linkTransition owner imports t = bind_r (resolveSymbol owner imports SymOperation (tr_by t)) (\<lambda>i. Inr (t\<lparr>tr_by := i\<rparr>))"

text \<open>The linked target of a state has a namespace and a field, since both were written into it.\<close>

definition linkState :: "loaded_contract \<Rightarrow> alias_map \<Rightarrow> contract_state \<Rightarrow> contract_state result" where
  "linkState owner imports s =
     bind_r (resolveEntityTarget owner imports (cst_entity s @ ''.'' @ cst_field s)) (\<lambda>linkedTarget.
     bind_r (semanticReferenceParts linkedTarget) (\<lambda>(qualifier, targetId).
     bind_r (semanticTargetParts targetId) (\<lambda>(entityId, fieldId).
     bind_r (resolveSymbol owner imports SymResponsibility (cst_owner s)) (\<lambda>own.
     bind_r (map_r (linkTransition owner imports) (cst_transitions s)) (\<lambda>transitions.
     Inr (s\<lparr>cst_entity := (case qualifier of None \<Rightarrow> ''undefined'' | Some q \<Rightarrow> q) @ ''::'' @ entityId,
       cst_field := (case fieldId of None \<Rightarrow> [] | Some f \<Rightarrow> f), cst_owner := own, cst_transitions := transitions\<rparr>))))))"

definition linkResponsibility :: "loaded_contract \<Rightarrow> alias_map \<Rightarrow> contract_responsibility \<Rightarrow> contract_responsibility result" where
  "linkResponsibility owner imports r =
     bind_r (check_all requireLocalOwnershipReference (rsp_implements r)) (\<lambda>_.
     bind_r (map_r (linkResponsibilityBinding owner imports) (case rsp_bindings r of None \<Rightarrow> [] | Some bs \<Rightarrow> bs)) (\<lambda>bindings.
     bind_r (map_r (resolveEntityTarget owner imports) (rsp_owns r)) (\<lambda>owns.
     bind_r (map_r (resolveSymbol owner imports SymOperation) (rsp_implements r)) (\<lambda>implements.
     bind_r (map_r (resolveSymbol owner imports SymResponsibility) (rsp_dependsOn r)) (\<lambda>dependsOn.
     Inr (r\<lparr>rsp_bindings := Some bindings, rsp_owns := owns, rsp_implements := implements, rsp_dependsOn := dependsOn\<rparr>))))))"

definition linkOperation :: "loaded_contract \<Rightarrow> alias_map \<Rightarrow> contract_operation \<Rightarrow> contract_operation result" where
  "linkOperation owner imports p =
     bind_r (requireLocalOwnershipReference (opn_responsibility p)) (\<lambda>_.
     bind_r (resolveSymbol owner imports SymResponsibility (opn_responsibility p)) (\<lambda>responsibility.
     bind_r (map_r (resolveEntityTarget owner imports) (opn_reads p)) (\<lambda>reads.
     bind_r (map_r (resolveEntityTarget owner imports) (opn_writes p)) (\<lambda>writes.
     bind_r (map_r (resolveEntityTarget owner imports) (opn_mutates p)) (\<lambda>mutates.
     bind_r (map_r (resolveSymbol owner imports SymPolicy) (opn_requiresPolicies p)) (\<lambda>requiresPolicies.
     bind_r (map_r (resolveSymbol owner imports SymPermission) (opn_requiresPermissions p)) (\<lambda>requiresPermissions.
     bind_r (map_r (resolveSymbol owner imports SymEffect) (opn_performsEffects p)) (\<lambda>performsEffects.
     bind_r (map_r (resolveSymbol owner imports SymEvent) (opn_emits p)) (\<lambda>emits.
     bind_r (map_r (resolveSymbol owner imports SymOperation) (opn_invokes p)) (\<lambda>invokes.
     bind_r (map_r (resolveSymbol owner imports SymOperation) (opn_awaits p)) (\<lambda>awaits.
     Inr (p\<lparr>opn_responsibility := responsibility, opn_reads := reads, opn_writes := writes, opn_mutates := mutates,
       opn_requiresPolicies := requiresPolicies, opn_requiresPermissions := requiresPermissions,
       opn_performsEffects := performsEffects, opn_emits := emits, opn_invokes := invokes, opn_awaits := awaits\<rparr>))))))))))))"

definition linkPolicy :: "semantic_contract \<Rightarrow> string list \<Rightarrow> contract_policy \<Rightarrow> contract_policy result" where
  "linkPolicy c verificationPolicyIds p = (let ids = (case pol_verifiedBy p of None \<Rightarrow> [] | Some vs \<Rightarrow> vs) in
     bind_r (check_all (\<lambda>v. throw_if (v \<notin> set verificationPolicyIds)
       (CodedFailure ''SEMANTIC-LINK-006'' [con_namespace c, pol_id p, v])) ids) (\<lambda>_.
     Inr (p\<lparr>pol_verifiedBy := Some ids\<rparr>)))"

definition linkStep :: "loaded_contract \<Rightarrow> alias_map \<Rightarrow> contract_step \<Rightarrow> contract_step result" where
  "linkStep owner imports s = bind_r (resolveSymbol owner imports SymOperation (stp_operation s)) (\<lambda>i. Inr (s\<lparr>stp_operation := i\<rparr>))"

definition linkScenario :: "loaded_contract \<Rightarrow> alias_map \<Rightarrow> contract_scenario \<Rightarrow> contract_scenario result" where
  "linkScenario owner imports s =
     bind_r (resolveSymbol owner imports SymOperation (scn_entry s)) (\<lambda>entry.
     bind_r (map_r (linkStep owner imports) (scn_steps s)) (\<lambda>steps.
     Inr (s\<lparr>scn_entry := entry, scn_steps := steps\<rparr>)))"

definition linkContract :: "loaded_contract \<Rightarrow> alias_map \<Rightarrow> string list \<Rightarrow> loaded_contract result" where
  "linkContract owner imports verificationPolicyIds = (let c = lc_contract owner in
     bind_r (map_r (linkState owner imports) (con_states c)) (\<lambda>states.
     bind_r (map_r (linkResponsibility owner imports) (con_responsibilities c)) (\<lambda>responsibilities.
     bind_r (map_r (linkOperation owner imports) (con_operations c)) (\<lambda>operations.
     bind_r (map_r (linkPolicy c verificationPolicyIds) (con_policies c)) (\<lambda>policies.
     bind_r (map_r (linkScenario owner imports) (con_scenarios c)) (\<lambda>linkedScenarios.
     Inr (owner\<lparr>lc_contract := c\<lparr>con_imports := Some (canonicalImports (con_imports c)), con_states := states,
       con_responsibilities := responsibilities, con_operations := operations, con_policies := policies,
       con_scenarios := linkedScenarios\<rparr>\<rparr>)))))))"

text \<open>The maps by namespace and by identity.\<close>

type_synonym contract_registry = "(string, loaded_contract) jsmap \<times> (string, loaded_contract) jsmap"

definition register_contract :: "loaded_contract \<Rightarrow> contract_registry \<Rightarrow> contract_registry result" where
  "register_contract l maps = (let namespace = con_namespace (lc_contract l) in
     case map_get (fst maps) namespace of
       Some existing \<Rightarrow> if exactContractIdentity existing = exactContractIdentity l then Inr maps
         else throw (CodedFailure ''SEMANTIC-LINK-001'' [namespace])
     | None \<Rightarrow> Inr (map_set namespace l (fst maps), map_set (contractIdentity l) l (snd maps)))"

definition linkWorkspaceSemanticContracts :: "loaded_contract list \<Rightarrow> string list \<Rightarrow> loaded_contract list result" where
  "linkWorkspaceSemanticContracts ls verificationPolicyIds =
     bind_r (check_all (\<lambda>l. bind_r (assertSemanticIdentityComponent (lc_blockId l) ''Semantic contract block id'' False) (\<lambda>_.
       assertSemanticContractIdentityComponents (lc_contract l))) ls) (\<lambda>_.
     bind_r (check_all (\<lambda>i. assertSemanticIdentityComponent i ''Verification policy id'' False) verificationPolicyIds) (\<lambda>_.
     bind_r (fold_r register_contract (sort_key contractOrderKey ls) ([], [])) (\<lambda>(byNamespace, byIdentity).
     map_r (\<lambda>owner. bind_r (importedRegistry owner byIdentity) (\<lambda>imports. linkContract owner imports verificationPolicyIds))
       (sort_key contractOrderKey (map snd byNamespace)))))"

definition splitLinkedSemanticReference :: "string \<Rightarrow> (string \<times> string) result" where
  "splitLinkedSemanticReference reference = bind_r (semanticReferenceParts reference) (\<lambda>(qualifier, i). case qualifier of
       None \<Rightarrow> throw (CodedFailure ''SEMANTIC-LINK-007'' [reference])
     | Some namespace \<Rightarrow> Inr (namespace, i))"

section \<open>What a linked reference names\<close>

definition linked_symbol :: "loaded_contract set \<Rightarrow> symbol_kind \<Rightarrow> string \<Rightarrow> bool" where
  "linked_symbol ls kind reference \<longleftrightarrow> (\<exists>l \<in> ls. \<exists>i \<in> set (symbols (lc_contract l) kind). reference = linked_name l i)"

definition linked_target :: "loaded_contract set \<Rightarrow> string \<Rightarrow> bool" where
  "linked_target ls reference \<longleftrightarrow> (\<exists>l \<in> ls. \<exists>i e f. reference = linked_name l i \<and> semanticTargetParts i = Inr (e, f) \<and>
     target_declared (lc_contract l) e f)"

definition linked_state_ok :: "loaded_contract set \<Rightarrow> contract_state \<Rightarrow> bool" where
  "linked_state_ok ls s \<longleftrightarrow> linked_target ls (cst_entity s @ ''.'' @ cst_field s) \<and> linked_symbol ls SymResponsibility (cst_owner s) \<and>
     (\<forall>t \<in> set (cst_transitions s). linked_symbol ls SymOperation (tr_by t))"

definition linked_responsibility_ok :: "loaded_contract set \<Rightarrow> contract_responsibility \<Rightarrow> bool" where
  "linked_responsibility_ok ls r \<longleftrightarrow>
     (\<exists>bs. rsp_bindings r = Some bs \<and> (\<forall>b \<in> set bs. linked_symbol ls (target_symbol (bnd_kind b)) (bnd_target b))) \<and>
     (\<forall>v \<in> set (rsp_owns r). linked_target ls v) \<and> (\<forall>v \<in> set (rsp_implements r). linked_symbol ls SymOperation v) \<and>
     (\<forall>v \<in> set (rsp_dependsOn r). linked_symbol ls SymResponsibility v)"

definition linked_operation_ok :: "loaded_contract set \<Rightarrow> contract_operation \<Rightarrow> bool" where
  "linked_operation_ok ls p \<longleftrightarrow> linked_symbol ls SymResponsibility (opn_responsibility p) \<and>
     (\<forall>v \<in> set (opn_reads p) \<union> set (opn_writes p) \<union> set (opn_mutates p). linked_target ls v) \<and>
     (\<forall>v \<in> set (opn_requiresPolicies p). linked_symbol ls SymPolicy v) \<and>
     (\<forall>v \<in> set (opn_requiresPermissions p). linked_symbol ls SymPermission v) \<and>
     (\<forall>v \<in> set (opn_performsEffects p). linked_symbol ls SymEffect v) \<and> (\<forall>v \<in> set (opn_emits p). linked_symbol ls SymEvent v) \<and>
     (\<forall>v \<in> set (opn_invokes p) \<union> set (opn_awaits p). linked_symbol ls SymOperation v)"

definition linked_scenario_ok :: "loaded_contract set \<Rightarrow> contract_scenario \<Rightarrow> bool" where
  "linked_scenario_ok ls s \<longleftrightarrow> linked_symbol ls SymOperation (scn_entry s) \<and>
     (\<forall>p \<in> set (scn_steps s). linked_symbol ls SymOperation (stp_operation p))"

definition linked_references_ok :: "loaded_contract set \<Rightarrow> string set \<Rightarrow> semantic_contract \<Rightarrow> bool" where
  "linked_references_ok ls policies c \<longleftrightarrow> (\<forall>s \<in> set (con_states c). linked_state_ok ls s) \<and>
     (\<forall>r \<in> set (con_responsibilities c). linked_responsibility_ok ls r) \<and> (\<forall>p \<in> set (con_operations c). linked_operation_ok ls p) \<and>
     (\<forall>p \<in> set (con_policies c). \<exists>vs. pol_verifiedBy p = Some vs \<and> set vs \<subseteq> policies) \<and>
     (\<forall>s \<in> set (con_scenarios c). linked_scenario_ok ls s)"

section \<open>Resolution\<close>

text \<open>The contracts a reference of \<open>owner\<close> can name.\<close>

definition reachable_contracts :: "loaded_contract \<Rightarrow> alias_map \<Rightarrow> loaded_contract set" where
  "reachable_contracts owner imports = insert owner (snd ` set imports)"

lemma targetEntry_reachable: "targetEntry owner imports v = Inr (l, i) \<Longrightarrow> l \<in> reachable_contracts owner imports"
  by (auto simp: targetEntry_def reachable_contracts_def throw_def split: option.splits) (metis map_get_Some_in image_eqI snd_conv)

lemma resolveSymbol_linked: "resolveSymbol owner imports kind v = Inr r \<Longrightarrow> linked_symbol (reachable_contracts owner imports) kind r"
  by (auto simp: resolveSymbol_def linked_symbol_def) (blast dest: targetEntry_reachable)

lemma resolveEntityTarget_linked: "resolveEntityTarget owner imports v = Inr r \<Longrightarrow> linked_target (reachable_contracts owner imports) r"
  by (auto simp: resolveEntityTarget_def linked_target_def) (blast dest: targetEntry_reachable)

lemma map_r_all: "map_r f xs = Inr ys \<Longrightarrow> (\<And>x y. x \<in> set xs \<Longrightarrow> f x = Inr y \<Longrightarrow> P y) \<Longrightarrow> \<forall>y \<in> set ys. P y"
  using map_r_InrD by fast

lemma map_r_same: "map_r f xs = Inr ys \<Longrightarrow> (\<And>x y. x \<in> set xs \<Longrightarrow> f x = Inr y \<Longrightarrow> g y = g x) \<Longrightarrow> map g ys = map g xs"
  by (induction xs arbitrary: ys) auto

section \<open>Reading references\<close>

lemma split_double_colon_nonempty: "split_double_colon s \<noteq> []"
  by (induction s rule: split_double_colon.induct) (auto split: list.split)

lemma join_double_colon: "join_with ''::'' (split_double_colon s) = s"
proof (induction s rule: split_double_colon.induct)
  case (3 c d s)
  show ?case
  proof (cases "c = CHR '':'' \<and> d = CHR '':''")
    case True
    then show ?thesis using 3 split_double_colon_nonempty [of s] by (simp add: join_with_Cons)
  next
    case False
    obtain w ws where s: "split_double_colon (d # s) = w # ws" using split_double_colon_nonempty [of "d # s"] by (cases "split_double_colon (d # s)") auto
    then have "join_with ''::'' (w # ws) = d # s" using "3.IH"(2) [OF False] by simp
    then show ?thesis using False s by (cases ws) auto
  qed
qed simp_all

lemma split_double_colon_plain: "CHR '':'' \<notin> set w \<Longrightarrow> split_double_colon w = [w]"
  by (induction w rule: split_double_colon.induct) auto

lemma split_double_colon_sep: "CHR '':'' \<notin> set w \<Longrightarrow> split_double_colon (w @ ''::'' @ s) = w # split_double_colon s"
proof (induction w)
  case (Cons c w)
  then have c: "c \<noteq> CHR '':''" "split_double_colon (w @ ''::'' @ s) = w # split_double_colon s" by auto
  then show ?case by (cases w) auto
qed simp

lemma double_colon_unique:
  assumes "a @ ''::'' @ b = c @ ''::'' @ d" "CHR '':'' \<notin> set b" "CHR '':'' \<notin> set d"
  shows "a = c \<and> b = d"
proof -
  have "rev b @ CHR '':'' # (CHR '':'' # rev a) = rev d @ CHR '':'' # (CHR '':'' # rev c)"
    using arg_cong [OF assms(1), of rev] by simp
  then have "rev b = rev d \<and> CHR '':'' # rev a = CHR '':'' # rev c"
    using separator_unique [of "CHR '':''" "rev b" "rev d"] assms(2,3) by simp
  then show ?thesis by simp
qed

lemma semanticReferenceParts_Inr:
  "semanticReferenceParts v = Inr (q, i) \<longleftrightarrow> component i \<and> (case q of None \<Rightarrow> v = i | Some n \<Rightarrow> component n \<and> v = n @ ''::'' @ i)"
proof
  assume r: "semanticReferenceParts v = Inr (q, i)"
  consider (one) w where "split_double_colon v = [w]" | (two) x y where "split_double_colon v = [x, y]"
    | "length (split_double_colon v) > 2"
    using split_double_colon_nonempty [of v] by (cases "split_double_colon v" rule: remdups_adj.cases; cases "tl (tl (split_double_colon v))") auto
  then show "component i \<and> (case q of None \<Rightarrow> v = i | Some n \<Rightarrow> component n \<and> v = n @ ''::'' @ i)"
  proof cases
    case one
    then show ?thesis using r by (auto simp: semanticReferenceParts_def)
  next
    case two
    then have "v = x @ ''::'' @ y" using join_double_colon [of v] by simp
    then show ?thesis using r two by (auto simp: semanticReferenceParts_def)
  next
    case 3
    then show ?thesis using r by (auto simp: semanticReferenceParts_def throw_def split: list.splits)
  qed
next
  assume "component i \<and> (case q of None \<Rightarrow> v = i | Some n \<Rightarrow> component n \<and> v = n @ ''::'' @ i)"
  then show "semanticReferenceParts v = Inr (q, i)"
    using component_chars(1) split_double_colon_sep split_double_colon_plain
    by (cases q) (auto simp: semanticReferenceParts_def bind_r_Inr_iff)
qed

lemma semanticTargetParts_Inr:
  "semanticTargetParts t = Inr (e, f) \<longleftrightarrow> target_component e \<and> (case f of None \<Rightarrow> t = e | Some g \<Rightarrow> target_component g \<and> t = e @ CHR ''.'' # g)"
proof -
  have "semanticTargetParts t = Inr (e, f) \<longleftrightarrow> (case f of None \<Rightarrow> split_on (CHR ''.'') t = [e] \<and> target_component e
      | Some g \<Rightarrow> split_on (CHR ''.'') t = [e, g] \<and> target_component e \<and> target_component g)"
    by (cases "split_on (CHR ''.'') t" rule: remdups_adj.cases; cases "tl (tl (split_on (CHR ''.'') t))"; cases f)
      (auto simp: semanticTargetParts_def bind_r_Inr_iff throw_def)
  then show ?thesis using component_chars(3) by (cases f) (auto simp: split_colons)
qed

section \<open>Linked declarations\<close>

lemma linked_symbol_mono: "linked_symbol ls k v \<Longrightarrow> ls \<subseteq> ls' \<Longrightarrow> linked_symbol ls' k v"
  by (auto simp: linked_symbol_def)

lemma linked_target_mono: "linked_target ls v \<Longrightarrow> ls \<subseteq> ls' \<Longrightarrow> linked_target ls' v"
  unfolding linked_target_def by blast

lemma linkState_ok:
  assumes "linkState owner imports s = Inr s'" "check_state_components s = Inr ()"
  shows "linked_state_ok (reachable_contracts owner imports) s'" "cst_id s' = cst_id s" "cst_values s' = cst_values s" "cst_label s' = cst_label s"
proof -
  obtain target q i e f own ts where r: "resolveEntityTarget owner imports (cst_entity s @ ''.'' @ cst_field s) = Inr target"
    "semanticReferenceParts target = Inr (q, i)" "semanticTargetParts i = Inr (e, f)"
    "resolveSymbol owner imports SymResponsibility (cst_owner s) = Inr own" "map_r (linkTransition owner imports) (cst_transitions s) = Inr ts"
    and s': "s' = s\<lparr>cst_entity := (case q of None \<Rightarrow> ''undefined'' | Some q \<Rightarrow> q) @ ''::'' @ e,
       cst_field := (case f of None \<Rightarrow> [] | Some f \<Rightarrow> f), cst_owner := own, cst_transitions := ts\<rparr>"
    using assms(1) by (auto simp: linkState_def)
  show "cst_id s' = cst_id s" "cst_values s' = cst_values s" "cst_label s' = cst_label s" by (simp_all add: s')
  obtain l j e' f' where l: "targetEntry owner imports (cst_entity s @ ''.'' @ cst_field s) = Inr (l, j)" "semanticTargetParts j = Inr (e', f')"
    "target_declared (lc_contract l) e' f'" "target = linked_name l j"
    using r(1) by (auto simp: resolveEntityTarget_def)
  obtain q1 where q1: "semanticReferenceParts (cst_entity s @ ''.'' @ cst_field s) = Inr (q1, j)"
    using l(1) by (auto simp: targetEntry_def throw_def split: option.splits)
  obtain q0 i0 where q0: "semanticReferenceParts (cst_entity s) = Inr (q0, i0)" "target_component i0" "target_component (cst_field s)"
    using assms(2) by (auto simp: check_state_components_def in_order_def)
  have dot: "j = i0 @ CHR ''.'' # cst_field s"
  proof -
    have c: "CHR '':'' \<notin> set (i0 @ CHR ''.'' # cst_field s)" using q0(2,3) component_chars(1) by auto
    have "component j" using q1 by (simp add: semanticReferenceParts_Inr)
    then have j: "CHR '':'' \<notin> set j" by (rule component_chars(1))
    define w where "w = i0 @ CHR ''.'' # cst_field s"
    have v: "(case q1 of None \<Rightarrow> cst_entity s @ ''.'' @ cst_field s = j | Some n \<Rightarrow> cst_entity s @ ''.'' @ cst_field s = n @ ''::'' @ j)"
      using q1 by (auto simp: semanticReferenceParts_Inr split: option.splits)
    show ?thesis
    proof (cases q0)
      case None
      then have "cst_entity s @ ''.'' @ cst_field s = w" using q0(1) by (simp add: semanticReferenceParts_Inr w_def)
      then show ?thesis using v c by (cases q1) (auto simp: w_def)
    next
      case (Some n)
      then have e: "cst_entity s @ ''.'' @ cst_field s = n @ ''::'' @ w" using q0(1) by (simp add: semanticReferenceParts_Inr w_def)
      then have "CHR '':'' \<in> set (cst_entity s @ ''.'' @ cst_field s)" by simp
      then obtain n' where "q1 = Some n'" using v j by (cases q1) auto
      then have "n @ ''::'' @ w = n' @ ''::'' @ j" using v e by simp
      from double_colon_unique [OF this c [folded w_def] j] show ?thesis by (simp add: w_def)
    qed
  qed
  have i: "i = j" "q = Some (con_namespace (lc_contract l))"
  proof -
    have "component j" "component i" using q1 r(2) by (simp_all add: semanticReferenceParts_Inr)
    note cj = this [THEN component_chars(1)]
    obtain n where n: "q = Some n" "target = n @ ''::'' @ i"
      using r(2) l(4) component_chars(1) by (cases q) (auto simp: semanticReferenceParts_Inr linked_name_def)
    have "n @ ''::'' @ i = con_namespace (lc_contract l) @ ''::'' @ j" using n(2) l(4) by (simp add: linked_name_def)
    from double_colon_unique [OF this cj(2,1)] show "i = j" "q = Some (con_namespace (lc_contract l))" using n(1) by simp_all
  qed
  have e: "e = e'" "f = f'" using r(3) l(2) i(1) by simp_all
  have "\<exists>g. f = Some g"
  proof (cases f)
    case None
    then have "i = e" "target_component e" using r(3) by (simp_all add: semanticTargetParts_Inr)
    moreover have "CHR ''.'' \<in> set i" using dot i(1) by simp
    ultimately show ?thesis using component_chars(3) [of e] by blast
  qed simp
  then obtain g where g: "f = Some g" ..
  then have "i = e @ CHR ''.'' # g" using r(3) by (simp add: semanticTargetParts_Inr)
  then have "cst_entity s' @ ''.'' @ cst_field s' = linked_name l i" by (simp add: s' g i(2) linked_name_def)
  then have "linked_target (reachable_contracts owner imports) (cst_entity s' @ ''.'' @ cst_field s')"
    unfolding linked_target_def using targetEntry_reachable [OF l(1)] l(2,3) i(1) by metis
  moreover have "\<forall>t \<in> set ts. linked_symbol (reachable_contracts owner imports) SymOperation (tr_by t)"
    by (rule map_r_all [OF r(5)]) (auto simp: linkTransition_def dest: resolveSymbol_linked)
  ultimately show "linked_state_ok (reachable_contracts owner imports) s'"
    using resolveSymbol_linked [OF r(4)] by (simp add: linked_state_ok_def s')
qed

lemma linkResponsibility_ok:
  assumes "linkResponsibility owner imports r = Inr r'"
  shows "linked_responsibility_ok (reachable_contracts owner imports) r'" "rsp_id r' = rsp_id r"
proof -
  let ?ls = "reachable_contracts owner imports"
  obtain bs os ims ds where r: "map_r (linkResponsibilityBinding owner imports) (case rsp_bindings r of None \<Rightarrow> [] | Some bs \<Rightarrow> bs) = Inr bs"
    "map_r (resolveEntityTarget owner imports) (rsp_owns r) = Inr os" "map_r (resolveSymbol owner imports SymOperation) (rsp_implements r) = Inr ims"
    "map_r (resolveSymbol owner imports SymResponsibility) (rsp_dependsOn r) = Inr ds"
    and r': "r' = r\<lparr>rsp_bindings := Some bs, rsp_owns := os, rsp_implements := ims, rsp_dependsOn := ds\<rparr>"
    using assms by (auto simp: linkResponsibility_def)
  have "\<forall>b \<in> set bs. linked_symbol ?ls (target_symbol (bnd_kind b)) (bnd_target b)"
    by (rule map_r_all [OF r(1)]) (auto simp: linkResponsibilityBinding_def dest: resolveSymbol_linked)
  moreover have "\<forall>v \<in> set os. linked_target ?ls v" by (rule map_r_all [OF r(2)]) (rule resolveEntityTarget_linked)
  moreover have "\<forall>v \<in> set ims. linked_symbol ?ls SymOperation v" by (rule map_r_all [OF r(3)]) (rule resolveSymbol_linked)
  moreover have "\<forall>v \<in> set ds. linked_symbol ?ls SymResponsibility v" by (rule map_r_all [OF r(4)]) (rule resolveSymbol_linked)
  ultimately show "linked_responsibility_ok ?ls r'" by (simp add: linked_responsibility_ok_def r')
  show "rsp_id r' = rsp_id r" by (simp add: r')
qed

lemma linkOperation_ok:
  assumes "linkOperation owner imports p = Inr p'"
  shows "linked_operation_ok (reachable_contracts owner imports) p'" "opn_id p' = opn_id p"
proof -
  let ?ls = "reachable_contracts owner imports"
  have tgt: "\<forall>v \<in> set ys. linked_target ?ls v" if "map_r (resolveEntityTarget owner imports) xs = Inr ys" for xs ys
    by (rule map_r_all [OF that]) (rule resolveEntityTarget_linked)
  have sym: "\<forall>v \<in> set ys. linked_symbol ?ls k v" if "map_r (resolveSymbol owner imports k) xs = Inr ys" for xs ys k
    by (rule map_r_all [OF that]) (rule resolveSymbol_linked)
  obtain rs r w mu po pe ef em ik aw where m: "resolveSymbol owner imports SymResponsibility (opn_responsibility p) = Inr rs"
    "map_r (resolveEntityTarget owner imports) (opn_reads p) = Inr r" "map_r (resolveEntityTarget owner imports) (opn_writes p) = Inr w"
    "map_r (resolveEntityTarget owner imports) (opn_mutates p) = Inr mu" "map_r (resolveSymbol owner imports SymPolicy) (opn_requiresPolicies p) = Inr po"
    "map_r (resolveSymbol owner imports SymPermission) (opn_requiresPermissions p) = Inr pe"
    "map_r (resolveSymbol owner imports SymEffect) (opn_performsEffects p) = Inr ef" "map_r (resolveSymbol owner imports SymEvent) (opn_emits p) = Inr em"
    "map_r (resolveSymbol owner imports SymOperation) (opn_invokes p) = Inr ik" "map_r (resolveSymbol owner imports SymOperation) (opn_awaits p) = Inr aw"
    and p': "p' = p\<lparr>opn_responsibility := rs, opn_reads := r, opn_writes := w, opn_mutates := mu, opn_requiresPolicies := po,
       opn_requiresPermissions := pe, opn_performsEffects := ef, opn_emits := em, opn_invokes := ik, opn_awaits := aw\<rparr>"
    using assms by (auto simp: linkOperation_def)
  show "opn_id p' = opn_id p" by (simp add: p')
  show "linked_operation_ok ?ls p'"
    using resolveSymbol_linked [OF m(1)] tgt [OF m(2)] tgt [OF m(3)] tgt [OF m(4)] sym [OF m(5)] sym [OF m(6)] sym [OF m(7)] sym [OF m(8)]
      sym [OF m(9)] sym [OF m(10)] by (simp add: linked_operation_ok_def p' ball_Un)
qed

lemma linkScenario_ok:
  assumes "linkScenario owner imports s = Inr s'"
  shows "linked_scenario_ok (reachable_contracts owner imports) s'" "scn_id s' = scn_id s"
proof -
  obtain entry ps where r: "resolveSymbol owner imports SymOperation (scn_entry s) = Inr entry" "map_r (linkStep owner imports) (scn_steps s) = Inr ps"
    and s': "s' = s\<lparr>scn_entry := entry, scn_steps := ps\<rparr>" using assms by (auto simp: linkScenario_def)
  have "\<forall>p \<in> set ps. linked_symbol (reachable_contracts owner imports) SymOperation (stp_operation p)"
    by (rule map_r_all [OF r(2)]) (auto simp: linkStep_def dest: resolveSymbol_linked)
  then show "linked_scenario_ok (reachable_contracts owner imports) s'" "scn_id s' = scn_id s"
    using resolveSymbol_linked [OF r(1)] by (simp_all add: linked_scenario_ok_def s')
qed

lemma linkPolicy_ok: "linkPolicy c ids p = Inr p' \<Longrightarrow> (\<exists>vs. pol_verifiedBy p' = Some vs \<and> set vs \<subseteq> set ids) \<and> pol_id p' = pol_id p"
  by (auto simp: linkPolicy_def Let_def check_all_Inr_iff)

lemma linkContract_ok:
  assumes "linkContract owner imports ids = Inr l" "assertSemanticContractIdentityComponents (lc_contract owner) = Inr ()"
  shows "linked_references_ok (reachable_contracts owner imports) (set ids) (lc_contract l)"
    "con_namespace (lc_contract l) = con_namespace (lc_contract owner)" "con_id (lc_contract l) = con_id (lc_contract owner)"
    "symbols (lc_contract l) = symbols (lc_contract owner)" "con_entities (lc_contract l) = con_entities (lc_contract owner)"
    "lc_blockId l = lc_blockId owner" "lc_contractPath l = lc_contractPath owner"
proof -
  let ?c = "lc_contract owner" and ?ls = "reachable_contracts owner imports"
  obtain st rs os ps sc where r: "map_r (linkState owner imports) (con_states ?c) = Inr st"
    "map_r (linkResponsibility owner imports) (con_responsibilities ?c) = Inr rs" "map_r (linkOperation owner imports) (con_operations ?c) = Inr os"
    "map_r (linkPolicy ?c ids) (con_policies ?c) = Inr ps" "map_r (linkScenario owner imports) (con_scenarios ?c) = Inr sc"
    and l: "l = owner\<lparr>lc_contract := ?c\<lparr>con_imports := Some (canonicalImports (con_imports ?c)), con_states := st,
       con_responsibilities := rs, con_operations := os, con_policies := ps, con_scenarios := sc\<rparr>\<rparr>"
    using assms(1) by (auto simp: linkContract_def Let_def)
  have states: "check_state_components s = Inr ()" if "s \<in> set (con_states ?c)" for s
    using assms(2) that by (auto simp: assertSemanticContractIdentityComponents_def in_order_def check_all_Inr_iff)
  have "\<forall>s \<in> set st. linked_state_ok ?ls s" by (rule map_r_all [OF r(1)]) (blast intro: linkState_ok(1) states)
  moreover have "\<forall>x \<in> set rs. linked_responsibility_ok ?ls x" by (rule map_r_all [OF r(2)]) (rule linkResponsibility_ok(1))
  moreover have "\<forall>x \<in> set os. linked_operation_ok ?ls x" by (rule map_r_all [OF r(3)]) (rule linkOperation_ok(1))
  moreover have "\<forall>x \<in> set ps. \<exists>vs. pol_verifiedBy x = Some vs \<and> set vs \<subseteq> set ids" by (rule map_r_all [OF r(4)]) (use linkPolicy_ok in blast)
  moreover have "\<forall>x \<in> set sc. linked_scenario_ok ?ls x" by (rule map_r_all [OF r(5)]) (rule linkScenario_ok(1))
  ultimately show "linked_references_ok ?ls (set ids) (lc_contract l)" by (simp add: linked_references_ok_def l)
  have "map rsp_id rs = map rsp_id (con_responsibilities ?c)" by (rule map_r_same [OF r(2)]) (rule linkResponsibility_ok(2))
  moreover have "map opn_id os = map opn_id (con_operations ?c)" by (rule map_r_same [OF r(3)]) (rule linkOperation_ok(2))
  moreover have "map pol_id ps = map pol_id (con_policies ?c)" by (rule map_r_same [OF r(4)]) (use linkPolicy_ok in blast)
  moreover have "map scn_id sc = map scn_id (con_scenarios ?c)" by (rule map_r_same [OF r(5)]) (rule linkScenario_ok(2))
  ultimately have "symbols (lc_contract l) k = symbols ?c k" for k by (cases k) (simp_all add: l)
  then show "symbols (lc_contract l) = symbols ?c" by blast
  show "con_namespace (lc_contract l) = con_namespace ?c" "con_id (lc_contract l) = con_id ?c" "con_entities (lc_contract l) = con_entities ?c"
    "lc_blockId l = lc_blockId owner" "lc_contractPath l = lc_contractPath owner" by (simp_all add: l)
qed

section \<open>The workspace\<close>

definition registry_ok :: "contract_registry \<Rightarrow> bool" where
  "registry_ok maps \<longleftrightarrow> distinct (map fst (fst maps)) \<and> (\<forall>(n, l) \<in> set (fst maps). n = con_namespace (lc_contract l)) \<and>
     snd ` set (snd maps) \<subseteq> snd ` set (fst maps)"

lemma register_contract_ok:
  assumes "register_contract l maps = Inr maps'" "registry_ok maps"
  shows "registry_ok maps'" "snd ` set (fst maps') \<subseteq> insert l (snd ` set (fst maps))"
proof -
  consider (old) "maps' = maps" | (new) "map_get (fst maps) (con_namespace (lc_contract l)) = None"
      "maps' = (map_set (con_namespace (lc_contract l)) l (fst maps), map_set (contractIdentity l) l (snd maps))"
    using assms(1) by (auto simp: register_contract_def Let_def throw_def split: option.splits if_splits)
  then have "registry_ok maps' \<and> snd ` set (fst maps') \<subseteq> insert l (snd ` set (fst maps))"
  proof cases
    case new
    have "con_namespace (lc_contract l) \<notin> fst ` set (fst maps)" using new(1) map_get_None_iff by metis
    then have f: "fst maps' = fst maps @ [(con_namespace (lc_contract l), l)]" using new(2) by (simp add: map_set_new)
    have "set (snd maps') \<subseteq> insert (contractIdentity l, l) (set (snd maps))" using new(2) set_map_set by simp
    then have v: "snd ` set (snd maps') \<subseteq> insert l (snd ` set (snd maps))" by auto
    have e: "snd ` set (fst maps') = insert l (snd ` set (fst maps))" by (simp add: f)
    have "distinct (map fst (fst maps'))" "\<forall>(n, l) \<in> set (fst maps'). n = con_namespace (lc_contract l)"
      using assms(2) f \<open>con_namespace (lc_contract l) \<notin> fst ` set (fst maps)\<close> by (auto simp: registry_ok_def)
    moreover have "snd ` set (snd maps') \<subseteq> snd ` set (fst maps')" using v assms(2) unfolding registry_ok_def e by (meson insert_mono order_trans)
    ultimately show ?thesis unfolding registry_ok_def e by simp
  qed (use assms(2) in auto)
  then show "registry_ok maps'" "snd ` set (fst maps') \<subseteq> insert l (snd ` set (fst maps))" by blast+
qed

lemma register_contracts_ok:
  "fold_r register_contract ls maps = Inr maps' \<Longrightarrow> registry_ok maps \<Longrightarrow>
     registry_ok maps' \<and> snd ` set (fst maps') \<subseteq> set ls \<union> snd ` set (fst maps)"
proof (induction ls arbitrary: maps)
  case (Cons l ls)
  then obtain maps1 where m: "register_contract l maps = Inr maps1" "fold_r register_contract ls maps1 = Inr maps'" by auto
  note s = register_contract_ok [OF m(1) Cons.prems(2)]
  show ?case using Cons.IH [OF m(2) s(1)] s(2) unfolding list.set by blast
qed simp

lemma importedRegistry_values:
  assumes "importedRegistry owner byIdentity = Inr imports"
  shows "snd ` set imports \<subseteq> snd ` set byIdentity"
proof -
  have "snd ` set m' \<subseteq> snd ` set byIdentity"
    if "fold_r (import_entry owner byIdentity) es m = Inr m'" "snd ` set m \<subseteq> snd ` set byIdentity" for es m m'
    using that
  proof (induction es arbitrary: m)
    case (Cons e es)
    then obtain m1 where m1: "import_entry owner byIdentity e m = Inr m1" "fold_r (import_entry owner byIdentity) es m1 = Inr m'" by auto
    then obtain t where t: "map_get byIdentity (imp_namespace e @ CHR 0x00 # imp_contractId e) = Some t" "m1 = map_set (imp_alias e) t m"
      by (auto simp: import_entry_def throw_def split: option.splits)
    have "t \<in> snd ` set byIdentity" using map_get_Some_in [OF t(1)] by force
    then have "snd ` set m1 \<subseteq> snd ` set byIdentity" using Cons.prems(2) set_map_set [of "imp_alias e" t m] t(2) by force
    then show ?case using Cons.IH [OF m1(2)] by blast
  qed simp
  from this [of _ "[]"] show ?thesis using assms by (simp add: importedRegistry_def)
qed

lemma map_r_targets:
  assumes "map_r f xs = Inr ys" "x \<in> set xs"
  obtains y where "y \<in> set ys" "f x = Inr y"
  using assms by (auto simp: map_r_Inr_iff in_set_conv_nth)

lemma linked_references_transfer:
  assumes "linked_references_ok ls policies c" "\<And>k v. linked_symbol ls k v \<Longrightarrow> linked_symbol ls' k v"
    "\<And>v. linked_target ls v \<Longrightarrow> linked_target ls' v"
  shows "linked_references_ok ls' policies c"
proof -
  have "linked_state_ok ls' s" if "linked_state_ok ls s" for s using that assms(2,3) by (simp add: linked_state_ok_def)
  moreover have "linked_responsibility_ok ls' r" if "linked_responsibility_ok ls r" for r
    using that assms(2,3) unfolding linked_responsibility_ok_def by blast
  moreover have "linked_operation_ok ls' p" if "linked_operation_ok ls p" for p
    using that assms(2,3) unfolding linked_operation_ok_def by blast
  moreover have "linked_scenario_ok ls' s" if "linked_scenario_ok ls s" for s using that assms(2) by (simp add: linked_scenario_ok_def)
  ultimately show ?thesis using assms(1) unfolding linked_references_ok_def by blast
qed

text \<open>A linked contract declares what the given one declares.\<close>

definition same_declarations :: "loaded_contract \<Rightarrow> loaded_contract \<Rightarrow> bool" where
  "same_declarations l w \<longleftrightarrow> lc_blockId l = lc_blockId w \<and> con_namespace (lc_contract l) = con_namespace (lc_contract w) \<and>
     symbols (lc_contract l) = symbols (lc_contract w) \<and> con_entities (lc_contract l) = con_entities (lc_contract w)"

lemma linked_contract:
  assumes "bind_r (importedRegistry w byId) (\<lambda>al. linkContract w al ids) = Inr l" "snd ` set byId \<subseteq> R" "w \<in> R"
    "assertSemanticContractIdentityComponents (lc_contract w) = Inr ()"
  shows "same_declarations l w \<and> linked_references_ok R (set ids) (lc_contract l)"
proof -
  obtain al where al: "importedRegistry w byId = Inr al" "linkContract w al ids = Inr l" using assms(1) by (auto simp: bind_r_Inr_iff)
  note c = linkContract_ok [OF al(2) assms(4)]
  have in_R: "reachable_contracts w al \<subseteq> R" using assms(2,3) importedRegistry_values [OF al(1)] by (simp add: reachable_contracts_def)
  have "linked_references_ok R (set ids) (lc_contract l)"
    by (rule linked_references_transfer [OF c(1)]) (use linked_symbol_mono [OF _ in_R] linked_target_mono [OF _ in_R] in blast)+
  then show ?thesis using c(2,4,5,6) by (simp add: same_declarations_def)
qed

lemma linked_workspace:
  assumes "linkWorkspaceSemanticContracts ls ids = Inr linked"
  obtains R where "R \<subseteq> set ls" "distinct (map (\<lambda>l. con_namespace (lc_contract l)) linked)" "\<forall>w \<in> R. \<exists>l \<in> set linked. same_declarations l w"
    "\<forall>l \<in> set linked. \<exists>w \<in> R. same_declarations l w \<and> linked_references_ok R (set ids) (lc_contract l)"
proof -
  obtain byNs byId where checks: "\<forall>l \<in> set ls. assertSemanticContractIdentityComponents (lc_contract l) = Inr ()"
    and reg: "fold_r register_contract (sort_key contractOrderKey ls) ([], []) = Inr (byNs, byId)"
    and m: "map_r (\<lambda>owner. bind_r (importedRegistry owner byId) (\<lambda>al. linkContract owner al ids))
       (sort_key contractOrderKey (map snd byNs)) = Inr linked"
    using assms by (auto simp: linkWorkspaceSemanticContracts_def check_all_Inr_iff bind_r_Inr_iff)
  have "registry_ok ([], [])" by (simp add: registry_ok_def)
  note r = register_contracts_ok [OF reg this]
  let ?R = "snd ` set byNs" and ?owners = "sort_key contractOrderKey (map snd byNs)" and ?ns = "\<lambda>l. con_namespace (lc_contract l)"
  have sub: "?R \<subseteq> set ls" "snd ` set byId \<subseteq> ?R" using r by (auto simp: registry_ok_def)
  have each: "same_declarations l w \<and> linked_references_ok ?R (set ids) (lc_contract l)"
    if "w \<in> set ?owners" "bind_r (importedRegistry w byId) (\<lambda>al. linkContract w al ids) = Inr l" for w l
    using that(1) checks sub(1) by (intro linked_contract [OF that(2) sub(2)]) auto
  have A: "\<exists>l \<in> set linked. same_declarations l w" if "w \<in> ?R" for w
  proof -
    have w: "w \<in> set ?owners" using that by auto
    then obtain l where l: "l \<in> set linked" "bind_r (importedRegistry w byId) (\<lambda>al. linkContract w al ids) = Inr l"
      by (rule map_r_targets [OF m])
    show ?thesis using each [OF w l(2)] l(1) by blast
  qed
  have B: "\<exists>w \<in> ?R. same_declarations l w \<and> linked_references_ok ?R (set ids) (lc_contract l)" if "l \<in> set linked" for l
  proof -
    from map_r_InrD [OF m that] obtain w where w: "w \<in> set ?owners"
      and l: "bind_r (importedRegistry w byId) (\<lambda>al. linkContract w al ids) = Inr l" by (rule bexE)
    have "w \<in> ?R" using w by auto
    then show ?thesis using each [OF w l] by blast
  qed
  have C: "distinct (map ?ns linked)"
  proof -
    have "?ns l = ?ns w" if "w \<in> set ?owners" "bind_r (importedRegistry w byId) (\<lambda>al. linkContract w al ids) = Inr l" for w l
      using each [OF that] by (simp add: same_declarations_def)
    then have "map ?ns linked = map ?ns ?owners" by (rule map_r_same [OF m])
    moreover have "map ?ns (map snd byNs) = map fst byNs" using r by (auto simp: registry_ok_def)
    then have "distinct (map ?ns (map snd byNs))" using r by (simp only: registry_ok_def fst_conv)
    ultimately show ?thesis by (metis mset_eq_imp_distinct_iff mset_map mset_sort)
  qed
  show ?thesis by (rule that [OF sub(1) C]) (intro ballI, erule A B)+
qed

text \<open>
  C40. Linking a workspace: when \<open>linkWorkspaceSemanticContracts\<close> returns, the linked contracts have distinct namespaces, each comes from a
  given contract with the same declarations, and every reference of every linked contract - of states, responsibilities and their bindings,
  operations, policies and scenarios - is the namespace and id of a declaration of the right kind in one of the linked contracts (for a
  policy: a given verification policy id).
\<close>

theorem linked_references_resolve:
  assumes "linkWorkspaceSemanticContracts ls ids = Inr linked"
  shows "distinct (map (\<lambda>l. con_namespace (lc_contract l)) linked) \<and> (\<forall>l \<in> set linked. \<exists>w \<in> set ls. same_declarations l w) \<and>
    (\<forall>l \<in> set linked. linked_references_ok (set linked) (set ids) (lc_contract l))"
proof -
  obtain R where R: "R \<subseteq> set ls" "distinct (map (\<lambda>l. con_namespace (lc_contract l)) linked)" "\<forall>w \<in> R. \<exists>l \<in> set linked. same_declarations l w"
    "\<forall>l \<in> set linked. \<exists>w \<in> R. same_declarations l w \<and> linked_references_ok R (set ids) (lc_contract l)"
    by (rule linked_workspace [OF assms])
  have name: "linked_name l i = linked_name w i" if "same_declarations l w" for l w i
    using that by (simp add: same_declarations_def linked_name_def)
  have sym: "linked_symbol (set linked) k v" if "linked_symbol R k v" for k v
    using that R(3) name unfolding linked_symbol_def same_declarations_def by metis
  have decl: "target_declared (lc_contract l) e f = target_declared (lc_contract w) e f" if "same_declarations l w" for l w e f
    using that by (simp add: same_declarations_def target_declared_def entity_of_def)
  have tgt: "linked_target (set linked) v" if "linked_target R v" for v
    using that R(3) name decl unfolding linked_target_def by metis
  have "linked_references_ok (set linked) (set ids) (lc_contract l)" if "l \<in> set linked" for l
    using that R(4) linked_references_transfer [OF _ sym tgt] by blast
  then show ?thesis using R(1,2,4) by blast
qed

definition empty_contract :: "string \<Rightarrow> string \<Rightarrow> semantic_contract" where
  "empty_contract i namespace = \<lparr>con_id = i, con_namespace = namespace, con_imports = None, con_entities = [], con_states = [],
     con_responsibilities = [], con_operations = [], con_events = [], con_policies = [], con_permissions = [], con_effects = [],
     con_scenarios = []\<rparr>"

text \<open>Two contracts, the second of which implements an operation and uses one of the first by an alias.\<close>

definition sample_operation :: "string \<Rightarrow> string list \<Rightarrow> contract_operation" where
  "sample_operation i called = \<lparr>opn_id = i, opn_label = None, opn_responsibility = ''r'', opn_inputs = [], opn_output = None, opn_reads = [],
     opn_writes = [], opn_mutates = [], opn_requiresPolicies = [], opn_requiresPermissions = [], opn_performsEffects = [], opn_emits = [],
     opn_invokes = called, opn_awaits = []\<rparr>"

definition sample_responsibility :: "string list \<Rightarrow> contract_responsibility" where
  "sample_responsibility ops = \<lparr>rsp_id = ''r'', rsp_label = None, rsp_role = None, rsp_bindings = None, rsp_owns = [], rsp_implements = ops,
     rsp_dependsOn = []\<rparr>"

definition sample_workspace :: "loaded_contract list" where
  "sample_workspace = [
     \<lparr>lc_blockId = ''shop'', lc_contractPath = ''shop.yaml'', lc_contract = (empty_contract ''c'' ''shop'')\<lparr>
        con_imports := Some [\<lparr>imp_alias = ''a'', imp_namespace = ''auth'', imp_contractId = ''c''\<rparr>],
        con_responsibilities := [sample_responsibility [''buy'']], con_operations := [sample_operation ''buy'' [''a::login'']]\<rparr>\<rparr>,
     \<lparr>lc_blockId = ''auth'', lc_contractPath = ''auth.yaml'', lc_contract = (empty_contract ''c'' ''auth'')\<lparr>
        con_responsibilities := [sample_responsibility [''login'']], con_operations := [sample_operation ''login'' []]\<rparr>\<rparr>]"

theorem linked_references_resolve_witness:
  "\<exists>linked. linkWorkspaceSemanticContracts sample_workspace [] = Inr linked \<and>
     (\<forall>l \<in> set linked. linked_references_ok (set linked) {} (lc_contract l))"
proof -
  have "is_ok (linkWorkspaceSemanticContracts sample_workspace [])" by code_simp
  then obtain linked where r: "linkWorkspaceSemanticContracts sample_workspace [] = Inr linked" by (auto simp: is_ok_iff)
  from linked_references_resolve [OF r] show ?thesis using r by simp
qed

end
