(* ===== verification/ScenarioFacts.thy ===== *)
theory ScenarioFacts
  imports ContractLink
begin

text \<open>
  Scenario definitions derived from entities and facts, \<^verbatim>\<open>src/src/compiler/ir/scenario-facts.ts\<close>. The map from facts to the order of
  relations is keyed by the fact itself.
\<close>

section \<open>The index\<close>

definition entityObjectId :: "semantic_fact \<Rightarrow> string option" where
  "entityObjectId f = (case fact_object f of EntityRef i \<Rightarrow> Some i | ValueObj _ \<Rightarrow> None)"

definition singleFact :: "semantic_fact list \<Rightarrow> string \<Rightarrow> semantic_fact result" where
  "singleFact fs description = (case fs of [f] \<Rightarrow> Inr f | _ \<Rightarrow> throw (CodedFailure ''IR-SCENARIO-001'' [description]))"

definition retryMaxAttempts :: "semantic_value \<Rightarrow> string \<Rightarrow> js_number result" where
  "retryMaxAttempts v stepId = (case v of
       SObject [(k, SNumber n)] \<Rightarrow>
         if k \<noteq> ''maxAttempts'' \<or> \<not> is_integer_number n \<or> number_less n (Decimal 1 0) then throw (CodedFailure ''IR-SCENARIO-002'' [stepId])
         else Inr n
     | _ \<Rightarrow> throw (CodedFailure ''IR-SCENARIO-002'' [stepId]))"

record scenario_index =
  si_entityById :: "(string, semantic_entity) jsmap"
  si_outgoing :: "(string, semantic_fact list) jsmap"
  si_incoming :: "(string, semantic_fact list) jsmap"
  si_order :: "(semantic_fact, nat) jsmap"

definition is_relation :: "semantic_fact \<Rightarrow> bool" where
  "is_relation f \<longleftrightarrow> fact_predicate f = PRECEDES \<or> fact_predicate f = HANDLES"

definition index_scenario_fact :: "semantic_fact \<Rightarrow> scenario_index \<Rightarrow> scenario_index" where
  "index_scenario_fact f ix = (let ix = ix\<lparr>si_outgoing := map_push (fact_subject f) f (si_outgoing ix)\<rparr> in
     if \<not> is_relation f then ix
     else let ix = (if map_has (si_order ix) f then ix else ix\<lparr>si_order := map_set f (length (si_order ix)) (si_order ix)\<rparr>) in
       case entityObjectId f of None \<Rightarrow> ix | Some i \<Rightarrow> ix\<lparr>si_incoming := map_push i f (si_incoming ix)\<rparr>)"

definition scenario_index_of :: "semantic_entity list \<Rightarrow> semantic_fact list \<Rightarrow> scenario_index" where
  "scenario_index_of es fs = fold index_scenario_fact fs
     \<lparr>si_entityById = map_from (map (\<lambda>e. (ent_id e, e)) es), si_outgoing = [], si_incoming = [], si_order = []\<rparr>"

definition facts_at :: "(string, semantic_fact list) jsmap \<Rightarrow> string \<Rightarrow> semantic_fact list" where
  "facts_at m i = (case map_get m i of None \<Rightarrow> [] | Some fs \<Rightarrow> fs)"

definition kind_at :: "scenario_index \<Rightarrow> string \<Rightarrow> semantic_entity_kind option" where
  "kind_at ix i = map_option ent_kind (map_get (si_entityById ix) i)"

section \<open>Steps\<close>

definition entity_facts :: "semantic_predicate \<Rightarrow> semantic_fact list \<Rightarrow> semantic_fact list" where
  "entity_facts p fs = filter (\<lambda>f. fact_predicate f = p \<and> entityObjectId f \<noteq> None) fs"

definition derive_step :: "scenario_index \<Rightarrow> semantic_entity \<Rightarrow> scenario_step_definition result" where
  "derive_step ix e = (let stepFacts = facts_at (si_outgoing ix) (ent_id e) in
     bind_r (singleFact (entity_facts INVOKES stepFacts) (ent_id e)) (\<lambda>invokeFact. let operationEntityId = the (entityObjectId invokeFact) in
     bind_r (throw_if (kind_at ix operationEntityId \<noteq> Some OperationKind) (CodedFailure ''IR-SCENARIO-003'' [ent_id e])) (\<lambda>_.
     let awaitFacts = filter (\<lambda>f. fact_predicate f = AWAITS) stepFacts in
     bind_r (throw_if (length awaitFacts > 1 \<or> (awaitFacts \<noteq> [] \<and> entityObjectId (hd awaitFacts) \<noteq> Some operationEntityId))
         (CodedFailure ''IR-SCENARIO-005'' [ent_id e])) (\<lambda>_.
     let retryFacts = filter (\<lambda>f. fact_predicate f = RETRIES) stepFacts in
     bind_r (throw_if (length retryFacts > 1 \<or> (retryFacts \<noteq> [] \<and> entityObjectId (hd retryFacts) \<noteq> None))
         (CodedFailure ''IR-SCENARIO-002'' [ent_id e])) (\<lambda>_.
     let arriving = facts_at (si_incoming ix) (ent_id e);
         afterStepIds = sort (map fact_subject (filter (\<lambda>f. fact_predicate f = PRECEDES) arriving));
         handlerFacts = filter (\<lambda>f. fact_predicate f = HANDLES) arriving in
     bind_r (throw_if (length handlerFacts > 1) (CodedFailure ''IR-SCENARIO-006'' [ent_id e])) (\<lambda>_.
     bind_r (case retryFacts of [] \<Rightarrow> Inr None
         | f # _ \<Rightarrow> bind_r (retryMaxAttempts (case fact_object f of ValueObj v \<Rightarrow> v | EntityRef _ \<Rightarrow> SNull) (ent_id e)) (\<lambda>n. Inr (Some n))) (\<lambda>retry.
     Inr \<lparr>step_id = ent_id e, step_operationEntityId = operationEntityId, step_afterStepIds = afterStepIds,
       step_awaits = (length awaitFacts = 1), step_retryMaxAttempts = retry,
       step_onErrorStepId = (case handlerFacts of [] \<Rightarrow> None | f # _ \<Rightarrow> Some (fact_subject f))\<rparr>)))))))"

section \<open>Scenarios\<close>

definition crosses :: "string list \<Rightarrow> semantic_fact \<Rightarrow> bool" where
  "crosses stepIds f \<longleftrightarrow> is_relation f \<and> (fact_subject f \<notin> set stepIds \<or>
     (case entityObjectId f of None \<Rightarrow> True | Some i \<Rightarrow> i \<notin> set stepIds))"

definition earlier_crossing :: "scenario_index \<Rightarrow> string list \<Rightarrow> semantic_fact \<Rightarrow> semantic_fact option \<Rightarrow> semantic_fact option" where
  "earlier_crossing ix stepIds f crossing = (
     if crosses stepIds f \<and> (case crossing of None \<Rightarrow> True
         | Some g \<Rightarrow> the (map_get (si_order ix) f) < the (map_get (si_order ix) g)) then Some f else crossing)"

definition crossing_fact :: "scenario_index \<Rightarrow> string list \<Rightarrow> semantic_fact option" where
  "crossing_fact ix stepIds = fold (\<lambda>i crossing. fold (earlier_crossing ix stepIds) (facts_at (si_incoming ix) i)
     (fold (earlier_crossing ix stepIds) (facts_at (si_outgoing ix) i) crossing)) stepIds None"

definition step_entities :: "scenario_index \<Rightarrow> semantic_fact list \<Rightarrow> semantic_entity list" where
  "step_entities ix fs = sort_key ent_id (filter (\<lambda>e. ent_kind e = ScenarioStepKind)
     (List.map_filter (\<lambda>f. map_get (si_entityById ix) (the (entityObjectId f))) (entity_facts CONTAINS fs)))"

definition derive_scenario :: "scenario_index \<Rightarrow> semantic_entity \<Rightarrow> scenario_definition result" where
  "derive_scenario ix e = (let scenarioFacts = facts_at (si_outgoing ix) (ent_id e) in
     bind_r (singleFact (entity_facts INVOKES scenarioFacts) (ent_id e)) (\<lambda>entryFact. let entryEntityId = the (entityObjectId entryFact) in
     bind_r (throw_if (kind_at ix entryEntityId \<noteq> Some OperationKind) (CodedFailure ''IR-SCENARIO-003'' [ent_id e])) (\<lambda>_.
     let stepEntities = step_entities ix scenarioFacts; stepIds = dedup (map ent_id stepEntities) in
     bind_r (case crossing_fact ix stepIds of None \<Rightarrow> Inr () | Some f \<Rightarrow> throw (CodedFailure ''IR-SCENARIO-004'' [fact_id f])) (\<lambda>_.
     bind_r (map_r (derive_step ix) stepEntities) (\<lambda>steps.
     Inr \<lparr>scen_id = ent_id e, scen_label = ent_label e, scen_entryEntityId = entryEntityId,
       scen_factIds = sort (concat (map (\<lambda>i. map fact_id (facts_at (si_outgoing ix) i)) (dedup (ent_id e # stepIds)))),
       scen_steps = steps,
       scen_acceptanceEntityIds = sort (map (\<lambda>f. the (entityObjectId f)) (entity_facts VERIFIED_BY scenarioFacts))\<rparr>)))))"

definition deriveScenarioDefinitions :: "semantic_entity list \<Rightarrow> semantic_fact list \<Rightarrow> scenario_definition list result" where
  "deriveScenarioDefinitions es fs = (let ss = filter (\<lambda>e. ent_kind e = ScenarioKind) es in
     if ss = [] then Inr []
     else bind_r (map_r (derive_scenario (scenario_index_of es fs)) ss) (\<lambda>definitions. Inr (sort_key scen_id definitions)))"

section \<open>Validity revisions do not matter\<close>

text \<open>Two indices of facts that differ by a function \<open>g\<close> that keeps ids and triples and is injective on the facts.\<close>

definition same_triple :: "(semantic_fact \<Rightarrow> semantic_fact) \<Rightarrow> bool" where
  "same_triple g \<longleftrightarrow> (\<forall>f. fact_id (g f) = fact_id f \<and> fact_subject (g f) = fact_subject f \<and> fact_predicate (g f) = fact_predicate f \<and>
     fact_object (g f) = fact_object f)"

definition index_image :: "(semantic_fact \<Rightarrow> semantic_fact) \<Rightarrow> scenario_index \<Rightarrow> scenario_index" where
  "index_image g ix = ix\<lparr>si_outgoing := map (\<lambda>(k, fs). (k, map g fs)) (si_outgoing ix), si_incoming := map (\<lambda>(k, fs). (k, map g fs)) (si_incoming ix),
     si_order := map (\<lambda>(f, n). (g f, n)) (si_order ix)\<rparr>"

lemma map_get_values: "map_get (map (\<lambda>(k, v). (k, h v)) m) i = map_option h (map_get m i)"
  by (induction m) (auto simp: map_get_def)

lemma map_set_values: "map (\<lambda>(k, v). (k, h v)) (map_set i v m) = map_set i (h v) (map (\<lambda>(k, v). (k, h v)) m)"
  unfolding map_set_def by (induction m) auto

lemma map_push_values: "map (\<lambda>(k, fs). (k, map g fs)) (map_push i f m) = map_push i (g f) (map (\<lambda>(k, fs). (k, map g fs)) m)"
  by (cases "map_get m i") (simp_all add: map_push_def map_get_values map_set_values)

lemma map_get_keys: "inj_on g (insert f (fst ` set m)) \<Longrightarrow> map_get (map (\<lambda>(f, n). (g f, n)) m) (g f) = map_get m f"
  by (induction m) (auto simp: map_get_def inj_on_def)

lemma map_set_keys: "inj_on g (insert f (fst ` set m)) \<Longrightarrow> map (\<lambda>(f, n). (g f, n)) (map_set f n m) = map_set (g f) n (map (\<lambda>(f, n). (g f, n)) m)"
  unfolding map_set_def by (induction m) (auto simp: inj_on_def)


definition lists_within :: "semantic_fact set \<Rightarrow> (string, semantic_fact list) jsmap \<Rightarrow> bool" where
  "lists_within S m \<longleftrightarrow> (\<forall>(k, fs) \<in> set m. set fs \<subseteq> S)"

definition index_within :: "semantic_fact set \<Rightarrow> scenario_index \<Rightarrow> bool" where
  "index_within S ix \<longleftrightarrow> lists_within S (si_outgoing ix) \<and> lists_within S (si_incoming ix) \<and>
     fst ` set (si_order ix) \<subseteq> S"

lemma map_push_within:
  assumes "lists_within S m" "f \<in> S"
  shows "lists_within S (map_push i f m)"
proof -
  define gs where "gs = (case map_get m i of None \<Rightarrow> [f] | Some gs \<Rightarrow> gs @ [f])"
  have "set gs \<subseteq> S"
  proof (cases "map_get m i")
    case (Some hs)
    then show ?thesis using assms map_get_Some_in [OF Some] by (auto simp: gs_def lists_within_def)
  qed (simp add: gs_def assms(2))
  then have all: "\<forall>(k, fs) \<in> insert (i, gs) (set m). set fs \<subseteq> S" using assms(1) by (simp add: lists_within_def)
  have "map_push i f m = map_set i gs m" by (simp add: map_push_def gs_def split: option.split)
  then have "x \<in> insert (i, gs) (set m)" if "x \<in> set (map_push i f m)" for x using set_map_set that by fastforce
  then show ?thesis unfolding lists_within_def by (intro ballI bspec [OF all])
qed

lemma map_has_image: "inj_on g (insert f (fst ` set m)) \<Longrightarrow> map_has (map (\<lambda>(f, n). (g f, n)) m) (g f) = map_has m f"
  using map_get_keys [of g f m] by (simp add: map_has_def map_get_def)

lemma index_fact_within:
  assumes "index_within S ix" "f \<in> S"
  shows "index_within S (index_scenario_fact f ix)"
proof -
  have "fst ` set (map_set f n (si_order ix)) \<subseteq> S" for n
    using assms set_map_set [of f n "si_order ix"] by (auto simp: index_within_def)
  then show ?thesis using assms by (simp add: index_within_def index_scenario_fact_def Let_def map_push_within split: option.split)
qed

lemma index_fact_image:
  assumes "same_triple g" "inj_on g S" "index_within S ix" "f \<in> S"
  shows "index_scenario_fact (g f) (index_image g ix) = index_image g (index_scenario_fact f ix)"
proof -
  have "insert f (fst ` set (si_order ix)) \<subseteq> S" using assms(3,4) by (simp add: index_within_def)
  then have i: "inj_on g (insert f (fst ` set (si_order ix)))" by (rule inj_on_subset [OF assms(2)])
  have t: "fact_subject (g f) = fact_subject f" "is_relation (g f) = is_relation f" "entityObjectId (g f) = entityObjectId f"
    using assms(1) by (simp_all add: same_triple_def is_relation_def entityObjectId_def)
  show ?thesis
    by (simp add: index_scenario_fact_def t index_image_def map_push_values map_has_image [OF i] map_set_keys [OF i] Let_def split: option.split)
qed

lemma fold_index_image:
  assumes "same_triple g" "inj_on g S" "index_within S ix" "set fs \<subseteq> S"
  shows "fold index_scenario_fact (map g fs) (index_image g ix) = index_image g (fold index_scenario_fact fs ix) \<and>
    index_within S (fold index_scenario_fact fs ix)"
  using assms(3,4)
proof (induction fs arbitrary: ix)
  case (Cons f fs)
  then show ?case using index_fact_image [OF assms(1,2), of ix f] index_fact_within [of S ix f] by simp
qed simp

lemma facts_at_image:
  "facts_at (si_outgoing (index_image g ix)) i = map g (facts_at (si_outgoing ix) i)"
  "facts_at (si_incoming (index_image g ix)) i = map g (facts_at (si_incoming ix) i)"
  by (simp_all add: facts_at_def index_image_def map_get_values split: option.split)

lemma kind_at_image: "kind_at (index_image g ix) i = kind_at ix i" "si_entityById (index_image g ix) = si_entityById ix"
  by (simp_all add: kind_at_def index_image_def)

lemma facts_at_within:
  assumes "index_within S ix"
  shows "set (facts_at (si_outgoing ix) i) \<subseteq> S" "set (facts_at (si_incoming ix) i) \<subseteq> S"
proof -
  have "set (facts_at m i) \<subseteq> S" if "lists_within S m" for m
    using that map_get_Some_in [of m i] by (cases "map_get m i") (auto simp: facts_at_def lists_within_def)
  then show "set (facts_at (si_outgoing ix) i) \<subseteq> S" "set (facts_at (si_incoming ix) i) \<subseteq> S"
    using assms by (simp_all add: index_within_def)
qed

lemma same_tripleD:
  assumes "same_triple g"
  shows "fact_id (g f) = fact_id f" "fact_subject (g f) = fact_subject f" "fact_predicate (g f) = fact_predicate f"
    "fact_object (g f) = fact_object f" "entityObjectId (g f) = entityObjectId f" "is_relation (g f) = is_relation f"
    "crosses ids (g f) = crosses ids f"
  using assms by (simp_all add: same_triple_def entityObjectId_def is_relation_def crosses_def)

lemma singleFact_image: "singleFact (map g fs) d = bind_r (singleFact fs d) (\<lambda>f. Inr (g f))"
  by (cases fs rule: remdups_adj.cases) (simp_all add: singleFact_def throw_def)

lemma filter_image: "same_triple g \<Longrightarrow> filter (\<lambda>f. fact_predicate f = p) (map g fs) = map g (filter (\<lambda>f. fact_predicate f = p) fs)"
  "same_triple g \<Longrightarrow> entity_facts p (map g fs) = map g (entity_facts p fs)"
  by (simp_all add: filter_map comp_def entity_facts_def same_tripleD)

lemma case_image: "(case map g fs of [] \<Rightarrow> x | f # r \<Rightarrow> h f) = (case fs of [] \<Rightarrow> x | f # r \<Rightarrow> h (g f))"
  by (cases fs) simp_all

lemma derive_step_image:
  assumes "same_triple g"
  shows "derive_step (index_image g ix) e = derive_step ix e"
proof -
  note s = same_tripleD [OF assms]
  have c: "map fact_subject (map g fs) = map fact_subject fs" for fs by (simp add: s)
  show ?thesis
    unfolding derive_step_def facts_at_image kind_at_image filter_image [OF assms] singleFact_image Let_def length_map c case_image
    by (simp add: bind_r_assoc s hd_map cong: conj_cong list.case_cong)
qed


lemma earlier_crossing_image:
  assumes "same_triple g" "inj_on g S" "index_within S ix" "f \<in> S" "\<forall>c \<in> set_option crossing. c \<in> S"
  shows "earlier_crossing (index_image g ix) ids (g f) (map_option g crossing) = map_option g (earlier_crossing ix ids f crossing)"
proof -
  have order: "map_get (si_order (index_image g ix)) (g c) = map_get (si_order ix) c" if "c \<in> S" for c
  proof -
    have "insert c (fst ` set (si_order ix)) \<subseteq> S" using assms(3) that by (simp add: index_within_def)
    then have "inj_on g (insert c (fst ` set (si_order ix)))" by (rule inj_on_subset [OF assms(2)])
    then show ?thesis by (simp add: index_image_def map_get_keys)
  qed
  show ?thesis using assms(4,5) by (cases crossing) (simp_all add: earlier_crossing_def same_tripleD [OF assms(1)] order)
qed

lemma earlier_crossings_image:
  assumes "same_triple g" "inj_on g S" "index_within S ix" "set fs \<subseteq> S" "set_option crossing \<subseteq> S"
  shows "fold (earlier_crossing (index_image g ix) ids) (map g fs) (map_option g crossing) =
      map_option g (fold (earlier_crossing ix ids) fs crossing) \<and> set_option (fold (earlier_crossing ix ids) fs crossing) \<subseteq> S"
  using assms(4,5)
proof (induction fs arbitrary: crossing)
  case (Cons f fs)
  have "set_option (earlier_crossing ix ids f crossing) \<subseteq> S" using Cons.prems by (auto simp: earlier_crossing_def)
  moreover have "earlier_crossing (index_image g ix) ids (g f) (map_option g crossing) = map_option g (earlier_crossing ix ids f crossing)"
    using earlier_crossing_image [OF assms(1-3), of f crossing ids] Cons.prems by (simp add: subset_iff)
  ultimately show ?case using Cons.IH [of "earlier_crossing ix ids f crossing"] Cons.prems by simp
qed simp

lemma crossing_fact_image:
  assumes "same_triple g" "inj_on g S" "index_within S ix"
  shows "crossing_fact (index_image g ix) ids = map_option g (crossing_fact ix ids)"
proof -
  note e = earlier_crossings_image [OF assms] and w = facts_at_within [OF assms(3)]
  have "fold (\<lambda>i crossing. fold (earlier_crossing (index_image g ix) ids) (map g (facts_at (si_incoming ix) i))
      (fold (earlier_crossing (index_image g ix) ids) (map g (facts_at (si_outgoing ix) i)) crossing)) ids2 (map_option g crossing) =
    map_option g (fold (\<lambda>i crossing. fold (earlier_crossing ix ids) (facts_at (si_incoming ix) i)
      (fold (earlier_crossing ix ids) (facts_at (si_outgoing ix) i) crossing)) ids2 crossing)" if "set_option crossing \<subseteq> S" for ids2 crossing
    using that
  proof (induction ids2 arbitrary: crossing)
    case (Cons i ids2)
    have o: "set_option (fold (earlier_crossing ix ids) (facts_at (si_outgoing ix) i) crossing) \<subseteq> S" using e [OF w(1) Cons.prems] by blast
    show ?case
      unfolding fold_simps comp_def using e [OF w(1) Cons.prems] e [OF w(2) o] Cons.IH by simp
  qed simp
  from this [of None] show ?thesis by (simp add: crossing_fact_def facts_at_image)
qed

lemma derive_scenario_image:
  assumes "same_triple g" "inj_on g S" "index_within S ix"
  shows "derive_scenario (index_image g ix) e = derive_scenario ix e"
proof -
  note s = same_tripleD [OF assms(1)]
  have st: "step_entities (index_image g ix) (map g fs) = step_entities ix fs" for fs
    by (simp add: step_entities_def filter_image [OF assms(1)] kind_at_image List.map_filter_def filter_map comp_def s)
  have d: "derive_step (index_image g ix) = derive_step ix" by (rule ext) (rule derive_step_image [OF assms(1)])
  have c: "map fact_id (map g fs) = map fact_id fs" "map (\<lambda>f. the (entityObjectId f)) (map g fs) = map (\<lambda>f. the (entityObjectId f)) fs" for fs
    by (simp_all add: s)
  have o: "(case map_option g x of None \<Rightarrow> Inr () | Some f \<Rightarrow> throw (CodedFailure k [fact_id f])) =
      (case x of None \<Rightarrow> Inr () | Some f \<Rightarrow> throw (CodedFailure k [fact_id f]))" for x k by (cases x) (simp_all add: s)
  show ?thesis
    unfolding derive_scenario_def facts_at_image kind_at_image filter_image [OF assms(1)] singleFact_image Let_def st d c
      crossing_fact_image [OF assms] o
    by (simp add: bind_r_assoc s)
qed

text \<open>Scenarios are a function of the entities and the triples: what a fact is asserted with does not matter.\<close>

lemma deriveScenarioDefinitions_image:
  assumes "same_triple g" "inj_on g (set fs)"
  shows "deriveScenarioDefinitions es (map g fs) = deriveScenarioDefinitions es fs"
proof -
  define ix where "ix = \<lparr>si_entityById = map_from (map (\<lambda>e. (ent_id e, e)) es), si_outgoing = [], si_incoming = [], si_order = []\<rparr>"
  have w: "index_within (set fs) ix" by (simp add: ix_def index_within_def lists_within_def)
  have e: "index_image g ix = ix" by (simp add: ix_def index_image_def)
  have i: "scenario_index_of es (map g fs) = index_image g (scenario_index_of es fs)" "index_within (set fs) (scenario_index_of es fs)"
    using fold_index_image [OF assms w order_refl] by (simp_all add: scenario_index_of_def ix_def [symmetric] e)
  have "derive_scenario (scenario_index_of es (map g fs)) = derive_scenario (scenario_index_of es fs)"
    unfolding i(1) by (rule ext) (rule derive_scenario_image [OF assms i(2)])
  then show ?thesis unfolding deriveScenarioDefinitions_def by (simp only:)
qed

section \<open>What is derived\<close>

lemma map_r_images: "map_r f xs = Inr ys \<Longrightarrow> (\<And>x y. f x = Inr y \<Longrightarrow> g y = h x) \<Longrightarrow> map g ys = map h xs"
  by (induction xs arbitrary: ys) auto

lemma deriveScenarioDefinitions_Inr:
  "deriveScenarioDefinitions es fs = Inr ss \<Longrightarrow>
    \<exists>ds. map_r (derive_scenario (scenario_index_of es fs)) (filter (\<lambda>e. ent_kind e = ScenarioKind) es) = Inr ds \<and> ss = sort_key scen_id ds"
  by (auto simp: deriveScenarioDefinitions_def Let_def split: if_splits)

lemma derived_scenario_ids:
  assumes "deriveScenarioDefinitions es fs = Inr ss"
  shows "mset (map scen_id ss) = mset (map ent_id (filter (\<lambda>e. ent_kind e = ScenarioKind) es))" "sorted (map scen_id ss)"
proof -
  let ?es = "filter (\<lambda>e. ent_kind e = ScenarioKind) es" and ?d = "derive_scenario (scenario_index_of es fs)"
  obtain ds where d: "map_r ?d ?es = Inr ds" "ss = sort_key scen_id ds" using deriveScenarioDefinitions_Inr [OF assms] by blast
  have "scen_id s = ent_id e" if "?d e = Inr s" for e s using that by (auto simp: derive_scenario_def Let_def)
  then have e: "map scen_id ds = map ent_id ?es" by (rule map_r_images [OF d(1)])
  have "mset (map scen_id ss) = mset (map scen_id ds)" by (simp add: d(2))
  then show "mset (map scen_id ss) = mset (map ent_id ?es)" by (simp only: e)
  show "sorted (map scen_id ss)" by (simp add: d(2))
qed

text \<open>The index holds the facts by subject, and the relations by object.\<close>

lemma map_push_facts: "facts_at (map_push i f m) j = facts_at m j @ (if i = j then [f] else [])"
  by (cases "map_get m i") (auto simp: facts_at_def map_push_def)

lemma fold_scenario_index:
  "facts_at (si_outgoing (fold index_scenario_fact fs ix)) i = facts_at (si_outgoing ix) i @ filter (\<lambda>f. fact_subject f = i) fs \<and>
   facts_at (si_incoming (fold index_scenario_fact fs ix)) i =
     facts_at (si_incoming ix) i @ filter (\<lambda>f. is_relation f \<and> fact_object f = EntityRef i) fs \<and>
   si_entityById (fold index_scenario_fact fs ix) = si_entityById ix"
proof (induction fs arbitrary: ix)
  case (Cons f fs)
  have "facts_at (si_outgoing (index_scenario_fact f ix)) i = facts_at (si_outgoing ix) i @ (if fact_subject f = i then [f] else [])"
    "facts_at (si_incoming (index_scenario_fact f ix)) i =
      facts_at (si_incoming ix) i @ (if is_relation f \<and> fact_object f = EntityRef i then [f] else [])"
    "si_entityById (index_scenario_fact f ix) = si_entityById ix"
    by (cases "fact_object f"; simp add: index_scenario_fact_def Let_def map_push_facts entityObjectId_def)+
  then show ?case using Cons.IH [of "index_scenario_fact f ix"] by simp
qed simp

lemma scenario_index_facts:
  "facts_at (si_outgoing (scenario_index_of es fs)) i = filter (\<lambda>f. fact_subject f = i) fs"
  "facts_at (si_incoming (scenario_index_of es fs)) i = filter (\<lambda>f. is_relation f \<and> fact_object f = EntityRef i) fs"
  by (simp_all add: scenario_index_of_def fold_scenario_index) (simp_all add: facts_at_def map_get_def)

lemma earlier_crossings_None:
  "fold (earlier_crossing ix ids) fs c = None \<longleftrightarrow> c = None \<and> (\<forall>f \<in> set fs. \<not> crosses ids f)"
proof (induction fs arbitrary: c)
  case (Cons f fs)
  have "earlier_crossing ix ids f c = None \<longleftrightarrow> c = None \<and> \<not> crosses ids f" by (cases c) (auto simp: earlier_crossing_def)
  then show ?case using Cons.IH by simp
qed simp

lemma crossing_fact_None:
  assumes "crossing_fact ix ids = None" "i \<in> set ids" "f \<in> set (facts_at (si_outgoing ix) i) \<union> set (facts_at (si_incoming ix) i)"
  shows "\<not> crosses ids f"
proof -
  have "fold (\<lambda>i crossing. fold (earlier_crossing ix ids) (facts_at (si_incoming ix) i)
      (fold (earlier_crossing ix ids) (facts_at (si_outgoing ix) i) crossing)) js c = None \<longleftrightarrow>
    c = None \<and> (\<forall>i \<in> set js. \<forall>f \<in> set (facts_at (si_outgoing ix) i) \<union> set (facts_at (si_incoming ix) i). \<not> crosses ids f)" for js c
    by (induction js arbitrary: c) (auto simp: earlier_crossings_None)
  then show ?thesis using assms unfolding crossing_fact_def by blast
qed

lemma singleFact_Inr: "singleFact fs d = Inr f \<longleftrightarrow> fs = [f]"
  by (cases fs rule: remdups_adj.cases) (auto simp: singleFact_def throw_def)

definition objects_of :: "semantic_fact list \<Rightarrow> string \<Rightarrow> semantic_predicate \<Rightarrow> string set" where
  "objects_of fs i p = {j. \<exists>f \<in> set fs. fact_subject f = i \<and> fact_predicate f = p \<and> fact_object f = EntityRef j}"

definition subjects_of :: "semantic_fact list \<Rightarrow> string \<Rightarrow> semantic_predicate \<Rightarrow> string set" where
  "subjects_of fs i p = {j. \<exists>f \<in> set fs. fact_subject f = j \<and> fact_predicate f = p \<and> fact_object f = EntityRef i}"

lemma entity_facts_filter: "entity_facts p fs = filter (\<lambda>f. entityObjectId f \<noteq> None) (filter (\<lambda>f. fact_predicate f = p) fs)"
  unfolding entity_facts_def filter_filter by (rule filter_cong) auto

lemma entity_facts_objects:
  "(\<lambda>f. the (entityObjectId f)) ` set (entity_facts p (filter (\<lambda>f. fact_subject f = i) fs)) = objects_of fs i p"
proof -
  have "entityObjectId f = Some j \<longleftrightarrow> fact_object f = EntityRef j" for f j by (cases "fact_object f") (auto simp: entityObjectId_def)
  then show ?thesis by (auto simp: entity_facts_def objects_of_def image_iff) (metis option.sel)+
qed

lemma derive_step_relations:
  assumes "derive_step (scenario_index_of es fs) e = Inr p"
  shows "step_id p = ent_id e" "set (step_afterStepIds p) = subjects_of fs (ent_id e) PRECEDES"
    "set_option (step_onErrorStepId p) = subjects_of fs (ent_id e) HANDLES"
    "objects_of fs (ent_id e) INVOKES = {step_operationEntityId p}"
    "kind_at (scenario_index_of es fs) (step_operationEntityId p) = Some OperationKind"
    "step_awaits p \<longleftrightarrow> objects_of fs (ent_id e) AWAITS = {step_operationEntityId p}"
proof -
  let ?ix = "scenario_index_of es fs" and ?out = "filter (\<lambda>f. fact_subject f = ent_id e) fs"
    and ?in = "filter (\<lambda>f. is_relation f \<and> fact_object f = EntityRef (ent_id e)) fs"
  let ?aw = "filter (\<lambda>f. fact_predicate f = AWAITS) ?out" and ?hs = "filter (\<lambda>f. fact_predicate f = HANDLES) ?in"
  obtain f retry where s: "entity_facts INVOKES ?out = [f]" "kind_at ?ix (the (entityObjectId f)) = Some OperationKind"
    "length ?aw \<le> 1" "?aw = [] \<or> entityObjectId (hd ?aw) = Some (the (entityObjectId f))" "length ?hs \<le> 1"
    and p: "p = \<lparr>step_id = ent_id e, step_operationEntityId = the (entityObjectId f),
      step_afterStepIds = sort (map fact_subject (filter (\<lambda>f. fact_predicate f = PRECEDES) ?in)), step_awaits = (length ?aw = 1),
      step_retryMaxAttempts = retry, step_onErrorStepId = (case ?hs of [] \<Rightarrow> None | f # _ \<Rightarrow> Some (fact_subject f))\<rparr>"
    using assms unfolding derive_step_def Let_def scenario_index_facts bind_r_Inr_iff throw_if_Inr_iff singleFact_Inr by force
  show "step_id p = ent_id e" "kind_at ?ix (step_operationEntityId p) = Some OperationKind" using s(2) by (simp_all add: p)
  show "set (step_afterStepIds p) = subjects_of fs (ent_id e) PRECEDES" by (auto simp: p subjects_of_def is_relation_def)
  have hs: "set (map fact_subject ?hs) = subjects_of fs (ent_id e) HANDLES" by (auto simp: subjects_of_def is_relation_def)
  have "set_option (case hs of [] \<Rightarrow> None | f # _ \<Rightarrow> Some (fact_subject f)) = set (map fact_subject hs)" if "length hs \<le> 1" for hs
    using that by (cases hs) auto
  from this [OF s(5)] show "set_option (step_onErrorStepId p) = subjects_of fs (ent_id e) HANDLES"
    unfolding hs p by (simp only: scenario_step_definition.simps)
  show "objects_of fs (ent_id e) INVOKES = {step_operationEntityId p}"
    using entity_facts_objects [of INVOKES "ent_id e" fs] s(1) by (simp add: p)
  show "step_awaits p \<longleftrightarrow> objects_of fs (ent_id e) AWAITS = {step_operationEntityId p}"
  proof (cases "?aw = []")
    case True
    then have "objects_of fs (ent_id e) AWAITS = {}" by (auto simp: objects_of_def filter_empty_conv)
    then show ?thesis using True by (simp add: p)
  next
    case False
    then obtain a where a: "?aw = [a]" using s(3) by (cases ?aw) auto
    then have "entityObjectId a = Some (the (entityObjectId f))" using s(4) by simp
    then have "entity_facts AWAITS ?out = [a]" unfolding entity_facts_filter a by simp
    then show ?thesis using entity_facts_objects [of AWAITS "ent_id e" fs] a s(4) by (simp add: p)
  qed
qed


text \<open>A derived scenario, read off the facts.\<close>

definition retries_of :: "semantic_fact list \<Rightarrow> string \<Rightarrow> semantic_value set" where
  "retries_of fs i = {v. \<exists>f \<in> set fs. fact_subject f = i \<and> fact_predicate f = RETRIES \<and> fact_object f = ValueObj v}"

definition retry_value :: "js_number \<Rightarrow> semantic_value" where
  "retry_value n = SObject [(''maxAttempts'', SNumber n)]"

lemma retryMaxAttempts_Inr:
  assumes "retryMaxAttempts v i = Inr n"
  shows "v = retry_value n" "is_integer_number n" "\<not> number_less n (Decimal 1 0)"
  using assms unfolding retryMaxAttempts_def retry_value_def
  by (auto simp: throw_def split: semantic_value.splits list.splits prod.splits if_splits)

lemma derive_step_retry:
  assumes "derive_step (scenario_index_of es fs) e = Inr p"
  shows "retries_of fs (ent_id e) = retry_value ` set_option (step_retryMaxAttempts p)"
    "\<forall>n \<in> set_option (step_retryMaxAttempts p). is_integer_number n \<and> \<not> number_less n (Decimal 1 0)"
    "sorted (step_afterStepIds p)"
proof -
  let ?rs = "filter (\<lambda>f. fact_predicate f = RETRIES) (filter (\<lambda>f. fact_subject f = ent_id e) fs)"
  obtain retry where s: "length ?rs \<le> 1" "?rs = [] \<or> entityObjectId (hd ?rs) = None"
      "(case ?rs of [] \<Rightarrow> Inr None
         | f # _ \<Rightarrow> bind_r (retryMaxAttempts (case fact_object f of ValueObj v \<Rightarrow> v | EntityRef _ \<Rightarrow> SNull) (ent_id e))
             (\<lambda>n. Inr (Some n))) = Inr retry"
    and p: "step_retryMaxAttempts p = retry" "sorted (step_afterStepIds p)"
    using assms unfolding derive_step_def Let_def scenario_index_facts bind_r_Inr_iff throw_if_Inr_iff
    by (clarsimp simp: not_less)
  show "sorted (step_afterStepIds p)" by (rule p(2))
  have r: "retries_of fs (ent_id e) = {v. \<exists>f \<in> set ?rs. fact_object f = ValueObj v}" by (auto simp: retries_of_def)
  have "retries_of fs (ent_id e) = retry_value ` set_option retry \<and>
      (\<forall>n \<in> set_option retry. is_integer_number n \<and> \<not> number_less n (Decimal 1 0))"
  proof (cases ?rs)
    case Nil
    then show ?thesis using s(3) unfolding r by simp
  next
    case (Cons f gs)
    then have "gs = []" using s(1) by simp
    obtain v where v: "fact_object f = ValueObj v"
      using s(2) unfolding Cons by (cases "fact_object f") (auto simp: entityObjectId_def)
    obtain n where "retryMaxAttempts v (ent_id e) = Inr n" "retry = Some n"
      using s(3) unfolding Cons v list.case semantic_fact_object.case bind_r_Inr_iff by auto
    then show ?thesis using retryMaxAttempts_Inr [of v "ent_id e" n] unfolding r Cons \<open>gs = []\<close> by (auto simp: v)
  qed
  then show "retries_of fs (ent_id e) = retry_value ` set_option (step_retryMaxAttempts p)"
    "\<forall>n \<in> set_option (step_retryMaxAttempts p). is_integer_number n \<and> \<not> number_less n (Decimal 1 0)"
    unfolding p(1) by blast+
qed

definition contained_steps :: "semantic_entity list \<Rightarrow> semantic_fact list \<Rightarrow> string \<Rightarrow> string set" where
  "contained_steps es fs i =
     {j \<in> objects_of fs i CONTAINS. \<exists>e \<in> set es. ent_id e = j \<and> ent_kind e = ScenarioStepKind}"

definition step_reads_facts :: "semantic_fact list \<Rightarrow> string set \<Rightarrow> scenario_step_definition \<Rightarrow> bool" where
  "step_reads_facts fs ids p \<longleftrightarrow> objects_of fs (step_id p) INVOKES = {step_operationEntityId p} \<and>
     set (step_afterStepIds p) = subjects_of fs (step_id p) PRECEDES \<and> sorted (step_afterStepIds p) \<and>
     retries_of fs (step_id p) = retry_value ` set_option (step_retryMaxAttempts p) \<and>
     (\<forall>n \<in> set_option (step_retryMaxAttempts p). is_integer_number n \<and> \<not> number_less n (Decimal 1 0)) \<and>
     set_option (step_onErrorStepId p) = subjects_of fs (step_id p) HANDLES \<and>
     set (step_afterStepIds p) \<union> set_option (step_onErrorStepId p) \<subseteq> ids \<and>
     objects_of fs (step_id p) PRECEDES \<union> objects_of fs (step_id p) HANDLES \<subseteq> ids \<and>
     (step_awaits p \<longleftrightarrow> objects_of fs (step_id p) AWAITS = {step_operationEntityId p})"

definition operation_in :: "semantic_entity list \<Rightarrow> string \<Rightarrow> bool" where
  "operation_in es i \<longleftrightarrow> (\<exists>e \<in> set es. ent_id e = i \<and> ent_kind e = OperationKind)"

definition scenario_reads_facts :: "semantic_entity list \<Rightarrow> semantic_fact list \<Rightarrow> scenario_definition \<Rightarrow> bool" where
  "scenario_reads_facts es fs s \<longleftrightarrow> (let ids = contained_steps es fs (scen_id s) in
     objects_of fs (scen_id s) INVOKES = {scen_entryEntityId s} \<and> operation_in es (scen_entryEntityId s) \<and>
     (\<exists>e \<in> set es. ent_id e = scen_id s \<and> ent_label e = scen_label s) \<and>
     set (map step_id (scen_steps s)) = ids \<and> sorted (map step_id (scen_steps s)) \<and>
     sorted (scen_factIds s) \<and> sorted (scen_acceptanceEntityIds s) \<and>
     set (scen_factIds s) = fact_id ` {f \<in> set fs. fact_subject f \<in> insert (scen_id s) ids} \<and>
     set (scen_acceptanceEntityIds s) = objects_of fs (scen_id s) VERIFIED_BY \<and>
     (\<forall>p \<in> set (scen_steps s). step_reads_facts fs ids p \<and> operation_in es (step_operationEntityId p)))"

lemma entity_by_id:
  assumes "distinct (map ent_id es)"
  shows "map_get (si_entityById (scenario_index_of es fs)) i = Some e \<longleftrightarrow> e \<in> set es \<and> ent_id e = i"
proof -
  let ?m = "map (\<lambda>e. (ent_id e, e)) es"
  have d: "distinct (map fst ?m)" using assms by (simp add: comp_def)
  have "si_entityById (scenario_index_of es fs) = ?m"
    unfolding scenario_index_of_def fold_scenario_index [THEN conjunct2, THEN conjunct2] using map_from_distinct [OF d] by simp
  moreover have "map_get ?m i = Some e \<longleftrightarrow> (i, e) \<in> set ?m" using d by (simp only: map_get_def map_of_eq_Some_iff)
  ultimately show ?thesis by auto
qed

lemma kind_at_operation:
  "distinct (map ent_id es) \<Longrightarrow> kind_at (scenario_index_of es fs) i = Some OperationKind \<Longrightarrow> operation_in es i"
  by (auto simp: kind_at_def entity_by_id operation_in_def)

lemma step_entities_ids:
  assumes "distinct (map ent_id es)"
  shows "ent_id ` set (step_entities (scenario_index_of es fs) (filter (\<lambda>f. fact_subject f = i) fs)) = contained_steps es fs i"
    "\<forall>e \<in> set (step_entities (scenario_index_of es fs) gs). e \<in> set es"
proof -
  let ?get = "map_get (si_entityById (scenario_index_of es fs))" and ?out = "filter (\<lambda>f. fact_subject f = i) fs"
  have e: "e \<in> set (step_entities (scenario_index_of es fs) gs) \<longleftrightarrow> ent_kind e = ScenarioStepKind \<and> e \<in> set es \<and>
      ent_id e \<in> (\<lambda>f. the (entityObjectId f)) ` set (entity_facts CONTAINS gs)" for e gs
  proof -
    have "e \<in> set (List.map_filter h xs) \<longleftrightarrow> (\<exists>x \<in> set xs. h x = Some e)" for h and xs :: "semantic_fact list"
      by (force simp: List.map_filter_def)
    then show ?thesis by (auto simp: step_entities_def entity_by_id [OF assms])
  qed
  show "\<forall>e \<in> set (step_entities (scenario_index_of es fs) gs). e \<in> set es" by (simp add: e)
  show "ent_id ` set (step_entities (scenario_index_of es fs) ?out) = contained_steps es fs i"
    unfolding contained_steps_def set_eq_iff image_iff Bex_def e entity_facts_objects by auto
qed


lemma objects_subjects: "j \<in> objects_of fs i p \<longleftrightarrow> i \<in> subjects_of fs j p"
  by (auto simp: objects_of_def subjects_of_def)

lemma no_crossing:
  assumes "crossing_fact (scenario_index_of es fs) ids = None" "i \<in> set ids" "p = PRECEDES \<or> p = HANDLES"
  shows "subjects_of fs i p \<subseteq> set ids" "objects_of fs i p \<subseteq> set ids"
proof -
  note n = crossing_fact_None [OF assms(1,2), unfolded scenario_index_facts]
  show "subjects_of fs i p \<subseteq> set ids"
  proof
    fix j assume "j \<in> subjects_of fs i p"
    then obtain f where f: "f \<in> set fs" "fact_subject f = j" "fact_predicate f = p" "fact_object f = EntityRef i"
      unfolding subjects_of_def by blast
    then have "\<not> crosses ids f" using assms(3) by (intro n) (auto simp: is_relation_def)
    then show "j \<in> set ids" using f assms(3) by (auto simp: crosses_def is_relation_def)
  qed
  show "objects_of fs i p \<subseteq> set ids"
  proof
    fix j assume "j \<in> objects_of fs i p"
    then obtain f where f: "f \<in> set fs" "fact_subject f = i" "fact_predicate f = p" "fact_object f = EntityRef j"
      unfolding objects_of_def by blast
    then have "\<not> crosses ids f" by (intro n) simp
    then show "j \<in> set ids" using f assms(3) by (auto simp: crosses_def is_relation_def entityObjectId_def)
  qed
qed

lemma derive_scenario_reads:
  assumes "distinct (map ent_id es)" "e \<in> set es" "derive_scenario (scenario_index_of es fs) e = Inr s"
  shows "scenario_reads_facts es fs s" "scen_id s = ent_id e" "scen_label s = ent_label e"
proof -
  let ?ix = "scenario_index_of es fs" and ?out = "filter (\<lambda>f. fact_subject f = ent_id e) fs"
  let ?se = "step_entities ?ix ?out" and ?c = "contained_steps es fs (ent_id e)"
  let ?ids = "dedup (map ent_id ?se)"
  obtain f steps where s: "entity_facts INVOKES ?out = [f]" "kind_at ?ix (the (entityObjectId f)) = Some OperationKind"
    "crossing_fact ?ix ?ids = None" "map_r (derive_step ?ix) ?se = Inr steps"
    and p: "s = \<lparr>scen_id = ent_id e, scen_label = ent_label e, scen_entryEntityId = the (entityObjectId f),
      scen_factIds = sort (concat (map (\<lambda>i. map fact_id (filter (\<lambda>f. fact_subject f = i) fs)) (dedup (ent_id e # ?ids)))),
      scen_steps = steps, scen_acceptanceEntityIds = sort (map (\<lambda>f. the (entityObjectId f)) (entity_facts VERIFIED_BY ?out))\<rparr>"
    using assms(3) unfolding derive_scenario_def Let_def scenario_index_facts bind_r_Inr_iff throw_if_Inr_iff singleFact_Inr
    by (auto simp: throw_def split: option.splits)
  show i: "scen_id s = ent_id e" "scen_label s = ent_label e" by (simp_all add: p)
  have ids: "set ?ids = ?c" using step_entities_ids(1) [OF assms(1), of fs "ent_id e"] by simp
  have "map step_id steps = map ent_id ?se" by (rule map_r_images [OF s(4)]) (rule derive_step_relations(1))
  then have steps: "map step_id (scen_steps s) = map ent_id ?se" by (simp add: p)
  have read: "step_reads_facts fs ?c q \<and> operation_in es (step_operationEntityId q)" if "q \<in> set (scen_steps s)" for q
  proof -
    obtain d where d: "d \<in> set ?se" "derive_step ?ix d = Inr q" using map_r_InrD [OF s(4)] \<open>q \<in> set (scen_steps s)\<close> by (auto simp: p)
    note r = derive_step_relations [OF d(2)] and q = derive_step_retry [OF d(2)]
    have "ent_id d \<in> set ?ids" using d(1) by simp
    note n = no_crossing [OF s(3) this, unfolded ids]
    have "step_reads_facts fs ?c q" unfolding step_reads_facts_def r(1) using r(2-4,6) q n by simp
    then show ?thesis using kind_at_operation [OF assms(1) r(5)] by blast
  qed
  have facts: "set (scen_factIds s) = fact_id ` {f \<in> set fs. fact_subject f \<in> insert (ent_id e) ?c}" unfolding ids [symmetric] by (auto simp: p)
  show "scenario_reads_facts es fs s"
    unfolding scenario_reads_facts_def Let_def i
  proof (intro conjI ballI)
    show "objects_of fs (ent_id e) INVOKES = {scen_entryEntityId s}"
      using entity_facts_objects [of INVOKES "ent_id e" fs] s(1) by (simp add: p)
    show "operation_in es (scen_entryEntityId s)" using kind_at_operation [OF assms(1) s(2)] by (simp add: p)
    show "\<exists>d \<in> set es. ent_id d = ent_id e \<and> ent_label d = ent_label e" using assms(2) by auto
    show "sorted (scen_factIds s)" "sorted (scen_acceptanceEntityIds s)" by (simp_all add: p)
    show "set (map step_id (scen_steps s)) = ?c" using ids by (simp only: steps) simp
    show "sorted (map step_id (scen_steps s))" by (simp only: steps) (simp add: step_entities_def)
    show "set (scen_factIds s) = fact_id ` {f \<in> set fs. fact_subject f \<in> insert (ent_id e) ?c}" by (rule facts)
    show "set (scen_acceptanceEntityIds s) = objects_of fs (ent_id e) VERIFIED_BY"
      using entity_facts_objects [of VERIFIED_BY "ent_id e" fs] by (simp add: p)
  qed (use read in blast)+
qed

text \<open>
  C12. The derived scenarios are what the facts say: on entities with distinct ids, when \<open>deriveScenarioDefinitions\<close> returns, the scenarios are the
  scenario entities in the order of their ids, and each reads off its entity and the facts: its label, the one operation it
  invokes, its acceptances, the contained steps, the facts about them, and for every step its operation, whether it awaits it,
  its retry limit (a positive integer), the steps that precede it and its error handler, which all lie in the same scenario.
\<close>

theorem derived_scenarios:
  assumes "distinct (map ent_id es)" "deriveScenarioDefinitions es fs = Inr ss"
  shows "set (map scen_id ss) = {ent_id e | e. e \<in> set es \<and> ent_kind e = ScenarioKind} \<and> sorted_wrt (<) (map scen_id ss) \<and>
    (\<forall>s \<in> set ss. scenario_reads_facts es fs s)"
proof -
  note ids = derived_scenario_ids [OF assms(2)]
  have "set (map scen_id ss) = set (map ent_id (filter (\<lambda>e. ent_kind e = ScenarioKind) es))" using arg_cong [OF ids(1), of set_mset]
    by (simp only: set_mset_mset)
  also have "\<dots> = {ent_id e | e. e \<in> set es \<and> ent_kind e = ScenarioKind}" by auto
  finally have all: "set (map scen_id ss) = {ent_id e | e. e \<in> set es \<and> ent_kind e = ScenarioKind}" .
  have "distinct (map ent_id (filter (\<lambda>e. ent_kind e = ScenarioKind) es))" using assms(1) distinct_map_filter by blast
  then have "distinct (map scen_id ss)" using mset_eq_imp_distinct_iff [OF ids(1)] by simp
  then have sorted: "sorted_wrt (<) (map scen_id ss)" unfolding strict_sorted_iff using ids(2) by (intro conjI)
  have reads: "scenario_reads_facts es fs s" if "s \<in> set ss" for s
  proof -
    obtain ds where d: "map_r (derive_scenario (scenario_index_of es fs)) (filter (\<lambda>e. ent_kind e = ScenarioKind) es) = Inr ds"
      "ss = sort_key scen_id ds" using deriveScenarioDefinitions_Inr [OF assms(2)] by blast
    have "s \<in> set ds" using that d(2) by simp
    then obtain e where "e \<in> set es" "derive_scenario (scenario_index_of es fs) e = Inr s" using map_r_InrD [OF d(1)] by auto
    then show ?thesis by (rule derive_scenario_reads(1) [OF assms(1)])
  qed
  show ?thesis by (intro conjI ballI all sorted reads)
qed


definition scenario_entities :: "semantic_entity list" where
  "scenario_entities = map (\<lambda>(i, k). \<lparr>ent_id = i, ent_kind = k, ent_label = ''x'', ent_attributes = []\<rparr>)
     [(''operation:n:pay'', OperationKind), (''scenario:n:buy'', ScenarioKind), (''scenario:n:buy#step:a'', ScenarioStepKind),
      (''scenario:n:buy#step:b'', ScenarioStepKind)]"

definition scenario_fact :: "string \<Rightarrow> semantic_predicate \<Rightarrow> string \<Rightarrow> semantic_fact" where
  "scenario_fact s p i = \<lparr>fact_id = s @ i, fact_subject = s, fact_predicate = p, fact_object = EntityRef i, fact_assertions = []\<rparr>"

definition scenario_facts :: "semantic_fact list" where
  "scenario_facts = map (\<lambda>(s, p, i). scenario_fact s p i)
     [(''scenario:n:buy'', INVOKES, ''operation:n:pay''), (''scenario:n:buy'', CONTAINS, ''scenario:n:buy#step:a''),
      (''scenario:n:buy'', CONTAINS, ''scenario:n:buy#step:b''), (''scenario:n:buy#step:a'', INVOKES, ''operation:n:pay''),
      (''scenario:n:buy#step:b'', INVOKES, ''operation:n:pay''), (''scenario:n:buy#step:a'', PRECEDES, ''scenario:n:buy#step:b'')]"

theorem derived_scenarios_witness:
  "\<exists>ss. deriveScenarioDefinitions scenario_entities scenario_facts = Inr ss \<and> map scen_id ss = [''scenario:n:buy''] \<and>
     (\<forall>s \<in> set ss. scenario_reads_facts scenario_entities scenario_facts s)"
proof -
  have d: "distinct (map ent_id scenario_entities)" by code_simp
  have "map_sum (\<lambda>_. ()) (map scen_id) (deriveScenarioDefinitions scenario_entities scenario_facts) = Inr [''scenario:n:buy'']" by code_simp
  then obtain ss where s: "deriveScenarioDefinitions scenario_entities scenario_facts = Inr ss" "map scen_id ss = [''scenario:n:buy'']"
    by (cases "deriveScenarioDefinitions scenario_entities scenario_facts") auto
  then show ?thesis using derived_scenarios [OF d s(1)] by simp
qed

end
