(* ===== verification/AppendContract.thy ===== *)
theory AppendContract
  imports ScenarioFacts
begin

text \<open>
  The entities and facts a linked semantic contract declares: \<open>appendSemanticContract\<close> of
  \<^verbatim>\<open>src/src/compiler/ir/append-semantic-contract.ts\<close>. The sink the source calls is the one \<^verbatim>\<open>build-engineering-ir.ts\<close> passes: the three
  stores of a build. A statement of the source is an action on these stores that may throw; actions run in order.
\<close>

section \<open>The stores of a build\<close>

record build_state =
  built_entities :: "(string, semantic_entity) jsmap"
  built_facts :: "(string, semantic_fact) jsmap"
  built_owners :: "(string, namespace_owner) jsmap"

type_synonym build_action = "build_state \<Rightarrow> build_state result"

definition sink_entity :: "semantic_entity \<Rightarrow> build_action" where
  "sink_entity e s = bind_r (addEntity e (built_entities s)) (\<lambda>es. Inr (s\<lparr>built_entities := es\<rparr>))"

definition sink_fact :: "(string \<Rightarrow> string) \<Rightarrow> fact_input \<Rightarrow> build_action" where
  "sink_fact hash i s = bind_r (addFact hash i (built_facts s)) (\<lambda>(k, fs). Inr (s\<lparr>built_facts := fs\<rparr>))"

definition sink_claim :: "(string \<Rightarrow> string) \<Rightarrow> loaded_contract \<Rightarrow> build_action" where
  "sink_claim hash l s = bind_r (claimSemanticNamespace hash l (built_owners s)) (\<lambda>os. Inr (s\<lparr>built_owners := os\<rparr>))"

text \<open>Actions in sequence, and an action on a value that has to be computed first.\<close>

definition run_actions :: "build_action list \<Rightarrow> build_action" where
  "run_actions = fold_r (\<lambda>a. a)"

definition with_value :: "'a result \<Rightarrow> ('a \<Rightarrow> build_action) \<Rightarrow> build_action" where
  "with_value r action s = bind_r r (\<lambda>x. action x s)"

definition for_each :: "('a \<Rightarrow> build_action) \<Rightarrow> 'a list \<Rightarrow> build_action" where
  "for_each = fold_r"

section \<open>Inputs\<close>

definition contractProvenance :: "loaded_contract \<Rightarrow> fact_provenance list" where
  "contractProvenance l = [\<lparr>prov_kind = ContractProvenance, prov_sourceId = ''semantic-contract:'' @ con_id (lc_contract l),
     prov_sourcePath = Some (lc_contractPath l), prov_revision = None\<rparr>]"

definition fact_of :: "semantic_authority \<Rightarrow> fact_provenance list \<Rightarrow> string \<Rightarrow> semantic_predicate \<Rightarrow> semantic_fact_object \<Rightarrow> fact_input" where
  "fact_of authority provenance subject predicate x = \<lparr>fi_subject = subject, fi_predicate = predicate, fi_object = x,
     fi_authority = authority, fi_provenance = provenance, fi_evidence = None, fi_confidence = None\<rparr>"

definition or_default :: "'a option \<Rightarrow> 'a \<Rightarrow> 'a" where
  "or_default v d = (case v of None \<Rightarrow> d | Some x \<Rightarrow> x)"

text \<open>An optional string that is present and not empty.\<close>

definition truthy :: "string option \<Rightarrow> string list" where
  "truthy v = (case v of None \<Rightarrow> [] | Some s \<Rightarrow> if s = [] then [] else [s])"

definition text_attribute :: "string \<Rightarrow> string \<Rightarrow> semantic_attribute" where
  "text_attribute key v = valueAttribute key (Primitive (SString v))"

definition flag_attribute :: "string \<Rightarrow> bool \<Rightarrow> semantic_attribute" where
  "flag_attribute key v = valueAttribute key (Primitive (SBoolean v))"

definition linkedEntityId :: "string \<Rightarrow> (string \<Rightarrow> string \<Rightarrow> string result) \<Rightarrow> string result" where
  "linkedEntityId reference identity = bind_r (splitLinkedSemanticReference reference) (\<lambda>(namespace, i). identity namespace i)"

definition linkedTargetId :: "string \<Rightarrow> string result" where
  "linkedTargetId reference = bind_r (splitLinkedSemanticReference reference) (\<lambda>(namespace, i).
     bind_r (semanticTargetParts i) (\<lambda>(entityId, fieldId). case fieldId of
       None \<Rightarrow> contractEntityId namespace entityId
     | Some f \<Rightarrow> contractFieldId namespace entityId f))"

definition linkedResponsibilityBindingTargetId :: "responsibility_binding \<Rightarrow> string result" where
  "linkedResponsibilityBindingTargetId b = linkedEntityId (bnd_target b) (case bnd_kind b of
       TargetEntity \<Rightarrow> contractEntityId | TargetEffect \<Rightarrow> contractEffectId | TargetOperation \<Rightarrow> contractOperationId
     | TargetScenario \<Rightarrow> contractScenarioId)"

section \<open>Declarations\<close>

definition addDeclaredEntity :: "(string \<Rightarrow> string) \<Rightarrow> string \<Rightarrow> fact_provenance list \<Rightarrow> semantic_entity \<Rightarrow> build_action" where
  "addDeclaredEntity hash blockId provenance e = run_actions [sink_entity e,
     sink_fact hash (fact_of Authoritative provenance blockId DECLARES (EntityRef (ent_id e)))]"

text \<open>A declared entity whose id may be refused.\<close>

definition declare_entity :: "(string \<Rightarrow> string) \<Rightarrow> string \<Rightarrow> fact_provenance list \<Rightarrow> string result \<Rightarrow> semantic_entity_kind \<Rightarrow>
    string \<Rightarrow> semantic_attribute list \<Rightarrow> build_action" where
  "declare_entity hash blockId provenance i kind label attributes = with_value i (\<lambda>i.
     with_value (semanticEntity i kind label attributes) (addDeclaredEntity hash blockId provenance))"

text \<open>A fact whose subject is known and whose object is the entity an id names.\<close>

definition relate :: "(string \<Rightarrow> string) \<Rightarrow> fact_provenance list \<Rightarrow> string \<Rightarrow> semantic_predicate \<Rightarrow> string result \<Rightarrow> build_action" where
  "relate hash provenance subject predicate i = with_value i (\<lambda>i.
     sink_fact hash (fact_of Authoritative provenance subject predicate (EntityRef i)))"

definition append_field :: "(string \<Rightarrow> string) \<Rightarrow> string \<Rightarrow> fact_provenance list \<Rightarrow> string \<Rightarrow> contract_entity \<Rightarrow> string \<Rightarrow>
    contract_field \<Rightarrow> build_action" where
  "append_field hash blockId provenance namespace e entityId f =
     with_value (contractFieldId namespace (cent_id e) (fld_id f)) (\<lambda>fieldId. run_actions [
       declare_entity hash blockId provenance (Inr fieldId) FieldKind (fld_id f)
         [text_attribute ''type'' (fld_type f), flag_attribute ''required'' (or_default (fld_required f) False),
          flag_attribute ''mutable'' (or_default (fld_mutable f) False)],
       relate hash provenance entityId CONTAINS (Inr fieldId)])"

definition append_entity :: "(string \<Rightarrow> string) \<Rightarrow> string \<Rightarrow> fact_provenance list \<Rightarrow> string \<Rightarrow> contract_entity \<Rightarrow> build_action" where
  "append_entity hash blockId provenance namespace e =
     with_value (contractEntityId namespace (cent_id e)) (\<lambda>entityId. run_actions [
       declare_entity hash blockId provenance (Inr entityId) EntityKind (or_default (cent_label e) (cent_id e)) [],
       for_each (append_field hash blockId provenance namespace e entityId) (cent_fields e)])"

definition append_binding :: "(string \<Rightarrow> string) \<Rightarrow> string \<Rightarrow> fact_provenance list \<Rightarrow> string \<Rightarrow> contract_responsibility \<Rightarrow> string \<Rightarrow>
    responsibility_binding \<Rightarrow> build_action" where
  "append_binding hash blockId provenance namespace r responsibilityId b =
     with_value (linkedResponsibilityBindingTargetId b) (\<lambda>targetId.
     with_value (contractResponsibilityBindingId hash namespace (rsp_id r) (target_kind_name (bnd_kind b)) targetId (bnd_path b)
         (bnd_exportName b)) (\<lambda>bindingId. run_actions [
       declare_entity hash blockId provenance (Inr bindingId) ResponsibilityBindingKind (rsp_id r @ '':'' @ bnd_exportName b)
         [text_attribute ''targetKind'' (target_kind_name (bnd_kind b)), text_attribute ''targetId'' targetId,
          text_attribute ''declarationPath'' (bnd_path b), text_attribute ''declarationExportName'' (bnd_exportName b)],
       relate hash provenance responsibilityId CONTAINS (Inr bindingId)]))"

definition append_policy :: "(string \<Rightarrow> string) \<Rightarrow> string \<Rightarrow> fact_provenance list \<Rightarrow> string \<Rightarrow> contract_policy \<Rightarrow> build_action" where
  "append_policy hash blockId provenance namespace p =
     with_value (contractPolicyId namespace (pol_id p)) (\<lambda>policyId. run_actions [
       declare_entity hash blockId provenance (Inr policyId) PolicyKind (or_default (pol_label p) (pol_id p))
         (map (text_attribute ''rule'') (truthy (pol_rule p))),
       for_each (\<lambda>v. with_value (verificationPolicyEntityId v) (\<lambda>verificationId. run_actions [
           relate hash provenance verificationId ENFORCES (Inr policyId),
           relate hash provenance policyId VERIFIED_BY (Inr verificationId)])) (or_default (pol_verifiedBy p) [])])"

definition declaration_actions :: "(string \<Rightarrow> string) \<Rightarrow> string \<Rightarrow> fact_provenance list \<Rightarrow> semantic_contract \<Rightarrow> build_action list" where
  "declaration_actions hash blockId provenance c = (let ns = con_namespace c; add = declare_entity hash blockId provenance in [
     for_each (append_entity hash blockId provenance ns) (con_entities c),
     for_each (\<lambda>r. add (contractResponsibilityId ns (rsp_id r)) ResponsibilityKind (or_default (rsp_label r) (rsp_id r)) [])
       (con_responsibilities c),
     for_each (\<lambda>r. with_value (contractResponsibilityId ns (rsp_id r)) (\<lambda>i.
       for_each (append_binding hash blockId provenance ns r i) (or_default (rsp_bindings r) []))) (con_responsibilities c),
     for_each (\<lambda>p. add (contractOperationId ns (opn_id p)) OperationKind (or_default (opn_label p) (opn_id p))
       (valueAttribute ''inputs'' (StringArray (opn_inputs p)) # map (text_attribute ''output'') (truthy (opn_output p)))) (con_operations c),
     for_each (\<lambda>e. add (contractEventId ns (evt_id e)) EventKind (or_default (evt_label e) (evt_id e))
       (map (text_attribute ''payloadType'') (truthy (evt_payloadType e)))) (con_events c),
     for_each (append_policy hash blockId provenance ns) (con_policies c),
     for_each (\<lambda>p. add (contractPermissionId ns (prm_id p)) PermissionKind (or_default (prm_label p) (prm_id p))
       (map (text_attribute ''scope'') (truthy (prm_scope p)))) (con_permissions c),
     for_each (\<lambda>e. add (contractEffectId ns (eff_id e)) EffectKind (or_default (eff_label e) (eff_id e))
       (text_attribute ''effectKind'' (effect_kind_name (eff_kind e)) # map (text_attribute ''target'') (truthy (eff_target e))))
       (con_effects c),
     for_each (\<lambda>s. add (contractStateId ns (cst_id s)) StateKind (or_default (cst_label s) (cst_id s))
       [valueAttribute ''values'' (StringArray (uniqueSorted (cst_values s)))]) (con_states c),
     for_each (\<lambda>s. add (contractScenarioId ns (scn_id s)) ScenarioKind (or_default (scn_label s) (scn_id s)) []) (con_scenarios c)])"

definition append_declarations :: "(string \<Rightarrow> string) \<Rightarrow> string \<Rightarrow> fact_provenance list \<Rightarrow> semantic_contract \<Rightarrow> build_action" where
  "append_declarations hash blockId provenance c = run_actions (declaration_actions hash blockId provenance c)"

section \<open>Relations\<close>

text \<open>The relations of a declaration: the predicate, the identity its references name, and the references.\<close>

type_synonym relation = "semantic_predicate \<times> (string \<Rightarrow> string result) \<times> string list"

definition relate_all :: "(string \<Rightarrow> string) \<Rightarrow> fact_provenance list \<Rightarrow> string \<Rightarrow> relation list \<Rightarrow> build_action" where
  "relate_all hash provenance subject = for_each (\<lambda>(predicate, target, references).
     for_each (\<lambda>v. relate hash provenance subject predicate (target v)) references)"

abbreviation linked_id :: "(string \<Rightarrow> string \<Rightarrow> string result) \<Rightarrow> string \<Rightarrow> string result" where
  "linked_id identity reference \<equiv> linkedEntityId reference identity"

definition responsibility_relations :: "contract_responsibility \<Rightarrow> relation list" where
  "responsibility_relations r = [(OWNS, linkedTargetId, rsp_owns r), (IMPLEMENTS, linked_id contractOperationId, rsp_implements r),
     (DEPENDS_ON, linked_id contractResponsibilityId, rsp_dependsOn r)]"

definition append_responsibility_facts :: "(string \<Rightarrow> string) \<Rightarrow> fact_provenance list \<Rightarrow> string \<Rightarrow> contract_responsibility \<Rightarrow> build_action" where
  "append_responsibility_facts hash provenance ns r =
     with_value (contractResponsibilityId ns (rsp_id r)) (\<lambda>i. relate_all hash provenance i (responsibility_relations r))"

definition operation_relations :: "contract_operation \<Rightarrow> relation list" where
  "operation_relations p = [(READS, linkedTargetId, opn_reads p), (WRITES, linkedTargetId, opn_writes p), (MUTATES, linkedTargetId, opn_mutates p),
     (REQUIRES, linked_id contractPolicyId, opn_requiresPolicies p),
     (REQUIRES_PERMISSION, linked_id contractPermissionId, opn_requiresPermissions p),
     (PERFORMS_EFFECT, linked_id contractEffectId, opn_performsEffects p), (EMITS, linked_id contractEventId, opn_emits p),
     (INVOKES, linked_id contractOperationId, opn_invokes p), (AWAITS, linked_id contractOperationId, opn_awaits p)]"

definition append_operation_facts :: "(string \<Rightarrow> string) \<Rightarrow> fact_provenance list \<Rightarrow> string \<Rightarrow> contract_operation \<Rightarrow> build_action" where
  "append_operation_facts hash provenance ns p =
     with_value (contractOperationId ns (opn_id p)) (\<lambda>i. relate_all hash provenance i (operation_relations p))"

definition state_value :: "(string \<Rightarrow> string) \<Rightarrow> fact_provenance list \<Rightarrow> string \<Rightarrow> semantic_predicate \<Rightarrow> semantic_value \<Rightarrow> build_action" where
  "state_value hash provenance subject predicate v = sink_fact hash (fact_of Authoritative provenance subject predicate (ValueObj v))"

definition append_transition :: "(string \<Rightarrow> string) \<Rightarrow> fact_provenance list \<Rightarrow> string \<Rightarrow> contract_transition \<Rightarrow> build_action" where
  "append_transition hash provenance stateId t =
     with_value (linkedEntityId (tr_by t) contractOperationId) (\<lambda>operationId. run_actions [
       state_value hash provenance stateId TRANSITIONS_TO
         (SObject [(''from'', SString (tr_from t)), (''to'', SString (tr_to t)), (''by'', SString operationId)]),
       relate hash provenance operationId MUTATES (Inr stateId)])"

definition append_state_facts :: "(string \<Rightarrow> string) \<Rightarrow> fact_provenance list \<Rightarrow> string \<Rightarrow> contract_state \<Rightarrow> build_action" where
  "append_state_facts hash provenance ns s =
     with_value (contractStateId ns (cst_id s)) (\<lambda>stateId.
     with_value (linkedEntityId (cst_owner s) contractResponsibilityId) (\<lambda>ownerId.
     with_value (splitLinkedSemanticReference (cst_entity s)) (\<lambda>(entityNamespace, entityId).
     with_value (contractFieldId entityNamespace entityId (cst_field s)) (\<lambda>fieldId. run_actions [
       relate hash provenance ownerId OWNS (Inr stateId),
       relate hash provenance stateId DECLARES (Inr fieldId),
       for_each (\<lambda>v. state_value hash provenance stateId GUARANTEES (SString v)) (cst_values s),
       for_each (append_transition hash provenance stateId) (cst_transitions s)]))))"

definition append_step :: "(string \<Rightarrow> string) \<Rightarrow> string \<Rightarrow> fact_provenance list \<Rightarrow> string \<Rightarrow> contract_step \<Rightarrow> build_action" where
  "append_step hash blockId provenance scenarioId p =
     with_value (scenarioStepEntityId scenarioId (stp_id p)) (\<lambda>stepId.
     with_value (linkedEntityId (stp_operation p) contractOperationId) (\<lambda>operationId. run_actions [
       declare_entity hash blockId provenance (Inr stepId) ScenarioStepKind (stp_id p) [],
       relate hash provenance scenarioId CONTAINS (Inr stepId),
       relate hash provenance stepId INVOKES (Inr operationId),
       (if stp_awaits p = Some True then relate hash provenance stepId AWAITS (Inr operationId) else Inr),
       (case stp_retryMaxAttempts p of None \<Rightarrow> Inr
        | Some n \<Rightarrow> state_value hash provenance stepId RETRIES (SObject [(''maxAttempts'', SNumber n)])),
       for_each (\<lambda>v. with_value (scenarioStepEntityId scenarioId v) (\<lambda>i. relate hash provenance i PRECEDES (Inr stepId)))
         (uniqueSorted (stp_after p)),
       for_each (\<lambda>v. with_value (scenarioStepEntityId scenarioId v) (\<lambda>i. relate hash provenance i HANDLES (Inr stepId)))
         (truthy (stp_onError p))]))"

definition append_scenario_facts :: "(string \<Rightarrow> string) \<Rightarrow> string \<Rightarrow> fact_provenance list \<Rightarrow> string \<Rightarrow> contract_scenario \<Rightarrow> build_action" where
  "append_scenario_facts hash blockId provenance ns s =
     with_value (contractScenarioId ns (scn_id s)) (\<lambda>scenarioId.
     with_value (linkedEntityId (scn_entry s) contractOperationId) (\<lambda>entryId. run_actions [
       relate hash provenance scenarioId INVOKES (Inr entryId),
       for_each (append_step hash blockId provenance scenarioId) (stableById stp_id (scn_steps s)),
       with_value (map_r acceptanceEntityId (scn_acceptance s))
         (for_each (\<lambda>i. relate hash provenance scenarioId VERIFIED_BY (Inr i)))]))"

definition relation_actions :: "(string \<Rightarrow> string) \<Rightarrow> string \<Rightarrow> fact_provenance list \<Rightarrow> semantic_contract \<Rightarrow> build_action list" where
  "relation_actions hash blockId provenance c = (let ns = con_namespace c in [
     for_each (append_responsibility_facts hash provenance ns) (con_responsibilities c),
     for_each (append_operation_facts hash provenance ns) (con_operations c),
     for_each (append_state_facts hash provenance ns) (con_states c),
     for_each (append_scenario_facts hash blockId provenance ns) (con_scenarios c)])"

definition append_relations :: "(string \<Rightarrow> string) \<Rightarrow> string \<Rightarrow> fact_provenance list \<Rightarrow> semantic_contract \<Rightarrow> build_action" where
  "append_relations hash blockId provenance c = run_actions (relation_actions hash blockId provenance c)"

definition appendSemanticContract :: "(string \<Rightarrow> string) \<Rightarrow> loaded_contract \<Rightarrow> build_action" where
  "appendSemanticContract hash l = run_actions [sink_claim hash l,
     with_value (blockEntityId (lc_blockId l)) (\<lambda>blockId. let provenance = contractProvenance l; c = lc_contract l in run_actions [
       append_declarations hash blockId provenance c,
       append_relations hash blockId provenance c])]"

end
