(* ===== verification/IRRevision.thy ===== *)
theory IRRevision
  imports AppendContract ResolvePlan
begin

text \<open>
  The payload an input revision digests, \<^verbatim>\<open>src/src/compiler/ir/ir-revision.ts\<close>: every collection of the declared input in a
  canonical order, without its duplicates. The property \<open>kind\<close> and \<open>produces\<close> of a generator have a single value each, and so
  has the rule of a policy. The policy declarations are those of \<^verbatim>\<open>src/src/semantics/policies/source-schema.ts\<close>.
\<close>

section \<open>The input of a build\<close>

datatype policy_severity = SeverityInfo | SeverityWarn | SeverityError | SeverityBlocker

fun severity_name :: "policy_severity \<Rightarrow> string" where
  "severity_name SeverityInfo = ''info''"
| "severity_name SeverityWarn = ''warn''"
| "severity_name SeverityError = ''error''"
| "severity_name SeverityBlocker = ''blocker''"

record policy_rule =
  pr_id :: string
  pr_severity :: policy_severity
  pr_appliesTo :: "string list"

record manifest_input =
  mi_blockId :: string
  mi_manifestPath :: "string option"
  mi_requires :: "string list"
  mi_provides :: "string list"
  mi_pins :: manifest_pins
  mi_generators :: "manifest_generator list option"

record observed_flow =
  fl_providerId :: string
  fl_sourceCapability :: string
  fl_sourcePath :: string
  fl_sourceRevision :: string
  fl_target :: string

record build_input =
  bi_appId :: string
  bi_appName :: string
  bi_blocks :: "resolved_block list"
  bi_manifests :: "manifest_input list"
  bi_acceptanceIds :: "string list"
  bi_policies :: "policy_rule list"
  bi_contracts :: "loaded_contract list option"
  bi_flows :: "observed_flow list option"

section \<open>Canonical declarations\<close>

text \<open>\<open>uniqueSortedByKey\<close> of values by their own text.\<close>

definition unique_json :: "json list \<Rightarrow> json list result" where
  "unique_json = uniqueSortedByKey stringify (\<lambda>v. v)"

definition uniqueSortedSemanticTuples :: "('v \<Rightarrow> string option list) \<Rightarrow> ('v \<Rightarrow> json) \<Rightarrow> 'v list \<Rightarrow> 'v list result" where
  "uniqueSortedSemanticTuples tuple enc vs =
     bind_r (uniqueSortedByKey (\<lambda>v. stringify (optional_array (tuple v))) enc vs) (\<lambda>us. Inr (sort_key tuple us))"

definition or_null :: "('a \<Rightarrow> json) \<Rightarrow> 'a option \<Rightarrow> json" where
  "or_null enc v = (case v of None \<Rightarrow> JNull | Some x \<Rightarrow> enc x)"

definition sorted_strings :: "string list \<Rightarrow> json" where
  "sorted_strings ss = strings_json (uniqueSorted ss)"

definition canonical_field :: "contract_field \<Rightarrow> json" where
  "canonical_field f = JObject [(''id'', JString (fld_id f)), (''type'', JString (fld_type f)),
     (''required'', JBoolean (or_default (fld_required f) False)), (''mutable'', JBoolean (or_default (fld_mutable f) False))]"

definition canonical_entity :: "contract_entity \<Rightarrow> json" where
  "canonical_entity e = JObject [(''id'', JString (cent_id e)), (''label'', JString (or_default (cent_label e) (cent_id e))),
     (''fields'', JArray (map canonical_field (stableById fld_id (cent_fields e))))]"

definition transition_tuple :: "contract_transition \<Rightarrow> string option list" where
  "transition_tuple t = [Some (tr_from t), Some (tr_to t), Some (tr_by t)]"

definition canonical_state :: "contract_state \<Rightarrow> json result" where
  "canonical_state s = bind_r (uniqueSortedSemanticTuples transition_tuple contract_transition_json (cst_transitions s)) (\<lambda>ts.
     Inr (JObject [(''id'', JString (cst_id s)), (''label'', JString (or_default (cst_label s) (cst_id s))),
       (''entity'', JString (cst_entity s)), (''field'', JString (cst_field s)), (''owner'', JString (cst_owner s)),
       (''values'', sorted_strings (cst_values s)), (''transitions'', JArray (map contract_transition_json ts))]))"

definition canonical_binding :: "responsibility_binding \<Rightarrow> json" where
  "canonical_binding b = responsibility_binding_json (b\<lparr>bnd_path := normalizedArtifactTarget (bnd_path b)\<rparr>)"

definition canonical_responsibility :: "contract_responsibility \<Rightarrow> json result" where
  "canonical_responsibility r = bind_r (unique_json (map canonical_binding (or_default (rsp_bindings r) []))) (\<lambda>bs.
     Inr (JObject [(''id'', JString (rsp_id r)), (''label'', JString (or_default (rsp_label r) (rsp_id r))), (''bindings'', JArray bs),
       (''owns'', sorted_strings (rsp_owns r)), (''implements'', sorted_strings (rsp_implements r)),
       (''dependsOn'', sorted_strings (rsp_dependsOn r))]))"

definition canonical_operation :: "contract_operation \<Rightarrow> json" where
  "canonical_operation p = JObject [(''id'', JString (opn_id p)), (''label'', JString (or_default (opn_label p) (opn_id p))),
     (''responsibility'', JString (opn_responsibility p)), (''inputs'', strings_json (opn_inputs p)),
     (''output'', or_null JString (opn_output p)), (''reads'', sorted_strings (opn_reads p)), (''writes'', sorted_strings (opn_writes p)),
     (''mutates'', sorted_strings (opn_mutates p)), (''requiresPolicies'', sorted_strings (opn_requiresPolicies p)),
     (''requiresPermissions'', sorted_strings (opn_requiresPermissions p)), (''performsEffects'', sorted_strings (opn_performsEffects p)),
     (''emits'', sorted_strings (opn_emits p)), (''invokes'', sorted_strings (opn_invokes p)), (''awaits'', sorted_strings (opn_awaits p))]"

definition canonical_event :: "contract_event \<Rightarrow> json" where
  "canonical_event e = JObject [(''id'', JString (evt_id e)), (''label'', JString (or_default (evt_label e) (evt_id e))),
     (''payloadType'', or_null JString (evt_payloadType e))]"

definition canonical_policy :: "contract_policy \<Rightarrow> json" where
  "canonical_policy p = JObject [(''id'', JString (pol_id p)), (''label'', JString (or_default (pol_label p) (pol_id p))),
     (''rule'', or_null JString (pol_rule p)), (''verifiedBy'', sorted_strings (or_default (pol_verifiedBy p) []))]"

definition canonical_permission :: "contract_permission \<Rightarrow> json" where
  "canonical_permission p = JObject [(''id'', JString (prm_id p)), (''label'', JString (or_default (prm_label p) (prm_id p))),
     (''scope'', or_null JString (prm_scope p))]"

definition canonical_effect :: "contract_effect \<Rightarrow> json" where
  "canonical_effect e = JObject [(''id'', JString (eff_id e)), (''label'', JString (or_default (eff_label e) (eff_id e))),
     (''kind'', JString (effect_kind_name (eff_kind e))), (''target'', or_null JString (eff_target e))]"

definition canonical_step_declaration :: "contract_step \<Rightarrow> json" where
  "canonical_step_declaration p = JObject [(''id'', JString (stp_id p)), (''operation'', JString (stp_operation p)),
     (''after'', sorted_strings (stp_after p)), (''awaits'', JBoolean (or_default (stp_awaits p) False)),
     (''retryMaxAttempts'', or_null JNumber (stp_retryMaxAttempts p)), (''onError'', or_null JString (stp_onError p))]"

definition canonical_scenario :: "contract_scenario \<Rightarrow> json" where
  "canonical_scenario s = JObject [(''id'', JString (scn_id s)), (''label'', JString (or_default (scn_label s) (scn_id s))),
     (''entry'', JString (scn_entry s)), (''steps'', JArray (map canonical_step_declaration (stableById stp_id (scn_steps s)))),
     (''acceptance'', sorted_strings (scn_acceptance s))]"

definition canonicalSemanticContract :: "semantic_contract \<Rightarrow> json result" where
  "canonicalSemanticContract c =
     bind_r (map_r canonical_state (stableById cst_id (con_states c))) (\<lambda>states.
     bind_r (map_r canonical_responsibility (stableById rsp_id (con_responsibilities c))) (\<lambda>responsibilities.
     Inr (JObject [(''formatVersion'', JString ''1''), (''id'', JString (con_id c)), (''namespace'', JString (con_namespace c)),
       (''imports'', JArray (map contract_import_json (sort_key imp_alias (or_default (con_imports c) [])))),
       (''entities'', JArray (map canonical_entity (stableById cent_id (con_entities c)))),
       (''states'', JArray states),
       (''responsibilities'', JArray responsibilities),
       (''operations'', JArray (map canonical_operation (stableById opn_id (con_operations c)))),
       (''events'', JArray (map canonical_event (stableById evt_id (con_events c)))),
       (''policies'', JArray (map canonical_policy (stableById pol_id (con_policies c)))),
       (''permissions'', JArray (map canonical_permission (stableById prm_id (con_permissions c)))),
       (''effects'', JArray (map canonical_effect (stableById eff_id (con_effects c)))),
       (''scenarios'', JArray (map canonical_scenario (stableById scn_id (con_scenarios c))))])))"

fun manifest_kind_name :: "manifest_kind \<Rightarrow> string" where
  "manifest_kind_name Capability = ''capability''"
| "manifest_kind_name Strategy = ''strategy''"
| "manifest_kind_name Infra = ''infra''"
| "manifest_kind_name Governance = ''governance''"

fun consume_kind_name :: "consume_kind \<Rightarrow> string" where
  "consume_kind_name ConsumeState = ''state''"
| "consume_kind_name ConsumeTransition = ''transition''"

definition canonicalPins :: "manifest_pin list \<Rightarrow> json list result" where
  "canonicalPins ps = unique_json (map (\<lambda>p. JObject [(''id'', JString (pin_id p)), (''type'', JString (pin_type p)),
     (''required'', JBoolean (or_default (pin_required p) False))]) ps)"

definition generator_kind :: string where
  "generator_kind = ''generate-state-transition-map''"

definition generator_produces :: string where
  "generator_produces = ''typescript-runtime-contract''"

definition canonicalGenerator :: "manifest_generator \<Rightarrow> json" where
  "canonicalGenerator g = JObject [(''id'', JString (gen_id g)), (''kind'', JString generator_kind), (''contract'', JString (gen_contract g)),
     (''state'', JString (gen_state g)), (''target'', JString (normalizedArtifactTarget (gen_target g))),
     (''consumes'', sorted_strings (map consume_kind_name (gen_consumes g))), (''produces'', JString generator_produces),
     (''typeBinding'', JObject [(''name'', JString (gen_typeName g)), (''importFrom'', JString (gen_importFrom g))]),
     (''verification'', sorted_strings (gen_verification g))]"

definition canonicalManifest :: "manifest_input \<Rightarrow> json result" where
  "canonicalManifest e =
     bind_r (canonicalPins (pin_inputs (mi_pins e))) (\<lambda>inputs.
     bind_r (canonicalPins (pin_outputs (mi_pins e))) (\<lambda>outputs.
     Inr (JObject [(''blockId'', JString (mi_blockId e)), (''requires'', sorted_strings (mi_requires e)),
       (''provides'', sorted_strings (mi_provides e)),
       (''pins'', JObject [(''inputs'', JArray inputs), (''outputs'', JArray outputs)]),
       (''generators'', JArray (map canonicalGenerator (stableById gen_id (or_default (mi_generators e) []))))])))"

definition canonicalResolvedBlocks :: "resolved_block list \<Rightarrow> json list result" where
  "canonicalResolvedBlocks blocks = unique_json (map (\<lambda>b. JObject [(''id'', JString (res_id b)), (''version'', JString (res_version b)),
     (''kind'', JString (manifest_kind_name (res_kind b))), (''registrySourceId'', JString (res_registrySourceId b))]) blocks)"

definition canonicalManifestDeclarations :: "manifest_input list \<Rightarrow> json list result" where
  "canonicalManifestDeclarations es = bind_r (map_r canonicalManifest es) unique_json"

definition canonical_loaded_contract :: "loaded_contract \<Rightarrow> json result" where
  "canonical_loaded_contract l = bind_r (canonicalSemanticContract (lc_contract l)) (\<lambda>c.
     Inr (JObject [(''blockId'', JString (lc_blockId l)), (''contract'', c)]))"

definition canonicalSemanticContractDeclarations :: "loaded_contract list \<Rightarrow> json list result" where
  "canonicalSemanticContractDeclarations ls = bind_r (map_r canonical_loaded_contract ls) unique_json"

definition policy_rule_id :: string where
  "policy_rule_id = ''tenant_context_must_flow_to_query''"

definition canonicalPolicyDeclarations :: "policy_rule list \<Rightarrow> json list result" where
  "canonicalPolicyDeclarations policies = unique_json (map (\<lambda>p. JObject [(''id'', JString (pr_id p)),
     (''severity'', JString (severity_name (pr_severity p))), (''appliesTo'', sorted_strings (pr_appliesTo p)),
     (''rule'', JString policy_rule_id)]) policies)"

definition canonicalObservedFlows :: "observed_flow list \<Rightarrow> json list result" where
  "canonicalObservedFlows flows = unique_json (map (\<lambda>f. JObject [(''providerId'', JString (fl_providerId f)),
     (''sourceCapability'', JString (fl_sourceCapability f)), (''sourcePath'', JString (normalizedArtifactTarget (fl_sourcePath f))),
     (''sourceRevision'', JString (fl_sourceRevision f)), (''target'', JString (normalizedArtifactTarget (fl_target f)))]) flows)"

definition inputRevisionPayload :: "build_input \<Rightarrow> string result" where
  "inputRevisionPayload i =
     bind_r (canonicalObservedFlows (or_default (bi_flows i) [])) (\<lambda>flows.
     bind_r (canonicalResolvedBlocks (bi_blocks i)) (\<lambda>blocks.
     bind_r (canonicalManifestDeclarations (bi_manifests i)) (\<lambda>manifests.
     bind_r (canonicalSemanticContractDeclarations (or_default (bi_contracts i) [])) (\<lambda>contracts.
     bind_r (canonicalPolicyDeclarations (bi_policies i)) (\<lambda>policies.
     Inr (stringify (JObject ([(''domain'', JString ''engineering-ir-input-v1''),
       (''app'', JObject [(''id'', JString (bi_appId i)), (''name'', JString (bi_appName i))]),
       (''resolvedBlocks'', JArray blocks), (''manifests'', JArray manifests), (''semanticContracts'', JArray contracts),
       (''acceptanceIds'', sorted_strings (bi_acceptanceIds i)), (''policyDeclarations'', JArray policies)] @
       (if flows = [] then [] else [(''observedFlows'', JArray flows)])))))))))"

section \<open>The order of declarations does not matter\<close>

lemma unique_json_text:
  assumes "unique_json vs = Inr us"
  shows "map stringify us = sort (dedup (map stringify vs))"
proof -
  note u = uniqueSortedByKey_unique [OF assms [unfolded unique_json_def]]
  have "set (map stringify us) = set (sort (dedup (map stringify vs)))" using u(4) by simp
  then show ?thesis using u(1,2) by (intro sorted_distinct_set_unique) (simp_all add: distinct_dedup)
qed

lemma unique_json_set:
  assumes "unique_json vs = Inr us" "unique_json ws = Inr us'" "set vs = set ws"
  shows "stringify (JArray us) = stringify (JArray us')" "us = [] \<longleftrightarrow> us' = []"
proof -
  have "set (map stringify vs) = set (map stringify ws)" using assms(3) by simp
  then have "sort (dedup (map stringify vs)) = sort (dedup (map stringify ws))"
    by (intro sorted_distinct_set_unique) (simp_all add: distinct_dedup)
  then have e: "map stringify us = map stringify us'" using unique_json_text assms(1,2) by metis
  then show "stringify (JArray us) = stringify (JArray us')" by simp
  show "us = [] \<longleftrightarrow> us' = []" using arg_cong [OF e, of length] by auto
qed

lemma map_r_set: "map_r f xs = Inr ys \<Longrightarrow> set ys = {y. \<exists>x \<in> set xs. f x = Inr y}"
proof (induction xs arbitrary: ys)
  case (Cons x xs)
  then obtain y zs where z: "f x = Inr y" "map_r f xs = Inr zs" "ys = y # zs" by auto
  then show ?case using Cons.IH [OF z(2)] by auto
qed simp

lemma unique_json_map_r:
  assumes "bind_r (map_r f xs) unique_json = Inr us" "bind_r (map_r f xs') unique_json = Inr us'" "set xs = set xs'"
  shows "stringify (JArray us) = stringify (JArray us')"
proof -
  obtain ys ys' where y: "map_r f xs = Inr ys" "unique_json ys = Inr us" "map_r f xs' = Inr ys'" "unique_json ys' = Inr us'"
    using assms(1,2) by blast
  have "set ys = set ys'" using map_r_set [OF y(1)] map_r_set [OF y(3)] assms(3) by simp
  then show ?thesis using unique_json_set(1) [OF y(2,4)] by blast
qed

lemma sorted_strings_set: "set vs = set ws \<Longrightarrow> sorted_strings vs = sorted_strings ws"
  unfolding sorted_strings_def uniqueSorted_def
  by (intro arg_cong [where f = strings_json] sorted_distinct_set_unique) (simp_all add: distinct_dedup)

text \<open>Two inputs that declare the same, in any order and any number of times.\<close>

definition same_input :: "build_input \<Rightarrow> build_input \<Rightarrow> bool" where
  "same_input i j \<longleftrightarrow> bi_appId i = bi_appId j \<and> bi_appName i = bi_appName j \<and> set (bi_blocks i) = set (bi_blocks j) \<and>
     set (bi_manifests i) = set (bi_manifests j) \<and> set (bi_acceptanceIds i) = set (bi_acceptanceIds j) \<and>
     set (bi_policies i) = set (bi_policies j) \<and> set (or_default (bi_contracts i) []) = set (or_default (bi_contracts j) []) \<and>
     set (or_default (bi_flows i) []) = set (or_default (bi_flows j) [])"

lemma stringify_object: "stringify (JObject kvs) = ''{'' @ join_with '','' (map (\<lambda>(k, v). quote_string k @ '':'' @ stringify v) kvs) @ ''}''"
  by simp

text \<open>
  The input revision does not depend on the order of the declarations: two inputs that declare the same blocks, manifests, contracts, acceptances,
  policies and flows, in any order and with any repetitions, have the same payload whenever both have one.
\<close>

theorem inputRevision_order_free:
  assumes "same_input i j" "inputRevisionPayload i = Inr s" "inputRevisionPayload j = Inr t"
  shows "s = t"
proof -
  obtain flows blocks manifests contracts policies where i:
    "canonicalObservedFlows (or_default (bi_flows i) []) = Inr flows" "canonicalResolvedBlocks (bi_blocks i) = Inr blocks"
    "canonicalManifestDeclarations (bi_manifests i) = Inr manifests"
    "canonicalSemanticContractDeclarations (or_default (bi_contracts i) []) = Inr contracts"
    "canonicalPolicyDeclarations (bi_policies i) = Inr policies"
    and s: "s = stringify (JObject ([(''domain'', JString ''engineering-ir-input-v1''),
       (''app'', JObject [(''id'', JString (bi_appId i)), (''name'', JString (bi_appName i))]),
       (''resolvedBlocks'', JArray blocks), (''manifests'', JArray manifests), (''semanticContracts'', JArray contracts),
       (''acceptanceIds'', sorted_strings (bi_acceptanceIds i)), (''policyDeclarations'', JArray policies)] @
       (if flows = [] then [] else [(''observedFlows'', JArray flows)])))"
    using assms(2) unfolding inputRevisionPayload_def bind_r_Inr_iff by blast
  obtain flows' blocks' manifests' contracts' policies' where j:
    "canonicalObservedFlows (or_default (bi_flows j) []) = Inr flows'" "canonicalResolvedBlocks (bi_blocks j) = Inr blocks'"
    "canonicalManifestDeclarations (bi_manifests j) = Inr manifests'"
    "canonicalSemanticContractDeclarations (or_default (bi_contracts j) []) = Inr contracts'"
    "canonicalPolicyDeclarations (bi_policies j) = Inr policies'"
    and t: "t = stringify (JObject ([(''domain'', JString ''engineering-ir-input-v1''),
       (''app'', JObject [(''id'', JString (bi_appId j)), (''name'', JString (bi_appName j))]),
       (''resolvedBlocks'', JArray blocks'), (''manifests'', JArray manifests'), (''semanticContracts'', JArray contracts'),
       (''acceptanceIds'', sorted_strings (bi_acceptanceIds j)), (''policyDeclarations'', JArray policies')] @
       (if flows' = [] then [] else [(''observedFlows'', JArray flows')])))"
    using assms(3) unfolding inputRevisionPayload_def bind_r_Inr_iff by blast
  have same: "bi_appId i = bi_appId j" "bi_appName i = bi_appName j" "set (bi_blocks i) = set (bi_blocks j)"
    "set (bi_manifests i) = set (bi_manifests j)" "set (bi_acceptanceIds i) = set (bi_acceptanceIds j)"
    "set (bi_policies i) = set (bi_policies j)" "set (or_default (bi_contracts i) []) = set (or_default (bi_contracts j) [])"
    "set (or_default (bi_flows i) []) = set (or_default (bi_flows j) [])"
    using assms(1) unfolding same_input_def by simp_all
  have f: "stringify (JArray flows) = stringify (JArray flows')" "flows = [] \<longleftrightarrow> flows' = []"
    by (rule unique_json_set [OF i(1) [unfolded canonicalObservedFlows_def] j(1) [unfolded canonicalObservedFlows_def]];
      simp only: set_map same)+
  have b: "stringify (JArray blocks) = stringify (JArray blocks')"
    by (rule unique_json_set(1) [OF i(2) [unfolded canonicalResolvedBlocks_def] j(2) [unfolded canonicalResolvedBlocks_def]])
      (simp only: set_map same)
  have p: "stringify (JArray policies) = stringify (JArray policies')"
    by (rule unique_json_set(1) [OF i(5) [unfolded canonicalPolicyDeclarations_def] j(5) [unfolded canonicalPolicyDeclarations_def]])
      (simp only: set_map same)
  have m: "stringify (JArray manifests) = stringify (JArray manifests')"
    by (rule unique_json_map_r [OF i(3) [unfolded canonicalManifestDeclarations_def] j(3) [unfolded canonicalManifestDeclarations_def] same(4)])
  have c: "stringify (JArray contracts) = stringify (JArray contracts')"
    by (rule unique_json_map_r [OF i(4) [unfolded canonicalSemanticContractDeclarations_def]
        j(4) [unfolded canonicalSemanticContractDeclarations_def] same(7)])
  have a: "sorted_strings (bi_acceptanceIds i) = sorted_strings (bi_acceptanceIds j)" by (rule sorted_strings_set [OF same(5)])
  show ?thesis unfolding s t stringify_object same(1,2) a f(2) by (simp only: if_distrib map_append list.map prod.case f(1) b p m c if_cancel cong: if_cong)
qed

end
