(* ===== verification/BuildIR.thy ===== *)
theory BuildIR
  imports IRRevision
begin

text \<open>
  Construction of the IR, \<^verbatim>\<open>src/src/compiler/ir/build-engineering-ir.ts\<close>, and the admission of its input
  (\<open>assertEngineeringIRInputIdentities\<close> of \<^verbatim>\<open>ir-identity.ts\<close>). The digest is a parameter. An observed flow is printed with its
  properties in the order of their declaration.
\<close>

section \<open>Admission of the input\<close>

definition admit :: "'a result \<Rightarrow> unit result" where
  "admit r = bind_r r (\<lambda>_. Inr ())"

definition check_generator_identities :: "string \<Rightarrow> manifest_generator \<Rightarrow> unit result" where
  "check_generator_identities blockId g = in_order [admit (generatorEntityId blockId (gen_id g)),
     assertSemanticIdentityComponent (gen_contract g) ''Generator contract id'' False,
     assertSemanticIdentityComponent (gen_state g) ''Generator state id'' False]"

definition check_manifest_identities :: "manifest_input \<Rightarrow> unit result" where
  "check_manifest_identities e = in_order [admit (blockEntityId (mi_blockId e)),
     check_all (\<lambda>c. admit (capabilityEntityId c)) (mi_requires e @ mi_provides e),
     check_all (\<lambda>p. admit (portEntityId (mi_blockId e) ''input'' (pin_id p))) (pin_inputs (mi_pins e)),
     check_all (\<lambda>p. admit (portEntityId (mi_blockId e) ''output'' (pin_id p))) (pin_outputs (mi_pins e)),
     check_all (check_generator_identities (mi_blockId e)) (or_default (mi_generators e) [])]"

definition assertEngineeringIRInputIdentities :: "build_input \<Rightarrow> unit result" where
  "assertEngineeringIRInputIdentities i = in_order [admit (appEntityId (Some (bi_appId i))),
     check_all (\<lambda>b. admit (blockEntityId (res_id b))) (bi_blocks i),
     check_all check_manifest_identities (bi_manifests i),
     check_all (\<lambda>a. admit (acceptanceEntityId a)) (bi_acceptanceIds i),
     check_all (\<lambda>p. admit (verificationPolicyEntityId (pr_id p))) (bi_policies i),
     check_all (\<lambda>l. in_order [admit (blockEntityId (lc_blockId l)), assertSemanticContractIdentityComponents (lc_contract l)])
       (or_default (bi_contracts i) []),
     check_all (\<lambda>f. admit (capabilityEntityId (fl_sourceCapability f))) (or_default (bi_flows i) [])]"

section \<open>Declarations\<close>

definition require :: "unit result \<Rightarrow> build_action" where
  "require r = with_value r (\<lambda>_. Inr)"

definition new_entity :: "string \<Rightarrow> semantic_entity_kind \<Rightarrow> string \<Rightarrow> semantic_attribute list \<Rightarrow> build_action" where
  "new_entity i k label attributes = with_value (semanticEntity i k label attributes) sink_entity"

definition relate_ids :: "(string \<Rightarrow> string) \<Rightarrow> semantic_authority \<Rightarrow> fact_provenance list \<Rightarrow> string \<Rightarrow> semantic_predicate \<Rightarrow> string \<Rightarrow> build_action" where
  "relate_ids hash authority provenance subject predicate i = sink_fact hash (fact_of authority provenance subject predicate (EntityRef i))"

definition build_block :: "(string \<Rightarrow> string) \<Rightarrow> string \<Rightarrow> resolved_block \<Rightarrow> build_action" where
  "build_block hash app b = with_value (blockEntityId (res_id b)) (\<lambda>blockId. run_actions [
     new_entity blockId BlockKind (res_id b) [text_attribute ''version'' (res_version b),
       text_attribute ''manifestKind'' (manifest_kind_name (res_kind b)), text_attribute ''registrySourceId'' (res_registrySourceId b)],
     relate_ids hash Derived (compilerProvenance ''resolve:resolved-block'') app CONTAINS blockId])"

definition build_capability :: "(string \<Rightarrow> string) \<Rightarrow> fact_provenance list \<Rightarrow> string \<Rightarrow> semantic_predicate \<Rightarrow> string \<Rightarrow> build_action" where
  "build_capability hash provenance blockId predicate capability = with_value (capabilityEntityId capability) (\<lambda>i. run_actions [
     new_entity i CapabilityKind capability [],
     relate_ids hash Authoritative provenance blockId predicate i])"

definition build_pin :: "(string \<Rightarrow> string) \<Rightarrow> fact_provenance list \<Rightarrow> manifest_input \<Rightarrow> string \<Rightarrow> string \<Rightarrow> semantic_predicate \<Rightarrow>
    manifest_pin \<Rightarrow> build_action" where
  "build_pin hash provenance e blockId direction predicate p = with_value (portEntityId (mi_blockId e) direction (pin_id p)) (\<lambda>i. run_actions [
     new_entity i PortKind (pin_id p) [text_attribute ''direction'' direction, text_attribute ''type'' (pin_type p),
       flag_attribute ''required'' (or_default (pin_required p) False)],
     relate_ids hash Authoritative provenance blockId predicate i])"

definition build_manifest :: "(string \<Rightarrow> string) \<Rightarrow> string list \<Rightarrow> manifest_input \<Rightarrow> build_action" where
  "build_manifest hash blockIds e = run_actions [
     require (throw_if (mi_blockId e \<notin> set blockIds) (CodedFailure ''IR-IDENTITY-002'' [mi_blockId e])),
     with_value (blockEntityId (mi_blockId e)) (\<lambda>blockId. let provenance = manifestProvenance (mi_blockId e) (mi_manifestPath e) in run_actions [
       for_each (build_capability hash provenance blockId DEPENDS_ON) (uniqueSorted (mi_requires e)),
       for_each (build_capability hash provenance blockId PROVIDES) (uniqueSorted (mi_provides e)),
       for_each (build_pin hash provenance e blockId ''input'' REQUIRES) (stableById pin_id (pin_inputs (mi_pins e))),
       for_each (build_pin hash provenance e blockId ''output'' PROVIDES) (stableById pin_id (pin_outputs (mi_pins e)))])]"

definition build_named :: "(string \<Rightarrow> string result) \<Rightarrow> semantic_entity_kind \<Rightarrow> string \<Rightarrow> build_action" where
  "build_named identity k label = with_value (identity label) (\<lambda>i. new_entity i k label [])"

section \<open>Observed flows\<close>

definition flow_json :: "observed_flow \<Rightarrow> json" where
  "flow_json f = strings_object [(''providerId'', fl_providerId f), (''sourceCapability'', fl_sourceCapability f),
     (''sourcePath'', fl_sourcePath f), (''sourceRevision'', fl_sourceRevision f), (''target'', fl_target f)]"

definition orderedFlows :: "observed_flow list \<Rightarrow> observed_flow list" where
  "orderedFlows flows = (if length flows < 2 then flows else map snd (sort_key fst (map (\<lambda>f. (stringify (flow_json f), f)) flows)))"

definition flow_provenance :: "observed_flow \<Rightarrow> fact_provenance list" where
  "flow_provenance f = [\<lparr>prov_kind = StaticAnalysisProvenance, prov_sourceId = fl_providerId f,
     prov_sourcePath = Some (normalizedArtifactTarget (fl_sourcePath f)), prov_revision = Some (fl_sourceRevision f)\<rparr>]"

definition artifact_attributes :: "string \<Rightarrow> string \<Rightarrow> semantic_attribute list" where
  "artifact_attributes k target = [text_attribute ''artifactKind'' k, text_attribute ''target'' target]"

definition build_flow :: "(string \<Rightarrow> string) \<Rightarrow> observed_flow \<Rightarrow> build_action" where
  "build_flow hash f = with_value (capabilityEntityId (fl_sourceCapability f)) (\<lambda>sourceId. run_actions [
     (\<lambda>s. require (throw_if (\<not> map_has (built_entities s) sourceId) (CodedFailure ''IR-FACT-002'' [fl_sourceCapability f])) s),
     (let target = normalizedArtifactTarget (fl_target f) in with_value (artifactEntityId target) (\<lambda>artifactId. run_actions [
       (\<lambda>s. if map_has (built_entities s) artifactId then Inr s
         else new_entity artifactId ArtifactKind target (artifact_attributes ''source'' target) s),
       relate_ids hash Observed (flow_provenance f) sourceId FLOWS_TO artifactId]))])"

section \<open>Contracts and generators\<close>

definition build_contract :: "(string \<Rightarrow> string) \<Rightarrow> string list \<Rightarrow> loaded_contract \<Rightarrow> build_action" where
  "build_contract hash blockIds l = run_actions [
     require (throw_if (lc_blockId l \<notin> set blockIds) (CodedFailure ''IR-IDENTITY-005'' [con_id (lc_contract l), lc_blockId l])),
     appendSemanticContract hash l]"

definition verification_object :: "(string, string) jsmap \<Rightarrow> string \<Rightarrow> semantic_fact_object" where
  "verification_object acceptanceEntityIdById v = (case map_get acceptanceEntityIdById v of
     Some i \<Rightarrow> EntityRef i | None \<Rightarrow> ValueObj (SObject [(''selector'', SString v)]))"

definition generator_state :: "loaded_contract list \<Rightarrow> manifest_input \<Rightarrow> manifest_generator \<Rightarrow> (loaded_contract \<times> contract_state) result" where
  "generator_state linked e g = (case filter (\<lambda>l. lc_blockId l = mi_blockId e \<and> con_id (lc_contract l) = gen_contract g) linked of
       [l] \<Rightarrow> (case find (\<lambda>s. cst_id s = gen_state g) (con_states (lc_contract l)) of
           None \<Rightarrow> throw (CodedFailure ''GENERATOR-PLAN-002'' [gen_state g])
         | Some s \<Rightarrow> Inr (l, s))
     | _ \<Rightarrow> throw (CodedFailure ''GENERATOR-PLAN-001'' [gen_contract g]))"

definition generator_attributes :: "manifest_input \<Rightarrow> manifest_generator \<Rightarrow> string \<Rightarrow> semantic_attribute list" where
  "generator_attributes e g target = [text_attribute ''blockId'' (mi_blockId e), text_attribute ''contractId'' (gen_contract g),
     text_attribute ''generatorKind'' generator_kind, text_attribute ''stateId'' (gen_state g), text_attribute ''target'' target,
     valueAttribute ''consumes'' (StringArray (uniqueSorted (map consume_kind_name (gen_consumes g)))),
     text_attribute ''produces'' generator_produces, text_attribute ''typeBindingName'' (gen_typeName g),
     text_attribute ''typeBindingImportFrom'' (gen_importFrom g),
     valueAttribute ''verification'' (StringArray (uniqueSorted (gen_verification g)))]"

definition build_generator :: "(string \<Rightarrow> string) \<Rightarrow> loaded_contract list \<Rightarrow> (string, string) jsmap \<Rightarrow> manifest_input \<Rightarrow> string \<Rightarrow>
    fact_provenance list \<Rightarrow> manifest_generator \<Rightarrow> build_action" where
  "build_generator hash linked acceptanceEntityIdById e blockId provenance g =
     with_value (generator_state linked e g) (\<lambda>(l, state).
     with_value (generatorEntityId (mi_blockId e) (gen_id g)) (\<lambda>generatorId. let target = normalizedArtifactTarget (gen_target g) in
     with_value (artifactEntityId target) (\<lambda>artifactId.
     with_value (contractStateId (con_namespace (lc_contract l)) (cst_id state)) (\<lambda>stateId. run_actions [
       new_entity generatorId GeneratorKind (gen_id g) (generator_attributes e g target),
       new_entity artifactId ArtifactKind target (artifact_attributes generator_produces target),
       relate_ids hash Authoritative provenance blockId DECLARES generatorId,
       relate_ids hash Authoritative provenance generatorId CONSUMES stateId,
       relate_ids hash Derived (compilerProvenance (''generator:'' @ generatorId @ '':lowering'')) stateId LOWERS_TO artifactId,
       relate_ids hash Authoritative provenance generatorId GENERATES artifactId,
       for_each (\<lambda>v. sink_fact hash (fact_of Authoritative provenance artifactId VERIFIED_BY (verification_object acceptanceEntityIdById v)))
         (uniqueSorted (gen_verification g))]))))"

definition build_generators :: "(string \<Rightarrow> string) \<Rightarrow> loaded_contract list \<Rightarrow> (string, string) jsmap \<Rightarrow> manifest_input \<Rightarrow> build_action" where
  "build_generators hash linked acceptanceEntityIdById e = with_value (blockEntityId (mi_blockId e)) (\<lambda>blockId.
     for_each (build_generator hash linked acceptanceEntityIdById e blockId (manifestProvenance (mi_blockId e) (mi_manifestPath e)))
       (stableById gen_id (or_default (mi_generators e) [])))"

section \<open>The build\<close>

definition build_linked :: "(string \<Rightarrow> string) \<Rightarrow> build_input \<Rightarrow> loaded_contract list \<Rightarrow> build_action" where
  "build_linked hash i linked = run_actions [
     for_each (build_contract hash (map res_id (bi_blocks i))) linked,
     with_value (map_r (\<lambda>a. bind_r (acceptanceEntityId a) (\<lambda>e. Inr (a, e))) (bi_acceptanceIds i)) (\<lambda>pairs.
       for_each (build_generators hash linked (map_from pairs)) (sort_key mi_blockId (bi_manifests i)))]"

definition build_actions :: "(string \<Rightarrow> string) \<Rightarrow> string \<Rightarrow> build_input \<Rightarrow> build_action list" where
  "build_actions hash app i = [
     for_each (build_block hash app) (sort_key res_id (bi_blocks i)),
     for_each (build_manifest hash (map res_id (bi_blocks i))) (sort_key mi_blockId (bi_manifests i)),
     for_each (build_named acceptanceEntityId AcceptanceKind) (uniqueSorted (bi_acceptanceIds i)),
     for_each (build_named verificationPolicyEntityId PolicyKind) (uniqueSorted (map pr_id (bi_policies i))),
     for_each (build_flow hash) (orderedFlows (or_default (bi_flows i) [])),
     with_value (linkWorkspaceSemanticContracts (or_default (bi_contracts i) []) (map pr_id (bi_policies i))) (build_linked hash i)]"

definition build_steps :: "(string \<Rightarrow> string) \<Rightarrow> string \<Rightarrow> build_input \<Rightarrow> build_action" where
  "build_steps hash app i = run_actions (build_actions hash app i)"

definition empty_build :: build_state where
  "empty_build = \<lparr>built_entities = [], built_facts = [], built_owners = []\<rparr>"

definition revision_of :: "(string \<Rightarrow> string) \<Rightarrow> string \<Rightarrow> string" where
  "revision_of hash payload = ''sha256:'' @ digest_of hash payload"

definition with_revision :: "string \<Rightarrow> semantic_fact \<Rightarrow> semantic_fact" where
  "with_revision revision f = f\<lparr>fact_assertions := map (\<lambda>a. a\<lparr>as_validFromRevision := revision\<rparr>) (fact_assertions f)\<rparr>"

definition finish_build :: "(string \<Rightarrow> string) \<Rightarrow> string \<Rightarrow> string \<Rightarrow> string \<Rightarrow> build_state \<Rightarrow> engineering_ir result" where
  "finish_build hash graph app revision s =
     (let sortedEntities = sort_key ent_id (map snd (built_entities s)); entityIds = map ent_id sortedEntities;
          sortedFacts = sort_key fact_id (map snd (built_facts s)) in
     bind_r (deriveScenarioDefinitions sortedEntities sortedFacts) (\<lambda>sortedScenarios.
     bind_r (assertEngineeringIRReferences entityIds sortedFacts sortedScenarios) (\<lambda>_.
     bind_r (assertEngineeringIRPredicateSignatures sortedEntities sortedFacts) (\<lambda>_.
     let semantic = revision_of hash (semanticRevisionPayload graph app sortedEntities sortedFacts sortedScenarios) in
     Inr \<lparr>graphId = graph, inputRevision = revision, semanticRevision = semantic, appId = app, entities = sortedEntities,
       facts = map (with_revision semantic) sortedFacts, scenarios = sortedScenarios\<rparr>))))"

definition buildEngineeringIR :: "(string \<Rightarrow> string) \<Rightarrow> build_input \<Rightarrow> engineering_ir result" where
  "buildEngineeringIR hash i =
     bind_r (assertEngineeringIRInputIdentities i) (\<lambda>_.
     bind_r (appEntityId (Some (bi_appId i))) (\<lambda>app.
     bind_r (engineeringGraphId (Some (bi_appId i))) (\<lambda>graph.
     bind_r (inputRevisionPayload i) (\<lambda>payload.
     bind_r (run_actions [new_entity app AppKind (bi_appName i) [], build_steps hash app i] empty_build) (\<lambda>s.
     finish_build hash graph app (revision_of hash payload) s)))))"

end
