(* ===== verification/BuildInvariant.thy ===== *)
theory BuildInvariant
  imports BuildIR
begin

text \<open>
  Invariants of a build. \<open>build_contract_of\<close> states what the sink promises about an invariant of the stores: claiming a namespace, adding
  an entity \<open>semanticEntity\<close> made, and adding a fact of one provenance keep it. A whole build then preserves it, and the lemmas on
  entities, facts and owners are its instances.
\<close>

section \<open>Actions that keep an invariant\<close>

named_theorems preserves_intros \<open>what preserves an invariant of the stores\<close>

definition preserves :: "(build_state \<Rightarrow> bool) \<Rightarrow> build_action \<Rightarrow> bool" where
  "preserves I a \<longleftrightarrow> (\<forall>s s'. I s \<longrightarrow> a s = Inr s' \<longrightarrow> I s')"

lemma preservesD: "preserves I a \<Longrightarrow> I s \<Longrightarrow> a s = Inr s' \<Longrightarrow> I s'"
  by (simp add: preserves_def)

lemma preserves_Inr [preserves_intros]: "preserves I Inr"
  by (simp add: preserves_def)

lemma preserves_run_Nil: "preserves I (run_actions [])"
  by (simp add: preserves_def run_actions_def)

lemma preserves_run_Cons: "preserves I a \<Longrightarrow> preserves I (run_actions as) \<Longrightarrow> preserves I (run_actions (a # as))"
  unfolding preserves_def run_actions_def fold_r.simps bind_r_Inr_iff by meson

definition preserves_all :: "(build_state \<Rightarrow> bool) \<Rightarrow> build_action list \<Rightarrow> bool" where
  "preserves_all I actions \<longleftrightarrow> (\<forall>a \<in> set actions. preserves I a)"

lemma preserves_all_list [preserves_intros]: "preserves_all I []" "preserves I a \<Longrightarrow> preserves_all I actions \<Longrightarrow> preserves_all I (a # actions)"
  by (simp_all add: preserves_all_def)

lemma preserves_run [preserves_intros]: "preserves_all I actions \<Longrightarrow> preserves I (run_actions actions)"
  by (induction actions) (simp_all add: preserves_all_def preserves_run_Nil preserves_run_Cons)

lemma preserves_with [preserves_intros]: "(\<And>x. r = Inr x \<Longrightarrow> preserves I (f x)) \<Longrightarrow> preserves I (with_value r f)"
  by (cases r) (simp_all add: preserves_def with_value_def)

lemma preserves_with_pair [preserves_intros]:
  "(\<And>x y. r = Inr (x, y) \<Longrightarrow> preserves I (f x y)) \<Longrightarrow> preserves I (with_value r (\<lambda>(x, y). f x y))"
  by (rule preserves_with) (simp add: case_prod_unfold)

lemma preserves_each [preserves_intros]:
  assumes "\<And>x. x \<in> set xs \<Longrightarrow> preserves I (f x)"
  shows "preserves I (for_each f xs)"
proof -
  have "I s'" if "\<And>x. x \<in> set ys \<Longrightarrow> preserves I (f x)" "I s" "fold_r f ys s = Inr s'" for s s' ys
    using that
  proof (induction ys arbitrary: s)
    case (Cons y ys)
    then obtain t where t: "f y s = Inr t" "fold_r f ys t = Inr s'" by auto
    have "preserves I (f y)" by (simp add: Cons.prems(1))
    then have "I t" using Cons.prems(2) t(1) by (rule preservesD)
    then show ?case by (rule Cons.IH [rotated 1, OF _ t(2)]) (simp add: Cons.prems(1))
  qed simp
  from this [OF assms] show ?thesis unfolding preserves_def for_each_def by blast
qed

lemma preserves_let [preserves_intros]: "preserves I (f x) \<Longrightarrow> preserves I (Let x f)"
  by (simp add: Let_def)

lemma preserves_if [preserves_intros]: "preserves I a \<Longrightarrow> preserves I b \<Longrightarrow> preserves I (if c then a else b)"
  by simp

lemma preserves_option [preserves_intros]: "preserves I a \<Longrightarrow> (\<And>x. preserves I (f x)) \<Longrightarrow> preserves I (case v of None \<Rightarrow> a | Some x \<Rightarrow> f x)"
  by (cases v) simp_all

lemma preserves_require [preserves_intros]: "preserves I (require r)"
  by (auto simp: require_def preserves_def with_value_def)

lemma preserves_guarded [preserves_intros]: "preserves I (\<lambda>s. require (r s) s)"
  by (auto simp: require_def preserves_def with_value_def)

lemma preserves_unless [preserves_intros]: "preserves I a \<Longrightarrow> preserves I (\<lambda>s. if c s then Inr s else a s)"
  by (auto simp: preserves_def)

section \<open>The contract of the sink\<close>

locale build_contract_of =
  fixes hash :: "string \<Rightarrow> string" and I :: "build_state \<Rightarrow> bool"
  assumes claim_keeps: "I s \<Longrightarrow> sink_claim hash l s = Inr s' \<Longrightarrow> I s'"
    and entity_keeps: "I s \<Longrightarrow> k \<noteq> AppKind \<Longrightarrow> semanticEntity i k label attributes = Inr e \<Longrightarrow> sink_entity e s = Inr s' \<Longrightarrow> I s'"
    and fact_keeps: "I s \<Longrightarrow> sink_fact hash (fact_of authority [p] subject predicate x) s = Inr s' \<Longrightarrow> I s'"
begin

lemma claims: "preserves I (sink_claim hash l)"
  unfolding preserves_def using claim_keeps by blast

lemma facts_kept: "preserves I (sink_fact hash (fact_of authority [p] subject predicate x))"
  unfolding preserves_def using fact_keeps by blast

lemma entities_kept: "k \<noteq> AppKind \<Longrightarrow> preserves I (with_value (semanticEntity i k label attributes) sink_entity)"
  unfolding preserves_def with_value_def using entity_keeps by blast

lemma declared: "k \<noteq> AppKind \<Longrightarrow> preserves I (declare_entity hash blockId [p] i k label attributes)"
proof -
  assume k: "k \<noteq> AppKind"
  have "I s'" if s: "I s" and e: "semanticEntity j k label attributes = Inr e" and a: "addDeclaredEntity hash blockId [p] e s = Inr s'" for s s' j e
  proof -
    obtain s1 where s1: "sink_entity e s = Inr s1" "sink_fact hash (fact_of Authoritative [p] blockId DECLARES (EntityRef (ent_id e))) s1 = Inr s'"
      using a by (auto simp: addDeclaredEntity_def run_actions_def)
    have "I s1" by (rule entity_keeps [OF s k e s1(1)])
    then show ?thesis by (rule fact_keeps [OF _ s1(2)])
  qed
  then show ?thesis unfolding preserves_def declare_entity_def with_value_def by blast
qed

lemma related: "preserves I (relate hash [p] subject predicate i)"
  unfolding relate_def by (intro preserves_intros facts_kept)

lemma valued: "preserves I (state_value hash [p] subject predicate v)"
  unfolding state_value_def by (rule facts_kept)

lemmas sink_keeps = claims facts_kept declared related valued

lemma declarations_all: "preserves_all I (declaration_actions hash blockId [p] c)"
  unfolding declaration_actions_def append_entity_def append_field_def append_binding_def append_policy_def Let_def
  by (intro preserves_intros sink_keeps; simp)

lemma all_related: "preserves I (relate_all hash [p] subject rs)"
  unfolding relate_all_def case_prod_unfold by (intro preserves_intros related)

lemma relations_all: "preserves_all I (relation_actions hash blockId [p] c)"
  unfolding relation_actions_def append_responsibility_facts_def append_operation_facts_def append_state_facts_def append_transition_def
    append_scenario_facts_def append_step_def Let_def
  by (intro preserves_intros sink_keeps all_related; simp)

lemma contract_kept: "preserves I (appendSemanticContract hash l)"
  unfolding appendSemanticContract_def append_declarations_def append_relations_def contractProvenance_def Let_def
  by (intro preserves_intros claims declarations_all relations_all)

lemma entity_kept: "k \<noteq> AppKind \<Longrightarrow> preserves I (new_entity i k label attributes)"
  unfolding new_entity_def by (rule entities_kept)

lemma ids_kept: "preserves I (relate_ids hash authority [p] subject predicate i)"
  unfolding relate_ids_def by (rule facts_kept)

lemma manifests_kept: "preserves I (build_manifest hash blockIds m)"
  unfolding build_manifest_def build_capability_def build_pin_def manifestProvenance_def Let_def
  by (intro preserves_intros entity_kept ids_kept; simp)

lemma flows_kept: "preserves I (build_flow hash f)"
  unfolding build_flow_def flow_provenance_def Let_def by (intro preserves_intros entity_kept ids_kept; simp)

lemma generators_kept: "preserves I (build_generators hash linked m e)"
  unfolding build_generators_def build_generator_def manifestProvenance_def compilerProvenance_def Let_def
  by (intro preserves_intros entity_kept ids_kept facts_kept; simp)

lemma linked_kept: "preserves I (build_linked hash i linked)"
  unfolding build_linked_def build_contract_def by (intro preserves_intros contract_kept generators_kept)

lemma steps_all: "preserves_all I (build_actions hash app i)"
  unfolding build_actions_def build_block_def build_named_def compilerProvenance_def
  by (intro preserves_intros entity_kept ids_kept manifests_kept flows_kept linked_kept; simp)

lemma steps_kept: "preserves I (build_steps hash app i)"
  unfolding build_steps_def by (intro preserves_intros steps_all)

end

section \<open>The entities of a build\<close>

definition entity_ok :: "string \<Rightarrow> semantic_entity \<Rightarrow> bool" where
  "entity_ok app e \<longleftrightarrow> isCanonicalSemanticEntityIdentity (ent_id e) (entity_kind_name (ent_kind e)) \<and>
     normalizeAttributes (ent_attributes e) = Inr (ent_attributes e) \<and> (ent_kind e = AppKind \<longrightarrow> ent_id e = app)"

definition entities_ok :: "string \<Rightarrow> build_state \<Rightarrow> bool" where
  "entities_ok app s \<longleftrightarrow> distinct (map fst (built_entities s)) \<and> (\<forall>(k, e) \<in> set (built_entities s). k = ent_id e \<and> entity_ok app e)"

lemma semanticEntity_ok:
  assumes "semanticEntity i k label attributes = Inr e"
  shows "ent_id e = i" "ent_kind e = k" "k \<noteq> AppKind \<or> i = app \<Longrightarrow> entity_ok app e"
proof -
  obtain normal where e: "isCanonicalSemanticEntityIdentity i (entity_kind_name k)" "normalizeAttributes attributes = Inr normal"
    "e = \<lparr>ent_id = i, ent_kind = k, ent_label = label, ent_attributes = normal\<rparr>"
    using assms by (auto simp: semanticEntity_def assertCanonicalEntityIdentity_def)
  then show "ent_id e = i" "ent_kind e = k" "k \<noteq> AppKind \<or> i = app \<Longrightarrow> entity_ok app e"
    using normalizeAttributes_idem [OF e(2)] by (auto simp: entity_ok_def)
qed

lemma addEntity_cases:
  assumes "addEntity e store = Inr store'"
  shows "store' = store \<and> map_get store (ent_id e) \<noteq> None \<or> store' = map_set (ent_id e) e store"
  using assms by (cases "map_get store (ent_id e)") (auto simp: addEntity_def)

lemma sink_entity_ok:
  assumes "entities_ok app s" "entity_ok app e" "sink_entity e s = Inr s'"
  shows "entities_ok app s'"
proof -
  obtain es where es: "addEntity e (built_entities s) = Inr es" "s' = s\<lparr>built_entities := es\<rparr>" using assms(3) by (auto simp: sink_entity_def)
  consider "es = built_entities s" | "es = map_set (ent_id e) e (built_entities s)" using addEntity_cases [OF es(1)] by blast
  then show ?thesis
  proof cases
    case 1
    then show ?thesis using assms(1) es(2) by simp
  next
    case 2
    have d: "distinct (map fst (built_entities s))" using assms(1) by (simp add: entities_ok_def)
    have "k = ent_id x \<and> entity_ok app x" if "(k, x) \<in> set es" for k x
      using that assms(1,2) unfolding 2 map_set_entry [OF d] by (auto simp: entities_ok_def split: if_splits)
    then have "\<forall>(k, x) \<in> set es. k = ent_id x \<and> entity_ok app x" by blast
    moreover have "distinct (map fst es)" unfolding 2 by (rule distinct_map_set [OF d])
    ultimately show ?thesis by (simp add: es(2) entities_ok_def)
  qed
qed

lemma sink_others [simp]:
  "sink_claim hash l s = Inr s' \<Longrightarrow> built_entities s' = built_entities s \<and> built_facts s' = built_facts s"
  "sink_fact hash i s = Inr s' \<Longrightarrow> built_entities s' = built_entities s"
  "sink_entity e s = Inr s' \<Longrightarrow> built_facts s' = built_facts s"
  by (auto simp: sink_claim_def sink_fact_def sink_entity_def)

interpretation build_entities: build_contract_of hash "entities_ok app" for hash app
proof
  show "entities_ok app s'" if "entities_ok app s" "sink_claim hash l s = Inr s'" for s s' l
    using that(1) sink_others(1) [OF that(2)] by (simp add: entities_ok_def)
  show "entities_ok app s'" if "entities_ok app s" "sink_fact hash (fact_of authority [p] subject predicate x) s = Inr s'"
    for s s' authority p subject predicate x
    using that(1) sink_others(2) [OF that(2)] by (simp add: entities_ok_def)
  show "entities_ok app s'" if "entities_ok app s" "k \<noteq> AppKind" "semanticEntity i k label attributes = Inr e" "sink_entity e s = Inr s'"
    for s s' i k label attributes e
    using sink_entity_ok [OF that(1) _ that(4)] semanticEntity_ok(3) [OF that(3)] that(2) by blast
qed

section \<open>The facts of a build\<close>

text \<open>A fact of a build is asserted by one provenance at a time, without evidence.\<close>

definition plain_assertion :: "fact_assertion \<Rightarrow> bool" where
  "plain_assertion a \<longleftrightarrow> as_evidence a = [] \<and> length (as_provenance a) = 1"

definition plain_facts :: "(string, semantic_fact) jsmap \<Rightarrow> bool" where
  "plain_facts store \<longleftrightarrow> (\<forall>(k, f) \<in> set store. \<forall>a \<in> set (fact_assertions f). plain_assertion a)"

definition facts_ok :: "(string \<Rightarrow> string) \<Rightarrow> build_state \<Rightarrow> bool" where
  "facts_ok hash s \<longleftrightarrow> fact_store_ok hash (built_facts s) \<and> plain_facts (built_facts s)"

lemma buildAssertion_plain:
  assumes "buildAssertion hash k (fact_of authority [p] subject predicate x) = Inr a"
  shows "plain_assertion a"
  using assms by (auto simp: buildAssertion_def fact_of_def normalizeProvenance_eq normalizeEvidence_eq plain_assertion_def)

lemma mergeAssertion_plain: "mergeAssertion a b = Inr c \<Longrightarrow> plain_assertion a \<Longrightarrow> plain_assertion b \<Longrightarrow> plain_assertion c"
  by (auto simp: mergeAssertion_def normalizeEvidence_eq plain_assertion_def)

lemma put_assertion_plain:
  assumes "put_assertion a m = Inr m'" "plain_assertion a" "\<forall>(k, b) \<in> set m. plain_assertion b"
  shows "\<forall>(k, b) \<in> set m'. plain_assertion b"
proof -
  obtain c where c: "m' = map_set (as_id a) c m" "plain_assertion c"
  proof (cases "map_get m (as_id a)")
    case None
    then show ?thesis using that [of a] assms(1,2) by (simp add: put_assertion_def)
  next
    case (Some b)
    then obtain c where "mergeAssertion b a = Inr c" "m' = map_set (as_id a) c m" using assms(1) by (auto simp: put_assertion_def)
    moreover have "plain_assertion b" using map_get_Some_in [OF Some] assms(3) by auto
    ultimately show ?thesis using that [of c] mergeAssertion_plain assms(2) by blast
  qed
  have "x \<in> insert (as_id a, c) (set m)" if "x \<in> set m'" for x using set_map_set that unfolding c(1) by fastforce
  moreover have "\<forall>(k, b) \<in> insert (as_id a, c) (set m). plain_assertion b" using c(2) assms(3) by simp
  ultimately show ?thesis by (intro ballI) (rule bspec)
qed

interpretation put_plain: loop_invariant put_assertion "\<lambda>m. \<forall>(k, b) \<in> set m. plain_assertion b" plain_assertion
  by unfold_locales (rule put_assertion_plain)

lemma appendFactAssertions_plain:
  assumes "appendFactAssertions f g = Inr h" "\<forall>a \<in> set (fact_assertions f). plain_assertion a" "\<forall>a \<in> set (fact_assertions g). plain_assertion a"
  shows "\<forall>a \<in> set (fact_assertions h). plain_assertion a"
proof -
  obtain m where m: "fold_r put_assertion (fact_assertions g) (map_from (map (\<lambda>a. (as_id a, a)) (fact_assertions f))) = Inr m"
    "h = f\<lparr>fact_assertions := sort_key as_id (map snd m)\<rparr>"
    using assms(1) by (auto simp: appendFactAssertions_def)
  have "set (fold (\<lambda>(k, v). map_set k v) kvs m) \<subseteq> set kvs \<union> set m" for kvs and m :: "(string, fact_assertion) jsmap"
    by (induction kvs arbitrary: m) (use set_map_set in fastforce)+
  from this [of "map (\<lambda>a. (as_id a, a)) (fact_assertions f)" "[]"]
  have "\<forall>(k, b) \<in> set (map_from (map (\<lambda>a. (as_id a, a)) (fact_assertions f))). plain_assertion b"
    using assms(2) unfolding map_from_def by auto
  from put_plain.loop_keeps [OF this _ m(1)] have "\<forall>(k, b) \<in> set m. plain_assertion b" using assms(3) by blast
  then show ?thesis using m(2) by auto
qed

lemma addFact_plain:
  assumes "addFact hash (fact_of authority [p] subject predicate x) store = Inr (k, store')" "plain_facts store"
  shows "plain_facts store'"
proof -
  let ?i = "fact_of authority [p] subject predicate x"
  obtain b f where b: "buildFact hash ?i = Inr b" "k = fact_id b" "store' = map_set k f store"
    and f: "(case map_get store k of None \<Rightarrow> Inr b | Some g \<Rightarrow> appendFactAssertions g b) = Inr f"
    using assms(1) by (auto simp: addFact_def)
  obtain a where a: "fact_assertions b = [a]" "buildAssertion hash (fact_id b) ?i = Inr a" using buildFact_ok(6) [OF b(1)] by blast
  have pb: "\<forall>a \<in> set (fact_assertions b). plain_assertion a" using a(1) buildAssertion_plain [OF a(2)] by simp
  have "\<forall>a \<in> set (fact_assertions f). plain_assertion a"
  proof (cases "map_get store k")
    case None
    then show ?thesis using f pb by simp
  next
    case (Some g)
    then have "\<forall>a \<in> set (fact_assertions g). plain_assertion a" using assms(2) map_get_Some_in [OF Some] by (auto simp: plain_facts_def)
    then show ?thesis using appendFactAssertions_plain [of g b f] f Some pb by simp
  qed
  then have all: "\<forall>(k, f) \<in> insert (k, f) (set store). \<forall>a \<in> set (fact_assertions f). plain_assertion a"
    using assms(2) by (simp add: plain_facts_def)
  have "y \<in> insert (k, f) (set store)" if "y \<in> set store'" for y using set_map_set that unfolding b(3) by fastforce
  then show ?thesis unfolding plain_facts_def by (intro ballI bspec [OF all])
qed

interpretation build_facts: build_contract_of hash "facts_ok hash" for hash
proof
  show "facts_ok hash s'" if "facts_ok hash s" "sink_claim hash l s = Inr s'" for s s' l
    using that(1) sink_others(1) [OF that(2)] by (simp add: facts_ok_def)
  show "facts_ok hash s'" if "facts_ok hash s" "k \<noteq> AppKind" "semanticEntity i k label attributes = Inr e" "sink_entity e s = Inr s'"
    for s s' i k label attributes e
    using that(1) sink_others(3) [OF that(4)] by (simp add: facts_ok_def)
  show "facts_ok hash s'" if s: "facts_ok hash s" and a: "sink_fact hash (fact_of authority [p] subject predicate x) s = Inr s'"
    for s s' authority p subject predicate x
  proof -
    obtain k fs where "addFact hash (fact_of authority [p] subject predicate x) (built_facts s) = Inr (k, fs)" "s' = s\<lparr>built_facts := fs\<rparr>"
      using a by (auto simp: sink_fact_def)
    then show ?thesis using s addFact_store_ok addFact_plain by (auto simp: facts_ok_def)
  qed
qed

end
