(* ===== verification/ValidateIR.thy ===== *)
theory ValidateIR
  imports BuildInvariant
begin

text \<open>
  Validation of an IR against the input it was built from, \<^verbatim>\<open>src/src/compiler/ir/validate-engineering-ir.ts\<close>. The inspection of property
  descriptors, prototypes and proxies has no counterpart: values of the model are own data. The result is the IR that is frozen.
\<close>

section \<open>Identities\<close>

fun check_canonical_ids :: "string option \<Rightarrow> string list \<Rightarrow> string \<Rightarrow> unit result" where
  "check_canonical_ids previous [] collection = Inr ()"
| "check_canonical_ids previous (current # ids) collection =
     bind_r (throw_if (trim current = [] \<or> (case previous of None \<Rightarrow> False | Some p \<Rightarrow> compareCodeUnits p current \<ge> 0))
       (CodedFailure ''IR-VALIDATION-005'' [collection])) (\<lambda>_. check_canonical_ids (Some current) ids collection)"

definition assertCanonicalIds :: "string list \<Rightarrow> string \<Rightarrow> unit result" where
  "assertCanonicalIds ids collection = check_canonical_ids None ids collection"

text \<open>\<open>JSON.stringify\<close> of two lists differs.\<close>

definition prints_differently :: "('a \<Rightarrow> json) \<Rightarrow> 'a list \<Rightarrow> 'a list \<Rightarrow> bool" where
  "prints_differently enc xs ys \<longleftrightarrow> stringify (JArray (map enc xs)) \<noteq> stringify (JArray (map enc ys))"

definition check_entity :: "string \<Rightarrow> semantic_entity \<Rightarrow> unit result" where
  "check_entity app e = (let k = entity_kind_name (ent_kind e) in
     bind_r (throw_if (\<not> isCanonicalSemanticEntityIdentity (ent_id e) k \<or> (ent_kind e = AppKind \<and> ent_id e \<noteq> app))
       (CodedFailure ''IR-VALIDATION-006'' [ent_id e, k])) (\<lambda>_.
     bind_r (normalizeAttributes (ent_attributes e)) (\<lambda>normal.
     throw_if (prints_differently attribute_json (ent_attributes e) normal) (CodedFailure ''IR-VALIDATION-005'' [ent_id e]))))"

definition assertEntityIdentities :: "engineering_ir \<Rightarrow> unit result" where
  "assertEntityIdentities ir = bind_r (assertCanonicalIds (map ent_id (entities ir)) ''entities'') (\<lambda>_.
     check_all (check_entity (appId ir)) (entities ir))"

section \<open>Evidence\<close>

definition evidence_kind_ok :: "string \<Rightarrow> bool" where
  "evidence_kind_ok k \<longleftrightarrow> k \<noteq> [] \<and> length k \<le> 64 \<and> is_lower (hd k) \<and>
     list_all (\<lambda>c. is_lower_alnum c \<or> c = CHR ''.'' \<or> c = CHR ''_'' \<or> c = CHR ''-'') (tl k)"

text \<open>The bytes of a code unit below 256 in UTF-8.\<close>

definition utf8_bytes :: "string \<Rightarrow> nat" where
  "utf8_bytes s = sum_list (map (\<lambda>c. if char_between 0 127 c then 1 else 2) s)"

definition isDigest :: "string \<Rightarrow> string \<Rightarrow> bool" where
  "isDigest v algorithm \<longleftrightarrow> starts_with v (algorithm @ '':'') \<and> length v = length algorithm + 65 \<and>
     is_sha256_hex (drop (length algorithm + 1) v)"

definition evidence_ok :: "evidence_reference \<Rightarrow> bool" where
  "evidence_ok e \<longleftrightarrow> evidence_kind_ok (ev_kind e) \<and> ev_ref e \<noteq> [] \<and> trim (ev_ref e) = ev_ref e \<and> utf8_bytes (ev_ref e) \<le> 2048 \<and>
     list_all (\<lambda>c. \<not> char_between 0 31 c \<and> \<not> char_between 127 127 c) (ev_ref e) \<and>
     (case ev_digest e of None \<Rightarrow> True | Some d \<Rightarrow> isDigest d ''sha256'' \<or> isDigest d ''blake3'')"

definition assertEvidenceReferences :: "evidence_reference list \<Rightarrow> string \<Rightarrow> string \<Rightarrow> unit result" where
  "assertEvidenceReferences es factId assertionId =
     bind_r (throw_if (length es > 1024) (CodedFailure ''IR-VALIDATION-008'' [])) (\<lambda>_.
     check_all (\<lambda>e. throw_if (\<not> evidence_ok e) (CodedFailure ''IR-VALIDATION-008'' [])) es)"

section \<open>Facts\<close>

definition expectedFactId :: "(string \<Rightarrow> string) \<Rightarrow> semantic_fact \<Rightarrow> string result" where
  "expectedFactId hash f = bind_r (factIdentity (fact_subject f) (fact_predicate f) (fact_object f)) (\<lambda>t. Inr (fact_id_of hash t))"

definition assertion_data :: "fact_assertion \<Rightarrow> json" where
  "assertion_data a = JObject ([(''id'', JString (as_id a)), (''authority'', JString (authority_name (as_authority a))),
     (''confidence'', JNumber (as_confidence a)), (''provenance'', JArray (map provenance_json (as_provenance a))),
     (''evidence'', JArray (map evidence_json (as_evidence a))), (''validFromRevision'', JString (as_validFromRevision a))] @
     present ''validToRevision'' JString (as_validToRevision a))"

definition check_assertion :: "(string \<Rightarrow> string) \<Rightarrow> string \<Rightarrow> string \<Rightarrow> fact_assertion \<Rightarrow> unit result" where
  "check_assertion hash revision factId a = in_order [
     throw_if (as_provenance a = [] \<or> length (as_provenance a) > 1024 \<or> length (as_evidence a) > 1024) (CodedFailure ''IR-VALIDATION-008'' []),
     (case canonicalJson (assertion_data a) of Inl _ \<Rightarrow> throw (CodedFailure ''IR-VALIDATION-008'' []) | Inr _ \<Rightarrow> Inr ()),
     throw_if (\<not> valid_confidence (as_confidence a) \<or> as_provenance a = []) (CodedFailure ''IR-VALIDATION-008'' []),
     assertEvidenceReferences (as_evidence a) factId (as_id a),
     throw_if (as_validToRevision a \<noteq> None) (CodedFailure ''IR-VALIDATION-009'' []),
     bind_r (normalizeProvenance (as_provenance a)) (\<lambda>ps.
       if prints_differently provenance_json (as_provenance a) ps then throw (CodedFailure ''IR-VALIDATION-005'' [as_id a])
       else bind_r (normalizeEvidence (as_evidence a)) (\<lambda>es.
         throw_if (prints_differently evidence_json (as_evidence a) es) (CodedFailure ''IR-VALIDATION-005'' [as_id a]))),
     throw_if (as_id a \<noteq> factAssertionId hash factId (as_authority a) (as_provenance a)) (CodedFailure ''IR-VALIDATION-008'' [as_id a]),
     throw_if (as_validFromRevision a \<noteq> revision) (CodedFailure ''IR-VALIDATION-009'' [as_id a])]"

definition check_fact_identity :: "(string \<Rightarrow> string) \<Rightarrow> string \<Rightarrow> semantic_fact \<Rightarrow> unit result" where
  "check_fact_identity hash revision f =
     bind_r (expectedFactId hash f) (\<lambda>expected. in_order [
       throw_if (fact_id f \<noteq> expected) (CodedFailure ''IR-VALIDATION-007'' [fact_id f]),
       throw_if (stringify (fact_object_json (fact_object f)) \<noteq> stringify (fact_object_json (normalizeFactObject (fact_object f))))
         (CodedFailure ''IR-VALIDATION-005'' [fact_id f]),
       assertCanonicalIds (map as_id (fact_assertions f)) (''fact:'' @ fact_id f @ '':assertions''),
       check_all (check_assertion hash revision (fact_id f)) (fact_assertions f)])"

definition assertFactIdentities :: "(string \<Rightarrow> string) \<Rightarrow> engineering_ir \<Rightarrow> unit result" where
  "assertFactIdentities hash ir = bind_r (assertCanonicalIds (map fact_id (facts ir)) ''facts'') (\<lambda>_.
     check_all (check_fact_identity hash (semanticRevision ir)) (facts ir))"

section \<open>Scenarios and revisions\<close>

definition assertScenarioCache :: "engineering_ir \<Rightarrow> unit result" where
  "assertScenarioCache ir = bind_r (assertCanonicalIds (map scen_id (scenarios ir)) ''scenarios'') (\<lambda>_.
     bind_r (deriveScenarioDefinitions (entities ir) (facts ir)) (\<lambda>derived.
     throw_if (prints_differently scenario_json (scenarios ir) derived) (CodedFailure ''IR-VALIDATION-010'' [])))"

definition check_graph_identity :: "engineering_ir \<Rightarrow> build_input \<Rightarrow> unit result" where
  "check_graph_identity ir i =
     bind_r (appEntityId (Some (bi_appId i))) (\<lambda>expectedAppId. bind_r (engineeringGraphId (Some (bi_appId i))) (\<lambda>expectedGraphId.
     throw_if (appId ir \<noteq> expectedAppId \<or> graphId ir \<noteq> expectedGraphId) (CodedFailure ''IR-VALIDATION-002'' [])))"

definition check_input_revision :: "(string \<Rightarrow> string) \<Rightarrow> engineering_ir \<Rightarrow> build_input \<Rightarrow> unit result" where
  "check_input_revision hash ir i = bind_r (inputRevisionPayload i) (\<lambda>payload.
     throw_if (inputRevision ir \<noteq> revision_of hash payload) (CodedFailure ''IR-VALIDATION-003'' []))"

definition check_semantic_revision :: "(string \<Rightarrow> string) \<Rightarrow> engineering_ir \<Rightarrow> unit result" where
  "check_semantic_revision hash ir = throw_if (semanticRevision ir \<noteq>
     revision_of hash (semanticRevisionPayload (graphId ir) (appId ir) (entities ir) (facts ir) (scenarios ir)))
     (CodedFailure ''IR-VALIDATION-004'' [])"

definition validateEngineeringIR :: "(string \<Rightarrow> string) \<Rightarrow> engineering_ir \<Rightarrow> build_input \<Rightarrow> engineering_ir result" where
  "validateEngineeringIR hash ir i = bind_r (in_order [
     assertEngineeringIRInputIdentities i,
     check_graph_identity ir i,
     assertEntityIdentities ir,
     assertFactIdentities hash ir,
     assertEngineeringIRReferences (map ent_id (entities ir)) (facts ir) (scenarios ir),
     assertEngineeringIRPredicateSignatures (entities ir) (facts ir),
     assertScenarioCache ir,
     check_input_revision hash ir i,
     check_semantic_revision hash ir]) (\<lambda>_. Inr ir)"

definition buildValidatedEngineeringIR :: "(string \<Rightarrow> string) \<Rightarrow> build_input \<Rightarrow> engineering_ir result" where
  "buildValidatedEngineeringIR hash i = bind_r (buildEngineeringIR hash i) (\<lambda>ir. validateEngineeringIR hash ir i)"

section \<open>Identities in order\<close>

lemma check_canonical_ids_ok:
  "check_canonical_ids previous ids collection = Inr () \<longleftrightarrow> sorted_wrt (<) ids \<and> (\<forall>i \<in> set ids. trim i \<noteq> []) \<and>
     (\<forall>p. previous = Some p \<longrightarrow> (\<forall>i \<in> set ids. p < i))"
proof (induction ids arbitrary: previous)
  case (Cons i ids)
  have c: "compareCodeUnits p i \<ge> 0 \<longleftrightarrow> \<not> p < i" for p by (auto simp: compareCodeUnits_def)
  have "check_canonical_ids previous (i # ids) collection = Inr () \<longleftrightarrow> trim i \<noteq> [] \<and> (\<forall>p. previous = Some p \<longrightarrow> p < i) \<and>
      check_canonical_ids (Some i) ids collection = Inr ()"
    by (cases previous) (auto simp: c bind_r_Inr_iff)
  then show ?case unfolding Cons.IH by (auto dest: less_trans)
qed simp

lemma assertCanonicalIds_ok:
  "assertCanonicalIds ids collection = Inr () \<longleftrightarrow> sorted_wrt (<) ids \<and> (\<forall>i \<in> set ids. trim i \<noteq> [])"
  by (simp add: assertCanonicalIds_def check_canonical_ids_ok)

lemma trim_not_empty: "c \<in> set s \<Longrightarrow> \<not> is_space c \<Longrightarrow> trim s \<noteq> []"
proof -
  assume c: "c \<in> set s" "\<not> is_space c"
  define ds where "ds = dropWhile is_space s"
  have ds: "ds \<noteq> []" using c by (auto simp: ds_def dropWhile_eq_Nil_conv)
  then have "\<not> is_space (hd ds)" unfolding ds_def by (rule hd_dropWhile)
  moreover have "hd ds \<in> set (rev ds)" using ds by simp
  ultimately have "dropWhile is_space (rev ds) \<noteq> []" unfolding dropWhile_eq_Nil_conv by blast
  then have "trim s \<noteq> []" by (simp add: trim_def ds_def)
  then show ?thesis .
qed

lemma canonical_trim:
  assumes "isCanonicalSemanticEntityIdentity i (entity_kind_name k)"
  shows "trim i \<noteq> []"
proof -
  have "\<exists>c \<in> set (hd (split_on (CHR '':'') i)). \<not> is_space c"
  proof -
    have "\<exists>c \<in> set (entity_kind_name k). \<not> is_space c" by (cases k) (simp_all add: is_space_def char_between_def)
    moreover have "\<exists>c \<in> set ''scenario''. \<not> is_space c" by (simp add: is_space_def char_between_def)
    ultimately show ?thesis using canonical_split [OF assms] by (elim disjE conjE exE) simp_all
  qed
  moreover have "set (hd (split_on (CHR '':'') i)) \<subseteq> set i"
  proof -
    have "set (hd ws) \<subseteq> set (join_with [c] ws)" if "ws \<noteq> []" for ws c using that by (cases ws; cases "tl ws") auto
    then show ?thesis using join_split [of "CHR '':''" i] split_on_nonempty [of "CHR '':''" i] by metis
  qed
  ultimately show ?thesis using trim_not_empty by blast
qed

lemma sorted_store:
  assumes "distinct (map fst store)" "\<forall>(k, v) \<in> set store. k = f v"
  shows "sorted_wrt (<) (map f (sort_key f (map snd store)))"
proof -
  have "map f (map snd store) = map fst store" using assms(2) by (auto simp: case_prod_unfold)
  then have "distinct (map f (map snd store))" using assms(1) by (simp only:)
  moreover have "mset (map f (sort_key f (map snd store))) = mset (map f (map snd store))" by (simp only: mset_map mset_sort)
  ultimately have "distinct (map f (sort_key f (map snd store)))" using mset_eq_imp_distinct_iff by blast
  then show ?thesis by (simp add: strict_sorted_iff)
qed

section \<open>The revision of facts\<close>

lemma with_revision_simps [simp]:
  "fact_id (with_revision r f) = fact_id f" "fact_subject (with_revision r f) = fact_subject f"
  "fact_predicate (with_revision r f) = fact_predicate f" "fact_object (with_revision r f) = fact_object f"
  "fact_assertions (with_revision r f) = map (\<lambda>a. a\<lparr>as_validFromRevision := r\<rparr>) (fact_assertions f)"
  by (simp_all add: with_revision_def)

lemma same_triple_with_revision: "same_triple (with_revision r)"
  by (simp add: same_triple_def)

lemma canonicalFact_with_revision: "canonicalFact (with_revision r f) = canonicalFact f"
  by (simp add: canonicalFact_def canonicalAssertion_def)

lemma check_fact_with_revision: "check_fact m (with_revision r f) = check_fact m f"
proof -
  have "subject_variants m vs (with_revision r f) = subject_variants m vs f" "same_object_kind (with_revision r f) = same_object_kind f"
    "matching_variants m vs (with_revision r f) = matching_variants m vs f" for vs
    by (simp_all add: subject_variants_def subjectKindOf_def same_object_kind_def fun_eq_iff matching_variants_def)
  then show ?thesis unfolding check_fact_def with_revision_simps by (simp only:)
qed

lemma signatures_with_revision:
  "assertEngineeringIRPredicateSignatures es (map (with_revision r) fs) = assertEngineeringIRPredicateSignatures es fs"
proof -
  have s: "sort_key fact_id (map (with_revision r) fs) = map (with_revision r) (sort_key fact_id fs)"
    by (rule map_sort_key [symmetric]) simp
  have c: "check_all (check_fact m) (map (with_revision r) gs) = check_all (check_fact m) gs" for m gs
    by (induction gs) (simp_all add: check_fact_with_revision)
  show ?thesis unfolding assertEngineeringIRPredicateSignatures_def s Let_def c ..
qed

lemma references_with_revision:
  "assertEngineeringIRReferences ids (map (with_revision r) fs) ss = assertEngineeringIRReferences ids fs ss"
proof -
  have a: "check_all check_assertion_authority (map (\<lambda>a. a\<lparr>as_validFromRevision := r\<rparr>) as) = check_all check_assertion_authority as" for as
    by (induction as) (simp_all add: check_assertion_authority_def)
  have "check_fact_references ids (with_revision r f) = check_fact_references ids f" for f
    by (cases "fact_object f") (simp_all add: check_fact_references_def a)
  then have "check_all (check_fact_references ids) (map (with_revision r) gs) = check_all (check_fact_references ids) gs" for gs
    by (induction gs) simp_all
  then show ?thesis by (simp add: assertEngineeringIRReferences_def)
qed

section \<open>A built IR is valid\<close>

lemma check_entity_ok: "entity_ok app e \<Longrightarrow> check_entity app e = Inr ()"
  by (auto simp: entity_ok_def check_entity_def prints_differently_def bind_r_Inr_iff)

lemma check_assertion_ok:
  assumes "assertion_ok hash factId a" "plain_assertion a"
  shows "check_assertion hash r factId (a\<lparr>as_validFromRevision := r\<rparr>) = Inr ()"
proof -
  have a: "as_id a = factAssertionId hash factId (as_authority a) (as_provenance a)" "valid_confidence (as_confidence a)"
    "as_provenance a \<noteq> []" "normalizeProvenance (as_provenance a) = Inr (as_provenance a)" "as_validToRevision a = None"
    "as_evidence a = []" "length (as_provenance a) = 1"
    using assms unfolding assertion_ok_def plain_assertion_def by blast+
  have "finite_json (provenance_json p)" for p by (simp add: provenance_json_def optional_string_def split: option.splits)
  then have "finite_json (assertion_data (a\<lparr>as_validFromRevision := r\<rparr>))"
    using a(2,5,6) by (simp add: assertion_data_def present_def list_all_iff valid_confidence_def)
  then have c: "\<exists>v. canonicalJson (assertion_data (a\<lparr>as_validFromRevision := r\<rparr>)) = Inr v" by (simp add: canonicalJson_def)
  have n: "normalizeEvidence [] = Inr []" by (simp add: normalizeEvidence_eq)
  show ?thesis using a c n by (auto simp: check_assertion_def in_order_def assertEvidenceReferences_def prints_differently_def)
qed

lemma first_letter_trim: "\<not> is_space c \<Longrightarrow> trim (c # s) \<noteq> []"
  by (rule trim_not_empty [of c]) simp_all

lemma prefixed_trim: "trim (''fact:'' @ s) \<noteq> []" "trim (''assertion:'' @ s) \<noteq> []"
  by (simp_all add: first_letter_trim is_space_def char_between_def)

lemma check_fact_identity_ok:
  assumes "stored_fact_ok hash f" "\<forall>a \<in> set (fact_assertions f). plain_assertion a"
  shows "check_fact_identity hash r (with_revision r f) = Inr ()"
proof -
  let ?as = "map (\<lambda>a. a\<lparr>as_validFromRevision := r\<rparr>) (fact_assertions f)"
  obtain t where t: "factIdentity (fact_subject f) (fact_predicate f) (fact_object f) = Inr t" "fact_id f = fact_id_of hash t"
    and f: "normalizeFactObject (fact_object f) = fact_object f" "sorted_wrt (<) (map as_id (fact_assertions f))"
      "\<forall>a \<in> set (fact_assertions f). assertion_ok hash (fact_id f) a"
    using assms(1) unfolding stored_fact_ok_def by blast
  have ids: "map as_id ?as = map as_id (fact_assertions f)" by simp
  have "trim (as_id a) \<noteq> []" if "a \<in> set (fact_assertions f)" for a
  proof -
    have "as_id a = factAssertionId hash (fact_id f) (as_authority a) (as_provenance a)" using f(3) that by (auto simp: assertion_ok_def)
    then show ?thesis using prefixed_trim(2) by (simp add: factAssertionId_def)
  qed
  then have "assertCanonicalIds (map as_id ?as) collection = Inr ()" for collection
    unfolding ids assertCanonicalIds_ok using f(2) by simp
  moreover have "check_all (check_assertion hash r (fact_id f)) ?as = Inr ()"
    unfolding check_all_Inr_iff using check_assertion_ok f(3) assms(2) by auto
  ultimately show ?thesis using t f(1) by (simp add: check_fact_identity_def expectedFactId_def in_order_def)
qed

lemma build_invariants:
  assumes "appEntityId i = Inr app" "run_actions [new_entity app AppKind label [], build_steps hash app j] empty_build = Inr s"
  shows "entities_ok app s" "facts_ok hash s"
proof -
  obtain e s1 where e: "semanticEntity app AppKind label [] = Inr e" "sink_entity e empty_build = Inr s1" "build_steps hash app j s1 = Inr s"
    using assms(2) by (auto simp: run_actions_def new_entity_def with_value_def)
  have "entities_ok app empty_build" by (simp add: entities_ok_def empty_build_def)
  then have "entities_ok app s1" by (rule sink_entity_ok [OF _ semanticEntity_ok(3) [OF e(1)] e(2)]) simp
  then show "entities_ok app s" by (rule preservesD [OF build_entities.steps_kept _ e(3)])
  have "facts_ok hash empty_build" by (simp add: facts_ok_def fact_store_ok_def plain_facts_def empty_build_def)
  then have "facts_ok hash s1" using sink_others(3) [OF e(2)] by (simp add: facts_ok_def)
  then show "facts_ok hash s" by (rule preservesD [OF build_facts.steps_kept _ e(3)])
qed

lemma scenario_cache_ok:
  assumes "deriveScenarioDefinitions es fs = Inr ss" "distinct (map fact_id fs)" "sorted_wrt (<) (map ent_id es)"
    "\<forall>e \<in> set es. trim (ent_id e) \<noteq> []" "entities ir = es" "facts ir = map (with_revision r) fs" "scenarios ir = ss"
  shows "assertScenarioCache ir = Inr ()"
proof -
  have "inj_on (with_revision r) (set fs)"
  proof (rule inj_onI)
    fix f g assume "f \<in> set fs" "g \<in> set fs" "with_revision r f = with_revision r g"
    moreover from this have "fact_id f = fact_id g" using with_revision_simps(1) by metis
    ultimately show "f = g" using assms(2) by (simp add: distinct_map inj_on_def)
  qed
  note d = deriveScenarioDefinitions_image [OF same_triple_with_revision this, of es]
  note ids = derived_scenario_ids [OF assms(1)]
  have "distinct (map ent_id es)" using assms(3) by (simp add: strict_sorted_iff)
  then have "distinct (map ent_id (filter (\<lambda>e. ent_kind e = ScenarioKind) es))" by (rule distinct_map_filter)
  then have "distinct (map scen_id ss)" using mset_eq_imp_distinct_iff [OF ids(1)] by simp
  then have sorted: "sorted_wrt (<) (map scen_id ss)" unfolding strict_sorted_iff using ids(2) by (intro conjI)
  have "set (map scen_id ss) = set (map ent_id (filter (\<lambda>e. ent_kind e = ScenarioKind) es))"
    using arg_cong [OF ids(1), of set_mset] by (simp only: set_mset_mset)
  then have "\<forall>j \<in> set (map scen_id ss). trim j \<noteq> []" using assms(4) by auto
  then have c: "assertCanonicalIds (map scen_id ss) c = Inr ()" for c unfolding assertCanonicalIds_ok using sorted by (intro conjI)
  show ?thesis by (simp add: assertScenarioCache_def assms(1,5-7) d c prints_differently_def)
qed

lemma validated:
  assumes i: "assertEngineeringIRInputIdentities i = Inr ()" "appEntityId (Some (bi_appId i)) = Inr app"
      "engineeringGraphId (Some (bi_appId i)) = Inr graph" "inputRevisionPayload i = Inr payload"
    and ir: "ir = \<lparr>graphId = graph, inputRevision = revision_of hash payload, semanticRevision = r, appId = app, entities = es,
      facts = map (with_revision r) fs, scenarios = ss\<rparr>"
    and r: "r = revision_of hash (semanticRevisionPayload graph app es fs ss)"
    and eo: "\<forall>e \<in> set es. entity_ok app e"
    and fo: "\<forall>f \<in> set fs. stored_fact_ok hash f \<and> (\<forall>a \<in> set (fact_assertions f). plain_assertion a)"
    and sorted: "sorted_wrt (<) (map ent_id es)" "sorted_wrt (<) (map fact_id fs)"
    and f: "deriveScenarioDefinitions es fs = Inr ss" "assertEngineeringIRReferences (map ent_id es) fs ss = Inr ()"
      "assertEngineeringIRPredicateSignatures es fs = Inr ()"
  shows "validateEngineeringIR hash ir i = Inr ir"
proof -
  have te: "\<forall>e \<in> set es. trim (ent_id e) \<noteq> []" using eo canonical_trim unfolding entity_ok_def by blast
  then have "assertCanonicalIds (map ent_id es) c = Inr ()" for c unfolding assertCanonicalIds_ok using sorted(1) by simp
  then have e: "assertEntityIdentities ir = Inr ()"
    using eo check_entity_ok by (simp add: assertEntityIdentities_def ir check_all_Inr_iff)
  have "trim (fact_id f) \<noteq> []" if f: "f \<in> set fs" for f
  proof -
    have "stored_fact_ok hash f" using fo f by blast
    then obtain t where "fact_id f = fact_id_of hash t" unfolding stored_fact_ok_def by blast
    then show ?thesis using prefixed_trim(1) by (simp add: fact_id_of_def)
  qed
  moreover have m: "map fact_id (map (with_revision r) fs) = map fact_id fs" by simp
  ultimately have "assertCanonicalIds (map fact_id (map (with_revision r) fs)) c = Inr ()" for c
    unfolding m assertCanonicalIds_ok using sorted(2) by simp
  moreover have "check_all (check_fact_identity hash r) (map (with_revision r) fs) = Inr ()"
    unfolding check_all_Inr_iff using fo check_fact_identity_ok by auto
  ultimately have fi: "assertFactIdentities hash ir = Inr ()" unfolding assertFactIdentities_def by (simp add: ir)
  have "distinct (map fact_id fs)" using sorted(2) by (simp add: strict_sorted_iff)
  then have sc: "assertScenarioCache ir = Inr ()" by (rule scenario_cache_ok [where r = r, OF f(1) _ sorted(1) te]) (simp_all add: ir)
  have "map canonicalFact (map (with_revision r) fs) = map canonicalFact fs" by (simp add: canonicalFact_with_revision)
  then have sr: "check_semantic_revision hash ir = Inr ()"
    unfolding check_semantic_revision_def semanticRevisionPayload_def by (simp only: ir engineering_ir.simps r semanticRevisionPayload_def throw_if_Inr_iff not_not)
  show ?thesis
    unfolding validateEngineeringIR_def in_order_def
    by (simp add: i e fi sc sr) (simp add: ir references_with_revision signatures_with_revision f check_graph_identity_def check_input_revision_def i)
qed

text \<open>
  C21. A built IR is valid: whatever \<open>buildEngineeringIR\<close> returns for an input passes every check of \<open>validateEngineeringIR\<close> against this
  input, so validation never refuses a fresh build and \<open>buildValidatedEngineeringIR\<close> fails only where the build fails.
\<close>

theorem built_ir_valid:
  assumes "buildEngineeringIR hash i = Inr ir"
  shows "validateEngineeringIR hash ir i = Inr ir"
proof -
  obtain app graph payload s where b: "assertEngineeringIRInputIdentities i = Inr ()" "appEntityId (Some (bi_appId i)) = Inr app"
    "engineeringGraphId (Some (bi_appId i)) = Inr graph" "inputRevisionPayload i = Inr payload"
    "run_actions [new_entity app AppKind (bi_appName i) [], build_steps hash app i] empty_build = Inr s"
    "finish_build hash graph app (revision_of hash payload) s = Inr ir"
    using assms unfolding buildEngineeringIR_def bind_r_Inr_iff by auto
  define es where "es = sort_key ent_id (map snd (built_entities s))"
  define fs where "fs = sort_key fact_id (map snd (built_facts s))"
  obtain ss where f: "deriveScenarioDefinitions es fs = Inr ss" "assertEngineeringIRReferences (map ent_id es) fs ss = Inr ()"
    "assertEngineeringIRPredicateSignatures es fs = Inr ()"
    and ir: "ir = (let r = revision_of hash (semanticRevisionPayload graph app es fs ss) in \<lparr>graphId = graph,
      inputRevision = revision_of hash payload, semanticRevision = r, appId = app, entities = es, facts = map (with_revision r) fs, scenarios = ss\<rparr>)"
    using b(6) unfolding finish_build_def Let_def es_def [symmetric] fs_def [symmetric] bind_r_Inr_iff by auto
  define r where "r = revision_of hash (semanticRevisionPayload graph app es fs ss)"
  note ir = ir [unfolded Let_def r_def [symmetric]]
  note inv = build_invariants [OF b(2,5)]
  have eo: "\<forall>e \<in> set es. entity_ok app e" using inv(1) by (auto simp: es_def entities_ok_def)
  have fo: "\<forall>f \<in> set fs. stored_fact_ok hash f \<and> (\<forall>a \<in> set (fact_assertions f). plain_assertion a)"
    using inv(2) by (auto simp: fs_def facts_ok_def fact_store_ok_def plain_facts_def)
  have es: "sorted_wrt (<) (map ent_id es)" unfolding es_def using inv(1) by (intro sorted_store) (auto simp: entities_ok_def)
  have fs: "sorted_wrt (<) (map fact_id fs)" unfolding fs_def using inv(2) by (intro sorted_store) (auto simp: facts_ok_def fact_store_ok_def)
  show ?thesis by (rule validated [OF b(1-4) ir r_def eo fo es fs f])
qed

text \<open>A workspace of one block that declares a contract with one entity.\<close>

definition small_contract :: loaded_contract where
  "small_contract = \<lparr>lc_blockId = ''b'', lc_contractPath = ''c'', lc_contract = (empty_contract ''c'' ''n'')\<lparr>
     con_entities := [\<lparr>cent_id = ''E'', cent_label = None, cent_fields = []\<rparr>]\<rparr>\<rparr>"

definition small_workspace :: build_input where
  "small_workspace = \<lparr>bi_appId = ''shop'', bi_appName = ''Shop'',
     bi_blocks = [\<lparr>res_id = ''b'', res_version = ''1'', res_kind = Infra, res_installOrder = 1, res_manifestPath = ''m'',
       res_registrySourceId = ''s'', res_registryKind = OfficialRegistry, res_registryLocation = CompilerLocation, res_registryPath = ''r''\<rparr>],
     bi_manifests = [], bi_acceptanceIds = [], bi_policies = [], bi_contracts = Some [small_contract], bi_flows = None\<rparr>"

theorem built_ir_valid_witness:
  "\<exists>ir. buildEngineeringIR rev small_workspace = Inr ir \<and> validateEngineeringIR rev ir small_workspace = Inr ir"
proof -
  have "is_ok (buildEngineeringIR rev small_workspace)" by code_simp
  then obtain ir where r: "buildEngineeringIR rev small_workspace = Inr ir" by (auto simp: is_ok_iff)
  then show ?thesis using built_ir_valid [OF r] by blast
qed

end
