(* ===== verification/Spec2Isabelle.thy ===== *)
theory Spec2Isabelle
  imports ManifestGraph ResolvePlan FactDelta PipelineLifecycle PipelineRun EffectGrant RequirementBinding ImpactComplete ValidateIR
begin

text \<open>
  Verification of the core of sec, a compiler of engineering plans into checked application workspaces.

  \<^bold>\<open>The program.\<close> A plan names building blocks. The resolver closes the plan under the manifests'
  requirements, refuses conflicts and orders the blocks (\<^verbatim>\<open>src/src/compiler/resolve\<close>). The compiler
  records what it knows as an intermediate representation of entities and facts whose predicates have declared
  signatures (\<^verbatim>\<open>src/src/semantics/engineering-ir\<close>), and compares two such representations as a delta of facts
  (\<^verbatim>\<open>src/src/compiler/ir\<close>). What such a delta can affect is found by following facts from the changed entities
  (\<^verbatim>\<open>src/src/compiler/semantic-impact\<close>). A pipeline of stages drives this (\<^verbatim>\<open>src/src/compiler/pipeline\<close>,
  \<^verbatim>\<open>src/src/application\<close>): a stage owns passes, runs only when its requirements succeeded, and writes its
  progress to a lock and a journal behind a write fence. Effects on the host go through semantic operations
  (\<^verbatim>\<open>src/src/execution/operation\<close>): an intent is compiled to digests, bound to providers, settled, read back and
  joined or retried, under a grant that is consumed once. Identities, paths and digests
  (\<^verbatim>\<open>src/src/contracts\<close>) are shared by all parts.

  \<^bold>\<open>Theories and sources.\<close>

  \<^item> \<open>Prelude\<close>: results (\<open>failure + 'a\<close>) for code that throws, loops and maps over them, insertion-ordered
    maps and sets. Interfaces: \<open>js_store\<close> (a map, interpreted on association lists) and \<open>loop_invariant\<close> (a loop
    body that keeps a predicate, interpreted on the loops of the resolver and of the stage compiler).
  \<^item> \<open>Text\<close>, \<open>Json\<close>: the string operations and the JSON printing of JavaScript that the sources use.
  \<^item> \<open>ReadyRanks\<close>, \<open>RankOrder\<close>, \<open>Manifest\<close>, \<open>ManifestGraph\<close>: the manifest data of
    \<^verbatim>\<open>src/src/compiler/contract/plan-manifest.ts\<close> and the resolver of
    \<^verbatim>\<open>src/src/compiler/resolve/manifest-graph.ts\<close>. The binary heap of ready blocks implements the interface
    \<open>min_queue\<close>; the ordering loop is proved against that interface.
  \<^item> \<open>ResolvePlan\<close>: \<^verbatim>\<open>src/src/compiler/resolve/resolve-plan.ts\<close>, the prepared resolution and the ownership of
    install targets.
  \<^item> \<open>LogicalIdentity\<close>: block identifiers, portable paths, collision keys and registry versions
    (\<^verbatim>\<open>src/src/semantics/identity/block.ts\<close>, \<^verbatim>\<open>src/src/contracts/logical-path.ts\<close> and its neighbours).
  \<^item> \<open>PredicateSignatures\<close>: the registry of predicate signatures and the check of facts against it
    (\<^verbatim>\<open>src/src/semantics/engineering-ir/predicate-signatures.ts\<close>).
  \<^item> \<open>EngineeringIR\<close>, \<open>MergeDiff\<close>, \<open>FactDelta\<close>: the root of the representation, the payload of its semantic revision
    (\<^verbatim>\<open>src/src/compiler/ir/ir-revision.ts\<close>) and \<open>buildFactDelta\<close> (\<^verbatim>\<open>src/src/compiler/ir/build-fact-delta.ts\<close>).
  \<^item> \<open>IdentityComponents\<close>, \<open>IRNormalization\<close>, \<open>IRIdentity\<close>, \<open>IRFactStore\<close>: components of identities
    (\<^verbatim>\<open>src/src/semantics/definitions/identity-components.ts\<close>), normal forms, the grammar and the constructors of persisted
    identities, reference checks, and the store of facts (\<^verbatim>\<open>ir-normalization.ts\<close>, \<^verbatim>\<open>ir-identity.ts\<close>,
    \<^verbatim>\<open>ir-fact-store.ts\<close> of \<^verbatim>\<open>src/src/compiler/ir\<close>).
  \<^item> \<open>SemanticContract\<close>, \<open>ContractLink\<close>: semantic contracts, the check of their identity components, the claims of
    namespaces, and the linking of references (\<^verbatim>\<open>src/src/semantics/definitions/types.ts\<close>, \<^verbatim>\<open>link.ts\<close>).
  \<^item> \<open>ScenarioFacts\<close>, \<open>AppendContract\<close>, \<open>IRRevision\<close>, \<open>BuildIR\<close>: scenario definitions derived from facts, the entities and
    facts of a contract, the text of the declared input, and \<open>buildEngineeringIR\<close> (\<^verbatim>\<open>scenario-facts.ts\<close>,
    \<^verbatim>\<open>append-semantic-contract.ts\<close>, \<^verbatim>\<open>ir-revision.ts\<close>, \<^verbatim>\<open>build-engineering-ir.ts\<close>). A build is a sequence of actions on the
    three stores of entities, facts and namespace owners.
  \<^item> \<open>BuildInvariant\<close>, \<open>ValidateIR\<close>: what every action of a build preserves, and \<open>validateEngineeringIR\<close>
    (\<^verbatim>\<open>src/src/compiler/ir/validate-engineering-ir.ts\<close>).
  \<^item> \<open>ImpactRules\<close>, \<open>LayeredPaths\<close>, \<open>ImpactTraversal\<close>, \<open>ImpactPropagation\<close>: the index of a representation
    (\<^verbatim>\<open>src/src/compiler/ir/index-engineering-ir.ts\<close>), the propagation rules and \<open>buildImpactPropagation\<close>
    (\<^verbatim>\<open>src/src/compiler/semantic-impact\<close>). \<open>LayeredPaths\<close> is the reference, all paths by length;
    \<open>ImpactOutput\<close>, \<open>JsonText\<close>, \<open>ImpactSeeds\<close> and \<open>ImpactComplete\<close> hold the lemmas on the output, the
    injectivity of JSON texts (interface \<open>prefix_code\<close>: a printer no value of which is a proper prefix of another's
    text, interpreted on members, elements and objects of strings), the seeds, and the composition with deltas and
    signatures.
  \<^item> \<open>Actions\<close>: asynchronous orchestration as actions over a history of calls to injected operations, and the
    settlement of failures (\<^verbatim>\<open>src/src/application/pipeline-failure.ts\<close>). Interfaces: \<open>action_invariant\<close>
    (predicates kept by every call that is free) and \<open>fenced_writes\<close>, which extends it. The relation \<open>attempted\<close>
    says which prefix of a list of calls was made and which call threw, \<open>settlement_value\<close> what a settlement throws.
  \<^item> \<open>PipelineStages\<close>, \<open>PipelineLifecycle\<close>, \<open>PipelineRun\<close>: pass tables, the stage compiler and stage state patches
    (\<^verbatim>\<open>src/src/compiler/pipeline\<close>), the lifecycle of a stage, of a transaction, of a pass and the sequence of
    stages (\<^verbatim>\<open>src/src/application/pipeline-stage-lifecycle.ts\<close>, \<^verbatim>\<open>pipeline-transaction-lifecycle.ts\<close>,
    \<^verbatim>\<open>pipeline-pass.ts\<close>, \<^verbatim>\<open>pipeline-run.ts\<close>).
  \<^item> \<open>Canonical\<close>: normalization, token stream, chunked encoding and digests of
    \<^verbatim>\<open>src/src/contracts/canonical.ts\<close>.
  \<^item> \<open>SemanticOperation\<close>, \<open>OperationSettlement\<close>, \<open>EffectGrant\<close>, \<open>RequirementBinding\<close>:
    \<^verbatim>\<open>src/src/execution/operation/semantic.ts\<close>, \<^verbatim>\<open>effect-grant.ts\<close> and
    \<^verbatim>\<open>requirement-binding-context.ts\<close>, over the module-level sets of issued and consumed objects as an explicit state, with step
    relations for arbitrary sequences of calls.

  \<^bold>\<open>What is shown.\<close> Resolver: the result is closed under requirements, free of conflicts, ordered by dependency
  and least by rank among such orders, uses only allowed providers, and each failure code is explained by the input; a
  refusal for a cycle comes with blocks on or behind a cycle; a prepared resolution describes exactly the entries the
  resolver returned. Identities: canonical names are safe on every host,
  their physical keys can be decoded. Signatures: the registry is unambiguous and the check of facts accepts
  exactly the facts with a matching variant; an empty additional key is not refused, a defect of the code.
  Representation: the grammar of identities is the range of their constructors, kinds do not overlap, and
  constructors are injective; the store keeps what was added, with its provenance and evidence; linked references name
  declarations of the right kind; derived scenarios are what the facts say; a built representation passes every check of the
  validation, and its input revision does not depend on the order of the declarations.
  Deltas: the two-pointer comparison is the classification by membership, applying a delta to the old facts
  gives the new ones, an empty delta means equal facts. Impact: the traversal keeps for each entity the least distance,
  all seeds at that distance and the least path; an impact lists exactly what is reached; on endpoints that pass the
  signatures no check inside the analysis fails, unless SHA-256 collides on seeds; it always returns. Pipeline: the calls of
  a stage run are determined on every path: what it reads, saves, records and throws, with the lock and the error
  that flow through them; in every lock it saves a pass is succeeded only with its requirements succeeded; the same holds
  of a transaction and of the sequence of stages with its documents; writes are fenced; failures are settled and
  never lost; the compiled stages have the declared ownership. Canonical values: the explicit stack spells the
  recursive encoding and digests ignore the order of keys. Operations: intents are canonical; bindings and settlement
  sets are accepted exactly when they match the plan's requirements one by one; recovered readbacks, retry
  admissions, effect grants and requirement contexts are used at most once, after they were issued, by a matching plan in
  time; a requirement context never exceeds the budgets and the deadline of its operation.

  \<^bold>\<open>Loops and bounds.\<close> No definition uses fuel. The loops that are not structural have termination proofs: the heap
  operations by the index, the drain of ready ranks by the pending in-degrees, the closure of requirements
  by the number of catalog providers not yet selected, the token stream by the weight of the open frames, the
  validation of values by the size of the schema. The loop over the frontiers of an impact traversal is a partial
  function whose value is \<open>None\<close> where it does not return; it returns because each round reaches an entity of the
  index that was not reached before. Counters and times are unbounded integers with the code's
  checks for safe integers written out.

  \<^bold>\<open>Parameters.\<close> The hash function, \<open>path.relative\<close> of the host, clocks, random nonces and the injected operations of the
  pipeline are arguments. Where a property relies on them, the assumption is a named predicate
  (for the hash \<open>hex_hash\<close>: sixty-four hexadecimal digits) with an instance. Strings are lists of code units
  below 256, on which the NFC normalization is the identity. Object identity in weak sets is modelled by references; freezing has no counterpart for values.

  \<^bold>\<open>Not modelled.\<close> The host adapters, command line, composition roots and tests: they do input and output behind
  the interfaces above. Semantic mutation rests on the TypeScript compiler, upgrades on registry trees. Promise based
  helpers of \<^verbatim>\<open>src/src/execution\<close> interleave in ways the sequential actions do not express. The
  strongly connected components of \<^verbatim>\<open>src/src/contracts/directed-graph.ts\<close> have no client among the modelled parts. Contracts
  enter as typed values: the normalization of their sources (\<^verbatim>\<open>src/src/semantics/definitions/normalize.ts\<close>) is not
  modelled, nor is the part of the validation that inspects property descriptors, proxies and prototypes of objects.
\<close>

end
